(* ===== verification/Fdm_Prelude.thy ===== *)
theory Fdm_Prelude imports Main "HOL-Library.Word" begin

text \<open>
  Shared vocabulary of the development: fatal errors as values, the memory primitives of C on
  byte lists, the parts of \<^verbatim>\<open>ctype.h\<close> and \<^verbatim>\<open>string.h\<close> the sources use, and the number
  parsing of \<^verbatim>\<open>compat/strtonum.c\<close>.

  Bytes are \<^typ>\<open>char\<close> (0 to 255). A C string is a \<^typ>\<open>char list\<close> without NUL and without its
  terminator. A memory block is a \<^typ>\<open>char list\<close> of the length of the block. A call of
  \<open>fatal\<close> or \<open>fatalx\<close> (which never return) is the value \<open>Inl (FatalX msg)\<close>; an access outside
  a block, undefined in C, is the value \<open>Inl (MemErr what)\<close>, so that a theorem which says that an
  operation returns \<open>Inr\<close> also says that it stays inside its memory. A loop that makes no progress and
  so never ends in C is the value \<open>Inl (Diverges what)\<close>.
\<close>

section \<open>Collections of facts\<close>

named_theorems fdm_simps \<open>equations that unfold the small helpers of the model\<close>
named_theorems fdm_inv \<open>preservation of the invariants of the components\<close>

section \<open>Fatal errors\<close>

datatype fatal = FatalX string | MemErr string | Diverges string

type_synonym 'a res = "fatal + 'a"

definition rbind :: "'e + 'a \<Rightarrow> ('a \<Rightarrow> 'e + 'b) \<Rightarrow> 'e + 'b" where
  "rbind r f = (case r of Inl e \<Rightarrow> Inl e | Inr x \<Rightarrow> f x)"

lemma rbind_simps [simp]:
  "rbind (Inl e) f = Inl e"
  "rbind (Inr x) f = f x"
  by (simp_all add: rbind_def)

lemma rbind_Inr_iff: "rbind r f = Inr y \<longleftrightarrow> (\<exists>x. r = Inr x \<and> f x = Inr y)"
  by (cases r) auto

lemma rbind_assoc [fdm_simps]: "rbind (rbind r f) g = rbind r (\<lambda>x. rbind (f x) g)"
  by (cases r) auto

lemma find_over_map: "List.find P (map f xs) = map_option f (List.find (\<lambda>x. P (f x)) xs)"
  by (induction xs) auto

section \<open>Sizes\<close>

text \<open>
  A 64-bit \<open>size_t\<close> and a 32-bit \<open>u_int\<close>. Most offsets are modelled as \<^typ>\<open>nat\<close>; where the
  code relies on the wrap-around of an unsigned subtraction it is written with \<open>size_sub\<close>.
\<close>

type_synonym size_t = "64 word"
type_synonym u_int = "32 word"

definition SIZE_MAX :: nat where "SIZE_MAX = 18446744073709551615"
definition UINT_MAX :: nat where "UINT_MAX = 4294967295"
definition INT_MAX :: int where "INT_MAX = 2147483647"
definition LLONG_MAX :: int where "LLONG_MAX = 9223372036854775807"
definition LLONG_MIN :: int where "LLONG_MIN = - 9223372036854775808"

definition size_sub :: "nat \<Rightarrow> nat \<Rightarrow> nat" where
  "size_sub a b = (if b \<le> a then a - b else a + (SIZE_MAX + 1) - b)"

lemma size_sub_le [simp]: "b \<le> a \<Longrightarrow> size_sub a b = a - b"
  by (simp add: size_sub_def)

lemma size_sub_eq_small: "n + b \<le> SIZE_MAX \<Longrightarrow> size_sub a b = n \<longleftrightarrow> a = n + b"
  by (auto simp: size_sub_def)

section \<open>Memory blocks\<close>

definition mem_read :: "char list \<Rightarrow> nat \<Rightarrow> nat \<Rightarrow> char list res" where
  "mem_read m pos n =
     (if pos + n \<le> length m then Inr (take n (drop pos m)) else Inl (MemErr ''read''))"

definition mem_write :: "char list \<Rightarrow> nat \<Rightarrow> char list \<Rightarrow> char list res" where
  "mem_write m pos bs =
     (if pos + length bs \<le> length m then Inr (take pos m @ bs @ drop (pos + length bs) m)
      else Inl (MemErr ''write''))"

definition mem_move :: "char list \<Rightarrow> nat \<Rightarrow> nat \<Rightarrow> nat \<Rightarrow> char list res" where
  "mem_move m dst src n = rbind (mem_read m src n) (mem_write m dst)"

lemma mem_write_length: "mem_write m pos bs = Inr m' \<Longrightarrow> length m' = length m"
  by (auto simp: mem_write_def split: if_splits)

lemma mem_move_length: "mem_move m d s n = Inr m' \<Longrightarrow> length m' = length m"
  by (auto simp: mem_move_def rbind_Inr_iff intro: mem_write_length)

definition read_cstr :: "char list \<Rightarrow> nat \<Rightarrow> char list res" where
  "read_cstr m pos =
     (if CHR 0x00 \<in> set (drop pos m) then Inr (takeWhile (\<lambda>c. c \<noteq> CHR 0x00) (drop pos m))
      else Inl (MemErr ''unterminated string''))"

text \<open>What a block holds at a position after a write.\<close>

lemma take_drop_written:
  "pos + length bs \<le> length m \<Longrightarrow>
     take (length bs) (drop pos (take pos m @ bs @ drop (pos + length bs) m)) = bs"
  by simp

section \<open>Character classes of the C locale\<close>

abbreviation NUL :: char where "NUL \<equiv> CHR 0x00"
abbreviation NL :: char where "NL \<equiv> CHR 0x0A"
abbreviation CR :: char where "CR \<equiv> CHR 0x0D"
abbreviation TAB :: char where "TAB \<equiv> CHR 0x09"
abbreviation SP :: char where "SP \<equiv> CHR '' ''"
abbreviation DQ :: char where "DQ \<equiv> CHR 0x22"

definition code :: "char \<Rightarrow> nat" where "code c = of_char c"

definition isspace :: "char \<Rightarrow> bool" where
  "isspace c \<longleftrightarrow> c = SP \<or> (9 \<le> code c \<and> code c \<le> 13)"

definition isblank :: "char \<Rightarrow> bool" where
  "isblank c \<longleftrightarrow> c = SP \<or> c = TAB"

definition isdigit :: "char \<Rightarrow> bool" where
  "isdigit c \<longleftrightarrow> 48 \<le> code c \<and> code c \<le> 57"

definition isupper :: "char \<Rightarrow> bool" where
  "isupper c \<longleftrightarrow> 65 \<le> code c \<and> code c \<le> 90"

definition islower :: "char \<Rightarrow> bool" where
  "islower c \<longleftrightarrow> 97 \<le> code c \<and> code c \<le> 122"

definition isalnum :: "char \<Rightarrow> bool" where
  "isalnum c \<longleftrightarrow> isdigit c \<or> isupper c \<or> islower c"

definition tolower :: "char \<Rightarrow> char" where
  "tolower c = (if isupper c then char_of (code c + 32) else c)"

definition toupper :: "char \<Rightarrow> char" where
  "toupper c = (if islower c then char_of (code c - 32) else c)"

section \<open>Strings\<close>

text \<open>\<open>memchr s c\<close> is the offset of the first \<open>c\<close>; \<open>strchr\<close> on a C string is the same.\<close>

fun memchr :: "char list \<Rightarrow> char \<Rightarrow> nat option" where
  "memchr [] c = None"
| "memchr (x # xs) c = (if x = c then Some 0 else map_option Suc (memchr xs c))"

definition strncasecmp_eq :: "char list \<Rightarrow> char list \<Rightarrow> bool" where
  "strncasecmp_eq a b \<longleftrightarrow> map tolower a = map tolower b"

definition strspn :: "char list \<Rightarrow> char list \<Rightarrow> nat" where
  "strspn s acc = length (takeWhile (\<lambda>c. c \<in> set acc) s)"

text \<open>The C string that starts a block: up to, and without, the first NUL.\<close>

definition cstr :: "char list \<Rightarrow> char list" where
  "cstr s = takeWhile (\<lambda>c. c \<noteq> NUL) s"

definition is_cstr :: "char list \<Rightarrow> bool" where
  "is_cstr s \<longleftrightarrow> NUL \<notin> set s"

lemma memchr_None: "memchr s c = None \<longleftrightarrow> c \<notin> set s"
  by (induction s) auto

lemma memchr_Some:
  "memchr s c = Some i \<longleftrightarrow> i < length s \<and> s ! i = c \<and> c \<notin> set (take i s)"
proof (induction s arbitrary: i)
  case Nil
  then show ?case by simp
next
  case (Cons x xs)
  then show ?case by (cases i) auto
qed

lemma memchr_less: "memchr s c = Some i \<Longrightarrow> i < length s"
  by (simp add: memchr_Some)

lemma memchr_append:
  "c \<notin> set xs \<Longrightarrow> memchr (xs @ c # ys) c = Some (length xs)"
  by (induction xs) auto

lemma memchr_append2: "c \<notin> set xs \<Longrightarrow> memchr (xs @ ys) c = map_option ((+) (length xs)) (memchr ys c)"
  by (induction xs; cases "memchr ys c") auto

lemma cstr_terminated: "is_cstr s \<Longrightarrow> cstr (s @ NUL # t) = s"
  unfolding cstr_def is_cstr_def by (induction s) auto

lemma is_cstr_cstr: "is_cstr (cstr s)"
  unfolding cstr_def is_cstr_def by (auto dest: set_takeWhileD)

lemma cstr_append: "NUL \<in> set s \<Longrightarrow> cstr (s @ t) = cstr s"
  unfolding cstr_def by (induction s) auto

lemma read_cstr_Inr: "read_cstr m pos = Inr s \<longleftrightarrow> NUL \<in> set (drop pos m) \<and> s = cstr (drop pos m)"
  by (auto simp: read_cstr_def cstr_def)

text \<open>A string that ends inside the first \<open>u\<close> bytes only depends on these bytes.\<close>

lemma cstr_within:
  assumes "NUL \<in> set (drop pos (take u m))"
  shows "NUL \<in> set (drop pos m) \<and> cstr (drop pos m) = cstr (drop pos (take u m))"
proof -
  have "pos \<le> length (take u m)" using assms by (metis drop_eq_Nil empty_iff empty_set nat_le_linear)
  then have d: "drop pos m = drop pos (take u m) @ drop u m"
    using append_take_drop_id [of u m] by (metis drop_append diff_is_0_eq drop_0)
  from assms show ?thesis unfolding d by (simp add: cstr_append)
qed

lemma cstr_id: "is_cstr s \<Longrightarrow> cstr s = s"
  unfolding cstr_def is_cstr_def by (induction s) auto

section \<open>Numbers\<close>

text \<open>Decimal output, as \<^verbatim>\<open>%u\<close>, \<^verbatim>\<open>%lu\<close> and \<^verbatim>\<open>%zu\<close> print an unsigned number.\<close>

definition digit_char :: "nat \<Rightarrow> char" where "digit_char d = char_of (48 + d)"

definition digit_val :: "char \<Rightarrow> nat" where "digit_val c = code c - 48"

fun show_nat :: "nat \<Rightarrow> char list" where
  "show_nat n = (if n < 10 then [digit_char n] else show_nat (n div 10) @ [digit_char (n mod 10)])"

declare show_nat.simps [simp del]

definition digits_value :: "char list \<Rightarrow> nat" where
  "digits_value ds = foldl (\<lambda>v d. 10 * v + digit_val d) 0 ds"

lemma digit_char_digit: "d < 10 \<Longrightarrow> isdigit (digit_char d) \<and> digit_val (digit_char d) = d"
  by (simp add: digit_char_def digit_val_def isdigit_def code_def)

lemma show_nat_digits: "\<forall>c \<in> set (show_nat n). isdigit c"
proof (induction n rule: show_nat.induct)
  case (1 n)
  then show ?case
    by (subst show_nat.simps) (auto simp: digit_char_digit)
qed

lemma show_nat_nonempty: "show_nat n \<noteq> []"
  by (subst show_nat.simps) simp

lemma digits_value_show_nat: "digits_value (show_nat n) = n"
proof (induction n rule: show_nat.induct)
  case (1 n)
  show ?case
  proof (cases "n < 10")
    case True
    then show ?thesis
      by (subst show_nat.simps) (simp add: digits_value_def digit_char_digit)
  next
    case False
    with "1.IH" have "digits_value (show_nat (n div 10)) = n div 10" by simp
    with False show ?thesis
      by (subst show_nat.simps) (simp add: digits_value_def digit_char_digit)
  qed
qed

text \<open>
  \<open>strtoll (s, &end, 10)\<close>: leading white space, a sign, digits. The result is the value, clamped
  to the range of \<open>long long\<close>, whether it was clamped (ERANGE) and the rest of the string; with no
  digit the rest is the whole string.
\<close>

definition strtoll10 :: "char list \<Rightarrow> int \<times> bool \<times> char list" where
  "strtoll10 s =
     (let t = dropWhile isspace s;
          neg = (t \<noteq> [] \<and> hd t = CHR ''-'');
          u = (if t \<noteq> [] \<and> (hd t = CHR ''-'' \<or> hd t = CHR ''+'') then tl t else t);
          ds = takeWhile isdigit u;
          v = (if neg then - int (digits_value ds) else int (digits_value ds))
      in if ds = [] then (0, False, s)
         else if v < LLONG_MIN then (LLONG_MIN, True, dropWhile isdigit u)
         else if LLONG_MAX < v then (LLONG_MAX, True, dropWhile isdigit u)
         else (v, False, dropWhile isdigit u))"

datatype strtonum_error = NumInvalid | NumTooSmall | NumTooLarge

text \<open>\<open>strtonum\<close> of \<^verbatim>\<open>compat/strtonum.c\<close>, with the error string as an error value.\<close>

definition strtonum :: "char list \<Rightarrow> int \<Rightarrow> int \<Rightarrow> strtonum_error + int" where
  "strtonum numstr minval maxval =
     (if minval > maxval then Inl NumInvalid
      else case strtoll10 numstr of (ll, erange, ep) \<Rightarrow>
        if ep = numstr \<or> ep \<noteq> [] then Inl NumInvalid
        else if (ll = LLONG_MIN \<and> erange) \<or> ll < minval then Inl NumTooSmall
        else if (ll = LLONG_MAX \<and> erange) \<or> ll > maxval then Inl NumTooLarge
        else Inr ll)"

lemma isdigit_not_space: "isdigit c \<Longrightarrow> \<not> isspace c \<and> c \<noteq> CHR ''-'' \<and> c \<noteq> CHR ''+''"
  by (auto simp: isdigit_def isspace_def code_def)

lemma strtonum_show_nat:
  assumes "lo \<le> int n" and "int n \<le> hi" and "hi \<le> LLONG_MAX"
  shows "strtonum (show_nat n) lo hi = Inr (int n)"
proof -
  have d: "\<forall>c \<in> set (show_nat n). isdigit c" by (rule show_nat_digits)
  obtain c cs where s: "show_nat n = c # cs"
    using show_nat_nonempty by (cases "show_nat n") auto
  have dw: "dropWhile isspace (show_nat n) = show_nat n"
    using d s by (simp add: isdigit_not_space)
  have tw: "takeWhile isdigit cs = cs" "dropWhile isdigit cs = []"
    using d s by simp_all
  have "strtoll10 (show_nat n) = (int n, False, [])"
    using assms d s digits_value_show_nat [of n] isdigit_not_space [of c]
    unfolding strtoll10_def dw by (simp add: Let_def LLONG_MIN_def tw)
  then show ?thesis
    using assms show_nat_nonempty [of n] by (simp add: strtonum_def)
qed

lemma strtonum_range: "strtonum s lo hi = Inr n \<Longrightarrow> lo \<le> n \<and> n \<le> hi"
  by (auto simp: strtonum_def split: if_splits prod.splits)

end
