(* ===== verification/Xmalloc.thy ===== *)
theory Xmalloc imports Fdm_Prelude begin

text \<open>
  The checked allocation of \<^verbatim>\<open>xmalloc.c\<close>: the overflow checks of \<open>xcalloc\<close>, \<open>xmalloc\<close> and
  \<open>xrealloc\<close>, and the growth of \<open>ensure_size\<close> and \<open>ensure_for\<close>, on blocks of bytes with a 64-bit
  \<open>size_t\<close>. Allocation itself is taken to succeed (a failing \<open>malloc\<close> ends the process), and
  fresh memory, whose content C leaves open, reads as NUL here.
\<close>

abbreviation size_max :: size_t where "size_max \<equiv> - 1"

definition BUFSIZ :: size_t where "BUFSIZ = 8192"

definition xcalloc :: "size_t \<Rightarrow> size_t \<Rightarrow> char list res" where
  "xcalloc nmemb sz =
     (if sz = 0 \<or> nmemb = 0 then Inl (FatalX ''zero size'')
      else if size_max div nmemb < sz then Inl (FatalX ''nmemb * size > SIZE_MAX'')
      else Inr (replicate (unat (nmemb * sz)) NUL))"

definition xmalloc :: "size_t \<Rightarrow> char list res" where
  "xmalloc sz =
     (if sz = 0 then Inl (FatalX ''zero size'') else Inr (replicate (unat sz) NUL))"

definition xrealloc :: "char list \<Rightarrow> size_t \<Rightarrow> size_t \<Rightarrow> char list res" where
  "xrealloc oldptr nmemb sz =
     (let newsize = nmemb * sz in
      if newsize = 0 then Inl (FatalX ''zero size'')
      else if size_max div nmemb < sz then Inl (FatalX ''nmemb * size > SIZE_MAX'')
      else Inr (take (unat newsize) oldptr @ replicate (unat newsize - length oldptr) NUL))"

lemma unat_size_max: "unat size_max = SIZE_MAX"
  by (simp add: unsigned_minus_1_eq_mask mask_eq_exp_minus_1 SIZE_MAX_def)

lemma unat_le_SIZE_MAX: "unat (w :: size_t) \<le> SIZE_MAX"
  using unsigned_less [of w, where 'a = nat] by (simp add: SIZE_MAX_def)

text \<open>Doubling a block: the result of \<open>xrealloc (p, 2, n)\<close> when it is not fatal.\<close>

lemma xrealloc_2:
  assumes "xrealloc buf 2 len = Inr buf'"
  shows "unat (2 * len) = 2 * unat len" and "0 < unat len"
    and "buf' = take (2 * unat len) buf @ replicate (2 * unat len - length buf) NUL"
proof -
  have nz: "2 * len \<noteq> 0" and le: "len \<le> size_max div 2"
    and eq: "buf' = take (unat (2 * len)) buf @ replicate (unat (2 * len) - length buf) NUL"
    using assms by (auto simp: xrealloc_def Let_def split: if_splits)
  have "unat len \<le> SIZE_MAX div 2"
    using le by (simp add: word_le_nat_alt unat_div unat_size_max SIZE_MAX_def)
  then have "2 * unat len < 2 ^ 64" by (simp add: SIZE_MAX_def)
  then show u: "unat (2 * len) = 2 * unat len"
    by (simp add: unat_word_ariths)
  show "0 < unat len" using nz by (metis mult_zero_right unat_eq_zero neq0_conv)
  show "buf' = take (2 * unat len) buf @ replicate (2 * unat len - length buf) NUL"
    using eq u by simp
qed

lemma xrealloc_2_ok:
  assumes "0 < unat len" and "unat len < 2 ^ 63"
  shows "\<exists>buf'. xrealloc buf 2 len = Inr buf'"
proof -
  have u: "unat (2 * len) = 2 * unat len"
    using assms by (simp add: unat_word_ariths)
  then have nz: "2 * len \<noteq> 0" using assms by (metis mult_is_0 neq0_conv unat_0 zero_neq_numeral)
  have "len \<le> size_max div 2"
    using assms by (simp add: word_le_nat_alt unat_div unat_size_max SIZE_MAX_def)
  with nz show ?thesis by (simp add: xrealloc_def Let_def not_less)
qed

text \<open>
  The loop the growable blocks share: \<open>while (small) { buf = xrealloc (buf, 2, len); len *= 2; }\<close>.
\<close>

function grow :: "(size_t \<Rightarrow> bool) \<Rightarrow> char list \<Rightarrow> size_t \<Rightarrow> (char list \<times> size_t) res" where
  "grow small buf len =
     (if small len then
        (case xrealloc buf 2 len of
           Inl e \<Rightarrow> Inl e
         | Inr buf' \<Rightarrow> grow small buf' (2 * len))
      else Inr (buf, len))"
  by pat_completeness auto
termination
proof (relation "measure (\<lambda>(_, _, len). 2 ^ 64 - unat len)")
  fix small :: "size_t \<Rightarrow> bool" and buf buf' and len :: size_t
  assume "xrealloc buf 2 len = Inr buf'"
  note r = xrealloc_2 [OF this]
  have "unat (2 * len) < 2 ^ 64" using unsigned_less [of "2 * len", where 'a = nat] by simp
  with r show "((small, buf', 2 * len), small, buf, len) \<in> measure (\<lambda>(_, _, len). 2 ^ 64 - unat len)"
    by simp
qed simp

declare grow.simps [simp del]

definition ensure_for :: "char list \<Rightarrow> size_t \<Rightarrow> size_t \<Rightarrow> size_t \<Rightarrow> (char list \<times> size_t) res" where
  "ensure_for buf len sz adj =
     (if adj = 0 then Inl (FatalX ''zero adj'')
      else if size_max - sz < adj then Inl (FatalX ''size + adj > SIZE_MAX'')
      else
        (let sz = sz + adj in
         rbind (if len = 0 then rbind (xmalloc BUFSIZ) (\<lambda>b. Inr (b, BUFSIZ)) else Inr (buf, len))
           (\<lambda>(buf, len). grow (\<lambda>l. l \<le> sz) buf len)))"

definition ensure_size :: "char list \<Rightarrow> size_t \<Rightarrow> size_t \<Rightarrow> size_t \<Rightarrow> (char list \<times> size_t) res" where
  "ensure_size buf len nmemb sz =
     (if nmemb = 0 \<or> sz = 0 then Inl (FatalX ''zero size'')
      else if size_max div nmemb < sz then Inl (FatalX ''nmemb * size > SIZE_MAX'')
      else rbind (if len = 0 then rbind (xmalloc BUFSIZ) (\<lambda>b. Inr (b, BUFSIZ)) else Inr (buf, len))
             (\<lambda>(buf, len). grow (\<lambda>l. l \<le> nmemb * sz) buf len))"

text \<open>A grown block is large enough, has the length it says and starts with the old content.\<close>

lemma grow_result:
  assumes "grow small buf len = Inr (buf', len')" and "length buf = unat len"
  shows "\<not> small len' \<and> unat len \<le> unat len' \<and> length buf' = unat len' \<and> take (unat len) buf' = buf"
  using assms
proof (induction small buf len arbitrary: buf' len' rule: grow.induct)
  case (1 small buf len)
  show ?case
  proof (cases "small len")
    case False
    with "1.prems" show ?thesis by (simp add: grow.simps [of small buf len])
  next
    case True
    then obtain b1 where b1: "xrealloc buf 2 len = Inr b1" and g: "grow small b1 (2 * len) = Inr (buf', len')"
      using "1.prems"(1) by (auto simp: grow.simps [of small buf len] split: sum.splits)
    note r = xrealloc_2 [OF b1]
    have len1: "length b1 = unat (2 * len)" using r "1.prems"(2) by simp
    have IH: "\<not> small len' \<and> unat (2 * len) \<le> unat len' \<and> length buf' = unat len' \<and>
        take (unat (2 * len)) buf' = b1"
      using "1.IH" [OF True b1 g len1] .
    have "take (unat len) buf' = take (unat len) (take (unat (2 * len)) buf')"
      using r(1) by (simp add: min_def)
    also have "\<dots> = buf" using IH r "1.prems"(2) by simp
    finally show ?thesis using IH r(1) by simp
  qed
qed

text \<open>And growing to any sz below \<open>2 ^ 63\<close> does return.\<close>

lemma grow_returns:
  assumes "0 < unat len" and "\<And>l. small l \<Longrightarrow> unat l < 2 ^ 63"
  shows "\<exists>r. grow small buf len = Inr r"
  using assms
proof (induction small buf len rule: grow.induct)
  case (1 small buf len)
  show ?case
  proof (cases "small len")
    case False
    then show ?thesis by (simp add: grow.simps [of small buf len])
  next
    case True
    have lt: "unat len < 2 ^ 63" by (rule "1.prems"(2) [OF True])
    obtain b1 where b1: "xrealloc buf 2 len = Inr b1"
      using xrealloc_2_ok [OF "1.prems"(1) lt] by blast
    have pos: "0 < unat (2 * len)" using xrealloc_2 [OF b1] by simp
    have "\<exists>r. grow small b1 (2 * len) = Inr r"
      using "1.IH" [OF True b1 pos] "1.prems"(2) by blast
    with True b1 show ?thesis by (simp add: grow.simps [of small buf len])
  qed
qed

lemma unat_plus_checked:
  "\<not> size_max - a < (b :: size_t) \<Longrightarrow> unat (a + b) = unat a + unat b"
proof -
  assume "\<not> size_max - a < b"
  then have "unat b \<le> SIZE_MAX - unat a"
    by (simp add: not_less word_le_nat_alt unat_sub unat_size_max unat_le_SIZE_MAX)
  then have "unat a + unat b < 2 ^ 64"
    using unat_le_SIZE_MAX [of a] by (simp add: SIZE_MAX_def)
  then show ?thesis by (simp add: unat_word_ariths)
qed

lemma ensure_for_room:
  assumes b: "length buf = unat len" "0 < unat len" and adj: "0 < unat adj" and small: "unat sz + unat adj < 2 ^ 63"
  shows "\<exists>buf' len'. ensure_for buf len sz adj = Inr (buf', len') \<and> length buf' = unat len' \<and>
    unat sz + unat adj < unat len' \<and> unat len \<le> unat len' \<and> take (unat len) buf' = buf"
proof -
  have chk: "\<not> size_max - sz < adj"
    using small unat_le_SIZE_MAX [of sz] by (simp add: not_less word_le_nat_alt unat_sub unat_size_max SIZE_MAX_def)
  have sum: "unat (sz + adj) = unat sz + unat adj" by (rule unat_plus_checked [OF chk])
  have "\<exists>r. grow (\<lambda>l. l \<le> sz + adj) buf len = Inr r"
    by (rule grow_returns [OF b(2)]) (use sum small in \<open>simp add: word_le_nat_alt\<close>)
  then obtain buf' len' where g: "grow (\<lambda>l. l \<le> sz + adj) buf len = Inr (buf', len')" by auto
  have "len \<noteq> 0" "adj \<noteq> 0" using b(2) adj by auto
  then have "ensure_for buf len sz adj = Inr (buf', len')"
    using g chk by (simp add: ensure_for_def Let_def)
  with grow_result [OF g b(1)] sum show ?thesis by (auto simp: word_le_nat_alt not_le)
qed

end
