(* ===== verification/Buffer.thy ===== *)
theory Buffer imports Xmalloc begin

text \<open>
  The growable buffer of \<^verbatim>\<open>buffer.c\<close> (its macros are in \<^verbatim>\<open>io.h\<close>): a block with the data at
  an offset, 64-bit sizes and every check of the source. The interface a client relies on is the
  locale \<open>byte_queue\<close>: bytes come out in the order in which they went in.
\<close>

record buffer =
  b_base :: "char list"
  b_space :: size_t
  b_size :: size_t
  b_off :: size_t

definition BUFFER_USED :: "buffer \<Rightarrow> size_t" where "BUFFER_USED b = b_size b"
definition BUFFER_FREE :: "buffer \<Rightarrow> size_t" where
  "BUFFER_FREE b = b_space b - b_off b - b_size b"
definition BUFFER_IN :: "buffer \<Rightarrow> nat" where "BUFFER_IN b = unat (b_off b + b_size b)"
definition BUFFER_OUT :: "buffer \<Rightarrow> nat" where "BUFFER_OUT b = unat (b_off b)"

section \<open>Operations\<close>

definition buffer_create :: "size_t \<Rightarrow> buffer res" where
  "buffer_create sz =
     (if sz = 0 then Inl (FatalX ''zero size'')
      else rbind (xmalloc sz) (\<lambda>base. Inr \<lparr>b_base = base, b_space = sz, b_size = 0, b_off = 0\<rparr>))"

definition buffer_clear :: "buffer \<Rightarrow> buffer" where
  "buffer_clear b = b\<lparr>b_size := 0, b_off := 0\<rparr>"

definition buffer_compact :: "buffer \<Rightarrow> buffer res" where
  "buffer_compact b =
     (if b_off b > 0 then
        rbind (if b_size b > 0 then mem_move (b_base b) 0 (unat (b_off b)) (unat (b_size b))
               else Inr (b_base b))
          (\<lambda>base. Inr (b\<lparr>b_base := base, b_off := 0\<rparr>))
      else Inr b)"

definition buffer_ensure :: "buffer \<Rightarrow> size_t \<Rightarrow> buffer res" where
  "buffer_ensure b sz =
     (if sz = 0 then Inl (FatalX ''zero size'')
      else if BUFFER_FREE b \<ge> sz then Inr b
      else rbind (buffer_compact b) (\<lambda>b.
        if size_max - b_size b < sz then Inl (FatalX ''size too big'')
        else rbind (grow (\<lambda>space. space < b_size b + sz) (b_base b) (b_space b))
               (\<lambda>(base, space). Inr (b\<lparr>b_base := base, b_space := space\<rparr>))))"

definition buffer_add :: "buffer \<Rightarrow> size_t \<Rightarrow> buffer res" where
  "buffer_add b sz =
     (if sz = 0 then Inl (FatalX ''zero size'')
      else if sz > b_space b - b_size b then Inl (FatalX ''overflow'')
      else Inr (b\<lparr>b_size := b_size b + sz\<rparr>))"

definition buffer_reverse_add :: "buffer \<Rightarrow> size_t \<Rightarrow> buffer res" where
  "buffer_reverse_add b sz =
     (if sz = 0 then Inl (FatalX ''zero size'')
      else if sz > b_size b then Inl (FatalX ''underflow'')
      else Inr (b\<lparr>b_size := b_size b - sz\<rparr>))"

definition buffer_remove :: "buffer \<Rightarrow> size_t \<Rightarrow> buffer res" where
  "buffer_remove b sz =
     (if sz = 0 then Inl (FatalX ''zero size'')
      else if sz > b_size b then Inl (FatalX ''underflow'')
      else Inr (b\<lparr>b_size := b_size b - sz, b_off := b_off b + sz\<rparr>))"

definition buffer_reverse_remove :: "buffer \<Rightarrow> size_t \<Rightarrow> buffer res" where
  "buffer_reverse_remove b sz =
     (if sz = 0 then Inl (FatalX ''zero size'')
      else if sz > b_off b then Inl (FatalX ''overflow'')
      else Inr (b\<lparr>b_size := b_size b + sz, b_off := b_off b - sz\<rparr>))"

definition buffer_insert_range :: "buffer \<Rightarrow> size_t \<Rightarrow> size_t \<Rightarrow> buffer res" where
  "buffer_insert_range b base sz =
     (if sz = 0 then Inl (FatalX ''zero size'')
      else if base > b_size b then Inl (FatalX ''range outside buffer'')
      else rbind (buffer_ensure b sz) (\<lambda>b.
        rbind (mem_move (b_base b) (unat (b_off b) + unat base + unat sz) (unat (b_off b) + unat base)
                 (unat (b_size b - base)))
          (\<lambda>mem. Inr (b\<lparr>b_base := mem, b_size := b_size b + sz\<rparr>))))"

definition buffer_delete_range :: "buffer \<Rightarrow> size_t \<Rightarrow> size_t \<Rightarrow> buffer res" where
  "buffer_delete_range b base sz =
     (if sz = 0 then Inl (FatalX ''zero size'')
      else if sz > b_size b then Inl (FatalX ''size too big'')
      else if base + sz > b_size b then Inl (FatalX ''range outside buffer'')
      else rbind (mem_move (b_base b) (unat (b_off b) + unat base) (unat (b_off b) + unat base + unat sz)
                    (unat (b_size b - base - sz)))
             (\<lambda>mem. Inr (b\<lparr>b_base := mem, b_size := b_size b - sz\<rparr>)))"

definition buffer_write :: "buffer \<Rightarrow> char list \<Rightarrow> buffer res" where
  "buffer_write b data =
     (let sz = word_of_nat (length data) in
      if sz = 0 then Inl (FatalX ''zero size'')
      else rbind (buffer_ensure b sz) (\<lambda>b.
        rbind (mem_write (b_base b) (BUFFER_IN b) data) (\<lambda>mem. buffer_add (b\<lparr>b_base := mem\<rparr>) sz)))"

definition buffer_read :: "buffer \<Rightarrow> size_t \<Rightarrow> (char list \<times> buffer) res" where
  "buffer_read b sz =
     (if sz = 0 then Inl (FatalX ''zero size'')
      else if sz > b_size b then Inl (FatalX ''underflow'')
      else rbind (mem_read (b_base b) (BUFFER_OUT b) (unat sz)) (\<lambda>data.
        rbind (buffer_remove b sz) (\<lambda>b. Inr (data, b))))"

definition buffer_write8 :: "buffer \<Rightarrow> 8 word \<Rightarrow> buffer res" where
  "buffer_write8 b n =
     rbind (buffer_ensure b 1) (\<lambda>b.
       rbind (mem_write (b_base b) (BUFFER_IN b) [char_of (unat n)])
         (\<lambda>mem. buffer_add (b\<lparr>b_base := mem\<rparr>) 1))"

definition buffer_write16 :: "buffer \<Rightarrow> 16 word \<Rightarrow> buffer res" where
  "buffer_write16 b n =
     rbind (buffer_ensure b 2) (\<lambda>b.
       rbind (mem_write (b_base b) (BUFFER_IN b)
                [char_of (unat (and n 0xff)), char_of (unat (drop_bit 8 n))])
         (\<lambda>mem. buffer_add (b\<lparr>b_base := mem\<rparr>) 2))"

definition buffer_read8 :: "buffer \<Rightarrow> (8 word \<times> buffer) res" where
  "buffer_read8 b =
     rbind (mem_read (b_base b) (BUFFER_OUT b) 1) (\<lambda>d.
       rbind (buffer_remove b 1) (\<lambda>b. Inr (of_char (d ! 0), b)))"

definition buffer_read16 :: "buffer \<Rightarrow> (16 word \<times> buffer) res" where
  "buffer_read16 b =
     rbind (mem_read (b_base b) (BUFFER_OUT b) 2) (\<lambda>d.
       rbind (buffer_remove b 2) (\<lambda>b. Inr (or (of_char (d ! 0)) (push_bit 8 (of_char (d ! 1))), b)))"

section \<open>Invariant and content\<close>

definition buffer_ok :: "buffer \<Rightarrow> bool" where
  "buffer_ok b \<longleftrightarrow> length (b_base b) = unat (b_space b) \<and> 0 < unat (b_space b) \<and>
     unat (b_off b) + unat (b_size b) \<le> unat (b_space b)"

definition contents :: "buffer \<Rightarrow> char list" where
  "contents b = take (unat (b_size b)) (drop (unat (b_off b)) (b_base b))"

lemma length_contents: "buffer_ok b \<Longrightarrow> length (contents b) = unat (b_size b)"
  by (auto simp: buffer_ok_def contents_def min_def)

lemma buffer_ok_bound: "buffer_ok b \<Longrightarrow> unat (b_off b) + unat (b_size b) \<le> SIZE_MAX"
  using unat_le_SIZE_MAX [of "b_space b"] by (simp add: buffer_ok_def)

lemma unat_add_bounded: "unat a + unat b \<le> SIZE_MAX \<Longrightarrow> unat (a + b :: size_t) = unat a + unat b"
  by (simp add: unat_word_ariths SIZE_MAX_def)

lemma BUFFER_IN_nat: "buffer_ok b \<Longrightarrow> BUFFER_IN b = unat (b_off b) + unat (b_size b)"
  by (simp add: BUFFER_IN_def unat_add_bounded buffer_ok_bound)

lemma BUFFER_FREE_nat:
  assumes "buffer_ok b"
  shows "unat (BUFFER_FREE b) = unat (b_space b) - unat (b_off b) - unat (b_size b)"
proof -
  have le: "unat (b_off b) \<le> unat (b_space b)" "unat (b_size b) \<le> unat (b_space b) - unat (b_off b)"
    using assms by (auto simp: buffer_ok_def)
  have "unat (b_space b - b_off b) = unat (b_space b) - unat (b_off b)"
    using le by (simp add: unat_sub word_le_nat_alt)
  with le show ?thesis by (simp add: BUFFER_FREE_def unat_sub word_le_nat_alt)
qed

section \<open>Every operation keeps the invariant and does to the content what it says\<close>

lemma buffer_compact_correct:
  assumes ok: "buffer_ok b"
  shows "\<exists>b'. buffer_compact b = Inr b' \<and> buffer_ok b' \<and> contents b' = contents b \<and>
    b_size b' = b_size b \<and> b_space b' = b_space b \<and> b_off b' = 0"
proof (cases "b_off b > 0 \<and> b_size b > 0")
  case True
  have len: "unat (b_off b) + unat (b_size b) \<le> length (b_base b)"
    using ok by (simp add: buffer_ok_def)
  with True ok show ?thesis
    by (auto simp: buffer_compact_def mem_move_def mem_read_def mem_write_def contents_def buffer_ok_def)
next
  case False
  then have "b_off b = 0 \<or> b_size b = 0" by (auto simp: word_gt_0)
  with ok show ?thesis
    by (auto simp: buffer_compact_def contents_def buffer_ok_def word_gt_0 split: if_splits)
qed

lemma buffer_ensure_correct:
  assumes ok: "buffer_ok b" and res: "buffer_ensure b sz = Inr b'"
  shows "buffer_ok b' \<and> contents b' = contents b \<and> b_size b' = b_size b \<and>
    unat (b_off b') + unat (b_size b') + unat sz \<le> unat (b_space b')"
proof (cases "BUFFER_FREE b \<ge> sz")
  case True
  have "unat sz \<le> unat (b_space b) - unat (b_off b) - unat (b_size b)"
    using True BUFFER_FREE_nat [OF ok] by (simp add: word_le_nat_alt)
  with True ok res show ?thesis
    by (auto simp: buffer_ensure_def buffer_ok_def split: if_splits)
next
  case False
  obtain b1 where b1: "buffer_compact b = Inr b1" "buffer_ok b1" "contents b1 = contents b"
      "b_size b1 = b_size b" "b_space b1 = b_space b" "b_off b1 = 0"
    using buffer_compact_correct [OF ok] by blast
  obtain base space where g: "grow (\<lambda>space. space < b_size b1 + sz) (b_base b1) (b_space b1) = Inr (base, space)"
      and chk: "\<not> size_max - b_size b1 < sz" and b': "b' = b1\<lparr>b_base := base, b_space := space\<rparr>"
    using res False b1(1) by (auto simp: buffer_ensure_def rbind_Inr_iff split: if_splits)
  have len: "length (b_base b1) = unat (b_space b1)" using b1(2) by (simp add: buffer_ok_def)
  note gr = grow_result [OF g len]
  have sum: "unat (b_size b1 + sz) = unat (b_size b1) + unat sz" by (rule unat_plus_checked [OF chk])
  have enough: "unat (b_size b1) + unat sz \<le> unat space"
    using gr sum by (simp add: not_less word_le_nat_alt)
  have pre: "b_base b1 = take (length (b_base b1)) base" using gr len by simp
  have sz1: "unat (b_size b1) \<le> length (b_base b1)" using b1(2,6) by (simp add: buffer_ok_def)
  have "take (unat (b_size b1)) (b_base b1) = take (unat (b_size b1)) base"
    using sz1 by (subst pre) (simp add: min_def)
  then have "contents b' = contents b1" using b' b1(6) by (simp add: contents_def)
  moreover have "buffer_ok b'"
    using gr enough b1(2,6) b' by (simp add: buffer_ok_def)
  ultimately show ?thesis using b1 enough b' by simp
qed

lemma buffer_ensure_returns:
  assumes ok: "buffer_ok b" and sz: "0 < unat sz" and small: "unat (b_size b) + unat sz \<le> 2 ^ 63"
  shows "\<exists>b'. buffer_ensure b sz = Inr b'"
proof (cases "BUFFER_FREE b \<ge> sz")
  case True
  with sz show ?thesis by (auto simp: buffer_ensure_def)
next
  case False
  obtain b1 where b1: "buffer_compact b = Inr b1" "buffer_ok b1" "b_size b1 = b_size b"
    using buffer_compact_correct [OF ok] by blast
  have chk: "\<not> size_max - b_size b1 < sz"
    using small b1(3) unat_le_SIZE_MAX [of "b_size b"]
    by (simp add: not_less word_le_nat_alt unat_sub unat_size_max SIZE_MAX_def)
  have sum: "unat (b_size b1 + sz) = unat (b_size b1) + unat sz" by (rule unat_plus_checked [OF chk])
  have "\<exists>r. grow (\<lambda>space. space < b_size b1 + sz) (b_base b1) (b_space b1) = Inr r"
    using b1(2,3) small sum by (intro grow_returns) (auto simp: buffer_ok_def word_less_nat_alt)
  with False sz chk b1(1) show ?thesis
    by (auto simp: buffer_ensure_def)
qed

lemma buffer_put_correct:
  assumes ok: "buffer_ok b" and n: "unat sz = length data"
    and room: "unat (b_off b) + unat (b_size b) + unat sz \<le> unat (b_space b)" and sz: "sz \<noteq> 0"
  shows "\<exists>b'. rbind (mem_write (b_base b) (BUFFER_IN b) data) (\<lambda>mem. buffer_add (b\<lparr>b_base := mem\<rparr>) sz)
      = Inr b' \<and> buffer_ok b' \<and> contents b' = contents b @ data"
proof -
  let ?p = "unat (b_off b) + unat (b_size b)"
  let ?mem = "take ?p (b_base b) @ data @ drop (?p + length data) (b_base b)"
  have len: "length (b_base b) = unat (b_space b)" using ok by (simp add: buffer_ok_def)
  have w: "mem_write (b_base b) (BUFFER_IN b) data = Inr ?mem"
    using room n len by (simp add: mem_write_def BUFFER_IN_nat [OF ok])
  have "b_size b \<le> b_space b" using room by (simp add: word_le_nat_alt)
  then have "\<not> sz > b_space b - b_size b"
    using room by (simp add: not_less word_le_nat_alt unat_sub)
  then have a: "buffer_add (b\<lparr>b_base := ?mem\<rparr>) sz = Inr (b\<lparr>b_base := ?mem, b_size := b_size b + sz\<rparr>)"
    using sz by (simp add: buffer_add_def)
  have us: "unat (b_size b + sz) = unat (b_size b) + unat sz"
    using room unat_le_SIZE_MAX [of "b_space b"] by (intro unat_add_bounded) simp
  have "length ?mem = unat (b_space b)" using room n len by simp
  moreover have "take (unat (b_size b) + length data) (drop (unat (b_off b)) ?mem) = contents b @ data"
    using room n len by (simp add: contents_def drop_take)
  ultimately show ?thesis
    using w a us room n ok by (simp add: buffer_ok_def contents_def)
qed

lemma word_of_length: "length data \<le> SIZE_MAX \<Longrightarrow> unat (word_of_nat (length data) :: size_t) = length data"
  by (simp add: unat_of_nat SIZE_MAX_def)

lemma buffer_write_correct:
  assumes ok: "buffer_ok b" and len: "length data \<le> SIZE_MAX" and res: "buffer_write b data = Inr b'"
  shows "buffer_ok b' \<and> contents b' = contents b @ data"
proof -
  let ?sz = "word_of_nat (length data) :: size_t"
  obtain b1 where nz: "?sz \<noteq> 0" and e: "buffer_ensure b ?sz = Inr b1"
    and w: "rbind (mem_write (b_base b1) (BUFFER_IN b1) data) (\<lambda>mem. buffer_add (b1\<lparr>b_base := mem\<rparr>) ?sz) = Inr b'"
    using res by (auto simp: buffer_write_def Let_def rbind_Inr_iff split: if_splits)
  note en = buffer_ensure_correct [OF ok e]
  show ?thesis
    using buffer_put_correct [of b1 ?sz data] en w nz word_of_length [OF len] by auto
qed

lemma buffer_write_returns:
  assumes ok: "buffer_ok b" and nz: "data \<noteq> []" and small: "length (contents b) + length data \<le> 2 ^ 63"
  shows "\<exists>b'. buffer_write b data = Inr b'"
proof -
  let ?sz = "word_of_nat (length data) :: size_t"
  have len: "length data \<le> SIZE_MAX" using small by (simp add: SIZE_MAX_def)
  have u: "unat ?sz = length data" by (rule word_of_length [OF len])
  then have sz: "?sz \<noteq> 0" using nz by (metis length_0_conv unat_0)
  obtain b1 where e: "buffer_ensure b ?sz = Inr b1"
    using buffer_ensure_returns [OF ok, of ?sz] small nz u length_contents [OF ok] by auto
  note en = buffer_ensure_correct [OF ok e]
  show ?thesis
    using buffer_put_correct [of b1 ?sz data] en u sz e by (auto simp: buffer_write_def Let_def)
qed

lemma buffer_remove_correct:
  assumes ok: "buffer_ok b" and nz: "sz \<noteq> 0" and le: "unat sz \<le> unat (b_size b)"
  shows "\<exists>b'. buffer_remove b sz = Inr b' \<and> buffer_ok b' \<and> contents b' = drop (unat sz) (contents b)"
proof -
  have "unat (b_off b + sz) = unat (b_off b) + unat sz"
    using ok le buffer_ok_bound [OF ok] by (intro unat_add_bounded) simp
  with ok nz le show ?thesis
    by (simp add: buffer_remove_def buffer_ok_def contents_def word_le_nat_alt not_less unat_sub
        drop_take add.commute)
qed

lemma buffer_read_correct:
  assumes ok: "buffer_ok b" and nz: "sz \<noteq> 0" and le: "unat sz \<le> length (contents b)"
  shows "\<exists>b'. buffer_read b sz = Inr (take (unat sz) (contents b), b') \<and> buffer_ok b' \<and>
    contents b' = drop (unat sz) (contents b)"
proof -
  have le': "unat sz \<le> unat (b_size b)" using le length_contents [OF ok] by simp
  have "mem_read (b_base b) (BUFFER_OUT b) (unat sz) = Inr (take (unat sz) (contents b))"
    using ok le' by (simp add: mem_read_def BUFFER_OUT_def buffer_ok_def contents_def min_def)
  then show ?thesis
    using buffer_remove_correct [OF ok nz le'] nz le'
    by (auto simp: buffer_read_def word_le_nat_alt not_less)
qed

lemma buffer_create_ok: "buffer_create sz = Inr b \<Longrightarrow> buffer_ok b \<and> contents b = []"
  by (auto simp: buffer_create_def xmalloc_def buffer_ok_def contents_def unat_gt_0 split: if_splits)

lemma buffer_clear_ok: "buffer_ok b \<Longrightarrow> buffer_ok (buffer_clear b) \<and> contents (buffer_clear b) = []"
  by (simp add: buffer_clear_def buffer_ok_def contents_def)

lemma buffer_insert_range_correct:
  assumes ok: "buffer_ok b" and res: "buffer_insert_range b base sz = Inr b'"
  shows "buffer_ok b' \<and> length (contents b') = length (contents b) + unat sz \<and>
    take (unat base) (contents b') = take (unat base) (contents b) \<and>
    drop (unat base + unat sz) (contents b') = drop (unat base) (contents b)"
proof -
  obtain b1 mem where le: "base \<le> b_size b" and e: "buffer_ensure b sz = Inr b1"
    and mv: "mem_move (b_base b1) (unat (b_off b1) + unat base + unat sz) (unat (b_off b1) + unat base)
      (unat (b_size b1 - base)) = Inr mem"
    and b': "b' = b1\<lparr>b_base := mem, b_size := b_size b1 + sz\<rparr>"
    using res by (auto simp: buffer_insert_range_def rbind_Inr_iff not_less split: if_splits)
  note en = buffer_ensure_correct [OF ok e]
  have le1: "unat base \<le> unat (b_size b1)" using le en by (simp add: word_le_nat_alt)
  have us: "unat (b_size b1 + sz) = unat (b_size b1) + unat sz"
    using en unat_le_SIZE_MAX [of "b_space b1"] by (intro unat_add_bounded) linarith
  have ud: "unat (b_size b1 - base) = unat (b_size b1) - unat base"
    using le1 by (simp add: unat_sub word_le_nat_alt)
  have len: "length (b_base b1) = unat (b_space b1)" using en by (simp add: buffer_ok_def)
  have lm: "length mem = length (b_base b1)" by (rule mem_move_length [OF mv])
  have "unat (b_off b1) + unat (b_size b1 + sz) \<le> unat (b_space b1)" using en us by linarith
  then have ok': "buffer_ok b'" using en lm len b' by (simp add: buffer_ok_def)
  let ?o = "unat (b_off b1)" and ?m = "b_base b1" and ?k = "unat base" and ?s = "unat sz"
  have mem: "mem = take (?o + ?k + ?s) ?m @ take (unat (b_size b1) - ?k) (drop (?o + ?k) ?m)
      @ drop (?o + ?s + unat (b_size b1)) ?m"
    using mv le1 len en ud
    by (auto simp: mem_move_def mem_read_def mem_write_def rbind_Inr_iff min_def add.commute add.left_commute
        split: if_splits)
  have c: "contents b' = take (unat (b_size b1) + ?s) (drop ?o mem)"
    using b' us by (simp add: contents_def)
  have room: "?o + unat (b_size b1) + ?s \<le> length ?m" using en len by linarith
  let ?n = "unat (b_size b1)"
  let ?A = "take (?k + ?s) (drop ?o ?m)" and ?B = "take (?n - ?k) (drop (?o + ?k) ?m)"
    and ?R = "drop (?o + ?s + ?n) ?m"
  have le2: "?o + ?k + ?s \<le> length ?m" using room le1 by linarith
  have dm: "drop ?o mem = ?A @ ?B @ ?R"
    unfolding mem using le2 by (simp add: drop_take)
  have lA: "length ?A = ?k + ?s" using le2 by simp
  have lB: "length ?B = ?n - ?k" using room by simp
  have cc: "contents b' = ?A @ ?B"
    using lA lB le1 unfolding c dm by (simp add: add.commute del: length_take length_drop)
  have c1: "contents b1 = take ?n (drop ?o ?m)" by (simp add: contents_def)
  have "take ?k (contents b') = take ?k (contents b1)"
    using lA le1 unfolding cc c1 by (simp add: min_absorb1 del: length_take length_drop)
  moreover have "drop (?k + ?s) (contents b') = drop ?k (contents b1)"
    using lA unfolding cc c1 by (simp add: drop_take add.commute del: length_take length_drop)
  ultimately show ?thesis
    using ok' en length_contents [OF ok'] length_contents [OF ok] b' us by simp
qed

lemma buffer_delete_range_correct:
  assumes ok: "buffer_ok b" and nowrap: "unat base + unat sz \<le> SIZE_MAX"
    and res: "buffer_delete_range b base sz = Inr b'"
  shows "buffer_ok b' \<and> contents b' = take (unat base) (contents b) @ drop (unat base + unat sz) (contents b)"
proof -
  obtain mem where le: "base + sz \<le> b_size b"
    and mv: "mem_move (b_base b) (unat (b_off b) + unat base) (unat (b_off b) + unat base + unat sz)
      (unat (b_size b - base - sz)) = Inr mem"
    and b': "b' = b\<lparr>b_base := mem, b_size := b_size b - sz\<rparr>"
    using res by (auto simp: buffer_delete_range_def rbind_Inr_iff not_less split: if_splits)
  have le1: "unat base + unat sz \<le> unat (b_size b)"
    using le unat_add_bounded [OF nowrap] by (simp add: word_le_nat_alt)
  have us: "unat (b_size b - sz) = unat (b_size b) - unat sz"
    using le1 by (simp add: unat_sub word_le_nat_alt)
  have u1: "unat (b_size b - base) = unat (b_size b) - unat base"
    using le1 by (simp add: unat_sub word_le_nat_alt)
  have ud: "unat (b_size b - base - sz) = unat (b_size b) - unat base - unat sz"
    using le1 u1 by (simp add: unat_sub word_le_nat_alt)
  have len: "length (b_base b) = unat (b_space b)" using ok by (simp add: buffer_ok_def)
  have lm: "length mem = length (b_base b)" by (rule mem_move_length [OF mv])
  let ?o = "unat (b_off b)" and ?m = "b_base b" and ?k = "unat base" and ?s = "unat sz"
  let ?n = "unat (b_size b)"
  have room: "?o + ?n \<le> length ?m" using ok len by (simp add: buffer_ok_def)
  have lt: "length (take (?n - ?k - ?s) (drop (?o + ?k + ?s) ?m)) = ?n - ?k - ?s"
    using room le1 by simp
  have mem: "mem = take (?o + ?k) ?m @ take (?n - ?k - ?s) (drop (?o + ?k + ?s) ?m) @ drop (?o + ?n - ?s) ?m"
    using mv le1 room lt unfolding ud
    by (auto simp: mem_move_def mem_read_def mem_write_def rbind_Inr_iff simp del: length_take length_drop
        split: if_splits)
  let ?A = "take ?k (drop ?o ?m)" and ?B = "take (?n - ?k - ?s) (drop (?o + ?k + ?s) ?m)"
  have dm: "drop ?o mem = ?A @ ?B @ drop (?o + ?n - ?s) ?m"
    using room le1 unfolding mem by (simp add: drop_take)
  have lA: "length ?A = ?k" using room le1 by simp
  have A: "?A = take ?k (contents b)" using le1 by (simp add: contents_def min_absorb1)
  have B: "?B = drop (?k + ?s) (contents b)" by (simp add: contents_def drop_take add.commute add.left_commute)
  have "contents b' = take (?n - ?s) (drop ?o mem)" using b' us by (simp add: contents_def)
  also have "\<dots> = ?A @ ?B"
    using le1 lA lt unfolding dm take_append by (simp add: add.commute del: length_take length_drop)
  also have "\<dots> = take ?k (contents b) @ drop (?k + ?s) (contents b)" unfolding A B ..
  finally have c: "contents b' = take ?k (contents b) @ drop (?k + ?s) (contents b)" .
  have "?o + unat (b_size b - sz) \<le> unat (b_space b)" using room len us by linarith
  then have "buffer_ok b'" using ok lm len b' by (simp add: buffer_ok_def)
  with c show ?thesis by simp
qed

section \<open>The interface: a queue of bytes\<close>

text \<open>
  What the users of a buffer rely on (\<^verbatim>\<open>io.c\<close> and, through it, \<^verbatim>\<open>privsep.c\<close>): bytes put are
  appended, bytes got are the oldest ones. \<open>put_all\<close> writes a sequence of chunks, \<open>get_all\<close> reads
  chunks of given lengths.
\<close>

fun put_all :: "('q \<Rightarrow> char list \<Rightarrow> 'q res) \<Rightarrow> 'q \<Rightarrow> char list list \<Rightarrow> 'q res" where
  "put_all put q [] = Inr q"
| "put_all put q (c # cs) = rbind (put q c) (\<lambda>q. put_all put q cs)"

fun get_all :: "('q \<Rightarrow> nat \<Rightarrow> (char list \<times> 'q) res) \<Rightarrow> 'q \<Rightarrow> nat list \<Rightarrow> (char list list \<times> 'q) res" where
  "get_all get q [] = Inr ([], q)"
| "get_all get q (n # ns) =
     rbind (get q n) (\<lambda>(c, q). rbind (get_all get q ns) (\<lambda>(cs, q). Inr (c # cs, q)))"

locale byte_queue =
  fixes ok :: "'q \<Rightarrow> bool"
    and bytes :: "'q \<Rightarrow> char list"
    and put :: "'q \<Rightarrow> char list \<Rightarrow> 'q res"
    and get :: "'q \<Rightarrow> nat \<Rightarrow> (char list \<times> 'q) res"
  assumes put_bytes: "ok q \<Longrightarrow> length c \<le> SIZE_MAX \<Longrightarrow> put q c = Inr q' \<Longrightarrow> ok q' \<and> bytes q' = bytes q @ c"
    and put_returns: "ok q \<Longrightarrow> c \<noteq> [] \<Longrightarrow> length (bytes q) + length c \<le> 2 ^ 63 \<Longrightarrow> \<exists>q'. put q c = Inr q'"
    and get_bytes: "ok q \<Longrightarrow> 0 < n \<Longrightarrow> n \<le> length (bytes q) \<Longrightarrow>
      \<exists>q'. get q n = Inr (take n (bytes q), q') \<and> ok q' \<and> bytes q' = drop n (bytes q)"
begin

lemma put_all_bytes:
  assumes "ok q" and "\<forall>c \<in> set cs. c \<noteq> []" and "length (bytes q) + length (concat cs) \<le> 2 ^ 63"
  shows "\<exists>q'. put_all put q cs = Inr q' \<and> ok q' \<and> bytes q' = bytes q @ concat cs"
  using assms
proof (induction cs arbitrary: q)
  case Nil
  then show ?case by simp
next
  case (Cons c cs)
  then obtain q1 where q1: "put q c = Inr q1" using put_returns [of q c] by auto
  have b1: "ok q1" "bytes q1 = bytes q @ c"
    using put_bytes [OF Cons.prems(1) _ q1] Cons.prems(3) by (auto simp: SIZE_MAX_def)
  then show ?case using Cons.IH [of q1] Cons.prems q1 by auto
qed

lemma get_all_bytes:
  assumes "ok q" and "\<forall>c \<in> set cs. c \<noteq> []" and "bytes q = concat cs @ rest"
  shows "\<exists>q'. get_all get q (map length cs) = Inr (cs, q') \<and> ok q' \<and> bytes q' = rest"
  using assms
proof (induction cs arbitrary: q)
  case Nil
  then show ?case by simp
next
  case (Cons c cs)
  then obtain q1 where q1: "get q (length c) = Inr (c, q1)" "ok q1" "bytes q1 = concat cs @ rest"
    using get_bytes [of q "length c"] by auto
  then show ?case using Cons.IH [of q1] Cons.prems by auto
qed

lemma fifo:
  assumes "ok q" and "bytes q = []" and "\<forall>c \<in> set cs. c \<noteq> []" and "length (concat cs) \<le> 2 ^ 63"
  shows "\<exists>q1 q2. put_all put q cs = Inr q1 \<and> get_all get q1 (map length cs) = Inr (cs, q2) \<and> bytes q2 = []"
proof -
  obtain q1 where q1: "put_all put q cs = Inr q1" "ok q1" "bytes q1 = concat cs @ []"
    using put_all_bytes [OF assms(1,3)] assms(2,4) by auto
  then show ?thesis using get_all_bytes [OF q1(2) assms(3) q1(3)] by blast
qed

end

interpretation buf: byte_queue buffer_ok contents buffer_write "\<lambda>b n. buffer_read b (word_of_nat n)"
proof unfold_locales
  fix b :: buffer and n :: nat
  assume ok: "buffer_ok b" and n: "0 < n" "n \<le> length (contents b)"
  have "n \<le> SIZE_MAX" using n(2) length_contents [OF ok] unat_le_SIZE_MAX [of "b_size b"] by simp
  then have u: "unat (word_of_nat n :: size_t) = n" by (simp add: unat_of_nat SIZE_MAX_def)
  then have "(word_of_nat n :: size_t) \<noteq> 0" using n(1) by (metis unat_0 less_irrefl)
  with buffer_read_correct [OF ok this] u n(2)
  show "\<exists>b'. buffer_read b (word_of_nat n) = Inr (take n (contents b), b') \<and> buffer_ok b' \<and>
      contents b' = drop n (contents b)"
    by simp
qed (auto dest: buffer_write_correct intro: buffer_write_returns)

section \<open>Fixed-width integers\<close>

definition le_bytes16 :: "16 word \<Rightarrow> char list" where
  "le_bytes16 n = [char_of (unat (and n 0xff)), char_of (unat (drop_bit 8 n))]"

lemma of_char_char_of_small: "unat w < 256 \<Longrightarrow> (of_char (char_of (unat w) :: char) :: 'a::len word) = of_nat (unat w)"
proof -
  assume "unat w < 256"
  then have "(of_char (char_of (unat w) :: char) :: nat) = unat w" by simp
  then show ?thesis by (metis of_nat_of_char)
qed

lemma le_bytes16_recompose:
  "or (of_char (le_bytes16 n ! 0)) (push_bit 8 (of_char (le_bytes16 n ! 1))) = n"
proof -
  have m: "and n 0xff = take_bit 8 n" by (simp add: take_bit_eq_mask mask_eq_exp_minus_1)
  have s: "unat (take_bit 8 n) < 256" "unat (drop_bit 8 n) < 256"
    using unsigned_less [of n, where 'a=nat]
    by (simp_all add: unat_mod_distrib unat_div_distrib take_bit_eq_mod drop_bit_eq_div less_mult_imp_div_less)
  have "or (take_bit 8 n) (push_bit 8 (drop_bit 8 n)) = n"
    by (rule bit_eqI) (auto simp: bit_simps, metis le_add_diff_inverse not_less)
  then show ?thesis using s by (simp add: le_bytes16_def m of_char_char_of_small)
qed

lemma buffer_write16_correct:
  assumes ok: "buffer_ok b" and small: "length (contents b) + 2 \<le> 2 ^ 63"
  shows "\<exists>b'. buffer_write16 b n = Inr b' \<and> buffer_ok b' \<and> contents b' = contents b @ le_bytes16 n"
proof -
  obtain b1 where e: "buffer_ensure b 2 = Inr b1"
    using buffer_ensure_returns [OF ok, of 2] small length_contents [OF ok] by auto
  show ?thesis
    using buffer_put_correct [of b1 2 "le_bytes16 n"] buffer_ensure_correct [OF ok e] e
    by (auto simp: buffer_write16_def le_bytes16_def)
qed

lemma buffer_read16_correct:
  assumes ok: "buffer_ok b" and c: "contents b = le_bytes16 n @ rest"
  shows "\<exists>b'. buffer_read16 b = Inr (n, b') \<and> buffer_ok b' \<and> contents b' = rest"
proof -
  have l: "2 \<le> unat (b_size b)" using length_contents [OF ok] c by (simp add: le_bytes16_def)
  have "take 2 (contents b) = le_bytes16 n" using c by (simp add: le_bytes16_def)
  then have r: "mem_read (b_base b) (BUFFER_OUT b) 2 = Inr (le_bytes16 n)"
    using ok l by (simp add: mem_read_def BUFFER_OUT_def buffer_ok_def contents_def min_absorb1)
  show ?thesis
    using buffer_remove_correct [OF ok, of 2] l c r le_bytes16_recompose [of n]
    by (auto simp: buffer_read16_def) (simp_all add: le_bytes16_def)
qed

section \<open>Ranges\<close>

lemma buffer_insert_range_returns:
  assumes ok: "buffer_ok b" and le: "base \<le> b_size b" and sz: "0 < unat sz"
    and small: "unat (b_size b) + unat sz \<le> 2 ^ 63"
  shows "\<exists>b'. buffer_insert_range b base sz = Inr b'"
proof -
  obtain b1 where e: "buffer_ensure b sz = Inr b1" using buffer_ensure_returns [OF ok sz small] by blast
  note en = buffer_ensure_correct [OF ok e]
  have len: "length (b_base b1) = unat (b_space b1)" using en by (simp add: buffer_ok_def)
  have le1: "unat base \<le> unat (b_size b1)" using le en by (simp add: word_le_nat_alt)
  have ud: "unat (b_size b1 - base) = unat (b_size b1) - unat base"
    using le1 by (simp add: unat_sub word_le_nat_alt)
  have "unat (b_off b1) + unat base + unat sz + unat (b_size b1 - base) \<le> length (b_base b1)"
    using ud le1 en len by linarith
  then show ?thesis
    using sz le e by (auto simp: buffer_insert_range_def mem_move_def mem_read_def mem_write_def)
qed

lemma buffer_delete_range_returns:
  assumes ok: "buffer_ok b" and sz: "0 < unat sz" and le: "unat base + unat sz \<le> unat (b_size b)"
  shows "\<exists>b'. buffer_delete_range b base sz = Inr b'"
proof -
  have len: "length (b_base b) = unat (b_space b)" using ok by (simp add: buffer_ok_def)
  have "unat (base + sz) = unat base + unat sz"
    using le unat_le_SIZE_MAX [of "b_size b"] by (intro unat_add_bounded) linarith
  then have l1: "base + sz \<le> b_size b" and l2: "sz \<le> b_size b" using le by (simp_all add: word_le_nat_alt)
  have u1: "unat (b_size b - base) = unat (b_size b) - unat base"
    using le by (simp add: unat_sub word_le_nat_alt)
  have ud: "unat (b_size b - base - sz) = unat (b_size b) - unat base - unat sz"
    using le u1 by (simp add: unat_sub word_le_nat_alt)
  have "unat (b_off b) + unat base + unat sz + unat (b_size b - base - sz) \<le> length (b_base b)"
    using ud le ok len unfolding buffer_ok_def by linarith
  then show ?thesis
    using sz l1 l2 by (auto simp: buffer_delete_range_def mem_move_def mem_read_def mem_write_def not_less)
qed

section \<open>Properties\<close>

text \<open>C9: a buffer is a queue of bytes. Whatever sequence of nonempty chunks is written to a fresh
  buffer (2^63 bytes at most), all writes succeed - growing and compacting the block as needed, without
  an access outside it - and reading chunks of the same lengths returns exactly them and leaves nothing.\<close>

theorem buffer_fifo:
  assumes "buffer_create sz = Inr b" and "\<forall>c \<in> set cs. c \<noteq> []" and "length (concat cs) \<le> 2 ^ 63"
  shows "\<exists>b1 b2. put_all buffer_write b cs = Inr b1 \<and>
    get_all (\<lambda>b n. buffer_read b (word_of_nat n)) b1 (map length cs) = Inr (cs, b2) \<and> contents b2 = []"
  using buf.fifo [of b cs] buffer_create_ok [OF assms(1)] assms(2,3) by simp

lemma buffer_fifo_witness:
  "\<exists>b1 b2. put_all buffer_write \<lparr>b_base = replicate 3 NUL, b_space = 3, b_size = 0, b_off = 0\<rparr>
      [''abcd'', ''e'', ''fghij''] = Inr b1 \<and>
    get_all (\<lambda>b n. buffer_read b (word_of_nat n)) b1 (map length [''abcd'', ''e'', ''fghij'']) =
      Inr ([''abcd'', ''e'', ''fghij''], b2) \<and> contents b2 = []"
  by (rule buffer_fifo [of 3]) (simp_all add: buffer_create_def xmalloc_def)

text \<open>opening a gap inside the data and removing it again is the identity on the data; neither
  step fails for a range inside the buffer.\<close>

theorem buffer_insert_delete_range:
  assumes ok: "buffer_ok b" and le: "base \<le> b_size b" and sz: "0 < unat sz"
    and small: "unat (b_size b) + unat sz \<le> 2 ^ 63"
  shows "\<exists>b1 b2. buffer_insert_range b base sz = Inr b1 \<and> buffer_delete_range b1 base sz = Inr b2 \<and>
    length (contents b1) = length (contents b) + unat sz \<and> contents b2 = contents b \<and> buffer_ok b2"
proof -
  obtain b1 where i: "buffer_insert_range b base sz = Inr b1"
    using buffer_insert_range_returns [OF assms] by blast
  note c1 = buffer_insert_range_correct [OF ok i]
  have le': "unat base \<le> length (contents b)" using le length_contents [OF ok] by (simp add: word_le_nat_alt)
  have room: "unat base + unat sz \<le> unat (b_size b1)" using c1 le' length_contents [of b1] by simp
  obtain b2 where d: "buffer_delete_range b1 base sz = Inr b2"
    using buffer_delete_range_returns [OF _ sz room] c1 by blast
  have "unat base + unat sz \<le> SIZE_MAX" using room unat_le_SIZE_MAX [of "b_size b1"] by linarith
  note c2 = buffer_delete_range_correct [OF conjunct1 [OF c1] this d]
  have "contents b2 = contents b" using c1 c2 append_take_drop_id [of "unat base" "contents b"] by simp
  with i d c1 c2 show ?thesis by blast
qed

lemma buffer_insert_delete_range_witness:
  "\<exists>b b1 b2. buffer_insert_range b 1 2 = Inr b1 \<and> buffer_delete_range b1 1 2 = Inr b2 \<and>
    contents b = ''ab'' \<and> contents b2 = ''ab''"
proof -
  let ?b = "\<lparr>b_base = ''xab'', b_space = 3, b_size = 2, b_off = 1\<rparr>"
  have "contents ?b = ''ab''" by (simp add: contents_def)
  then show ?thesis
    using buffer_insert_delete_range [of ?b 1 2] by (force simp: buffer_ok_def)
qed

text \<open>a 16-bit integer goes through a buffer unchanged, behind whatever bytes are queued before it.\<close>

theorem buffer_write16_read16:
  assumes ok: "buffer_ok b" and small: "length (contents b) + 2 \<le> 2 ^ 63" and ne: "contents b \<noteq> []"
  shows "\<exists>b1 b2 b3. buffer_write16 b n = Inr b1 \<and>
    buffer_read b1 (b_size b) = Inr (contents b, b2) \<and> buffer_read16 b2 = Inr (n, b3) \<and> contents b3 = []"
proof -
  obtain b1 where b1: "buffer_write16 b n = Inr b1" "buffer_ok b1" "contents b1 = contents b @ le_bytes16 n"
    using buffer_write16_correct [OF ok small] by blast
  have l: "unat (b_size b) = length (contents b)" using length_contents [OF ok] by simp
  then have "b_size b \<noteq> 0" using ne by (metis length_0_conv unat_0)
  then obtain b2 where b2: "buffer_read b1 (b_size b) = Inr (contents b, b2)" "buffer_ok b2"
      "contents b2 = le_bytes16 n"
    using buffer_read_correct [OF b1(2), of "b_size b"] b1(3) l by auto
  obtain b3 where "buffer_read16 b2 = Inr (n, b3)" "contents b3 = []"
    using buffer_read16_correct [OF b2(2), of n "[]"] b2(3) by auto
  with b1 b2 show ?thesis by blast
qed

lemma buffer_write16_read16_witness:
  "\<exists>b b1 b2 b3. buffer_write16 b 0xABCD = Inr b1 \<and>
    buffer_read b1 (b_size b) = Inr (contents b, b2) \<and> buffer_read16 b2 = Inr (0xABCD, b3) \<and> contents b3 = []"
  using buffer_write16_read16 [of "\<lparr>b_base = ''xab'', b_space = 3, b_size = 2, b_off = 1\<rparr>" "0xABCD"]
  by (force simp: buffer_ok_def contents_def)

end
