(* ===== verification/Strb.thy ===== *)
theory Strb imports Xmalloc begin

text \<open>
  The string block of \<^verbatim>\<open>strb.c\<close> (macros in \<^verbatim>\<open>fdm.h\<close>) that holds the tags of a mail: one allocation
  with a header, a string area and, after it, an array of entries, each the offsets of a key and a value.
  The string area and the entry array are kept apart here; an access to an entry outside the array is
  outside the allocation. Sizes are naturals: the check before each doubling keeps \<open>STRB_SIZE\<close> within
  \<open>SIZE_MAX\<close>. A value is given as the string the format expands to.
\<close>

record strb =
  ent_used :: nat
  ent_max :: nat
  str_used :: nat
  str_size :: nat
  strs :: "char list"
  ents :: "(nat \<times> nat) list"

definition STRBOFFSET :: nat where "STRBOFFSET = 64"
definition STRBENTRIES :: nat where "STRBENTRIES = 64"
definition STRBBLOCK :: nat where "STRBBLOCK = 1024"
definition STRB_ENTSIZE :: "strb \<Rightarrow> nat" where "STRB_ENTSIZE sb = 16 * ent_max sb"
definition STRB_SIZE :: "strb \<Rightarrow> nat" where
  "STRB_SIZE sb = STRBOFFSET + str_size sb + STRB_ENTSIZE sb"
definition STRB_KEY :: "strb \<Rightarrow> nat \<times> nat \<Rightarrow> char list res" where
  "STRB_KEY sb sbe = read_cstr (strs sb) (fst sbe)"
definition STRB_VALUE :: "strb \<Rightarrow> nat \<times> nat \<Rightarrow> char list res" where
  "STRB_VALUE sb sbe = read_cstr (strs sb) (snd sbe)"
definition STRB_ENTRY :: "strb \<Rightarrow> nat \<Rightarrow> (nat \<times> nat) res" where
  "STRB_ENTRY sb n = (if n < length (ents sb) then Inr (ents sb ! n) else Inl (MemErr ''entry''))"

section \<open>Operations\<close>

definition strb_clear :: "strb \<Rightarrow> strb" where
  "strb_clear sb = \<lparr>ent_used = 0, ent_max = STRBENTRIES, str_used = 0, str_size = STRBBLOCK,
     strs = replicate STRBBLOCK NUL, ents = replicate STRBENTRIES (0, 0)\<rparr>"

definition strb_create :: strb where
  "strb_create = strb_clear \<lparr>ent_used = 0, ent_max = 0, str_used = 0, str_size = 0, strs = [], ents = []\<rparr>"

text \<open>The loops over the entries \<open>i, ..., ent_used - 1\<close>.\<close>

fun strb_scan :: "strb \<Rightarrow> (char list \<Rightarrow> bool) \<Rightarrow> nat \<Rightarrow> nat \<Rightarrow> nat option res" where
  "strb_scan sb p i 0 = Inr None"
| "strb_scan sb p i (Suc n) =
     rbind (STRB_ENTRY sb i) (\<lambda>sbe. rbind (STRB_KEY sb sbe) (\<lambda>k.
       if p k then Inr (Some i) else strb_scan sb p (Suc i) n))"

definition strb_address :: "strb \<Rightarrow> char list \<Rightarrow> nat option res" where
  "strb_address sb key = strb_scan sb (\<lambda>k. key = k) 0 (ent_used sb)"

definition strb_find :: "strb \<Rightarrow> char list \<Rightarrow> (nat \<times> nat) option res" where
  "strb_find sb key = rbind (strb_address sb key) (\<lambda>r. case r of
     None \<Rightarrow> Inr None | Some i \<Rightarrow> rbind (STRB_ENTRY sb i) (\<lambda>sbe. Inr (Some sbe)))"

definition strb_match :: "(char list \<Rightarrow> char list \<Rightarrow> bool) \<Rightarrow> strb \<Rightarrow> char list \<Rightarrow> (nat \<times> nat) option res" where
  "strb_match fnmatch sb patt = rbind (strb_scan sb (fnmatch patt) 0 (ent_used sb)) (\<lambda>r. case r of
     None \<Rightarrow> Inr None | Some i \<Rightarrow> rbind (STRB_ENTRY sb i) (\<lambda>sbe. Inr (Some sbe)))"

fun strb_list :: "strb \<Rightarrow> nat \<Rightarrow> nat \<Rightarrow> (char list \<times> char list) list res" where
  "strb_list sb i 0 = Inr []"
| "strb_list sb i (Suc n) =
     rbind (STRB_ENTRY sb i) (\<lambda>sbe. rbind (STRB_KEY sb sbe) (\<lambda>k. rbind (STRB_VALUE sb sbe) (\<lambda>v.
       rbind (strb_list sb (Suc i) n) (\<lambda>l. Inr ((k, v) # l)))))"

text \<open>\<open>strb_dump\<close> prints these pairs.\<close>

definition strb_dump :: "strb \<Rightarrow> (char list \<times> char list) list res" where
  "strb_dump sb = strb_list sb 0 (ent_used sb)"

text \<open>The growth of the string area: \<open>while (str_size - str_used < need) ... str_size *= 2\<close>.\<close>

function strb_fit :: "nat \<Rightarrow> nat \<Rightarrow> nat \<Rightarrow> nat \<Rightarrow> nat res" where
  "strb_fit used need rest sz =
     (if size_sub sz used < need then
        if rest + sz > SIZE_MAX div 2 then Inl (FatalX ''size too large'')
        else if sz = 0 then Inl (Diverges ''str_size'')
        else strb_fit used need rest (2 * sz)
      else Inr sz)"
  by pat_completeness auto
termination by (relation "measure (\<lambda>(_, _, _, sz). SIZE_MAX - sz)") (auto simp: SIZE_MAX_def)

declare strb_fit.simps [simp del]

definition strb_grow_strs :: "strb \<Rightarrow> nat \<Rightarrow> strb res" where
  "strb_grow_strs sb need =
     rbind (strb_fit (str_used sb) need (STRBOFFSET + STRB_ENTSIZE sb) (str_size sb)) (\<lambda>sz.
       Inr (if sz \<noteq> str_size sb
            then sb\<lparr>str_size := sz, strs := strs sb @ replicate (sz - str_size sb) NUL\<rparr> else sb))"

definition strb_grow_ents :: "strb \<Rightarrow> strb res" where
  "strb_grow_ents sb =
     (if ent_used sb > ent_max sb then
        if ent_max sb > UINT_MAX div 2 then Inl (FatalX ''ent_max too large'')
        else let sb' = sb\<lparr>ent_max := 2 * ent_max sb\<rparr> in
          if STRB_SIZE sb' < STRB_SIZE sb then Inl (FatalX ''size too large'')
          else Inr (sb'\<lparr>ents := take (ent_max sb) (ents sb) @ replicate (ent_max sb) (0, 0)\<rparr>)
      else Inr sb)"

definition strb_vadd :: "strb \<Rightarrow> char list \<Rightarrow> char list \<Rightarrow> strb res" where
  "strb_vadd sb key val =
     (let keylen = length key + 1; valuelen = length val + 1 in
      if INT_MAX < int valuelen then Inl (FatalX ''vsnprintf failed'') else
      rbind (strb_grow_strs sb (keylen + valuelen)) (\<lambda>sb.
      rbind (strb_address sb key) (\<lambda>a.
      rbind (case a of
               None \<Rightarrow> rbind (strb_grow_ents sb) (\<lambda>sb.
                 rbind (mem_write (strs sb) (str_used sb) (key @ [NUL])) (\<lambda>m.
                 Inr (sb\<lparr>strs := m, ent_used := ent_used sb + 1, str_used := str_used sb + keylen\<rparr>,
                      ent_used sb, str_used sb)))
             | Some i \<Rightarrow> rbind (STRB_ENTRY sb i) (\<lambda>sbe. Inr (sb, i, fst sbe))) (\<lambda>(sb, slot, koff).
      rbind (mem_write (strs sb) (str_used sb) (val @ [NUL])) (\<lambda>m.
        if slot < length (ents sb)
        then Inr (sb\<lparr>strs := m, str_used := str_used sb + valuelen,
                     ents := (ents sb)[slot := (koff, str_used sb)]\<rparr>)
        else Inl (MemErr ''entry''))))))"

definition strb_add :: "strb \<Rightarrow> char list \<Rightarrow> char list \<Rightarrow> strb res" where
  "strb_add sb key val = strb_vadd sb key val"

definition strb_lookup :: "strb \<Rightarrow> char list \<Rightarrow> char list option res" where
  "strb_lookup sb key = rbind (strb_find sb key) (\<lambda>r. case r of
     None \<Rightarrow> Inr None | Some sbe \<Rightarrow> rbind (STRB_VALUE sb sbe) (\<lambda>v. Inr (Some v)))"

section \<open>Invariant and abstraction\<close>

definition within :: "char list \<Rightarrow> nat \<Rightarrow> nat \<Rightarrow> bool" where
  "within m u pos \<longleftrightarrow> NUL \<in> set (drop pos (take u m))"

definition entry_pair :: "char list \<Rightarrow> nat \<times> nat \<Rightarrow> char list \<times> char list" where
  "entry_pair m e = (cstr (drop (fst e) m), cstr (drop (snd e) m))"

definition pairs :: "strb \<Rightarrow> (char list \<times> char list) list" where
  "pairs sb = map (entry_pair (strs sb)) (take (ent_used sb) (ents sb))"

definition strb_ok :: "strb \<Rightarrow> bool" where
  "strb_ok sb \<longleftrightarrow> length (strs sb) = str_size sb \<and> 0 < str_size sb \<and> length (ents sb) = ent_max sb \<and>
     ent_used sb \<le> ent_max sb \<and> str_used sb \<le> str_size sb \<and>
     (\<forall>e \<in> set (take (ent_used sb) (ents sb)).
        within (strs sb) (str_used sb) (fst e) \<and> within (strs sb) (str_used sb) (snd e)) \<and>
     distinct (map fst (pairs sb))"

definition tags_of :: "strb \<Rightarrow> char list \<rightharpoonup> char list" where
  "tags_of sb = map_of (pairs sb)"

lemma length_pairs: "strb_ok sb \<Longrightarrow> length (pairs sb) = ent_used sb"
  by (simp add: pairs_def strb_ok_def)

lemma within_mono:
  assumes "within m u pos" and "take u m' = take u m" and "u \<le> u'"
  shows "within m' u' pos \<and> cstr (drop pos m') = cstr (drop pos m)"
proof -
  have w: "NUL \<in> set (drop pos (take u m'))" using assms by (simp add: within_def)
  have "take u m' = take u (take u' m')" using assms(3) by (simp add: min_absorb1)
  then have "NUL \<in> set (drop pos (take u (take u' m')))" using w by simp
  then have "within m' u' pos" unfolding within_def using cstr_within by blast
  moreover have "cstr (drop pos m') = cstr (drop pos m)"
    using cstr_within [of pos u m'] cstr_within [of pos u m] w assms(1,2) by (simp add: within_def)
  ultimately show ?thesis by simp
qed

lemma strb_entry_ok:
  assumes ok: "strb_ok sb" and i: "i < ent_used sb"
  shows "STRB_ENTRY sb i = Inr (ents sb ! i)"
    and "STRB_KEY sb (ents sb ! i) = Inr (fst (pairs sb ! i))"
    and "STRB_VALUE sb (ents sb ! i) = Inr (snd (pairs sb ! i))"
proof -
  have m: "ents sb ! i \<in> set (take (ent_used sb) (ents sb))"
    using ok i by (auto simp: strb_ok_def in_set_conv_nth)
  then have w: "within (strs sb) (str_used sb) (fst (ents sb ! i))" "within (strs sb) (str_used sb) (snd (ents sb ! i))"
    using ok unfolding strb_ok_def by blast+
  show "STRB_ENTRY sb i = Inr (ents sb ! i)" using ok i by (simp add: STRB_ENTRY_def strb_ok_def)
  have p: "pairs sb ! i = entry_pair (strs sb) (ents sb ! i)" using ok i by (simp add: pairs_def strb_ok_def)
  show "STRB_KEY sb (ents sb ! i) = Inr (fst (pairs sb ! i))"
    using cstr_within [OF w(1) [unfolded within_def]] p by (simp add: STRB_KEY_def read_cstr_Inr within_def entry_pair_def)
  show "STRB_VALUE sb (ents sb ! i) = Inr (snd (pairs sb ! i))"
    using cstr_within [OF w(2) [unfolded within_def]] p by (simp add: STRB_VALUE_def read_cstr_Inr within_def entry_pair_def)
qed

lemma strb_scan_correct:
  assumes ok: "strb_ok sb" and "i + n = ent_used sb"
  shows "strb_scan sb p i n = Inr (map_option ((+) i) (List.find (\<lambda>j. p (fst (pairs sb ! (i + j)))) [0..<n]))"
  using assms(2)
proof (induction n arbitrary: i)
  case 0
  then show ?case by simp
next
  case (Suc n)
  note e = strb_entry_ok [OF ok, of i]
  have "[0..<Suc n] = 0 # map Suc [0..<n]" by (simp add: map_Suc_upt upt_conv_Cons del: upt_Suc)
  then have "List.find (\<lambda>j. p (fst (pairs sb ! (i + j)))) [0..<Suc n] =
      (if p (fst (pairs sb ! i)) then Some 0
       else map_option Suc (List.find (\<lambda>j. p (fst (pairs sb ! (Suc i + j)))) [0..<n]))"
    by (simp add: find_over_map comp_def del: upt_Suc)
  with Suc e show ?case by (auto simp: option.map_comp comp_def simp del: upt_Suc)
qed

lemma strb_address_correct:
  assumes ok: "strb_ok sb"
  obtains (absent) "strb_address sb key = Inr None" "key \<notin> dom (tags_of sb)"
  | (present) i where "strb_address sb key = Inr (Some i)" "i < ent_used sb" "fst (pairs sb ! i) = key"
      "tags_of sb key = Some (snd (pairs sb ! i))"
proof (cases "List.find (\<lambda>j. key = fst (pairs sb ! j)) [0..<ent_used sb]")
  case None
  have "strb_address sb key = Inr None"
    using strb_scan_correct [OF ok, of 0] None by (simp add: strb_address_def)
  moreover have "key \<notin> fst ` set (pairs sb)"
    using None length_pairs [OF ok] by (auto simp: find_None_iff in_set_conv_nth) (metis fst_conv)
  then have "key \<notin> dom (tags_of sb)" by (simp add: tags_of_def dom_map_of_conv_image_fst)
  ultimately show ?thesis by (rule absent)
next
  case (Some i)
  then have i: "i < ent_used sb" "key = fst (pairs sb ! i)" by (auto simp: find_Some_iff)
  have "strb_address sb key = Inr (Some i)"
    using strb_scan_correct [OF ok, of 0] Some by (simp add: strb_address_def option.map_ident)
  moreover have "pairs sb ! i \<in> set (pairs sb)" using i length_pairs [OF ok] by simp
  then have "tags_of sb key = Some (snd (pairs sb ! i))"
    using ok i unfolding tags_of_def strb_ok_def by (metis map_of_eq_Some_iff prod.collapse)
  ultimately show ?thesis using i present by simp
qed

lemma strb_lookup_correct:
  assumes ok: "strb_ok sb" shows "strb_lookup sb key = Inr (tags_of sb key)"
proof (rule strb_address_correct [OF ok, of key])
  assume "strb_address sb key = Inr None" "key \<notin> dom (tags_of sb)"
  then show ?thesis by (simp add: strb_lookup_def strb_find_def domIff)
next
  fix i assume "strb_address sb key = Inr (Some i)" "i < ent_used sb" "tags_of sb key = Some (snd (pairs sb ! i))"
  then show ?thesis using strb_entry_ok [OF ok, of i] by (simp add: strb_lookup_def strb_find_def)
qed

section \<open>Adding a tag\<close>

lemma mem_write_cstr:
  assumes w: "mem_write m u (s @ [NUL]) = Inr m'" and s: "is_cstr s"
  shows "take u m' = take u m" and "length m' = length m" and "u + length s + 1 \<le> length m"
    and "within m' (u + length s + 1) u" and "cstr (drop u m') = s"
proof -
  have room: "u + length s + 1 \<le> length m" and m': "m' = take u m @ s @ NUL # drop (Suc (u + length s)) m"
    using w by (auto simp: mem_write_def split: if_splits)
  show "take u m' = take u m" "length m' = length m" "u + length s + 1 \<le> length m"
    using room m' by auto
  have d: "drop u m' = s @ NUL # drop (Suc (u + length s)) m" using room m' by simp
  then show "cstr (drop u m') = s" using s by (simp add: cstr_terminated)
  have "drop u (take (u + length s + 1) m') = s @ [NUL]"
    using d by (simp add: drop_take)
  then show "within m' (u + length s + 1) u" by (simp add: within_def)
qed

lemma strb_fit_result:
  "strb_fit used need rest sz = Inr sz' \<Longrightarrow> sz \<le> sz' \<and> \<not> size_sub sz' used < need"
proof (induction used need rest sz rule: strb_fit.induct)
  case (1 used need rest sz)
  from "1.prems" show ?case
  proof (subst (asm) strb_fit.simps, simp split: if_splits)
    assume "size_sub sz used < need" "\<not> SIZE_MAX div 2 < rest + sz" "0 < sz"
      and r: "strb_fit used need rest (2 * sz) = Inr sz'"
    then show "sz \<le> sz' \<and> \<not> size_sub sz' used < need" using "1.IH" r by auto
  qed
qed

lemma pairs_cong:
  assumes "ents sb' = ents sb" and "ent_used sb' = ent_used sb"
    and "\<And>e. e \<in> set (take (ent_used sb) (ents sb)) \<Longrightarrow> entry_pair (strs sb') e = entry_pair (strs sb) e"
  shows "pairs sb' = pairs sb"
  using assms by (simp add: pairs_def)

text \<open>Bytes below \<open>str_used\<close> decide what the entries hold.\<close>

lemma entries_kept:
  assumes ok: "strb_ok sb" and pre: "take (str_used sb) m' = take (str_used sb) (strs sb)"
    and le: "str_used sb \<le> u'" and e: "e \<in> set (take (ent_used sb) (ents sb))"
  shows "within m' u' (fst e) \<and> within m' u' (snd e) \<and> entry_pair m' e = entry_pair (strs sb) e"
proof -
  have w: "within (strs sb) (str_used sb) (fst e)" "within (strs sb) (str_used sb) (snd e)"
    using ok e unfolding strb_ok_def by blast+
  show ?thesis
    using within_mono [OF w(1) pre le] within_mono [OF w(2) pre le] by (simp add: entry_pair_def)
qed

lemma strb_grow_strs_correct:
  assumes ok: "strb_ok sb" and res: "strb_grow_strs sb need = Inr sb'"
  shows "strb_ok sb' \<and> pairs sb' = pairs sb \<and> ent_used sb' = ent_used sb \<and> ent_max sb' = ent_max sb \<and>
    str_used sb' = str_used sb \<and> str_used sb' + need \<le> str_size sb'"
proof -
  obtain sz where f: "strb_fit (str_used sb) need (STRBOFFSET + STRB_ENTSIZE sb) (str_size sb) = Inr sz"
    and sb': "sb' = (if sz \<noteq> str_size sb then sb\<lparr>str_size := sz, strs := strs sb @ replicate (sz - str_size sb) NUL\<rparr> else sb)"
    using res by (auto simp: strb_grow_strs_def rbind_Inr_iff)
  note r = strb_fit_result [OF f]
  have le: "str_used sb \<le> str_size sb" and len: "length (strs sb) = str_size sb" using ok by (simp_all add: strb_ok_def)
  have room: "str_used sb + need \<le> sz" using r le by (simp add: size_sub_def split: if_splits) linarith
  have pre: "take (str_used sb) (strs sb') = take (str_used sb) (strs sb)"
    using sb' le len by simp
  note k = entries_kept [OF ok pre order.refl]
  have p: "pairs sb' = pairs sb" by (rule pairs_cong) (use sb' k in auto)
  have "strb_ok sb'" using ok k p sb' r le by (auto simp: strb_ok_def)
  with p room sb' show ?thesis by auto
qed

lemma map_of_append_new:
  "k \<notin> dom (map_of xs) \<Longrightarrow> map_of (xs @ [(k, v)]) = (map_of xs)(k \<mapsto> v)"
  by (auto simp: map_add_def fun_eq_iff split: option.splits)

lemma map_of_replace:
  "i < length xs \<Longrightarrow> distinct (map fst xs) \<Longrightarrow> fst (xs ! i) = k \<Longrightarrow> map_of (xs[i := (k, v)]) = (map_of xs)(k \<mapsto> v)"
proof (induction xs arbitrary: i)
  case Nil
  then show ?case by simp
next
  case (Cons x xs)
  show ?case
  proof (cases i)
    case 0
    with Cons show ?thesis by (cases x) (auto simp: fun_eq_iff)
  next
    case (Suc j)
    then have "fst x \<noteq> k" using Cons.prems nth_mem [of j xs] by (metis length_Cons Suc_less_eq distinct.simps(2) imageI list.set_map list.simps(9) nth_Cons_Suc)
    with Suc Cons show ?thesis by (cases x) (auto simp: fun_eq_iff)
  qed
qed

lemma strb_add_new:
  assumes ok: "strb_ok sb" and new: "key \<notin> dom (tags_of sb)" and slot: "ent_used sb < ent_max sb"
    and k: "is_cstr key" and v: "is_cstr val"
    and w1: "mem_write (strs sb) (str_used sb) (key @ [NUL]) = Inr m1"
    and w2: "mem_write m1 (str_used sb + (length key + 1)) (val @ [NUL]) = Inr m2"
    and sb': "sb' = sb\<lparr>strs := m2, ent_used := ent_used sb + 1, str_used := str_used sb + (length key + 1) + (length val + 1),
      ents := (ents sb)[ent_used sb := (str_used sb, str_used sb + (length key + 1))]\<rparr>"
  shows "strb_ok sb' \<and> tags_of sb' = (tags_of sb)(key \<mapsto> val)"
proof -
  let ?u = "str_used sb" and ?u1 = "str_used sb + (length key + 1)"
  let ?u2 = "?u1 + (length val + 1)"
  note a = mem_write_cstr [OF w1 k] and b = mem_write_cstr [OF w2 v]
  have len: "length (strs sb) = str_size sb" "length (ents sb) = ent_max sb" using ok by (simp_all add: strb_ok_def)
  have pre: "take ?u m2 = take ?u (strs sb)"
    using a(1) arg_cong [OF b(1), of "take ?u"] by (simp add: min_absorb1)
  have key: "within m2 ?u2 ?u" "cstr (drop ?u m2) = key"
    using within_mono [OF a(4), of m2 ?u2] b(1) a(5) by simp_all
  have val: "within m2 ?u2 ?u1" "cstr (drop ?u1 m2) = val" using b(4,5) by (simp_all add: add.assoc)
  note kp = entries_kept [OF ok pre, of ?u2]
  have tk: "take (ent_used sb + 1) (ents sb') = take (ent_used sb) (ents sb) @ [(?u, ?u1)]"
    using slot len sb' by (simp add: take_Suc_conv_app_nth)
  have p: "pairs sb' = pairs sb @ [(key, val)]"
    using kp tk sb' key val by (simp add: pairs_def entry_pair_def)
  have u: "ent_used sb' = ent_used sb + 1" using sb' by simp
  have "\<forall>e \<in> set (take (ent_used sb') (ents sb')). within m2 ?u2 (fst e) \<and> within m2 ?u2 (snd e)"
    unfolding u tk using kp key val by auto
  moreover have "distinct (map fst (pairs sb'))"
    using ok new unfolding p by (auto simp: strb_ok_def tags_of_def dom_map_of_conv_image_fst)
  ultimately have "strb_ok sb'"
    using ok slot len sb' a(2,3) b(2,3) unfolding strb_ok_def by simp
  moreover have "tags_of sb' = (tags_of sb)(key \<mapsto> val)"
    using map_of_append_new [of key "pairs sb" val] new unfolding tags_of_def p .
  ultimately show ?thesis by simp
qed

lemma strb_add_old:
  assumes ok: "strb_ok sb" and i: "i < ent_used sb" and ki: "fst (pairs sb ! i) = key" and v: "is_cstr val"
    and w: "mem_write (strs sb) (str_used sb) (val @ [NUL]) = Inr m"
    and sb': "sb' = sb\<lparr>strs := m, str_used := str_used sb + (length val + 1),
      ents := (ents sb)[i := (fst (ents sb ! i), str_used sb)]\<rparr>"
  shows "strb_ok sb' \<and> tags_of sb' = (tags_of sb)(key \<mapsto> val)"
proof -
  let ?u = "str_used sb" and ?u1 = "str_used sb + (length val + 1)"
  note a = mem_write_cstr [OF w v]
  have len: "length (strs sb) = str_size sb" "length (ents sb) = ent_max sb" using ok by (simp_all add: strb_ok_def)
  have val: "within m ?u1 ?u" "cstr (drop ?u m) = val" using a(4,5) by (simp_all add: add.assoc)
  note kp = entries_kept [OF ok a(1), of ?u1]
  have im: "ents sb ! i \<in> set (take (ent_used sb) (ents sb))"
    using ok i by (auto simp: strb_ok_def in_set_conv_nth)
  have tk: "take (ent_used sb) (ents sb') = (take (ent_used sb) (ents sb))[i := (fst (ents sb ! i), ?u)]"
    using sb' by (simp add: take_update_swap)
  have il: "i < length (pairs sb)" using i length_pairs [OF ok] by simp
  have pi: "entry_pair (strs sb) (ents sb ! i) = pairs sb ! i"
    using ok i by (simp add: pairs_def strb_ok_def)
  have "entry_pair m (fst (ents sb ! i), ?u) = (key, val)"
    using kp [OF _ im] val ki pi by (auto simp: entry_pair_def prod_eq_iff)
  moreover have "map (entry_pair m) (take (ent_used sb) (ents sb)) = pairs sb"
    using kp by (simp add: pairs_def)
  moreover have "pairs sb' = map (entry_pair m) (take (ent_used sb) (ents sb'))"
    using sb' by (simp add: pairs_def)
  ultimately have p: "pairs sb' = (pairs sb)[i := (key, val)]"
    unfolding tk map_update by simp
  have u: "ent_used sb' = ent_used sb" using sb' by simp
  have "\<forall>e \<in> set (take (ent_used sb') (ents sb')). within m ?u1 (fst e) \<and> within m ?u1 (snd e)"
    unfolding u tk using kp val kp [OF _ im] by (auto dest!: set_update_subset_insert [THEN subsetD])
  moreover have "map fst (pairs sb') = map fst (pairs sb)"
    unfolding p using ki il by (metis list_update_id map_update fst_conv)
  ultimately have "strb_ok sb'"
    using ok len sb' a(2,3) unfolding strb_ok_def by simp
  with p il ki ok show ?thesis by (simp add: tags_of_def map_of_replace strb_ok_def)
qed

lemma strb_vadd_correct:
  assumes ok: "strb_ok sb" and k: "is_cstr key" and v: "is_cstr val" and res: "strb_vadd sb key val = Inr sb'"
  shows "strb_ok sb' \<and> tags_of sb' = (tags_of sb)(key \<mapsto> val)"
proof -
  obtain sb1 where g: "strb_grow_strs sb (length key + 1 + (length val + 1)) = Inr sb1"
    using res by (auto simp: strb_vadd_def Let_def rbind_Inr_iff split: if_splits)
  note c = strb_grow_strs_correct [OF ok g]
  then have ok1: "strb_ok sb1" and t1: "tags_of sb1 = tags_of sb" by (simp_all add: tags_of_def)
  have "strb_ok sb' \<and> tags_of sb' = (tags_of sb1)(key \<mapsto> val)"
  proof (rule strb_address_correct [OF ok1, of key])
    assume a: "strb_address sb1 key = Inr None" and new: "key \<notin> dom (tags_of sb1)"
    have "strb_grow_ents sb1 = Inr sb1" using ok1 by (simp add: strb_grow_ents_def strb_ok_def)
    then obtain m1 m2 where w1: "mem_write (strs sb1) (str_used sb1) (key @ [NUL]) = Inr m1"
      and w2: "mem_write m1 (str_used sb1 + (length key + 1)) (val @ [NUL]) = Inr m2"
      and slot: "ent_used sb1 < length (ents sb1)"
      and sb': "sb' = sb1\<lparr>strs := m2, ent_used := ent_used sb1 + 1,
        str_used := str_used sb1 + (length key + 1) + (length val + 1),
        ents := (ents sb1)[ent_used sb1 := (str_used sb1, str_used sb1 + (length key + 1))]\<rparr>"
      using res g a by (auto simp: strb_vadd_def Let_def rbind_Inr_iff split: if_splits)
    show ?thesis by (rule strb_add_new [OF ok1 new _ k v w1 w2 sb']) (use slot ok1 in \<open>simp add: strb_ok_def\<close>)
  next
    fix i assume a: "strb_address sb1 key = Inr (Some i)" and i: "i < ent_used sb1" and ki: "fst (pairs sb1 ! i) = key"
    obtain m where w: "mem_write (strs sb1) (str_used sb1) (val @ [NUL]) = Inr m"
      and sb': "sb' = sb1\<lparr>strs := m, str_used := str_used sb1 + (length val + 1),
        ents := (ents sb1)[i := (fst (ents sb1 ! i), str_used sb1)]\<rparr>"
      using res g a strb_entry_ok(1) [OF ok1 i] by (auto simp: strb_vadd_def Let_def rbind_Inr_iff split: if_splits)
    show ?thesis by (rule strb_add_old [OF ok1 i ki v w sb'])
  qed
  with t1 show ?thesis by simp
qed

lemma strb_clear_ok: "strb_ok (strb_clear sb) \<and> tags_of (strb_clear sb) = Map.empty"
  by (simp add: strb_clear_def strb_ok_def STRBBLOCK_def STRBENTRIES_def pairs_def tags_of_def)

lemma strb_create_ok: "strb_ok strb_create \<and> tags_of strb_create = Map.empty"
  unfolding strb_create_def by (rule strb_clear_ok)

section \<open>Adding succeeds while there is a slot\<close>

definition strb_free :: "strb \<Rightarrow> char list \<Rightarrow> bool" where
  "strb_free sb key \<longleftrightarrow> key \<in> dom (tags_of sb) \<or> ent_used sb < ent_max sb"

lemma strb_fit_returns:
  "0 < sz \<Longrightarrow> rest + (used + need) \<le> SIZE_MAX div 2 \<Longrightarrow> \<exists>sz'. strb_fit used need rest sz = Inr sz'"
proof (induction used need rest sz rule: strb_fit.induct)
  case (1 used need rest sz)
  have "size_sub sz used < need \<Longrightarrow> sz < used + need"
    by (auto simp: size_sub_def split: if_splits)
  with 1 show ?case by (subst strb_fit.simps) (auto simp: not_less)
qed

lemma strb_vadd_returns:
  assumes ok: "strb_ok sb" and free: "strb_free sb key" and vlen: "int (length val) < INT_MAX"
    and small: "STRBOFFSET + STRB_ENTSIZE sb + (str_used sb + (length key + 1 + (length val + 1))) \<le> SIZE_MAX div 2"
  shows "\<exists>sb'. strb_vadd sb key val = Inr sb' \<and> ent_max sb' = ent_max sb \<and>
    str_used sb' \<le> str_used sb + length key + length val + 2 \<and>
    ent_used sb' = (if key \<in> dom (tags_of sb) then ent_used sb else ent_used sb + 1)"
proof -
  have "0 < str_size sb" using ok by (simp add: strb_ok_def)
  then obtain sz where "strb_fit (str_used sb) (length key + 1 + (length val + 1)) (STRBOFFSET + STRB_ENTSIZE sb)
      (str_size sb) = Inr sz"
    using strb_fit_returns [OF _ small] by blast
  then obtain sb1 where g: "strb_grow_strs sb (length key + 1 + (length val + 1)) = Inr sb1"
    by (auto simp: strb_grow_strs_def)
  note c = strb_grow_strs_correct [OF ok g]
  then have ok1: "strb_ok sb1" and t1: "tags_of sb1 = tags_of sb" by (simp_all add: tags_of_def)
  have len: "length (strs sb1) = str_size sb1" "length (ents sb1) = ent_max sb1" "ent_used sb1 \<le> ent_max sb1"
    using ok1 by (simp_all add: strb_ok_def)
  show ?thesis
  proof (rule strb_address_correct [OF ok1, of key])
    assume a: "strb_address sb1 key = Inr None" and new: "key \<notin> dom (tags_of sb1)"
    have "strb_grow_ents sb1 = Inr sb1" using len by (simp add: strb_grow_ents_def)
    then show ?thesis
      using a new t1 c len g free vlen by (auto simp: strb_vadd_def Let_def mem_write_def strb_free_def)
  next
    fix i assume a: "strb_address sb1 key = Inr (Some i)" and i: "i < ent_used sb1"
      and t: "tags_of sb1 key = Some (snd (pairs sb1 ! i))"
    then show ?thesis
      using t1 c len g vlen strb_entry_ok(1) [OF ok1 i] by (auto simp: strb_vadd_def Let_def mem_write_def)
  qed
qed

section \<open>The interface: a store of tags\<close>

fun add_all :: "('s \<Rightarrow> char list \<Rightarrow> char list \<Rightarrow> 's res) \<Rightarrow> 's \<Rightarrow> (char list \<times> char list) list \<Rightarrow> 's res" where
  "add_all add s [] = Inr s"
| "add_all add s ((k, v) # kvs) = rbind (add s k v) (\<lambda>s. add_all add s kvs)"

locale tag_store =
  fixes ok :: "'s \<Rightarrow> bool"
    and tags :: "'s \<Rightarrow> char list \<rightharpoonup> char list"
    and find :: "'s \<Rightarrow> char list \<Rightarrow> char list option res"
    and add :: "'s \<Rightarrow> char list \<Rightarrow> char list \<Rightarrow> 's res"
  assumes find_tags: "ok s \<Longrightarrow> find s k = Inr (tags s k)"
    and add_tags: "ok s \<Longrightarrow> is_cstr k \<Longrightarrow> is_cstr v \<Longrightarrow> add s k v = Inr s' \<Longrightarrow> ok s' \<and> tags s' = (tags s)(k \<mapsto> v)"
begin

lemma find_after_add:
  assumes "ok s" and "is_cstr k" and "is_cstr v" and "add s k v = Inr s'"
  shows "find s' k' = Inr (if k' = k then Some v else tags s k')"
  using find_tags add_tags [OF assms] by auto

lemma add_all_tags:
  assumes "ok s" and "\<forall>(k, v) \<in> set kvs. is_cstr k \<and> is_cstr v" and "add_all add s kvs = Inr s'"
  shows "ok s' \<and> tags s' = tags s ++ map_of (rev kvs)"
  using assms
proof (induction kvs arbitrary: s)
  case Nil
  then show ?case by simp
next
  case (Cons kv kvs)
  obtain k v where kv: "kv = (k, v)" by (cases kv)
  obtain s1 where s1: "add s k v = Inr s1" "add_all add s1 kvs = Inr s'"
    using Cons.prems kv by (auto simp: rbind_Inr_iff)
  then have "ok s1 \<and> tags s1 = (tags s)(k \<mapsto> v)" using add_tags Cons.prems kv by auto
  moreover have "ok s' \<and> tags s' = tags s1 ++ map_of (rev kvs)"
    using Cons.IH [OF conjunct1 [OF calculation] _ s1(2)] Cons.prems(2) by simp
  moreover have "tags s ++ map_of (rev (kv # kvs)) = (tags s)(k \<mapsto> v) ++ map_of (rev kvs)"
    using kv by simp
  ultimately show ?case by (simp only:)
qed

end

interpretation strb: tag_store strb_ok tags_of strb_lookup strb_add
  by unfold_locales (simp_all add: strb_lookup_correct strb_vadd_correct strb_add_def)

lemma strb_add_all_returns:
  assumes "strb_ok sb" and "card (dom (tags_of sb) \<union> fst ` set kvs) \<le> ent_max sb"
    and "card (dom (tags_of sb)) = ent_used sb"
    and "\<forall>(k, v) \<in> set kvs. is_cstr k \<and> is_cstr v \<and> int (length v) < INT_MAX"
    and "STRBOFFSET + STRB_ENTSIZE sb + str_used sb + (\<Sum>(k, v) \<leftarrow> kvs. length k + length v + 2) \<le> SIZE_MAX div 2"
  shows "\<exists>sb'. add_all strb_add sb kvs = Inr sb'"
  using assms
proof (induction kvs arbitrary: sb)
  case Nil
  then show ?case by simp
next
  case (Cons kv kvs)
  obtain k v where kv: "kv = (k, v)" by (cases kv)
  have fin: "finite (dom (tags_of sb) \<union> fst ` set (kv # kvs))" by (simp add: tags_of_def finite_dom_map_of)
  have free: "strb_free sb k"
  proof (cases "k \<in> dom (tags_of sb)")
    case False
    have "insert k (dom (tags_of sb)) \<subseteq> dom (tags_of sb) \<union> fst ` set (kv # kvs)" using kv by auto
    from card_mono [OF fin this] False Cons.prems(2,3) show ?thesis
      by (simp add: strb_free_def tags_of_def finite_dom_map_of)
  qed (simp add: strb_free_def)
  obtain sb1 where sb1: "strb_vadd sb k v = Inr sb1" "ent_max sb1 = ent_max sb"
      "str_used sb1 \<le> str_used sb + length k + length v + 2"
      "ent_used sb1 = (if k \<in> dom (tags_of sb) then ent_used sb else ent_used sb + 1)"
    using strb_vadd_returns [OF Cons.prems(1) free, of v] Cons.prems(4,5) kv by auto
  have cs: "is_cstr k" "is_cstr v" using Cons.prems(4) kv by auto
  note c = strb_vadd_correct [OF Cons.prems(1) cs sb1(1)]
  have "dom (tags_of sb1) = insert k (dom (tags_of sb))" using c by simp
  then have d: "card (dom (tags_of sb1)) = ent_used sb1"
      "card (dom (tags_of sb1) \<union> fst ` set kvs) \<le> ent_max sb1"
    using Cons.prems(2,3) sb1(2,4) kv by (simp_all add: card_insert_if tags_of_def finite_dom_map_of)
  then have "\<exists>sb'. add_all strb_add sb1 kvs = Inr sb'"
    using Cons.prems(4,5) sb1(2,3) kv by (intro Cons.IH [OF conjunct1 [OF c] d(2) d(1)]) (auto simp: STRB_ENTSIZE_def)
  with sb1(1) kv show ?case by (simp add: strb_add_def [of sb])
qed

section \<open>Properties\<close>

text \<open>C8: a string block implements a map from keys to values. Whatever tags are added to a new block,
  in whatever order and however often a key is replaced, as long as there are at most 64 different keys,
  every addition succeeds - growing the string area - and a lookup then gives the last value of its key.\<close>

theorem strb_is_map:
  assumes keys: "card (fst ` set kvs) \<le> 64" and str: "\<forall>(k, v) \<in> set kvs. is_cstr k \<and> is_cstr v"
    and small: "(\<Sum>(k, v) \<leftarrow> kvs. length k + length v + 2) \<le> 2 ^ 30"
  shows "\<exists>sb. add_all strb_add strb_create kvs = Inr sb \<and> (\<forall>k. strb_lookup sb k = Inr (map_of (rev kvs) k))"
proof -
  have z: "strb_ok strb_create" "tags_of strb_create = Map.empty" using strb_create_ok by simp_all
  have f: "ent_max strb_create = 64" "ent_used strb_create = 0" "str_used strb_create = 0"
    "STRB_ENTSIZE strb_create = 1024"
    by (simp_all add: strb_create_def strb_clear_def STRBENTRIES_def STRB_ENTSIZE_def)
  have "int (length v) < INT_MAX" if "(k, v) \<in> set kvs" for k v
  proof -
    have "length k + length v + 2 \<le> (\<Sum>(k, v) \<leftarrow> kvs. length k + length v + 2)"
      by (rule member_le_sum_list) (use that in \<open>force+\<close>)
    with small show ?thesis by (simp add: INT_MAX_def)
  qed
  with str have str': "\<forall>(k, v) \<in> set kvs. is_cstr k \<and> is_cstr v \<and> int (length v) < INT_MAX" by blast
  obtain sb where sb: "add_all strb_add strb_create kvs = Inr sb"
    using strb_add_all_returns [of strb_create kvs] z f keys str' small
    by (auto simp: STRBOFFSET_def SIZE_MAX_def)
  have "strb_ok sb \<and> tags_of sb = Map.empty ++ map_of (rev kvs)"
    using strb.add_all_tags [OF z(1) str sb] z(2) by simp
  with sb show ?thesis using strb.find_tags by auto
qed

lemma strb_is_map_witness:
  "\<exists>sb. add_all strb_add strb_create [(''a'', ''1''), (''b'', ''2''), (''a'', ''3'')] = Inr sb \<and>
    strb_lookup sb ''a'' = Inr (Some ''3'') \<and> strb_lookup sb ''c'' = Inr None"
proof -
  have "card (fst ` set [(''a'', ''1''), (''b'', ''2''), (''a'', ''3'')]) \<le> 64" by (simp add: card_insert_if)
  from strb_is_map [OF this] show ?thesis by (force simp: is_cstr_def)
qed

text \<open>the entry array is not grown in time. When all entries are in use, adding one more key writes
  the new entry one place past the array, outside the allocation (the test that should grow the array
  is \<open>ent_used > ent_max\<close>), whatever the key and the value.\<close>

theorem strb_full_overflows:
  assumes ok: "strb_ok sb" and full: "ent_used sb = ent_max sb" and new: "key \<notin> dom (tags_of sb)"
    and vlen: "int (length val) < INT_MAX"
    and small: "STRBOFFSET + STRB_ENTSIZE sb + (str_used sb + (length key + 1 + (length val + 1))) \<le> SIZE_MAX div 2"
  shows "strb_add sb key val = Inl (MemErr ''entry'')"
proof -
  have "0 < str_size sb" using ok by (simp add: strb_ok_def)
  then obtain sz where "strb_fit (str_used sb) (length key + 1 + (length val + 1)) (STRBOFFSET + STRB_ENTSIZE sb)
      (str_size sb) = Inr sz"
    using strb_fit_returns [OF _ small] by blast
  then obtain sb1 where g: "strb_grow_strs sb (length key + 1 + (length val + 1)) = Inr sb1"
    by (auto simp: strb_grow_strs_def)
  note c = strb_grow_strs_correct [OF ok g]
  then have ok1: "strb_ok sb1" and "tags_of sb1 = tags_of sb" by (simp_all add: tags_of_def)
  with new have a: "strb_address sb1 key = Inr None"
    by (auto intro: strb_address_correct [OF ok1, of key])
  have len: "length (strs sb1) = str_size sb1" "length (ents sb1) = ent_max sb1"
    using ok1 by (simp_all add: strb_ok_def)
  have "strb_grow_ents sb1 = Inr sb1" using c full by (simp add: strb_grow_ents_def)
  then show ?thesis
    using a c len g full vlen by (auto simp: strb_add_def strb_vadd_def Let_def mem_write_def)
qed

lemma strb_full_overflows_witness:
  "\<exists>sb. strb_ok sb \<and> strb_add sb ''new'' ''value'' = Inl (MemErr ''entry'')"
proof -
  let ?sb = "\<lparr>ent_used = 1, ent_max = 1, str_used = 4, str_size = 8, strs = ''a'' @ [NUL] @ ''b'' @ replicate 5 NUL, ents = [(0, 2)]\<rparr>"
  have "strb_ok ?sb" by (simp add: strb_ok_def within_def pairs_def entry_pair_def)
  moreover have "strb_add ?sb ''new'' ''value'' = Inl (MemErr ''entry'')"
    by (rule strb_full_overflows)
      (use calculation in \<open>simp_all add: tags_of_def pairs_def entry_pair_def cstr_def STRBOFFSET_def STRB_ENTSIZE_def SIZE_MAX_def INT_MAX_def\<close>)
  ultimately show ?thesis by blast
qed

end
