(* ===== verification/Mail.thy ===== *)
theory Mail imports Strb Buffer begin

text \<open>
  The mail of \<^verbatim>\<open>mail.c\<close> (\<^verbatim>\<open>struct mail\<close> in \<^verbatim>\<open>fdm.h\<close>): a block of shared memory that holds the
  text at an offset, the offset of the body, the tags, the positions of wrapped header newlines, the
  attachment tree and the private data of the fetch code. A pointer into the text is its offset from
  \<open>data\<close>; NULL is \<open>None\<close>. Formatted text is given expanded. The shared memory comes from outside: whether
  it can be created or resized is a parameter \<open>shm\<close>, and what another process left in it a
  parameter of \<open>mail_receive\<close>.
\<close>

datatype attach = Attach (a_idx: nat) (a_data: nat) (a_body: nat) (a_size: nat)
  (a_type: "char list option") (a_name: "char list option") (a_children: "attach list")

datatype decision = DECISION_NONE | DECISION_DROP | DECISION_KEEP

record rm = rm_valid :: bool  rm_so :: nat  rm_eo :: nat

record rmlist = rml_valid :: bool  rml_list :: "rm list"

record 'x mail =
  m_idx :: nat
  m_tim :: nat
  m_tags :: "strb option"
  attach :: "attach option"
  attach_built :: bool
  mapped :: bool
  m_base :: "char list"
  m_off :: nat
  msize :: nat
  m_space :: nat
  m_body :: nat
  wrapped :: "nat list"
  wrapchar :: char
  m_rml :: rmlist
  decision :: decision
  auxfree :: bool
  auxdata :: "'x option"

definition IO_BLOCKSIZE :: nat where "IO_BLOCKSIZE = 16384"

text \<open>The sum does not wrap around for a size that memory can have.\<close>

definition IO_ROUND :: "nat \<Rightarrow> nat" where
  "IO_ROUND n = ((n div IO_BLOCKSIZE) + 1) * IO_BLOCKSIZE"

definition NPMATCH :: nat where "NPMATCH = 10"

definition bytes_at :: "'x mail \<Rightarrow> nat \<Rightarrow> nat \<Rightarrow> char list res" where
  "bytes_at m pos n = mem_read (m_base m) (m_off m + pos) n"

definition content :: "'x mail \<Rightarrow> char list" where
  "content m = take (msize m) (drop (m_off m) (m_base m))"

section \<open>Creating and passing on\<close>

definition mail_open :: "(nat \<Rightarrow> bool) \<Rightarrow> 'x mail \<Rightarrow> nat \<Rightarrow> int \<times> 'x mail" where
  "mail_open shm m sz =
     (let m = m\<lparr>msize := 0, m_space := IO_ROUND sz, m_body := 0\<rparr> in
      if \<not> shm (m_space m) then (- 1, m\<lparr>mapped := False, m_base := []\<rparr>)
      else (0, m\<lparr>mapped := True, m_base := replicate (m_space m) NUL, m_off := 0, m_tags := Some strb_create,
                 wrapped := [], wrapchar := NUL, attach := None, attach_built := False\<rparr>))"

text \<open>\<open>mail_send\<close> fills in the copy of a message.\<close>

definition mail_send :: "'x mail \<Rightarrow> 'x mail" where
  "mail_send m = m\<lparr>wrapped := [], wrapchar := NUL, attach := None\<rparr>"

text \<open>\<open>mail_free\<close> and its callers also give the private data they passed to \<open>auxfree\<close>.\<close>

definition mail_free :: "'x mail \<Rightarrow> 'x mail \<times> 'x option" where
  "mail_free m = (m\<lparr>m_tags := None, wrapped := [], wrapchar := NUL\<rparr>,
     if auxfree m \<and> auxdata m \<noteq> None then auxdata m else None)"

definition mail_close :: "'x mail \<Rightarrow> 'x mail \<times> 'x option" where
  "mail_close m = (case mail_free m of (m, aux) \<Rightarrow> (if mapped m then m\<lparr>m_base := []\<rparr> else m, aux))"

definition mail_destroy :: "'x mail \<Rightarrow> 'x mail \<times> 'x option" where
  "mail_destroy m = (case mail_free m of (m, aux) \<Rightarrow> (if mapped m then m\<lparr>m_base := []\<rparr> else m, aux))"

text \<open>\<open>mm\<close> is the mail in the message and \<open>reopened\<close> what \<open>shm_reopen\<close> maps.\<close>

definition mail_receive ::
    "char list option \<Rightarrow> 'x mail \<Rightarrow> 'x mail \<Rightarrow> bool \<Rightarrow> int \<times> 'x mail \<times> 'x option" where
  "mail_receive reopened m mm destroy =
     (let mm = mm\<lparr>m_idx := m_idx m, m_tags := m_tags m, attach := attach m, auxfree := auxfree m, auxdata := auxdata m\<rparr>;
          m = m\<lparr>m_tags := None, attach := None, auxfree := False, auxdata := None\<rparr>;
          aux = snd (if destroy then mail_destroy m else mail_close m)
      in case reopened of
           None \<Rightarrow> (- 1, mm\<lparr>mapped := False, m_base := []\<rparr>, aux)
         | Some mem \<Rightarrow> (0, mm\<lparr>mapped := True, m_base := mem, wrapped := [], wrapchar := NUL\<rparr>, aux))"

section \<open>Size\<close>

function mail_fit :: "(nat \<Rightarrow> bool) \<Rightarrow> 'x mail \<Rightarrow> nat \<Rightarrow> (int \<times> 'x mail) res" where
  "mail_fit shm m sz =
     (if m_space m \<le> m_off m + sz then
        if m_space m = 0 then Inl (FatalX ''zero size'')
        else if SIZE_MAX div 2 < m_space m then Inl (FatalX ''nmemb * size > SIZE_MAX'')
        else if \<not> shm (2 * m_space m) then Inr (- 1, m\<lparr>mapped := False, m_base := []\<rparr>)
        else mail_fit shm (m\<lparr>m_base := m_base m @ replicate (m_space m) NUL, m_space := 2 * m_space m\<rparr>) sz
      else Inr (0, m))"
  by pat_completeness auto
termination by (relation "measure (\<lambda>(_, m, _). SIZE_MAX - m_space m)") (auto simp: SIZE_MAX_def)

declare mail_fit.simps [simp del]

definition mail_resize :: "(nat \<Rightarrow> bool) \<Rightarrow> 'x mail \<Rightarrow> nat \<Rightarrow> (int \<times> 'x mail) res" where
  "mail_resize shm m sz =
     (if SIZE_MAX - m_off m < sz then Inl (FatalX ''size too large'') else mail_fit shm m sz)"

section \<open>Lines\<close>

text \<open>A cursor is the start of a line (or NULL) and its length, the newline included.\<close>

type_synonym cursor = "nat option \<times> nat"

definition line_init :: "'x mail \<Rightarrow> cursor res" where
  "line_init m = rbind (bytes_at m 0 (msize m)) (\<lambda>d.
     Inr (Some 0, case memchr d NL of None \<Rightarrow> msize m | Some i \<Rightarrow> i + 1))"

definition line_next :: "'x mail \<Rightarrow> cursor \<Rightarrow> cursor res" where
  "line_next m c = (case c of
       (None, len) \<Rightarrow> Inl (MemErr ''line_next'')
     | (Some p, len) \<Rightarrow>
         let p = p + len in
         if p = msize m then Inr (None, len)
         else if msize m < p then Inl (MemErr ''line_next'')
         else rbind (bytes_at m p (msize m - p)) (\<lambda>d.
           Inr (Some p, case memchr d NL of None \<Rightarrow> msize m - p | Some i \<Rightarrow> i + 1)))"

text \<open>
  The loop the functions on lines share:
  \<open>line_init; while (ptr != NULL) { ...; line_next }\<close>. The body gets the state and the line; it ends the
  loop with \<open>Inl\<close> or goes on with \<open>Inr\<close>.
\<close>

function line_loop :: "'x mail \<Rightarrow> ('s \<Rightarrow> nat \<Rightarrow> nat \<Rightarrow> ('a + 's) res) \<Rightarrow> 's \<Rightarrow> cursor \<Rightarrow> ('a + 's) res" where
  "line_loop m f s (None, len) = Inr (Inr s)"
| "line_loop m f s (Some p, len) =
     (case f s p len of
        Inl e \<Rightarrow> Inl e
      | Inr (Inl a) \<Rightarrow> Inr (Inl a)
      | Inr (Inr s) \<Rightarrow>
          (case line_next m (Some p, len) of Inl e \<Rightarrow> Inl e | Inr c \<Rightarrow> line_loop m f s c))"
  by pat_completeness auto

lemma line_next_progress:
  assumes "line_next m (Some p, len) = Inr (Some p', len')"
  shows "p' = p + len \<and> p' < msize m \<and> 0 < len'"
proof -
  have lt: "p + len < msize m"
    using assms by (simp add: line_next_def Let_def split: if_splits)
  then obtain d where "p' = p + len" "len' = (case memchr d NL of None \<Rightarrow> msize m - (p + len) | Some i \<Rightarrow> i + 1)"
    using assms by (simp add: line_next_def Let_def rbind_Inr_iff) metis
  with lt show ?thesis by (simp split: option.splits)
qed

definition loop_measure :: "nat \<Rightarrow> cursor \<Rightarrow> nat" where
  "loop_measure sz c = (case c of (None, _) \<Rightarrow> 0 | (Some p, len) \<Rightarrow> 2 + 2 * (sz - p) - (if 0 < len then 1 else 0))"

lemma line_next_measure:
  assumes "line_next m (Some p, len) = Inr c"
  shows "loop_measure (msize m) c < loop_measure (msize m) (Some p, len)"
proof (cases c)
  case (Pair q l)
  show ?thesis
  proof (cases q)
    case None
    with Pair show ?thesis by (simp add: loop_measure_def)
  next
    case (Some p')
    have "p' = p + len" "p' < msize m" "0 < l" using line_next_progress assms Pair Some by blast+
    with Pair Some show ?thesis by (auto simp: loop_measure_def)
  qed
qed

termination line_loop
  by (relation "measure (\<lambda>(m, _, _, c). loop_measure (msize m) c)") (simp_all add: line_next_measure)

definition on_lines :: "'x mail \<Rightarrow> ('s \<Rightarrow> nat \<Rightarrow> nat \<Rightarrow> ('a + 's) res) \<Rightarrow> 's \<Rightarrow> ('a + 's) res" where
  "on_lines m f s = rbind (line_init m) (line_loop m f s)"


section \<open>Headers\<close>

text \<open>
  The value of a header line: spaces skipped in front, newlines trimmed at the end. (The test
  \<open>len == 0\<close> that follows in the source compares the pointer and never holds.)
\<close>

definition header_value :: "'x mail \<Rightarrow> nat \<Rightarrow> nat \<Rightarrow> (nat \<times> nat) option res" where
  "header_value m p len = rbind (bytes_at m p len) (\<lambda>v.
     let lead = length (takeWhile isspace v);
         v' = drop lead v;
         trail = length (takeWhile (\<lambda>c. c = NL) (rev v'))
     in Inr (Some (p + lead, length v' - trail)))"

definition loop_result :: "('a option + unit) res \<Rightarrow> 'a option res" where
  "loop_result r = rbind r (\<lambda>x. case x of Inl a \<Rightarrow> Inr a | Inr _ \<Rightarrow> Inr None)"

definition find_header :: "'x mail \<Rightarrow> char list \<Rightarrow> bool \<Rightarrow> (nat \<times> nat) option res" where
  "find_header m hdr value =
     (let hdrlen = length hdr + 1 in
      if m_body m < hdrlen \<or> msize m < hdrlen then Inr None
      else rbind (loop_result (on_lines m (\<lambda>_ p len.
             if m_body m \<le> p then Inr (Inl None)
             else rbind (bytes_at m p len) (\<lambda>l.
               if hdrlen \<le> len \<and> l ! (hdrlen - 1) = CHR '':'' \<and> strncasecmp_eq (take (hdrlen - 1) l) hdr
               then Inr (Inl (Some (p, len))) else Inr (Inr ()))) ()))
           (\<lambda>r. case r of
                  None \<Rightarrow> Inr None
                | Some (p, len) \<Rightarrow>
                    if \<not> value then Inr (Some (p, len)) else header_value m (p + hdrlen) (len - hdrlen)))"

text \<open>\<open>fnmatch\<close> is the C library's, here with \<open>FNM_CASEFOLD\<close>.\<close>

definition match_header ::
    "(char list \<Rightarrow> char list \<Rightarrow> bool) \<Rightarrow> 'x mail \<Rightarrow> char list \<Rightarrow> bool \<Rightarrow> (nat \<times> nat) option res" where
  "match_header fnmatch m patt value =
     rbind (loop_result (on_lines m (\<lambda>_ p len.
         if m_body m \<le> p then Inr (Inl None)
         else rbind (bytes_at m p len) (\<lambda>l.
           case memchr l (CHR '':'') of
             None \<Rightarrow> Inr (Inr ())
           | Some hdrlen \<Rightarrow>
               if fnmatch patt (cstr (take hdrlen l)) then Inr (Inl (Some (p, len, hdrlen))) else Inr (Inr ()))) ()))
       (\<lambda>r. case r of
              None \<Rightarrow> Inr None
            | Some (p, len, hdrlen) \<Rightarrow>
                if \<not> value then Inr (Some (p, len))
                else header_value m (p + (hdrlen + 1)) (len - (hdrlen + 1)))"

definition remove_header :: "'x mail \<Rightarrow> char list \<Rightarrow> (int \<times> 'x mail) res" where
  "remove_header m hdr = rbind (find_header m hdr False) (\<lambda>r. case r of
       None \<Rightarrow> Inr (- 1, m)
     | Some (p, len) \<Rightarrow>
         rbind (mem_move (m_base m) (m_off m + p) (m_off m + p + len) (size_sub (msize m) (len + p))) (\<lambda>mem.
           Inr (0, m\<lparr>m_base := mem, msize := msize m - len, m_body := size_sub (m_body m) len\<rparr>)))"

definition insert_header ::
    "(nat \<Rightarrow> bool) \<Rightarrow> 'x mail \<Rightarrow> char list option \<Rightarrow> char list \<Rightarrow> (int \<times> 'x mail) res" where
  "insert_header shm m before hdr =
     rbind (case before of
              Some b \<Rightarrow> rbind (find_header m b False) (\<lambda>r. Inr (map_option (\<lambda>(p, len). (p, 1)) r))
            | None \<Rightarrow> if m_body m = 0 then Inr (Some (0, 2)) else Inr (Some (m_body m - 1, 1)))
       (\<lambda>r. case r of
          None \<Rightarrow> Inr (- 1, m)
        | Some (o', newlines) \<Rightarrow>
            let hdrlen = length hdr + newlines in
            rbind (mail_resize shm m (msize m + hdrlen)) (\<lambda>(n, m).
              if n \<noteq> 0 then Inr (- 1, m)
              else rbind (mem_move (m_base m) (m_off m + o' + hdrlen) (m_off m + o') (size_sub (msize m) o')) (\<lambda>mem.
                rbind (mem_write mem (m_off m + o') (hdr @ replicate newlines NL)) (\<lambda>mem.
                  Inr (0, m\<lparr>m_base := mem, msize := msize m + hdrlen, m_body := m_body m + hdrlen\<rparr>)))))"

definition find_body :: "'x mail \<Rightarrow> nat res" where
  "find_body m = rbind (on_lines m (\<lambda>_ p len.
       rbind (bytes_at m p len) (\<lambda>l.
         if len = 1 \<and> l = [NL]
         then rbind (line_next m (Some p, len)) (\<lambda>c. case c of
                (None, _) \<Rightarrow> Inr (Inl (msize m)) | (Some q, _) \<Rightarrow> Inr (Inl q))
         else Inr (Inr ()))) ())
     (\<lambda>r. case r of Inl n \<Rightarrow> Inr n | Inr _ \<Rightarrow> Inr 0)"

definition count_lines :: "'x mail \<Rightarrow> (nat \<times> nat) res" where
  "count_lines m = rbind (on_lines m (\<lambda>(flag, tot, bodyl) p len.
       rbind (bytes_at m p len) (\<lambda>l.
         Inr (Inr (flag \<or> len = 1 \<and> l = [NL], tot + 1, if flag then bodyl + 1 else bodyl))))
       (False, 0, 0))
     (\<lambda>r. case r of Inl (x :: nat \<times> nat) \<Rightarrow> Inr x | Inr (_, tot, bodyl) \<Rightarrow> Inr (tot, bodyl))"

definition append_line :: "(nat \<Rightarrow> bool) \<Rightarrow> 'x mail \<Rightarrow> char list \<Rightarrow> (int \<times> 'x mail) res" where
  "append_line shm m line =
     rbind (mail_resize shm m (msize m + length line + 1)) (\<lambda>(n, m).
       if n \<noteq> 0 then Inr (- 1, m)
       else rbind (mem_write (m_base m) (m_off m + msize m) (line @ [NL])) (\<lambda>mem.
         Inr (0, m\<lparr>m_base := mem, msize := msize m + length line + 1\<rparr>)))"

section \<open>Addresses\<close>

text \<open>Sections in double quotes are blanked, the quotes kept.\<close>

fun blank_quotes :: "bool \<Rightarrow> char list \<Rightarrow> char list" where
  "blank_quotes q [] = []"
| "blank_quotes False (c # cs) = c # blank_quotes (c = DQ) cs"
| "blank_quotes True (c # cs) = (if c = DQ then c # blank_quotes False cs else SP # blank_quotes True cs)"

definition isfirst :: "char \<Rightarrow> bool" where "isfirst c \<longleftrightarrow> c = CHR ''<'' \<or> c = SP"
definition islast :: "char \<Rightarrow> bool" where
  "islast c \<longleftrightarrow> c = CHR ''>'' \<or> c = SP \<or> c = CHR '','' \<or> c = CHR '';''"
definition isuser :: "char \<Rightarrow> bool" where
  "isuser c \<longleftrightarrow> isalnum c \<or> c \<in> {CHR ''.'', CHR ''_'', CHR ''%'', CHR ''+'', CHR ''-''}"
definition isdomain :: "char \<Rightarrow> bool" where
  "isdomain c \<longleftrightarrow> isalnum c \<or> c \<in> {CHR ''.'', CHR ''-'', CHR ''['', CHR '']''}"

fun scan_user :: "char list \<Rightarrow> nat \<Rightarrow> nat" where
  "scan_user hdr 0 = 0"
| "scan_user hdr (Suc n) = (if isuser (hdr ! Suc n) then scan_user hdr n else Suc n)"

text \<open>
  The loop on the \<open>@\<close> signs, from position \<open>p\<close> of the copied string; the string ends at
  \<open>length hdr\<close> and a search that starts behind its terminator leaves the copy.
\<close>

function address_loop :: "char list \<Rightarrow> nat \<Rightarrow> (nat \<times> nat) option res" where
  "address_loop hdr p =
     (if length hdr < p then Inl (MemErr ''strchr'')
      else case memchr (drop p hdr) (CHR ''@'') of
        None \<Rightarrow> Inr None
      | Some i \<Rightarrow>
          let at = p + i;
              last = at + 1 + length (takeWhile isdomain (drop (at + 1) hdr));
              lastc = (if last < length hdr then hdr ! last else NUL);
              first = scan_user hdr (at - 1);
              firstc = hdr ! first
          in if lastc \<noteq> NUL \<and> \<not> islast lastc then address_loop hdr (last + 1)
             else if first \<noteq> 0 \<and> \<not> isfirst firstc then address_loop hdr (last + 1)
             else if lastc = CHR ''>'' \<and> firstc \<noteq> CHR ''<'' then address_loop hdr (last + 1)
             else if firstc = CHR ''<'' \<and> lastc \<noteq> CHR ''>'' then address_loop hdr (last + 1)
             else let first = (if first \<noteq> 0 then first + 1 else first) in Inr (Some (first, last - first)))"
  by pat_completeness auto
termination by (relation "measure (\<lambda>(hdr, p). length hdr + 1 - p)") auto

declare address_loop.simps [simp del]

definition find_address :: "char list \<Rightarrow> (nat \<times> nat) option res" where
  "find_address buf = (if buf = [] then Inr None else address_loop (blank_quotes False (cstr buf)) 1)"

section \<open>From lines and wrapped headers\<close>

definition trim_from :: "'x mail \<Rightarrow> 'x mail res" where
  "trim_from m =
     (if \<not> mapped m \<or> m_body m = 0 \<or> msize m < 5 then Inr m
      else rbind (bytes_at m 0 5) (\<lambda>d.
        if d \<noteq> ''From '' then Inr m
        else rbind (line_init m) (\<lambda>(_, len).
          Inr (m\<lparr>msize := msize m - len, m_off := m_off m + len, m_body := size_sub (m_body m) len\<rparr>))))"

text \<open>\<open>ctime\<close> is the current time as \<open>ctime (3)\<close> gives it.\<close>

definition make_from :: "char list \<Rightarrow> 'x mail \<Rightarrow> char list \<Rightarrow> char list res" where
  "make_from ctime m user =
     rbind (find_header m ''from'' True) (\<lambda>r.
     rbind (case r of
              None \<Rightarrow> Inr None
            | Some (p, len) \<Rightarrow>
                if len = 0 then Inr (Some (p, len))
                else rbind (bytes_at m p len) (\<lambda>v. rbind (find_address v)
                       (\<lambda>a. Inr (map_option (\<lambda>(q, alen). (p + q, alen)) a)))) (\<lambda>r.
     rbind (case r of
              None \<Rightarrow> Inr user
            | Some (p, len) \<Rightarrow>
                if INT_MAX < int len then Inr user else rbind (bytes_at m p len) (\<lambda>v. Inr (cstr v))) (\<lambda>from.
       Inr (''From '' @ from @ '' '' @ take 24 ctime))))"

function wrapped_from :: "'x mail \<Rightarrow> nat \<Rightarrow> nat list res" where
  "wrapped_from m p =
     (if msize m < p then Inl (MemErr ''fill_wrapped'')
      else case bytes_at m p (msize m - p) of
        Inl e \<Rightarrow> Inl e
      | Inr d \<Rightarrow>
         (case memchr d NL of
            None \<Rightarrow> Inr []
          | Some i \<Rightarrow>
              let q = p + i + 1 in
              if m_body m \<le> q then Inr []
              else rbind (bytes_at m q 1) (\<lambda>c.
                if isblank (c ! 0) then rbind (wrapped_from m q) (\<lambda>ws. Inr ((q - 1) # ws))
                else wrapped_from m q)))"
  by pat_completeness auto
termination
proof (relation "measure (\<lambda>(m, p). msize m + 1 - p)")
qed auto

declare wrapped_from.simps [simp del]

definition fill_wrapped :: "'x mail \<Rightarrow> (nat \<times> 'x mail) res" where
  "fill_wrapped m =
     (if wrapped m \<noteq> [] then Inl (FatalX ''already wrapped'')
      else rbind (wrapped_from m 0) (\<lambda>ws. Inr (length ws, m\<lparr>wrapped := ws, wrapchar := NUL\<rparr>)))"

fun write_each :: "char list \<Rightarrow> nat \<Rightarrow> nat list \<Rightarrow> char \<Rightarrow> char list res" where
  "write_each mem o' [] ch = Inr mem"
| "write_each mem o' (p # ps) ch = rbind (mem_write mem (o' + p) [ch]) (\<lambda>mem. write_each mem o' ps ch)"

definition set_wrapped :: "'x mail \<Rightarrow> char \<Rightarrow> 'x mail res" where
  "set_wrapped m ch =
     (if wrapchar m = ch then Inr m
      else rbind (write_each (m_base m) (m_off m) (wrapped m) ch) (\<lambda>mem. Inr (m\<lparr>wrapchar := ch, m_base := mem\<rparr>)))"

end
