(* ===== verification/Mail_Text.thy ===== *)
theory Mail_Text imports Mail begin

text \<open>
  What the operations of \<^verbatim>\<open>mail.c\<close> do to the text of a mail: the invariant \<open>mail_ok\<close>, the lines that the
  cursor functions visit, and the effect of each operation on \<open>content\<close>.
\<close>

section \<open>The invariant\<close>

definition mail_ok :: "'x mail \<Rightarrow> bool" where
  "mail_ok m \<longleftrightarrow> mapped m \<and> length (m_base m) = m_space m \<and> m_off m + msize m < m_space m \<and> m_body m \<le> msize m"

lemma length_content [simp]: "mail_ok m \<Longrightarrow> length (content m) = msize m"
  by (auto simp: content_def mail_ok_def)

lemma bytes_at_ok: "mail_ok m \<Longrightarrow> p + n \<le> msize m \<Longrightarrow> bytes_at m p n = Inr (take n (drop p (content m)))"
  by (auto simp: bytes_at_def mem_read_def content_def mail_ok_def drop_take min_def add.commute)

section \<open>Lines\<close>

definition line_len :: "char list \<Rightarrow> nat" where
  "line_len c = (case memchr c NL of None \<Rightarrow> length c | Some i \<Rightarrow> i + 1)"

lemma line_len_le: "line_len c \<le> length c"
  by (auto simp: line_len_def dest: memchr_less split: option.splits)

lemma line_len_pos: "c \<noteq> [] \<Longrightarrow> 0 < line_len c"
  by (auto simp: line_len_def split: option.splits)

function lines_of :: "char list \<Rightarrow> char list list" where
  "lines_of c = take (line_len c) c # (if line_len c = length c then [] else lines_of (drop (line_len c) c))"
  by pat_completeness auto
termination
proof (relation "measure length")
  fix c :: "char list" assume "line_len c \<noteq> length c"
  then have "c \<noteq> []" "line_len c < length c" using line_len_le [of c] by (auto simp: line_len_def)
  then show "(drop (line_len c) c, c) \<in> measure length" using line_len_pos [of c] by simp
qed simp

declare lines_of.simps [simp del]

lemma concat_lines_of: "concat (lines_of c) = c"
proof (induction c rule: lines_of.induct)
  case (1 c)
  then show ?case by (cases "line_len c = length c") (auto simp: lines_of.simps [of c])
qed

text \<open>The loop over the lines, on a list of lines; the body gets the position and the text of a line.\<close>

fun fold_lines :: "('s \<Rightarrow> nat \<Rightarrow> char list \<Rightarrow> ('a + 's) res) \<Rightarrow> 's \<Rightarrow> nat \<Rightarrow> char list list \<Rightarrow> ('a + 's) res" where
  "fold_lines g s p [] = Inr (Inr s)"
| "fold_lines g s p (l # ls) =
     (case g s p l of
        Inl e \<Rightarrow> Inl e
      | Inr (Inl a) \<Rightarrow> Inr (Inl a)
      | Inr (Inr s) \<Rightarrow> fold_lines g s (p + length l) ls)"

lemma line_init_ok: "mail_ok m \<Longrightarrow> line_init m = Inr (Some 0, line_len (content m))"
  by (simp add: line_init_def bytes_at_ok line_len_def split: option.splits)

lemma line_next_ok:
  assumes "mail_ok m" and "p + len \<le> msize m"
  shows "line_next m (Some p, len) =
    (if p + len = msize m then Inr (None, len)
     else Inr (Some (p + len), line_len (drop (p + len) (content m))))"
proof (cases "p + len = msize m")
  case True
  then show ?thesis by (simp add: line_next_def)
next
  case False
  have "bytes_at m (p + len) (msize m - (p + len)) = Inr (drop (p + len) (content m))"
    using assms by (simp add: bytes_at_ok)
  with False assms show ?thesis by (simp add: line_next_def line_len_def Let_def split: option.splits)
qed

lemma line_loop_fold:
  assumes ok: "mail_ok m" and p: "p < msize m \<or> msize m = 0 \<and> p = 0"
    and fg: "\<And>s p n. p + n \<le> msize m \<Longrightarrow> f s p n = g s p (take n (drop p (content m)))"
  shows "line_loop m f s (Some p, line_len (drop p (content m))) = fold_lines g s p (lines_of (drop p (content m)))"
  using p
proof (induction "drop p (content m)" arbitrary: p s rule: lines_of.induct)
  case 1
  let ?c = "drop p (content m)"
  have ple: "p \<le> msize m" using "1.prems" by auto
  have lc: "length ?c = msize m - p" using ok by simp
  have le: "p + line_len ?c \<le> msize m" using line_len_le [of ?c] lc ple by simp
  have eq: "f s p (line_len ?c) = g s p (take (line_len ?c) ?c)" by (rule fg [OF le])
  have ll: "length (take (line_len ?c) ?c) = line_len ?c" using line_len_le [of ?c] by simp
  note nx = line_next_ok [OF ok le]
  show ?case
  proof (cases "line_len ?c = length ?c")
    case True
    then have "p + line_len ?c = msize m" using lc ple by simp
    with True nx eq show ?thesis
      by (subst lines_of.simps) (simp split: sum.splits)
  next
    case False
    then have ne: "p + line_len ?c \<noteq> msize m" "p + line_len ?c < msize m" using lc le by auto
    have dd: "drop (line_len ?c) ?c = drop (p + line_len ?c) (content m)" by (simp add: add.commute)
    have "line_loop m f s' (Some (p + line_len ?c), line_len (drop (p + line_len ?c) (content m))) =
        fold_lines g s' (p + line_len ?c) (lines_of (drop (line_len ?c) ?c))" for s'
      using "1.hyps" [OF False dd, of s'] ne dd by simp
    with False nx eq ne ll show ?thesis
      by (subst lines_of.simps) (simp split: sum.splits)
  qed
qed

lemma on_lines_fold:
  assumes ok: "mail_ok m" and fg: "\<And>s p n. p + n \<le> msize m \<Longrightarrow> f s p n = g s p (take n (drop p (content m)))"
  shows "on_lines m f s = fold_lines g s 0 (lines_of (content m))"
proof -
  have "on_lines m f s = line_loop m f s (Some 0, line_len (drop 0 (content m)))"
    using line_init_ok [OF ok] by (simp add: on_lines_def)
  also have "\<dots> = fold_lines g s 0 (lines_of (drop 0 (content m)))"
    by (rule line_loop_fold) (use ok fg in auto)
  finally show ?thesis by simp
qed

section \<open>The separator of headers and body\<close>

definition sep_at :: "char list \<Rightarrow> nat \<Rightarrow> bool" where
  "sep_at c n \<longleftrightarrow> n < length c \<and> c ! n = NL \<and> (n = 0 \<or> c ! (n - 1) = NL)"

definition body_offset :: "char list \<Rightarrow> nat" where
  "body_offset c = (case List.find (sep_at c) [0..<length c] of None \<Rightarrow> 0 | Some n \<Rightarrow> n + 1)"

lemma find_skip: "\<forall>x \<in> set xs. \<not> P x \<Longrightarrow> List.find P (xs @ ys) = List.find P ys"
  by (induction xs) auto

lemma find_upt_skip:
  assumes "a \<le> b" and "b \<le> c" and "\<And>n. a \<le> n \<Longrightarrow> n < b \<Longrightarrow> \<not> P n"
  shows "List.find P [a..<c] = List.find P [b..<c]"
proof -
  have "[a..<c] = [a..<b] @ [b..<c]" using assms by (metis le_add_diff_inverse upt_add_eq_append)
  then show ?thesis using assms by (simp add: find_skip)
qed

definition line_start :: "char list \<Rightarrow> nat \<Rightarrow> bool" where
  "line_start c p \<longleftrightarrow> p \<le> length c \<and> (p = 0 \<or> c ! (p - 1) = NL)"

lemma line_len_drop:
  assumes s: "line_start c p" and k: "k = line_len (drop p c)"
  shows "p + k \<le> length c"
    and "take k (drop p c) = [NL] \<longleftrightarrow> sep_at c p"
    and "take k (drop p c) \<noteq> [NL] \<Longrightarrow> p \<le> n \<Longrightarrow> n < p + k \<Longrightarrow> \<not> sep_at c n"
    and "p + k \<noteq> length c \<Longrightarrow> line_start c (p + k) \<and> p < p + k"
proof -
  let ?d = "drop p c"
  have ple: "p \<le> length c" using s by (simp add: line_start_def)
  show le: "p + k \<le> length c" using line_len_le [of ?d] ple k by simp
  have nl: "c ! n \<noteq> NL" if "p \<le> n" "n + 1 < p + k" for n
  proof (cases "memchr ?d NL")
    case None
    then have "NL \<notin> set ?d" by (simp add: memchr_None)
    moreover have "n < length c" using that le by simp
    then have "?d ! (n - p) = c ! n" "n - p < length ?d" using that by simp_all
    then have "c ! n \<in> set ?d" by (metis nth_mem)
    ultimately show ?thesis by metis
  next
    case (Some i)
    then have "k = i + 1" using k by (simp add: line_len_def)
    with Some have "NL \<notin> set (take i ?d)" "n - p < i" "i < length ?d" using that by (auto simp: memchr_Some)
    moreover have "take i ?d ! (n - p) = c ! n" using that calculation by simp
    ultimately show ?thesis by (metis in_set_conv_nth length_take min.absorb2 min.commute less_imp_le)
  qed
  have last: "c ! (p + k - 1) = NL \<and> 0 < k" if "p + k \<noteq> length c"
  proof (cases "memchr ?d NL")
    case None
    with that k ple show ?thesis by (simp add: line_len_def)
  next
    case (Some i)
    with k ple show ?thesis by (auto simp: line_len_def memchr_Some)
  qed
  show one: "take k ?d = [NL] \<longleftrightarrow> sep_at c p"
  proof
    assume t: "take k ?d = [NL]"
    have "length (take k ?d) = 1" "take k ?d ! 0 = NL" unfolding t by simp_all
    then have "0 < length c - p" "?d ! 0 = NL" by (auto simp: min_def split: if_splits)
    then show "sep_at c p" using s by (simp add: sep_at_def line_start_def)
  next
    assume "sep_at c p"
    then have "memchr ?d NL = Some 0" by (simp add: sep_at_def memchr_Some)
    then show "take k ?d = [NL]" using k \<open>sep_at c p\<close>
      by (simp add: line_len_def sep_at_def take_Suc_conv_app_nth)
  qed
  show "\<not> sep_at c n" if ne: "take k ?d \<noteq> [NL]" and n: "p \<le> n" "n < p + k"
  proof
    assume sn: "sep_at c n"
    then have "\<not> n + 1 < p + k" using nl [OF n(1)] by (auto simp: sep_at_def)
    then have "n + 1 = p + k" using n(2) by simp
    moreover have "n \<noteq> p" using ne one sn by auto
    ultimately have "c ! (n - 1) \<noteq> NL" using nl [of "n - 1"] n(1) by simp
    then show False using sn \<open>n \<noteq> p\<close> n(1) by (auto simp: sep_at_def)
  qed
  show "line_start c (p + k) \<and> p < p + k" if "p + k \<noteq> length c"
    using last [OF that] le by (simp add: line_start_def)
qed

lemma find_body_fold:
  assumes "line_start c p" and "g = (\<lambda>_ p l. if l = [NL] then Inr (Inl (p + 1)) else Inr (Inr ()))"
  shows "fold_lines g () p (lines_of (drop p c)) =
    (case List.find (sep_at c) [p..<length c] of None \<Rightarrow> Inr (Inr ()) | Some n \<Rightarrow> Inr (Inl (n + 1)))"
  using assms(1)
proof (induction "drop p c" arbitrary: p rule: lines_of.induct)
  case 1
  let ?d = "drop p c"
  define k where "k = line_len ?d"
  note L = line_len_drop [OF "1.prems" k_def]
  show ?case
  proof (cases "sep_at c p")
    case True
    then have "p < length c" by (simp add: sep_at_def)
    then have "List.find (sep_at c) [p..<length c] = Some p" using True by (simp add: upt_conv_Cons)
    with True L(2) show ?thesis using assms(2) by (subst lines_of.simps) (simp add: k_def)
  next
    case False
    then have ne: "take k ?d \<noteq> [NL]" using L(2) by simp
    have sk: "List.find (sep_at c) [p..<length c] = List.find (sep_at c) [p + k..<length c]"
      by (rule find_upt_skip) (use L(1) L(3) [OF ne] in auto)
    have lk: "length (take k ?d) = k" using L(1) by simp
    show ?thesis
    proof (cases "p + k = length c")
      case True
      then have "line_len ?d = length ?d" by (simp add: k_def)
      with True ne sk show ?thesis using assms(2) by (subst lines_of.simps) (simp add: k_def)
    next
      case F: False
      then have nf: "line_len ?d \<noteq> length ?d" using L(1) by (auto simp: k_def)
      have dd: "drop (line_len ?d) ?d = drop (p + k) c" by (simp add: add.commute k_def)
      have "fold_lines g () (p + k) (lines_of (drop (p + k) c)) =
          (case List.find (sep_at c) [p + k..<length c] of None \<Rightarrow> Inr (Inr ()) | Some n \<Rightarrow> Inr (Inl (n + 1)))"
        using "1.hyps" [OF nf dd] L(4) [OF F] by simp
      with nf ne sk dd lk show ?thesis using assms(2) by (subst lines_of.simps) (simp add: k_def)
    qed
  qed
qed

lemma find_body_correct:
  assumes ok: "mail_ok m"
  shows "find_body m = Inr (body_offset (content m))"
proof -
  let ?g = "\<lambda>_ p l. if l = [NL] then Inr (Inl (p + 1)) else Inr (Inr ()) :: (nat + unit) res"
  have "on_lines m (\<lambda>_ p len. rbind (bytes_at m p len) (\<lambda>l.
         if len = 1 \<and> l = [NL]
         then rbind (line_next m (Some p, len)) (\<lambda>c. case c of
                (None, _) \<Rightarrow> Inr (Inl (msize m)) | (Some q, _) \<Rightarrow> Inr (Inl q))
         else Inr (Inr ()))) () = fold_lines ?g () 0 (lines_of (content m))"
  proof (rule on_lines_fold [OF ok])
    fix s :: unit and p n assume "p + n \<le> msize m"
    then show "rbind (bytes_at m p n) (\<lambda>l.
         if n = 1 \<and> l = [NL]
         then rbind (line_next m (Some p, n)) (\<lambda>c. case c of
                (None, _) \<Rightarrow> Inr (Inl (msize m)) | (Some q, _) \<Rightarrow> Inr (Inl q))
         else Inr (Inr ())) = ?g s p (take n (drop p (content m)))"
      using ok by (auto simp: bytes_at_ok line_next_ok dest: arg_cong [of _ _ length])
  qed
  also have "\<dots> = (case List.find (sep_at (content m)) [0..<length (content m)] of
      None \<Rightarrow> Inr (Inr ()) | Some n \<Rightarrow> Inr (Inl (n + 1)))"
    using find_body_fold [of "content m" 0 ?g] by (simp add: line_start_def)
  finally show ?thesis by (simp add: find_body_def body_offset_def split: option.splits)
qed

section \<open>Counting\<close>

definition nlines :: "char list \<Rightarrow> nat" where
  "nlines c = length (filter (\<lambda>x. x = NL) c) + (if c = [] \<or> last c \<noteq> NL then 1 else 0)"

lemma length_lines_of: "length (lines_of c) = nlines c"
proof (induction c rule: lines_of.induct)
  case (1 c)
  let ?k = "line_len c"
  have split: "c = take ?k c @ drop ?k c" by simp
  show ?case
  proof (cases "memchr c NL")
    case None
    then have "?k = length c" by (simp add: line_len_def)
    moreover have "NL \<notin> set c" using None by (simp add: memchr_None)
    moreover have "c = [] \<or> last c \<noteq> NL" using calculation last_in_set by metis
    ultimately show ?thesis by (subst lines_of.simps) (auto simp: nlines_def filter_empty_conv)
  next
    case (Some i)
    then have k: "?k = i + 1" by (simp add: line_len_def)
    have i: "i < length c" "c ! i = NL" "NL \<notin> set (take i c)" using Some by (simp_all add: memchr_Some)
    have tk: "take ?k c = take i c @ [NL]" using i k by (simp add: take_Suc_conv_app_nth)
    have f: "filter (\<lambda>x. x = NL) (take ?k c) = [NL]" using i(3) tk by (auto simp: filter_empty_conv)
    have fc: "length (filter (\<lambda>x. x = NL) c) = 1 + length (filter (\<lambda>x. x = NL) (drop ?k c))"
      using f by (subst split, subst filter_append) simp
    show ?thesis
    proof (cases "?k = length c")
      case True
      then have c: "c = take i c @ [NL]" using tk by simp
      have "length (filter (\<lambda>x. x = NL) c) = 1" using fc True by simp
      moreover have "last c = NL" by (subst c) simp
      ultimately show ?thesis using True i(1) by (subst lines_of.simps) (auto simp: nlines_def)
    next
      case False
      then have ne: "drop ?k c \<noteq> []" using line_len_le [of c] by simp
      then have "last c = last (drop ?k c)" "c \<noteq> []" by (auto simp: last_drop)
      with "1.IH" [OF False] False ne fc show ?thesis by (subst lines_of.simps) (simp add: nlines_def)
    qed
  qed
qed

lemma count_fold:
  "fold_lines (\<lambda>(flag, tot, bodyl) _ l. Inr (Inr (flag \<or> l = [NL], tot + 1, if flag then bodyl + 1 else bodyl)))
     (flag, tot, bodyl) p ls =
   Inr (Inr (flag \<or> [NL] \<in> set ls, tot + length ls,
     bodyl + (if flag then length ls else length (tl (dropWhile (\<lambda>l. l \<noteq> [NL]) ls)))))"
  by (induction ls arbitrary: flag tot bodyl p) auto

lemma after_separator:
  assumes "line_start c p"
  shows "length (tl (dropWhile (\<lambda>l. l \<noteq> [NL]) (lines_of (drop p c)))) =
    (case List.find (sep_at c) [p..<length c] of None \<Rightarrow> 0
     | Some n \<Rightarrow> if n + 1 = length c then 0 else nlines (drop (n + 1) c))"
  using assms
proof (induction "drop p c" arbitrary: p rule: lines_of.induct)
  case 1
  let ?d = "drop p c"
  define k where "k = line_len ?d"
  note L = line_len_drop [OF "1.prems" k_def]
  have dd: "drop (line_len ?d) ?d = drop (p + k) c" by (simp add: add.commute k_def)
  have eqk: "line_len ?d = length ?d \<longleftrightarrow> p + k = length c" using L(1) by (auto simp: k_def)
  show ?case
  proof (cases "sep_at c p")
    case True
    then have "p < length c" by (simp add: sep_at_def)
    then have f: "List.find (sep_at c) [p..<length c] = Some p" using True by (simp add: upt_conv_Cons)
    have t: "take k ?d = [NL]" using True L(2) by simp
    then have "length (take k ?d) = 1" by simp
    then have k1: "k = 1" using k_def line_len_le [of ?d] by simp
    show ?thesis
      using t f k1 eqk dd by (subst lines_of.simps) (simp add: k_def [symmetric] length_lines_of)
  next
    case False
    then have ne: "take k ?d \<noteq> [NL]" using L(2) by simp
    have sk: "List.find (sep_at c) [p..<length c] = List.find (sep_at c) [p + k..<length c]"
      by (rule find_upt_skip) (use L(1) L(3) [OF ne] in auto)
    show ?thesis
    proof (cases "p + k = length c")
      case True
      with eqk ne sk show ?thesis by (subst lines_of.simps) (simp add: k_def [symmetric])
    next
      case F: False
      then have nf: "line_len ?d \<noteq> length ?d" using eqk by simp
      with ne sk dd show ?thesis using "1.hyps" [OF nf dd] L(4) [OF F]
        by (subst lines_of.simps) (simp add: k_def [symmetric])
    qed
  qed
qed

section \<open>Size\<close>

lemma mail_fit_result:
  assumes "mail_fit shm m sz = Inr (n, m')" and "length (m_base m) = m_space m"
  shows "(n = 0 \<longrightarrow> m_off m + sz < m_space m' \<and> length (m_base m') = m_space m' \<and> take (m_space m) (m_base m') = m_base m \<and>
      m_space m \<le> m_space m' \<and> m' = m\<lparr>m_base := m_base m', m_space := m_space m'\<rparr>) \<and> (n \<noteq> 0 \<longrightarrow> n = - 1 \<and> \<not> mapped m')"
  using assms
proof (induction shm m sz rule: mail_fit.induct)
  case (1 shm m sz)
  let ?m2 = "m\<lparr>m_base := m_base m @ replicate (m_space m) NUL, m_space := 2 * m_space m\<rparr>"
  show ?case
  proof (cases "m_space m \<le> m_off m + sz")
    case False
    with "1.prems" show ?thesis by (subst (asm) mail_fit.simps) auto
  next
    case True
    show ?thesis
    proof (cases "shm (2 * m_space m)")
      case False
      with True "1.prems" show ?thesis by (subst (asm) mail_fit.simps) (auto split: if_splits)
    next
      case shm: True
      have c: "m_space m \<noteq> 0" "\<not> SIZE_MAX div 2 < m_space m" and r: "mail_fit shm ?m2 sz = Inr (n, m')"
        using True shm "1.prems" by (subst (asm) mail_fit.simps, auto split: if_splits)+
      have IH: "(n = 0 \<longrightarrow> m_off ?m2 + sz < m_space m' \<and> length (m_base m') = m_space m' \<and> take (m_space ?m2) (m_base m') = m_base ?m2 \<and>
          m_space ?m2 \<le> m_space m' \<and> m' = ?m2\<lparr>m_base := m_base m', m_space := m_space m'\<rparr>) \<and> (n \<noteq> 0 \<longrightarrow> n = - 1 \<and> \<not> mapped m')"
        using "1.IH" [OF True c(1) c(2) _ r] shm "1.prems"(2) by simp
      have "take (m_space m) (m_base m') = m_base m" if "n = 0"
      proof -
        have "take (m_space m) (m_base m') = take (m_space m) (take (2 * m_space m) (m_base m'))" by (simp add: min_absorb1)
        also have "\<dots> = m_base m" using IH that "1.prems"(2) by simp
        finally show ?thesis .
      qed
      with IH show ?thesis by auto
    qed
  qed
qed

lemma mail_fit_returns:
  "0 < m_space m \<Longrightarrow> m_off m + sz < SIZE_MAX div 2 \<Longrightarrow> \<forall>k. shm k \<Longrightarrow> \<exists>m'. mail_fit shm m sz = Inr (0, m')"
proof (induction shm m sz rule: mail_fit.induct)
  case (1 shm m sz)
  show ?case
  proof (cases "m_space m \<le> m_off m + sz")
    case True
    then have c: "m_space m \<noteq> 0" "\<not> SIZE_MAX div 2 < m_space m" "\<not> \<not> shm (2 * m_space m)"
      using "1.prems" by (linarith | simp)+
    have "\<exists>m'. mail_fit shm (m\<lparr>m_base := m_base m @ replicate (m_space m) NUL, m_space := 2 * m_space m\<rparr>) sz = Inr (0, m')"
      by (rule "1.IH" [OF True c]) (use "1.prems" in auto)
    with True c show ?thesis by (subst mail_fit.simps) simp
  next
    case False
    then show ?thesis by (subst mail_fit.simps) simp
  qed
qed

lemma mail_resize_ok:
  assumes ok: "mail_ok m" and res: "mail_resize shm m sz = Inr (0, m')" and le: "msize m \<le> sz"
  obtains b s where "m' = m\<lparr>m_base := b, m_space := s\<rparr>" "mail_ok m'" "content m' = content m" "m_off m + sz < s"
    "length b = s" "content m = take (msize m) (drop (m_off m) b)"
proof -
  have len: "length (m_base m) = m_space m" and o: "m_off m + msize m < m_space m" "mapped m" "m_body m \<le> msize m"
    using ok by (simp_all add: mail_ok_def)
  have f: "mail_fit shm m sz = Inr (0, m')" using res by (simp add: mail_resize_def split: if_splits)
  define b s where "b = m_base m'" and "s = m_space m'"
  have r: "m_off m + sz < s" "length b = s" "take (m_space m) b = m_base m" and m': "m' = m\<lparr>m_base := b, m_space := s\<rparr>"
    using mail_fit_result [OF f len] by (simp_all add: b_def s_def)
  have "b = m_base m @ drop (m_space m) b" using r(3) by (metis append_take_drop_id)
  moreover have "m_off m \<le> length (m_base m)" using len o by simp
  ultimately have "drop (m_off m) b = drop (m_off m) (m_base m) @ drop (m_space m) b"
    by (metis append_Nil diff_is_0_eq drop_0 drop_append)
  then have c: "take (msize m) (drop (m_off m) b) = content m" using o len by (simp add: content_def)
  then have "content m' = content m" using m' by (simp add: content_def)
  moreover have "mail_ok m'" using m' r o le by (simp add: mail_ok_def)
  ultimately show ?thesis using that m' r c by simp
qed

lemma mail_resize_returns:
  assumes "mail_ok m" and "m_off m + sz < SIZE_MAX div 2" and "\<forall>k. shm k"
  shows "\<exists>m'. mail_resize shm m sz = Inr (0, m')"
proof -
  have "0 < m_space m" using assms(1) by (auto simp: mail_ok_def)
  from mail_fit_returns [OF this assms(2,3)] show ?thesis using assms(2) by (simp add: mail_resize_def SIZE_MAX_def)
qed

section \<open>Changing the text\<close>

lemma append_line_ok:
  assumes ok: "mail_ok m" and res: "append_line shm m line = Inr (0, m')"
  shows "mail_ok m' \<and> content m' = content m @ line @ [NL] \<and> m_off m' = m_off m \<and> m_body m' = m_body m \<and>
    m_tags m' = m_tags m \<and> msize m' = msize m + length line + 1"
proof -
  obtain m1 mem where r: "mail_resize shm m (msize m + length line + 1) = Inr (0, m1)"
    and w: "mem_write (m_base m1) (m_off m1 + msize m1) (line @ [NL]) = Inr mem"
    and m': "m' = m1\<lparr>m_base := mem, msize := msize m1 + length line + 1\<rparr>"
    using res by (auto simp: append_line_def rbind_Inr_iff split: if_splits prod.splits)
  have "msize m \<le> msize m + length line + 1" by simp
  from mail_resize_ok [OF ok r this] obtain b s where R: "m1 = m\<lparr>m_base := b, m_space := s\<rparr>" "mail_ok m1"
    "content m1 = content m" "m_off m + (msize m + length line + 1) < s" "length b = s"
    "content m = take (msize m) (drop (m_off m) b)" by metis
  note m1 = R(1)
  have len: "length b = s" "m_off m + msize m < s" "m_off m + (msize m + length line + 1) < s" "mapped m" "m_body m \<le> msize m"
    "content m = take (msize m) (drop (m_off m) b)"
    using R ok by (simp_all add: mail_ok_def)
  have mem: "mem = take (m_off m + msize m) b @ (line @ [NL]) @ drop (m_off m + msize m + length line + 1) b"
    using w m1 by (simp add: mem_write_def split: if_splits)
  have "drop (m_off m) mem = content m @ (line @ [NL]) @ drop (m_off m + msize m + length line + 1) b"
    using len unfolding mem by (simp add: drop_take)
  moreover have "length (content m) = msize m" using ok by simp
  ultimately have "content m' = content m @ line @ [NL]" using m' m1 by (simp add: content_def)
  moreover have "length mem = s" using mem_write_length [OF w] m1 len by simp
  ultimately show ?thesis using m' m1 len by (simp add: mail_ok_def)
qed

lemma append_line_returns:
  assumes ok: "mail_ok m" and "m_off m + msize m + length line + 1 < SIZE_MAX div 2" and "\<forall>k. shm k"
  shows "\<exists>m'. append_line shm m line = Inr (0, m')"
proof -
  obtain m1 where r: "mail_resize shm m (msize m + length line + 1) = Inr (0, m1)"
    using mail_resize_returns [OF ok _ assms(3), of "msize m + length line + 1"] assms(2) by (metis add.assoc)
  have "msize m \<le> msize m + length line + 1" by simp
  from mail_resize_ok [OF ok r this] obtain b s where R: "m1 = m\<lparr>m_base := b, m_space := s\<rparr>"
    "m_off m + (msize m + length line + 1) < s" "length b = s" by metis
  with r show ?thesis by (simp add: append_line_def mem_write_def add.assoc)
qed

section \<open>Inserting and removing bytes\<close>

lemma insert_mem:
  assumes room: "o' + sz + length h \<le> length b" and q: "q \<le> sz"
  defines "c \<equiv> take sz (drop o' b)"
  shows "\<exists>m1 mem. mem_move b (o' + q + length h) (o' + q) (sz - q) = Inr m1 \<and> mem_write m1 (o' + q) h = Inr mem \<and>
    length mem = length b \<and> take (sz + length h) (drop o' mem) = take q c @ h @ drop q c"
proof -
  let ?s = "take (sz - q) (drop (o' + q) b)" and ?r = "drop (o' + sz + length h) b"
  let ?m1 = "take (o' + q + length h) b @ ?s @ ?r" and ?mem = "take (o' + q) b @ h @ ?s @ ?r"
  have ls: "length ?s = sz - q" using room q by simp
  have mv: "mem_move b (o' + q + length h) (o' + q) (sz - q) = Inr ?m1"
  proof -
    have "o' + q + length h + length ?s = o' + sz + length h" using ls q by simp
    then show ?thesis using room q ls
      by (simp add: mem_move_def mem_read_def mem_write_def add.assoc add.commute [of sz] del: length_take length_drop)
  qed
  have lt: "length (take (o' + q + length h) b) = o' + q + length h" using room q by simp
  have d1: "drop (o' + q + length h) ?m1 = ?s @ ?r" using lt by (simp del: length_take)
  have t1: "take (o' + q) ?m1 = take (o' + q) b" using lt by (simp add: min_absorb1 del: length_take)
  have "o' + q + length h \<le> length ?m1" using lt by (simp del: length_take)
  then have w: "mem_write ?m1 (o' + q) h = Inr ?mem" unfolding mem_write_def d1 t1 by simp
  have d2: "drop o' ?mem = take q c @ h @ ?s @ ?r"
  proof -
    have "drop o' (take (o' + q) b) = take q (drop o' b)" by (simp add: drop_take)
    moreover have "o' \<le> length (take (o' + q) b)" using room q by simp
    ultimately show ?thesis using q by (simp add: c_def min_absorb1)
  qed
  have s: "?s = drop q c" by (simp add: c_def drop_take add.commute)
  have lc: "length (take q c @ h @ ?s) = sz + length h" using room q by (simp add: c_def)
  have "take (sz + length h) (drop o' ?mem) = take q c @ h @ ?s"
    unfolding d2 using lc by (metis append_assoc append_eq_conv_conj)
  moreover have "length ?mem = length b" using room q by simp
  ultimately show ?thesis using mv w s by metis
qed

lemma remove_mem:
  assumes room: "o' + sz \<le> length b" and q: "q + n \<le> sz"
  defines "c \<equiv> take sz (drop o' b)"
  shows "\<exists>mem. mem_move b (o' + q) (o' + q + n) (sz - (n + q)) = Inr mem \<and> length mem = length b \<and>
    take (sz - n) (drop o' mem) = take q c @ drop (q + n) c"
proof -
  let ?s = "take (sz - (n + q)) (drop (o' + q + n) b)" and ?r = "drop (o' + sz - n) b"
  let ?mem = "take (o' + q) b @ ?s @ ?r"
  have ls: "length ?s = sz - (n + q)" using room q by simp
  have "o' + q + length ?s = o' + sz - n" using ls q by simp
  then have mv: "mem_move b (o' + q) (o' + q + n) (sz - (n + q)) = Inr ?mem"
    using room q ls by (simp add: mem_move_def mem_read_def mem_write_def del: length_take length_drop)
  have d: "drop o' ?mem = take q c @ ?s @ ?r"
  proof -
    have "drop o' (take (o' + q) b) = take q (drop o' b)" by (simp add: drop_take)
    moreover have "o' \<le> length (take (o' + q) b)" using room q by simp
    ultimately show ?thesis using q by (simp add: c_def min_absorb1)
  qed
  have s: "?s = drop (q + n) c" by (simp add: c_def drop_take add.commute add.left_commute)
  have lc: "length (take q c @ ?s) = sz - n" using room q by (simp add: c_def)
  have "take (sz - n) (drop o' ?mem) = take q c @ ?s"
    unfolding d using lc by (metis append_assoc append_eq_conv_conj)
  moreover have "length ?mem = length b" using room q by simp
  ultimately show ?thesis using mv s by metis
qed

text \<open>The place and the number of newlines \<open>insert_header\<close> chooses.\<close>

definition insert_place :: "'x mail \<Rightarrow> char list option \<Rightarrow> (nat \<times> nat) option res" where
  "insert_place m before = (case before of
     Some b \<Rightarrow> rbind (find_header m b False) (\<lambda>r. Inr (map_option (\<lambda>(p, len). (p, 1)) r))
   | None \<Rightarrow> if m_body m = 0 then Inr (Some (0, 2)) else Inr (Some (m_body m - 1, 1)))"

lemma insert_header_ok:
  assumes ok: "mail_ok m" and pl: "insert_place m before = Inr (Some (q, nl))" and q: "q \<le> msize m"
    and res: "insert_header shm m before hdr = Inr (0, m')"
  shows "mail_ok m' \<and> content m' = take q (content m) @ (hdr @ replicate nl NL) @ drop q (content m) \<and>
    m_body m' = m_body m + length hdr + nl \<and> m_off m' = m_off m \<and> m_tags m' = m_tags m"
proof -
  let ?h = "hdr @ replicate nl NL"
  obtain m1 m2 mem where r: "mail_resize shm m (msize m + (length hdr + nl)) = Inr (0, m1)"
    and mv: "mem_move (m_base m1) (m_off m1 + q + (length hdr + nl)) (m_off m1 + q) (size_sub (msize m1) q) = Inr m2"
    and w: "mem_write m2 (m_off m1 + q) ?h = Inr mem"
    and m': "m' = m1\<lparr>m_base := mem, msize := msize m1 + (length hdr + nl), m_body := m_body m1 + (length hdr + nl)\<rparr>"
    using res pl unfolding insert_header_def insert_place_def
    by (auto simp: rbind_Inr_iff Let_def split: if_splits prod.splits)
  have "msize m \<le> msize m + (length hdr + nl)" by simp
  from mail_resize_ok [OF ok r this] obtain b s where R: "m1 = m\<lparr>m_base := b, m_space := s\<rparr>" "mail_ok m1"
    "m_off m + (msize m + (length hdr + nl)) < s" "length b = s"
    "content m = take (msize m) (drop (m_off m) b)" by metis
  have room: "m_off m + msize m + length ?h \<le> length b" using R by simp
  from insert_mem [OF room q] obtain m2' mem' where I:
    "mem_move b (m_off m + q + length ?h) (m_off m + q) (msize m - q) = Inr m2'" "mem_write m2' (m_off m + q) ?h = Inr mem'"
    "length mem' = length b" "take (msize m + length ?h) (drop (m_off m) mem') = take q (content m) @ ?h @ drop q (content m)"
    using R(5) by metis
  have "mem' = mem" using mv w I(1,2) R(1) q by simp
  with m' R(1) have m2: "m' = m\<lparr>m_space := s, m_base := mem', msize := msize m + length ?h, m_body := m_body m + length ?h\<rparr>"
    by simp
  have "content m' = take q (content m) @ ?h @ drop q (content m)" using I(4) unfolding m2 by (simp add: content_def)
  moreover have "mail_ok m'" using ok R(3,4) I(3) unfolding m2 by (simp add: mail_ok_def)
  ultimately show ?thesis using m2 by simp
qed

lemma remove_header_ok:
  assumes ok: "mail_ok m" and f: "find_header m hdr False = Inr (Some (p, len))" and le: "p + len \<le> msize m"
    and bd: "len \<le> m_body m"
  shows "\<exists>m'. remove_header m hdr = Inr (0, m') \<and> mail_ok m' \<and>
    content m' = take p (content m) @ drop (p + len) (content m) \<and> m_body m' = m_body m - len"
proof -
  have room: "m_off m + msize m \<le> length (m_base m)" using ok by (simp add: mail_ok_def)
  have c: "take (msize m) (drop (m_off m) (m_base m)) = content m" by (simp add: content_def)
  from remove_mem [OF room le, unfolded c] obtain mem where
    "mem_move (m_base m) (m_off m + p) (m_off m + p + len) (msize m - (len + p)) = Inr mem" "length mem = length (m_base m)"
    "take (msize m - len) (drop (m_off m) mem) = take p (content m) @ drop (p + len) (content m)" by metis
  note M = this
  let ?m = "m\<lparr>m_base := mem, msize := msize m - len, m_body := m_body m - len\<rparr>"
  have "remove_header m hdr = Inr (0, ?m)" using f le bd M(1) by (simp add: remove_header_def)
  moreover have "mail_ok ?m" using ok le bd M(2) by (auto simp: mail_ok_def)
  moreover have "content ?m = take p (content m) @ drop (p + len) (content m)" using M(3) by (simp add: content_def)
  ultimately show ?thesis by force
qed

lemma trim_from_ok:
  assumes ok: "mail_ok m" and bd: "m_body m = 0 \<or> line_len (content m) \<le> m_body m"
  shows "\<exists>m'. trim_from m = Inr m' \<and> mail_ok m' \<and>
    content m' = (if m_body m = 0 \<or> take 5 (content m) \<noteq> ''From '' then content m
                  else drop (line_len (content m)) (content m)) \<and>
    (m_body m \<noteq> 0 \<longrightarrow> take 5 (content m) = ''From '' \<longrightarrow> m_body m' = m_body m - line_len (content m))"
proof (cases "m_body m = 0 \<or> msize m < 5 \<or> take 5 (content m) \<noteq> ''From ''")
  case True
  have "msize m < 5 \<Longrightarrow> length (take 5 (content m)) < length ''From ''" using ok by simp
  then have "msize m < 5 \<Longrightarrow> take 5 (content m) \<noteq> ''From ''" by fastforce
  with True ok show ?thesis by (auto simp: trim_from_def bytes_at_ok)
next
  case False
  let ?n = "line_len (content m)"
  have n: "?n \<le> msize m" "?n \<le> m_body m" using line_len_le [of "content m"] ok bd False by simp_all
  let ?m = "m\<lparr>msize := msize m - ?n, m_off := m_off m + ?n, m_body := m_body m - ?n\<rparr>"
  have "trim_from m = Inr ?m"
    using False ok n by (simp add: trim_from_def bytes_at_ok line_init_ok mail_ok_def [of m])
  moreover have "mail_ok ?m" using ok n by (auto simp: mail_ok_def)
  moreover have "content ?m = drop ?n (content m)"
    by (simp add: content_def drop_take add.commute)
  ultimately show ?thesis using False by auto
qed

section \<open>Finding a header\<close>

definition is_header :: "char list \<Rightarrow> char list \<Rightarrow> bool" where
  "is_header hdr l \<longleftrightarrow> length hdr + 1 \<le> length l \<and> l ! length hdr = CHR '':'' \<and>
     strncasecmp_eq (take (length hdr) l) hdr"

fun line_pos :: "nat \<Rightarrow> char list list \<Rightarrow> (nat \<times> char list) list" where
  "line_pos p [] = []"
| "line_pos p (l # ls) = (p, l) # line_pos (p + length l) ls"

definition header_lines :: "nat \<Rightarrow> char list \<Rightarrow> (nat \<times> char list) list" where
  "header_lines b c = takeWhile (\<lambda>(p, l). p < b) (line_pos 0 (lines_of c))"

lemma find_header_fold:
  "loop_result (fold_lines (\<lambda>_ p l. if b \<le> p then Inr (Inl None)
      else if P l then Inr (Inl (Some (p, length l))) else Inr (Inr ())) () p ls) =
   Inr (map_option (\<lambda>(p, l). (p, length l)) (List.find (\<lambda>(p, l). P l) (takeWhile (\<lambda>(p, l). p < b) (line_pos p ls))))"
  by (induction ls arbitrary: p) (auto simp: loop_result_def)

lemma find_header_correct:
  assumes ok: "mail_ok m" and long: "length hdr + 1 \<le> m_body m"
  shows "find_header m hdr False = Inr (map_option (\<lambda>(p, l). (p, length l))
    (List.find (\<lambda>(p, l). is_header hdr l) (header_lines (m_body m) (content m))))"
proof -
  let ?g = "\<lambda>_ p l. if m_body m \<le> p then Inr (Inl None)
      else if is_header hdr l then Inr (Inl (Some (p, length l))) else Inr (Inr ()) :: ((nat \<times> nat) option + unit) res"
  let ?f = "\<lambda>_ p len.
       if m_body m \<le> p then Inr (Inl None)
       else rbind (bytes_at m p len) (\<lambda>l.
         if length hdr + 1 \<le> len \<and> l ! (length hdr + 1 - 1) = CHR '':'' \<and> strncasecmp_eq (take (length hdr + 1 - 1) l) hdr
         then Inr (Inl (Some (p, len))) else Inr (Inr ())) :: ((nat \<times> nat) option + unit) res"
  have "on_lines m ?f () = fold_lines ?g () 0 (lines_of (content m))"
  proof (rule on_lines_fold [OF ok])
    fix s :: unit and p n assume le: "p + n \<le> msize m"
    then have "length (take n (drop p (content m))) = n" using ok by simp
    with ok le show "?f s p n = ?g s p (take n (drop p (content m)))"
      by (auto simp: bytes_at_ok is_header_def min_def)
  qed
  note e = this
  have g: "(m_body m < length hdr + 1 \<or> msize m < length hdr + 1) = False" using ok long by (auto simp: mail_ok_def)
  have K: "(\<lambda>r. case r of None \<Rightarrow> Inr None | Some (p, len) \<Rightarrow>
      if \<not> False then Inr (Some (p, len)) else header_value m (p + (length hdr + 1)) (len - (length hdr + 1))) = (\<lambda>r. Inr r)"
    by (auto simp: fun_eq_iff split: option.splits)
  have "find_header m hdr False = rbind (loop_result (fold_lines ?g () 0 (lines_of (content m)))) (\<lambda>r. Inr r)"
    unfolding find_header_def Let_def g if_False K e ..
  then show ?thesis unfolding find_header_fold header_lines_def by simp
qed

lemma lines_of_line: "NL \<notin> set l \<Longrightarrow> r \<noteq> [] \<Longrightarrow> lines_of (l @ NL # r) = (l @ [NL]) # lines_of r"
  by (subst lines_of.simps) (simp add: line_len_def memchr_append)

lemma lines_of_append:
  "a = [] \<or> last a = NL \<Longrightarrow> b \<noteq> [] \<Longrightarrow> lines_of (a @ b) = (if a = [] then [] else lines_of a) @ lines_of b"
proof (induction a rule: lines_of.induct)
  case (1 a)
  show ?case
  proof (cases "a = []")
    case False
    then have nl: "NL \<in> set a" using "1.prems"(1) last_in_set by metis
    then obtain i where i: "memchr a NL = Some i" using memchr_None [of a NL] by (cases "memchr a NL") auto
    then have k: "line_len a = i + 1" and ia: "i < length a" by (auto simp: line_len_def dest: memchr_less)
    have "memchr (a @ b) NL = Some i" using i by (auto simp: memchr_Some nth_append)
    then have kb: "line_len (a @ b) = i + 1" by (simp add: line_len_def)
    have tk: "take (i + 1) (a @ b) = take (i + 1) a" and dr: "drop (i + 1) (a @ b) = drop (i + 1) a @ b"
      using ia by simp_all
    have ne: "i + 1 \<noteq> length (a @ b)" using ia "1.prems"(2) by (cases b) auto
    have step: "lines_of (a @ b) = take (i + 1) a # lines_of (drop (i + 1) a @ b)"
      using kb tk dr ne by (subst lines_of.simps) simp
    show ?thesis
    proof (cases "i + 1 = length a")
      case True
      then show ?thesis using step False k by (simp add: lines_of.simps [of a])
    next
      case F: False
      have d: "drop (i + 1) a \<noteq> []" using F ia by simp
      then have "last (drop (i + 1) a) = NL" using "1.prems"(1) False by (simp add: last_drop)
      then have "lines_of (drop (i + 1) a @ b) = lines_of (drop (i + 1) a) @ lines_of b"
        using "1.IH" [unfolded k, OF F] "1.prems"(2) d by simp
      then show ?thesis using step False k F by (simp add: lines_of.simps [of a])
    qed
  qed simp
qed

lemma line_pos_append: "line_pos p (xs @ ys) = line_pos p xs @ line_pos (p + length (concat xs)) ys"
  by (induction xs arbitrary: p) (auto simp: add.assoc)

lemma line_pos_bound:
  "(q, l) \<in> set (line_pos p ls) \<Longrightarrow> p \<le> q \<and> q + length l \<le> p + length (concat ls)"
  by (induction ls arbitrary: p) fastforce+

lemma lines_of_nonempty: "c \<noteq> [] \<Longrightarrow> [] \<notin> set (lines_of c)"
proof (induction c rule: lines_of.induct)
  case (1 c)
  then show ?case using line_len_pos [of c] line_len_le [of c] by (subst lines_of.simps) auto
qed

lemma line_pos_prefix:
  assumes "b \<noteq> []" and "a = [] \<or> last a = NL"
  shows "\<exists>pre. line_pos 0 (lines_of (a @ b)) = pre @ line_pos (length a) (lines_of b) \<and>
    (\<forall>(p, l) \<in> set pre. p < length a \<and> p + length l \<le> length a) \<and>
    (\<forall>b'. b' \<noteq> [] \<longrightarrow> line_pos 0 (lines_of (a @ b')) = pre @ line_pos (length a) (lines_of b'))"
proof -
  let ?pre = "line_pos 0 (if a = [] then [] else lines_of a)"
  have eq: "line_pos 0 (lines_of (a @ b')) = ?pre @ line_pos (length a) (lines_of b')" if "b' \<noteq> []" for b'
    using lines_of_append [OF assms(2) that] by (simp add: line_pos_append concat_lines_of)
  have "p < length a \<and> p + length l \<le> length a" if "(p, l) \<in> set ?pre" for p l
  proof (cases "a = []")
    case False
    then have m: "(p, l) \<in> set (line_pos 0 (lines_of a))" using that by simp
    then have "p + length l \<le> length a" using line_pos_bound concat_lines_of by fastforce
    moreover have "l \<in> set (lines_of a)" using m
    proof -
      have "snd ` set (line_pos p' ls) = set ls" for p' and ls :: "char list list" by (induction ls arbitrary: p') auto
      with m show ?thesis by (metis imageI snd_conv)
    qed
    then have "l \<noteq> []" using lines_of_nonempty False by metis
    ultimately show ?thesis by (cases l) auto
  qed (use that in simp)
  with eq assms(1) show ?thesis by blast
qed


section \<open>The invariant of a complete mail\<close>

text \<open>After a fetch \<open>body\<close> is the offset \<open>find_body\<close> finds.\<close>

definition body_ok :: "'x mail \<Rightarrow> bool" where
  "body_ok m \<longleftrightarrow> m_body m = body_offset (content m)"

lemma body_sep:
  assumes "body_offset c = b" and "0 < b"
  shows "sep_at c (b - 1)" and "n < b - 1 \<Longrightarrow> \<not> sep_at c n"
proof -
  obtain k where k: "List.find (sep_at c) [0..<length c] = Some k" "b = k + 1"
    using assms by (auto simp: body_offset_def split: option.splits)
  then have i: "k < length c" "sep_at c k" "\<forall>j<k. \<not> sep_at c j"
    by (auto simp: find_Some_iff)
  with k(2) show "sep_at c (b - 1)" "n < b - 1 \<Longrightarrow> \<not> sep_at c n" by auto
qed

lemma body_offset_sep:
  assumes "sep_at c k" and "\<And>j. j < k \<Longrightarrow> \<not> sep_at c j"
  shows "body_offset c = k + 1"
proof -
  have "k < length c" using assms(1) by (simp add: sep_at_def)
  then have "List.find (sep_at c) [0..<length c] = Some k"
    using assms by (auto simp: find_Some_iff intro!: exI [of _ k])
  then show ?thesis by (simp add: body_offset_def)
qed

text \<open>The text around the end of the headers.\<close>

lemma header_end:
  assumes "body_offset c = b" and "0 < b"
  obtains a r where "c = a @ NL # r" "length a = b - 1" "a = [] \<or> last a = NL"
proof -
  note s = body_sep(1) [OF assms]
  let ?q = "b - 1"
  have q: "?q < length c" "c ! ?q = NL" "?q = 0 \<or> c ! (?q - 1) = NL" using s by (auto simp: sep_at_def)
  have "c = take ?q c @ NL # drop (Suc ?q) c" using q by (metis id_take_nth_drop)
  moreover have "length (take ?q c) = ?q" using q by simp
  moreover have "take ?q c = [] \<or> last (take ?q c) = NL"
  proof (cases "?q = 0")
    case False
    then have "last (take ?q c) = take ?q c ! (length (take ?q c) - 1)" using q by (intro last_conv_nth) auto
    with q False show ?thesis by simp
  qed simp
  ultimately show ?thesis by (rule that)
qed

lemma body_offset_insert:
  assumes b: "body_offset (a @ NL # r) = length a + 1" and a: "a = [] \<or> last a = NL" and h: "NL \<notin> set h" "h \<noteq> []"
  shows "body_offset (a @ (h @ [NL]) @ NL # r) = length a + length h + 2"
proof -
  let ?c = "a @ (h @ [NL]) @ NL # r"
  have "\<not> sep_at ?c n" if n: "n < length a + length h + 1" for n
  proof (cases "n < length a")
    case True
    then have "n - 1 < length a" by simp
    then have "?c ! (n - 1) = a ! (n - 1)" "(a @ NL # r) ! (n - 1) = a ! (n - 1)" by (simp_all only: nth_append if_True)
    then have "sep_at ?c n = sep_at (a @ NL # r) n" using True by (simp add: sep_at_def nth_append)
    then show ?thesis using body_sep(2) [OF b, of n] True by simp
  next
    case False
    show ?thesis
    proof
      assume s: "sep_at ?c n"
      have "n - length a < length (h @ [NL])" using n by simp
      then have "?c ! n = (h @ [NL]) ! (n - length a)" using False by (simp add: nth_append)
      then have nl: "(h @ [NL]) ! (n - length a) = NL" using s by (simp add: sep_at_def)
      have nn: "n = length a + length h"
      proof (rule ccontr)
        assume "n \<noteq> length a + length h"
        then have "n - length a < length h" using n False by simp
        then show False using nl h(1) by (simp add: nth_append) (metis nth_mem)
      qed
      moreover obtain k where k: "length h = Suc k" using h(2) by (cases h) auto
      then have "n - 1 = length a + k" using nn by simp
      then have "?c ! (n - 1) = h ! (length h - 1)" using k by (simp add: nth_append)
      moreover have "h ! (length h - 1) \<noteq> NL" using h by (metis last_conv_nth last_in_set)
      ultimately show False using s h by (auto simp: sep_at_def)
    qed
  qed
  moreover have "sep_at ?c (length a + length h + 1)" by (simp add: sep_at_def nth_append)
  ultimately show ?thesis using body_offset_sep [of ?c "length a + length h + 1"] by simp
qed

lemma find_none_app: "List.find P xs = None \<Longrightarrow> List.find P (xs @ ys) = List.find P ys"
  by (induction xs) (auto split: if_splits)

lemma takeWhile_all_app: "(\<forall>x \<in> set xs. P x) \<Longrightarrow> takeWhile P (xs @ ys) = xs @ takeWhile P ys"
  by (induction xs) auto

text \<open>Inserting a header of a new name at the end of the headers.\<close>

lemma insert_last_header:
  assumes ok: "mail_ok m" and b: "body_ok m" "m_body m \<noteq> 0" and new: "find_header m name False = Inr None"
    and nm: "NL \<notin> set name" and nv: "NL \<notin> set v" and res: "insert_header shm m None (name @ CHR '':'' # v) = Inr (0, m')"
  shows "mail_ok m' \<and> body_ok m' \<and> m_body m' = m_body m + length name + length v + 2 \<and>
    find_header m' name False = Inr (Some (m_body m - 1, length name + length v + 2)) \<and>
    content m = take (m_body m - 1) (content m') @ drop (m_body m - 1 + (length name + length v + 2)) (content m')"
proof -
  let ?h = "name @ CHR '':'' # v" and ?q = "m_body m - 1"
  obtain a r where c: "content m = a @ NL # r" "length a = ?q" "a = [] \<or> last a = NL"
    using header_end [of "content m" "m_body m"] b by (auto simp: body_ok_def)
  have q: "?q \<le> msize m" using ok by (auto simp: mail_ok_def)
  have pl: "insert_place m None = Inr (Some (?q, 1))" using b by (simp add: insert_place_def)
  note I = insert_header_ok [OF ok pl q res]
  have c': "content m' = a @ (?h @ [NL]) @ NL # r" using I c by simp
  have h: "NL \<notin> set ?h" "?h \<noteq> []" using nm nv by auto
  have "body_offset (a @ NL # r) = length a + 1" using b c by (simp add: body_ok_def)
  from body_offset_insert [OF this c(3) h] have bo: "body_ok m'" using I c' c(2) b by (simp add: body_ok_def)
  have ne: "NL # r \<noteq> []" by simp
  from line_pos_prefix [OF ne c(3)] obtain pre where
    L0: "line_pos 0 (lines_of (a @ NL # r)) = pre @ line_pos (length a) (lines_of (NL # r))" and
    pb: "\<forall>(p, l) \<in> set pre. p < length a \<and> p + length l \<le> length a" and
    L: "\<And>b'. b' \<noteq> [] \<Longrightarrow> line_pos 0 (lines_of (a @ b')) = pre @ line_pos (length a) (lines_of b')"
    by blast
  have none: "List.find (\<lambda>(p, l). is_header name l) pre = None"
  proof (cases "length name + 1 \<le> m_body m")
    case True
    have "header_lines (m_body m) (content m) =
        pre @ takeWhile (\<lambda>(p, l). p < m_body m) (line_pos (length a) (lines_of (NL # r)))"
      unfolding header_lines_def c(1) L0 using pb c(2) by (intro takeWhile_all_app) auto
    then have "List.find (\<lambda>(p, l). is_header name l) (pre @ takeWhile (\<lambda>(p, l). p < m_body m) (line_pos (length a) (lines_of (NL # r)))) = None"
      using find_header_correct [OF ok True] new by simp
    then show ?thesis by (auto simp: find_None_iff)
  next
    case False
    then have "\<not> is_header name l" if "(p, l) \<in> set pre" for p l
      using pb that c(2) b(2) by (auto simp: is_header_def)
    then show ?thesis by (auto simp: find_None_iff)
  qed
  have bm: "m_body m' = m_body m + length name + length v + 2" using I by simp
  have "header_lines (m_body m') (content m') =
      pre @ takeWhile (\<lambda>(p, l). p < m_body m') (line_pos (length a) (lines_of (?h @ NL # NL # r)))"
    unfolding header_lines_def c' using pb c(2) bm L [of "?h @ NL # NL # r"] by (simp, intro takeWhile_all_app) auto
  also have "lines_of (?h @ NL # NL # r) = (?h @ [NL]) # lines_of (NL # r)" by (rule lines_of_line) (use h in auto)
  finally have hl: "List.find (\<lambda>(p, l). is_header name l) (header_lines (m_body m') (content m')) =
      List.find (\<lambda>(p, l). is_header name l) (takeWhile (\<lambda>(p, l). p < m_body m') (line_pos (length a) ((?h @ [NL]) # lines_of (NL # r))))"
    using find_none_app [OF none] by simp
  have "is_header name (?h @ [NL])" by (simp add: is_header_def strncasecmp_eq_def nth_append)
  moreover have "length a < m_body m'" using c(2) bm by simp
  ultimately have "List.find (\<lambda>(p, l). is_header name l) (header_lines (m_body m') (content m')) = Some (?q, ?h @ [NL])"
    unfolding hl using c(2) by simp
  moreover have "length name + 1 \<le> m_body m'" using bm by simp
  ultimately have "find_header m' name False = Inr (Some (?q, length name + length v + 2))"
    using find_header_correct [of m' name] I by simp
  moreover have "content m = take ?q (content m') @ drop (?q + (length name + length v + 2)) (content m')"
    unfolding c' using c by simp
  ultimately show ?thesis using I bo bm by simp
qed

section \<open>Wrapped headers\<close>

definition wrap_at :: "char list \<Rightarrow> nat \<Rightarrow> nat \<Rightarrow> bool" where
  "wrap_at c b n \<longleftrightarrow> n + 1 < b \<and> c ! n = NL \<and> isblank (c ! (n + 1))"

definition wraps :: "char list \<Rightarrow> nat \<Rightarrow> nat \<Rightarrow> nat list" where
  "wraps c b p = filter (wrap_at c b) [p..<b]"

lemma wraps_skip:
  assumes "p \<le> q" and "\<And>n. p \<le> n \<Longrightarrow> n < q \<Longrightarrow> \<not> wrap_at c b n"
  shows "wraps c b p = wraps c b q"
proof (cases "q \<le> b")
  case True
  then have "[p..<b] = [p..<q] @ [q..<b]" using assms(1) by (metis le_add_diff_inverse upt_add_eq_append)
  then show ?thesis using assms(2) by (simp add: wraps_def filter_empty_conv)
next
  case False
  then show ?thesis using assms(2) by (simp add: wraps_def filter_empty_conv)
qed

lemma wrapped_from_correct:
  assumes ok: "mail_ok m" and "p \<le> msize m"
  shows "wrapped_from m p = Inr (wraps (content m) (m_body m) p)"
  using assms(2)
proof (induction "msize m - p" arbitrary: p rule: less_induct)
  case less
  let ?c = "content m"
  have rd: "bytes_at m p (msize m - p) = Inr (drop p ?c)" using ok less.prems by (simp add: bytes_at_ok)
  have bd: "m_body m \<le> msize m" using ok by (simp add: mail_ok_def)
  show ?case
  proof (cases "memchr (drop p ?c) NL")
    case None
    have "\<not> wrap_at ?c (m_body m) n" if "p \<le> n" for n
    proof
      assume w: "wrap_at ?c (m_body m) n"
      then have "n < length ?c" using bd ok by (simp add: wrap_at_def)
      then have "drop p ?c ! (n - p) = NL" "n - p < length (drop p ?c)" using that w ok by (simp_all add: wrap_at_def)
      then have "NL \<in> set (drop p ?c)" by (metis nth_mem)
      with None show False by (simp add: memchr_None)
    qed
    then have "wraps ?c (m_body m) p = []" by (simp add: wraps_def filter_empty_conv)
    with None rd less.prems show ?thesis by (subst wrapped_from.simps) simp
  next
    case (Some i)
    then have i: "p + i < msize m" "?c ! (p + i) = NL" and no: "NL \<notin> set (take i (drop p ?c))"
      using ok less.prems by (auto simp: memchr_Some)
    let ?q = "p + i + 1"
    have nw: "\<not> wrap_at ?c (m_body m) n" if "p \<le> n" "n < p + i" for n
    proof
      assume "wrap_at ?c (m_body m) n"
      then have "take i (drop p ?c) ! (n - p) = NL" "n - p < length (take i (drop p ?c))"
        using that i ok by (auto simp: wrap_at_def)
      then have "NL \<in> set (take i (drop p ?c))" by (metis nth_mem)
      with no show False by simp
    qed
    have sk: "wraps ?c (m_body m) p = wraps ?c (m_body m) (p + i)" by (rule wraps_skip) (use nw in auto)
    have unf: "wrapped_from m p = (if m_body m \<le> ?q then Inr [] else rbind (bytes_at m ?q 1) (\<lambda>c.
        if isblank (c ! 0) then rbind (wrapped_from m ?q) (\<lambda>ws. Inr ((?q - 1) # ws)) else wrapped_from m ?q))"
      using Some rd less.prems by (subst wrapped_from.simps) (simp add: Let_def cong: if_cong)
    show ?thesis
    proof (cases "m_body m \<le> ?q")
      case True
      then have "wraps ?c (m_body m) (p + i) = []" by (auto simp: wraps_def filter_empty_conv wrap_at_def)
      with True unf sk show ?thesis by simp
    next
      case False
      then have q: "?q < msize m" using bd by simp
      have cq: "bytes_at m ?q 1 = Inr [?c ! ?q]"
        using ok q by (simp add: bytes_at_ok take_Suc_conv_app_nth)
      have IH: "wrapped_from m ?q = Inr (wraps ?c (m_body m) ?q)" by (rule less.hyps) (use q i in auto)
      have "wraps ?c (m_body m) (p + i) = (if isblank (?c ! ?q) then [p + i] else []) @ wraps ?c (m_body m) ?q"
        using False i by (simp add: wraps_def upt_conv_Cons wrap_at_def)
      with False unf sk cq IH show ?thesis by simp
    qed
  qed
qed

fun put_at :: "nat list \<Rightarrow> char \<Rightarrow> char list \<Rightarrow> char list" where
  "put_at [] ch c = c"
| "put_at (p # ps) ch c = put_at ps ch (c[p := ch])"

lemma put_at_nth: "length (put_at ps ch c) = length c \<and> (i < length c \<longrightarrow> put_at ps ch c ! i = (if i \<in> set ps then ch else c ! i))"
  by (induction ps arbitrary: c) (auto simp: nth_list_update)

lemma write_each_ok:
  assumes "\<forall>p \<in> set ps. p < n" and "o' + n \<le> length mem"
  shows "\<exists>mem'. write_each mem o' ps ch = Inr mem' \<and> length mem' = length mem \<and>
    take n (drop o' mem') = put_at ps ch (take n (drop o' mem))"
  using assms
proof (induction ps arbitrary: mem)
  case Nil
  then show ?case by simp
next
  case (Cons p ps)
  have w: "mem_write mem (o' + p) [ch] = Inr (mem[o' + p := ch])"
    using Cons.prems by (simp add: mem_write_def upd_conv_take_nth_drop)
  have "take n (drop o' (mem[o' + p := ch])) = (take n (drop o' mem))[p := ch]"
    by (simp add: drop_update_swap take_update_swap)
  with Cons.IH [of "mem[o' + p := ch]"] Cons.prems w show ?case by simp
qed

lemma set_wrapped_ok:
  assumes ok: "mail_ok m" and w: "\<forall>p \<in> set (wrapped m). p < msize m" and ch: "wrapchar m \<noteq> ch"
  shows "\<exists>m'. set_wrapped m ch = Inr m' \<and> mail_ok m' \<and> content m' = put_at (wrapped m) ch (content m) \<and>
    wrapped m' = wrapped m \<and> wrapchar m' = ch \<and> m_body m' = m_body m \<and> msize m' = msize m"
proof -
  have "m_off m + msize m \<le> length (m_base m)" using ok by (simp add: mail_ok_def)
  from write_each_ok [OF w this] obtain mem where "write_each (m_base m) (m_off m) (wrapped m) ch = Inr mem"
    "length mem = length (m_base m)" "take (msize m) (drop (m_off m) mem) = put_at (wrapped m) ch (content m)"
    unfolding content_def by blast
  with ok ch show ?thesis by (auto simp: set_wrapped_def mail_ok_def content_def)
qed

text \<open>Appending the lines of a fetched mail.\<close>

fun append_lines :: "(nat \<Rightarrow> bool) \<Rightarrow> 'x mail \<Rightarrow> char list list \<Rightarrow> (int \<times> 'x mail) res" where
  "append_lines shm m [] = Inr (0, m)"
| "append_lines shm m (l # ls) =
     rbind (append_line shm m l) (\<lambda>(n, m). if n \<noteq> 0 then Inr (n, m) else append_lines shm m ls)"

lemma append_lines_ok:
  assumes "mail_ok m" and "m_off m + msize m + length (concat (map (\<lambda>l. l @ [NL]) ls)) < SIZE_MAX div 2" and "\<forall>k. shm k"
  shows "\<exists>m'. append_lines shm m ls = Inr (0, m') \<and> mail_ok m' \<and>
    content m' = content m @ concat (map (\<lambda>l. l @ [NL]) ls) \<and> m_body m' = m_body m"
  using assms(1,2)
proof (induction ls arbitrary: m)
  case Nil
  then show ?case by simp
next
  case (Cons l ls)
  have "m_off m + msize m + length l + 1 < SIZE_MAX div 2" using Cons.prems(2) by simp
  then obtain m1 where m1: "append_line shm m l = Inr (0, m1)"
    using append_line_returns [OF Cons.prems(1) _ assms(3)] by blast
  note a = append_line_ok [OF Cons.prems(1) m1]
  have "m_off m1 + msize m1 + length (concat (map (\<lambda>l. l @ [NL]) ls)) < SIZE_MAX div 2"
    using Cons.prems(2) a by simp
  with Cons.IH [of m1] a m1 show ?case by auto
qed

text \<open>A mail to evaluate the properties on.\<close>

definition sample_text :: "char list" where
  "sample_text = ''A: b'' @ [NL] @ '' c'' @ [NL, NL] @ ''hi'' @ [NL]"

definition sample_mail :: "unit mail" where
  "sample_mail = \<lparr>m_idx = 1, m_tim = 0, m_tags = None, attach = None, attach_built = False, mapped = True,
     m_base = ''xx'' @ sample_text @ replicate 4 NUL, m_off = 2, msize = 12, m_space = 18, m_body = 9, wrapped = [],
     wrapchar = NUL, m_rml = \<lparr>rml_valid = False, rml_list = []\<rparr>, decision = DECISION_NONE, auxfree = False, auxdata = None\<rparr>"

lemma sample_mail_ok:
  "mail_ok sample_mail" "content sample_mail = sample_text" "msize sample_mail = 12" "m_body sample_mail = 9"
  "m_off sample_mail = 2" "wrapped sample_mail = []"
  by (simp_all add: mail_ok_def sample_mail_def content_def sample_text_def)

lemma sample_find: "List.find (sep_at sample_text) [0..<12] = Some 8"
  by code_simp

lemma sample_body_ok: "body_ok sample_mail"
proof -
  have "length sample_text = 12" by (simp add: sample_text_def)
  with sample_find show ?thesis by (simp add: body_ok_def sample_mail_ok body_offset_def)
qed

section \<open>Properties\<close>

text \<open>\<open>find_body\<close> returns the offset just after the first separator - a newline at the start of the
  mail or right after another newline - and 0 when there is none; it never leaves the mail.\<close>

theorem find_body_spec:
  assumes "mail_ok m"
  shows "find_body m = Inr (case List.find (\<lambda>n. content m ! n = NL \<and> (n = 0 \<or> content m ! (n - 1) = NL)) [0..<msize m] of
    None \<Rightarrow> 0 | Some n \<Rightarrow> n + 1)"
proof -
  have "List.find (\<lambda>n. content m ! n = NL \<and> (n = 0 \<or> content m ! (n - 1) = NL)) [0..<msize m] =
      List.find (sep_at (content m)) [0..<msize m]"
    by (rule find_cong) (use assms in \<open>auto simp: sep_at_def\<close>)
  then show ?thesis using find_body_correct [OF assms] assms by (simp add: body_offset_def)
qed

lemma find_body_spec_witness: "find_body sample_mail = Inr 9"
  using find_body_spec [OF sample_mail_ok(1)]
  by (simp add: sample_mail_ok upt_rec) (simp add: sample_text_def)

text \<open>\<open>count_lines\<close> counts every line of the mail, a last one without newline included, and the lines
  after the separator.\<close>

theorem count_lines_spec:
  assumes ok: "mail_ok m"
  shows "count_lines m = Inr (nlines (content m),
    case List.find (sep_at (content m)) [0..<msize m] of None \<Rightarrow> 0
    | Some n \<Rightarrow> if n + 1 = msize m then 0 else nlines (drop (n + 1) (content m)))"
proof -
  let ?f = "\<lambda>(flag, tot, bodyl) p len. rbind (bytes_at m p len) (\<lambda>l.
       Inr (Inr (flag \<or> len = 1 \<and> l = [NL], tot + 1, if flag then bodyl + 1 else bodyl))) :: (nat \<times> nat + bool \<times> nat \<times> nat) res"
  let ?g = "\<lambda>(flag, tot, bodyl) _ l. Inr (Inr (flag \<or> l = [NL], tot + 1, if flag then bodyl + 1 else bodyl))
       :: (nat \<times> nat + bool \<times> nat \<times> nat) res"
  have "on_lines m ?f (False, 0, 0) = fold_lines ?g (False, 0, 0) 0 (lines_of (content m))"
  proof (rule on_lines_fold [OF ok])
    fix s :: "bool \<times> nat \<times> nat" and p n assume le: "p + n \<le> msize m"
    then have "length (take n (drop p (content m))) = n" using ok by simp
    then have "n = 1 \<and> take n (drop p (content m)) = [NL] \<longleftrightarrow> take n (drop p (content m)) = [NL]"
      by (metis length_Cons list.size(3) One_nat_def)
    then show "?f s p n = ?g s p (take n (drop p (content m)))"
      using ok le by (cases s) (simp add: bytes_at_ok)
  qed
  also have "\<dots> = Inr (Inr ([NL] \<in> set (lines_of (content m)), nlines (content m),
      length (tl (dropWhile (\<lambda>l. l \<noteq> [NL]) (lines_of (content m))))))"
    unfolding count_fold by (simp add: length_lines_of)
  finally have "count_lines m = Inr (nlines (content m),
      length (tl (dropWhile (\<lambda>l. l \<noteq> [NL]) (lines_of (content m)))))"
    unfolding count_lines_def by (simp only: rbind_simps prod.case sum.case)
  then show ?thesis
    using after_separator [of "content m" 0] ok by (simp add: line_start_def split: option.splits)
qed

lemma count_lines_spec_witness: "count_lines sample_mail = Inr (4, 1)"
  using count_lines_spec [OF sample_mail_ok(1)] sample_find
  by (simp add: sample_mail_ok) (simp add: nlines_def sample_text_def)

text \<open>C16: a header of a new name added at the end of the headers is found there, leaves the body where
  \<open>find_body\<close> finds it, and removing it gives back the text.\<close>

theorem insert_remove_header:
  assumes ok: "mail_ok m" and b: "body_ok m" "m_body m \<noteq> 0" and new: "find_header m name False = Inr None"
    and nl: "NL \<notin> set name" "NL \<notin> set v" and res: "insert_header shm m None (name @ CHR '':'' # v) = Inr (0, m')"
  shows "find_header m' name False = Inr (Some (m_body m - 1, length name + length v + 2)) \<and>
    find_body m' = Inr (m_body m') \<and>
    (\<exists>m''. remove_header m' name = Inr (0, m'') \<and> mail_ok m'' \<and> content m'' = content m \<and> m_body m'' = m_body m)"
proof -
  note I = insert_last_header [OF assms]
  have "m_body m \<le> msize m" using ok by (simp add: mail_ok_def)
  then have "length (content m') = length (content m) + (length name + length v + 2)"
    using insert_header_ok [OF ok _ _ res, of "m_body m - 1" 1] b ok by (simp add: insert_place_def)
  then have "m_body m - 1 + (length name + length v + 2) \<le> msize m'" using I ok \<open>m_body m \<le> msize m\<close> by simp
  with remove_header_ok [of m' name "m_body m - 1" "length name + length v + 2"] I
  show ?thesis using find_body_correct [of m'] by (auto simp: body_ok_def)
qed

lemma insert_remove_header_witness:
  "\<exists>m' m''. insert_header (\<lambda>_. True) sample_mail None ''X: y'' = Inr (0, m') \<and>
    find_header m' ''X'' False = Inr (Some (8, 5)) \<and> remove_header m' ''X'' = Inr (0, m'') \<and> content m'' = sample_text"
proof -
  have new: "find_header sample_mail ''X'' False = Inr None" by code_simp
  have "\<exists>m'. insert_header (\<lambda>_. True) sample_mail None (''X'' @ CHR '':'' # '' y'') = Inr (0, m')"
    by (simp add: insert_header_def sample_mail_def Let_def mail_resize_def mail_fit.simps mem_move_def mem_read_def
        mem_write_def sample_text_def SIZE_MAX_def)
  then obtain m' where r: "insert_header (\<lambda>_. True) sample_mail None (''X'' @ CHR '':'' # '' y'') = Inr (0, m')" by blast
  from insert_remove_header [OF sample_mail_ok(1) sample_body_ok _ new _ _ r] show ?thesis
    using r by (auto simp: sample_mail_ok)
qed

text \<open>C17: unwrapping for a regular expression is undone by wrapping again: with the positions collected by
  \<open>fill_wrapped\<close>, \<open>set_wrapped\<close> to a space leaves no header line that starts with white space, and
  \<open>set_wrapped\<close> to a newline restores every byte.\<close>

theorem wrap_unwrap:
  assumes ok: "mail_ok m" and b: "body_ok m" and w: "wrapped m = []"
  shows "\<exists>n m1 m2 m3. fill_wrapped m = Inr (n, m1) \<and> set_wrapped m1 SP = Inr m2 \<and> set_wrapped m2 NL = Inr m3 \<and>
    n = length (wrapped m1) \<and> content m3 = content m \<and> mail_ok m3 \<and>
    (\<forall>i. i + 1 < m_body m \<and> content m2 ! i = NL \<longrightarrow> \<not> isblank (content m2 ! (i + 1)))"
proof -
  let ?c = "content m" and ?ws = "wraps (content m) (m_body m) 0"
  let ?m1 = "m\<lparr>wrapped := ?ws, wrapchar := NUL\<rparr>"
  have f: "fill_wrapped m = Inr (length ?ws, ?m1)" using w wrapped_from_correct [OF ok] by (simp add: fill_wrapped_def)
  have bd: "m_body m \<le> msize m" using ok by (simp add: mail_ok_def)
  have ws: "set ?ws = {n. wrap_at ?c (m_body m) n}" by (auto simp: wraps_def wrap_at_def)
  then have lt: "\<forall>p \<in> set ?ws. p < msize m" using bd by (auto simp: wrap_at_def)
  have ok1: "mail_ok ?m1" and c1: "content ?m1 = ?c" using ok by (simp_all add: mail_ok_def content_def)
  obtain m2 where m2: "set_wrapped ?m1 SP = Inr m2" "mail_ok m2" "content m2 = put_at ?ws SP ?c" "wrapped m2 = ?ws"
    "wrapchar m2 = SP" "msize m2 = msize m"
    using set_wrapped_ok [OF ok1, of SP] lt c1 by auto
  obtain m3 where m3: "set_wrapped m2 NL = Inr m3" "mail_ok m3" "content m3 = put_at ?ws NL (content m2)"
    using set_wrapped_ok [OF m2(2), of NL] lt m2 by auto
  have "content m3 = ?c"
    by (rule nth_equalityI) (use m2(3) m3(3) ws put_at_nth in \<open>auto simp: wrap_at_def\<close>)
  moreover have "\<not> isblank (content m2 ! (i + 1))" if i: "i + 1 < m_body m" "content m2 ! i = NL" for i
  proof -
    have il: "i + 1 < length ?c" using i bd ok by simp
    have "i \<notin> set ?ws" "?c ! i = NL"
      using i(2) il put_at_nth [of ?ws SP ?c i] unfolding m2(3) by (auto split: if_splits)
    then have nb: "\<not> isblank (?c ! (i + 1))" using i(1) ws by (auto simp: wrap_at_def)
    have "i + 1 \<notin> set ?ws"
    proof
      assume "i + 1 \<in> set ?ws"
      then have s: "sep_at ?c (i + 1)" and lt: "i + 1 < m_body m - 1"
        using ws il \<open>?c ! i = NL\<close> by (auto simp: wrap_at_def sep_at_def)
      have "body_offset ?c = m_body m" "0 < m_body m" using b i(1) by (auto simp: body_ok_def)
      from body_sep(2) [OF this lt] s show False by simp
    qed
    then show ?thesis using nb il put_at_nth [of ?ws SP ?c "i + 1"] unfolding m2(3) by simp
  qed
  ultimately show ?thesis using f m2(1) m3(1,2) by auto
qed

lemma wrap_unwrap_witness:
  "\<exists>n m1 m2 m3. fill_wrapped sample_mail = Inr (n, m1) \<and> set_wrapped m1 SP = Inr m2 \<and> set_wrapped m2 NL = Inr m3 \<and>
    content m3 = sample_text"
  using wrap_unwrap [OF sample_mail_ok(1) sample_body_ok sample_mail_ok(6)] by (auto simp: sample_mail_ok)


text \<open>C23: appending the lines of a fetched mail to a fresh one. As long as the shared memory can grow and
  the mail stays under half the address space, no line is refused and the text is the lines in order,
  each ended by a newline; no byte is written outside the block, whatever the initial size.\<close>

theorem fetched_lines:
  assumes "\<forall>k. shm k" and "length (concat (map (\<lambda>l. l @ [NL]) ls)) < SIZE_MAX div 2"
  shows "\<exists>m' m''. mail_open shm m sz = (0, m') \<and> append_lines shm m' ls = Inr (0, m'') \<and>
    content m'' = concat (map (\<lambda>l. l @ [NL]) ls) \<and> mail_ok m''"
proof -
  define m' where "m' = snd (mail_open shm m sz)"
  have o: "mail_open shm m sz = (0, m')" using assms(1) by (simp add: m'_def mail_open_def Let_def)
  have z: "mail_ok m'" "content m' = []" "m_off m' = 0" "msize m' = 0"
    using assms(1) by (simp_all add: m'_def mail_open_def Let_def mail_ok_def content_def IO_ROUND_def IO_BLOCKSIZE_def)
  from append_lines_ok [OF z(1) _ assms(1)] z assms(2) o show ?thesis by auto
qed

lemma fetched_lines_witness:
  "\<exists>m' m''. mail_open (\<lambda>_. True) sample_mail 0 = (0, m') \<and> append_lines (\<lambda>_. True) m' [''a: b'', [], ''text''] = Inr (0, m'') \<and>
    content m'' = ''a: b'' @ [NL, NL] @ ''text'' @ [NL] \<and> mail_ok m''"
  using fetched_lines [of "\<lambda>_. True" "[''a: b'', [], ''text'']" sample_mail 0] by (simp add: SIZE_MAX_def)

text \<open>the search for an address reads past its copy of the header. When the text from an \<open>@\<close> to the
  end of the header is made of domain characters and the character in front of the user part does not
  start an address, the search goes on behind the terminating NUL of the copy.\<close>

theorem find_address_overread:
  assumes u: "\<forall>c \<in> set u. isuser c" "u \<noteq> []" and d: "\<forall>c \<in> set d. isdomain c" and x: "\<not> isuser x" "\<not> isfirst x" "x \<noteq> NUL"
    and c: "is_cstr p" "DQ \<notin> set p" "CHR ''@'' \<notin> set p" "CHR ''@'' \<noteq> x" "DQ \<noteq> x" "p \<noteq> []"
  shows "find_address (p @ x # u @ CHR ''@'' # d) = Inl (MemErr ''strchr'')"
proof -
  let ?s = "p @ x # u @ CHR ''@'' # d"
  have cls: "isuser c \<Longrightarrow> c \<noteq> DQ \<and> c \<noteq> NUL \<and> c \<noteq> CHR ''@''" "isdomain c \<Longrightarrow> c \<noteq> DQ \<and> c \<noteq> NUL" for c
    by (auto simp: isuser_def isdomain_def isalnum_def isdigit_def isupper_def islower_def code_def)
  have nq: "DQ \<notin> set ?s" and nn: "is_cstr ?s" using u d c x cls by (auto simp: is_cstr_def)
  have bq: "blank_quotes False s = s" if "DQ \<notin> set s" for s using that by (induction s) auto
  have a: "memchr (drop 1 ?s) (CHR ''@'') = Some (length p + length u)"
  proof -
    have "drop 1 ?s = (drop 1 p @ x # u) @ CHR ''@'' # d" using c(6) by (cases p) simp_all
    moreover have "CHR ''@'' \<notin> set (drop 1 p @ x # u)" using c(3,4) u cls by (auto dest: in_set_dropD)
    ultimately show ?thesis using memchr_append [of "CHR ''@''" "drop 1 p @ x # u" d] c(6) by simp
  qed
  let ?at = "1 + (length p + length u)"
  have tw: "takeWhile isdomain d = d" using d by simp
  have su: "scan_user ?s (length p + k) = length p" if "k \<le> length u" for k
    using that
  proof (induction k)
    case 0
    then show ?case using x(1) c(6) by (cases "length p") (auto simp: nth_append)
  next
    case (Suc k)
    then have "?s ! Suc (length p + k) = u ! k" by (simp add: nth_append)
    moreover have "isuser (u ! k)" using Suc.prems u by simp
    ultimately show ?case using Suc by simp
  qed
  have f: "scan_user ?s (?at - 1) = length p" using su [of "length u"] by simp
  have fc: "?s ! length p = x" by simp
  have "address_loop ?s 1 = address_loop ?s (length ?s + 1)"
    using a f fc x(2) c(6) by (subst address_loop.simps) (simp add: Let_def tw add.assoc)
  also have "\<dots> = Inl (MemErr ''strchr'')" by (subst address_loop.simps) simp
  finally show ?thesis using bq [OF nq] cstr_id [OF nn] by (simp add: find_address_def)
qed

lemma find_address_overread_witness: "find_address ''a!b@c'' = Inl (MemErr ''strchr'')"
  using find_address_overread [of "''b''" "''c''" "CHR ''!''" "''a''"]
  by (simp add: isuser_def isdomain_def isalnum_def isdigit_def isupper_def islower_def code_def isfirst_def is_cstr_def)

end
