(* ===== verification/Attach.thy ===== *)
theory Attach imports Mail_Text begin

text \<open>
  Attachments (\<^verbatim>\<open>attach.c\<close>): the content-type header of a part, the tree built from the boundaries of
  a MIME mail, and the walk over the tree. A node of the tree is named by the path to it, the innermost
  index first; the parent of a node is the tail of its path.
\<close>

section \<open>Walking the tree\<close>

fun at_path :: "attach \<Rightarrow> nat list \<Rightarrow> attach option" where
  "at_path t [] = Some t"
| "at_path t (i # ps) =
     (case at_path t ps of
        None \<Rightarrow> None
      | Some p \<Rightarrow> if i < length (a_children p) then Some (a_children p ! i) else None)"

text \<open>\<open>TAILQ_NEXT\<close>; the root is in no list.\<close>

definition next_sibling :: "attach \<Rightarrow> nat list \<Rightarrow> nat list option" where
  "next_sibling t p = (case p of
     [] \<Rightarrow> None | i # ps \<Rightarrow> if at_path t (Suc i # ps) \<noteq> None then Some (Suc i # ps) else None)"

definition attach_visit :: "attach \<Rightarrow> nat list option \<Rightarrow> u_int \<Rightarrow> nat list option \<times> u_int" where
  "attach_visit t atr n = (case atr of
     None \<Rightarrow> (None, n)
   | Some p \<Rightarrow>
      (case at_path t p of
         None \<Rightarrow> (None, n)
       | Some a \<Rightarrow>
           if a_children a = [] then
             (case next_sibling t p of
                None \<Rightarrow> (case p of [] \<Rightarrow> None | i # ps \<Rightarrow> next_sibling t ps, n - 1)
              | Some q \<Rightarrow> (Some q, n))
           else (Some (0 # p), n + 1)))"

text \<open>The loops \<open>while (atr != NULL) { ...; atr = attach_visit (atr, &n); }\<close>: the nodes they see.\<close>

fun attach_walk :: "nat \<Rightarrow> attach \<Rightarrow> nat list option \<Rightarrow> u_int \<Rightarrow> nat list list" where
  "attach_walk 0 t atr n = []"
| "attach_walk (Suc fuel) t None n = []"
| "attach_walk (Suc fuel) t (Some p) n =
     p # (case attach_visit t (Some p) n of (q, n) \<Rightarrow> attach_walk fuel t q n)"

fun attach_nodes :: "attach \<Rightarrow> nat" where
  "attach_nodes (Attach i d b s t n cs) = Suc (sum_list (map attach_nodes cs))"

section \<open>Memory of the mail\<close>

definition mail_chr :: "'x mail \<Rightarrow> nat \<Rightarrow> nat \<Rightarrow> char \<Rightarrow> nat option res" where
  "mail_chr m p len c = (case memchr (take len (drop (m_off m + p) (m_base m))) c of
     Some i \<Rightarrow> Inr (Some i)
   | None \<Rightarrow> if m_off m + p + len \<le> length (m_base m) then Inr None else Inl (MemErr ''memchr''))"

definition skip_spaces :: "'x mail \<Rightarrow> nat \<Rightarrow> nat \<Rightarrow> (nat \<times> nat) res" where
  "skip_spaces m p len =
     (let k = length (takeWhile isspace (take len (drop (m_off m + p) (m_base m)))) in
      if k < len \<and> length (m_base m) \<le> m_off m + p + k then Inl (MemErr ''isspace'') else Inr (p + k, len - k))"

section \<open>The type of a part\<close>

text \<open>
  The attributes after the type. (After a skipped attribute the source subtracts
  \<open>(ptr - hdr) + 1\<close> from \<open>len\<close> when \<open>hdr\<close> already is \<open>ptr + 1\<close>: \<open>len\<close> stays as it is.)
\<close>

function attach_attr :: "'x mail \<Rightarrow> char list \<Rightarrow> nat \<Rightarrow> nat \<Rightarrow> char list option option res" where
  "attach_attr m name p len =
     (case skip_spaces m p len of
        Inl e \<Rightarrow> Inl e
      | Inr (p, len) \<Rightarrow>
          if len = 0 then Inr None
          else
            (case rbind (mail_chr m p len NL) (\<lambda>e. Inr (case e of None \<Rightarrow> len | Some i \<Rightarrow> i)) of
               Inl e \<Rightarrow> Inl e
             | Inr llen \<Rightarrow>
                 (case mail_chr m p llen (CHR ''='') of
                    Inl e \<Rightarrow> Inl e
                  | Inr None \<Rightarrow> Inr (Some None)
                  | Inr (Some eq) \<Rightarrow>
                      if eq = length name \<and> take eq (drop (m_off m + p) (m_base m)) = name then
                        let llen = llen - (eq + 1); p = p + (eq + 1) in
                        rbind (mail_chr m p llen (CHR '';'')) (\<lambda>semi.
                        let llen = (case semi of None \<Rightarrow> llen | Some i \<Rightarrow> i) in
                        rbind (bytes_at m p 1) (\<lambda>c.
                        if c = [DQ] then
                          if llen < 2 then Inr None
                          else rbind (bytes_at m (p + llen - 1) 1) (\<lambda>c.
                            if c \<noteq> [DQ] then Inr None
                            else rbind (bytes_at m (p + 1) (llen - 2)) (\<lambda>v. Inr (Some (Some (cstr v)))))
                        else rbind (bytes_at m p llen) (\<lambda>v. Inr (Some (Some (cstr v))))))
                      else
                        (case mail_chr m p llen (CHR '';'') of
                           Inl e \<Rightarrow> Inl e
                         | Inr None \<Rightarrow> Inr (Some None)
                         | Inr (Some i) \<Rightarrow> attach_attr m name (p + i + 1) len))))"
  by pat_completeness auto

lemma mail_chr_Some:
  "mail_chr m p len c = Inr (Some i) \<Longrightarrow> i < len \<and> m_off m + p + i < length (m_base m)"
  by (auto simp: mail_chr_def memchr_Some split: option.splits if_splits)

lemma skip_spaces_le: "skip_spaces m p len = Inr (p', len') \<Longrightarrow> p \<le> p'"
  by (auto simp: skip_spaces_def Let_def split: if_splits)

lemma attach_attr_progress:
  assumes "skip_spaces m p len = Inr (p', len')" and "mail_chr m p' llen c = Inr (Some i)"
  shows "length (m_base m) - (m_off m + (p' + i + 1)) < length (m_base m) - (m_off m + p)"
proof -
  have "m_off m + p < length (m_base m)" "m_off m + p < m_off m + (p' + i + 1)"
    using skip_spaces_le [OF assms(1)] mail_chr_Some [OF assms(2)] by linarith+
  then show ?thesis by (simp add: diff_less_mono2)
qed

termination attach_attr
  by (relation "measure (\<lambda>(m, name, p, len). length (m_base m) - (m_off m + p))")
    (simp, unfold in_measure prod.case, blast intro: attach_attr_progress)

declare attach_attr.simps [simp del]

definition attach_type :: "'x mail \<Rightarrow> nat \<Rightarrow> char list \<Rightarrow> (char list \<times> char list option) option res" where
  "attach_type m p name =
     (let len = size_sub (msize m) p in
      if len < 13 then Inr None
      else rbind (bytes_at m p 13) (\<lambda>h.
        if \<not> strncasecmp_eq h ''content-type:'' then Inr None
        else rbind (skip_spaces m (p + 13) (len - 13)) (\<lambda>(p, len).
          if len = 0 then Inr None
          else rbind (mail_chr m p len NL) (\<lambda>e.
          let llen = (case e of None \<Rightarrow> len | Some i \<Rightarrow> i) in
          rbind (mail_chr m p llen (CHR '';'')) (\<lambda>s.
          let t = (case s of None \<Rightarrow> llen | Some i \<Rightarrow> i) in
          rbind (bytes_at m p t) (\<lambda>ty.
            if len - t = 0 then Inr (Some (cstr ty, None))
            else rbind (bytes_at m (p + t) 1) (\<lambda>c.
              if c = [NL] then Inr (Some (cstr ty, None))
              else rbind (attach_attr m name (p + t + 1) (len - t - 1)) (\<lambda>r.
                Inr (map_option (\<lambda>v. (cstr ty, v)) r)))))))))"

definition is_multipart :: "char list \<Rightarrow> bool" where
  "is_multipart ty \<longleftrightarrow> strncasecmp_eq (take 10 ty) ''multipart/''"

section \<open>The tree\<close>

text \<open>
  The line at \<open>p\<close> is two dashes, the boundary and \<open>k - 2\<close> more bytes: \<open>k\<close> is 3 for a boundary and 5
  for the one that ends a multipart (whose last two dashes are only tested in one place).
\<close>

definition is_boundary :: "'x mail \<Rightarrow> char list \<Rightarrow> nat \<Rightarrow> nat \<Rightarrow> nat \<Rightarrow> bool res" where
  "is_boundary m b k p len =
     rbind (bytes_at m p 1) (\<lambda>c. if c \<noteq> ''-'' then Inr False else
     rbind (bytes_at m (p + 1) 1) (\<lambda>c. if c \<noteq> ''-'' then Inr False else
       if size_sub len k \<noteq> length b then Inr False
       else rbind (bytes_at m (p + 2) (length b)) (\<lambda>d. Inr (d = b))))"

text \<open>\<open>while (ptr != NULL) { if (stop) break; line_next }\<close>.\<close>

definition line_until :: "'x mail \<Rightarrow> (nat \<Rightarrow> nat \<Rightarrow> bool res) \<Rightarrow> cursor \<Rightarrow> cursor res" where
  "line_until m stop c = rbind (line_loop m (\<lambda>_ p len. rbind (stop p len) (\<lambda>b.
       Inr (if b then Inl (p, len) else Inr ()))) () c)
     (\<lambda>r. case r of Inl (p, len) \<Rightarrow> Inr (Some p, len) | Inr _ \<Rightarrow> Inr (None, 0))"

definition is_type_line :: "'x mail \<Rightarrow> nat \<Rightarrow> nat \<Rightarrow> bool res" where
  "is_type_line m p len =
     (if len < 13 then Inr False
      else rbind (bytes_at m p 13) (\<lambda>h. Inr (strncasecmp_eq h ''content-type:'')))"

definition is_end :: "'x mail \<Rightarrow> char list \<Rightarrow> nat \<Rightarrow> nat \<Rightarrow> bool res" where
  "is_end m b p len = rbind (is_boundary m b 5 p len) (\<lambda>x.
     if \<not> x then Inr False else rbind (bytes_at m (p + length b + 2) 2) (\<lambda>d. Inr (d = ''--'')))"

definition at_part_end :: "'x mail \<Rightarrow> char list \<Rightarrow> nat \<Rightarrow> nat \<Rightarrow> bool res" where
  "at_part_end m b p len =
     (if len < 3 then Inr False
      else rbind (is_end m b p len) (\<lambda>e. if e then Inr True else is_boundary m b 3 p len))"

definition set_idx :: "nat \<Rightarrow> attach \<Rightarrow> attach" where
  "set_idx i a = Attach i (a_data a) (a_body a) (a_size a) (a_type a) (a_name a) (a_children a)"

text \<open>
  \<open>attach_get\<close> with the loop over the parts of a multipart. The cursor is where the source has
  \<open>*ptr\<close> and \<open>*len\<close>; the result is the part (\<open>None\<close> is NULL), the cursor and \<open>*last\<close>. Each nesting and
  each part uses up lines of the mail; the fuel is their bound.
\<close>

fun attach_get :: "nat \<Rightarrow> 'x mail \<Rightarrow> char list \<Rightarrow> cursor \<Rightarrow> bool \<Rightarrow> (attach option \<times> cursor \<times> bool) res"
and attach_parts :: "nat \<Rightarrow> 'x mail \<Rightarrow> char list \<Rightarrow> bool \<Rightarrow> nat \<Rightarrow> cursor \<Rightarrow> bool \<Rightarrow> (attach list option \<times> cursor) res" where
  "attach_get 0 m b c la = Inl (Diverges ''attach_get'')"
| "attach_get (Suc fuel) m b c la =
     (case c of (None, _) \<Rightarrow> Inr (None, c, la) | (Some d, _) \<Rightarrow>
      rbind (line_until m (is_type_line m) c) (\<lambda>c.
      case c of (None, _) \<Rightarrow> Inr (None, c, la) | (Some p, _) \<Rightarrow>
      rbind (attach_type m p ''name'') (\<lambda>ty.
      case ty of None \<Rightarrow> Inr (None, c, la) | Some (ty, name) \<Rightarrow>
        if \<not> is_multipart ty then
          rbind (line_until m (\<lambda>p len. Inr (len \<le> 1)) c) (\<lambda>c.
          case c of (None, _) \<Rightarrow> Inr (None, c, la) | (Some bd, _) \<Rightarrow>
          rbind (line_next m c) (\<lambda>c.
          rbind (line_until m (at_part_end m b) c) (\<lambda>c.
          case c of (None, _) \<Rightarrow> Inr (None, c, la) | (Some e, len) \<Rightarrow>
          rbind (is_end m b e len) (\<lambda>l.
            Inr (Some (Attach 0 d bd (e - d) (Some ty) name []), c, la \<or> l)))))
        else
          rbind (attach_type m p ''boundary'') (\<lambda>r.
          case r of Some (ty2, Some b2) \<Rightarrow>
            rbind (line_until m (is_boundary m b2 3) c) (\<lambda>c.
            rbind (attach_parts fuel m b2 False 0 c False) (\<lambda>(cs, c).
            case cs of None \<Rightarrow> Inr (None, c, la) | Some cs \<Rightarrow>
            rbind (line_until m (is_boundary m b2 5) c) (\<lambda>c.
            if fst c = None then Inr (None, c, la)
            else rbind (line_next m c) (\<lambda>c.
              Inr (Some (Attach 0 d 0 0 (Some ty2) name cs), c, la)))))
          | _ \<Rightarrow> Inr (None, c, la)))))"
| "attach_parts 0 m b outer n c la = Inl (Diverges ''attach_parts'')"
| "attach_parts (Suc fuel) m b outer n c la =
     (case c of (None, _) \<Rightarrow> Inr (Some [], c) | (Some p, len) \<Rightarrow>
      if la then Inr (Some [], c)
      else rbind (if outer then is_boundary m b 5 p len else Inr False) (\<lambda>stop.
        if stop then Inr (Some [], c)
        else rbind (attach_get fuel m b c la) (\<lambda>(at, c, la).
          case at of None \<Rightarrow> Inr (None, c)
          | Some at \<Rightarrow>
              rbind (attach_parts fuel m b outer (n + 1) c la) (\<lambda>(cs, c).
                Inr (map_option (\<lambda>cs. set_idx n at # cs) cs, c)))))"

definition attach_fuel :: "'x mail \<Rightarrow> nat" where "attach_fuel m = 2 * msize m + 4"

text \<open>The part of \<open>attach_build\<close> behind the type and the boundary of the mail.\<close>

definition attach_root :: "'x mail \<Rightarrow> char list \<Rightarrow> char list \<Rightarrow> attach option res" where
  "attach_root m ty b =
     rbind (line_init m) (\<lambda>c.
     rbind (line_until m (is_boundary m b 3) c) (\<lambda>c.
       if fst c = None then Inr None
       else rbind (attach_parts (attach_fuel m) m b True 0 c False) (\<lambda>(cs, c).
         case cs of None \<Rightarrow> Inr None
         | Some cs \<Rightarrow> if fst c = None then Inr None else Inr (Some (Attach 0 0 0 0 (Some ty) None cs)))))"

definition attach_build :: "'x mail \<Rightarrow> attach option res" where
  "attach_build m =
     rbind (find_header m ''content-type'' False) (\<lambda>h.
     case h of None \<Rightarrow> Inr None | Some (p, len) \<Rightarrow>
       rbind (attach_type m p ''boundary'') (\<lambda>t.
       case t of Some (ty, Some b) \<Rightarrow> if \<not> is_multipart ty then Inr None else attach_root m ty b
       | _ \<Rightarrow> Inr None))"

section \<open>The walk\<close>

fun preorder :: "attach \<Rightarrow> nat list \<Rightarrow> nat list list"
and preorder_list :: "attach list \<Rightarrow> nat \<Rightarrow> nat list \<Rightarrow> nat list list" where
  "preorder (Attach i d b s t n cs) p = p # preorder_list cs 0 p"
| "preorder_list [] k p = []"
| "preorder_list (c # cs) k p = preorder c (k # p) @ preorder_list cs (Suc k) p"

lemma attach_walk_depth: "attach_walk f t q n = attach_walk f t q n'"
proof (induction f arbitrary: q n n')
  case 0
  then show ?case by simp
next
  case (Suc f)
  show ?case
  proof (cases q)
    case (Some p)
    have "fst (attach_visit t q n) = fst (attach_visit t q n')"
      by (simp add: attach_visit_def split: option.splits)
    moreover have "attach_walk (Suc f) t q k = p # attach_walk f t (fst (attach_visit t q k)) (snd (attach_visit t q k))" for k
      using Some by (simp add: split_beta)
    ultimately show ?thesis using Suc.IH by metis
  qed simp
qed

lemma attach_walk_None [simp]: "attach_walk f t None n = []"
  by (cases f) simp_all

text \<open>From child \<open>k\<close> of the node at \<open>p\<close>, all children leaves: to the last child, then to the node after \<open>p\<close>.\<close>

lemma attach_walk_leaves:
  assumes "at_path t p = Some a" and "\<forall>c \<in> set (a_children a). a_children c = []" and "k + g = length (a_children a)" and "0 < g"
  shows "attach_walk (g + f) t (Some (k # p)) n = map (\<lambda>j. j # p) [k..<k + g] @ attach_walk f t (next_sibling t p) 0"
  using assms(3,4)
proof (induction g arbitrary: k n)
  case 0
  then show ?case by simp
next
  case (Suc g)
  let ?c = "a_children a ! k"
  have k: "k < length (a_children a)" using Suc.prems by simp
  then have ck: "at_path t (k # p) = Some ?c" "a_children ?c = []" using assms(1,2) by simp_all
  show ?case
  proof (cases "g = 0")
    case True
    then have "next_sibling t (k # p) = None" using Suc.prems assms(1) by (simp add: next_sibling_def)
    then have "attach_visit t (Some (k # p)) n = (next_sibling t p, n - 1)"
      using ck by (simp add: attach_visit_def)
    with True show ?thesis by (simp add: attach_walk_depth [of f t "next_sibling t p" "n - 1" 0])
  next
    case False
    then have "next_sibling t (k # p) = Some (Suc k # p)" using Suc.prems assms(1) by (simp add: next_sibling_def)
    then have v: "attach_visit t (Some (k # p)) n = (Some (Suc k # p), n)" using ck by (simp add: attach_visit_def)
    have "attach_walk (g + f) t (Some (Suc k # p)) n = map (\<lambda>j. j # p) [Suc k..<Suc k + g] @ attach_walk f t (next_sibling t p) 0"
      using Suc.IH [of "Suc k" n] Suc.prems False by (simp del: upt_Suc)
    then have IH: "attach_walk (g + f) t (Some (Suc k # p)) n = map (\<lambda>j. j # p) [Suc k..<k + Suc g] @
        attach_walk f t (next_sibling t p) 0" by (simp del: upt_Suc)
    have u: "[k..<k + Suc g] = k # [Suc k..<k + Suc g]" by (simp add: upt_conv_Cons del: upt_Suc)
    show ?thesis unfolding u using v IH by (simp del: upt_Suc)
  qed
qed

lemma preorder_list_leaves:
  "\<forall>c \<in> set cs. a_children c = [] \<Longrightarrow> preorder_list cs k p = map (\<lambda>j. j # p) [k..<k + length cs]"
proof (induction cs arbitrary: k)
  case (Cons c cs)
  then have "preorder c (k # p) = [k # p]" by (cases c) simp
  moreover have "[k..<k + length (c # cs)] = k # [Suc k..<Suc k + length cs]" by (simp add: upt_conv_Cons del: upt_Suc)
  ultimately show ?case using Cons by (simp del: upt_Suc)
qed simp

lemma attach_nodes_leaves: "\<forall>c \<in> set cs. a_children c = [] \<Longrightarrow> sum_list (map attach_nodes cs) = length cs"
proof (induction cs)
  case (Cons c cs)
  then show ?case by (cases c) simp
qed simp

lemma preorder_unfold: "preorder a p = p # preorder_list (a_children a) 0 p"
  by (cases a) simp

lemma attach_nodes_unfold: "attach_nodes a = Suc (sum_list (map attach_nodes (a_children a)))"
  by (cases a) simp

text \<open>One child of the root, itself with leaves only.\<close>

lemma attach_walk_child:
  assumes i: "i < length (a_children t)" and lv: "\<forall>c \<in> set (a_children (a_children t ! i)). a_children c = []"
  shows "attach_walk (attach_nodes (a_children t ! i) + f) t (Some [i]) n =
    preorder (a_children t ! i) [i] @ attach_walk f t (next_sibling t [i]) 0"
proof -
  let ?a = "a_children t ! i"
  have at: "at_path t [i] = Some ?a" using i by simp
  show ?thesis
  proof (cases "a_children ?a = []")
    case True
    have "fst (attach_visit t (Some [i]) n) = next_sibling t [i]"
      using at True by (simp add: attach_visit_def next_sibling_def [of t "[]"] split: option.splits)
    then obtain k where v: "attach_visit t (Some [i]) n = (next_sibling t [i], k)" by (metis prod.collapse)
    have "attach_walk (Suc f) t (Some [i]) n = [i] # attach_walk f t (next_sibling t [i]) 0"
      using v attach_walk_depth [of f t "next_sibling t [i]" k 0] by simp
    then show ?thesis using True by (simp add: preorder_unfold [of ?a] attach_nodes_unfold [of ?a])
  next
    case False
    have v: "attach_visit t (Some [i]) n = (Some [0, i], n + 1)" using at False by (simp add: attach_visit_def)
    have len: "0 + length (a_children ?a) = length (a_children ?a)" "0 < length (a_children ?a)" using False by simp_all
    have "attach_walk (attach_nodes ?a + f) t (Some [i]) n =
        [i] # attach_walk (length (a_children ?a) + f) t (Some [0, i]) (n + 1)"
      using v by (simp add: attach_nodes_unfold [of ?a] attach_nodes_leaves [OF lv])
    also have "\<dots> = [i] # map (\<lambda>j. [j, i]) [0..<length (a_children ?a)] @ attach_walk f t (next_sibling t [i]) 0"
      using attach_walk_leaves [OF at lv len, of f "n + 1"] by simp
    finally show ?thesis using preorder_list_leaves [OF lv, of 0 "[i]"] by (simp add: preorder_unfold)
  qed
qed

lemma attach_walk_children:
  assumes lv: "\<forall>c \<in> set (a_children t). \<forall>g \<in> set (a_children c). a_children g = []" and "i \<le> length (a_children t)"
  shows "attach_walk (sum_list (map attach_nodes (drop i (a_children t))) + f) t
      (if i < length (a_children t) then Some [i] else None) n = preorder_list (drop i (a_children t)) i []"
  using assms(2)
proof (induction "length (a_children t) - i" arbitrary: i n)
  case 0
  then show ?case by simp
next
  case (Suc k)
  then have i: "i < length (a_children t)" by simp
  let ?a = "a_children t ! i"
  have d: "drop i (a_children t) = ?a # drop (Suc i) (a_children t)" using i by (simp add: Cons_nth_drop_Suc)
  have nx: "next_sibling t [i] = (if Suc i < length (a_children t) then Some [Suc i] else None)"
    by (simp add: next_sibling_def)
  have "?a \<in> set (a_children t)" using i by simp
  then have "\<forall>c \<in> set (a_children ?a). a_children c = []" using lv by blast
  from attach_walk_child [OF i this, of "sum_list (map attach_nodes (drop (Suc i) (a_children t))) + f" n]
  show ?case using i d nx Suc.hyps(1) [of "Suc i" 0] Suc.hyps(2) by (simp add: add.assoc)
qed

section \<open>Building the tree ends, and its parts lie in the mail\<close>

definition nd :: "'a res \<Rightarrow> bool" where "nd r \<longleftrightarrow> (\<forall>w. r \<noteq> Inl (Diverges w))"

named_theorems nd_intros \<open>results that are not the endless loop\<close>

lemma nd_rbind [nd_intros]: "nd r \<Longrightarrow> (\<And>x. r = Inr x \<Longrightarrow> nd (f x)) \<Longrightarrow> nd (rbind r f)"
  by (cases r) (auto simp: nd_def)

lemma nd_basic [simp]: "nd (Inr x)" "nd (Inl (MemErr w))" "nd (Inl (FatalX w))"
  by (simp_all add: nd_def)

lemma nd_mem [simp]:
  "nd (mem_read b p n)" "nd (bytes_at m p n)" "nd (mail_chr m p n c)" "nd (skip_spaces m p n)"
  by (auto simp: mem_read_def bytes_at_def mail_chr_def skip_spaces_def Let_def split: option.splits)

lemma nd_line [simp]: "nd (line_init m)" "nd (line_next m c)"
  by (auto simp: line_init_def line_next_def Let_def intro!: nd_intros split: option.splits prod.splits)

lemma nd_line_loop: "(\<And>s p len. nd (f s p len)) \<Longrightarrow> nd (line_loop m f s c)"
proof (induction m f s c rule: line_loop.induct)
  case (2 m f s p len)
  have l: "nd (line_next m (Some p, len))" by simp
  show ?case
  proof (cases "f s p len")
    case (Inl e)
    with "2.prems" [of s p len] show ?thesis by (simp add: nd_def)
  next
    case (Inr r)
    with 2 l show ?thesis by (auto simp: nd_def split: sum.splits)
  qed
qed simp

lemma nd_line_until [nd_intros]: "(\<And>p len. nd (stop p len)) \<Longrightarrow> nd (line_until m stop c)"
  unfolding line_until_def by (intro nd_intros nd_line_loop) (auto split: sum.splits intro!: nd_intros)

lemma nd_tests [simp]:
  "nd (is_boundary m b k p len)" "nd (is_type_line m p len)" "nd (is_end m b p len)" "nd (at_part_end m b p len)"
  by (auto simp: is_boundary_def is_type_line_def is_end_def at_part_end_def intro!: nd_intros)

lemma nd_Inl: "nd r \<Longrightarrow> r = Inl e \<Longrightarrow> nd (Inl e)"
  by (simp add: nd_def)

lemma nd_attach_attr [simp]: "nd (attach_attr m name p len)"
proof (induction m name p len rule: attach_attr.induct)
  case (1 m name p len)
  note unf = attach_attr.simps [of m name p len]
  show ?case
  proof (cases "skip_spaces m p len")
    case (Inl e)
    then show ?thesis unfolding unf using nd_Inl [OF nd_mem(4) Inl] by simp
  next
    case (Inr x)
    obtain q l where x: "x = (q, l)" by (cases x)
    let ?E = "rbind (mail_chr m q l NL) (\<lambda>e. Inr (case e of None \<Rightarrow> l | Some i \<Rightarrow> i))"
    have ndE: "nd ?E" by (intro nd_intros) simp_all
    show ?thesis
    proof (cases "l = 0")
      case True
      then show ?thesis unfolding unf Inr x by simp
    next
      case l: False
      show ?thesis
      proof (cases ?E)
        case E: (Inl e)
        then show ?thesis unfolding unf Inr x using l nd_Inl [OF ndE E] by simp
      next
        case E: (Inr llen)
        show ?thesis
        proof (cases "mail_chr m q llen (CHR ''='')")
          case C: (Inl e)
          then show ?thesis unfolding unf Inr x using l E nd_Inl [OF nd_mem(3) C] by simp
        next
          case C: (Inr eqo)
          show ?thesis
          proof (cases eqo)
            case None
            with C E l show ?thesis unfolding unf Inr x by simp
          next
            case (Some eq)
            show ?thesis
            proof (cases "eq = length name \<and> take eq (drop (m_off m + q) (m_base m)) = name")
              case True
              show ?thesis unfolding unf Inr x sum.case prod.case C E Some option.case if_not_P [OF l] if_P [OF True] Let_def
                by (auto intro!: nd_intros)
            next
              case F: False
              note IH = "1.IH" [OF Inr x [symmetric] l E C Some F]
              show ?thesis
              proof (cases "mail_chr m q llen (CHR '';'')")
                case D: (Inl e)
                show ?thesis unfolding unf Inr x sum.case prod.case C E Some option.case if_not_P [OF l] if_not_P [OF F] D
                  by (rule nd_Inl [OF nd_mem(3) D])
              next
                case D: (Inr o')
                show ?thesis unfolding unf Inr x sum.case prod.case C E Some option.case if_not_P [OF l] if_not_P [OF F] D
                  by (cases o') (use IH D in auto)
              qed
            qed
          qed
        qed
      qed
    qed
  qed
qed

lemma nd_attach_type [simp]: "nd (attach_type m p name)"
  by (auto simp: attach_type_def Let_def intro!: nd_intros split: prod.splits)


text \<open>Where a cursor is, and how much of the mail is left behind it.\<close>

definition curs :: "'x mail \<Rightarrow> cursor \<Rightarrow> bool" where
  "curs m c = (case c of (None, _) \<Rightarrow> True | (Some p, len) \<Rightarrow> 0 < len \<and> p + len \<le> msize m)"

definition left :: "'x mail \<Rightarrow> cursor \<Rightarrow> nat" where
  "left m c = (case c of (None, _) \<Rightarrow> 0 | (Some p, _) \<Rightarrow> msize m - p)"

lemma line_next_curs:
  assumes "line_next m (Some p, len) = Inr c" and "0 < len" and "p + len \<le> msize m"
  shows "curs m c \<and> left m c < left m (Some p, len) \<and> (\<forall>q n. c = (Some q, n) \<longrightarrow> q = p + len)"
proof (cases "p + len = msize m")
  case True
  with assms show ?thesis by (auto simp: line_next_def curs_def left_def)
next
  case False
  with assms obtain d where d: "bytes_at m (p + len) (msize m - (p + len)) = Inr d"
    and c: "c = (Some (p + len), case memchr d NL of None \<Rightarrow> msize m - (p + len) | Some i \<Rightarrow> i + 1)"
    by (auto simp: line_next_def Let_def rbind_Inr_iff)
  have "length d \<le> msize m - (p + len)" using d by (auto simp: bytes_at_def mem_read_def split: if_splits)
  with c False assms(2,3) show ?thesis
    by (auto simp: curs_def left_def dest!: memchr_less split: option.splits)
qed

lemma line_until_curs:
  assumes "line_until m stop c = Inr c'" and "curs m c"
  shows "curs m c' \<and> left m c' \<le> left m c \<and>
    (\<forall>p n. c = (Some p, n) \<longrightarrow> (\<forall>q l. c' = (Some q, l) \<longrightarrow> p \<le> q)) \<and> (\<forall>q l. c' = (Some q, l) \<longrightarrow> stop q l = Inr True)"
proof -
  let ?f = "\<lambda>(_ :: unit) p len. rbind (stop p len) (\<lambda>b. Inr (if b then Inl (p, len) else Inr ()))"
  have "r = Inl (q, l) \<Longrightarrow> curs m (Some q, l) \<and> left m (Some q, l) \<le> left m c \<and>
      (\<forall>p n. c = (Some p, n) \<longrightarrow> p \<le> q) \<and> stop q l = Inr True"
    if "line_loop m ?f s c = Inr r" "curs m c" for s r q l
    using that
  proof (induction m ?f s c rule: line_loop.induct)
    case (1 m s len)
    then show ?case by simp
  next
    case (2 m s p len)
    then have cu: "0 < len" "p + len \<le> msize m" by (simp_all add: curs_def)
    from "2.prems"(2) obtain b where b: "stop p len = Inr b" by (cases "stop p len") auto
    show ?case
    proof (cases b)
      case True
      with b "2.prems" show ?thesis by auto
    next
      case False
      with b "2.prems"(2) obtain c' where n: "line_next m (Some p, len) = Inr c'" and lp: "line_loop m ?f s c' = Inr r"
        by (auto split: sum.splits)
      note nx = line_next_curs [OF n cu]
      have st: "?f s p len = Inr (Inr s)" using b False by simp
      from "2.hyps" [OF st refl n "2.prems"(1) lp] nx
      have *: "curs m (Some q, l) \<and> left m (Some q, l) \<le> left m c' \<and> (\<forall>p n. c' = (Some p, n) \<longrightarrow> p \<le> q) \<and> stop q l = Inr True"
        by blast
      then have "left m (Some q, l) \<le> left m (Some p, len)" using nx by simp
      moreover have "p \<le> q" using calculation cu unfolding left_def by simp
      moreover have "curs m (Some q, l)" "stop q l = Inr True" using * by blast+
      ultimately show ?thesis by simp
    qed
  qed
  note L = this
  obtain r where r: "line_loop m ?f () c = Inr r"
    and c': "(case r of Inl (p, len) \<Rightarrow> Inr (Some p, len) | Inr _ \<Rightarrow> Inr (None, 0)) = (Inr c' :: cursor res)"
    using assms(1) unfolding line_until_def rbind_Inr_iff by blast
  show ?thesis
  proof (cases r)
    case (Inl x)
    obtain q l where x: "x = (q, l)" by (cases x)
    from L [OF r assms(2), of q l] Inl x c' show ?thesis by auto
  next
    case (Inr u)
    with c' show ?thesis by (auto simp: curs_def left_def)
  qed
qed


text \<open>A line that starts a content type is no boundary.\<close>

lemma type_line_not_boundary:
  assumes "is_type_line m p len = Inr True" shows "is_boundary m b k p n \<noteq> Inr True"
proof
  assume b: "is_boundary m b k p n = Inr True"
  obtain h where h: "bytes_at m p 13 = Inr h" "strncasecmp_eq h ''content-type:''"
    using assms by (auto simp: is_type_line_def rbind_Inr_iff split: if_splits)
  have "bytes_at m p 1 = Inr ''-''" using b by (auto simp: is_boundary_def rbind_Inr_iff split: if_splits)
  then have "take 1 h = ''-''" using h(1) by (auto simp: bytes_at_def mem_read_def split: if_splits)
  then have "hd h = CHR ''-''" "h \<noteq> []" by (cases h; simp)+
  moreover have "tolower (hd h) = CHR ''c''" using h(2) calculation(2) by (cases h) (auto simp: strncasecmp_eq_def tolower_def isupper_def code_def)
  ultimately show False by (simp add: tolower_def isupper_def code_def)
qed

text \<open>A part (one with a size) starts, has its body and ends in the mail, in this order.\<close>

fun part_in :: "nat \<Rightarrow> attach \<Rightarrow> bool" where
  "part_in n (Attach i d b s t nm cs) \<longleftrightarrow>
     (0 < s \<longrightarrow> d \<le> b \<and> b < d + s \<and> d + s \<le> n) \<and> (\<forall>c \<in> set cs. part_in n c)"

lemma part_in_set_idx [simp]: "part_in n (set_idx i a) = part_in n a"
  by (cases a) (simp add: set_idx_def)

definition get_ok :: "'x mail \<Rightarrow> cursor \<Rightarrow> (attach option \<times> cursor \<times> bool) res \<Rightarrow> bool" where
  "get_ok m c r \<longleftrightarrow> nd r \<and> (\<forall>a c' la. r = Inr (Some a, c', la) \<longrightarrow> curs m c' \<and> left m c' < left m c \<and> part_in (msize m) a)"

definition parts_ok :: "'x mail \<Rightarrow> cursor \<Rightarrow> (attach list option \<times> cursor) res \<Rightarrow> bool" where
  "parts_ok m c r \<longleftrightarrow> nd r \<and> (\<forall>cs c'. r = Inr (Some cs, c') \<longrightarrow> curs m c' \<and> left m c' \<le> left m c \<and> (\<forall>a \<in> set cs. part_in (msize m) a))"

lemma get_ok_rbind:
  assumes "nd r" and "\<And>x. r = Inr x \<Longrightarrow> get_ok m c (f x)" shows "get_ok m c (rbind r f)"
  using assms by (cases r) (auto simp: get_ok_def nd_def)

lemma parts_ok_rbind:
  assumes "nd r" and "\<And>x. r = Inr x \<Longrightarrow> parts_ok m c (f x)" shows "parts_ok m c (rbind r f)"
  using assms by (cases r) (auto simp: parts_ok_def nd_def)

lemma get_ok_None [simp]: "get_ok m c (Inr (None, x))" by (simp add: get_ok_def)
lemma parts_ok_None [simp]: "parts_ok m c (Inr (None, x))" by (simp add: parts_ok_def)

lemma get_leaf_ok:
  assumes c: "c0 = (Some d, l0)" "curs m c0" and c1: "curs m (Some p, l1)" "d \<le> p"
  shows "get_ok m c0 (rbind (line_until m (\<lambda>p len. Inr (len \<le> 1)) (Some p, l1)) (\<lambda>c.
    case c of (None, _) \<Rightarrow> Inr (None, c, la) | (Some bd, _) \<Rightarrow>
      rbind (line_next m c) (\<lambda>c. rbind (line_until m (at_part_end m b) c) (\<lambda>c.
        case c of (None, _) \<Rightarrow> Inr (None, c, la) | (Some e, len) \<Rightarrow>
          rbind (is_end m b e len) (\<lambda>l. Inr (Some (Attach 0 d bd (e - d) (Some ty) name []), c, la \<or> l))))))"
proof (rule get_ok_rbind, goal_cases)
  case 1
  show ?case by (intro nd_intros) simp
next
  case (2 c2)
  note u2 = line_until_curs [OF 2 c1(1)]
  obtain q2 l2 where c2: "c2 = (q2, l2)" by (cases c2)
  show ?case
  proof (cases q2)
    case None
    with c2 show ?thesis by simp
  next
    case (Some bd)
    have bd: "p \<le> bd" "0 < l2" "bd + l2 \<le> msize m" using u2 c2 Some by (auto simp: curs_def)
    show ?thesis unfolding c2 Some prod.case option.case
    proof (rule get_ok_rbind, goal_cases)
      case (2 c3)
      note n3 = line_next_curs [OF 2 bd(2,3)]
      show ?case
      proof (rule get_ok_rbind, goal_cases)
        case 1
        show ?case by (intro nd_intros) simp
      next
        case (2 c4)
        note u4 = line_until_curs [OF 2 conjunct1 [OF n3]]
        obtain q4 l4 where c4: "c4 = (q4, l4)" by (cases c4)
        show ?case
        proof (cases q4)
          case None
          with c4 show ?thesis by simp
        next
          case (Some e)
          then have e: "left m (Some e, l4) < left m (Some bd, l2)" "curs m (Some e, l4)" using u4 n3 c4 by auto
          then have "bd < e" "e + l4 \<le> msize m" "0 < l4" by (auto simp: left_def curs_def)
          then show ?thesis unfolding c4 Some prod.case option.case
            by (intro get_ok_rbind) (use bd c1(2) c e in \<open>auto simp: get_ok_def left_def\<close>)
        qed
      qed
    qed simp
  qed
qed


lemma get_multi_ok:
  assumes IH: "\<And>c. curs m c \<Longrightarrow> left m c < left m c0 \<Longrightarrow> parts_ok m c (attach_parts fuel m b2 False 0 c False)"
    and c1: "curs m (Some p, l1)" "left m (Some p, l1) \<le> left m c0" and ty: "is_type_line m p l1 = Inr True"
  shows "get_ok m c0 (rbind (line_until m (is_boundary m b2 3) (Some p, l1)) (\<lambda>c.
            rbind (attach_parts fuel m b2 False 0 c False) (\<lambda>(cs, c).
            case cs of None \<Rightarrow> Inr (None, c, la) | Some cs \<Rightarrow>
            rbind (line_until m (is_boundary m b2 5) c) (\<lambda>c.
            if fst c = None then Inr (None, c, la)
            else rbind (line_next m c) (\<lambda>c.
              Inr (Some (Attach 0 d 0 0 (Some ty2) name cs), c, la))))))"
proof (rule get_ok_rbind, goal_cases)
  case 1
  show ?case by (intro nd_intros) simp
next
  case (2 c2)
  note u2 = line_until_curs [OF 2 c1(1)]
  have lt: "left m c2 < left m c0"
  proof (cases c2)
    case (Pair q l)
    show ?thesis
    proof (cases q)
      case None
      with Pair c1 show ?thesis by (auto simp: left_def curs_def)
    next
      case (Some q')
      have "is_boundary m b2 3 q' l = Inr True" "p \<le> q'" "curs m (Some q', l)" using u2 Pair Some by auto
      moreover have "q' \<noteq> p" using calculation(1) type_line_not_boundary [OF ty] by blast
      ultimately have "left m c2 < left m (Some p, l1)" using Pair Some by (auto simp: left_def curs_def)
      with c1(2) show ?thesis by simp
    qed
  qed
  note P = IH [OF conjunct1 [OF u2] lt]
  show ?case
  proof (rule get_ok_rbind, goal_cases)
    case 1
    show ?case using P by (simp add: parts_ok_def)
  next
    case (2 x)
    obtain cs c3 where x: "x = (cs, c3)" by (cases x)
    show ?case
    proof (cases cs)
      case None
      with x show ?thesis by simp
    next
      case (Some cs')
      have c3: "curs m c3" "left m c3 \<le> left m c2" "\<forall>a \<in> set cs'. part_in (msize m) a"
        using P unfolding parts_ok_def 2 x Some by blast+
      show ?thesis unfolding x Some prod.case option.case
      proof (rule get_ok_rbind, goal_cases)
        case 1
        show ?case by (intro nd_intros) simp
      next
        case (2 c4)
        note u4 = line_until_curs [OF 2 c3(1)]
        obtain q4 l4 where c4: "c4 = (q4, l4)" by (cases c4)
        show ?case
        proof (cases q4)
          case None
          with c4 show ?thesis by simp
        next
          case (Some e)
          then have e: "0 < l4" "e + l4 \<le> msize m" using u4 c4 by (auto simp: curs_def)
          have F: "(fst (Some e, l4) = None) = False" by simp
          show ?thesis unfolding c4 Some F if_False
          proof (rule get_ok_rbind, goal_cases)
            case (2 c5)
            note n5 = line_next_curs [OF 2 e]
            have "left m c5 < left m c0" using n5 u4 c3(2) lt c4 Some by simp
            with n5 c3(3) show ?case by (cases c5) (simp add: get_ok_def)
          qed simp
        qed
      qed
    qed
  qed
qed

lemma attach_get_ok_step:
  assumes IH: "\<And>b2 c. curs m c \<Longrightarrow> left m c < left m c0 \<Longrightarrow> parts_ok m c (attach_parts fuel m b2 False 0 c False)"
    and c0: "curs m c0"
  shows "get_ok m c0 (attach_get (Suc fuel) m b c0 la)"
proof (cases c0)
  case (Pair q l0)
  show ?thesis
  proof (cases q)
    case None
    with Pair show ?thesis by simp
  next
    case (Some d)
    have cd: "c0 = (Some d, l0)" using Pair Some by simp
    have unf: "attach_get (Suc fuel) m b c0 la = rbind (line_until m (is_type_line m) c0) (\<lambda>c.
      case c of (None, _) \<Rightarrow> Inr (None, c, la) | (Some p, _) \<Rightarrow>
      rbind (attach_type m p ''name'') (\<lambda>ty.
      case ty of None \<Rightarrow> Inr (None, c, la) | Some (ty, name) \<Rightarrow>
        if \<not> is_multipart ty then
          rbind (line_until m (\<lambda>p len. Inr (len \<le> 1)) c) (\<lambda>c.
          case c of (None, _) \<Rightarrow> Inr (None, c, la) | (Some bd, _) \<Rightarrow>
          rbind (line_next m c) (\<lambda>c.
          rbind (line_until m (at_part_end m b) c) (\<lambda>c.
          case c of (None, _) \<Rightarrow> Inr (None, c, la) | (Some e, len) \<Rightarrow>
          rbind (is_end m b e len) (\<lambda>l.
            Inr (Some (Attach 0 d bd (e - d) (Some ty) name []), c, la \<or> l)))))
        else
          rbind (attach_type m p ''boundary'') (\<lambda>r.
          case r of Some (ty2, Some b2) \<Rightarrow>
            rbind (line_until m (is_boundary m b2 3) c) (\<lambda>c.
            rbind (attach_parts fuel m b2 False 0 c False) (\<lambda>(cs, c).
            case cs of None \<Rightarrow> Inr (None, c, la) | Some cs \<Rightarrow>
            rbind (line_until m (is_boundary m b2 5) c) (\<lambda>c.
            if fst c = None then Inr (None, c, la)
            else rbind (line_next m c) (\<lambda>c.
              Inr (Some (Attach 0 d 0 0 (Some ty2) name cs), c, la)))))
          | _ \<Rightarrow> Inr (None, c, la))))"
      using cd by simp
    show ?thesis unfolding unf
    proof (rule get_ok_rbind, goal_cases)
      case 1
      show ?case by (intro nd_intros) simp
    next
      case (2 c1)
      note u1 = line_until_curs [OF 2 c0]
      obtain q1 l1 where c1: "c1 = (q1, l1)" by (cases c1)
      show ?case
      proof (cases q1)
        case None
        with c1 show ?thesis by simp
      next
        case (Some p)
        have f: "curs m (Some p, l1)" "d \<le> p" "left m (Some p, l1) \<le> left m c0" "is_type_line m p l1 = Inr True"
          using u1 c1 Some cd by auto
        show ?thesis unfolding c1 Some prod.case option.case
        proof (rule get_ok_rbind, goal_cases)
          case (2 ty)
          show ?case
            using get_leaf_ok [OF cd c0 f(1,2)] get_multi_ok [OF IH f(1,3,4)]
            by (cases ty) (auto intro!: get_ok_rbind split: option.splits)
        qed simp
      qed
    qed
  qed
qed

lemma attach_build_fuel:
  "(curs m c \<longrightarrow> 2 * left m c < fuel \<longrightarrow> get_ok m c (attach_get fuel m b c la)) \<and>
   (curs m c \<longrightarrow> 2 * left m c + 1 < fuel \<longrightarrow> parts_ok m c (attach_parts fuel m b outer n c la))"
proof (induction fuel arbitrary: b c la outer n)
  case 0
  then show ?case by simp
next
  case (Suc fuel)
  have G: "get_ok m c (attach_get (Suc fuel) m b c la)" if c: "curs m c" and lt: "2 * left m c < Suc fuel" for b c la
  proof (rule attach_get_ok_step [OF _ c])
    fix b2 c' assume "curs m c'" "left m c' < left m c"
    with lt Suc.IH [of c' b2 False False 0] show "parts_ok m c' (attach_parts fuel m b2 False 0 c' False)" by simp
  qed
  have P: "parts_ok m c (attach_parts (Suc fuel) m b outer n c la)" if c: "curs m c" and lt: "2 * left m c + 1 < Suc fuel"
  proof (cases c)
    case (Pair q l)
    show ?thesis
    proof (cases "q = None \<or> la")
      case True
      with Pair c show ?thesis by (auto simp: parts_ok_def split: option.splits)
    next
      case False
      then obtain p where q: "q = Some p" "\<not> la" by auto
      have g: "get_ok m c (attach_get fuel m b c la)" using Suc.IH [of c b la] c lt by simp
      have nb: "nd (if outer then is_boundary m b 5 p l else Inr False)" by simp
      have unf: "attach_parts (Suc fuel) m b outer n c la = rbind (if outer then is_boundary m b 5 p l else Inr False) (\<lambda>stop.
        if stop then Inr (Some [], c)
        else rbind (attach_get fuel m b c la) (\<lambda>(at, c, la).
          case at of None \<Rightarrow> Inr (None, c)
          | Some at \<Rightarrow> rbind (attach_parts fuel m b outer (n + 1) c la) (\<lambda>(cs, c).
                Inr (map_option (\<lambda>cs. set_idx n at # cs) cs, c))))"
        unfolding Pair q(1) attach_parts.simps by (simp add: q(2))
      show ?thesis unfolding unf
      proof (rule parts_ok_rbind [OF nb], goal_cases)
        case (1 stop)
        show ?case
        proof (cases stop)
          case True
          then show ?thesis using c Pair q by (simp add: parts_ok_def)
        next
          case False
          have "parts_ok m c (rbind (attach_get fuel m b c la) (\<lambda>(at, c, la).
              case at of None \<Rightarrow> Inr (None, c) | Some at \<Rightarrow>
                rbind (attach_parts fuel m b outer (n + 1) c la) (\<lambda>(cs, c). Inr (map_option (\<lambda>cs. set_idx n at # cs) cs, c))))"
          proof (rule parts_ok_rbind, goal_cases)
            case 1
            show ?case using g by (simp add: get_ok_def)
          next
            case (2 x)
            obtain at c' la' where x: "x = (at, c', la')" by (cases x)
            show ?case
            proof (cases at)
              case None
              with x show ?thesis by simp
            next
              case (Some a)
              have c': "curs m c'" "left m c' < left m c" "part_in (msize m) a" using g unfolding get_ok_def 2 x Some by blast+
              then have "parts_ok m c' (attach_parts fuel m b outer (n + 1) c' la')"
                using Suc.IH [of c' b la' outer "n + 1"] lt by simp
              then show ?thesis using c' unfolding x Some prod.case option.case
                by (cases "attach_parts fuel m b outer (n + 1) c' la'") (auto simp: parts_ok_def nd_def)
            qed
          qed
          with False show ?thesis by simp
        qed
      qed
    qed
  qed
  from G P show ?case by blast
qed

lemma nd_find_header: "nd (find_header m hdr False)"
  unfolding find_header_def Let_def on_lines_def loop_result_def
  by (auto intro!: nd_intros nd_line_loop split: option.splits sum.splits)

lemma line_init_curs:
  assumes "mail_ok m" and "0 < msize m" and "line_init m = Inr c" shows "curs m c \<and> left m c \<le> msize m"
proof -
  have "content m \<noteq> []" using assms(1,2) length_content by fastforce
  then have "0 < line_len (content m)" "line_len (content m) \<le> msize m"
    using line_len_pos line_len_le [of "content m"] assms(1) by auto
  moreover have "c = (Some 0, line_len (content m))" using assms(3) line_init_ok [OF assms(1)] by simp
  ultimately show ?thesis by (simp add: curs_def left_def)
qed

section \<open>Properties\<close>

text \<open>C19: the walk visits every part of a mail whose multiparts are nested at most once, in order: the
  root, then each child followed by its own children.\<close>

theorem attach_walk_complete:
  assumes lv: "\<forall>c \<in> set (a_children t). \<forall>g \<in> set (a_children c). a_children g = []" and f: "attach_nodes t \<le> fuel"
  shows "attach_walk fuel t (Some []) n = preorder t []"
proof -
  obtain f' where fuel: "fuel = Suc (sum_list (map attach_nodes (a_children t)) + f')"
    using f attach_nodes_unfold [of t] by (metis add_Suc le_add_diff_inverse)
  show ?thesis
  proof (cases "a_children t = []")
    case True
    then show ?thesis using fuel by (simp add: attach_visit_def next_sibling_def preorder_unfold)
  next
    case False
    then have "attach_visit t (Some []) n = (Some [0], n + 1)" by (simp add: attach_visit_def)
    with attach_walk_children [OF lv, of 0 f' "n + 1"] False fuel show ?thesis by (simp add: preorder_unfold)
  qed
qed

lemma attach_walk_complete_witness:
  "let leaf = Attach 0 1 2 3 None None []; t = Attach 0 0 0 0 None None [leaf, Attach 1 0 0 0 None None [leaf, leaf], leaf]
   in attach_walk 6 t (Some []) 0 = [[], [0], [1], [0, 1], [1, 1], [2]]"
  by (simp only: Let_def, subst attach_walk_complete) simp_all

text \<open>deeper parts end the walk. From the last leaf of a node the source climbs one level only; when
  that node is itself a last child, the walk stops there and the rest of the tree is not visited: here the
  siblings \<open>s\<close> of the outer multipart.\<close>

theorem attach_walk_stops:
  assumes t: "a_children t = c # s" and c: "a_children c = [d]" and d: "a_children d \<noteq> []"
    and lv: "\<forall>e \<in> set (a_children d). a_children e = []"
  shows "attach_walk (3 + length (a_children d) + f) t (Some []) n =
    [] # [0] # [0, 0] # map (\<lambda>j. [j, 0, 0]) [0..<length (a_children d)]"
proof -
  have p: "at_path t [0] = Some c" "at_path t [0, 0] = Some d" using t c by simp_all
  have v1: "attach_visit t (Some []) n = (Some [0], n + 1)" using t by (simp add: attach_visit_def)
  have v2: "attach_visit t (Some [0]) (n + 1) = (Some [0, 0], n + 1 + 1)" using p c by (simp add: attach_visit_def)
  have v3: "attach_visit t (Some [0, 0]) (n + 1 + 1) = (Some [0, 0, 0], n + 1 + 1 + 1)" using p d by (simp add: attach_visit_def)
  have nx: "next_sibling t [0, 0] = None" using p(1) c by (simp add: next_sibling_def)
  have len: "0 + length (a_children d) = length (a_children d)" "0 < length (a_children d)" using d by simp_all
  have "attach_walk (3 + length (a_children d) + f) t (Some []) n =
      [] # [0] # [0, 0] # attach_walk (length (a_children d) + f) t (Some [0, 0, 0]) (n + 1 + 1 + 1)"
    using v1 v2 v3 by (simp add: numeral_3_eq_3)
  also have "\<dots> = [] # [0] # [0, 0] # map (\<lambda>j. [j, 0, 0]) [0..<length (a_children d)]"
    using attach_walk_leaves [OF p(2) lv len, of f "n + 1 + 1 + 1"] nx by simp
  finally show ?thesis .
qed

lemma attach_walk_stops_witness:
  "let leaf = Attach 0 1 2 3 None None [];
       t = Attach 0 0 0 0 None None [Attach 0 0 0 0 None None [Attach 0 0 0 0 None None [leaf]], leaf]
   in attach_walk 9 t (Some []) 0 = [[], [0], [0, 0], [0, 0, 0]]"
proof -
  define leaf where "leaf = Attach 0 1 2 3 None None []"
  define t where "t = Attach 0 0 0 0 None None [Attach 0 0 0 0 None None [Attach 0 0 0 0 None None [leaf]], leaf]"
  have "attach_walk (3 + length (a_children (Attach 0 0 0 0 None None [leaf])) + 5) t (Some []) 0 =
      [] # [0] # [0, 0] # map (\<lambda>j. [j, 0, 0]) [0..<length (a_children (Attach 0 0 0 0 None None [leaf]))]"
    by (rule attach_walk_stops [of t "Attach 0 0 0 0 None None [Attach 0 0 0 0 None None [leaf]]" "[leaf]"])
      (simp_all add: t_def leaf_def)
  then show ?thesis by (simp add: t_def leaf_def)
qed

lemma attach_root_ok:
  assumes ok: "mail_ok m" and pos: "0 < msize m"
  shows "nd (attach_root m ty b)" and "attach_root m ty b = Inr (Some t) \<Longrightarrow> part_in (msize m) t"
proof -
  have P: "parts_ok m c (attach_parts (attach_fuel m) m b True 0 c False)" if "curs m c" "left m c \<le> msize m" for c
    using attach_build_fuel [of m c "attach_fuel m" b False True 0] that by (simp add: attach_fuel_def)
  have C: "curs m c' \<and> left m c' \<le> msize m"
    if "line_init m = Inr c" "line_until m (is_boundary m b 3) c = Inr c'" for c c'
    using line_init_curs [OF ok pos that(1)] line_until_curs [OF that(2)] by fastforce
  show "nd (attach_root m ty b)" unfolding attach_root_def
  proof (intro nd_intros, goal_cases)
    case (3 c c')
    then have "nd (attach_parts (attach_fuel m) m b True 0 c' False)"
      using P C unfolding parts_ok_def by blast
    then show ?case by (auto intro!: nd_intros split: option.splits prod.splits)
  qed simp_all
  assume "attach_root m ty b = Inr (Some t)"
  then obtain c c' where 1: "line_init m = Inr c" "line_until m (is_boundary m b 3) c = Inr c'"
    and e2: "(if fst c' = None then Inr None
      else rbind (attach_parts (attach_fuel m) m b True 0 c' False) (\<lambda>(cs, c).
       case cs of None \<Rightarrow> Inr None
       | Some cs \<Rightarrow> if fst c = None then Inr None else Inr (Some (Attach 0 0 0 0 (Some ty) None cs)))) = Inr (Some t)"
    unfolding attach_root_def rbind_Inr_iff by blast
  then obtain cs d where 2: "attach_parts (attach_fuel m) m b True 0 c' False = Inr (Some cs, d)"
    and t: "t = Attach 0 0 0 0 (Some ty) None cs"
    by (auto simp: rbind_Inr_iff split: if_splits option.splits)
  then have "\<forall>a \<in> set cs. part_in (msize m) a" using P C [OF 1] unfolding parts_ok_def by blast
  with t show "part_in (msize m) t" by simp
qed

text \<open>A mail with one part.\<close>

definition multi_text :: "char list" where
  "multi_text = ''Content-Type: multipart/m; boundary=b'' @ [NL, NL] @ ''--b'' @ [NL] @ ''Content-Type: t/p; name=n'' @ [NL, NL] @
     ''x'' @ [NL] @ ''--b--'' @ [NL]"

definition multi_mail :: "unit mail" where
  "multi_mail = sample_mail\<lparr>m_base := multi_text @ [NUL], m_off := 0, msize := length multi_text, m_space := length multi_text + 1, m_body := 39\<rparr>"

lemma multi_mail_ok: "mail_ok multi_mail"
  by (simp add: multi_mail_def mail_ok_def sample_mail_def multi_text_def)

lemma multi_mail_get:
  "attach_get (Suc n) multi_mail ''b'' (Some 39, 4) False = Inr (Some (Attach 0 39 69 33 (Some ''t/p'') (Some ''n'') []), (Some 72, 6), True)"
proof -
  have "line_until multi_mail (is_type_line multi_mail) (Some 39, 4) = Inr (Some 43, 26)"
    "attach_type multi_mail 43 ''name'' = Inr (Some (''t/p'', Some ''n''))" "is_multipart ''t/p'' = False"
    "line_until multi_mail (\<lambda>p len. Inr (len \<le> 1)) (Some 43, 26) = Inr (Some 69, 1)"
    "line_next multi_mail (Some 69, 1) = Inr (Some 70, 2)"
    "line_until multi_mail (at_part_end multi_mail ''b'') (Some 70, 2) = Inr (Some 72, 6)"
    "is_end multi_mail ''b'' 72 6 = Inr True" by code_simp+
  then show ?thesis by simp
qed

lemma multi_mail_parts:
  "attach_build multi_mail = Inr (Some (Attach 0 0 0 0 (Some ''multipart/m'') None [Attach 0 39 69 33 (Some ''t/p'') (Some ''n'') []]))"
proof -
  have 1: "find_header multi_mail ''content-type'' False = Inr (Some (0, 38))"
    "attach_type multi_mail 0 ''boundary'' = Inr (Some (''multipart/m'', Some ''b''))" "is_multipart ''multipart/m'' = True"
    "line_init multi_mail = Inr (Some 0, 38)" "line_until multi_mail (is_boundary multi_mail ''b'' 3) (Some 0, 38) = Inr (Some 39, 4)" by code_simp+
  have 2: "is_boundary multi_mail ''b'' 5 39 4 = Inr False"
    by (simp add: is_boundary_def bytes_at_def mem_read_def multi_mail_def multi_text_def size_sub_def SIZE_MAX_def)
  have stop: "attach_parts (Suc n) m b os k (Some q, l) True = Inr (Some [], Some q, l)" for n m b os k q l by simp
  have parts: "attach_parts (Suc (Suc n)) multi_mail ''b'' True 0 (Some 39, 4) False =
      Inr (Some [Attach 0 39 69 33 (Some ''t/p'') (Some ''n'') []], Some 72, 6)" for n
    by (subst attach_parts.simps(2)) (simp add: 1 2 multi_mail_get stop set_idx_def del: attach_parts.simps attach_get.simps)
  have "attach_fuel multi_mail = Suc (Suc (2 * msize multi_mail + 2))" by (simp add: attach_fuel_def)
  with 1 parts show ?thesis by (simp add: attach_build_def attach_root_def del: attach_parts.simps attach_get.simps)
qed

text \<open>C18: building the attachment tree of a mail always ends - the fuel, twice the size of the mail,
  is enough, since every part and every nesting uses up a line - and every part of the tree starts, has its
  body and ends inside the mail.\<close>

theorem attach_build_ends:
  assumes ok: "mail_ok m"
  shows "attach_build m \<noteq> Inl (Diverges w) \<and> (attach_build m = Inr (Some t) \<longrightarrow> part_in (msize m) t)"
proof (cases "find_header m ''content-type'' False")
  case (Inl e)
  then show ?thesis using nd_Inl [OF nd_find_header Inl] by (simp add: attach_build_def nd_def)
next
  case (Inr h)
  show ?thesis
  proof (cases h)
    case None
    with Inr show ?thesis by (simp add: attach_build_def)
  next
    case (Some x)
    obtain p len where x: "x = (p, len)" by (cases x)
    have pos: "0 < msize m" using Inr Some by (auto simp: find_header_def Let_def split: if_splits)
    note R = attach_root_ok [OF ok pos]
    show ?thesis
    proof (cases "attach_type m p ''boundary''")
      case A: (Inl e)
      show ?thesis using nd_Inl [OF nd_attach_type A] Inr Some x A by (simp add: attach_build_def nd_def)
    next
      case A: (Inr r)
      show ?thesis using R Inr Some x A by (auto simp: attach_build_def nd_def split: option.splits)
    qed
  qed
qed

lemma attach_build_ends_witness:
  "attach_build multi_mail \<noteq> Inl (Diverges ''attach_get'') \<and>
   (\<exists>t. attach_build multi_mail = Inr (Some t) \<and> map a_name (a_children t) = [Some ''n''] \<and> part_in (msize multi_mail) t)"
  using attach_build_ends [OF multi_mail_ok, of "''attach_get''"
      "Attach 0 0 0 0 (Some ''multipart/m'') None [Attach 0 39 69 33 (Some ''t/p'') (Some ''n'') []]"] multi_mail_parts by auto

end
