(* ===== verification/Replace.thy ===== *)
theory Replace imports Mail_Text begin

text \<open>
  Tags and their replacement (\<^verbatim>\<open>replace.c\<close>, with \<open>expand_path\<close> of \<^verbatim>\<open>parse-fn.c\<close>): the tags a mail
  gets, and the expansion of \<open>%\<close> sequences into a growing block. The configuration's \<open>strip_chars\<close> and the
  answers of \<open>getpwnam\<close>, \<open>localtime\<close> and \<open>strftime\<close> are parameters.
\<close>

section \<open>Tags\<close>

definition ALIAS_IDX :: "char \<Rightarrow> nat option" where
  "ALIAS_IDX ch = (if islower ch then Some (code ch - 97) else if isupper ch then Some (26 + (code ch - 65)) else None)"

definition aliases :: "char list option list" where
  "aliases = [Some ''account'', None, None, Some ''day'', None, None, None, Some ''home'', None, None, None, None,
     Some ''month'', Some ''uid'', None, None, None, None, Some ''source'', Some ''action'', Some ''user'',
     None, None, None, Some ''year'', None,
     None, None, None, None, None, None, None, Some ''hour'', None, None, None, None, Some ''minute'', None, None,
     None, Some ''quarter'', None, Some ''second'', None, None, None, Some ''dayofweek'', None, Some ''dayofyear'', None]"

definition add_tag :: "strb \<Rightarrow> char list \<Rightarrow> char list \<Rightarrow> strb res" where
  "add_tag tags key val = strb_vadd tags key val"

definition find_tag :: "strb \<Rightarrow> char list \<Rightarrow> char list option res" where
  "find_tag tags key = rbind (strb_find tags key) (\<lambda>r. case r of
     None \<Rightarrow> Inr None | Some sbe \<Rightarrow> rbind (STRB_VALUE tags sbe) (\<lambda>v. Inr (Some v)))"

definition match_tag :: "(char list \<Rightarrow> char list \<Rightarrow> bool) \<Rightarrow> strb \<Rightarrow> char list \<Rightarrow> char list option res" where
  "match_tag fnmatch tags pattern = rbind (strb_match fnmatch tags pattern) (\<lambda>r. case r of
     None \<Rightarrow> Inr None | Some sbe \<Rightarrow> rbind (STRB_VALUE tags sbe) (\<lambda>v. Inr (Some v)))"

record tm =
  tm_sec :: nat
  tm_min :: nat
  tm_hour :: nat
  tm_mday :: nat
  tm_mon :: nat
  tm_year :: int
  tm_wday :: nat
  tm_yday :: nat

text \<open>\<open>%.2d\<close> and the like: at least that many digits.\<close>

definition pad_int :: "nat \<Rightarrow> int \<Rightarrow> char list" where
  "pad_int w n = (let ds = show_nat (nat \<bar>n\<bar>) in
     (if n < 0 then ''-'' else []) @ replicate (w - length ds) (CHR ''0'') @ ds)"

definition c_mod :: "int \<Rightarrow> int \<Rightarrow> int" where "c_mod a b = sgn a * (\<bar>a\<bar> mod \<bar>b\<bar>)"

definition default_tags ::
    "char list option \<Rightarrow> tm option \<Rightarrow> char list option \<Rightarrow> strb \<Rightarrow> char list option \<Rightarrow> strb res" where
  "default_tags host_name localtime rfc822 tags src =
     add_all add_tag (strb_clear tags)
       ((case src of None \<Rightarrow> [] | Some s \<Rightarrow> [(''source'', s)]) @
        (case host_name of None \<Rightarrow> [] | Some h \<Rightarrow> [(''hostname'', h)]) @
        (case localtime of None \<Rightarrow> [] | Some tm \<Rightarrow>
          [(''hour'', pad_int 2 (int (tm_hour tm))), (''minute'', pad_int 2 (int (tm_min tm))),
           (''second'', pad_int 2 (int (tm_sec tm))), (''day'', pad_int 2 (int (tm_mday tm))),
           (''month'', pad_int 2 (int (tm_mon tm) + 1)), (''year'', pad_int 4 (1900 + tm_year tm)),
           (''year2'', pad_int 2 (c_mod (tm_year tm) 100)), (''dayofweek'', pad_int 1 (int (tm_wday tm))),
           (''dayofyear'', pad_int 2 (int (tm_yday tm) + 1)), (''quarter'', pad_int 1 (int (tm_mon tm div 3 + 1)))]) @
        (case rfc822 of None \<Rightarrow> [] | Some d \<Rightarrow> [(''rfc822date'', d)]))"

record userdata =
  ud_name :: "char list"
  ud_home :: "char list"
  ud_uid :: nat
  ud_gid :: nat

definition update_tags :: "strb \<Rightarrow> userdata \<Rightarrow> strb res" where
  "update_tags tags ud = add_all add_tag tags
     [(''user'', ud_name ud), (''home'', ud_home ud), (''uid'', show_nat (ud_uid ud)), (''gid'', show_nat (ud_gid ud))]"

definition reset_tags :: "strb \<Rightarrow> strb res" where
  "reset_tags tags = add_all add_tag tags [(''user'', []), (''home'', []), (''uid'', []), (''gid'', [])]"

section \<open>Replacement\<close>

definition submatch :: "char \<Rightarrow> 'x mail option \<Rightarrow> rmlist option \<Rightarrow> char list option res" where
  "submatch ch m rml = (case (rml, m) of
     (Some l, Some m) \<Rightarrow>
       if \<not> rml_valid l then Inr None
       else let i = code ch - 48 in
         if length (rml_list l) \<le> i then Inl (MemErr ''rml'')
         else let rm = rml_list l ! i in
           if \<not> rm_valid rm then Inr None
           else rbind (bytes_at m (rm_so rm) (size_sub (rm_eo rm) (rm_so rm))) (\<lambda>v. Inr (Some v))
   | _ \<Rightarrow> Inr None)"

text \<open>The output block: its bytes, its length and the offset written to.\<close>

type_synonym out = "char list \<times> size_t \<times> size_t"

definition put_out :: "out \<Rightarrow> nat \<Rightarrow> char list \<Rightarrow> out res" where
  "put_out o' need s = (case o' of (dst, len, off) \<Rightarrow>
     rbind (ensure_for dst len off (word_of_nat need)) (\<lambda>(dst, len).
     rbind (mem_write dst (unat off) s) (\<lambda>dst. Inr (dst, len, off + word_of_nat (length s)))))"

text \<open>
  A sequence: what follows the \<open>%\<close> is taken apart into the text it stands for (\<open>None\<close>: nothing is
  written and nothing more is done), the new value of \<open>strip\<close> and the rest. The end of the string is
  \<open>SeqEnd\<close>; text written as it is \<open>SeqText\<close>.
\<close>

datatype seq = SeqEnd | SeqText "char list" "char list" | SeqValue "char list option" bool "char list"

definition sequence ::
    "strb \<Rightarrow> 'x mail option \<Rightarrow> rmlist option \<Rightarrow> bool \<Rightarrow> char list \<Rightarrow> seq res" where
  "sequence tags m rml strip s = (case s of
     [] \<Rightarrow> Inr SeqEnd
   | ch # cs \<Rightarrow>
      if ch = CHR ''%'' then Inr (SeqText ''%'' cs)
      else if ch = CHR ''['' then
        (case memchr cs (CHR '']'') of
           None \<Rightarrow> Inr (SeqText ''%['' cs)
         | Some tend \<Rightarrow>
             let colon = (hd cs = CHR '':'');
                 strip = (if colon then False else strip);
                 name = (if colon then take (tend - 1) (tl cs) else take tend cs)
             in if name = [] then Inr (SeqValue None strip (drop (tend + 1) cs))
                else rbind (find_tag tags name) (\<lambda>v. Inr (SeqValue v strip (drop (tend + 1) cs))))
      else if ch = CHR '':'' then
        (case cs of
           [] \<Rightarrow> Inl (MemErr ''replace'')
         | d # cs \<Rightarrow>
             if isdigit d then
               rbind (submatch d m rml) (\<lambda>v. Inr (SeqValue v (if v = None then strip else False) cs))
             else Inr (SeqText [d] cs))
      else if isdigit ch then rbind (submatch ch m rml) (\<lambda>v. Inr (SeqValue v strip cs))
      else
        (case ALIAS_IDX ch of
           None \<Rightarrow> Inr (SeqValue None strip cs)
         | Some i \<Rightarrow>
             (case aliases ! i of
                None \<Rightarrow> Inr (SeqValue None strip cs)
              | Some alias \<Rightarrow> rbind (find_tag tags alias) (\<lambda>v. Inr (SeqValue v strip cs)))))"

definition seq_rest :: "seq \<Rightarrow> char list" where
  "seq_rest q = (case q of SeqEnd \<Rightarrow> [] | SeqText t r \<Rightarrow> r | SeqValue v s r \<Rightarrow> r)"

lemma sequence_shorter: "sequence tags m rml strip s = Inr q \<Longrightarrow> length (seq_rest q) \<le> length s"
  by (auto simp: sequence_def seq_rest_def Let_def rbind_Inr_iff split: list.splits option.splits if_splits)

text \<open>\<open>strchr (strip_chars, c)\<close> also finds the terminating NUL.\<close>

definition stripped :: "char list \<Rightarrow> bool \<Rightarrow> char list \<Rightarrow> char list" where
  "stripped chars strip v = (if strip then filter (\<lambda>c. c \<notin> set chars \<and> c \<noteq> NUL) v else v)"

function replace_loop ::
    "char list \<Rightarrow> strb \<Rightarrow> 'x mail option \<Rightarrow> rmlist option \<Rightarrow> bool \<Rightarrow> out \<Rightarrow> char list \<Rightarrow> out res" where
  "replace_loop chars tags m rml strip o' [] = Inr o'"
| "replace_loop chars tags m rml strip o' (c # cs) =
     (if c \<noteq> CHR ''%'' then
        (case put_out o' 1 [c] of Inl e \<Rightarrow> Inl e | Inr o' \<Rightarrow> replace_loop chars tags m rml strip o' cs)
      else
        (case sequence tags m rml strip cs of
           Inl e \<Rightarrow> Inl e
         | Inr q \<Rightarrow>
            (case q of
               SeqEnd \<Rightarrow> Inr o'
             | SeqText t rest \<Rightarrow>
                 (case put_out o' (length t) t of
                    Inl e \<Rightarrow> Inl e | Inr o' \<Rightarrow> replace_loop chars tags m rml strip o' (seq_rest q))
             | SeqValue v strip' rest \<Rightarrow>
                 (case v of
                    None \<Rightarrow> replace_loop chars tags m rml strip' o' (seq_rest q)
                  | Some v \<Rightarrow>
                      if v = [] then replace_loop chars tags m rml strip' o' (seq_rest q)
                      else (case put_out o' (length v) (stripped chars strip' v) of
                              Inl e \<Rightarrow> Inl e
                            | Inr o' \<Rightarrow> replace_loop chars tags m rml strip' o' (seq_rest q))))))"
  by pat_completeness auto
termination
  by (relation "measure (\<lambda>(_, _, _, _, _, _, s). length s)")
    (auto dest: sequence_shorter)

definition REPLBUFSIZE :: size_t where "REPLBUFSIZE = 64"

definition replace ::
    "char list \<Rightarrow> char list option \<Rightarrow> strb \<Rightarrow> 'x mail option \<Rightarrow> rmlist option \<Rightarrow> char list option res" where
  "replace chars src tags m rml = (case src of
     None \<Rightarrow> Inr None
   | Some [] \<Rightarrow> Inr (Some [])
   | Some s \<Rightarrow>
       rbind (xmalloc REPLBUFSIZE) (\<lambda>dst.
       rbind (replace_loop chars tags m rml True (dst, REPLBUFSIZE, 0) s) (\<lambda>o'.
       rbind (put_out o' 1 [NUL]) (\<lambda>(dst, _, _). rbind (read_cstr dst 0) (\<lambda>r. Inr (Some r))))))"

section \<open>Paths\<close>

text \<open>
  \<open>~\<close> at the start of a path. With \<open>~user/\<close> the source ends the string at the slash to look the user
  up and does not put it back: the second result is the path as the caller finds it afterwards.
\<close>

definition expand_path ::
    "(char list \<Rightarrow> char list option) \<Rightarrow> char list \<Rightarrow> char list \<Rightarrow> char list option \<times> char list" where
  "expand_path getpwdir path home =
     (let src = dropWhile isspace path in
      case src of
        c # rest \<Rightarrow>
          if c \<noteq> CHR ''~'' then (None, path)
          else if rest = [] then (Some home, path)
          else if hd rest = CHR ''/'' then (Some (home @ ''/'' @ tl rest), path)
          else
            (let user = takeWhile (\<lambda>c. c \<noteq> CHR ''/'') rest;
                 tail = dropWhile (\<lambda>c. c \<noteq> CHR ''/'') rest;
                 path = take (length path - length tail) path
             in case getpwdir user of
                  None \<Rightarrow> (None, path)
                | Some dir \<Rightarrow>
                    if dir = [] then (None, path)
                    else (Some (if tail = [] then dir else dir @ ''/'' @ tl tail), path))
      | [] \<Rightarrow> (None, path))"

definition replacestr ::
    "char list \<Rightarrow> char list option \<Rightarrow> strb \<Rightarrow> 'x mail option \<Rightarrow> rmlist option \<Rightarrow> char list option res" where
  "replacestr chars rs tags m rml = replace chars rs tags m rml"

definition replacepath ::
    "char list \<Rightarrow> (char list \<Rightarrow> char list option) \<Rightarrow> char list \<Rightarrow> strb \<Rightarrow> 'x mail option \<Rightarrow> rmlist option \<Rightarrow> char list \<Rightarrow> char list res" where
  "replacepath chars getpwdir rp tags m rml home =
     rbind (replace chars (Some rp) tags m rml) (\<lambda>s. case s of
       None \<Rightarrow> Inl (MemErr ''replacepath'')
     | Some s \<Rightarrow> (case expand_path getpwdir s home of (Some t, _) \<Rightarrow> Inr t | (None, s) \<Rightarrow> Inr s))"

section \<open>The output block always has room\<close>

definition out_ok :: "out \<Rightarrow> char list \<Rightarrow> bool" where
  "out_ok o' s = (case o' of (dst, len, off) \<Rightarrow>
     length dst = unat len \<and> 0 < unat len \<and> unat off = length s \<and> length s \<le> unat len \<and> take (length s) dst = s)"

lemma put_out_ok:
  assumes ok: "out_ok o' s" and t: "length t \<le> n" and n: "0 < n" and small: "length s + n < 2 ^ 63"
  shows "\<exists>o''. put_out o' n t = Inr o'' \<and> out_ok o'' (s @ t)"
proof -
  obtain dst len off where o': "o' = (dst, len, off)" by (cases o')
  have k: "length dst = unat len" "0 < unat len" "unat off = length s" "length s \<le> unat len" "take (length s) dst = s"
    using ok o' by (simp_all add: out_ok_def)
  have un: "unat (word_of_nat n :: size_t) = n" "unat (word_of_nat (length t) :: size_t) = length t"
    using small t by (simp_all add: unat_of_nat)
  obtain dst' len' where e: "ensure_for dst len off (word_of_nat n) = Inr (dst', len')" "length dst' = unat len'"
    "length s + n < unat len'" "unat len \<le> unat len'" "take (unat len) dst' = dst"
    using ensure_for_room [OF k(1,2), of "word_of_nat n" off] un k(3) n small by auto
  have "take (length s) dst' = take (length s) (take (unat len) dst')" using k(4) by (simp add: min_absorb1)
  then have pre: "take (length s) dst' = s" using e(5) k(5) by simp
  let ?d = "take (length s) dst' @ t @ drop (length s + length t) dst'"
  have w: "mem_write dst' (unat off) t = Inr ?d"
    using e(2,3) t k(3) by (simp add: mem_write_def)
  have uo: "unat (off + word_of_nat (length t)) = length s + length t"
    using k(3) un(2) small t by (simp add: unat_word_ariths)
  have "take (length s + length t) ?d = s @ t" unfolding pre by simp
  moreover have "length ?d = unat len'" using e(2,3) t by simp
  ultimately show ?thesis
    using e w uo t o' by (simp add: put_out_def out_ok_def)
qed

section \<open>The specification\<close>

text \<open>What a string stands for, without the block.\<close>

function expansion :: "char list \<Rightarrow> strb \<Rightarrow> 'x mail option \<Rightarrow> rmlist option \<Rightarrow> bool \<Rightarrow> char list \<Rightarrow> char list res" where
  "expansion chars tags m rml strip [] = Inr []"
| "expansion chars tags m rml strip (c # cs) =
     (if c \<noteq> CHR ''%'' then rbind (expansion chars tags m rml strip cs) (\<lambda>r. Inr (c # r))
      else case sequence tags m rml strip cs of
        Inl e \<Rightarrow> Inl e
      | Inr SeqEnd \<Rightarrow> Inr []
      | Inr (SeqText t rest) \<Rightarrow> rbind (expansion chars tags m rml strip (seq_rest (SeqText t rest))) (\<lambda>r. Inr (t @ r))
      | Inr (SeqValue v strip' rest) \<Rightarrow>
          rbind (expansion chars tags m rml strip' (seq_rest (SeqValue v strip' rest))) (\<lambda>r.
            Inr ((case v of None \<Rightarrow> [] | Some v \<Rightarrow> stripped chars strip' v) @ r)))"
  by pat_completeness auto
termination
  by (relation "measure (\<lambda>(_, _, _, _, _, s). length s)") (auto dest: sequence_shorter)

definition values_short :: "strb \<Rightarrow> 'x mail option \<Rightarrow> rmlist option \<Rightarrow> bool" where
  "values_short tags m rml \<longleftrightarrow>
     (\<forall>strip s v strip' rest. sequence tags m rml strip s = Inr (SeqValue (Some v) strip' rest) \<longrightarrow> length v \<le> 2 ^ 31)"

lemma sequence_text: "sequence tags m rml strip s = Inr (SeqText t rest) \<Longrightarrow> t \<noteq> [] \<and> length t \<le> 2"
  by (auto simp: sequence_def Let_def rbind_Inr_iff split: list.splits option.splits if_splits)

lemma length_stripped: "length (stripped chars strip v) \<le> length v"
  by (simp add: stripped_def)

lemma replace_loop_expansion:
  assumes "values_short tags m rml" and "out_ok o' pre" and "length pre + length s * 2 ^ 31 < 2 ^ 62"
  shows "case expansion chars tags m rml strip s of
      Inl e \<Rightarrow> replace_loop chars tags m rml strip o' s = Inl e
    | Inr r \<Rightarrow> \<exists>o''. replace_loop chars tags m rml strip o' s = Inr o'' \<and> out_ok o'' (pre @ r) \<and>
        length r \<le> length s * 2 ^ 31"
  using assms
proof (induction s arbitrary: strip o' pre rule: length_induct)
  case (1 s)
  show ?case
  proof (cases s)
    case Nil
    with 1 show ?thesis by simp
  next
    case (Cons c cs)
    have step: "case expansion chars tags m rml strip' r of
        Inl e \<Rightarrow> replace_loop chars tags m rml strip' o'' r = Inl e
      | Inr x \<Rightarrow> \<exists>o3. replace_loop chars tags m rml strip' o'' r = Inr o3 \<and> out_ok o3 ((pre @ t) @ x) \<and>
          length x \<le> length r * 2 ^ 31"
      if "length r \<le> length cs" "out_ok o'' (pre @ t)" "length t \<le> 2 ^ 31" for strip' r o'' t
    proof -
      have "length r < length s" using that Cons by simp
      moreover have "length (pre @ t) + length r * 2 ^ 31 < 2 ^ 62"
      proof -
        have "length r * 2 ^ 31 \<le> length cs * 2 ^ 31" using that(1) by simp
        then show ?thesis using that(3) "1.prems"(3) Cons by simp
      qed
      ultimately show ?thesis using "1.IH" "1.prems"(1) that(2) by blast
    qed
    have room: "length pre + 2 ^ 31 < 2 ^ 63" using "1.prems"(3) Cons by simp
    have long: "length x \<le> length r * 2 ^ 31 \<Longrightarrow> length r \<le> length cs \<Longrightarrow> length t \<le> 2 ^ 31 \<Longrightarrow>
        length (t @ x) \<le> length s * 2 ^ 31" for x r t :: "char list"
      using Cons mult_le_mono1 [of "length r" "length cs" "2 ^ 31"] by simp
    show ?thesis
    proof (cases "c = CHR ''%''")
      case False
      obtain o'' where p: "put_out o' 1 [c] = Inr o''" "out_ok o'' (pre @ [c])"
        using put_out_ok [OF "1.prems"(2), of "[c]" 1] room by auto
      from step [OF order.refl p(2), of strip] p(1) False Cons show ?thesis
        using long [of _ cs "[c]"] by (cases "expansion chars tags m rml strip cs") auto
    next
      case True
      show ?thesis
      proof (cases "sequence tags m rml strip cs")
        case (Inl e)
        with True Cons show ?thesis by simp
      next
        case (Inr q)
        note sh = sequence_shorter [OF Inr]
        show ?thesis
        proof (cases q)
          case SeqEnd
          with True Cons Inr "1.prems"(2) show ?thesis by simp
        next
          case (SeqText t rest)
          then have t: "t \<noteq> []" "length t \<le> 2 ^ 31" using sequence_text [of tags m rml strip cs t rest] Inr by auto
          obtain o'' where p: "put_out o' (length t) t = Inr o''" "out_ok o'' (pre @ t)"
            using put_out_ok [OF "1.prems"(2), of t "length t"] room t by auto
          from step [OF sh p(2) t(2), of strip] p(1) True Cons Inr SeqText show ?thesis
            using long [OF _ sh t(2)] by (cases "expansion chars tags m rml strip (seq_rest q)") auto
        next
          case (SeqValue v strip' rest)
          show ?thesis
          proof (cases "v = None \<or> v = Some []")
            case True2: True
            then have "(case v of None \<Rightarrow> [] | Some v \<Rightarrow> stripped chars strip' v) = []" by (auto simp: stripped_def)
            moreover have "out_ok o' (pre @ [])" using "1.prems"(2) by simp
            note step [OF sh this, of strip']
            ultimately show ?thesis using True2 True Cons Inr SeqValue long [OF _ sh, of _ "[]"]
              by (cases "expansion chars tags m rml strip' (seq_rest q)") auto
          next
            case False
            then obtain w where w: "v = Some w" "w \<noteq> []" by (cases v) auto
            have lw: "length w \<le> 2 ^ 31" using "1.prems"(1) Inr SeqValue w(1) unfolding values_short_def by blast
            have ls: "length (stripped chars strip' w) \<le> length w" by (rule length_stripped)
            obtain o'' where p: "put_out o' (length w) (stripped chars strip' w) = Inr o''" "out_ok o'' (pre @ stripped chars strip' w)"
              using put_out_ok [OF "1.prems"(2) ls] room w(2) lw by auto
            have lt: "length (stripped chars strip' w) \<le> 2 ^ 31" using ls lw by linarith
            from step [OF sh p(2) lt, of strip'] p(1) True Cons Inr SeqValue w show ?thesis
              using long [OF _ sh lt] by (cases "expansion chars tags m rml strip' (seq_rest q)") auto
          qed
        qed
      qed
    qed
  qed
qed


lemma read_cstr_prefix: "read_cstr (a @ NUL # b) 0 = Inr (cstr a)"
proof -
  have "cstr (a @ NUL # b) = cstr a" unfolding cstr_def by (induction a) auto
  then show ?thesis by (simp add: read_cstr_Inr)
qed

lemma find_tag_tags: "strb_ok tags \<Longrightarrow> find_tag tags key = Inr (tags_of tags key)"
  using strb_lookup_correct [of tags key] by (simp add: find_tag_def strb_lookup_def)

lemma add_tag_strb: "add_tag = strb_add"
  by (simp add: fun_eq_iff add_tag_def strb_add_def)

lemma sequence_tag:
  assumes "strb_ok tags" and "CHR '']'' \<notin> set name" and "name \<noteq> []" and "hd name \<noteq> CHR '':''"
  shows "sequence tags m rml strip (CHR ''['' # name @ CHR '']'' # rest) = Inr (SeqValue (tags_of tags name) strip rest)"
    and "sequence tags m rml strip (CHR ''['' # CHR '':'' # name @ CHR '']'' # rest) = Inr (SeqValue (tags_of tags name) False rest)"
  using assms memchr_append [of "CHR '']''" name rest] memchr_append [of "CHR '']''" "CHR '':'' # name" rest]
  by (auto simp: sequence_def Let_def find_tag_tags)

lemma values_short_tags:
  assumes "strb_ok tags" and "\<And>k v. tags_of tags k = Some v \<Longrightarrow> length v \<le> 2 ^ 31"
  shows "values_short tags None rml"
  using assms
  by (auto simp: values_short_def sequence_def submatch_def Let_def find_tag_tags rbind_Inr_iff
      split: list.splits option.splits if_splits)

text \<open>A store with two tags to evaluate the properties on.\<close>

definition sample_tags :: strb where
  "sample_tags = \<lparr>ent_used = 2, ent_max = 2, str_used = 13, str_size = 16,
     strs = ''a'' @ [NUL] @ ''x/y'' @ [NUL] @ ''b'' @ [NUL] @ ''u/v/'' @ [NUL] @ replicate 3 NUL, ents = [(0, 2), (6, 8)]\<rparr>"

lemma sample_tags_ok:
  "strb_ok sample_tags" "tags_of sample_tags = [''a'' \<mapsto> ''x/y'', ''b'' \<mapsto> ''u/v/'']"
  by (simp_all add: sample_tags_def strb_ok_def within_def pairs_def entry_pair_def tags_of_def cstr_def numeral_2_eq_2 fun_upd_twist)

text \<open>\<open>%:\<close> at the end of a template reads behind its terminator.\<close>

lemma replace_colon_overread: "replace chars (Some ''a%:'') tags m rml = Inl (MemErr ''replace'')"
proof -
  have "expansion chars tags m rml True ''a%:'' = Inl (MemErr ''replace'')" by (simp add: sequence_def)
  have "\<exists>o'. put_out (replicate 64 NUL, REPLBUFSIZE, 0) 1 ''a'' = Inr o'"
    using put_out_ok [of "(replicate 64 NUL, REPLBUFSIZE, 0)" "[]" "''a''" 1] by (auto simp: out_ok_def REPLBUFSIZE_def)
  then show ?thesis by (auto simp: replace_def xmalloc_def REPLBUFSIZE_def sequence_def)
qed

lemma replace_expands:
  assumes v: "values_short tags m rml" and s: "length s < 2 ^ 30"
  shows "replace chars (Some s) tags m rml =
    rbind (expansion chars tags m rml True s) (\<lambda>r. Inr (Some (cstr r)))"
proof (cases s)
  case Nil
  then show ?thesis by (simp add: replace_def cstr_def)
next
  case (Cons c cs)
  let ?o = "(replicate 64 NUL, REPLBUFSIZE, 0)"
  have x: "xmalloc REPLBUFSIZE = Inr (replicate 64 NUL)" by (simp add: xmalloc_def REPLBUFSIZE_def)
  have ok: "out_ok ?o []" by (simp add: out_ok_def REPLBUFSIZE_def)
  have sz: "length ([] :: char list) + length s * 2 ^ 31 < 2 ^ 62"
  proof -
    have "length s * 2 ^ 31 \<le> (2 ^ 30 - 1) * 2 ^ 31" using s by (intro mult_le_mono1) simp
    then show ?thesis by simp
  qed
  note L = replace_loop_expansion [OF v ok sz, of chars True]
  have u: "replace chars (Some s) tags m rml = rbind (replace_loop chars tags m rml True ?o s) (\<lambda>o'.
       rbind (put_out o' 1 [NUL]) (\<lambda>(dst, _, _). rbind (read_cstr dst 0) (\<lambda>r. Inr (Some r))))"
    using Cons x by (simp add: replace_def)
  show ?thesis
  proof (cases "expansion chars tags m rml True s")
    case (Inl e)
    with L u show ?thesis by simp
  next
    case (Inr r)
    then obtain o' where o': "replace_loop chars tags m rml True ?o s = Inr o'" "out_ok o' r" "length r \<le> length s * 2 ^ 31"
      using L by auto
    have "length r + 1 < 2 ^ 63" using o'(3) sz by simp
    then obtain dst len off where p: "put_out o' 1 [NUL] = Inr (dst, len, off)" "out_ok (dst, len, off) (r @ [NUL])"
      using put_out_ok [OF o'(2), of "[NUL]" 1] by auto
    have "take (length r + 1) dst = r @ [NUL]" using p(2) by (simp add: out_ok_def)
    then have "dst = r @ NUL # drop (length r + 1) dst" by (metis append_take_drop_id append_Cons append_Nil append_assoc)
    then have "read_cstr dst 0 = Inr (cstr r)" using read_cstr_prefix by metis
    with u o'(1) p(1) Inr show ?thesis by simp
  qed
qed

section \<open>Properties\<close>

text \<open>C6: \<open>replace\<close> expands a string as specified by \<open>expansion\<close> and never writes outside the block it
  grows: for a template of up to 2^30 bytes and values of up to 2^31 bytes the result is the expansion, or
  the error of the expansion (a sequence cut off behind \<open>%:\<close>, or a tag or match outside its memory).\<close>

theorem replace_correct:
  assumes "values_short tags m rml" and "length s < 2 ^ 30"
  shows "replace chars (Some s) tags m rml =
    rbind (expansion chars tags m rml True s) (\<lambda>r. Inr (Some (cstr r)))"
  using assms by (rule replace_expands)

lemma replace_correct_witness:
  "replace ''/'' (Some ''1%%%[a]%[:b]%%'') sample_tags (None :: unit mail option) None = Inr (Some ''1%xyu/v/%'')"
proof -
  have v: "values_short sample_tags (None :: unit mail option) None"
    by (rule values_short_tags) (auto simp: sample_tags_ok split: if_splits)
  have "expansion ''/'' sample_tags (None :: unit mail option) None True ''1%%%[a]%[:b]%%'' = Inr ''1%xyu/v/%''"
    using sequence_tag(1) [OF sample_tags_ok(1), of "''a''" "None :: unit mail option" None True "''%[:b]%%''"]
      sequence_tag(2) [OF sample_tags_ok(1), of "''b''" "None :: unit mail option" None True "''%%''"]
    by (simp add: sample_tags_ok seq_rest_def stripped_def) (simp add: sequence_def seq_rest_def stripped_def)
  with replace_correct [OF v, of "''1%%%[a]%[:b]%%''" "''/''"] show ?thesis by (simp add: cstr_def)
qed

text \<open>\<open>strip\<close> is never switched on again. After one tag written \<open>%[:name]\<close>, every later tag of the
  template is copied with the characters that should be stripped, although only the first asked for it.\<close>

theorem replace_strip_stays_off:
  assumes ok: "strb_ok tags" and t: "tags_of tags a = Some va" "tags_of tags b = Some vb" "is_cstr va" "is_cstr vb"
    and n: "CHR '']'' \<notin> set a" "a \<noteq> []" "hd a \<noteq> CHR '':''" "CHR '']'' \<notin> set b" "b \<noteq> []" "hd b \<noteq> CHR '':''"
    and s: "values_short tags m rml" "length a + length b < 2 ^ 29"
  shows "replace chars (Some (''%['' @ b @ '']'')) tags m rml = Inr (Some (filter (\<lambda>c. c \<notin> set chars \<and> c \<noteq> NUL) vb)) \<and>
    replace chars (Some (''%[:'' @ a @ '']'' @ ''%['' @ b @ '']'')) tags m rml = Inr (Some (va @ vb))"
proof -
  have 1: "sequence tags m rml s (CHR ''['' # b @ '']'') = Inr (SeqValue (Some vb) s [])" for s
    using sequence_tag(1) [OF ok n(4,5,6), of m rml s "[]"] t by simp
  have 2: "sequence tags m rml True (CHR ''['' # CHR '':'' # a @ CHR '']'' # (''%['' @ b @ '']'')) =
      Inr (SeqValue (Some va) False (''%['' @ b @ '']''))"
    using sequence_tag(2) [OF ok n(1,2,3), of m rml True "''%['' @ b @ '']''"] t by simp
  have E: "expansion chars tags m rml True (''%['' @ b @ '']'') = Inr (filter (\<lambda>c. c \<notin> set chars \<and> c \<noteq> NUL) vb)"
    "expansion chars tags m rml True (''%[:'' @ a @ '']'' @ ''%['' @ b @ '']'') = Inr (va @ vb)"
    using 1 2 by (simp_all add: seq_rest_def stripped_def)
  have "cstr (va @ vb) = va @ vb" "cstr (filter (\<lambda>c. c \<notin> set chars \<and> c \<noteq> NUL) vb) = filter (\<lambda>c. c \<notin> set chars \<and> c \<noteq> NUL) vb"
    using t(3,4) by (auto simp: is_cstr_def cstr_def takeWhile_eq_all_conv)
  then show ?thesis
    using replace_expands [OF s(1), of "''%['' @ b @ '']''" chars] replace_expands [OF s(1), of "''%[:'' @ a @ '']'' @ ''%['' @ b @ '']''" chars]
      s(2) E by simp
qed

lemma replace_strip_stays_off_witness:
  "replace ''/'' (Some ''%[b]'') sample_tags (None :: unit mail option) None = Inr (Some ''uv'') \<and>
   replace ''/'' (Some ''%[:a]%[b]'') sample_tags (None :: unit mail option) None = Inr (Some ''x/yu/v/'')"
proof -
  have v: "values_short sample_tags (None :: unit mail option) None"
    by (rule values_short_tags) (auto simp: sample_tags_ok split: if_splits)
  show ?thesis
    using replace_strip_stays_off [OF sample_tags_ok(1), of "''a''" "''x/y''" "''b''" "''u/v/''" "None :: unit mail option" None "''/''"] v
    by (simp add: sample_tags_ok is_cstr_def)
qed

end
