(* ===== verification/Match.thy ===== *)
theory Match imports Attach Replace begin

text \<open>
  The conditions of a rule (\<^verbatim>\<open>match-*.c\<close>, \<^verbatim>\<open>re.c\<close>, \<^verbatim>\<open>mail-time.c\<close>, \<^verbatim>\<open>lookup.c\<close>) with the configuration
  they read. What the C library, the databases and the user data of the system answer is the record \<open>os\<close>.
\<close>

section \<open>Configuration\<close>

datatype cmp = CMP_EQ | CMP_NE | CMP_LT | CMP_GT
datatype area = AREA_BODY | AREA_HEADERS | AREA_ANY
datatype exprop = OP_NONE | OP_AND | OP_OR
datatype attachop = ATTACHOP_COUNT | ATTACHOP_TOTALSIZE | ATTACHOP_ANYSIZE | ATTACHOP_ANYTYPE | ATTACHOP_ANYNAME

record re = re_str :: "char list"  re_flags :: nat

record cmddata =
  cd_cmd :: "char list"
  cd_user :: "char list option"
  cd_pipe :: bool
  cd_re :: "re option"
  cd_ret :: int

datatype matchop =
    Match_age int cmp
  | Match_all
  | Match_account "char list list"
  | Match_attachment attachop cmp int "char list"
  | Match_matched
  | Match_unmatched
  | Match_size nat cmp
  | Match_tagged "char list"
  | Match_string "char list" re
  | Match_command cmddata
  | Match_regexp re area
  | Match_in_cache "char list" "char list"

record expritem =
  ei_match :: matchop
  ei_op :: exprop
  ei_inverted :: bool

record account =
  acc_idx :: nat
  acc_name :: "char list"
  acc_users :: "char list list option"
  acc_keep :: bool

text \<open>\<open>pm\<close> of \<open>regexec\<close>: what it returned, then the offsets of the match and its groups.\<close>

datatype regstatus = RegMatch | RegNoMatch | RegFailed

record os =
  os_fnmatch :: "char list \<Rightarrow> char list \<Rightarrow> bool"
  os_fnmatch_fold :: "char list \<Rightarrow> char list \<Rightarrow> bool"
  os_regexec :: "re \<Rightarrow> char list \<Rightarrow> regstatus \<times> (int \<times> int) list"
  os_time :: int
  os_strptime :: "char list \<Rightarrow> char list \<Rightarrow> (tm \<times> char list) option"
  os_mktime :: "tm \<Rightarrow> int"
  os_zone :: "char list \<Rightarrow> (char list \<times> int) option"
  os_TZ :: "char list option"
  os_db_open :: "char list \<Rightarrow> bool"
  os_db_contains :: "char list \<Rightarrow> char list \<Rightarrow> bool"
  os_localtime :: "int \<Rightarrow> tm option"
  os_strftime :: "char list \<Rightarrow> tm option \<Rightarrow> char list"

record conf =
  conf_strip :: "char list"
  conf_cmd_user :: "char list"
  conf_def_user :: "char list"
  conf_user_order :: "(char list \<Rightarrow> userdata option) list"
  conf_caches :: "char list list"
  conf_impl_act :: decision
  conf_host_name :: "char list option"
  conf_host_fqdn :: "char list option"
  conf_keep_all :: bool
  conf_no_received :: bool
  conf_purge_after :: nat
  conf_queue_high :: int
  conf_queue_low :: int
  conf_max_size :: nat
  conf_timeout :: int
  conf_del_big :: bool

datatype match_result = MATCH_FALSE | MATCH_TRUE | MATCH_ERROR | MATCH_PARENT

definition of_bool_result :: "bool \<Rightarrow> match_result" where
  "of_bool_result b = (if b then MATCH_TRUE else MATCH_FALSE)"

section \<open>Regular expressions\<close>

definition empty_rml :: rmlist where
  "empty_rml = \<lparr>rml_valid = False, rml_list = replicate NPMATCH \<lparr>rm_valid = False, rm_so = 0, rm_eo = 0\<rparr>\<rparr>"

text \<open>The groups up to the first empty one.\<close>

definition fill_rml :: "(int \<times> int) list \<Rightarrow> rmlist" where
  "fill_rml pm =
     (let gs = takeWhile (\<lambda>(so, eo). so < eo) (take NPMATCH pm) in
      \<lparr>rml_valid = True,
       rml_list = map (\<lambda>(so, eo). \<lparr>rm_valid = True, rm_so = nat so, rm_eo = nat eo\<rparr>) gs @
         replicate (NPMATCH - length gs) \<lparr>rm_valid = False, rm_so = 0, rm_eo = 0\<rparr>\<rparr>)"

text \<open>\<open>re_block\<close> returns -1, 0 or 1 and the new match list.\<close>

definition re_block :: "os \<Rightarrow> re \<Rightarrow> char list \<Rightarrow> int \<times> rmlist" where
  "re_block os re buf =
     (if re_str re = [] then (if buf = [] then 1 else 0, empty_rml)
      else case os_regexec os re buf of
        (RegFailed, _) \<Rightarrow> (- 1, empty_rml)
      | (r, pm) \<Rightarrow> (if r = RegMatch then 1 else 0, fill_rml pm))"

definition re_string :: "os \<Rightarrow> re \<Rightarrow> char list \<Rightarrow> int" where
  "re_string os re s = fst (re_block os re s)"

section \<open>Dates\<close>

definition c_div :: "int \<Rightarrow> int \<Rightarrow> int" where "c_div a b = sgn a * sgn b * (\<bar>a\<bar> div \<bar>b\<bar>)"

definition TIME_MINUTE :: int where "TIME_MINUTE = 60"
definition TIME_HOUR :: int where "TIME_HOUR = 3600"

text \<open>The buffer of \<open>rfc822time\<close> has \<open>n\<close> bytes; \<open>strftime\<close> gives 0 when the text does not fit.\<close>

definition rfc822time :: "os \<Rightarrow> int \<Rightarrow> nat \<Rightarrow> char list option" where
  "rfc822time os t n =
     (let s = os_strftime os ''%a, %d %b %Y %H:%M:%S %z'' (os_localtime os t) in
      if s = [] \<or> n \<le> length s then None else Some s)"

text \<open>\<open>tzlookup\<close>: the offset, and the value \<open>TZ\<close> is left with.\<close>

definition tzlookup :: "os \<Rightarrow> char list \<Rightarrow> int option \<times> char list option" where
  "tzlookup os tz = (case os_zone os tz of
     None \<Rightarrow> (None, os_TZ os)
   | Some (zone, gmtoff) \<Rightarrow> if tz \<noteq> zone then (None, Some tz) else (Some gmtoff, os_TZ os))"

definition mailtime :: "os \<Rightarrow> 'x mail \<Rightarrow> int option res" where
  "mailtime os m = rbind (find_header m ''date'' True) (\<lambda>h. case h of
     None \<Rightarrow> Inr None
   | Some (p, len) \<Rightarrow>
      if len = 0 then Inr None
      else rbind (bytes_at m p len) (\<lambda>d.
        let s = dropWhile isspace (cstr d) in
        case (case os_strptime os ''%a, %d %b %Y %H:%M:%S'' s of
                Some r \<Rightarrow> Some r | None \<Rightarrow> os_strptime os ''%d %b %Y %H:%M:%S'' s) of
          None \<Rightarrow> Inr None
        | Some (tm, rest) \<Rightarrow>
            let tim = os_mktime os tm;
                zone = takeWhile (\<lambda>c. \<not> isspace c) (dropWhile isspace rest)
            in case (case strtonum zone (- 2359) 2359 of Inr n \<Rightarrow> Some n | Inl _ \<Rightarrow> fst (tzlookup os zone)) of
                 None \<Rightarrow> Inr None
               | Some tz \<Rightarrow>
                   let tim = tim - (c_div tz 100 * TIME_HOUR + c_mod tz 100 * TIME_MINUTE)
                   in if tim < 0 then Inr None else Inr (Some tim)))"

section \<open>Users\<close>

fun user_lookup :: "char list \<Rightarrow> (char list \<Rightarrow> userdata option) list \<Rightarrow> userdata option" where
  "user_lookup user [] = None"
| "user_lookup user (f # fs) = (case f user of Some ud \<Rightarrow> Some ud | None \<Rightarrow> user_lookup user fs)"

section \<open>The conditions\<close>

definition mail_replace :: "conf \<Rightarrow> 'x mail \<Rightarrow> char list \<Rightarrow> char list option res" where
  "mail_replace cf m s = (case m_tags m of
     None \<Rightarrow> Inl (MemErr ''tags'')
   | Some tags \<Rightarrow> replacestr (conf_strip cf) (Some s) tags (Some m) (Some (m_rml m)))"

definition match_age_match :: "os \<Rightarrow> 'x mail \<Rightarrow> int \<Rightarrow> cmp \<Rightarrow> match_result res" where
  "match_age_match os m time cmp = rbind (mailtime os m) (\<lambda>t. case t of
     None \<Rightarrow> Inr (of_bool_result (time < 0))
   | Some thn \<Rightarrow>
       if time < 0 then Inr MATCH_FALSE
       else let diff = max 0 (os_time os - thn)
         in Inr (of_bool_result (cmp = CMP_LT \<and> diff < time \<or> cmp = CMP_GT \<and> time < diff)))"

fun match_account_match :: "conf \<Rightarrow> os \<Rightarrow> account \<Rightarrow> 'x mail \<Rightarrow> char list list \<Rightarrow> match_result res" where
  "match_account_match cf os a m [] = Inr MATCH_FALSE"
| "match_account_match cf os a m (acc # accs) = rbind (mail_replace cf m acc) (\<lambda>s. case s of
     None \<Rightarrow> Inr MATCH_ERROR
   | Some s \<Rightarrow>
       if s = [] then Inr MATCH_ERROR
       else if os_fnmatch os s (acc_name a) then Inr MATCH_TRUE
       else match_account_match cf os a m accs)"

definition cmp_num :: "cmp \<Rightarrow> int \<Rightarrow> int \<Rightarrow> bool" where
  "cmp_num c a b = (case c of CMP_EQ \<Rightarrow> a = b | CMP_NE \<Rightarrow> a \<noteq> b | CMP_LT \<Rightarrow> a < b | CMP_GT \<Rightarrow> b < a)"

text \<open>The nodes the loops over the attachments see.\<close>

definition attach_seen :: "attach \<Rightarrow> attach list" where
  "attach_seen t = map (\<lambda>p. the (at_path t p)) (attach_walk (attach_nodes t) t (Some []) 0)"

fun attach_any :: "(attach \<Rightarrow> match_result) \<Rightarrow> attach list \<Rightarrow> match_result" where
  "attach_any f [] = MATCH_FALSE"
| "attach_any f (at # ats) = (case f at of MATCH_FALSE \<Rightarrow> attach_any f ats | r \<Rightarrow> r)"

definition attach_test :: "os \<Rightarrow> attachop \<Rightarrow> cmp \<Rightarrow> int \<Rightarrow> char list \<Rightarrow> attach \<Rightarrow> match_result" where
  "attach_test os aop cmp num val at = (case aop of
     ATTACHOP_ANYSIZE \<Rightarrow>
       (case cmp of
          CMP_LT \<Rightarrow> of_bool_result (int (a_size at) < num)
        | CMP_GT \<Rightarrow> of_bool_result (num < int (a_size at))
        | _ \<Rightarrow> MATCH_ERROR)
   | ATTACHOP_ANYTYPE \<Rightarrow>
       (case a_type at of None \<Rightarrow> MATCH_FALSE | Some ty \<Rightarrow> of_bool_result (os_fnmatch_fold os val ty))
   | ATTACHOP_ANYNAME \<Rightarrow>
       (case a_name at of None \<Rightarrow> MATCH_FALSE | Some nm \<Rightarrow> of_bool_result (os_fnmatch_fold os val nm))
   | _ \<Rightarrow> MATCH_ERROR)"

definition match_attachment_match ::
    "conf \<Rightarrow> os \<Rightarrow> 'x mail \<Rightarrow> attachop \<Rightarrow> cmp \<Rightarrow> int \<Rightarrow> char list \<Rightarrow> ('x mail \<times> match_result) res" where
  "match_attachment_match cf os m aop cmp num str =
     rbind (if attach_built m then Inr m
            else rbind (attach_build m) (\<lambda>t. Inr (m\<lparr>attach := t, attach_built := True\<rparr>))) (\<lambda>m.
     let seen = (case attach m of None \<Rightarrow> [] | Some t \<Rightarrow> attach_seen t) in
     if aop = ATTACHOP_COUNT then Inr (m, of_bool_result (cmp_num cmp (int (length seen)) num))
     else if aop = ATTACHOP_TOTALSIZE then
       (let sz = int (sum_list (map a_size seen)) in
        Inr (m, case cmp of CMP_LT \<Rightarrow> of_bool_result (sz < num) | CMP_GT \<Rightarrow> of_bool_result (num < sz) | _ \<Rightarrow> MATCH_ERROR))
     else if attach m = None then Inr (m, MATCH_FALSE)
     else rbind (if aop = ATTACHOP_ANYTYPE \<or> aop = ATTACHOP_ANYNAME then mail_replace cf m str else Inr (Some [])) (\<lambda>v.
       case v of
         None \<Rightarrow> Inl (MemErr ''fnmatch'')
       | Some v \<Rightarrow> Inr (m, attach_any (attach_test os aop cmp num v) seen)))"

definition match_size_match :: "'x mail \<Rightarrow> nat \<Rightarrow> cmp \<Rightarrow> match_result" where
  "match_size_match m sz cmp = of_bool_result (cmp = CMP_LT \<and> msize m < sz \<or> cmp = CMP_GT \<and> sz < msize m)"

definition match_tagged_match :: "conf \<Rightarrow> os \<Rightarrow> 'x mail \<Rightarrow> char list \<Rightarrow> match_result res" where
  "match_tagged_match cf os m tag = rbind (mail_replace cf m tag) (\<lambda>t. case (t, m_tags m) of
     (Some t, Some tags) \<Rightarrow> rbind (match_tag (os_fnmatch os) tags t) (\<lambda>v. Inr (of_bool_result (v \<noteq> None)))
   | _ \<Rightarrow> Inl (MemErr ''match_tag''))"

definition match_string_match :: "conf \<Rightarrow> os \<Rightarrow> 'x mail \<Rightarrow> char list \<Rightarrow> re \<Rightarrow> match_result res" where
  "match_string_match cf os m str re = rbind (mail_replace cf m str) (\<lambda>s. case s of
     None \<Rightarrow> Inl (MemErr ''re_string'')
   | Some s \<Rightarrow> let n = re_string os re s in Inr (if n = - 1 then MATCH_ERROR else of_bool_result (n \<noteq> 0)))"

definition match_regexp_match :: "os \<Rightarrow> 'x mail \<Rightarrow> re \<Rightarrow> area \<Rightarrow> ('x mail \<times> match_result) res" where
  "match_regexp_match os m re area =
     (if area = AREA_HEADERS \<and> m_body m = 0 then Inr (m, MATCH_FALSE)
      else let so = (if area = AREA_BODY then m_body m else 0);
               eo = (if area = AREA_HEADERS then m_body m else msize m)
        in rbind (bytes_at m so (size_sub eo so)) (\<lambda>buf.
          case re_block os re buf of (r, rml) \<Rightarrow>
            Inr (m\<lparr>m_rml := rml\<rparr>, if r = - 1 then MATCH_ERROR else of_bool_result (r \<noteq> 0))))"

definition match_in_cache_match :: "conf \<Rightarrow> os \<Rightarrow> 'x mail \<Rightarrow> char list \<Rightarrow> char list \<Rightarrow> match_result res" where
  "match_in_cache_match cf os m path key = rbind (mail_replace cf m key) (\<lambda>k. case k of
     None \<Rightarrow> Inr MATCH_ERROR
   | Some k \<Rightarrow>
       if k = [] then Inr MATCH_ERROR
       else if path \<notin> set (conf_caches cf) then Inr MATCH_ERROR
       else if \<not> os_db_open os path then Inr MATCH_ERROR
       else Inr (of_bool_result (os_db_contains os path k)))"

definition match_matched_match :: "bool \<Rightarrow> match_result" where
  "match_matched_match matched = (if matched then MATCH_TRUE else MATCH_FALSE)"

definition match_unmatched_match :: "bool \<Rightarrow> match_result" where
  "match_unmatched_match matched = (if matched then MATCH_FALSE else MATCH_TRUE)"

definition match_all_match :: match_result where "match_all_match = MATCH_TRUE"

end
