(* ===== verification/MailState.thy ===== *)
theory MailState imports Match begin

text \<open>
  The state machine of one mail (\<^verbatim>\<open>mail-state.c\<close>, with \<^verbatim>\<open>match-command.c\<close>): \<open>mail_match\<close> checks one item
  of the expression of the current rule per call and, at its end, moves through the tree of rules and
  queues actions; \<open>mail_deliver\<close> runs one queued action per call. A pointer into a list of the source is the
  rest of the list from there, NULL the empty list. Functions reached through a pointer are arguments:
  \<open>mt\<close> for \<open>match->match\<close> and \<open>dl\<close> for \<open>deliver->deliver\<close>.
\<close>

section \<open>Rules and actions\<close>

datatype deliver =
    Deliver_add_header "char list" "char list"
  | Deliver_remove_header "char list list"
  | Deliver_tag "char list" "char list option"
  | Deliver_add_to_cache "char list" "char list"
  | Deliver_remove_from_cache "char list" "char list"
  | Deliver_drop
  | Deliver_keep
  | Deliver_stdout
  | Deliver_smtp "char list option" "char list option"
  | Deliver_imap "char list"
  | Deliver_mbox "char list" bool
  | Deliver_write "char list" bool
  | Deliver_maildir "char list"
  | Deliver_pipe "char list" bool
  | Deliver_rewrite "char list"

datatype delivertype = DELIVER_INCHILD | DELIVER_ASUSER | DELIVER_WRBACK

fun deliver_type :: "deliver \<Rightarrow> delivertype" where
  "deliver_type (Deliver_smtp _ _) = DELIVER_ASUSER"
| "deliver_type (Deliver_imap _) = DELIVER_ASUSER"
| "deliver_type (Deliver_mbox _ _) = DELIVER_ASUSER"
| "deliver_type (Deliver_write _ _) = DELIVER_ASUSER"
| "deliver_type (Deliver_maildir _) = DELIVER_ASUSER"
| "deliver_type (Deliver_pipe _ _) = DELIVER_ASUSER"
| "deliver_type (Deliver_rewrite _) = DELIVER_WRBACK"
| "deliver_type _ = DELIVER_INCHILD"

datatype actitem = ActDeliver (ai_idx: nat) (ai_deliver: deliver) | ActChain (ai_idx: nat) (ai_actions: "char list list")

record action =
  act_name :: "char list"
  act_users :: "char list list option"
  act_list :: "actitem list"

datatype rule = Rule (r_idx: nat) (r_expr: "expritem list") (r_users: "char list list option") (r_stop: bool)
  (r_rules: "rule list") (r_lambda: "action option") (r_actions: "char list list")

section \<open>Contexts and messages\<close>

datatype msgtype = MSG_ACTION | MSG_EXIT | MSG_DONE | MSG_COMMAND

record 'x msg =
  msg_id :: nat
  msg_type :: msgtype
  msg_error :: int
  msg_mail :: "'x mail"
  msg_uid :: nat
  msg_gid :: nat
  msg_actitem :: "actitem option"
  msg_cmddata :: "cmddata option"

record deliver_ctx =
  dx_action :: action
  dx_actitem :: actitem
  dx_rule :: rule
  dx_udata :: userdata

record 'x mail_ctx =
  mc_done :: bool
  mc_msgid :: nat
  mc_account :: account
  mc_sent :: "('x msg \<times> strb option) list"
  mc_mail :: "'x mail"
  mc_ruleidx :: nat
  mc_rule :: "rule list"
  mc_stack :: "rule list list"
  mc_expritem :: "expritem list"
  mc_result :: bool
  mc_matched :: bool
  mc_dqueue :: "deliver_ctx list"

datatype mail_result = MAIL_CONTINUE | MAIL_DELIVER | MAIL_MATCH | MAIL_ERROR | MAIL_BLOCKED | MAIL_DONE

definition MAXACTIONCHAIN :: nat where "MAXACTIONCHAIN = 5"

section \<open>Evaluating an expression\<close>

definition apply_result :: "expritem \<Rightarrow> bool \<Rightarrow> bool \<Rightarrow> bool" where
  "apply_result ei result this =
     (let this = (if ei_inverted ei then \<not> this else this) in
      case ei_op ei of OP_NONE \<Rightarrow> this | OP_OR \<Rightarrow> result \<or> this | OP_AND \<Rightarrow> result \<and> this)"

definition skips :: "expritem \<Rightarrow> bool \<Rightarrow> bool" where
  "skips ei result = (case ei_op ei of OP_NONE \<Rightarrow> False | OP_AND \<Rightarrow> \<not> result | OP_OR \<Rightarrow> result)"

section \<open>Queueing actions\<close>

definition match_actions :: "os \<Rightarrow> action list \<Rightarrow> char list \<Rightarrow> action list" where
  "match_actions os actions name = filter (\<lambda>t. os_fnmatch os name (act_name t)) actions"

definition find_delivery_users :: "conf \<Rightarrow> account \<Rightarrow> rule \<Rightarrow> action option \<Rightarrow> char list list" where
  "find_delivery_users cf a r t =
     (case r_users r of Some us \<Rightarrow> us | None \<Rightarrow>
       (case Option.bind t act_users of Some us \<Rightarrow> us | None \<Rightarrow>
         (case acc_users a of Some us \<Rightarrow> us | None \<Rightarrow> [conf_def_user cf])))"

text \<open>A loop that returns -1 (\<open>False\<close>) as soon as one of its calls does.\<close>

fun loop_all :: "('a \<Rightarrow> 's \<Rightarrow> (bool \<times> 's) res) \<Rightarrow> 'a list \<Rightarrow> 's \<Rightarrow> (bool \<times> 's) res" where
  "loop_all f [] s = Inr (True, s)"
| "loop_all f (x # xs) s = rbind (f x s) (\<lambda>(ok, s). if ok then loop_all f xs s else Inr (False, s))"

text \<open>The state is the counter \<open>chained\<close> and the queue.\<close>

type_synonym fill = "nat \<times> deliver_ctx list"

definition fill_from_action ::
    "conf \<Rightarrow> 'x mail \<Rightarrow> rule \<Rightarrow> (char list list \<Rightarrow> fill \<Rightarrow> (bool \<times> fill) res) \<Rightarrow> action \<Rightarrow> char list list \<Rightarrow> fill \<Rightarrow> (bool \<times> fill) res" where
  "fill_from_action cf m r chain t users =
     loop_all (\<lambda>u s. rbind (mail_replace cf m u) (\<lambda>user. case user of
         None \<Rightarrow> Inr (False, s)
       | Some user \<Rightarrow>
           if user = [] then Inr (False, s)
           else case user_lookup user (conf_user_order cf) of
             None \<Rightarrow> Inr (False, s)
           | Some ud \<Rightarrow>
               loop_all (\<lambda>ti s. case ti of
                   ActChain _ acts \<Rightarrow> chain acts s
                 | ActDeliver _ _ \<Rightarrow>
                     Inr (True, fst s, snd s @ [\<lparr>dx_action = t, dx_actitem = ti, dx_rule = r, dx_udata = ud\<rparr>]))
                 (act_list t) s)) users"

definition fill_from_string ::
    "conf \<Rightarrow> os \<Rightarrow> action list \<Rightarrow> account \<Rightarrow> 'x mail \<Rightarrow> rule \<Rightarrow> (char list list \<Rightarrow> fill \<Rightarrow> (bool \<times> fill) res) \<Rightarrow> char list \<Rightarrow> fill \<Rightarrow> (bool \<times> fill) res" where
  "fill_from_string cf os actions a m r chain rs s = rbind (mail_replace cf m rs) (\<lambda>x. case x of
     None \<Rightarrow> Inl (MemErr ''match_actions'')
   | Some x \<Rightarrow>
       let ta = match_actions os actions x in
       if ta = [] then Inr (False, s)
       else loop_all (\<lambda>t. fill_from_action cf m r chain t (find_delivery_users cf a r (Some t))) ta s)"

text \<open>The first argument bounds the depth of the recursion; \<open>chained\<close> falls with each level, so its
  start value is enough.\<close>

primrec fill_from_strings ::
    "nat \<Rightarrow> conf \<Rightarrow> os \<Rightarrow> action list \<Rightarrow> account \<Rightarrow> 'x mail \<Rightarrow> rule \<Rightarrow> char list list \<Rightarrow> fill \<Rightarrow> (bool \<times> fill) res" where
  "fill_from_strings 0 cf os actions a m r rsa s = Inl (Diverges ''fill_from_strings'')"
| "fill_from_strings (Suc d) cf os actions a m r rsa s =
     (let chained = fst s - 1 in
      if chained = 0 then Inr (False, chained, snd s)
      else loop_all (fill_from_string cf os actions a m r (fill_from_strings d cf os actions a m r)) rsa (chained, snd s))"

section \<open>Matching\<close>

text \<open>\<open>mctx->rule\<close> moves up the stack while it is NULL; the top of the stack is the head.\<close>

fun pop_rules :: "rule list \<Rightarrow> rule list list \<Rightarrow> rule list \<times> rule list list" where
  "pop_rules (r # rs) st = (r # rs, st)"
| "pop_rules [] [] = ([], [])"
| "pop_rules [] (p # st) = pop_rules (tl p) st"

definition next_rule :: "'x mail_ctx \<Rightarrow> 'x mail_ctx" where
  "next_rule c = (case pop_rules (tl (mc_rule c)) (mc_stack c) of
     (rs, st) \<Rightarrow> c\<lparr>mc_ruleidx := r_idx (hd (mc_rule c)), mc_rule := rs, mc_stack := st\<rparr>)"

text \<open>The actions of a matched rule: whether all went well, whether there is something to deliver, and
  the queue.\<close>

definition fill_queue ::
    "conf \<Rightarrow> os \<Rightarrow> action list \<Rightarrow> account \<Rightarrow> 'x mail \<Rightarrow> rule \<Rightarrow> deliver_ctx list \<Rightarrow> (bool \<times> bool \<times> deliver_ctx list) res" where
  "fill_queue cf os actions a m r q =
     (let strings = fill_from_strings MAXACTIONCHAIN cf os actions a m r in
      rbind (case r_lambda r of
               None \<Rightarrow> Inr (True, q)
             | Some t \<Rightarrow> rbind (fill_from_action cf m r strings t (find_delivery_users cf a r None) (MAXACTIONCHAIN, q))
                 (\<lambda>(ok, s). Inr (ok, snd s))) (\<lambda>(ok, q).
      if \<not> ok then Inr (False, False, q)
      else rbind (if r_actions r = [] then Inr (True, q)
                  else rbind (strings (r_actions r) (MAXACTIONCHAIN, q)) (\<lambda>(ok, s). Inr (ok, snd s))) (\<lambda>(ok, q).
        Inr (ok, r_lambda r \<noteq> None \<or> r_actions r \<noteq> [], q))))"

definition fill_actions ::
    "conf \<Rightarrow> os \<Rightarrow> action list \<Rightarrow> 'x mail_ctx \<Rightarrow> (bool \<times> bool \<times> 'x mail_ctx) res" where
  "fill_actions cf os actions c =
     rbind (fill_queue cf os actions (mc_account c) (mc_mail c) (hd (mc_rule c)) (mc_dqueue c)) (\<lambda>(ok, delivers, q).
       Inr (ok, delivers, c\<lparr>mc_dqueue := q\<rparr>))"

definition next_expritem ::
    "conf \<Rightarrow> os \<Rightarrow> action list \<Rightarrow> 'x mail_ctx \<Rightarrow> (mail_result \<times> 'x mail_ctx) res" where
  "next_expritem cf os actions c =
     (let c = c\<lparr>mc_expritem := tl (mc_expritem c)\<rparr>; r = hd (mc_rule c) in
      if mc_expritem c \<noteq> [] then Inr (MAIL_CONTINUE, c)
      else if \<not> mc_result c then Inr (MAIL_CONTINUE, next_rule c)
      else
        (let c = (if r_stop r then c\<lparr>mc_done := True\<rparr> else c) in
         if r_rules r \<noteq> [] then Inr (MAIL_CONTINUE, c\<lparr>mc_stack := mc_rule c # mc_stack c, mc_rule := r_rules r\<rparr>)
         else rbind (fill_actions cf os actions (c\<lparr>mc_matched := True\<rparr>)) (\<lambda>(ok, delivers, c).
           if \<not> ok then Inr (MAIL_ERROR, c)
           else Inr (if delivers then MAIL_DELIVER else MAIL_CONTINUE, next_rule c))))"

text \<open>Tags that come back from the parent replace those of the mail.\<close>

definition take_tags :: "strb option \<Rightarrow> 'x mail \<Rightarrow> 'x mail res" where
  "take_tags buf m = (case buf of
     None \<Rightarrow> Inr m | Some tags \<Rightarrow> rbind (reset_tags tags) (\<lambda>tags. Inr (m\<lparr>m_tags := Some tags\<rparr>)))"

definition mail_match ::
    "('x mail_ctx \<Rightarrow> matchop \<Rightarrow> ('x mail_ctx \<times> match_result) res) \<Rightarrow> conf \<Rightarrow> os \<Rightarrow> action list \<Rightarrow>
     'x mail_ctx \<Rightarrow> ('x msg \<times> strb option) option \<Rightarrow> (mail_result \<times> 'x mail_ctx) res" where
  "mail_match mt cf os actions c msg =
     rbind (set_wrapped (mc_mail c) SP) (\<lambda>m.
     let c = c\<lparr>mc_mail := m\<rparr> in
     if mc_msgid c \<noteq> 0 then
       (case msg of
          None \<Rightarrow> Inr (MAIL_BLOCKED, c)
        | Some (msg, buf) \<Rightarrow>
            if msg_id msg \<noteq> mc_msgid c then Inr (MAIL_BLOCKED, c)
            else if msg_type msg \<noteq> MSG_DONE then Inl (FatalX ''unexpected message'')
            else rbind (take_tags buf m) (\<lambda>m.
              let c = c\<lparr>mc_msgid := 0, mc_mail := m\<rparr> in
              if msg_error msg = 2 then Inr (MAIL_ERROR, c)
              else if msg_error msg = 1 \<or> msg_error msg = 0 then
                next_expritem cf os actions
                  (c\<lparr>mc_result := apply_result (hd (mc_expritem c)) (mc_result c) (msg_error msg = 1)\<rparr>)
              else Inl (FatalX ''unexpected response'')))
     else if mc_done c then Inr (MAIL_DONE, c)
     else if mc_rule c = [] then
       Inr (MAIL_DONE, c\<lparr>mc_mail := m\<lparr>decision :=
         (if conf_impl_act cf = DECISION_DROP then DECISION_DROP else DECISION_KEEP)\<rparr>\<rparr>)
     else
       (let c = (if mc_expritem c = [] then c\<lparr>mc_result := False, mc_expritem := r_expr (hd (mc_rule c))\<rparr> else c) in
        case mc_expritem c of
          [] \<Rightarrow> Inl (MemErr ''expritem'')
        | ei # _ \<Rightarrow>
            if skips ei (mc_result c) then next_expritem cf os actions c
            else rbind (mt c (ei_match ei)) (\<lambda>(c, r).
              case r of
                MATCH_ERROR \<Rightarrow> Inr (MAIL_ERROR, c)
              | MATCH_PARENT \<Rightarrow> Inr (MAIL_BLOCKED, c)
              | _ \<Rightarrow> next_expritem cf os actions (c\<lparr>mc_result := apply_result ei (mc_result c) (r = MATCH_TRUE)\<rparr>))))"

section \<open>Conditions that need the parent\<close>

definition match_command_match ::
    "conf \<Rightarrow> 'x mail_ctx \<Rightarrow> cmddata \<Rightarrow> ('x mail_ctx \<times> match_result) res" where
  "match_command_match cf c data =
     rbind (set_wrapped (mc_mail c) NL) (\<lambda>m.
     rbind (case cd_user data of None \<Rightarrow> Inr (Some (conf_cmd_user cf)) | Some u \<Rightarrow> mail_replace cf m u) (\<lambda>user.
     case (user, m_tags m) of
       (Some user, Some tags) \<Rightarrow>
         (case user_lookup user (conf_user_order cf) of
            None \<Rightarrow> Inr (c\<lparr>mc_mail := m\<rparr>, MATCH_ERROR)
          | Some ud \<Rightarrow>
              rbind (update_tags tags ud) (\<lambda>tags.
              let m = m\<lparr>m_tags := Some tags\<rparr>;
                  msg = \<lparr>msg_id = m_idx m, msg_type = MSG_COMMAND, msg_error = 0, msg_mail = mail_send m,
                         msg_uid = ud_uid ud, msg_gid = ud_gid ud, msg_actitem = None, msg_cmddata = Some data\<rparr>
              in rbind (reset_tags tags) (\<lambda>tags'.
                Inr (c\<lparr>mc_mail := m\<lparr>m_tags := Some tags'\<rparr>, mc_sent := mc_sent c @ [(msg, Some tags)],
                       mc_msgid := msg_id msg\<rparr>, MATCH_PARENT))))
     | _ \<Rightarrow> Inl (MemErr ''match_command'')))"

definition match_dispatch ::
    "conf \<Rightarrow> os \<Rightarrow> 'x mail_ctx \<Rightarrow> matchop \<Rightarrow> ('x mail_ctx \<times> match_result) res" where
  "match_dispatch cf os c mo =
     (let m = mc_mail c; pure = (\<lambda>r. rbind r (\<lambda>x. Inr (c, x)));
          upd = (\<lambda>r. rbind r (\<lambda>(m, x). Inr (c\<lparr>mc_mail := m\<rparr>, x))) in
      case mo of
        Match_age time cmp \<Rightarrow> pure (match_age_match os m time cmp)
      | Match_all \<Rightarrow> Inr (c, match_all_match)
      | Match_account accs \<Rightarrow> pure (match_account_match cf os (mc_account c) m accs)
      | Match_attachment aop cmp num str \<Rightarrow> upd (match_attachment_match cf os m aop cmp num str)
      | Match_matched \<Rightarrow> Inr (c, match_matched_match (mc_matched c))
      | Match_unmatched \<Rightarrow> Inr (c, match_unmatched_match (mc_matched c))
      | Match_size sz cmp \<Rightarrow> Inr (c, match_size_match m sz cmp)
      | Match_tagged tag \<Rightarrow> pure (match_tagged_match cf os m tag)
      | Match_string str re \<Rightarrow> pure (match_string_match cf os m str re)
      | Match_command data \<Rightarrow> match_command_match cf c data
      | Match_regexp re area \<Rightarrow> upd (match_regexp_match os m re area)
      | Match_in_cache path key \<Rightarrow> pure (match_in_cache_match cf os m path key))"

section \<open>Delivery\<close>

datatype action_result = ACTION_DONE | ACTION_ERROR | ACTION_PARENT

type_synonym 'x deliver_fun = "deliver_ctx \<Rightarrow> deliver \<Rightarrow> 'x mail \<Rightarrow> (bool \<times> 'x mail) res"

definition start_action ::
    "'x deliver_fun \<Rightarrow> 'x mail_ctx \<Rightarrow> deliver_ctx \<Rightarrow> (action_result \<times> 'x mail_ctx) res" where
  "start_action dl c dx = (case (m_tags (mc_mail c), dx_actitem dx) of
     (Some tags, ActDeliver _ d) \<Rightarrow>
       rbind (add_tag tags ''action'' (act_name (dx_action dx))) (\<lambda>tags.
       rbind (add_tag tags ''rule'' (show_nat (mc_ruleidx c))) (\<lambda>tags.
       rbind (update_tags tags (dx_udata dx)) (\<lambda>tags.
       let m = (mc_mail c)\<lparr>m_tags := Some tags\<rparr> in
       if deliver_type d = DELIVER_INCHILD then
         rbind (dl dx d m) (\<lambda>(ok, m).
           case m_tags m of
             None \<Rightarrow> Inl (MemErr ''reset_tags'')
           | Some tags \<Rightarrow> rbind (reset_tags tags) (\<lambda>tags.
               Inr (if ok then ACTION_DONE else ACTION_ERROR, c\<lparr>mc_mail := m\<lparr>m_tags := Some tags\<rparr>\<rparr>)))
       else
         (let msg = \<lparr>msg_id = m_idx m, msg_type = MSG_ACTION, msg_error = 0, msg_mail = mail_send m,
                     msg_uid = ud_uid (dx_udata dx), msg_gid = ud_gid (dx_udata dx),
                     msg_actitem = Some (dx_actitem dx), msg_cmddata = None\<rparr>
          in rbind (reset_tags tags) (\<lambda>tags'.
            Inr (ACTION_PARENT, c\<lparr>mc_mail := m\<lparr>m_tags := Some tags'\<rparr>, mc_sent := mc_sent c @ [(msg, Some tags)],
                                  mc_msgid := msg_id msg\<rparr>))))))
   | _ \<Rightarrow> Inl (MemErr ''start_action''))"

text \<open>\<open>reopen\<close> gives what the shared memory of a mail holds; the private data freed with the old copy is
  dropped (\<open>mail_receive\<close> has moved it to the new one).\<close>

definition finish_action ::
    "('x mail \<Rightarrow> char list option) \<Rightarrow> 'x mail_ctx \<Rightarrow> deliver_ctx \<Rightarrow> 'x msg \<Rightarrow> strb option \<Rightarrow> (action_result \<times> 'x mail_ctx) res" where
  "finish_action reopen c dx msg buf =
     rbind (take_tags buf (mc_mail c)) (\<lambda>m.
     let c = c\<lparr>mc_mail := m\<rparr> in
     if msg_error msg \<noteq> 0 then Inr (ACTION_ERROR, c)
     else case dx_actitem dx of
       ActChain _ _ \<Rightarrow> Inl (MemErr ''finish_action'')
     | ActDeliver _ d \<Rightarrow>
         if deliver_type d \<noteq> DELIVER_WRBACK then Inr (ACTION_DONE, c)
         else case mail_receive (reopen (msg_mail msg)) m (msg_mail msg) True of
           (n, m, _) \<Rightarrow>
             if n \<noteq> 0 then Inr (ACTION_ERROR, c\<lparr>mc_mail := m\<rparr>)
             else rbind (trim_from m) (\<lambda>m. rbind (fill_wrapped m) (\<lambda>(lines, m).
               Inr (ACTION_DONE, c\<lparr>mc_mail := m\<rparr>))))"

definition mail_deliver ::
    "'x deliver_fun \<Rightarrow> ('x mail \<Rightarrow> char list option) \<Rightarrow> 'x mail_ctx \<Rightarrow> ('x msg \<times> strb option) option \<Rightarrow>
     (mail_result \<times> 'x mail_ctx) res" where
  "mail_deliver dl reopen c msg =
     rbind (set_wrapped (mc_mail c) NL) (\<lambda>m.
     let c = c\<lparr>mc_mail := m\<rparr>; dequeue = (\<lambda>c. c\<lparr>mc_dqueue := tl (mc_dqueue c)\<rparr>) in
     if mc_msgid c \<noteq> 0 then
       (case msg of
          None \<Rightarrow> Inr (MAIL_BLOCKED, c)
        | Some (msg, buf) \<Rightarrow>
            if msg_id msg \<noteq> mc_msgid c then Inr (MAIL_BLOCKED, c)
            else case mc_dqueue c of
              [] \<Rightarrow> Inl (MemErr ''mail_deliver'')
            | dx # _ \<Rightarrow> rbind (finish_action reopen (c\<lparr>mc_msgid := 0\<rparr>) dx msg buf) (\<lambda>(r, c).
                if r = ACTION_ERROR then Inr (MAIL_ERROR, c) else Inr (MAIL_CONTINUE, dequeue c)))
     else case mc_dqueue c of
       [] \<Rightarrow> Inr (MAIL_MATCH, c)
     | dx # _ \<Rightarrow> rbind (start_action dl c dx) (\<lambda>(r, c).
         case r of
           ACTION_ERROR \<Rightarrow> Inr (MAIL_ERROR, c)
         | ACTION_PARENT \<Rightarrow> Inr (MAIL_BLOCKED, c)
         | ACTION_DONE \<Rightarrow> Inr (MAIL_CONTINUE, dequeue c)))"

section \<open>The machine runs the rules as a recursive evaluator does\<close>

text \<open>Calls of \<open>mail_match\<close> until it returns something else than going on; a \<open>MAIL_DELIVER\<close> empties the
  queue before the next call in the program, here the queue is kept.\<close>

fun run_match ::
    "('x mail_ctx \<Rightarrow> matchop \<Rightarrow> ('x mail_ctx \<times> match_result) res) \<Rightarrow> conf \<Rightarrow> os \<Rightarrow> action list \<Rightarrow> nat \<Rightarrow>
     'x mail_ctx \<Rightarrow> (mail_result \<times> 'x mail_ctx) res" where
  "run_match mt cf os actions 0 c = Inl (Diverges ''mail_match'')"
| "run_match mt cf os actions (Suc n) c = rbind (mail_match mt cf os actions c None) (\<lambda>(r, c).
     if r = MAIL_CONTINUE \<or> r = MAIL_DELIVER then run_match mt cf os actions n c else Inr (r, c))"

text \<open>The evaluator: a valuation \<open>v\<close> of the conditions, that may depend on whether a rule has matched yet;
  the state is that flag, whether a stop rule was reached, and the queue.\<close>

type_synonym estate = "bool \<times> bool \<times> deliver_ctx list"

definition expr_value :: "(matchop \<Rightarrow> bool) \<Rightarrow> bool \<Rightarrow> expritem list \<Rightarrow> bool" where
  "expr_value v res es = foldl (\<lambda>res ei. apply_result ei res (v (ei_match ei))) res es"

fun eval_rule ::
    "(bool \<Rightarrow> matchop \<Rightarrow> bool) \<Rightarrow> (rule \<Rightarrow> deliver_ctx list \<Rightarrow> (bool \<times> bool \<times> deliver_ctx list) res) \<Rightarrow> rule \<Rightarrow> estate \<Rightarrow> (bool \<times> estate) res"
and eval_rules ::
    "(bool \<Rightarrow> matchop \<Rightarrow> bool) \<Rightarrow> (rule \<Rightarrow> deliver_ctx list \<Rightarrow> (bool \<times> bool \<times> deliver_ctx list) res) \<Rightarrow> rule list \<Rightarrow> estate \<Rightarrow> (bool \<times> estate) res" where
  "eval_rule v fill (Rule i ex us stop rs l acts) (mt, dn, q) =
     (if expr_value (v mt) False ex then
        (if rs \<noteq> [] then eval_rules v fill rs (mt, stop \<or> dn, q)
         else rbind (fill (Rule i ex us stop rs l acts) q) (\<lambda>(ok, _, q). Inr (ok, True, stop \<or> dn, q)))
      else Inr (True, mt, dn, q))"
| "eval_rules v fill [] s = Inr (True, s)"
| "eval_rules v fill (r # rs) (mt, dn, q) =
     (if dn then Inr (True, mt, dn, q)
      else rbind (eval_rule v fill r (mt, dn, q)) (\<lambda>(ok, s). if ok then eval_rules v fill rs s else Inr (False, s)))"

lemma skips_apply: "skips ei res \<Longrightarrow> apply_result ei res b = res"
  by (cases "ei_op ei") (auto simp: skips_def apply_result_def Let_def)

text \<open>The conditions in \<open>S\<close> only read the mail \<open>m\<close> of account \<open>a\<close> and the flag; \<open>v\<close> is what they say.\<close>

definition pure_match ::
    "account \<Rightarrow> 'x mail \<Rightarrow> (matchop \<Rightarrow> bool) \<Rightarrow> ('x mail_ctx \<Rightarrow> matchop \<Rightarrow> ('x mail_ctx \<times> match_result) res) \<Rightarrow>
     (bool \<Rightarrow> matchop \<Rightarrow> bool) \<Rightarrow> bool" where
  "pure_match a m S mt v \<longleftrightarrow> (\<forall>c mo. S mo \<longrightarrow> mc_account c = a \<longrightarrow> mc_mail c = m \<longrightarrow>
     mt c mo = Inr (c, of_bool_result (v (mc_matched c) mo)))"

text \<open>One call checks the item at the head of the expression.\<close>

definition ready :: "'x mail_ctx \<Rightarrow> bool" where
  "ready c \<longleftrightarrow> mc_msgid c = 0 \<and> wrapchar (mc_mail c) = SP"

lemma ctx_mail_same: "c\<lparr>mc_mail := mc_mail c\<rparr> = c"
  by simp

lemma mail_match_item:
  assumes p: "pure_match a m S mt v" and r: "ready c" "\<not> mc_done c" "mc_rule c \<noteq> []"
    and e: "mc_expritem c = ei # es" and am: "mc_account c = a" "mc_mail c = m" "S (ei_match ei)"
  shows "mail_match mt cf os actions c msg =
    next_expritem cf os actions (c\<lparr>mc_result := apply_result ei (mc_result c) (v (mc_matched c) (ei_match ei))\<rparr>)"
proof -
  have w: "set_wrapped (mc_mail c) SP = Inr (mc_mail c)" using r(1) by (simp add: set_wrapped_def ready_def)
  have m: "mt c (ei_match ei) = Inr (c, of_bool_result (v (mc_matched c) (ei_match ei)))" using p am by (simp add: pure_match_def)
  have sk: "skips ei (mc_result c) \<Longrightarrow> c\<lparr>mc_result := apply_result ei (mc_result c) (v (mc_matched c) (ei_match ei))\<rparr> = c"
    by (simp add: skips_apply)
  show ?thesis
    using r e w[unfolded am(2)] m sk am(2) by (auto simp: mail_match_def ready_def Let_def of_bool_result_def)
qed

lemma mail_match_first:
  assumes "ready c" "\<not> mc_done c" "mc_rule c = r # rs" and "mc_expritem c = []" and "r_expr r \<noteq> []"
  shows "mail_match mt cf os actions c msg = mail_match mt cf os actions (c\<lparr>mc_result := False, mc_expritem := r_expr r\<rparr>) msg"
proof -
  obtain e es where ex: "r_expr r = e # es" using assms(5) by (cases "r_expr r") auto
  have w: "set_wrapped (mc_mail c) SP = Inr (mc_mail c)" using assms(1) by (simp add: set_wrapped_def ready_def)
  show ?thesis using assms ex w by (simp add: mail_match_def ready_def)
qed

text \<open>The calls up to the last item.\<close>

lemma run_expr:
  assumes p: "pure_match a m S mt v" and "ready c" "\<not> mc_done c" "mc_rule c \<noteq> []" and "mc_expritem c = es" "es \<noteq> []"
    and "mc_account c = a" "mc_mail c = m" "\<forall>ei \<in> set es. S (ei_match ei)"
  shows "run_match mt cf os actions (length es + k) c =
    rbind (next_expritem cf os actions (c\<lparr>mc_expritem := [last es], mc_result := expr_value (v (mc_matched c)) (mc_result c) es\<rparr>))
      (\<lambda>(r, c). if r = MAIL_CONTINUE \<or> r = MAIL_DELIVER then run_match mt cf os actions k c else Inr (r, c))"
  using assms(2-9)
proof (induction es arbitrary: c)
  case Nil
  then show ?case by simp
next
  case (Cons ei es)
  let ?c = "c\<lparr>mc_result := apply_result ei (mc_result c) (v (mc_matched c) (ei_match ei))\<rparr>"
  have S: "S (ei_match ei)" using Cons.prems(8) by simp
  note mm = mail_match_item [OF p Cons.prems(1-4,6,7) S, of cf os actions None]
  show ?case
  proof (cases "es = []")
    case True
    have "?c = c\<lparr>mc_expritem := [ei], mc_result := apply_result ei (mc_result c) (v (mc_matched c) (ei_match ei))\<rparr>"
      using Cons.prems(4) True by simp
    with True mm show ?thesis by (simp add: expr_value_def)
  next
    case False
    let ?c' = "?c\<lparr>mc_expritem := es\<rparr>"
    have nx: "next_expritem cf os actions ?c = Inr (MAIL_CONTINUE, ?c')"
      using Cons.prems(4) False by (simp add: next_expritem_def Let_def)
    have r': "ready ?c'" "\<not> mc_done ?c'" "mc_rule ?c' \<noteq> []" "mc_expritem ?c' = es" using Cons.prems by (simp_all add: ready_def)
    have am: "mc_account ?c' = a" "mc_mail ?c' = m" "\<forall>ei \<in> set es. S (ei_match ei)" using Cons.prems by simp_all
    note IH = Cons.IH [OF r' False am]
    have "run_match mt cf os actions (length (ei # es) + k) c = run_match mt cf os actions (length es + k) ?c'"
      using mm nx by simp
    also have "\<dots> = rbind (next_expritem cf os actions (c\<lparr>mc_expritem := [last (ei # es)], mc_result := expr_value (v (mc_matched c)) (mc_result c) (ei # es)\<rparr>))
      (\<lambda>(r, c). if r = MAIL_CONTINUE \<or> r = MAIL_DELIVER then run_match mt cf os actions k c else Inr (r, c))"
      unfolding IH using False by (simp add: expr_value_def)
    finally show ?thesis .
  qed
qed


definition at_state :: "account \<Rightarrow> 'x mail \<Rightarrow> estate \<Rightarrow> 'x mail_ctx \<Rightarrow> bool" where
  "at_state a m s c \<longleftrightarrow> ready c \<and> mc_account c = a \<and> mc_mail c = m \<and> mc_expritem c = [] \<and>
     s = (mc_matched c, mc_done c, mc_dqueue c)"

text \<open>What a run reaches from a rule: the state \<open>s\<close> with the pointers after the rule (any pointers once a
  stop rule was reached), or the error.\<close>

definition reaches ::
    "('x mail_ctx \<Rightarrow> matchop \<Rightarrow> ('x mail_ctx \<times> match_result) res) \<Rightarrow> conf \<Rightarrow> os \<Rightarrow> action list \<Rightarrow> account \<Rightarrow> 'x mail \<Rightarrow>
     'x mail_ctx \<Rightarrow> bool \<times> estate \<Rightarrow> rule list \<times> rule list list \<Rightarrow> bool" where
  "reaches mt cf os actions a m c r ptrs \<longleftrightarrow> (case r of
     (True, s) \<Rightarrow> \<exists>n c'. (\<forall>k. run_match mt cf os actions (n + k) c = run_match mt cf os actions k c') \<and> at_state a m s c' \<and>
        (fst (snd s) \<or> (mc_rule c', mc_stack c') = ptrs)
   | (False, s) \<Rightarrow> \<exists>n c'. (\<forall>k. run_match mt cf os actions (n + k) c = Inr (MAIL_ERROR, c')) \<and>
        s = (mc_matched c', mc_done c', mc_dqueue c'))"

lemma reaches_trans:
  assumes run: "\<And>k. run_match mt cf os actions (n + k) c = run_match mt cf os actions k c'"
    and r: "reaches mt cf os actions a m c' r ptrs"
  shows "reaches mt cf os actions a m c r ptrs"
proof -
  have "run_match mt cf os actions ((n + n') + k) c = run_match mt cf os actions (n' + k) c'" for n' k
    using run [of "n' + k"] by (simp add: add.assoc)
  note A = this
  obtain ok s where rs: "r = (ok, s)" by (cases r)
  show ?thesis
  proof (cases ok)
    case True
    then obtain n' c2 where "\<forall>k. run_match mt cf os actions (n' + k) c' = run_match mt cf os actions k c2"
      "at_state a m s c2" "fst (snd s) \<or> (mc_rule c2, mc_stack c2) = ptrs"
      using r rs by (auto simp: reaches_def)
    with A have "\<forall>k. run_match mt cf os actions ((n + n') + k) c = run_match mt cf os actions k c2" by simp
    with \<open>at_state a m s c2\<close> \<open>fst (snd s) \<or> _\<close> True rs show ?thesis unfolding reaches_def by auto
  next
    case False
    then obtain n' c2 where "\<forall>k. run_match mt cf os actions (n' + k) c' = Inr (MAIL_ERROR, c2)"
      "s = (mc_matched c2, mc_done c2, mc_dqueue c2)"
      using r rs by (auto simp: reaches_def)
    with A have "\<forall>k. run_match mt cf os actions ((n + n') + k) c = Inr (MAIL_ERROR, c2)" by simp
    with \<open>s = _\<close> False rs show ?thesis unfolding reaches_def by auto
  qed
qed

lemma run_rule_expr:
  assumes p: "pure_match a m S mt v" and st: "at_state a m (mtc, False, q) c" and r: "mc_rule c = r # rs" and ne: "r_expr r \<noteq> []"
    and S: "\<forall>ei \<in> set (r_expr r). S (ei_match ei)"
  shows "\<exists>n ei. \<forall>k. run_match mt cf os actions (n + k) c =
    rbind (next_expritem cf os actions (c\<lparr>mc_expritem := [ei], mc_result := expr_value (v mtc) False (r_expr r)\<rparr>))
      (\<lambda>(r, c). if r = MAIL_CONTINUE \<or> r = MAIL_DELIVER then run_match mt cf os actions k c else Inr (r, c))"
proof -
  let ?c = "c\<lparr>mc_result := False, mc_expritem := r_expr r\<rparr>"
  have f: "ready c" "\<not> mc_done c" "mc_expritem c = []" "mc_matched c = mtc" using st by (simp_all add: at_state_def)
  obtain e es where ex: "r_expr r = e # es" using ne by (cases "r_expr r") auto
  have "run_match mt cf os actions (length (r_expr r) + k) c = run_match mt cf os actions (length (r_expr r) + k) ?c" for k
    using mail_match_first [OF f(1,2) r f(3) ne] ex by simp
  moreover have "ready ?c" "\<not> mc_done ?c" "mc_rule ?c \<noteq> []" "mc_expritem ?c = r_expr r" using f r by (simp_all add: ready_def)
  moreover have "mc_account ?c = a" "mc_mail ?c = m" using st by (simp_all add: at_state_def)
  note run_expr [OF p \<open>ready ?c\<close> \<open>\<not> mc_done ?c\<close> \<open>mc_rule ?c \<noteq> []\<close> \<open>mc_expritem ?c = r_expr r\<close> ne this S, of cf os actions]
  ultimately have "\<forall>k. run_match mt cf os actions (length (r_expr r) + k) c =
    rbind (next_expritem cf os actions (c\<lparr>mc_expritem := [last (r_expr r)], mc_result := expr_value (v mtc) False (r_expr r)\<rparr>))
      (\<lambda>(r, c). if r = MAIL_CONTINUE \<or> r = MAIL_DELIVER then run_match mt cf os actions k c else Inr (r, c))"
    using f(4) by simp
  then show ?thesis by blast
qed

text \<open>The parser gives every rule an expression.\<close>

fun wf_rule :: "(matchop \<Rightarrow> bool) \<Rightarrow> rule \<Rightarrow> bool" where
  "wf_rule S (Rule i ex us stop rs l acts) = (ex \<noteq> [] \<and> (\<forall>ei \<in> set ex. S (ei_match ei)) \<and> (\<forall>r \<in> set rs. wf_rule S r))"

lemma eval_rules_done: "eval_rules v fill rs (mt, True, q) = Inr (True, mt, True, q)"
  by (cases rs) simp_all

lemma reaches_now:
  "at_state a m s c \<Longrightarrow> fst (snd s) \<or> (mc_rule c, mc_stack c) = ptrs \<Longrightarrow> reaches mt cf os actions a m c (True, s) ptrs"
  unfolding reaches_def by simp (intro exI [of _ 0] exI [of _ c], auto)

lemma reaches_error: "reaches mt cf os actions a m c (False, s) ptrs \<Longrightarrow> reaches mt cf os actions a m c (False, s) ptrs'"
  by (simp add: reaches_def)

text \<open>The call for the last item of an expression whose value is false, and of one whose value is true.\<close>

lemma next_false:
  assumes "at_state a m s c" "mc_rule c = r # rs"
  shows "\<exists>c'. next_expritem cf os actions (c\<lparr>mc_expritem := [ei], mc_result := False\<rparr>) = Inr (MAIL_CONTINUE, c') \<and>
    at_state a m s c' \<and> (mc_rule c', mc_stack c') = pop_rules rs (mc_stack c)"
  using assms by (auto simp: next_expritem_def next_rule_def at_state_def ready_def split: prod.splits)

lemma next_nested:
  assumes "at_state a m (mtc, dn, q) c" "mc_rule c = r # rs" "r_rules r \<noteq> []"
  shows "\<exists>c'. next_expritem cf os actions (c\<lparr>mc_expritem := [ei], mc_result := True\<rparr>) = Inr (MAIL_CONTINUE, c') \<and>
    at_state a m (mtc, r_stop r \<or> dn, q) c' \<and> (mc_rule c', mc_stack c') = (r_rules r, (r # rs) # mc_stack c)"
  using assms by (auto simp: next_expritem_def at_state_def ready_def Let_def)

lemma next_fill:
  assumes "at_state a m (mtc, dn, q) c" "mc_rule c = r # rs" "r_rules r = []"
    and "fill_queue cf os actions a m r q = Inr (ok, delivers, q')"
  shows "\<exists>c'. next_expritem cf os actions (c\<lparr>mc_expritem := [ei], mc_result := True\<rparr>) =
        Inr (if ok then (if delivers then MAIL_DELIVER else MAIL_CONTINUE) else MAIL_ERROR, c') \<and>
      (mc_matched c', mc_done c', mc_dqueue c') = (True, r_stop r \<or> dn, q') \<and>
      (ok \<longrightarrow> at_state a m (True, r_stop r \<or> dn, q') c' \<and> (mc_rule c', mc_stack c') = pop_rules rs (mc_stack c))"
proof -
  have fq: "fill_queue cf os actions (mc_account c) (mc_mail c) r (mc_dqueue c) = Inr (ok, delivers, q')"
    using assms(1,4) by (simp add: at_state_def)
  show ?thesis using assms(1-3)
    by (cases ok; cases "r_stop r"; cases "pop_rules rs (mc_stack c)")
      (auto simp: next_expritem_def fill_actions_def at_state_def ready_def next_rule_def fq)
qed

lemma machine_refines:
  shows "fill = fill_queue cf os actions a m \<Longrightarrow> pure_match a m S mt v \<Longrightarrow> wf_rule S r \<Longrightarrow> at_state a m s c \<Longrightarrow> \<not> fst (snd s) \<Longrightarrow>
      mc_rule c = r # rs \<Longrightarrow> eval_rule v fill r s = Inr x \<Longrightarrow> reaches mt cf os actions a m c x (pop_rules rs (mc_stack c))"
    and "fill = fill_queue cf os actions a m \<Longrightarrow> pure_match a m S mt v \<Longrightarrow> \<forall>r \<in> set rl. wf_rule S r \<Longrightarrow> at_state a m s c \<Longrightarrow>
      fst (snd s) \<or> (mc_rule c, mc_stack c) = pop_rules rl st \<Longrightarrow>
      eval_rules v fill rl s = Inr x \<Longrightarrow> reaches mt cf os actions a m c x (pop_rules [] st)"
proof (induction v fill r s and v fill rl s arbitrary: c rs x and c st x rule: eval_rule_eval_rules.induct)
  case (1 v fill i ex us stop rs0 l acts mtc dn q)
  let ?r = "Rule i ex us stop rs0 l acts"
  have ne: "r_expr ?r \<noteq> []" and dn: "\<not> dn" using "1.prems" by simp_all
  have st: "at_state a m (mtc, False, q) c" using "1.prems" dn by simp
  obtain n ei where run: "\<And>k. run_match mt cf os actions (n + k) c =
    rbind (next_expritem cf os actions (c\<lparr>mc_expritem := [ei], mc_result := expr_value (v mtc) False ex\<rparr>))
      (\<lambda>(r, c). if r = MAIL_CONTINUE \<or> r = MAIL_DELIVER then run_match mt cf os actions k c else Inr (r, c))"
    using run_rule_expr [OF "1.prems"(2) st "1.prems"(6) ne, of cf os actions] "1.prems"(3) by auto
  show ?case
  proof (cases "expr_value (v mtc) False ex")
    case False
    obtain c' where c': "next_expritem cf os actions (c\<lparr>mc_expritem := [ei], mc_result := False\<rparr>) = Inr (MAIL_CONTINUE, c')"
      "at_state a m (mtc, False, q) c'" "(mc_rule c', mc_stack c') = pop_rules rs (mc_stack c)"
      using next_false [OF st "1.prems"(6)] by blast
    have x: "x = (True, mtc, False, q)" using "1.prems"(7) False dn by simp
    show ?thesis unfolding x
      by (rule reaches_trans [OF _ reaches_now]) (use run c' False in auto)
  next
    case True
    show ?thesis
    proof (cases "rs0 = []")
      case False
      obtain c' where c': "next_expritem cf os actions (c\<lparr>mc_expritem := [ei], mc_result := True\<rparr>) = Inr (MAIL_CONTINUE, c')"
        "at_state a m (mtc, stop \<or> dn, q) c'" "(mc_rule c', mc_stack c') = (rs0, (?r # rs) # mc_stack c)"
        using next_nested [OF st "1.prems"(6)] False dn by fastforce
      have e: "eval_rules v fill rs0 (mtc, stop \<or> dn, q) = Inr x" using "1.prems"(7) True False by simp
      have p: "pop_rules rs0 ((?r # rs) # mc_stack c) = (rs0, (?r # rs) # mc_stack c)" using False by (cases rs0) auto
      have "reaches mt cf os actions a m c' x (pop_rules [] ((?r # rs) # mc_stack c))"
        by (rule "1.IH" [OF True False "1.prems"(1,2) _ c'(2) _ e]) (use "1.prems"(3) c'(3) p in auto)
      then show ?thesis by (intro reaches_trans [of mt cf os actions n c c']) (use run c' True in auto)
    next
      case rs: True
      obtain ok delivers q' where fq: "fill_queue cf os actions a m ?r q = Inr (ok, delivers, q')"
        and x: "x = (ok, True, stop \<or> dn, q')"
        using "1.prems"(7,1) True rs by (auto simp: rbind_Inr_iff)
      obtain c' where c': "next_expritem cf os actions (c\<lparr>mc_expritem := [ei], mc_result := True\<rparr>) =
          Inr (if ok then (if delivers then MAIL_DELIVER else MAIL_CONTINUE) else MAIL_ERROR, c')"
        "(mc_matched c', mc_done c', mc_dqueue c') = (True, stop \<or> dn, q')"
        "ok \<longrightarrow> at_state a m (True, stop \<or> dn, q') c' \<and> (mc_rule c', mc_stack c') = pop_rules rs (mc_stack c)"
        using next_fill [OF st "1.prems"(6) _ fq, of ei] rs dn by auto
      show ?thesis
      proof (cases ok)
        case ok: True
        have x: "x = (True, True, stop \<or> dn, q')" using x ok by simp
        have run': "run_match mt cf os actions (n + k) c = run_match mt cf os actions k c'" for k
          using run [of k] c'(1) True ok by simp
        show ?thesis unfolding x
          by (rule reaches_trans [OF run' reaches_now]) (use c'(3) ok in auto)
      next
        case ok: False
        have "\<forall>k. run_match mt cf os actions (n + k) c = Inr (MAIL_ERROR, c')" using run c'(1) True ok by simp
        then show ?thesis unfolding x reaches_def using ok c'(2) by auto
      qed
    qed
  qed
next
  case (2 v fill s)
  then show ?case by (auto intro: reaches_now)
next
  case (3 v fill r rs mtc dn q)
  show ?case
  proof (cases dn)
    case True
    then show ?thesis using "3.prems" by (auto intro: reaches_now)
  next
    case False
    have ptr: "mc_rule c = r # rs" "mc_stack c = st" using "3.prems"(5) False by simp_all
    obtain ok s where e1: "eval_rule v fill r (mtc, dn, q) = Inr (ok, s)"
      and e2: "(if ok then eval_rules v fill rs s else Inr (False, s)) = Inr x"
      using "3.prems"(6) False by (auto simp: rbind_Inr_iff)
    have R: "reaches mt cf os actions a m c (ok, s) (pop_rules rs st)"
      using "3.IH"(1) [OF False "3.prems"(1,2) _ "3.prems"(4) _ ptr(1) e1] "3.prems"(3) False ptr(2) by simp
    show ?thesis
    proof (cases ok)
      case True
      obtain n c' where c': "\<And>k. run_match mt cf os actions (n + k) c = run_match mt cf os actions k c'" "at_state a m s c'"
        "fst (snd s) \<or> (mc_rule c', mc_stack c') = pop_rules rs st"
        using R True by (auto simp: reaches_def)
      have "reaches mt cf os actions a m c' x (pop_rules [] st)"
        by (rule "3.IH"(2) [OF False True "3.prems"(1,2) _ c'(2,3)]) (use e2 True "3.prems"(3) in auto)
      with c'(1) show ?thesis by (rule reaches_trans)
    next
      case False
      then have "x = (False, s)" using e2 by simp
      moreover have "reaches mt cf os actions a m c (False, s) (pop_rules rs st)" using R False by simp
      ultimately show ?thesis using reaches_error by blast
    qed
  qed
qed

text \<open>C1: the calls of \<open>mail_match\<close> that check one condition each, with the tree of rules walked by pointers
  and a stack, do what the recursive reading of the rules says: the rules are tried in order, the nested
  ones of a rule when its expression is true, a rule that is a leaf and matches queues its actions, no
  rule is looked at after one with \<open>stop\<close> has matched, and the implicit decision is set when the rules
  run out; and the machine does come to that end.\<close>

theorem rules_as_read:
  assumes "pure_match (mc_account c) (mc_mail c) S mt v" and "ready c" "\<not> mc_done c" and "mc_expritem c = []" "mc_stack c = []"
    and "\<forall>r \<in> set (mc_rule c). wf_rule S r"
    and "eval_rules v (fill_queue cf os actions (mc_account c) (mc_mail c)) (mc_rule c) (mc_matched c, False, mc_dqueue c) =
      Inr (ok, mtd, dn, q)"
  shows "\<exists>n c'. (\<forall>k \<ge> n. run_match mt cf os actions k c = Inr (if ok then MAIL_DONE else MAIL_ERROR, c')) \<and>
    mc_matched c' = mtd \<and> mc_done c' = dn \<and> mc_dqueue c' = q \<and>
    (ok \<longrightarrow> mc_mail c' = (if dn then mc_mail c else (mc_mail c)\<lparr>decision :=
      (if conf_impl_act cf = DECISION_DROP then DECISION_DROP else DECISION_KEEP)\<rparr>))"
proof -
  have st: "at_state (mc_account c) (mc_mail c) (mc_matched c, False, mc_dqueue c) c"
    using assms(2-4) by (simp add: at_state_def)
  have ptr: "fst (snd (mc_matched c, False, mc_dqueue c)) \<or> (mc_rule c, mc_stack c) = pop_rules (mc_rule c) []"
    using assms(5) by (cases "mc_rule c") simp_all
  have R: "reaches mt cf os actions (mc_account c) (mc_mail c) c (ok, mtd, dn, q) (pop_rules [] [])"
    by (rule machine_refines(2) [OF refl assms(1,6) st ptr assms(7)])
  show ?thesis
  proof (cases ok)
    case False
    then obtain n c' where "\<forall>k. run_match mt cf os actions (n + k) c = Inr (MAIL_ERROR, c')" "(mtd, dn, q) = (mc_matched c', mc_done c', mc_dqueue c')"
      using R by (auto simp: reaches_def)
    then show ?thesis using False by (intro exI [of _ n] exI [of _ c']) (auto simp: le_iff_add)
  next
    case True
    then obtain n c' where run: "\<And>k. run_match mt cf os actions (n + k) c = run_match mt cf os actions k c'"
      and at: "at_state (mc_account c) (mc_mail c) (mtd, dn, q) c'" and fin: "dn \<or> mc_rule c' = []"
      using R by (auto simp: reaches_def)
    have "wrapchar (mc_mail c') = SP" using at unfolding at_state_def ready_def by blast
    then have w: "set_wrapped (mc_mail c') SP = Inr (mc_mail c')" by (simp add: set_wrapped_def)
    let ?d = "if conf_impl_act cf = DECISION_DROP then DECISION_DROP else DECISION_KEEP"
    let ?c = "if dn then c' else c'\<lparr>mc_mail := (mc_mail c')\<lparr>decision := ?d\<rparr>\<rparr>"
    have "mail_match mt cf os actions c' None = Inr (MAIL_DONE, ?c)"
      using at fin w by (auto simp: mail_match_def at_state_def ready_def)
    then have "run_match mt cf os actions (n + Suc k) c = Inr (MAIL_DONE, ?c)" for k unfolding run by simp
    then have "\<forall>k \<ge> Suc n. run_match mt cf os actions k c = Inr (MAIL_DONE, ?c)" by (auto simp: le_iff_add)
    then show ?thesis using True at by (intro exI [of _ "Suc n"] exI [of _ ?c]) (auto simp: at_state_def)
  qed
qed

section \<open>An example\<close>

definition simple_cond :: "matchop \<Rightarrow> bool" where
  "simple_cond mo = (case mo of Match_all \<Rightarrow> True | Match_matched \<Rightarrow> True | Match_unmatched \<Rightarrow> True | Match_size _ _ \<Rightarrow> True | _ \<Rightarrow> False)"

definition simple_value :: "'x mail \<Rightarrow> bool \<Rightarrow> matchop \<Rightarrow> bool" where
  "simple_value m matched mo = (case mo of Match_matched \<Rightarrow> matched | Match_unmatched \<Rightarrow> \<not> matched
     | Match_size sz cmp \<Rightarrow> match_size_match m sz cmp = MATCH_TRUE | _ \<Rightarrow> True)"

lemma simple_pure: "pure_match a m simple_cond (match_dispatch cf os) (simple_value m)"
  by (auto simp: pure_match_def simple_cond_def simple_value_def match_dispatch_def Let_def of_bool_result_def
      match_all_match_def match_matched_match_def match_unmatched_match_def match_size_match_def split: matchop.splits)

definition sample_os :: os where
  "sample_os = \<lparr>os_fnmatch = (=), os_fnmatch_fold = (=), os_regexec = (\<lambda>re buf. (RegNoMatch, [])), os_time = 0,
     os_strptime = (\<lambda>s f. None), os_mktime = (\<lambda>t. 0), os_zone = (\<lambda>z. None), os_TZ = None, os_db_open = (\<lambda>p. True),
     os_db_contains = (\<lambda>p k. False), os_localtime = (\<lambda>t. None), os_strftime = (\<lambda>f t. [])\<rparr>"

definition sample_user :: userdata where
  "sample_user = \<lparr>ud_name = ''u'', ud_home = ''/home/u'', ud_uid = 1000, ud_gid = 1000\<rparr>"

definition sample_conf :: conf where
  "sample_conf = \<lparr>conf_strip = [], conf_cmd_user = ''u'', conf_def_user = ''u'', conf_user_order = [\<lambda>u. Some sample_user],
     conf_caches = [], conf_impl_act = DECISION_NONE, conf_host_name = None, conf_host_fqdn = None, conf_keep_all = False,
     conf_no_received = True, conf_purge_after = 0, conf_queue_high = 2, conf_queue_low = 1, conf_max_size = 1000, conf_timeout = 900,
     conf_del_big = False\<rparr>"

definition sample_account :: account where
  "sample_account = \<lparr>acc_idx = 0, acc_name = ''a'', acc_users = None, acc_keep = False\<rparr>"

definition sample_item :: "matchop \<Rightarrow> expritem" where
  "sample_item mo = \<lparr>ei_match = mo, ei_op = OP_NONE, ei_inverted = False\<rparr>"

text \<open>An action that drops, and one that runs it and then writes to a file.\<close>

definition sample_actions :: "action list" where
  "sample_actions =
     [\<lparr>act_name = ''d'', act_users = None, act_list = [ActDeliver 0 Deliver_drop]\<rparr>,
      \<lparr>act_name = ''c'', act_users = None, act_list = [ActChain 0 [''d''], ActDeliver 1 (Deliver_write ''f'' False)]\<rparr>]"

definition sample_leaf :: rule where
  "sample_leaf = Rule 2 [sample_item Match_unmatched, (sample_item (Match_size 100 CMP_LT))\<lparr>ei_op := OP_AND\<rparr>] None True [] None [''c'']"

definition sample_rules :: "rule list" where
  "sample_rules =
     [Rule 0 [sample_item (Match_size 100 CMP_GT)] None False [] None [''d''],
      Rule 1 [sample_item Match_all] None False [sample_leaf, Rule 3 [sample_item Match_all] None False [] None [''d'']] None [],
      Rule 4 [sample_item Match_all] None False [] None [''d'']]"

definition sample_mctx :: "unit mail_ctx" where
  "sample_mctx = \<lparr>mc_done = False, mc_msgid = 0, mc_account = sample_account, mc_sent = [],
     mc_mail = sample_mail\<lparr>m_tags := Some sample_tags, wrapchar := SP\<rparr>, mc_ruleidx = 0, mc_rule = sample_rules, mc_stack = [],
     mc_expritem = [], mc_result = False, mc_matched = False, mc_dqueue = []\<rparr>"

definition sample_queue :: "deliver_ctx list" where
  "sample_queue =
     [\<lparr>dx_action = sample_actions ! 0, dx_actitem = ActDeliver 0 Deliver_drop, dx_rule = sample_leaf, dx_udata = sample_user\<rparr>,
      \<lparr>dx_action = sample_actions ! 1, dx_actitem = ActDeliver 1 (Deliver_write ''f'' False), dx_rule = sample_leaf, dx_udata = sample_user\<rparr>]"

lemma sample_fill:
  "fill_queue sample_conf sample_os sample_actions sample_account (mc_mail sample_mctx) sample_leaf [] = Inr (True, True, sample_queue)"
  by code_simp

lemma sample_eval:
  "eval_rules (simple_value (mc_mail sample_mctx)) (fill_queue sample_conf sample_os sample_actions sample_account (mc_mail sample_mctx))
     sample_rules (False, False, []) = Inr (True, True, True, sample_queue)"
  by code_simp

lemma rules_as_read_witness:
  "\<exists>n c'. run_match (match_dispatch sample_conf sample_os) sample_conf sample_os sample_actions n sample_mctx = Inr (MAIL_DONE, c') \<and>
     mc_matched c' \<and> mc_done c' \<and> mc_dqueue c' = sample_queue"
proof -
  have "ready sample_mctx" "\<not> mc_done sample_mctx" "mc_expritem sample_mctx = []" "mc_stack sample_mctx = []"
    by (simp_all add: ready_def sample_mctx_def)
  moreover have "\<forall>r \<in> set (mc_rule sample_mctx). wf_rule simple_cond r"
    by (simp add: sample_mctx_def sample_rules_def sample_leaf_def sample_item_def simple_cond_def)
  moreover have "mc_rule sample_mctx = sample_rules" "mc_matched sample_mctx = False" "mc_dqueue sample_mctx = []"
    "mc_account sample_mctx = sample_account" by (simp_all add: sample_mctx_def)
  ultimately show ?thesis
    using rules_as_read [OF simple_pure [of "mc_account sample_mctx" "mc_mail sample_mctx" sample_conf sample_os],
      of sample_conf sample_os sample_actions True True True sample_queue] sample_eval by auto
qed

end
