(* ===== verification/Io.thy ===== *)
theory Io imports Buffer begin

text \<open>
  Buffered non-blocking input and output (\<^verbatim>\<open>io.c\<close>): reading and writing a descriptor through two
  buffers, the lines in the read buffer, and the loops that poll until a line, an amount of data or an
  empty write buffer is there. What the system answers to \<open>read\<close>, \<open>write\<close> and \<open>poll\<close> (and the SSL calls)
  is the list of answers kept with the descriptor; a list that has run out is a call that would block. Causes
  are given without the text of \<open>errno\<close>, and POLLNVAL counts as POLLERR.
\<close>

section \<open>Descriptors and the state of an io\<close>

text \<open>
  \<open>SockData\<close> is data that \<open>read\<close> hands over in as many calls as the space it is given needs;
  \<open>SockWant\<close> is the SSL result that asks for the other direction.
\<close>

datatype sock = SockData "char list" | SockEOF | SockAgain | SockWant | SockError "char list"
datatype wsock = SockTake nat | WSockEOF | WSockAgain | WSockWant | WSockError "char list"

record io =
  io_ssl :: bool
  io_dup :: "char list option"
  io_in :: "sock list"
  io_out :: "wsock list"
  io_sent :: "char list"
  io_error :: "char list option"
  IOF_NEEDFILL :: bool
  IOF_NEEDPUSH :: bool
  IOF_CLOSED :: bool
  IOF_MUSTWR :: bool
  io_rd :: "buffer option"
  io_wr :: "buffer option"
  io_lbuf :: "char list option"
  io_llen :: size_t
  io_eol :: "char list"

definition IO_MAXLINELEN :: nat where "IO_MAXLINELEN = 1024 * 1024"
definition IO_BLOCKSIZE :: size_t where "IO_BLOCKSIZE = 16384"
definition IO_WATERMARK :: size_t where "IO_WATERMARK = 12288"
definition IO_LINESIZE :: size_t where "IO_LINESIZE = 256"
definition IO_FLUSHSIZE :: size_t where "IO_FLUSHSIZE = 2 * IO_BLOCKSIZE"

text \<open>A buffer that was freed by \<open>io_readonly\<close> or \<open>io_writeonly\<close> must not be used.\<close>

definition the_buf :: "buffer option \<Rightarrow> buffer res" where
  "the_buf b = (case b of None \<Rightarrow> Inl (MemErr ''NULL buffer'') | Some b \<Rightarrow> Inr b)"

lemma the_buf_simps [simp]: "the_buf None = Inl (MemErr ''NULL buffer'')" "the_buf (Some b) = Inr b"
  by (simp_all add: the_buf_def)

definition io_create :: "bool \<Rightarrow> sock list \<Rightarrow> wsock list \<Rightarrow> char list \<Rightarrow> io res" where
  "io_create ssl ins outs eol =
     rbind (buffer_create IO_BLOCKSIZE) (\<lambda>rd. rbind (buffer_create IO_BLOCKSIZE) (\<lambda>wr.
       Inr \<lparr>io_ssl = ssl, io_dup = None, io_in = ins, io_out = outs, io_sent = [], io_error = None,
            IOF_NEEDFILL = False, IOF_NEEDPUSH = False, IOF_CLOSED = False, IOF_MUSTWR = False,
            io_rd = Some rd, io_wr = Some wr, io_lbuf = None, io_llen = 0, io_eol = eol\<rparr>))"

definition io_readonly :: "io \<Rightarrow> io" where "io_readonly i = i\<lparr>io_wr := None\<rparr>"
definition io_writeonly :: "io \<Rightarrow> io" where "io_writeonly i = i\<lparr>io_rd := None\<rparr>"

section \<open>Filling and pushing\<close>

text \<open>The size of the answers that are left, for the termination of the loop of \<open>io_fill\<close>.\<close>

fun sock_size :: "sock list \<Rightarrow> nat" where
  "sock_size [] = 0"
| "sock_size (SockData d # ss) = length d + 1 + sock_size ss"
| "sock_size (_ # ss) = 1 + sock_size ss"

text \<open>One \<open>read\<close> of at most \<open>n\<close> bytes.\<close>

fun sock_read :: "nat \<Rightarrow> sock list \<Rightarrow> sock \<times> sock list" where
  "sock_read n [] = (SockAgain, [])"
| "sock_read n (SockData d # ss) =
     (if d = [] then (SockEOF, ss)
      else if length d \<le> n then (SockData d, ss)
      else (SockData (take n d), SockData (drop n d) # ss))"
| "sock_read n (s # ss) = (s, ss)"

lemma sock_read_size:
  "sock_read n ss = (SockData d, ss') \<Longrightarrow> d \<noteq> [] \<Longrightarrow> sock_size ss' < sock_size ss"
  by (induction n ss rule: sock_read.induct) (auto split: if_splits)

function io_fill :: "io \<Rightarrow> (int \<times> io) res" where
  "io_fill i =
     (case rbind (the_buf (io_rd i)) (\<lambda>rd. buffer_ensure rd IO_WATERMARK) of
        Inl e \<Rightarrow> Inl e
      | Inr rd \<Rightarrow>
          (let i = i\<lparr>io_rd := Some rd\<rparr> in
           case sock_read (unat (BUFFER_FREE rd)) (io_in i) of (s, ins) \<Rightarrow>
             (case s of
                SockEOF \<Rightarrow> Inr (0, i\<lparr>io_in := ins\<rparr>)
              | SockAgain \<Rightarrow> Inr (1, i\<lparr>io_in := ins\<rparr>)
              | SockWant \<Rightarrow> Inr (1, i\<lparr>io_in := ins, IOF_NEEDFILL := (io_ssl i \<or> IOF_NEEDFILL i)\<rparr>)
              | SockError e \<Rightarrow> Inr (- 1, i\<lparr>io_in := ins, io_error := Some e\<rparr>)
              | SockData d \<Rightarrow>
                  if d = [] then Inr (0, i\<lparr>io_in := ins\<rparr>)
                  else
                    (case rbind (mem_write (b_base rd) (BUFFER_IN rd) d)
                            (\<lambda>mem. buffer_add (rd\<lparr>b_base := mem\<rparr>) (word_of_nat (length d))) of
                       Inl e \<Rightarrow> Inl e
                     | Inr rd \<Rightarrow> io_fill (i\<lparr>io_in := ins, io_rd := Some rd,
                         io_dup := map_option (\<lambda>x. x @ ''< '' @ d) (io_dup i), IOF_NEEDFILL := False\<rparr>)))))"
  by pat_completeness auto
termination
  by (relation "measure (\<lambda>i. sock_size (io_in i))") (auto dest: sock_read_size [OF sym])

declare io_fill.simps [simp del]

text \<open>One \<open>write\<close> of \<open>n\<close> bytes; it takes at least one.\<close>

fun sock_write :: "nat \<Rightarrow> wsock list \<Rightarrow> wsock \<times> wsock list" where
  "sock_write n [] = (WSockAgain, [])"
| "sock_write n (SockTake k # ss) = (if k = 0 then (WSockEOF, ss) else (SockTake (min k n), ss))"
| "sock_write n (s # ss) = (s, ss)"

definition io_push :: "io \<Rightarrow> (int \<times> io) res" where
  "io_push i = rbind (the_buf (io_wr i)) (\<lambda>wr.
     if BUFFER_USED wr = 0 then Inr (1, i)
     else
       (case sock_write (unat (BUFFER_USED wr)) (io_out i) of (s, outs) \<Rightarrow>
          let i = i\<lparr>io_out := outs\<rparr> in
          (case s of
             WSockEOF \<Rightarrow> Inr (0, i)
           | WSockAgain \<Rightarrow> Inr (1, i)
           | WSockWant \<Rightarrow> Inr (1, i\<lparr>IOF_NEEDPUSH := (io_ssl i \<or> IOF_NEEDPUSH i)\<rparr>)
           | WSockError e \<Rightarrow> Inr (- 1, i\<lparr>io_error := Some e\<rparr>)
           | SockTake n \<Rightarrow>
               rbind (mem_read (b_base wr) (BUFFER_OUT wr) n) (\<lambda>d.
               rbind (buffer_remove wr (word_of_nat n)) (\<lambda>wr.
                 Inr (1, i\<lparr>io_wr := Some wr, io_sent := io_sent i @ d,
                   io_dup := map_option (\<lambda>x. x @ ''> '' @ d) (io_dup i), IOF_NEEDPUSH := False\<rparr>))))))"

section \<open>Polling\<close>

record revents = POLLIN :: bool  POLLOUT :: bool  POLLERR :: bool  POLLHUP :: bool

text \<open>What \<open>poll\<close> is asked for; \<open>None\<close> for a NULL io.\<close>

definition io_before_poll :: "io option \<Rightarrow> int \<times> (bool \<times> bool) option" where
  "io_before_poll io = (case io of
     None \<Rightarrow> (1, None)
   | Some i \<Rightarrow>
       if io_error i \<noteq> None then (- 1, None)
       else if IOF_CLOSED i then (0, None)
       else (1, Some (io_rd i \<noteq> None, case io_wr i of None \<Rightarrow> False
              | Some wr \<Rightarrow> BUFFER_USED wr \<noteq> 0 \<or> IOF_NEEDFILL i \<or> IOF_NEEDPUSH i \<or> IOF_MUSTWR i)))"

text \<open>A transfer that found the other end closed sets the flag.\<close>

definition closing :: "(int \<times> io) res \<Rightarrow> (io \<Rightarrow> (int \<times> io) res) \<Rightarrow> (int \<times> io) res" where
  "closing r f = rbind r (\<lambda>(n, i).
     if n = 0 then Inr (0, i\<lparr>IOF_CLOSED := True\<rparr>) else if n = - 1 then Inr (- 1, i) else f i)"

definition io_after_poll :: "io option \<Rightarrow> revents \<Rightarrow> (int \<times> io option) res" where
  "io_after_poll io r = (case io of
     None \<Rightarrow> Inr (1, None)
   | Some i \<Rightarrow>
       rbind
         (if POLLERR r \<or> POLLHUP r \<and> \<not> POLLIN r then Inr (0, i\<lparr>IOF_CLOSED := True\<rparr>)
          else if IOF_NEEDPUSH i \<or> IOF_NEEDFILL i then
            (if POLLOUT r \<or> POLLIN r then
               closing (if IOF_NEEDPUSH i then io_push i else Inr (1, i)) (\<lambda>i.
               closing (if IOF_NEEDFILL i then io_fill i else Inr (1, i)) (\<lambda>i. Inr (1, i)))
             else Inr (1, i))
          else
            closing (if io_wr i \<noteq> None \<and> POLLOUT r then io_push i else Inr (1, i)) (\<lambda>i.
            closing (if io_rd i \<noteq> None \<and> POLLIN r then io_fill i else Inr (1, i)) (\<lambda>i. Inr (1, i))))
         (\<lambda>(n, i). Inr (n, Some i)))"

text \<open>What one call of \<open>poll\<close> answers: the events of each io, a timeout, or an error number.\<close>

datatype errno = EAGAIN | ETIMEDOUT | EINTR | EOTHER
datatype poll_answer = PollReady "revents list" | PollTimeout | PollFailed errno

text \<open>The result of \<open>io_polln\<close>, \<open>errno\<close> when it is -1 and the cause it gives.\<close>

type_synonym poll_result = "int \<times> errno option \<times> char list option"

fun before_all :: "io option list \<Rightarrow> nat \<Rightarrow> (int \<times> nat) option" where
  "before_all [] n = None"
| "before_all (io # ios) n = (if fst (io_before_poll io) = 1 then before_all ios (n + 1) else Some (fst (io_before_poll io), n))"

fun after_all :: "io option list \<Rightarrow> revents list \<Rightarrow> (bool \<times> io option list) res" where
  "after_all [] rs = Inr (True, [])"
| "after_all (io # ios) rs = rbind (io_after_poll io (hd rs)) (\<lambda>(n, io).
     if n = - 1 then Inr (False, io # ios)
     else rbind (after_all ios (tl rs)) (\<lambda>(ok, ios). Inr (ok, io # ios)))"

definition io_cause :: "io option list \<Rightarrow> char list option" where
  "io_cause ios = (case List.find (\<lambda>io. case io of None \<Rightarrow> False | Some i \<Rightarrow> io_error i \<noteq> None) ios of
     Some (Some i) \<Rightarrow> io_error i | _ \<Rightarrow> None)"

definition io_polln :: "io option list \<Rightarrow> int \<Rightarrow> poll_answer \<Rightarrow> (poll_result \<times> io option list) res" where
  "io_polln ios timeout ans = (case before_all ios 0 of
     Some (n, k) \<Rightarrow> Inr (if n = 0 then ((0, None, None), ios) else ((- 1, None, io_cause ios), ios))
   | None \<Rightarrow>
       (case ans of
          PollTimeout \<Rightarrow>
            if timeout = 0 then Inr ((- 1, Some EAGAIN, None), ios)
            else Inr ((- 1, Some ETIMEDOUT, Some ''io: poll''), ios)
        | PollFailed e \<Rightarrow>
            if e = EINTR then Inr ((1, None, None), ios) else Inr ((- 1, Some e, Some ''io: poll''), ios)
        | PollReady rs \<Rightarrow> rbind (after_all ios rs) (\<lambda>(ok, ios).
            Inr (if ok then ((1, None, None), ios) else ((- 1, None, io_cause ios), ios)))))"

text \<open>The answers of the following calls of \<open>poll\<close>; when they have run out the call does not return.\<close>

definition io_poll :: "io \<Rightarrow> int \<Rightarrow> poll_answer \<Rightarrow> (poll_result \<times> io) res" where
  "io_poll i timeout ans = rbind (io_polln [Some i] timeout ans) (\<lambda>(r, ios). case ios of
     [Some i] \<Rightarrow> Inr (r, i) | _ \<Rightarrow> Inl (MemErr ''io_poll''))"

section \<open>Blocks\<close>

definition io_read :: "io \<Rightarrow> size_t \<Rightarrow> (char list option \<times> io) res" where
  "io_read i len =
     (if io_error i \<noteq> None then Inr (None, i)
      else rbind (the_buf (io_rd i)) (\<lambda>rd.
        if BUFFER_USED rd < len then Inr (None, i)
        else rbind (xmalloc len) (\<lambda>_. rbind (buffer_read rd len) (\<lambda>(d, rd). Inr (Some d, i\<lparr>io_rd := Some rd\<rparr>)))))"

definition io_read2 :: "io \<Rightarrow> size_t \<Rightarrow> (int \<times> char list \<times> io) res" where
  "io_read2 i len =
     (if io_error i \<noteq> None then Inr (- 1, [], i)
      else rbind (the_buf (io_rd i)) (\<lambda>rd.
        if BUFFER_USED rd < len then Inr (1, [], i)
        else rbind (buffer_read rd len) (\<lambda>(d, rd). Inr (0, d, i\<lparr>io_rd := Some rd\<rparr>))))"

definition io_write :: "io \<Rightarrow> char list \<Rightarrow> io res" where
  "io_write i data =
     (if io_error i \<noteq> None then Inr i
      else rbind (the_buf (io_wr i)) (\<lambda>wr. rbind (buffer_write wr data) (\<lambda>wr. Inr (i\<lparr>io_wr := Some wr\<rparr>))))"

section \<open>Lines\<close>

text \<open>The search for the end of a line in the bytes \<open>base\<close>, from \<open>pos\<close>.\<close>

function eol_loop :: "char list \<Rightarrow> char list \<Rightarrow> nat \<Rightarrow> nat option" where
  "eol_loop eol base pos =
     (case memchr (drop pos base) (hd (eol @ [NUL])) of
        None \<Rightarrow> None
      | Some i \<Rightarrow>
          if length base < pos + i + length eol then None
          else if take (length eol) (drop (pos + i) base) = eol then Some (pos + i)
          else eol_loop eol base (pos + i + 1))"
  by pat_completeness auto
termination
  by (relation "measure (\<lambda>(_, base, pos). length base - pos)") (auto dest!: memchr_less)

declare eol_loop.simps [simp del]

text \<open>
  A line is the block \<open>*buf\<close> with its length \<open>*len\<close>; the line itself is its first bytes, up to the NUL
  written behind them.
\<close>

definition io_readline2 :: "io \<Rightarrow> char list \<Rightarrow> size_t \<Rightarrow> (char list option \<times> char list \<times> size_t \<times> io) res" where
  "io_readline2 i buf len =
     (if io_error i \<noteq> None then Inr (None, buf, len, i)
      else rbind (the_buf (io_rd i)) (\<lambda>rd.
        let used = unat (BUFFER_USED rd); maxlen = min used IO_MAXLINELEN; eollen = length (io_eol i);
            line = (\<lambda>sz cut. rbind (ensure_for buf len (word_of_nat sz) 1) (\<lambda>(buf, len).
              rbind (if sz = 0 \<and> cut then Inr ([], rd) else buffer_read rd (word_of_nat sz)) (\<lambda>(d, rd).
              rbind (mem_write buf 0 (d @ [NUL])) (\<lambda>buf.
              rbind (if cut then buffer_remove rd (word_of_nat eollen) else Inr rd) (\<lambda>rd.
                Inr (Some d, buf, len, i\<lparr>io_rd := Some rd\<rparr>))))))
        in if used < eollen then Inr (None, buf, len, i)
           else rbind (mem_read (b_base rd) (BUFFER_OUT rd) maxlen) (\<lambda>base.
             case eol_loop (io_eol i) base 0 of
               Some n \<Rightarrow> line n True
             | None \<Rightarrow>
                 if maxlen = IO_MAXLINELEN then
                   Inr (None, buf, len, i\<lparr>io_error := Some ''io: maximum line length exceeded''\<rparr>)
                 else if \<not> IOF_CLOSED i then Inr (None, buf, len, i)
                 else line used False)))"

text \<open>The line buffer of the io, allocated when there is none; it is given away with the line.\<close>

definition with_lbuf :: "io \<Rightarrow> (char list \<times> size_t) res" where
  "with_lbuf i = (case io_lbuf i of
     None \<Rightarrow> rbind (xmalloc IO_LINESIZE) (\<lambda>b. Inr (b, IO_LINESIZE)) | Some b \<Rightarrow> Inr (b, io_llen i))"

definition io_readline :: "io \<Rightarrow> (char list option \<times> io) res" where
  "io_readline i =
     (if io_error i \<noteq> None then Inr (None, i)
      else rbind (with_lbuf i) (\<lambda>(buf, len).
        rbind (io_readline2 i buf len) (\<lambda>(line, buf, len, i).
          Inr (line, i\<lparr>io_lbuf := (if line = None then Some buf else None), io_llen := len\<rparr>))))"

text \<open>\<open>io_vwriteline\<close> with the text the format expands to; \<open>None\<close> is a NULL format.\<close>

definition io_vwriteline :: "io \<Rightarrow> char list option \<Rightarrow> io res" where
  "io_vwriteline i text' =
     (if io_error i \<noteq> None then Inr i
      else if INT_MAX < int (length (case text' of None \<Rightarrow> [] | Some s \<Rightarrow> s)) then Inl (FatalX ''vsnprintf failed'')
      else rbind (case text' of
          None \<Rightarrow> Inr i
        | Some s \<Rightarrow>
            rbind (the_buf (io_wr i)) (\<lambda>wr.
            rbind (buffer_ensure wr (word_of_nat (length s + 1))) (\<lambda>wr.
            rbind (mem_write (b_base wr) (BUFFER_IN wr) (s @ [NUL])) (\<lambda>mem.
            rbind (buffer_add (wr\<lparr>b_base := mem\<rparr>) (word_of_nat (length s))) (\<lambda>wr.
              Inr (i\<lparr>io_wr := Some wr\<rparr>)))))) (\<lambda>i. io_write i (io_eol i)))"

definition io_writeline :: "io \<Rightarrow> char list option \<Rightarrow> io res" where
  "io_writeline i text' = (if io_error i \<noteq> None then Inr i else io_vwriteline i text')"

section \<open>Loops\<close>

text \<open>The loops poll again until they are done; they take an answer of \<open>poll\<close> each time round.\<close>

fun io_pollline2 :: "io \<Rightarrow> char list \<Rightarrow> size_t \<Rightarrow> int \<Rightarrow> poll_answer list \<Rightarrow>
    (poll_result \<times> char list option \<times> char list \<times> size_t \<times> io \<times> poll_answer list) res" where
  "io_pollline2 i buf len timeout answers = rbind (io_readline2 i buf len) (\<lambda>(line, buf, len, i).
     if line \<noteq> None then Inr ((1, None, None), line, buf, len, i, answers)
     else case answers of
       [] \<Rightarrow> Inl (Diverges ''poll'')
     | ans # answers \<Rightarrow> rbind (io_poll i timeout ans) (\<lambda>(r, i).
         if fst r \<noteq> 1 then Inr (r, None, buf, len, i, answers)
         else io_pollline2 i buf len timeout answers))"

declare io_pollline2.simps [simp del]

definition io_pollline :: "io \<Rightarrow> int \<Rightarrow> poll_answer list \<Rightarrow> (poll_result \<times> char list option \<times> io \<times> poll_answer list) res" where
  "io_pollline i timeout answers = rbind (with_lbuf i) (\<lambda>(buf, len).
     rbind (io_pollline2 i buf len timeout answers) (\<lambda>(r, line, buf, len, i, answers).
       Inr (r, line, i\<lparr>io_lbuf := (if fst r = 1 then None else Some buf), io_llen := len\<rparr>, answers)))"

fun io_flush :: "io \<Rightarrow> int \<Rightarrow> poll_answer list \<Rightarrow> (int \<times> io \<times> poll_answer list) res" where
  "io_flush i timeout answers = rbind (the_buf (io_wr i)) (\<lambda>wr.
     if BUFFER_USED wr = 0 then Inr (0, i, answers)
     else case answers of
       [] \<Rightarrow> Inl (Diverges ''poll'')
     | ans # answers \<Rightarrow> rbind (io_poll i timeout ans) (\<lambda>(r, i).
         if fst r \<noteq> 1 then Inr (- 1, i, answers) else io_flush i timeout answers))"

declare io_flush.simps [simp del]

fun io_wait :: "io \<Rightarrow> size_t \<Rightarrow> int \<Rightarrow> poll_answer list \<Rightarrow> (int \<times> io \<times> poll_answer list) res" where
  "io_wait i len timeout answers = rbind (the_buf (io_rd i)) (\<lambda>rd.
     if len \<le> BUFFER_USED rd then Inr (0, i, answers)
     else case answers of
       [] \<Rightarrow> Inl (Diverges ''poll'')
     | ans # answers \<Rightarrow> rbind (io_poll i timeout ans) (\<lambda>(r, i).
         if fst r \<noteq> 1 then Inr (- 1, i, answers) else io_wait i len timeout answers))"

declare io_wait.simps [simp del]

definition io_update :: "io \<Rightarrow> int \<Rightarrow> poll_answer \<Rightarrow> (poll_result \<times> io) res" where
  "io_update i timeout ans = rbind (the_buf (io_wr i)) (\<lambda>wr.
     if BUFFER_USED wr < IO_FLUSHSIZE then Inr ((1, None, None), i) else io_poll i timeout ans)"

section \<open>Finding the end of a line\<close>

definition eol_at :: "char list \<Rightarrow> char list \<Rightarrow> nat \<Rightarrow> bool" where
  "eol_at eol s n \<longleftrightarrow> take (length eol) (drop n s) = eol"

lemma eol_at_bound: "eol \<noteq> [] \<Longrightarrow> eol_at eol s n \<Longrightarrow> n + length eol \<le> length s"
proof -
  assume "eol \<noteq> []" "eol_at eol s n"
  then have "length (take (length eol) (drop n s)) = length eol" by (simp add: eol_at_def)
  then have "min (length s - n) (length eol) = length eol" by simp
  moreover have "0 < length eol" using \<open>eol \<noteq> []\<close> by simp
  ultimately show ?thesis by linarith
qed

lemma eol_at_take: "n + length eol \<le> m \<Longrightarrow> eol_at eol (take m s) n \<longleftrightarrow> eol_at eol s n"
  by (simp add: eol_at_def drop_take min_absorb1 le_diff_conv2)

lemma eol_at_first: "eol \<noteq> [] \<Longrightarrow> eol_at eol s n \<Longrightarrow> n < length s \<and> s ! n = hd eol"
  using eol_at_bound [of eol s n] by (cases eol) (auto simp: eol_at_def Cons_nth_drop_Suc [symmetric] neq_Nil_conv)

lemma find_over_app: "\<forall>x \<in> set xs. \<not> P x \<Longrightarrow> List.find P (xs @ ys) = List.find P ys"
  by (induction xs) auto

lemma find_from:
  assumes "\<forall>k. a \<le> k \<and> k < b \<longrightarrow> \<not> P k" and "a \<le> b" "b \<le> c"
  shows "List.find P [a..<c] = List.find P [b..<c]"
proof -
  have "[a..<c] = [a..<b] @ [b..<c]" using assms(2,3) by (metis le_Suc_ex upt_add_eq_append)
  moreover have "List.find P ([a..<b] @ ys) = List.find P ys" for ys
    by (rule find_over_app) (use assms(1) in auto)
  ultimately show ?thesis by simp
qed

lemma eol_loop_find:
  "eol \<noteq> [] \<Longrightarrow> eol_loop eol base pos = List.find (eol_at eol base) [pos..<length base]"
proof (induction eol base pos rule: eol_loop.induct)
  case (1 eol base pos)
  have hd: "hd (eol @ [NUL]) = hd eol" using "1.prems" by simp
  show ?case
  proof (cases "memchr (drop pos base) (hd eol)")
    case None
    have "\<not> eol_at eol base k" if "pos \<le> k" "k < length base" for k
    proof
      assume "eol_at eol base k"
      then have "base ! k = hd eol" using eol_at_first "1.prems" by blast
      then have "hd eol \<in> set (drop pos base)" using that by (auto simp: in_set_conv_nth intro!: exI [of _ "k - pos"])
      with None show False by (simp add: memchr_None)
    qed
    then have "List.find (eol_at eol base) [pos..<length base] = None" by (auto simp: find_None_iff)
    with None hd show ?thesis by (simp add: eol_loop.simps [of eol base pos])
  next
    case (Some i)
    note M = Some [unfolded memchr_Some]
    have before: "\<forall>k. pos \<le> k \<and> k < pos + i \<longrightarrow> \<not> eol_at eol base k"
    proof (intro allI impI notI)
      fix k assume k: "pos \<le> k \<and> k < pos + i" and e: "eol_at eol base k"
      then have "base ! k = hd eol" "k < length base" using eol_at_first "1.prems" by blast+
      moreover have "hd eol \<notin> set (take i (drop pos base))" using M by simp
      moreover have "take i (drop pos base) ! (k - pos) \<in> set (take i (drop pos base))"
        using k M by (intro nth_mem) auto
      moreover have "take i (drop pos base) ! (k - pos) = base ! k"
      proof -
        have "k - pos < i" "pos + (k - pos) = k" "pos \<le> length base" using k M by auto
        then show ?thesis using M by simp
      qed
      ultimately show False by simp
    qed
    have il: "pos + i < length base" using M by auto
    have F: "List.find (eol_at eol base) [pos..<length base] = List.find (eol_at eol base) [pos + i..<length base]"
      using find_from [OF before] il by simp
    have U: "[pos + i..<length base] = (pos + i) # [pos + i + 1..<length base]" using il by (simp add: upt_conv_Cons)
    consider (short) "length base < pos + i + length eol" | (hit) "\<not> length base < pos + i + length eol" "eol_at eol base (pos + i)"
      | (miss) "\<not> length base < pos + i + length eol" "\<not> eol_at eol base (pos + i)" by blast
    then show ?thesis
    proof cases
      case short
      have "\<not> eol_at eol base k" if "pos + i \<le> k" for k using eol_at_bound [OF "1.prems", of base k] that short by auto
      then have "List.find (eol_at eol base) [pos + i..<length base] = None" by (auto simp: find_None_iff)
      with F Some hd short show ?thesis by (simp add: eol_loop.simps [of eol base pos])
    next
      case hit
      have "take (length eol) (drop (pos + i) base) = eol" using hit(2) by (simp add: eol_at_def)
      with hit F U Some hd show ?thesis by (simp add: eol_loop.simps [of eol base pos])
    next
      case miss
      have ne: "take (length eol) (drop (pos + i) base) \<noteq> eol" using miss(2) by (simp add: eol_at_def)
      have "eol_loop eol base (pos + i + 1) = List.find (eol_at eol base) [pos + i + 1..<length base]"
        by (rule "1.IH" [OF Some [folded hd] miss(1) ne "1.prems"])
      with ne show ?thesis using miss F U Some hd by (simp add: eol_loop.simps [of eol base pos])
    qed
  qed
qed

section \<open>Reading a line\<close>

definition block_ok :: "char list \<Rightarrow> size_t \<Rightarrow> bool" where
  "block_ok buf len \<longleftrightarrow> length buf = unat len \<and> 0 < unat len"

lemma ensure_for_block:
  assumes b: "block_ok buf len" and sz: "n < 2 ^ 62"
  shows "\<exists>buf' len'. ensure_for buf len (word_of_nat n) 1 = Inr (buf', len') \<and> block_ok buf' len' \<and> n + 1 < unat len'"
proof -
  have u: "unat (word_of_nat n :: size_t) = n" using sz by (simp add: unat_of_nat)
  show ?thesis using ensure_for_room [of buf len 1 "word_of_nat n"] b u sz by (auto simp: block_ok_def)
qed

definition io_in_ok :: "io \<Rightarrow> char list \<Rightarrow> bool" where
  "io_in_ok i s \<longleftrightarrow> (\<exists>rd. io_rd i = Some rd \<and> buffer_ok rd \<and> contents rd = s) \<and> io_error i = None \<and> io_eol i \<noteq> []"

text \<open>The first end of line that is found within the bytes searched.\<close>

definition next_line :: "char list \<Rightarrow> char list \<Rightarrow> nat option" where
  "next_line eol s = List.find (\<lambda>n. eol_at eol s n \<and> n + length eol \<le> IO_MAXLINELEN) [0..<length s]"

lemma eol_loop_next:
  assumes "eol \<noteq> []"
  shows "eol_loop eol (take (min (length s) IO_MAXLINELEN) s) 0 = next_line eol s"
proof -
  let ?m = "min (length s) IO_MAXLINELEN"
  let ?P = "\<lambda>n. eol_at eol s n \<and> n + length eol \<le> IO_MAXLINELEN"
  have e: "eol_at eol (take ?m s) n \<longleftrightarrow> ?P n" for n
  proof (cases "n + length eol \<le> ?m")
    case True
    then show ?thesis using eol_at_take [OF True] by simp
  next
    case False
    then have "\<not> eol_at eol (take ?m s) n" using eol_at_bound [OF assms, of "take ?m s" n] by auto
    moreover have "\<not> ?P n" using False eol_at_bound [OF assms, of s n] by auto
    ultimately show ?thesis by blast
  qed
  have "[0..<length s] = [0..<?m] @ [?m..<length s]" using upt_add_eq_append [of 0 ?m "length s - ?m"] by simp
  moreover have "List.find ?P (xs @ [?m..<length s]) = List.find ?P xs" for xs
  proof (induction xs)
    case Nil
    have "0 < length eol" using assms by simp
    then have "\<not> ?P n" if "?m \<le> n" "n < length s" for n using that by linarith
    then show ?case by (auto simp: find_None_iff)
  qed simp
  ultimately have "next_line eol s = List.find ?P [0..<?m]" by (simp add: next_line_def)
  also have "\<dots> = List.find (eol_at eol (take ?m s)) [0..<?m]" by (rule find_cong) (use e in auto)
  finally show ?thesis using eol_loop_find [OF assms, of "take ?m s" 0] by (simp add: min_def split: if_splits)
qed

lemma next_line_bound:
  assumes "eol \<noteq> []" "next_line eol s = Some n"
  shows "n + length eol \<le> length s"
proof -
  have "eol_at eol s n" using assms(2) by (auto simp: next_line_def find_Some_iff)
  then show ?thesis by (rule eol_at_bound [OF assms(1)])
qed

lemma buffer_bytes:
  assumes "buffer_ok rd" "m \<le> length (contents rd)"
  shows "mem_read (b_base rd) (BUFFER_OUT rd) m = Inr (take m (contents rd))"
proof -
  have "m \<le> unat (b_size rd)" using assms length_contents [OF assms(1)] by simp
  moreover from this have "unat (b_off rd) + m \<le> length (b_base rd)" using assms(1) by (simp add: buffer_ok_def)
  ultimately show ?thesis by (simp add: mem_read_def BUFFER_OUT_def contents_def min_absorb1)
qed

text \<open>Taking a line of \<open>sz\<close> bytes out of the buffer.\<close>

lemma buffer_take:
  assumes ok: "buffer_ok rd" and le: "n \<le> length (contents rd)" and small: "length (contents rd) < 2 ^ 62" and nz: "n \<noteq> 0"
  shows "\<exists>rd'. buffer_read rd (word_of_nat n) = Inr (take n (contents rd), rd') \<and> buffer_ok rd' \<and> contents rd' = drop n (contents rd)"
    and "\<exists>rd'. buffer_remove rd (word_of_nat n) = Inr rd' \<and> buffer_ok rd' \<and> contents rd' = drop n (contents rd)"
proof -
  have u: "unat (word_of_nat n :: size_t) = n" using le small by (simp add: unat_of_nat)
  then have "(word_of_nat n :: size_t) \<noteq> 0" using nz by (metis unat_0)
  then show "\<exists>rd'. buffer_read rd (word_of_nat n) = Inr (take n (contents rd), rd') \<and> buffer_ok rd' \<and> contents rd' = drop n (contents rd)"
    "\<exists>rd'. buffer_remove rd (word_of_nat n) = Inr rd' \<and> buffer_ok rd' \<and> contents rd' = drop n (contents rd)"
    using buffer_read_correct [OF ok, of "word_of_nat n"] buffer_remove_correct [OF ok, of "word_of_nat n"] u le length_contents [OF ok]
    by auto
qed

lemma io_readline2_none:
  assumes i: "io_in_ok i s" and n: "next_line (io_eol i) s = None"
    and c: "length s < length (io_eol i) \<or> IO_MAXLINELEN \<le> length s \<or> \<not> IOF_CLOSED i"
  shows "io_readline2 i buf len = Inr (None, buf, len,
     if length (io_eol i) \<le> length s \<and> IO_MAXLINELEN \<le> length s
     then i\<lparr>io_error := Some ''io: maximum line length exceeded''\<rparr> else i)"
proof -
  obtain rd where rd: "io_rd i = Some rd" "buffer_ok rd" "contents rd = s" "io_error i = None" "io_eol i \<noteq> []"
    using i by (auto simp: io_in_ok_def)
  have u: "unat (BUFFER_USED rd) = length s" using length_contents [OF rd(2)] rd(3) by (simp add: BUFFER_USED_def)
  have "mem_read (b_base rd) (BUFFER_OUT rd) (min (length s) IO_MAXLINELEN) = Inr (take (min (length s) IO_MAXLINELEN) s)"
    using buffer_bytes [OF rd(2)] rd(3) by simp
  moreover have "eol_loop (io_eol i) (take (min (length s) IO_MAXLINELEN) s) 0 = None"
    using eol_loop_next [OF rd(5), of s] n by simp
  ultimately show ?thesis using rd u c by (auto simp: io_readline2_def Let_def min_def)
qed

lemma io_readline2_line:
  assumes i: "io_in_ok i s" and n: "next_line (io_eol i) s = Some n" and b: "block_ok buf len" and small: "length s < 2 ^ 62"
  shows "\<exists>buf' len' i'. io_readline2 i buf len = Inr (Some (take n s), buf', len', i') \<and> block_ok buf' len' \<and>
    take (n + 1) buf' = take n s @ [NUL] \<and> io_in_ok i' (drop (n + length (io_eol i)) s) \<and> io_eol i' = io_eol i"
proof -
  obtain rd where rd: "io_rd i = Some rd" "buffer_ok rd" "contents rd = s" "io_error i = None" "io_eol i \<noteq> []"
    using i by (auto simp: io_in_ok_def)
  have u: "unat (BUFFER_USED rd) = length s" using length_contents [OF rd(2)] rd(3) by (simp add: BUFFER_USED_def)
  have bd: "n + length (io_eol i) \<le> length s" by (rule next_line_bound [OF rd(5) n])
  have m: "mem_read (b_base rd) (BUFFER_OUT rd) (min (length s) IO_MAXLINELEN) = Inr (take (min (length s) IO_MAXLINELEN) s)"
    using buffer_bytes [OF rd(2)] rd(3) by simp
  obtain buf' len' where e: "ensure_for buf len (word_of_nat n) 1 = Inr (buf', len')" "block_ok buf' len'" "n + 1 < unat len'"
    using ensure_for_block [OF b, of n] bd small by auto
  obtain rd1 where r1: "(if n = 0 then Inr ([], rd) else buffer_read rd (word_of_nat n)) = Inr (take n s, rd1)"
    "buffer_ok rd1" "contents rd1 = drop n s"
    using buffer_take(1) [OF rd(2), of n] rd bd small by (cases "n = 0") auto
  obtain rd2 where r2: "buffer_remove rd1 (word_of_nat (length (io_eol i))) = Inr rd2" "buffer_ok rd2"
    "contents rd2 = drop (n + length (io_eol i)) s"
  proof -
    have "length (io_eol i) \<le> length (contents rd1)" "length (contents rd1) < 2 ^ 62" "length (io_eol i) \<noteq> 0"
      using r1(3) rd(5) bd small by auto
    from buffer_take(2) [OF r1(2) this] show ?thesis using r1(3) that by (auto simp: add.commute)
  qed
  let ?b = "take n s @ [NUL] @ drop (n + 1) buf'"
  have w: "mem_write buf' 0 (take n s @ [NUL]) = Inr ?b"
    using e(2,3) bd by (simp add: mem_write_def block_ok_def)
  have "take (n + 1) ?b = take n s @ [NUL]" "length ?b = length buf'"
    using e(2,3) bd by (simp_all add: block_ok_def)
  then show ?thesis
    using rd u m n e r1 r2 w bd eol_loop_next [OF rd(5), of s]
    by (simp add: io_readline2_def io_in_ok_def block_ok_def)
qed

lemma io_readline2_rest:
  assumes i: "io_in_ok i s" and n: "next_line (io_eol i) s = None" and b: "block_ok buf len"
    and long: "length (io_eol i) \<le> length s" "length s < IO_MAXLINELEN" and c: "IOF_CLOSED i"
  shows "\<exists>buf' len' i'. io_readline2 i buf len = Inr (Some s, buf', len', i') \<and> block_ok buf' len' \<and>
    take (length s + 1) buf' = s @ [NUL] \<and> io_in_ok i' [] \<and> io_eol i' = io_eol i"
proof -
  obtain rd where rd: "io_rd i = Some rd" "buffer_ok rd" "contents rd = s" "io_error i = None" "io_eol i \<noteq> []"
    using i by (auto simp: io_in_ok_def)
  have u: "unat (BUFFER_USED rd) = length s" using length_contents [OF rd(2)] rd(3) by (simp add: BUFFER_USED_def)
  have small: "length s < 2 ^ 62" "length s \<noteq> 0" using long rd(5) by (auto simp: IO_MAXLINELEN_def)
  have m: "mem_read (b_base rd) (BUFFER_OUT rd) (min (length s) IO_MAXLINELEN) = Inr (take (min (length s) IO_MAXLINELEN) s)"
    using buffer_bytes [OF rd(2)] rd(3) by simp
  obtain buf' len' where e: "ensure_for buf len (word_of_nat (length s)) 1 = Inr (buf', len')" "block_ok buf' len'"
    "length s + 1 < unat len'"
    using ensure_for_block [OF b small(1)] by auto
  obtain rd1 where r1: "buffer_read rd (word_of_nat (length s)) = Inr (s, rd1)" "buffer_ok rd1" "contents rd1 = []"
    using buffer_take(1) [OF rd(2), of "length s"] rd small by auto
  let ?b = "s @ [NUL] @ drop (length s + 1) buf'"
  have w: "mem_write buf' 0 (s @ [NUL]) = Inr ?b"
    using e(2,3) by (simp add: mem_write_def block_ok_def)
  have "length ?b = length buf'" using e(2,3) by (simp add: block_ok_def)
  then show ?thesis
    using rd u m n e r1 w long c small eol_loop_next [OF rd(5), of s]
    by (simp add: io_readline2_def io_in_ok_def block_ok_def min_def)
qed

section \<open>Writing lines and filling the buffer\<close>

definition io_out_ok :: "io \<Rightarrow> char list \<Rightarrow> bool" where
  "io_out_ok i s \<longleftrightarrow> (\<exists>wr. io_wr i = Some wr \<and> buffer_ok wr \<and> contents wr = s) \<and> io_error i = None \<and> io_eol i \<noteq> []"

lemma io_write_ok:
  assumes "io_out_ok i s" "d \<noteq> []" "length s + length d \<le> 2 ^ 63"
  shows "\<exists>wr. io_write i d = Inr (i\<lparr>io_wr := Some wr\<rparr>) \<and> io_out_ok (i\<lparr>io_wr := Some wr\<rparr>) (s @ d)"
proof -
  obtain wr where w: "io_wr i = Some wr" "buffer_ok wr" "contents wr = s" "io_error i = None" "io_eol i \<noteq> []"
    using assms(1) by (auto simp: io_out_ok_def)
  obtain wr' where "buffer_write wr d = Inr wr'" using buffer_write_returns [OF w(2) assms(2)] w(3) assms(3) by auto
  moreover have "length d \<le> SIZE_MAX" using assms(3) by (simp add: SIZE_MAX_def)
  ultimately show ?thesis using buffer_write_correct [OF w(2)] w by (auto simp: io_write_def io_out_ok_def)
qed

text \<open>The text is formatted into the buffer together with a NUL that is not counted.\<close>

lemma buffer_format:
  assumes ok: "buffer_ok wr" and ne: "d \<noteq> []" and small: "length (contents wr) + length d < 2 ^ 62"
  shows "\<exists>wr' mem wr''. buffer_ensure wr (word_of_nat (length d + 1)) = Inr wr' \<and>
    mem_write (b_base wr') (BUFFER_IN wr') (d @ [NUL]) = Inr mem \<and>
    buffer_add (wr'\<lparr>b_base := mem\<rparr>) (word_of_nat (length d)) = Inr wr'' \<and> buffer_ok wr'' \<and> contents wr'' = contents wr @ d"
proof -
  have u: "unat (word_of_nat (length d + 1) :: size_t) = length d + 1" "unat (word_of_nat (length d) :: size_t) = length d"
    using word_of_length [of "d @ [NUL]"] word_of_length [of d] small by (simp_all add: SIZE_MAX_def)
  obtain wr' where e: "buffer_ensure wr (word_of_nat (length d + 1)) = Inr wr'"
    using buffer_ensure_returns [OF ok, of "word_of_nat (length d + 1)"] u small length_contents [OF ok] by auto
  have E: "buffer_ok wr'" "contents wr' = contents wr" "b_size wr' = b_size wr"
    "unat (b_off wr') + unat (b_size wr') + (length d + 1) \<le> unat (b_space wr')"
    using buffer_ensure_correct [OF ok e] u by auto
  let ?p = "unat (b_off wr') + unat (b_size wr')"
  have len: "length (b_base wr') = unat (b_space wr')" using E(1) by (simp add: buffer_ok_def)
  let ?mem = "take ?p (b_base wr') @ (d @ [NUL]) @ drop (?p + (length d + 1)) (b_base wr')"
  have w: "mem_write (b_base wr') (BUFFER_IN wr') (d @ [NUL]) = Inr ?mem"
    using E(1,4) len by (simp add: mem_write_def BUFFER_IN_nat)
  have nz: "(word_of_nat (length d) :: size_t) \<noteq> 0" using u ne by (metis length_0_conv unat_0)
  have room: "\<not> b_space wr' - b_size wr' < word_of_nat (length d)"
    using E(1,4) u by (simp add: not_less word_le_nat_alt unat_sub buffer_ok_def)
  let ?wr = "wr'\<lparr>b_base := ?mem, b_size := b_size wr' + word_of_nat (length d)\<rparr>"
  have us: "unat (b_size wr' + word_of_nat (length d)) = unat (b_size wr') + length d"
    using u E(4) unat_le_SIZE_MAX [of "b_space wr'"] by (subst unat_add_bounded) auto
  have lm: "length ?mem = length (b_base wr')" using E(4) len by simp
  have "contents ?wr = contents wr' @ d"
    using E(4) len us by (simp add: contents_def min_def drop_take) linarith
  then have "contents ?wr = contents wr @ d" using E(2) by simp
  moreover have "buffer_ok ?wr" using E(1,4) us lm len by (simp add: buffer_ok_def)
  moreover have "buffer_add (wr'\<lparr>b_base := ?mem\<rparr>) (word_of_nat (length d)) = Inr ?wr"
    using nz room by (simp add: buffer_add_def)
  ultimately show ?thesis using e w by blast
qed

lemma io_writeline_ok:
  assumes i: "io_out_ok i s" and l: "l \<noteq> []" "int (length l) \<le> INT_MAX" and small: "length s + length l + length (io_eol i) < 2 ^ 62"
  shows "\<exists>i'. io_writeline i (Some l) = Inr i' \<and> io_out_ok i' (s @ l @ io_eol i) \<and> io_eol i' = io_eol i"
proof -
  obtain wr where w: "io_wr i = Some wr" "buffer_ok wr" "contents wr = s" "io_error i = None" "io_eol i \<noteq> []"
    using i by (auto simp: io_out_ok_def)
  obtain wr' mem wr'' where f: "buffer_ensure wr (word_of_nat (length l + 1)) = Inr wr'"
    "mem_write (b_base wr') (BUFFER_IN wr') (l @ [NUL]) = Inr mem"
    "buffer_add (wr'\<lparr>b_base := mem\<rparr>) (word_of_nat (length l)) = Inr wr''" "buffer_ok wr''" "contents wr'' = contents wr @ l"
    using buffer_format [OF w(2) l(1)] w(3) small by auto
  have "io_out_ok (i\<lparr>io_wr := Some wr''\<rparr>) (s @ l)" using f w by (simp add: io_out_ok_def)
  from io_write_ok [OF this, of "io_eol i"] w(5) small
  obtain wr3 where "io_write (i\<lparr>io_wr := Some wr''\<rparr>) (io_eol i) = Inr (i\<lparr>io_wr := Some wr3\<rparr>)"
    "io_out_ok (i\<lparr>io_wr := Some wr3\<rparr>) (s @ l @ io_eol i)" by auto
  with f w l(2) show ?thesis by (auto simp: io_writeline_def io_vwriteline_def)
qed

fun write_lines :: "io \<Rightarrow> char list list \<Rightarrow> io res" where
  "write_lines i [] = Inr i"
| "write_lines i (l # ls) = rbind (io_writeline i (Some l)) (\<lambda>i. write_lines i ls)"

fun read_lines :: "io \<Rightarrow> nat \<Rightarrow> (char list list \<times> io) res" where
  "read_lines i 0 = Inr ([], i)"
| "read_lines i (Suc n) = rbind (io_readline i) (\<lambda>(line, i). case line of
     None \<Rightarrow> Inr ([], i)
   | Some l \<Rightarrow> rbind (read_lines i n) (\<lambda>(ls, i). Inr (l # ls, i)))"

lemma write_lines_ok:
  assumes "io_out_ok i s" "\<forall>l \<in> set ls. l \<noteq> [] \<and> int (length l) \<le> INT_MAX"
    "length s + length (concat (map (\<lambda>l. l @ io_eol i) ls)) < 2 ^ 62"
  shows "\<exists>i'. write_lines i ls = Inr i' \<and> io_out_ok i' (s @ concat (map (\<lambda>l. l @ io_eol i) ls)) \<and> io_eol i' = io_eol i"
  using assms
proof (induction ls arbitrary: i s)
  case Nil
  then show ?case by simp
next
  case (Cons l ls)
  obtain i' where i': "io_writeline i (Some l) = Inr i'" "io_out_ok i' (s @ l @ io_eol i)" "io_eol i' = io_eol i"
    using io_writeline_ok [OF Cons.prems(1), of l] Cons.prems by auto
  from Cons.IH [OF i'(2)] Cons.prems i'(3) obtain i2 where "write_lines i' ls = Inr i2"
    "io_out_ok i2 ((s @ l @ io_eol i) @ concat (map (\<lambda>l. l @ io_eol i) ls))" "io_eol i2 = io_eol i" by auto
  with i' show ?case by auto
qed

text \<open>A line that has no end of line in it, not even one formed with the start of the end of line behind it.\<close>

definition framed :: "char list \<Rightarrow> char list \<Rightarrow> bool" where
  "framed eol l \<longleftrightarrow> (\<forall>n < length l. \<not> eol_at eol (l @ eol) n)"

lemma next_line_framed:
  assumes f: "framed eol l" and e: "eol \<noteq> []" and m: "length l + length eol \<le> IO_MAXLINELEN"
  shows "next_line eol (l @ eol @ rest) = Some (length l)"
proof -
  let ?s = "l @ eol @ rest"
  have no: "\<not> eol_at eol ?s n" if n: "n < length l" for n
  proof -
    have "n + length eol \<le> length (l @ eol)" using n by simp
    then have "eol_at eol (take (length (l @ eol)) ?s) n \<longleftrightarrow> eol_at eol ?s n" by (rule eol_at_take)
    moreover have "take (length (l @ eol)) ?s = l @ eol" by simp
    ultimately show ?thesis using f n by (simp add: framed_def)
  qed
  have yes: "eol_at eol ?s (length l)" by (simp add: eol_at_def)
  have lt: "length l < length ?s" using e by simp
  have "next_line eol ?s = List.find (\<lambda>n. eol_at eol ?s n \<and> n + length eol \<le> IO_MAXLINELEN) [length l..<length ?s]"
    unfolding next_line_def by (rule find_from) (use no lt in auto)
  also have "[length l..<length ?s] = length l # [Suc (length l)..<length ?s]" using lt by (rule upt_conv_Cons)
  finally show ?thesis using yes m by simp
qed

definition lbuf_ok :: "io \<Rightarrow> bool" where
  "lbuf_ok i \<longleftrightarrow> (case io_lbuf i of None \<Rightarrow> True | Some b \<Rightarrow> block_ok b (io_llen i))"

lemma io_readline_line:
  assumes "io_in_ok i s" "next_line (io_eol i) s = Some n" "lbuf_ok i" "length s < 2 ^ 62"
  shows "\<exists>i'. io_readline i = Inr (Some (take n s), i') \<and> lbuf_ok i' \<and> io_in_ok i' (drop (n + length (io_eol i)) s) \<and> io_eol i' = io_eol i"
proof -
  obtain b l where b: "with_lbuf i = Inr (b, l)" "block_ok b l"
    using assms(3) by (auto simp: with_lbuf_def lbuf_ok_def xmalloc_def IO_LINESIZE_def block_ok_def split: option.splits)
  obtain b' l' i' where "io_readline2 i b l = Inr (Some (take n s), b', l', i')" "io_in_ok i' (drop (n + length (io_eol i)) s)"
    "io_eol i' = io_eol i"
    using io_readline2_line [OF assms(1,2) b(2) assms(4)] by auto
  with b(1) assms(1) show ?thesis by (auto simp: io_readline_def io_in_ok_def lbuf_ok_def)
qed

lemma read_lines_ok:
  assumes "io_in_ok i (concat (map (\<lambda>l. l @ io_eol i) ls) @ rest)" "lbuf_ok i"
    "\<forall>l \<in> set ls. framed (io_eol i) l \<and> length l + length (io_eol i) \<le> IO_MAXLINELEN"
    "length (concat (map (\<lambda>l. l @ io_eol i) ls) @ rest) < 2 ^ 62"
  shows "\<exists>i'. read_lines i (length ls) = Inr (ls, i') \<and> io_in_ok i' rest"
  using assms
proof (induction ls arbitrary: i)
  case Nil
  then show ?case by auto
next
  case (Cons l ls)
  let ?s = "l @ io_eol i @ (concat (map (\<lambda>l. l @ io_eol i) ls) @ rest)"
  have e: "io_eol i \<noteq> []" using Cons.prems(1) by (simp add: io_in_ok_def)
  have n: "next_line (io_eol i) ?s = Some (length l)" using next_line_framed [OF _ e] Cons.prems(3) by simp
  obtain i' where i': "io_readline i = Inr (Some l, i')" "lbuf_ok i'" "io_in_ok i' (concat (map (\<lambda>l. l @ io_eol i) ls) @ rest)"
    "io_eol i' = io_eol i"
    using io_readline_line [OF _ n Cons.prems(2)] Cons.prems(1,4) by auto
  from Cons.IH [of i'] i' Cons.prems(3,4) obtain i2 where "read_lines i' (length ls) = Inr (ls, i2)" "io_in_ok i2 rest" by auto
  with i'(1) show ?case by auto
qed

lemma io_fill_ok:
  assumes "io_in_ok i s" "io_in i = map SockData cs" "\<forall>c \<in> set cs. c \<noteq> []" "length s + length (concat cs) < 2 ^ 62"
  shows "\<exists>i'. io_fill i = Inr (1, i') \<and> io_in i' = [] \<and> io_in_ok i' (s @ concat cs) \<and> io_eol i' = io_eol i \<and>
    io_lbuf i' = io_lbuf i \<and> io_llen i' = io_llen i \<and> IOF_CLOSED i' = IOF_CLOSED i"
  using assms
proof (induction i arbitrary: s cs rule: io_fill.induct)
  case (1 i)
  obtain rd where rd: "io_rd i = Some rd" "buffer_ok rd" "contents rd = s" "io_error i = None" "io_eol i \<noteq> []"
    using "1.prems"(1) by (auto simp: io_in_ok_def)
  have wm: "unat IO_WATERMARK = 12288" "0 < unat IO_WATERMARK" by (simp_all add: IO_WATERMARK_def)
  obtain rd' where e: "buffer_ensure rd IO_WATERMARK = Inr rd'"
    using buffer_ensure_returns [OF rd(2) wm(2)] wm "1.prems"(4) rd(3) length_contents [OF rd(2)] by auto
  have E: "buffer_ok rd'" "contents rd' = s" "unat (b_off rd') + unat (b_size rd') + 12288 \<le> unat (b_space rd')"
    using buffer_ensure_correct [OF rd(2) e] rd(3) wm by auto
  let ?n = "unat (BUFFER_FREE rd')"
  have n: "12288 \<le> ?n" "?n = unat (b_space rd') - unat (b_off rd') - unat (b_size rd')"
    using E(3) by (auto simp: BUFFER_FREE_nat [OF E(1)])
  show ?case
  proof (cases cs)
    case Nil
    then show ?thesis using "1.prems" rd e E by (simp add: io_fill.simps [of i] io_in_ok_def)
  next
    case (Cons c cs')
    define d where "d = take ?n c"
    define ds where "ds = (if length c \<le> ?n then cs' else drop ?n c # cs')"
    have sr: "sock_read ?n (io_in i) = (SockData d, map SockData ds)"
      using "1.prems"(2,3) Cons by (auto simp: d_def ds_def)
    have cat: "d @ concat ds = concat cs" "d \<noteq> []" "\<forall>c \<in> set ds. c \<noteq> []" "length d \<le> ?n"
      using "1.prems"(3) Cons n(1) by (auto simp: d_def ds_def)
    have u: "unat (word_of_nat (length d) :: size_t) = length d"
      using cat(1) "1.prems"(4) by (intro word_of_length) (auto simp: SIZE_MAX_def dest: arg_cong [where f = length])
    have "unat (b_off rd') + unat (b_size rd') + unat (word_of_nat (length d) :: size_t) \<le> unat (b_space rd')"
      using u cat(4) n E(3) by linarith
    moreover have "(word_of_nat (length d) :: size_t) \<noteq> 0" using u cat(2) by (metis length_0_conv unat_0)
    ultimately obtain rd2 where p: "rbind (mem_write (b_base rd') (BUFFER_IN rd') d)
        (\<lambda>mem. buffer_add (rd'\<lparr>b_base := mem\<rparr>) (word_of_nat (length d))) = Inr rd2" "buffer_ok rd2" "contents rd2 = s @ d"
      using buffer_put_correct [OF E(1) u] E(2) by auto
    let ?i = "i\<lparr>io_rd := Some rd', io_in := map SockData ds, io_rd := Some rd2,
      io_dup := map_option (\<lambda>x. x @ ''< '' @ d) (io_dup i), IOF_NEEDFILL := False\<rparr>"
    have "io_in_ok ?i (s @ d)" using p rd by (simp add: io_in_ok_def)
    moreover have "length (s @ d) + length (concat ds) < 2 ^ 62" using cat(1) "1.prems"(4) by (metis length_append add.assoc)
    ultimately obtain i' where "io_fill ?i = Inr (1, i')" "io_in i' = []" "io_in_ok i' ((s @ d) @ concat ds)" "io_eol i' = io_eol i"
      "io_lbuf i' = io_lbuf i" "io_llen i' = io_llen i" "IOF_CLOSED i' = IOF_CLOSED i"
      using "1.IH" [of rd' "i\<lparr>io_rd := Some rd'\<rparr>" "SockData d" "map SockData ds" d rd2 "s @ d" ds] rd e sr cat p by auto
    moreover have "io_fill i = io_fill ?i"
      using rd e sr cat(2) p(1) by (simp add: io_fill.simps [of i])
    ultimately show ?thesis using cat(1) by auto
  qed
qed

section \<open>Properties\<close>

text \<open>C35: what \<open>io_readline2\<close> does with the data \<open>s\<close> in the buffer, on every branch. A line that ends within
  the longest line allowed is returned without its end, terminated by NUL in the line block, and it and its
  end leave the buffer. Otherwise nothing is taken: with too much data the io gets an error, with the other
  end closed the rest is returned as a line - unless it is shorter than the end of a line -, and otherwise
  the caller has to wait.\<close>

theorem readline_spec:
  assumes "io_in_ok i s" and "block_ok buf len" and "length s < 2 ^ 62"
  shows "case next_line (io_eol i) s of
      Some n \<Rightarrow> \<exists>buf' len' i'. io_readline2 i buf len = Inr (Some (take n s), buf', len', i') \<and>
        take (n + 1) buf' = take n s @ [NUL] \<and> io_in_ok i' (drop (n + length (io_eol i)) s)
    | None \<Rightarrow>
        if length s < length (io_eol i) then io_readline2 i buf len = Inr (None, buf, len, i)
        else if IO_MAXLINELEN \<le> length s then
          io_readline2 i buf len = Inr (None, buf, len, i\<lparr>io_error := Some ''io: maximum line length exceeded''\<rparr>)
        else if IOF_CLOSED i then
          (\<exists>buf' len' i'. io_readline2 i buf len = Inr (Some s, buf', len', i') \<and> take (length s + 1) buf' = s @ [NUL] \<and> io_in_ok i' [])
        else io_readline2 i buf len = Inr (None, buf, len, i)"
proof (cases "next_line (io_eol i) s")
  case None
  show ?thesis
    using io_readline2_none [OF assms(1) None, of buf len] io_readline2_rest [OF assms(1) None assms(2)] None by auto
next
  case (Some n)
  then show ?thesis using io_readline2_line [OF assms(1) Some assms(2,3)] by auto
qed

definition sample_io :: "char list \<Rightarrow> char list \<Rightarrow> io" where
  "sample_io s eol = \<lparr>io_ssl = False, io_dup = None, io_in = [], io_out = [], io_sent = [], io_error = None, IOF_NEEDFILL = False,
     IOF_NEEDPUSH = False, IOF_CLOSED = False, IOF_MUSTWR = False,
     io_rd = Some \<lparr>b_base = s @ [NUL], b_space = word_of_nat (length s + 1), b_size = word_of_nat (length s), b_off = 0\<rparr>,
     io_wr = Some \<lparr>b_base = [NUL], b_space = 1, b_size = 0, b_off = 0\<rparr>, io_lbuf = None, io_llen = 0, io_eol = eol\<rparr>"

lemma sample_io_ok:
  assumes "eol \<noteq> []" "length s < 1000"
  shows "io_in_ok (sample_io s eol) s" "io_out_ok (sample_io s eol) []" "lbuf_ok (sample_io s eol)"
    "io_eol (sample_io s eol) = eol" "io_in (sample_io s eol) = []"
proof -
  have "unat (word_of_nat (length s + 1) :: size_t) = length s + 1" "unat (word_of_nat (length s) :: size_t) = length s"
    using word_of_length [of "s @ [NUL]"] word_of_length [of s] assms(2) by (simp_all add: SIZE_MAX_def)
  then show "io_in_ok (sample_io s eol) s" "io_out_ok (sample_io s eol) []" "lbuf_ok (sample_io s eol)"
    "io_eol (sample_io s eol) = eol" "io_in (sample_io s eol) = []"
    using assms(1) by (simp_all add: sample_io_def io_in_ok_def io_out_ok_def buffer_ok_def contents_def lbuf_ok_def)
qed

lemma readline_spec_witness:
  "\<exists>buf' len' i'. io_readline2 (sample_io (''ab'' @ [CR, CR, NL] @ ''c'') [CR, NL]) (replicate 256 NUL) 256 =
     Inr (Some (''ab'' @ [CR]), buf', len', i') \<and> io_in_ok i' ''c''"
proof -
  have n: "next_line [CR, NL] (''ab'' @ [CR, CR, NL] @ ''c'') = Some 3"
    by (simp add: next_line_def eol_at_def IO_MAXLINELEN_def upt_rec)
  show ?thesis
    using readline_spec [OF sample_io_ok(1), of "[CR, NL]" "''ab'' @ [CR, CR, NL] @ ''c''" "replicate 256 NUL" 256] n
      sample_io_ok(4) [of "[CR, NL]" "''ab'' @ [CR, CR, NL] @ ''c''"]
    by (auto simp: block_ok_def)
qed

text \<open>C5: lines go through an io unchanged. Nonempty lines that do not contain the end of a line are written to
  one io, the data arrives at another in any pieces whatever, and is read back line by line.\<close>

theorem lines_roundtrip:
  assumes w: "io_out_ok w []" and r: "io_in_ok r []" "lbuf_ok r" "io_eol r = io_eol w"
    and ls: "\<forall>l \<in> set ls. l \<noteq> [] \<and> framed (io_eol w) l \<and> length l + length (io_eol w) \<le> IO_MAXLINELEN"
    and small: "length (concat (map (\<lambda>l. l @ io_eol w) ls)) < 2 ^ 62"
  shows "\<exists>w' wr. write_lines w ls = Inr w' \<and> io_wr w' = Some wr \<and>
    (\<forall>cs. io_in r = map SockData cs \<longrightarrow> (\<forall>c \<in> set cs. c \<noteq> []) \<longrightarrow> concat cs = contents wr \<longrightarrow>
      (\<exists>r1 r2. io_fill r = Inr (1, r1) \<and> read_lines r1 (length ls) = Inr (ls, r2) \<and> io_in_ok r2 []))"
proof -
  let ?s = "concat (map (\<lambda>l. l @ io_eol w) ls)"
  have int: "\<forall>l \<in> set ls. l \<noteq> [] \<and> int (length l) \<le> INT_MAX" using ls by (auto simp: IO_MAXLINELEN_def INT_MAX_def)
  obtain w' where w': "write_lines w ls = Inr w'" "io_out_ok w' ?s"
    using write_lines_ok [OF w int] small by auto
  obtain wr where wr: "io_wr w' = Some wr" "contents wr = ?s" using w'(2) by (auto simp: io_out_ok_def)
  have "\<exists>r1 r2. io_fill r = Inr (1, r1) \<and> read_lines r1 (length ls) = Inr (ls, r2) \<and> io_in_ok r2 []"
    if cs: "io_in r = map SockData cs" "\<forall>c \<in> set cs. c \<noteq> []" "concat cs = contents wr" for cs
  proof -
    obtain r1 where f: "io_fill r = Inr (1, r1)" "io_in_ok r1 ?s" "io_eol r1 = io_eol w" "io_lbuf r1 = io_lbuf r" "io_llen r1 = io_llen r"
      using io_fill_ok [OF r(1) cs(1,2)] cs(3) wr(2) small r(3) by auto
    then have "lbuf_ok r1" using r(2) by (simp add: lbuf_ok_def split: option.splits)
    with read_lines_ok [of r1 ls "[]"] f ls small show ?thesis by auto
  qed
  with w'(1) wr(1) show ?thesis by auto
qed

lemma lines_roundtrip_witness:
  "\<exists>w' wr r1 r2. write_lines (sample_io [] [CR, NL]) [''ab'' @ [CR], ''c''] = Inr w' \<and> io_wr w' = Some wr \<and>
     io_fill ((sample_io [] [CR, NL])\<lparr>io_in := [SockData (contents wr)]\<rparr>) = Inr (1, r1) \<and>
     read_lines r1 2 = Inr ([''ab'' @ [CR], ''c''], r2)"
proof -
  let ?ls = "[''ab'' @ [CR], ''c'']"
  have e: "[CR, NL] \<noteq> []" "length ([] :: char list) < 1000" by simp_all
  note S = sample_io_ok [OF e]
  have ls: "\<forall>l \<in> set ?ls. l \<noteq> [] \<and> framed [CR, NL] l \<and> length l + length [CR, NL] \<le> IO_MAXLINELEN"
    by (auto simp: framed_def eol_at_def IO_MAXLINELEN_def less_Suc_eq)
  obtain w0 where w0: "write_lines (sample_io [] [CR, NL]) ?ls = Inr w0" "io_out_ok w0 (concat (map (\<lambda>l. l @ [CR, NL]) ?ls))"
    using write_lines_ok [OF S(2), of ?ls] S(4) by (auto simp: INT_MAX_def)
  then obtain wr0 where wr0: "io_wr w0 = Some wr0" "contents wr0 \<noteq> []" by (auto simp: io_out_ok_def)
  define r where "r = (sample_io [] [CR, NL])\<lparr>io_in := [SockData (contents wr0)]\<rparr>"
  have r: "io_in_ok r []" "lbuf_ok r" "io_eol r = io_eol (sample_io [] [CR, NL])" "io_in r = map SockData [contents wr0]"
    using S by (simp_all add: r_def io_in_ok_def lbuf_ok_def split: option.splits)
  have "\<exists>r1 r2. io_fill r = Inr (1, r1) \<and> read_lines r1 (length ?ls) = Inr (?ls, r2) \<and> io_in_ok r2 []"
    using lines_roundtrip [OF S(2) r(1,2,3), of ?ls] ls S(4) w0(1) wr0 r(4)
    by (fastforce simp del: read_lines.simps write_lines.simps)
  moreover have "length ?ls = 2" by simp
  ultimately show ?thesis using w0(1) wr0(1) unfolding r_def by metis
qed

text \<open>writing an empty text is fatal. The NULL format writes an end of line; a format that expands to
  nothing ends the process, since \<open>buffer_add\<close> refuses a size of zero.\<close>

theorem writeline_empty:
  assumes "io_out_ok i s" and "length s + length (io_eol i) < 2 ^ 62"
  shows "(\<exists>i'. io_writeline i None = Inr i' \<and> io_out_ok i' (s @ io_eol i)) \<and> io_writeline i (Some []) = Inl (FatalX ''zero size'')"
proof -
  obtain wr where w: "io_wr i = Some wr" "buffer_ok wr" "contents wr = s" "io_error i = None" "io_eol i \<noteq> []"
    using assms(1) by (auto simp: io_out_ok_def)
  obtain wr' where e: "buffer_ensure wr (word_of_nat (length ([] :: char list) + 1)) = Inr wr'"
    using buffer_ensure_returns [OF w(2), of 1] assms(2) w(3) length_contents [OF w(2)] by auto
  have E: "buffer_ok wr'" "unat (b_off wr') + unat (b_size wr') + 1 \<le> unat (b_space wr')"
    using buffer_ensure_correct [OF w(2) e] by auto
  have "\<exists>mem. mem_write (b_base wr') (BUFFER_IN wr') ([] @ [NUL]) = Inr mem"
    using E by (simp add: mem_write_def BUFFER_IN_nat buffer_ok_def)
  then have "io_writeline i (Some []) = Inl (FatalX ''zero size'')"
    using w e by (auto simp: io_writeline_def io_vwriteline_def buffer_add_def INT_MAX_def)
  moreover have "io_writeline i None = io_write i (io_eol i)"
    using w by (simp add: io_writeline_def io_vwriteline_def INT_MAX_def)
  ultimately show ?thesis using io_write_ok [OF assms(1) w(5)] assms(2) by auto
qed

lemma writeline_empty_witness: "io_writeline (sample_io [] [NL]) (Some []) = Inl (FatalX ''zero size'')"
  using writeline_empty [OF sample_io_ok(2), of "[NL]" "[]"] sample_io_ok(4) [of "[NL]" "[]"] by simp

end
