(* ===== verification/Io_Wire.thy ===== *)
theory Io_Wire imports Io begin

text \<open>
  What goes out through an io and what is read from it, whatever the calls of \<^verbatim>\<open>poll\<close> answer: shared by the proofs about
  the dialogues of SMTP, of SOCKS proxies and of the processes of \<^bold>\<open>fdm\<close> with each other.
\<close>

section \<open>What reading and writing a line leaves alone\<close>

lemma io_readline2_flags:
  assumes "io_readline2 i buf len = Inr (line, buf', len', i')"
  shows "io_wr i' = io_wr i \<and> IOF_CLOSED i' = IOF_CLOSED i \<and> IOF_NEEDPUSH i' = IOF_NEEDPUSH i \<and> IOF_NEEDFILL i' = IOF_NEEDFILL i"
proof -
  let ?K = "\<lambda>j. io_wr j = io_wr i \<and> IOF_CLOSED j = IOF_CLOSED i \<and> IOF_NEEDPUSH j = IOF_NEEDPUSH i \<and> IOF_NEEDFILL j = IOF_NEEDFILL i"
  let ?P = "\<lambda>r. \<forall>l b n j. r = Inr (l, b, n, j) \<longrightarrow> ?K j"
  have intros: "(\<And>x. ?P (f x)) \<Longrightarrow> ?P (rbind A f)" "?P x \<Longrightarrow> ?P y \<Longrightarrow> ?P (if b then x else y)"
    "?P x \<Longrightarrow> (\<And>n. ?P (g n)) \<Longrightarrow> ?P (case u of None \<Rightarrow> x | Some n \<Rightarrow> g n)" "(\<And>u v. ?P (h u v)) \<Longrightarrow> ?P (case p of (u, v) \<Rightarrow> h u v)"
    "?P (Inr (l, c, n, i))" "?P (Inr (l, c, n, i\<lparr>io_error := e\<rparr>))" "?P (Inr (l, c, n, i\<lparr>io_rd := rd\<rparr>))"
    for A and f :: "'b \<Rightarrow> (char list option \<times> char list \<times> size_t \<times> io) res" and x y b u g p h l c n e rd
    by (cases A; simp) (auto split: if_splits option.splits prod.splits)
  have "?P (io_readline2 i buf len)"
    unfolding io_readline2_def Let_def by (rule intros)+
  then show ?thesis using assms by blast
qed

lemma io_write_flags: "io_write i d = Inr i' \<Longrightarrow> io_rd i' = io_rd i \<and> IOF_CLOSED i' = IOF_CLOSED i"
  by (auto simp: io_write_def rbind_Inr_iff split: if_split_asm)

lemma io_vwriteline_flags: "io_vwriteline i t = Inr i' \<Longrightarrow> io_rd i' = io_rd i \<and> IOF_CLOSED i' = IOF_CLOSED i"
  by (cases t) (auto simp: io_vwriteline_def rbind_Inr_iff split: if_split_asm dest!: io_write_flags)

section \<open>What goes out through an io\<close>

text \<open>What was written and what waits in the write buffer.\<close>

definition wire :: "io \<Rightarrow> char list \<Rightarrow> bool" where
  "wire i t \<longleftrightarrow> (\<exists>s. io_out_ok i s \<and> io_sent i @ s = t)"

lemma io_write_wire:
  assumes "wire i t" "d \<noteq> []" "length t + length d < 2 ^ 62"
  shows "\<exists>i'. io_write i d = Inr i' \<and> wire i' (t @ d) \<and> io_eol i' = io_eol i \<and> io_sent i' = io_sent i"
proof -
  obtain s where s: "io_out_ok i s" "io_sent i @ s = t" using assms(1) by (auto simp: wire_def)
  then have "length s + length d \<le> 2 ^ 63" using assms(3) by auto
  with io_write_ok [OF s(1) assms(2)] s(2) show ?thesis by (fastforce simp: wire_def)
qed

lemma io_writeline_none_wire:
  assumes "wire i t" "length t + length (io_eol i) < 2 ^ 62"
  shows "\<exists>i'. io_writeline i None = Inr i' \<and> wire i' (t @ io_eol i) \<and> io_eol i' = io_eol i \<and> io_sent i' = io_sent i"
proof -
  have e: "io_eol i \<noteq> []" "io_error i = None" using assms(1) by (auto simp: wire_def io_out_ok_def)
  have "io_writeline i None = io_write i (io_eol i)" using e by (simp add: io_writeline_def io_vwriteline_def INT_MAX_def)
  with io_write_wire [OF assms(1) e(1) assms(2)] show ?thesis by simp
qed

lemma io_push_wire:
  assumes w: "wire i t" and p: "io_push i = Inr (n, i')" "n \<noteq> - 1" and small: "length t < 2 ^ 62"
  shows "wire i' t \<and> io_eol i' = io_eol i"
proof -
  obtain s where s: "io_out_ok i s" "io_sent i @ s = t" using w by (auto simp: wire_def)
  then obtain wr where wr: "io_wr i = Some wr" "buffer_ok wr" "contents wr = s" "io_error i = None" "io_eol i \<noteq> []"
    by (auto simp: io_out_ok_def)
  have len: "unat (b_size wr) = length s" using length_contents [OF wr(2)] wr(3) by simp
  obtain a outs where a: "sock_write (unat (BUFFER_USED wr)) (io_out i) = (a, outs)" by fastforce
  have ok: "io_out_ok (i\<lparr>io_out := outs\<rparr>) s" "io_out_ok (i\<lparr>io_out := outs, IOF_NEEDPUSH := b\<rparr>) s" for b
    using s(1) by (simp_all add: io_out_ok_def)
  show ?thesis
  proof (cases "BUFFER_USED wr = 0")
    case True
    then show ?thesis using p wr w by (simp add: io_push_def)
  next
    case used: False
    show ?thesis
    proof (cases a)
      case (SockTake k)
      have k: "0 < k" "k \<le> length s"
        using a SockTake used len by (auto simp: BUFFER_USED_def unat_eq_zero elim!: sock_write.elims split: if_splits)
      have r: "mem_read (b_base wr) (BUFFER_OUT wr) k = Inr (take k s)" using buffer_bytes [OF wr(2), of k] wr(3) k(2) by simp
      obtain wr' where wr': "buffer_remove wr (word_of_nat k) = Inr wr'" "buffer_ok wr'" "contents wr' = drop k s"
        using buffer_take(2) [OF wr(2), of k] wr(3) k small s(2) by (metis append_take_drop_id length_append le_less_trans le_add2 less_not_refl3)
      have "i' = i\<lparr>io_out := outs, io_wr := Some wr', io_sent := io_sent i @ take k s,
          io_dup := map_option (\<lambda>x. x @ ''> '' @ take k s) (io_dup i), IOF_NEEDPUSH := False\<rparr>"
        using p wr used a SockTake r wr'(1) by (simp add: io_push_def)
      then show ?thesis using wr' wr s(2) by (auto simp: wire_def io_out_ok_def)
    qed (use p wr used a ok s(2) in \<open>auto simp: io_push_def wire_def\<close>)
  qed
qed

lemma io_fill_wire:
  "io_fill i = Inr (n, i') \<Longrightarrow> n \<noteq> - 1 \<Longrightarrow> wire i t \<Longrightarrow> wire i' t \<and> io_eol i' = io_eol i"
proof (induction i rule: io_fill.induct)
  case (1 i)
  obtain rd where rd: "rbind (the_buf (io_rd i)) (\<lambda>rd. buffer_ensure rd IO_WATERMARK) = Inr rd"
    using "1.prems"(1) by (subst (asm) io_fill.simps) (auto split: sum.splits)
  obtain a ins where a: "sock_read (unat (BUFFER_FREE rd)) (io_in (i\<lparr>io_rd := Some rd\<rparr>)) = (a, ins)" by fastforce
  have keep: "wire (i\<lparr>io_rd := x, io_in := y\<rparr>) t" "wire (i\<lparr>io_rd := x, io_in := y, IOF_NEEDFILL := b\<rparr>) t"
      "wire (i\<lparr>io_rd := x, io_in := y, io_rd := z, io_dup := u, IOF_NEEDFILL := b\<rparr>) t" for x y z u b
    using "1.prems"(3) by (simp_all add: wire_def io_out_ok_def)
  show ?case
  proof (cases a)
    case (SockData d)
    show ?thesis
    proof (cases "d = []")
      case True
      then have "i' = i\<lparr>io_rd := Some rd, io_in := ins\<rparr>" using "1.prems" rd a SockData by (simp add: io_fill.simps [of i])
      then show ?thesis using keep by simp
    next
      case False
      then obtain rd2 where r2: "rbind (mem_write (b_base rd) (BUFFER_IN rd) d)
          (\<lambda>mem. buffer_add (rd\<lparr>b_base := mem\<rparr>) (word_of_nat (length d))) = Inr rd2"
        using "1.prems"(1) rd a SockData by (auto simp: io_fill.simps [of i] Let_def split: sum.splits)
      show ?thesis
        using "1.IH" [of rd "i\<lparr>io_rd := Some rd\<rparr>" "SockData d" ins d rd2] "1.prems" rd a SockData False r2 keep
        by (simp add: io_fill.simps [of i])
    qed
  qed (use "1.prems" rd a keep in \<open>auto simp: io_fill.simps [of i]\<close>)
qed

lemma closing_wire:
  assumes "closing r f = Inr (n, i')" "n \<noteq> - 1" "\<And>n i'. r = Inr (n, i') \<Longrightarrow> n \<noteq> - 1 \<Longrightarrow> wire i' t \<and> io_eol i' = eol"
    "\<And>i. wire i t \<and> io_eol i = eol \<Longrightarrow> f i = Inr (n, i') \<Longrightarrow> wire i' t \<and> io_eol i' = eol"
  shows "wire i' t \<and> io_eol i' = eol"
proof -
  obtain k j where r: "r = Inr (k, j)" "(if k = 0 then Inr (0, j\<lparr>IOF_CLOSED := True\<rparr>) else if k = - 1 then Inr (- 1, j) else f j) = Inr (n, i')"
    using assms(1) by (auto simp: closing_def rbind_Inr_iff)
  have c: "wire (j\<lparr>IOF_CLOSED := True\<rparr>) t = wire j t" by (simp add: wire_def io_out_ok_def)
  show ?thesis
  proof (cases "k = - 1")
    case True
    then show ?thesis using r(2) assms(2) by simp
  next
    case False
    with assms(3) [OF r(1)] r(2) c assms(4) [of j] show ?thesis by (auto split: if_splits)
  qed
qed

lemma io_after_poll_wire:
  assumes "io_after_poll (Some i) r = Inr (n, Some i')" "n \<noteq> - 1" "wire i t" "length t < 2 ^ 62"
  shows "wire i' t \<and> io_eol i' = io_eol i"
proof -
  have c: "wire (i\<lparr>IOF_CLOSED := True\<rparr>) t" using assms(3) by (simp add: wire_def io_out_ok_def)
  have one: "wire j t \<and> io_eol j = io_eol i \<Longrightarrow> Inr (1, j) = Inr (n, i') \<Longrightarrow> wire i' t \<and> io_eol i' = io_eol i" for j by simp
  have push: "(if b then io_push j else Inr (1, j)) = Inr (k, j') \<Longrightarrow> k \<noteq> - 1 \<Longrightarrow> wire j t \<and> io_eol j = io_eol i \<Longrightarrow> wire j' t \<and> io_eol j' = io_eol i"
    for b j k j' using io_push_wire [of j t k j'] assms(4) by (auto split: if_splits)
  have fl: "(if b then io_fill j else Inr (1, j)) = Inr (k, j') \<Longrightarrow> k \<noteq> - 1 \<Longrightarrow> wire j t \<and> io_eol j = io_eol i \<Longrightarrow> wire j' t \<and> io_eol j' = io_eol i"
    for b j k j' using io_fill_wire [of j k j' t] by (auto split: if_splits)
  have two: "wire i' t \<and> io_eol i' = io_eol i"
    if "closing (if b then io_push i else Inr (1, i)) (\<lambda>i. closing (if b' i then io_fill i else Inr (1, i)) (\<lambda>i. Inr (1, i))) = Inr (n, i')" for b b'
    by (rule closing_wire [OF that assms(2)])
      (use push assms(3) in blast, erule closing_wire [OF _ assms(2)], use fl one in blast, use one in blast)
  show ?thesis
    using assms(1,2,3) c two unfolding io_after_poll_def option.case rbind_Inr_iff
    by (auto split: if_splits)
qed

lemma io_poll_one:
  assumes "io_poll i timeout a = Inr (r, i')"
  shows "io_polln [Some i] timeout a = Inr (r, [Some i'])"
proof (cases "io_polln [Some i] timeout a")
  case (Inr x)
  then obtain r' ios where "io_polln [Some i] timeout a = Inr (r', ios)" by (cases x) auto
  with assms show ?thesis by (cases ios; cases "hd ios"; cases "tl ios") (simp_all add: io_poll_def)
qed (use assms in \<open>simp add: io_poll_def\<close>)

lemma io_poll_wire:
  assumes "io_poll i timeout a = Inr (r, i')" "fst r = 1" "wire i t" "length t < 2 ^ 62"
  shows "wire i' t \<and> io_eol i' = io_eol i"
proof -
  have p: "io_polln [Some i] timeout a = Inr (r, [Some i'])" using assms(1) by (rule io_poll_one)
  show ?thesis
  proof (cases a)
    case (PollReady rs)
    have "i' = i \<or> (\<exists>n. io_after_poll (Some i) (hd rs) = Inr (n, Some i') \<and> n \<noteq> - 1)"
      using p assms(2) PollReady by (auto simp: io_polln_def rbind_Inr_iff split: option.splits if_splits)
    then show ?thesis using io_after_poll_wire [of i "hd rs" _ i' t] assms(3,4) by auto
  qed (use p assms(2,3) in \<open>auto simp: io_polln_def split: option.splits if_splits\<close>)
qed

lemma io_wait_wire:
  "io_wait i len timeout answers = Inr (0, i', answers') \<Longrightarrow> wire i t \<Longrightarrow> length t < 2 ^ 62 \<Longrightarrow> wire i' t"
proof (induction answers arbitrary: i)
  case Nil
  then show ?case by (cases "io_rd i") (auto simp: io_wait.simps split: if_splits)
next
  case (Cons a as)
  obtain rd where rd: "io_rd i = Some rd" using Cons.prems(1) by (cases "io_rd i") (simp_all add: io_wait.simps)
  show ?case
  proof (cases "len \<le> BUFFER_USED rd")
    case True
    then show ?thesis using Cons.prems rd by (simp add: io_wait.simps [of i])
  next
    case False
    then obtain r j where a: "io_poll i timeout a = Inr (r, j)" "fst r = 1" "io_wait j len timeout as = Inr (0, i', answers')"
      using Cons.prems(1) rd by (auto simp: io_wait.simps [of i] rbind_Inr_iff split: if_splits)
    from Cons.IH [OF a(3)] io_poll_wire [OF a(1,2) Cons.prems(2,3)] Cons.prems(3) show ?thesis by blast
  qed
qed

lemma written_wire:
  assumes "rbind (io_write i d) f = Inr x" "wire i t" "d \<noteq> []" "length t + length d < 2 ^ 62"
  shows "\<exists>j. wire j (t @ d) \<and> f j = Inr x"
  using io_write_wire [OF assms(2-4)] assms(1) by auto

section \<open>Both directions\<close>

definition both_ok :: "io \<Rightarrow> char list \<Rightarrow> char list \<Rightarrow> bool" where
  "both_ok i w r \<longleftrightarrow> io_out_ok i w \<and> io_in_ok i r"

lemma both_write:
  assumes "both_ok i w r" "d \<noteq> []" "length w + length d \<le> 2 ^ 63"
  shows "\<exists>j. io_write i d = Inr j \<and> both_ok j (w @ d) r"
proof -
  have o: "io_out_ok i w" and r: "io_in_ok i r" using assms(1) by (auto simp: both_ok_def)
  obtain wr where j: "io_write i d = Inr (i\<lparr>io_wr := Some wr\<rparr>)" "io_out_ok (i\<lparr>io_wr := Some wr\<rparr>) (w @ d)"
    using io_write_ok [OF o assms(2,3)] by blast
  then show ?thesis using r by (auto simp: both_ok_def io_in_ok_def)
qed

text \<open>Reading what is there, with and without a block of its own.\<close>

lemma both_taken:
  assumes b: "both_ok i w (d @ r)" and d: "d \<noteq> []" "length (d @ r) < 2 ^ 62" and len: "unat len = length d"
  shows "\<exists>j. io_wait i len timeout answers = Inr (0, i, answers) \<and> io_read2 i len = Inr (0, d, j) \<and> io_read i len = Inr (Some d, j) \<and>
    both_ok j w r"
proof -
  obtain rd where rd: "io_rd i = Some rd" "buffer_ok rd" "contents rd = d @ r" "io_error i = None"
    using b by (auto simp: both_ok_def io_in_ok_def)
  have "unat (b_size rd) = length (d @ r)" using length_contents [OF rd(2)] rd(3) by simp
  then have le: "len \<le> BUFFER_USED rd" using len by (simp add: word_le_nat_alt BUFFER_USED_def)
  have w: "word_of_nat (length d) = len" by (simp flip: len)
  obtain rd' where rd': "buffer_read rd len = Inr (d, rd')" "buffer_ok rd'" "contents rd' = r"
    using buffer_take [OF rd(2), of "length d"] rd(3) d w by auto
  have "len \<noteq> 0" using d(1) len by auto
  then have "\<exists>m. xmalloc len = Inr m" by (simp add: xmalloc_def)
  then have "io_read2 i len = Inr (0, d, i\<lparr>io_rd := Some rd'\<rparr>)" "io_read i len = Inr (Some d, i\<lparr>io_rd := Some rd'\<rparr>)"
    using rd(1,4) rd'(1) le by (auto simp: io_read2_def io_read_def not_less [symmetric])
  moreover have "io_wait i len timeout answers = Inr (0, i, answers)" using rd(1) le by (simp add: io_wait.simps)
  moreover have "both_ok (i\<lparr>io_rd := Some rd'\<rparr>) w r" using b rd' by (simp add: both_ok_def io_in_ok_def io_out_ok_def)
  ultimately show ?thesis by auto
qed

end
