(* ===== verification/Fetch.thy ===== *)
theory Fetch imports MailState Io begin

text \<open>
  What the fetch handlers share (\<^verbatim>\<open>fetch.h\<close>): the results and the context of a handler, the
  connection it talks over, and the part of \<open>sscanf\<close> they parse numbers with. A handler is a state
  machine whose state is a function pointer; here it is a datatype of each handler.
\<close>

section \<open>Results and context\<close>

datatype fetch_result = FETCH_AGAIN | FETCH_BLOCK | FETCH_ERROR | FETCH_MAIL | FETCH_EXIT

datatype fetch_only = FETCH_ONLY_NEW | FETCH_ONLY_OLD | FETCH_ONLY_ALL

record ('s, 'x) fetch_ctx =
  f_state :: 's
  FETCH_PURGE :: bool
  FETCH_EMPTY :: bool
  FETCH_POLL :: bool
  f_mail :: "'x mail"

section \<open>Connections\<close>

text \<open>
  The functions a handler reaches its server with, as the pointers of its data: \<open>getln\<close> gives an error
  (\<open>None\<close>), no line yet (\<open>Some None\<close>) or a line; \<open>putln\<close> whether it worked. The line buffer of the context is
  part of the connection.
\<close>

record 'c conn_ops =
  cn_connect :: "'c \<Rightarrow> (bool \<times> 'c) res"
  cn_disconnect :: "'c \<Rightarrow> 'c"
  cn_getln :: "'c \<Rightarrow> (char list option option \<times> 'c) res"
  cn_putln :: "'c \<Rightarrow> char list \<Rightarrow> (bool \<times> 'c) res"

text \<open>A socket: the io (NULL when not connected) and the line buffer; \<open>dial\<close> is what \<open>connectproxy\<close> gives.\<close>

type_synonym sock_conn = "io option \<times> char list \<times> size_t"

definition the_io :: "sock_conn \<Rightarrow> io res" where
  "the_io c = (case fst c of None \<Rightarrow> Inl (MemErr ''NULL io'') | Some i \<Rightarrow> Inr i)"

definition sock_connect :: "io option \<Rightarrow> sock_conn \<Rightarrow> (bool \<times> sock_conn) res" where
  "sock_connect dial c = Inr (dial \<noteq> None, dial, snd c)"

definition sock_disconnect :: "sock_conn \<Rightarrow> sock_conn" where
  "sock_disconnect c = (None, snd c)"

definition sock_getln :: "sock_conn \<Rightarrow> (char list option option \<times> sock_conn) res" where
  "sock_getln c = rbind (the_io c) (\<lambda>i. rbind (io_readline2 i (fst (snd c)) (snd (snd c)))
     (\<lambda>(line, buf, len, i). Inr (Some (map_option cstr line), Some i, buf, len)))"

definition sock_putln :: "sock_conn \<Rightarrow> char list \<Rightarrow> (bool \<times> sock_conn) res" where
  "sock_putln c text' = rbind (the_io c) (\<lambda>i. rbind (io_vwriteline i (Some text')) (\<lambda>i. Inr (True, Some i, snd c)))"

definition sock_ops :: "io option \<Rightarrow> sock_conn conn_ops" where
  "sock_ops dial = \<lparr>cn_connect = sock_connect dial, cn_disconnect = sock_disconnect, cn_getln = sock_getln, cn_putln = sock_putln\<rparr>"

text \<open>A conversation for examples: the lines that will come and those sent.\<close>

definition script_ops :: "(char list list \<times> char list list) conn_ops" where
  "script_ops = \<lparr>cn_connect = (\<lambda>c. Inr (True, c)), cn_disconnect = (\<lambda>c. c),
     cn_getln = (\<lambda>(ls, out). Inr (case ls of [] \<Rightarrow> (Some None, ls, out) | l # ls \<Rightarrow> (Some (Some l), ls, out))),
     cn_putln = (\<lambda>(ls, out) s. Inr (True, ls, out @ [s]))\<rparr>"

section \<open>Scanning\<close>

text \<open>\<open>strncmp (line, s, strlen (s)) == 0\<close>.\<close>

definition starts_with :: "char list \<Rightarrow> char list \<Rightarrow> bool" where
  "starts_with s line \<longleftrightarrow> take (length s) line = s"

text \<open>
  \<open>%u\<close> and \<open>%zu\<close> of \<open>scanf\<close>, for an unsigned number of \<open>w\<close> bits: white space, a sign, digits. The number is
  read with 64 bits, at most \<open>SIZE_MAX\<close>, negated for a minus sign and cut to its width.
\<close>

definition scan_unsigned :: "nat \<Rightarrow> char list \<Rightarrow> (nat \<times> char list) option" where
  "scan_unsigned w s =
     (let s = dropWhile isspace s;
          neg = (s \<noteq> [] \<and> hd s = CHR ''-'');
          s = (if s \<noteq> [] \<and> (hd s = CHR ''-'' \<or> hd s = CHR ''+'') then tl s else s);
          ds = takeWhile isdigit s;
          n = min (digits_value ds) SIZE_MAX
      in if ds = [] then None
         else Some ((if neg then (SIZE_MAX + 1 - n) mod (SIZE_MAX + 1) else n) mod 2 ^ w, dropWhile isdigit s))"

text \<open>A literal of a format.\<close>

definition scan_literal :: "char list \<Rightarrow> char list \<Rightarrow> char list option" where
  "scan_literal l s = (if starts_with l s then Some (drop (length l) s) else None)"

lemma scan_unsigned_show:
  assumes "n < 2 ^ w" "w \<le> 64" "rest = [] \<or> \<not> isdigit (hd rest)"
  shows "scan_unsigned w (show_nat n @ rest) = Some (n, rest)"
proof -
  have d: "\<forall>c \<in> set (show_nat n). isdigit c" by (rule show_nat_digits)
  obtain c cs where s: "show_nat n = c # cs" using show_nat_nonempty by (cases "show_nat n") auto
  have c: "\<not> isspace c" "c \<noteq> CHR ''-''" "c \<noteq> CHR ''+''" using d s isdigit_not_space [of c] by auto
  have tw: "takeWhile isdigit (show_nat n @ rest) = show_nat n" "dropWhile isdigit (show_nat n @ rest) = rest"
    using d assms(3) by (cases rest; simp add: takeWhile_append2 dropWhile_append2)+
  have "n \<le> SIZE_MAX" using assms(1,2) power_increasing [of w 64 "2 :: nat"] by (simp add: SIZE_MAX_def)
  then have "min (digits_value (show_nat n)) SIZE_MAX mod 2 ^ w = n" using assms(1) by (simp add: digits_value_show_nat)
  with tw c show ?thesis unfolding scan_unsigned_def s append_Cons by (simp add: s Let_def)
qed

end
