(* ===== verification/FetchQueue.thy ===== *)
theory FetchQueue imports Fetch begin

text \<open>
  The fetch child (\<^verbatim>\<open>child-fetch.c\<close>): the loop that calls the state of a fetch handler, puts the mails it
  returns on a queue, and matches and delivers what is queued until every mail is committed. The handler is
  a parameter, as in the source; so is what the loop reads from its surroundings each time round.
\<close>

section \<open>State\<close>

text \<open>\<open>struct fetch\<close>; \<open>fill\<close> gives the number of ios it adds to the list that is polled.\<close>

record ('d, 's, 'x) fetch_ops =
  fo_first :: 's
  fo_step :: "'d \<Rightarrow> ('s, 'x) fetch_ctx \<Rightarrow> (fetch_result \<times> 'd \<times> ('s, 'x) fetch_ctx) res"
  fo_fill :: "('d \<Rightarrow> nat) option"
  fo_commit :: "('d \<Rightarrow> 'x mail \<Rightarrow> (fetch_result \<times> 'd \<times> 'x mail) res) option"
  fo_abort :: "'d \<Rightarrow> 'd"
  fo_total :: "('d \<Rightarrow> nat) option"

record ('d, 's, 'x) fetch_env =
  fe_ops :: "('d, 's, 'x) fetch_ops"
  fe_conf :: conf
  fe_rules :: "rule list"
  fe_actions :: "action list"
  fe_match :: "'x mail_ctx \<Rightarrow> matchop \<Rightarrow> ('x mail_ctx \<times> match_result) res"
  fe_deliver :: "'x deliver_fun"
  fe_reopen :: "'x mail \<Rightarrow> char list option"
  fe_shm :: "nat \<Rightarrow> bool"
  fe_build :: "char list"

record ('d, 's, 'x) fetch_state =
  fa_account :: account
  fa_data :: 'd
  fa_ctx :: "('s, 'x) fetch_ctx"
  fa_matchq :: "'x mail_ctx list"
  fa_deliverq :: "'x mail_ctx list"
  fa_dropped :: nat
  fa_kept :: nat
  fa_queued :: nat
  fa_blocked :: nat
  fa_last_total :: nat
  fa_last_dropped :: nat
  fa_holding :: bool
  fa_complete :: bool

text \<open>What the loop reads: the system and the time, a message of the parent, and the answer of a poll with
  a timeout.\<close>

datatype poll_answer = PollReady | PollAgain | PollClosed bool | PollFailed bool

record 'x fetch_input =
  fi_os :: os
  fi_tim :: nat
  fi_msg :: "('x msg \<times> strb option) option"
  fi_poll :: "int \<Rightarrow> poll_answer"

section \<open>Queueing a mail\<close>

text \<open>\<open>xcalloc\<close>: a mail of zeros.\<close>

definition new_mail :: "'x mail" where
  "new_mail = \<lparr>m_idx = 0, m_tim = 0, m_tags = None, attach = None, attach_built = False, mapped = False,
     m_base = [], m_off = 0, msize = 0, m_space = 0, m_body = 0, wrapped = [], wrapchar = NUL, m_rml = empty_rml,
     decision = DECISION_NONE, auxfree = False, auxdata = None\<rparr>"

definition mail_tags :: "os \<Rightarrow> char list \<Rightarrow> int \<Rightarrow> nat \<Rightarrow> nat \<Rightarrow> (char list \<times> char list) list" where
  "mail_tags os name t n b =
     [(''account'', name)] @
     (case os_localtime os t of None \<Rightarrow> [] | Some tm \<Rightarrow>
       [(''mail_hour'', pad_int 2 (int (tm_hour tm))), (''mail_minute'', pad_int 2 (int (tm_min tm))),
        (''mail_second'', pad_int 2 (int (tm_sec tm))), (''mail_day'', pad_int 2 (int (tm_mday tm))),
        (''mail_month'', pad_int 2 (int (tm_mon tm) + 1)), (''mail_year'', pad_int 4 (1900 + tm_year tm)),
        (''mail_year2'', pad_int 2 (c_mod (tm_year tm) 100)), (''mail_dayofweek'', pad_int 1 (int (tm_wday tm))),
        (''mail_dayofyear'', pad_int 2 (int (tm_yday tm) + 1)), (''mail_quarter'', pad_int 1 (int (tm_mon tm div 3 + 1)))]) @
     (case rfc822time os t 128 of None \<Rightarrow> [] | Some d \<Rightarrow> [(''mail_rfc822date'', d)]) @
     (let b' = (if n - b \<noteq> 0 then b + 1 else b) in
       [(''lines'', show_nat n), (''body_lines'', show_nat b), (''header_lines'', show_nat (n - b'))])"

text \<open>\<open>%.*s\<close> stops at a NUL.\<close>

definition message_id_tag :: "'x mail \<Rightarrow> (char list \<times> char list) list res" where
  "message_id_tag m = rbind (find_header m ''message-id'' True) (\<lambda>h. case h of
     None \<Rightarrow> Inr []
   | Some (p, len) \<Rightarrow>
       if len = 0 \<or> INT_MAX < int len then Inr []
       else rbind (bytes_at m p len) (\<lambda>v. Inr [(''message_id'', cstr v)]))"

definition received_header :: "conf \<Rightarrow> char list \<Rightarrow> char list \<Rightarrow> char list \<Rightarrow> char list" where
  "received_header cf build name rtime =
     (let rhost = (case conf_host_fqdn cf of Some h \<Rightarrow> h | None \<Rightarrow> (case conf_host_name cf of Some h \<Rightarrow> h | None \<Rightarrow> ''(null)'')) in
      ''Received: by '' @ take 450 rhost @ '' ('' @ build @ '', account '' @ [DQ] @ take 450 name @ [DQ] @ '');'' @ [NL, TAB] @ rtime)"

definition add_received :: "conf \<Rightarrow> os \<Rightarrow> (nat \<Rightarrow> bool) \<Rightarrow> char list \<Rightarrow> char list \<Rightarrow> 'x mail \<Rightarrow> 'x mail res" where
  "add_received cf os shm build name m =
     (if conf_no_received cf then Inr m
      else case rfc822time os (os_time os) 128 of
        None \<Rightarrow> Inr m
      | Some rtime \<Rightarrow> rbind (insert_header shm m (Some ''received'') (received_header cf build name rtime)) (\<lambda>(r, m). Inr m))"

text \<open>The attributes and tags of a mail that was fetched; \<open>None\<close> for an empty mail.\<close>

definition prepare_mail :: "('d, 's, 'x) fetch_env \<Rightarrow> 'x fetch_input \<Rightarrow> account \<Rightarrow> 'x mail \<Rightarrow> ('x mail option \<times> account) res" where
  "prepare_mail e i a m =
     rbind (find_body m) (\<lambda>body.
     rbind (trim_from (m\<lparr>m_body := body\<rparr>)) (\<lambda>m.
     if msize m = 0 then Inr (None, a)
     else
       (let idx = (acc_idx a + 1) mod 2 ^ 32; a = a\<lparr>acc_idx := idx\<rparr>; os = fi_os i;
            m = m\<lparr>decision := DECISION_DROP, m_idx := idx, m_tim := fi_tim i\<rparr> in
        rbind (mailtime os m) (\<lambda>t.
        rbind (count_lines m) (\<lambda>(n, b).
        rbind (message_id_tag m) (\<lambda>mid.
        case m_tags m of
          None \<Rightarrow> Inl (MemErr ''tags'')
        | Some tags \<Rightarrow>
            rbind (add_all add_tag tags (mail_tags os (acc_name a) (case t of Some t \<Rightarrow> t | None \<Rightarrow> os_time os) n b @ mid)) (\<lambda>tags.
            rbind (add_received (fe_conf e) os (fe_shm e) (fe_build e) (acc_name a) (m\<lparr>m_tags := Some tags\<rparr>)) (\<lambda>m.
            rbind (fill_wrapped m) (\<lambda>(lines, m). Inr (Some m, a))))))))))"

text \<open>\<open>a->fetch->commit (a, m) == FETCH_ERROR\<close>, false when there is no such function.\<close>

definition call_commit :: "('d, 's, 'x) fetch_env \<Rightarrow> 'd \<Rightarrow> 'x mail \<Rightarrow> (bool \<times> 'd \<times> 'x mail) res" where
  "call_commit e d m = (case fo_commit (fe_ops e) of
     None \<Rightarrow> Inr (False, d, m)
   | Some commit \<Rightarrow> rbind (commit d m) (\<lambda>(r, d, m). Inr (r = FETCH_ERROR, d, m)))"

definition fetch_enqueue :: "('d, 's, 'x) fetch_env \<Rightarrow> 'x fetch_input \<Rightarrow> 'x mail \<Rightarrow> ('d, 's, 'x) fetch_state \<Rightarrow>
    (int \<times> ('d, 's, 'x) fetch_state) res" where
  "fetch_enqueue e i m s =
     (if conf_max_size (fe_conf e) < msize m then
        (if \<not> conf_del_big (fe_conf e) then Inr (- 1, s)
         else rbind (call_commit e (fa_data s) (m\<lparr>decision := DECISION_DROP\<rparr>)) (\<lambda>(err, d, m).
           Inr (if err then - 1 else 0, s\<lparr>fa_data := d\<rparr>)))
      else rbind (prepare_mail e i (fa_account s) m) (\<lambda>(r, a).
        case r of
          None \<Rightarrow> Inr (- 1, s\<lparr>fa_account := a\<rparr>)
        | Some m \<Rightarrow>
           (let c = \<lparr>mc_done = False, mc_msgid = 0, mc_account = a, mc_sent = [], mc_mail = m, mc_ruleidx = 0,
                     mc_rule = fe_rules e, mc_stack = [], mc_expritem = [], mc_result = False, mc_matched = False, mc_dqueue = []\<rparr>
            in Inr (0, s\<lparr>fa_account := a, fa_matchq := fa_matchq s @ [c], fa_queued := fa_queued s + 1\<rparr>))))"

section \<open>Matching and delivering\<close>

text \<open>The mail leaves the match queue, which the loop that calls this keeps.\<close>

definition fetch_dequeue :: "('d, 's, 'x) fetch_env \<Rightarrow> 'x mail_ctx \<Rightarrow> ('d, 's, 'x) fetch_state \<Rightarrow>
    (int \<times> ('d, 's, 'x) fetch_state) res" where
  "fetch_dequeue e c s =
     (let m = mc_mail c;
          m = (if conf_keep_all (fe_conf e) \<or> acc_keep (fa_account s) then m\<lparr>decision := DECISION_KEEP\<rparr> else m) in
      rbind (case decision m of
               DECISION_DROP \<Rightarrow> Inr (s\<lparr>fa_dropped := fa_dropped s + 1\<rparr>)
             | DECISION_KEEP \<Rightarrow> Inr (s\<lparr>fa_kept := fa_kept s + 1\<rparr>)
             | DECISION_NONE \<Rightarrow> Inl (FatalX ''invalid decision'')) (\<lambda>s.
      rbind (call_commit e (fa_data s) m) (\<lambda>(err, d, m).
        let s = s\<lparr>fa_data := d\<rparr> in
        if err then Inr (- 1, s) else Inr (0, s\<lparr>fa_queued := fa_queued s - 1\<rparr>))))"

text \<open>The contexts of the queue in turn; those of \<open>kept\<close> stay in front of the rest.\<close>

fun match_loop :: "('d, 's, 'x) fetch_env \<Rightarrow> 'x fetch_input \<Rightarrow> 'x mail_ctx list \<Rightarrow> 'x mail_ctx list \<Rightarrow> ('d, 's, 'x) fetch_state \<Rightarrow>
    (int \<times> ('d, 's, 'x) fetch_state) res" where
  "match_loop e i kept [] s = Inr (0, s\<lparr>fa_matchq := kept\<rparr>)"
| "match_loop e i kept (c # cs) s =
     rbind (mail_match (fe_match e) (fe_conf e) (fi_os i) (fe_actions e) c (fi_msg i)) (\<lambda>(r, c).
       case r of
         MAIL_ERROR \<Rightarrow> Inr (- 1, s\<lparr>fa_matchq := kept @ c # cs\<rparr>)
       | MAIL_DELIVER \<Rightarrow> match_loop e i kept cs (s\<lparr>fa_deliverq := fa_deliverq s @ [c]\<rparr>)
       | MAIL_DONE \<Rightarrow> rbind (fetch_dequeue e c s) (\<lambda>(n, s).
           if n \<noteq> 0 then Inr (- 1, s\<lparr>fa_matchq := kept @ c # cs\<rparr>) else match_loop e i kept cs s)
       | MAIL_BLOCKED \<Rightarrow> match_loop e i (kept @ [c]) cs (s\<lparr>fa_blocked := fa_blocked s + 1\<rparr>)
       | _ \<Rightarrow> match_loop e i (kept @ [c]) cs s)"

definition fetch_match :: "('d, 's, 'x) fetch_env \<Rightarrow> 'x fetch_input \<Rightarrow> ('d, 's, 'x) fetch_state \<Rightarrow>
    (int \<times> ('d, 's, 'x) fetch_state) res" where
  "fetch_match e i s = match_loop e i [] (fa_matchq s) s"

fun deliver_loop :: "('d, 's, 'x) fetch_env \<Rightarrow> 'x fetch_input \<Rightarrow> 'x mail_ctx list \<Rightarrow> 'x mail_ctx list \<Rightarrow> ('d, 's, 'x) fetch_state \<Rightarrow>
    (int \<times> ('d, 's, 'x) fetch_state) res" where
  "deliver_loop e i kept [] s = Inr (0, s\<lparr>fa_deliverq := kept\<rparr>)"
| "deliver_loop e i kept (c # cs) s =
     rbind (mail_deliver (fe_deliver e) (fe_reopen e) c (fi_msg i)) (\<lambda>(r, c).
       case r of
         MAIL_ERROR \<Rightarrow> Inr (- 1, s\<lparr>fa_deliverq := kept @ c # cs\<rparr>)
       | MAIL_MATCH \<Rightarrow> deliver_loop e i kept cs (s\<lparr>fa_matchq := fa_matchq s @ [c]\<rparr>)
       | MAIL_BLOCKED \<Rightarrow> deliver_loop e i (kept @ [c]) cs (s\<lparr>fa_blocked := fa_blocked s + 1\<rparr>)
       | _ \<Rightarrow> deliver_loop e i (kept @ [c]) cs s)"

definition fetch_deliver :: "('d, 's, 'x) fetch_env \<Rightarrow> 'x fetch_input \<Rightarrow> ('d, 's, 'x) fetch_state \<Rightarrow>
    (int \<times> ('d, 's, 'x) fetch_state) res" where
  "fetch_deliver e i s = deliver_loop e i [] (fa_deliverq s) s"

definition fetch_purge :: "conf \<Rightarrow> ('d, 's, 'x) fetch_state \<Rightarrow> bool \<times> ('d, 's, 'x) fetch_state" where
  "fetch_purge cf s =
     (if conf_purge_after cf = 0 then (False, s)
      else let n = fa_dropped s + fa_kept s in
        if n = fa_last_total s \<or> n mod conf_purge_after cf \<noteq> 0 then (False, s)
        else let s = s\<lparr>fa_last_total := n\<rparr> in
          if fa_last_dropped s = fa_dropped s then (False, s) else (True, s\<lparr>fa_last_dropped := fa_dropped s\<rparr>))"

section \<open>The loop\<close>

text \<open>\<open>fetch_poll\<close>: what went wrong on the connection to the parent ends the process.\<close>

definition fetch_poll :: "poll_answer \<Rightarrow> int res" where
  "fetch_poll p = (case p of
     PollClosed parent \<Rightarrow> if parent then Inl (FatalX ''parent socket closed'') else Inr (- 1)
   | PollFailed parent \<Rightarrow> if parent then Inl (FatalX ''parent socket error'') else Inr (- 1)
   | _ \<Rightarrow> Inr 0)"

datatype loop_next = LoopAgain | LoopAbort | LoopFinished

text \<open>\<open>(u_int) n\<close> of an int.\<close>

definition as_uint :: "int \<Rightarrow> nat" where "as_uint n = nat (n mod 2 ^ 32)"

definition update_holding :: "conf \<Rightarrow> ('d, 's, 'x) fetch_state \<Rightarrow> ('d, 's, 'x) fetch_state" where
  "update_holding cf s =
     (let h = (if fa_queued s \<le> as_uint (conf_queue_low cf) then False else fa_holding s);
          h = (if as_uint (conf_queue_high cf) \<le> fa_queued s then True else h) in s\<lparr>fa_holding := h\<rparr>)"

text \<open>The timeout the poll is called with; \<open>ios\<close> is the length of the list of ios.\<close>

definition poll_timeout :: "conf \<Rightarrow> nat \<Rightarrow> ('d, 's, 'x) fetch_state \<Rightarrow> int" where
  "poll_timeout cf ios s =
     (if fa_queued s = 0 \<and> ios = 1 then 0
      else if fa_queued s \<noteq> 0 \<and> fa_blocked s \<noteq> fa_queued s then 0 else conf_timeout cf)"

definition end_of_round :: "('d, 's, 'x) fetch_env \<Rightarrow> 'x fetch_input \<Rightarrow> ('d, 's, 'x) fetch_state \<Rightarrow>
    (loop_next \<times> ('d, 's, 'x) fetch_state) res" where
  "end_of_round e i s =
     (if fa_complete s \<and> fa_queued s = 0 then Inr (LoopFinished, s)
      else let ios = (case fo_fill (fe_ops e) of None \<Rightarrow> 1 | Some fill' \<Rightarrow> 1 + fill' (fa_data s)) in
        rbind (fetch_poll (fi_poll i (poll_timeout (fe_conf e) ios s))) (\<lambda>r. Inr (if r \<noteq> 0 then LoopAbort else LoopAgain, s)))"

definition fetch_call :: "('d, 's, 'x) fetch_env \<Rightarrow> 'x fetch_input \<Rightarrow> ('d, 's, 'x) fetch_state \<Rightarrow>
    (loop_next \<times> ('d, 's, 'x) fetch_state) res" where
  "fetch_call e i s =
     rbind (fo_step (fe_ops e) (fa_data s) ((fa_ctx s)\<lparr>FETCH_EMPTY := (fa_queued s = 0)\<rparr>)) (\<lambda>(r, d, f).
       let s = s\<lparr>fa_data := d, fa_ctx := f\<rparr> in
       case r of
         FETCH_ERROR \<Rightarrow> Inr (LoopAbort, s)
       | FETCH_EXIT \<Rightarrow> end_of_round e i (s\<lparr>fa_complete := True\<rparr>)
       | FETCH_AGAIN \<Rightarrow> Inr (LoopAgain, s)
       | FETCH_BLOCK \<Rightarrow> end_of_round e i s
       | FETCH_MAIL \<Rightarrow> rbind (fetch_enqueue e i (f_mail f) s) (\<lambda>(n, s).
           if n \<noteq> 0 then Inr (LoopAbort, s)
           else Inr (LoopAgain, s\<lparr>fa_ctx := (fa_ctx s)\<lparr>f_mail := new_mail\<rparr>\<rparr>)))"

definition fetch_round :: "('d, 's, 'x) fetch_env \<Rightarrow> 'x fetch_input \<Rightarrow> ('d, 's, 'x) fetch_state \<Rightarrow>
    (loop_next \<times> ('d, 's, 'x) fetch_state) res" where
  "fetch_round e i s =
     rbind (fetch_match e i (s\<lparr>fa_blocked := 0\<rparr>)) (\<lambda>(n, s).
     if n \<noteq> 0 then Inr (LoopAbort, s)
     else rbind (fetch_deliver e i s) (\<lambda>(n, s).
     if n \<noteq> 0 then Inr (LoopAbort, s)
     else case fetch_purge (fe_conf e) s of (purge, s) \<Rightarrow>
       let s = (if purge then s\<lparr>fa_ctx := (fa_ctx s)\<lparr>FETCH_PURGE := True\<rparr>\<rparr> else s);
           s = update_holding (fe_conf e) s in
       if \<not> fa_holding s \<and> \<not> fa_complete s then fetch_call e i s else end_of_round e i s))"

text \<open>The loop reads one input each time round; \<open>LoopAgain\<close> means that it is still running when they are used up.\<close>

fun fetch_loop :: "('d, 's, 'x) fetch_env \<Rightarrow> 'x fetch_input list \<Rightarrow> ('d, 's, 'x) fetch_state \<Rightarrow>
    (loop_next \<times> ('d, 's, 'x) fetch_state) res" where
  "fetch_loop e [] s = Inr (LoopAgain, s)"
| "fetch_loop e (i # is) s = rbind (fetch_round e i s) (\<lambda>(r, s).
     if r = LoopAgain then fetch_loop e is s else Inr (r, s))"

definition start_state :: "('d, 's, 'x) fetch_env \<Rightarrow> account \<Rightarrow> 'd \<Rightarrow> bool \<Rightarrow> ('d, 's, 'x) fetch_state" where
  "start_state e a d poll = \<lparr>fa_account = a, fa_data = d,
     fa_ctx = \<lparr>f_state = fo_first (fe_ops e), FETCH_PURGE = False, FETCH_EMPTY = False, FETCH_POLL = poll, f_mail = new_mail\<rparr>,
     fa_matchq = [], fa_deliverq = [], fa_dropped = 0, fa_kept = 0, fa_queued = 0, fa_blocked = 0,
     fa_last_total = 0, fa_last_dropped = 0, fa_holding = False, fa_complete = False\<rparr>"

text \<open>The result is \<open>aborted\<close>, \<open>None\<close> while the loop is running; \<open>fetch_free\<close> empties the queues.\<close>

definition fetch_account :: "('d, 's, 'x) fetch_env \<Rightarrow> 'x fetch_input list \<Rightarrow> account \<Rightarrow> 'd \<Rightarrow> bool \<Rightarrow>
    (int option \<times> ('d, 's, 'x) fetch_state) res" where
  "fetch_account e is a d poll =
     (if poll \<and> fo_total (fe_ops e) = None then Inr (Some 0, start_state e a d poll)
      else rbind (fetch_loop e is (start_state e a d poll)) (\<lambda>(r, s).
        let freed = s\<lparr>fa_matchq := [], fa_deliverq := []\<rparr> in
        case r of
          LoopAgain \<Rightarrow> Inr (None, s)
        | LoopAbort \<Rightarrow> Inr (Some 1, freed\<lparr>fa_data := fo_abort (fe_ops e) (fa_data s)\<rparr>)
        | LoopFinished \<Rightarrow> Inr (Some 0, freed)))"

section \<open>The length of the queue\<close>

lemma dequeue_result:
  assumes "fetch_dequeue e c s = Inr (n, s')"
  shows "(\<exists>m m' err. call_commit e (fa_data s) m = Inr (err, fa_data s', m')) \<and> (n = 0 \<longrightarrow> fa_queued s' = fa_queued s - 1) \<and>
    fa_queued s' \<le> fa_queued s \<and> fa_complete s' = fa_complete s \<and> fa_ctx s' = fa_ctx s \<and> fa_deliverq s' = fa_deliverq s"
  using assms by (auto simp: fetch_dequeue_def rbind_Inr_iff Let_def split: decision.splits if_splits; metis)

lemma match_loop_Cons:
  assumes "match_loop e i kept (c # cs) s = Inr (n, s')"
  obtains s1 c1 where "n \<noteq> 0" "s' = s1\<lparr>fa_matchq := kept @ c1 # cs\<rparr>"
      "s1 = s \<or> (\<exists>k. fetch_dequeue e c1 s = Inr (k, s1))"
    | c1 where "match_loop e i kept cs (s\<lparr>fa_deliverq := fa_deliverq s @ [c1]\<rparr>) = Inr (n, s')"
    | c1 s1 where "fetch_dequeue e c1 s = Inr (0, s1)" "match_loop e i kept cs s1 = Inr (n, s')"
    | c1 b where "match_loop e i (kept @ [c1]) cs (s\<lparr>fa_blocked := b\<rparr>) = Inr (n, s')"
proof -
  obtain r c1 where r: "mail_match (fe_match e) (fe_conf e) (fi_os i) (fe_actions e) c (fi_msg i) = Inr (r, c1)"
    using assms by (auto simp: rbind_Inr_iff)
  have same: "s\<lparr>fa_blocked := fa_blocked s\<rparr> = s" by simp
  show thesis
  proof (cases r)
    case MAIL_DONE
    with assms r obtain k s1 where "fetch_dequeue e c1 s = Inr (k, s1)" by (auto simp: rbind_Inr_iff)
    then show ?thesis using assms r MAIL_DONE that(1,3) by (cases "k = 0") auto
  next
    case MAIL_CONTINUE
    then show ?thesis using assms r that(4) [of c1 "fa_blocked s"] by simp
  next
    case MAIL_MATCH
    then show ?thesis using assms r that(4) [of c1 "fa_blocked s"] by simp
  qed (use assms r that in auto)
qed

lemma match_loop_frame:
  "match_loop e i kept cs s = Inr (n, s') \<Longrightarrow>
    fa_queued s' \<le> fa_queued s \<and> fa_complete s' = fa_complete s \<and> fa_ctx s' = fa_ctx s"
proof (induction cs arbitrary: kept s)
  case (Cons c cs)
  from Cons.prems show ?case
  proof (rule match_loop_Cons)
    fix s1 c1
    assume "s' = s1\<lparr>fa_matchq := kept @ c1 # cs\<rparr>" "s1 = s \<or> (\<exists>k. fetch_dequeue e c1 s = Inr (k, s1))"
    then show ?thesis using dequeue_result by fastforce
  next
    fix c1 s1
    assume "fetch_dequeue e c1 s = Inr (0, s1)" "match_loop e i kept cs s1 = Inr (n, s')"
    then show ?thesis using dequeue_result [of e c1 s 0 s1] Cons.IH [of kept s1] by simp
  qed (auto dest!: Cons.IH)
qed auto

lemma deliver_loop_Cons:
  assumes "deliver_loop e i kept (c # cs) s = Inr (n, s')"
  obtains c1 where "n \<noteq> 0" "s' = s\<lparr>fa_deliverq := kept @ c1 # cs\<rparr>"
    | c1 where "deliver_loop e i kept cs (s\<lparr>fa_matchq := fa_matchq s @ [c1]\<rparr>) = Inr (n, s')"
    | c1 b where "deliver_loop e i (kept @ [c1]) cs (s\<lparr>fa_blocked := b\<rparr>) = Inr (n, s')"
proof -
  obtain r c1 where r: "mail_deliver (fe_deliver e) (fe_reopen e) c (fi_msg i) = Inr (r, c1)"
    using assms by (auto simp: rbind_Inr_iff)
  show thesis
    by (cases r) (use assms r that(1,2) that(3) [of c1 "fa_blocked s"] that(3) [of c1 "fa_blocked s + 1"] in auto)
qed

lemma deliver_loop_frame:
  "deliver_loop e i kept cs s = Inr (n, s') \<Longrightarrow>
    fa_queued s' = fa_queued s \<and> fa_complete s' = fa_complete s \<and> fa_ctx s' = fa_ctx s \<and> fa_data s' = fa_data s \<and>
    (n = 0 \<longrightarrow> length (fa_matchq s') + length (fa_deliverq s') = length kept + length cs + length (fa_matchq s))"
proof (induction cs arbitrary: kept s)
  case (Cons c cs)
  from Cons.prems show ?case by (rule deliver_loop_Cons) (auto dest!: Cons.IH)
qed auto

lemma purge_frame:
  "fetch_purge cf s = (b, s') \<Longrightarrow> fa_queued s' = fa_queued s \<and> fa_matchq s' = fa_matchq s \<and> fa_deliverq s' = fa_deliverq s \<and>
    fa_complete s' = fa_complete s \<and> fa_ctx s' = fa_ctx s \<and> fa_data s' = fa_data s"
  by (auto simp: fetch_purge_def Let_def split: if_splits)

lemma enqueue_result:
  assumes "fetch_enqueue e i m s = Inr (0, s')"
  shows "(fa_queued s' = fa_queued s \<and> fa_matchq s' = fa_matchq s \<and>
      (\<exists>m m' err. call_commit e (fa_data s) m = Inr (err, fa_data s', m')) \<or>
      (\<exists>c. fa_queued s' = Suc (fa_queued s) \<and> fa_matchq s' = fa_matchq s @ [c] \<and> fa_data s' = fa_data s)) \<and>
    fa_deliverq s' = fa_deliverq s \<and> fa_complete s' = fa_complete s \<and> fa_ctx s' = fa_ctx s"
  using assms by (auto simp: fetch_enqueue_def rbind_Inr_iff Let_def split: if_splits option.splits; metis)

lemma end_of_round_same:
  "end_of_round e i s = Inr (r, s') \<Longrightarrow> s' = s \<and> (r = LoopFinished \<longleftrightarrow> fa_complete s \<and> fa_queued s = 0)"
  by (auto simp: end_of_round_def rbind_Inr_iff Let_def split: if_splits)

lemma call_result:
  assumes "fetch_call e i s = Inr (r, s')"
  obtains f where "r = LoopAbort" "fa_queued s' \<le> Suc (fa_queued s)"
    | q d f where "fo_step (fe_ops e) (fa_data s) ((fa_ctx s)\<lparr>FETCH_EMPTY := (fa_queued s = 0)\<rparr>) = Inr (q, d, f)"
        "q \<in> {FETCH_AGAIN, FETCH_BLOCK}" "s' = s\<lparr>fa_data := d, fa_ctx := f\<rparr>" "r = LoopFinished \<longrightarrow> fa_complete s"
    | d f where "fo_step (fe_ops e) (fa_data s) ((fa_ctx s)\<lparr>FETCH_EMPTY := (fa_queued s = 0)\<rparr>) = Inr (FETCH_EXIT, d, f)"
        "s' = s\<lparr>fa_data := d, fa_ctx := f, fa_complete := True\<rparr>" "r = LoopFinished \<longleftrightarrow> fa_queued s = 0"
    | d f s1 where "fo_step (fe_ops e) (fa_data s) ((fa_ctx s)\<lparr>FETCH_EMPTY := (fa_queued s = 0)\<rparr>) = Inr (FETCH_MAIL, d, f)"
        "fetch_enqueue e i (f_mail f) (s\<lparr>fa_data := d, fa_ctx := f\<rparr>) = Inr (0, s1)" "r = LoopAgain"
        "s' = s1\<lparr>fa_ctx := f\<lparr>f_mail := new_mail\<rparr>\<rparr>"
proof -
  obtain q d f where q: "fo_step (fe_ops e) (fa_data s) ((fa_ctx s)\<lparr>FETCH_EMPTY := (fa_queued s = 0)\<rparr>) = Inr (q, d, f)"
    using assms by (auto simp: fetch_call_def rbind_Inr_iff)
  let ?s = "s\<lparr>fa_data := d, fa_ctx := f\<rparr>"
  show thesis
  proof (cases q)
    case FETCH_MAIL
    obtain n s1 where n: "fetch_enqueue e i (f_mail f) ?s = Inr (n, s1)"
      using assms q FETCH_MAIL by (auto simp: fetch_call_def rbind_Inr_iff)
    show ?thesis
    proof (cases "n = 0")
      case True
      then show ?thesis using assms q FETCH_MAIL n that(4) enqueue_result [of e i _ ?s s1] by (auto simp: fetch_call_def)
    next
      case False
      have "fa_queued s1 \<le> Suc (fa_queued s)"
        using n False by (auto simp: fetch_enqueue_def rbind_Inr_iff Let_def split: if_splits option.splits)
      then show ?thesis using assms q FETCH_MAIL n False that(1) by (auto simp: fetch_call_def)
    qed
  next
    case FETCH_EXIT
    then have "end_of_round e i (?s\<lparr>fa_complete := True\<rparr>) = Inr (r, s')" using assms q by (simp add: fetch_call_def)
    from end_of_round_same [OF this] show ?thesis using that(3) q FETCH_EXIT by auto
  next
    case FETCH_BLOCK
    then have "end_of_round e i ?s = Inr (r, s')" using assms q by (simp add: fetch_call_def)
    from end_of_round_same [OF this] show ?thesis using that(2) q FETCH_BLOCK by auto
  qed (use assms q that in \<open>auto simp: fetch_call_def\<close>)
qed

lemma call_queued: "fetch_call e i s = Inr (r, s') \<Longrightarrow> fa_queued s' \<le> Suc (fa_queued s)"
  by (erule call_result) (auto dest: enqueue_result)

text \<open>A round: the two queues are gone through, the flags are set, and the handler is called or not.\<close>

lemma round_result:
  assumes "fetch_round e i s = Inr (r, s')"
  obtains "r = LoopAbort" "fa_queued s' \<le> fa_queued s"
    | s1 s2 s4 where "fetch_match e i (s\<lparr>fa_blocked := 0\<rparr>) = Inr (0, s1)" "fetch_deliver e i s1 = Inr (0, s2)"
        "fa_queued s4 = fa_queued s2" "fa_matchq s4 = fa_matchq s2" "fa_deliverq s4 = fa_deliverq s2"
        "fa_data s4 = fa_data s2" "fa_complete s4 = fa_complete s2"
        "fa_ctx s4 = fa_ctx s2 \<or> fa_ctx s4 = (fa_ctx s2)\<lparr>FETCH_PURGE := True\<rparr>"
        "\<not> fa_holding s4 \<Longrightarrow> fa_queued s4 < as_uint (conf_queue_high (fe_conf e))"
        "(if \<not> fa_holding s4 \<and> \<not> fa_complete s4 then fetch_call e i s4 else end_of_round e i s4) = Inr (r, s')"
proof -
  obtain n1 s1 where 1: "fetch_match e i (s\<lparr>fa_blocked := 0\<rparr>) = Inr (n1, s1)"
    using assms by (auto simp: fetch_round_def rbind_Inr_iff)
  have q1: "fa_queued s1 \<le> fa_queued s" using match_loop_frame [OF 1 [unfolded fetch_match_def]] by simp
  show thesis
  proof (cases "n1 = 0")
    case False
    then show ?thesis using assms 1 q1 that(1) by (auto simp: fetch_round_def)
  next
    case True
    then obtain n2 s2 where 2: "fetch_deliver e i s1 = Inr (n2, s2)"
      using assms 1 by (auto simp: fetch_round_def rbind_Inr_iff)
    have q2: "fa_queued s2 = fa_queued s1" using deliver_loop_frame [OF 2 [unfolded fetch_deliver_def]] by simp
    obtain b s3 where 3: "fetch_purge (fe_conf e) s2 = (b, s3)" by (cases "fetch_purge (fe_conf e) s2")
    define s4 where "s4 = update_holding (fe_conf e) (if b then s3\<lparr>fa_ctx := (fa_ctx s3)\<lparr>FETCH_PURGE := True\<rparr>\<rparr> else s3)"
    show ?thesis
    proof (cases "n2 = 0")
      case False
      then show ?thesis using assms 1 2 q1 q2 True that(1) by (auto simp: fetch_round_def)
    next
      case n2: True
      have "(if \<not> fa_holding s4 \<and> \<not> fa_complete s4 then fetch_call e i s4 else end_of_round e i s4) = Inr (r, s')"
        using assms 1 2 3 True n2 by (cases b) (auto simp: fetch_round_def s4_def Let_def split: if_splits)
      then show ?thesis using 1 2 True n2 purge_frame [OF 3]
        by (intro that(2) [of s1 s2 s4]) (auto simp: s4_def update_holding_def Let_def split: if_splits)
    qed
  qed
qed

lemma round_queued:
  assumes "fetch_round e i s = Inr (r, s')" and "fa_queued s \<le> as_uint (conf_queue_high (fe_conf e))"
  shows "fa_queued s' \<le> as_uint (conf_queue_high (fe_conf e))"
  using assms(1)
proof (rule round_result)
  fix s1 s2 s4
  assume "fetch_match e i (s\<lparr>fa_blocked := 0\<rparr>) = Inr (0, s1)" "fetch_deliver e i s1 = Inr (0, s2)" "fa_queued s4 = fa_queued s2"
    and h: "\<not> fa_holding s4 \<Longrightarrow> fa_queued s4 < as_uint (conf_queue_high (fe_conf e))"
      "(if \<not> fa_holding s4 \<and> \<not> fa_complete s4 then fetch_call e i s4 else end_of_round e i s4) = Inr (r, s')"
  then have "fa_queued s4 \<le> fa_queued s"
    using match_loop_frame [of e i "[]" _ _ 0 s1] deliver_loop_frame [of e i "[]" _ _ 0 s2]
    by (fastforce simp: fetch_match_def fetch_deliver_def)
  then show ?thesis using h assms(2) call_queued [of e i s4 r s'] end_of_round_same [of e i s4 r s']
    by (fastforce split: if_splits)
qed (use assms(2) in simp)

lemma loop_queued:
  "fetch_loop e is s = Inr (r, s') \<Longrightarrow> fa_queued s \<le> as_uint (conf_queue_high (fe_conf e)) \<Longrightarrow>
    fa_queued s' \<le> as_uint (conf_queue_high (fe_conf e))"
proof (induction "is" arbitrary: s)
  case (Cons i "is")
  then show ?case using round_queued [of e i s] by (auto simp: rbind_Inr_iff split: if_splits)
qed simp

section \<open>Handlers that keep count\<close>

text \<open>
  A call of a handler keeps an invariant on the number of mails that were returned and not committed yet: a state
  that goes on keeps it, one that returns a mail adds one, and the handler ends when there is none, with \<open>fin\<close>.
\<close>

definition keeps :: "(nat \<Rightarrow> 'd \<Rightarrow> ('s, 'x) fetch_ctx \<Rightarrow> bool) \<Rightarrow> ('d \<Rightarrow> ('s, 'x) fetch_ctx \<Rightarrow> bool) \<Rightarrow> nat \<Rightarrow>
    (fetch_result \<times> 'd \<times> ('s, 'x) fetch_ctx) res \<Rightarrow> bool" where
  "keeps J fin n r \<longleftrightarrow> (\<forall>q d f. r = Inr (q, d, f) \<longrightarrow>
     (q = FETCH_AGAIN \<or> q = FETCH_BLOCK \<longrightarrow> J n d f) \<and> (q = FETCH_MAIL \<longrightarrow> (\<forall>m. J (Suc n) d (f\<lparr>f_mail := m\<rparr>))) \<and>
     (q = FETCH_EXIT \<longrightarrow> n = 0 \<and> fin d f))"

named_theorems keeps_intros \<open>a step keeps the count when its parts do\<close>

lemma keeps_basic [keeps_intros]:
  "keeps J fin n (Inl e)" "keeps J fin n (Inr (FETCH_ERROR, d, f))"
  "J n d f \<Longrightarrow> keeps J fin n (Inr (FETCH_BLOCK, d, f))"
  "J n d f \<Longrightarrow> keeps J fin n (Inr (FETCH_AGAIN, d, f))"
  "(\<And>m. J (Suc n) d (f\<lparr>f_mail := m\<rparr>)) \<Longrightarrow> keeps J fin n (Inr (FETCH_MAIL, d, f))"
  "n = 0 \<Longrightarrow> fin d f \<Longrightarrow> keeps J fin n (Inr (FETCH_EXIT, d, f))"
  by (simp_all add: keeps_def)

lemma keeps_rbind [keeps_intros]: "(\<And>y. r = Inr y \<Longrightarrow> keeps J fin n (k y)) \<Longrightarrow> keeps J fin n (rbind r k)"
  by (auto simp: keeps_def rbind_Inr_iff)

lemma keeps_prod [keeps_intros]: "(\<And>a b. p = (a, b) \<Longrightarrow> keeps J fin n (k a b)) \<Longrightarrow> keeps J fin n (case p of (a, b) \<Rightarrow> k a b)"
  by (cases p) simp

lemma keeps_if [keeps_intros]: "(b \<Longrightarrow> keeps J fin n x) \<Longrightarrow> (\<not> b \<Longrightarrow> keeps J fin n y) \<Longrightarrow> keeps J fin n (if b then x else y)"
  by simp

lemma keeps_option [keeps_intros]:
  "(v = None \<Longrightarrow> keeps J fin n x) \<Longrightarrow> (\<And>a. v = Some a \<Longrightarrow> keeps J fin n (k a)) \<Longrightarrow>
    keeps J fin n (case v of None \<Rightarrow> x | Some a \<Rightarrow> k a)"
  by (cases v) simp_all

lemma keeps_list [keeps_intros]:
  "(v = [] \<Longrightarrow> keeps J fin n x) \<Longrightarrow> (\<And>a q. v = a # q \<Longrightarrow> keeps J fin n (k a q)) \<Longrightarrow>
    keeps J fin n (case v of [] \<Rightarrow> x | a # q \<Rightarrow> k a q)"
  by (cases v) simp_all

text \<open>What the loop needs of a handler; the flags of the loop do not matter to the invariant.\<close>

locale fetch_source =
  fixes inv :: "nat \<Rightarrow> 'd \<Rightarrow> ('s, 'x) fetch_ctx \<Rightarrow> bool"
    and fin :: "'d \<Rightarrow> ('s, 'x) fetch_ctx \<Rightarrow> bool"
    and step :: "'d \<Rightarrow> ('s, 'x) fetch_ctx \<Rightarrow> (fetch_result \<times> 'd \<times> ('s, 'x) fetch_ctx) res"
    and commit :: "'d \<Rightarrow> 'x mail \<Rightarrow> (fetch_result \<times> 'd \<times> 'x mail) res"
  assumes step_law: "inv n d f \<Longrightarrow> keeps inv fin n (step d f)"
    and commit_law: "inv (Suc n) d f \<Longrightarrow> commit d m = Inr (r, d', m') \<Longrightarrow> inv n d' f"
    and flags_law: "inv n d (f\<lparr>FETCH_PURGE := p\<rparr>) = inv n d f" "inv n d (f\<lparr>FETCH_EMPTY := p\<rparr>) = inv n d f"
begin

definition counted :: "nat \<Rightarrow> ('d, 's, 'x) fetch_state \<Rightarrow> bool" where
  "counted k s \<longleftrightarrow> \<not> fa_complete s \<and> fa_queued s = k + length (fa_matchq s) + length (fa_deliverq s) \<and>
     inv (fa_queued s) (fa_data s) (fa_ctx s)"

definition uses :: "('d, 's, 'x) fetch_env \<Rightarrow> bool" where
  "uses e \<longleftrightarrow> fo_step (fe_ops e) = step \<and> fo_commit (fe_ops e) = Some commit"

lemma commit_counts:
  "uses e \<Longrightarrow> inv (Suc n) d f \<Longrightarrow> call_commit e d m = Inr (err, d', m') \<Longrightarrow> inv n d' f"
  using commit_law by (auto simp: uses_def call_commit_def rbind_Inr_iff)

lemma match_counts:
  assumes "uses e"
  shows "match_loop e i kept cs s = Inr (0, s') \<Longrightarrow> \<not> fa_complete s \<Longrightarrow> inv (fa_queued s) (fa_data s) (fa_ctx s) \<Longrightarrow>
    fa_queued s = length kept + length cs + length (fa_deliverq s) \<Longrightarrow> counted 0 s'"
proof (induction cs arbitrary: kept s)
  case (Cons c cs)
  from Cons.prems(1) show ?case
  proof (rule match_loop_Cons)
    fix c1 s1
    assume d: "fetch_dequeue e c1 s = Inr (0, s1)" "match_loop e i kept cs s1 = Inr (0, s')"
    obtain m m' err where m: "call_commit e (fa_data s) m = Inr (err, fa_data s1, m')" using dequeue_result [OF d(1)] by blast
    have "inv (fa_queued s - 1) (fa_data s1) (fa_ctx s)"
      using commit_counts [OF assms _ m] Cons.prems(3,4) by simp
    then show ?thesis using Cons.IH [OF d(2)] dequeue_result [OF d(1)] Cons.prems by simp
  qed (use Cons in auto)
qed (auto simp: counted_def)

lemma deliver_counts:
  assumes "deliver_loop e i [] (fa_deliverq s) s = Inr (0, s')" and "counted 0 s"
  shows "counted 0 s'"
proof -
  from assms(2) have "\<not> fa_complete s" "fa_queued s = length (fa_matchq s) + length (fa_deliverq s)"
    "inv (fa_queued s) (fa_data s) (fa_ctx s)" unfolding counted_def by (simp, simp, blast)
  then show ?thesis using deliver_loop_frame [OF assms(1)] by (simp add: counted_def)
qed

lemma call_counts:
  assumes e: "uses e" and s: "counted 0 s" and r: "fetch_call e i s = Inr (r, s')"
  shows "(r = LoopAgain \<longrightarrow> counted 0 s') \<and> (r = LoopFinished \<longrightarrow> fa_queued s' = 0 \<and> fa_matchq s' = [] \<and> fa_deliverq s' = [] \<and>
    fin (fa_data s') (fa_ctx s'))"
proof -
  let ?f = "(fa_ctx s)\<lparr>FETCH_EMPTY := (fa_queued s = 0)\<rparr>"
  have "inv (fa_queued s) (fa_data s) ?f" using s unfolding counted_def flags_law by blast
  note law = step_law [OF this, unfolded keeps_def, rule_format]
  have step: "fo_step (fe_ops e) = step" using e by (simp add: uses_def)
  from r show ?thesis
  proof (rule call_result)
    fix q d f
    assume q: "fo_step (fe_ops e) (fa_data s) ?f = Inr (q, d, f)" "q \<in> {FETCH_AGAIN, FETCH_BLOCK}"
      "s' = s\<lparr>fa_data := d, fa_ctx := f\<rparr>" "r = LoopFinished \<longrightarrow> fa_complete s"
    with law [OF q(1) [unfolded step]] s show ?thesis by (auto simp: counted_def)
  next
    fix d f
    assume q: "fo_step (fe_ops e) (fa_data s) ?f = Inr (FETCH_EXIT, d, f)"
      "s' = s\<lparr>fa_data := d, fa_ctx := f, fa_complete := True\<rparr>" "r = LoopFinished \<longleftrightarrow> fa_queued s = 0"
    with law [OF q(1) [unfolded step]] s show ?thesis by (simp add: counted_def)
  next
    fix d f s1
    assume q: "fo_step (fe_ops e) (fa_data s) ?f = Inr (FETCH_MAIL, d, f)"
      and n: "fetch_enqueue e i (f_mail f) (s\<lparr>fa_data := d, fa_ctx := f\<rparr>) = Inr (0, s1)" "r = LoopAgain"
        "s' = s1\<lparr>fa_ctx := f\<lparr>f_mail := new_mail\<rparr>\<rparr>"
    have i: "inv (Suc (fa_queued s)) d (f\<lparr>f_mail := m\<rparr>)" for m
      using law [OF q [unfolded step]] by simp
    from enqueue_result [OF n(1)] show ?thesis
      using n s i [of new_mail] commit_counts [OF e i [of new_mail]] by (auto simp: counted_def)
  qed simp
qed

lemma round_counts:
  assumes e: "uses e" and s: "counted 0 s" and r: "fetch_round e i s = Inr (r, s')"
  shows "(r = LoopAgain \<longrightarrow> counted 0 s') \<and> (r = LoopFinished \<longrightarrow> fa_queued s' = 0 \<and> fa_matchq s' = [] \<and> fa_deliverq s' = [] \<and>
    fin (fa_data s') (fa_ctx s'))"
  using r
proof (rule round_result)
  fix s1 s2 s4
  assume m: "fetch_match e i (s\<lparr>fa_blocked := 0\<rparr>) = Inr (0, s1)" and d: "fetch_deliver e i s1 = Inr (0, s2)"
    and s4: "fa_queued s4 = fa_queued s2" "fa_matchq s4 = fa_matchq s2" "fa_deliverq s4 = fa_deliverq s2"
        "fa_data s4 = fa_data s2" "fa_complete s4 = fa_complete s2"
        "fa_ctx s4 = fa_ctx s2 \<or> fa_ctx s4 = (fa_ctx s2)\<lparr>FETCH_PURGE := True\<rparr>"
    and c: "(if \<not> fa_holding s4 \<and> \<not> fa_complete s4 then fetch_call e i s4 else end_of_round e i s4) = Inr (r, s')"
  have "counted 0 s1"
    by (rule match_counts [OF e m [unfolded fetch_match_def]]) (use s in \<open>auto simp: counted_def\<close>)
  from deliver_counts [OF d [unfolded fetch_deliver_def] this] have "counted 0 s2" .
  with s4 have 4: "counted 0 s4" by (auto simp: counted_def flags_law)
  show ?thesis
  proof (cases "fa_holding s4")
    case True
    then show ?thesis using c 4 end_of_round_same [of e i s4 r s'] by (auto simp: counted_def)
  next
    case False
    with c 4 have "fetch_call e i s4 = Inr (r, s')" by (simp add: counted_def)
    from call_counts [OF e 4 this] show ?thesis .
  qed
qed simp

lemma loop_counts:
  assumes "uses e" and "counted 0 s" and "fetch_loop e is s = Inr (r, s')"
  shows "(r = LoopAgain \<longrightarrow> counted 0 s') \<and> (r = LoopFinished \<longrightarrow> fa_queued s' = 0 \<and> fa_matchq s' = [] \<and> fa_deliverq s' = [] \<and>
    fin (fa_data s') (fa_ctx s'))"
  using assms(2,3)
proof (induction "is" arbitrary: s)
  case (Cons i "is")
  obtain q s1 where q: "fetch_round e i s = Inr (q, s1)" using Cons.prems(2) by (auto simp: rbind_Inr_iff)
  show ?case using round_counts [OF assms(1) Cons.prems(1) q] Cons q by (cases q) auto
qed simp

end

text \<open>
  C20: however many mails the server has and however they are matched, the number of mails that are held in memory
  at once is at most the limit of the configuration.
\<close>

theorem queue_bounded:
  assumes "fetch_loop e is (start_state e a d poll) = Inr (r, s)"
  shows "fa_queued s \<le> as_uint (conf_queue_high (fe_conf e))"
  by (rule loop_queued [OF assms]) (simp add: start_state_def)

end
