(* ===== verification/Pop3.thy ===== *)
theory Pop3 imports FetchQueue "HOL-Library.Char_ord" "HOL-Library.List_Lexorder" begin

text \<open>
  Fetching from a POP3 server (\<^verbatim>\<open>pop3-common.c\<close>, with the transport of \<^verbatim>\<open>fetch-pop3.c\<close>): the
  state machine, the cache file, and the queues of mails that are on the server, in the cache, wanted and to be
  dropped. A splay tree is the list of its nodes in the order of \<open>strcmp\<close> on the UIDs.
\<close>

section \<open>Data\<close>

record pop3_mail =
  pm_uid :: "char list"
  pm_idx :: nat

datatype pop3_state =
    Pop3_connect | Pop3_connected | Pop3_user | Pop3_stat | Pop3_first | Pop3_cache1 | Pop3_cache2 | Pop3_cache3
  | Pop3_next | Pop3_delete | Pop3_reconnect | Pop3_list | Pop3_retr | Pop3_line | Pop3_quit | Pop3_init

record 'c pop3_data =
  p_path :: "char list option"
  p_only :: fetch_only
  p_user :: "char list"
  p_pass :: "char list"
  p_server :: "(char list \<times> char list) option"
  p_apop :: bool
  p_uidl :: bool
  p_cur :: nat
  p_num :: nat
  p_total :: nat
  p_committed :: nat
  p_serverq :: "pop3_mail list"
  p_cacheq :: "pop3_mail list"
  p_wantq :: "pop3_mail list"
  p_dropq :: "pop3_mail list"
  p_flushing :: bool
  p_size :: nat
  p_src :: "char list option"
  p_conn :: 'c
  p_file :: "char list option"

text \<open>
  What the code asks of its surroundings: the connection, whether the cache file can be opened and locked and
  whether it can be replaced, MD5 (as hexadecimal digits), and the default tags of a mail at this time.
  The file itself, \<open>None\<close> when it does not exist, is kept with the data.
\<close>

record 'c pop3_env =
  pe_ops :: "'c conn_ops"
  pe_load :: bool
  pe_save :: bool
  pe_md5 :: "char list \<Rightarrow> char list"
  pe_tags :: "strb \<Rightarrow> char list option \<Rightarrow> strb res"
  pe_shm :: "nat \<Rightarrow> bool"
  pe_max_size :: nat


section \<open>Trees\<close>

definition tree_find :: "pop3_mail list \<Rightarrow> pop3_mail \<Rightarrow> pop3_mail option" where
  "tree_find t aux = List.find (\<lambda>x. pm_uid x = pm_uid aux) t"

text \<open>A node whose UID is there already is not inserted.\<close>

definition tree_insert :: "pop3_mail \<Rightarrow> pop3_mail list \<Rightarrow> pop3_mail list" where
  "tree_insert aux t = (if tree_find t aux \<noteq> None then t else insort_key pm_uid aux t)"

section \<open>The cache file\<close>

text \<open>\<open>fscanf (f, "%zu ", &uidlen)\<close> and \<open>fread\<close> until the end of the file; \<open>None\<close> is an invalid entry.\<close>

function load_entries :: "char list \<Rightarrow> pop3_mail list \<Rightarrow> pop3_mail list option" where
  "load_entries s t =
     (case scan_unsigned 64 s of
        None \<Rightarrow>
          (let r = dropWhile isspace s in
           if r = [] \<or> tl r = [] \<and> (hd r = CHR ''-'' \<or> hd r = CHR ''+'') then Some t else None)
      | Some (uidlen, r) \<Rightarrow>
          (let r = dropWhile isspace r in
           if uidlen = 0 \<or> length r < uidlen then None
           else load_entries (drop uidlen r) (tree_insert \<lparr>pm_uid = cstr (take uidlen r), pm_idx = 0\<rparr> t)))"
  by pat_completeness auto

lemma length_dropWhile_le': "length (dropWhile P xs) \<le> length xs"
  by (induction xs) auto

lemma scan_unsigned_shorter: "scan_unsigned w s = Some (n, r) \<Longrightarrow> length r \<le> length s"
proof -
  assume "scan_unsigned w s = Some (n, r)"
  then obtain u where "r = dropWhile isdigit u" "u = dropWhile isspace s \<or> u = tl (dropWhile isspace s)"
    by (auto simp: scan_unsigned_def Let_def split: if_splits)
  then have "length r \<le> length u" "length u \<le> length s"
    using length_dropWhile_le' [of isspace s] length_dropWhile_le' [of isdigit u] by auto
  then show ?thesis by simp
qed

termination load_entries
proof (relation "measure (\<lambda>(s, t). length s)", simp, clarsimp)
  fix s :: "char list" and uidlen r
  assume "scan_unsigned 64 s = Some (uidlen, r)" "0 < uidlen" "\<not> length (dropWhile isspace r) < uidlen"
  then show "length (dropWhile isspace r) - uidlen < length s"
    using scan_unsigned_shorter [of 64 s uidlen r] length_dropWhile_le' [of isspace r] by linarith
qed

declare load_entries.simps [simp del]

text \<open>The result is 0 or -1; the entries read before an invalid one stay in the tree, which is not looked at then.\<close>

definition pop3_load :: "'c pop3_env \<Rightarrow> 'c pop3_data \<Rightarrow> int \<times> 'c pop3_data" where
  "pop3_load e d =
     (if p_path d = None then (0, d)
      else case p_file d of
        None \<Rightarrow> (0, d)
      | Some s \<Rightarrow>
          if \<not> pe_load e then (- 1, d)
          else case load_entries s (p_cacheq d) of None \<Rightarrow> (- 1, d) | Some t \<Rightarrow> (0, d\<lparr>p_cacheq := t\<rparr>))"

definition save_entries :: "pop3_mail list \<Rightarrow> char list" where
  "save_entries t = concat (map (\<lambda>aux. show_nat (length (pm_uid aux)) @ '' '' @ pm_uid aux @ [NL]) t)"

definition pop3_save :: "'c pop3_env \<Rightarrow> 'c pop3_data \<Rightarrow> int \<times> 'c pop3_data" where
  "pop3_save e d =
     (if p_path d = None then (0, d)
      else if \<not> pe_save e then (- 1, d)
      else (0, d\<lparr>p_file := Some (save_entries (p_cacheq d))\<rparr>))"

section \<open>Operations\<close>

definition pop3_okay :: "char list \<Rightarrow> bool" where "pop3_okay line \<longleftrightarrow> starts_with ''+OK'' line"

text \<open>A mail that goes to the cache; a second mail with its UID is freed.\<close>

definition pop3_commit :: "'c pop3_env \<Rightarrow> 'c pop3_data \<Rightarrow> pop3_mail mail \<Rightarrow> (fetch_result \<times> 'c pop3_data \<times> pop3_mail mail) res" where
  "pop3_commit e d m = (case auxdata m of
     None \<Rightarrow> Inl (MemErr ''pop3_commit'')
   | Some aux \<Rightarrow>
       if decision m = DECISION_DROP then Inr (FETCH_AGAIN, d\<lparr>p_dropq := p_dropq d @ [aux]\<rparr>, m\<lparr>auxdata := None\<rparr>)
       else
         (let d = d\<lparr>p_cacheq := tree_insert aux (p_cacheq d), p_committed := p_committed d + 1\<rparr>; m = m\<lparr>auxdata := None\<rparr> in
          if p_only d \<noteq> FETCH_ONLY_OLD then
            (case pop3_save e d of (r, d) \<Rightarrow> Inr (if r \<noteq> 0 then FETCH_ERROR else FETCH_AGAIN, d, m))
          else Inr (FETCH_AGAIN, d, m)))"

definition pop3_abort :: "'c pop3_env \<Rightarrow> 'c pop3_data \<Rightarrow> 'c pop3_data" where
  "pop3_abort e d = d\<lparr>p_serverq := [], p_cacheq := [], p_wantq := [], p_dropq := [], p_conn := cn_disconnect (pe_ops e) (p_conn d)\<rparr>"

definition pop3_total :: "'c pop3_data \<Rightarrow> nat" where "pop3_total d = p_total d"

section \<open>States\<close>

type_synonym 'c pop3_step = "'c pop3_data \<Rightarrow> (pop3_state, pop3_mail) fetch_ctx \<Rightarrow>
  (fetch_result \<times> 'c pop3_data \<times> (pop3_state, pop3_mail) fetch_ctx) res"

definition pop3_go :: "pop3_state \<Rightarrow> fetch_result \<Rightarrow> 'c pop3_data \<Rightarrow> (pop3_state, pop3_mail) fetch_ctx \<Rightarrow>
    (fetch_result \<times> 'c pop3_data \<times> (pop3_state, pop3_mail) fetch_ctx) res" where
  "pop3_go st r d f = Inr (r, d, f\<lparr>f_state := st\<rparr>)"

text \<open>\<open>if (pop3_putln (...) != 0) return (FETCH_ERROR); fctx->state = st; return (FETCH_BLOCK)\<close>.\<close>

definition pop3_put :: "'c pop3_env \<Rightarrow> char list \<Rightarrow> pop3_state \<Rightarrow> 'c pop3_data \<Rightarrow> (pop3_state, pop3_mail) fetch_ctx \<Rightarrow>
    (fetch_result \<times> 'c pop3_data \<times> (pop3_state, pop3_mail) fetch_ctx) res" where
  "pop3_put e s st d f = rbind (cn_putln (pe_ops e) (p_conn d) s) (\<lambda>(ok, c).
     let d = d\<lparr>p_conn := c\<rparr> in if ok then pop3_go st FETCH_BLOCK d f else Inr (FETCH_ERROR, d, f))"

text \<open>Every state but three starts by getting a line, which has to be a positive answer.\<close>

definition pop3_line :: "'c pop3_env \<Rightarrow> (char list \<Rightarrow> 'c pop3_data \<Rightarrow> (fetch_result \<times> 'c pop3_data \<times> (pop3_state, pop3_mail) fetch_ctx) res) \<Rightarrow>
    'c pop3_data \<Rightarrow> (pop3_state, pop3_mail) fetch_ctx \<Rightarrow> (fetch_result \<times> 'c pop3_data \<times> (pop3_state, pop3_mail) fetch_ctx) res" where
  "pop3_line e k d f = rbind (cn_getln (pe_ops e) (p_conn d)) (\<lambda>(l, c).
     let d = d\<lparr>p_conn := c\<rparr> in
     case l of None \<Rightarrow> Inr (FETCH_ERROR, d, f) | Some None \<Rightarrow> Inr (FETCH_BLOCK, d, f) | Some (Some line) \<Rightarrow> k line d)"

definition pop3_answer :: "'c pop3_env \<Rightarrow> (char list \<Rightarrow> 'c pop3_data \<Rightarrow> (fetch_result \<times> 'c pop3_data \<times> (pop3_state, pop3_mail) fetch_ctx) res) \<Rightarrow>
    'c pop3_data \<Rightarrow> (pop3_state, pop3_mail) fetch_ctx \<Rightarrow> (fetch_result \<times> 'c pop3_data \<times> (pop3_state, pop3_mail) fetch_ctx) res" where
  "pop3_answer e k d f = pop3_line e (\<lambda>line d. if pop3_okay line then k line d else Inr (FETCH_ERROR, d, f)) d f"

definition pop3_state_init :: "'c pop3_step" where
  "pop3_state_init d f = pop3_go Pop3_connect FETCH_AGAIN
     (d\<lparr>p_serverq := [], p_cacheq := [], p_wantq := [], p_dropq := [], p_total := 0, p_committed := 0\<rparr>) f"

definition pop3_state_connect :: "'c pop3_env \<Rightarrow> 'c pop3_step" where
  "pop3_state_connect e d f = rbind (cn_connect (pe_ops e) (p_conn d)) (\<lambda>(ok, c).
     let d = d\<lparr>p_conn := c\<rparr> in if ok then pop3_go Pop3_connected FETCH_BLOCK d f else Inr (FETCH_ERROR, d, f))"

text \<open>The part of the greeting from \<open><\<close> to the next \<open>>\<close>.\<close>

definition apop_stamp :: "char list \<Rightarrow> char list option" where
  "apop_stamp line = (case memchr line (CHR ''<'') of
     None \<Rightarrow> None
   | Some i \<Rightarrow> map_option (\<lambda>j. take (j + 2) (drop i line)) (memchr (drop (i + 1) line) (CHR ''>'')))"

definition pop3_state_connected :: "'c pop3_env \<Rightarrow> 'c pop3_step" where
  "pop3_state_connected e d f = pop3_answer e (\<lambda>line d.
     case (if p_apop d then apop_stamp line else None) of
       Some stamp \<Rightarrow> pop3_put e (''APOP '' @ p_user d @ '' '' @ pe_md5 e (stamp @ p_pass d)) Pop3_stat d f
     | None \<Rightarrow> pop3_put e (''USER '' @ p_user d) Pop3_user d f) d f"

definition pop3_state_user :: "'c pop3_env \<Rightarrow> 'c pop3_step" where
  "pop3_state_user e d f = pop3_answer e (\<lambda>_ d. pop3_put e (''PASS '' @ p_pass d) Pop3_stat d f) d f"

definition pop3_state_stat :: "'c pop3_env \<Rightarrow> 'c pop3_step" where
  "pop3_state_stat e d f = pop3_answer e (\<lambda>_ d. pop3_put e ''STAT'' Pop3_first d f) d f"

text \<open>The two numbers of \<open>+OK n m\<close>.\<close>

definition scan_ok2 :: "nat \<Rightarrow> nat \<Rightarrow> char list \<Rightarrow> (nat \<times> nat) option" where
  "scan_ok2 w1 w2 line = Option.bind (scan_literal ''+OK'' line) (\<lambda>s. Option.bind (scan_unsigned w1 s) (\<lambda>(a, s).
     map_option (\<lambda>(b, s). (a, b)) (scan_unsigned w2 s)))"

definition pop3_state_first :: "'c pop3_env \<Rightarrow> 'c pop3_step" where
  "pop3_state_first e d f = pop3_answer e (\<lambda>line d. case scan_ok2 32 32 line of
     None \<Rightarrow> Inr (FETCH_ERROR, d, f)
   | Some (num, _) \<Rightarrow>
      (let d = d\<lparr>p_num := num, p_cur := 0\<rparr> in
       if num = 0 then (if p_total d \<noteq> 0 then pop3_go Pop3_next FETCH_AGAIN d f else pop3_put e ''QUIT'' Pop3_quit d f)
       else if \<not> p_uidl d then
         (if num = UINT_MAX then Inl (Diverges ''pop3_state_first'')
          else pop3_go Pop3_next FETCH_AGAIN
            (d\<lparr>p_wantq := p_wantq d @ map (\<lambda>i. \<lparr>pm_uid = [], pm_idx = i\<rparr>) [1..<num + 1], p_total := p_total d + num\<rparr>) f)
       else pop3_put e ''UIDL'' Pop3_cache1 d f)) d f"

definition pop3_state_cache1 :: "'c pop3_env \<Rightarrow> 'c pop3_step" where
  "pop3_state_cache1 e d f = pop3_answer e (\<lambda>_ d. pop3_go Pop3_cache2 FETCH_AGAIN (d\<lparr>p_serverq := []\<rparr>) f) d f"

text \<open>
  One line of the UIDL answer: the mail, or \<open>None\<close> for an error. Behind the number the source looks for a space
  and goes on behind it whether or not there is one.
\<close>

definition uidl_line :: "nat \<Rightarrow> char list \<Rightarrow> pop3_mail option res" where
  "uidl_line cur line = (case scan_unsigned 32 line of
     None \<Rightarrow> Inr None
   | Some (n, _) \<Rightarrow>
       if n \<noteq> cur + 1 then Inr None
       else case memchr line SP of
         None \<Rightarrow> Inl (MemErr ''strchr'')
       | Some i \<Rightarrow>
          (let uid = drop (i + 1) line in
           if uid = [] \<or> (\<exists>c \<in> set uid. code c < 0x21 \<or> 0x7e < code c) \<or> 70 < length uid then Inr None
           else Inr (Some \<lparr>pm_uid = uid, pm_idx = n\<rparr>)))"

text \<open>The loop of the state takes a line for each mail not yet seen; the first argument is their number.\<close>

fun cache2_loop :: "nat \<Rightarrow> 'c pop3_env \<Rightarrow> 'c pop3_step" where
  "cache2_loop 0 e d f = pop3_go Pop3_cache3 FETCH_AGAIN d f"
| "cache2_loop (Suc n) e d f = pop3_line e (\<lambda>line d. rbind (uidl_line (p_cur d) line) (\<lambda>r. case r of
     None \<Rightarrow> Inr (FETCH_ERROR, d, f)
   | Some aux \<Rightarrow>
       if tree_find (p_serverq d) aux \<noteq> None then Inr (FETCH_ERROR, d, f)
       else cache2_loop n e (d\<lparr>p_serverq := tree_insert aux (p_serverq d), p_cur := p_cur d + 1\<rparr>) f)) d f"

definition pop3_state_cache2 :: "'c pop3_env \<Rightarrow> 'c pop3_step" where
  "pop3_state_cache2 e d f = cache2_loop (p_num d - p_cur d) e d f"

section \<open>Resolving the caches\<close>

text \<open>In front of the first one with a higher index.\<close>

fun insert_before :: "pop3_mail \<Rightarrow> pop3_mail list \<Rightarrow> pop3_mail list" where
  "insert_before aux [] = [aux]"
| "insert_before aux (q # qs) = (if pm_idx aux < pm_idx q then aux # q # qs else q # insert_before aux qs)"

definition wanted :: "fetch_only \<Rightarrow> pop3_mail list \<Rightarrow> pop3_mail \<Rightarrow> bool" where
  "wanted only cacheq aux = (case only of
     FETCH_ONLY_ALL \<Rightarrow> True
   | FETCH_ONLY_NEW \<Rightarrow> tree_find cacheq aux = None
   | FETCH_ONLY_OLD \<Rightarrow> tree_find cacheq aux \<noteq> None)"

text \<open>The first time: the cache is loaded and loses what is no longer on the server.\<close>

definition build_wantq :: "'c pop3_data \<Rightarrow> 'c pop3_data" where
  "build_wantq d =
     (let d = d\<lparr>p_cacheq := filter (\<lambda>aux. tree_find (p_serverq d) aux \<noteq> None) (p_cacheq d)\<rparr>;
          ws = filter (wanted (p_only d) (p_cacheq d)) (p_serverq d)
      in d\<lparr>p_wantq := foldl (\<lambda>q aux. insert_before aux q) (p_wantq d) ws, p_total := p_total d + length ws\<rparr>)"

text \<open>After reconnecting: new indexes, and mails that are gone are not wanted any more.\<close>

definition renumber_wantq :: "'c pop3_data \<Rightarrow> 'c pop3_data" where
  "renumber_wantq d =
     (let ws = filter (\<lambda>aux. tree_find (p_serverq d) aux \<noteq> None) (p_wantq d)
      in d\<lparr>p_wantq := map (\<lambda>aux. aux\<lparr>pm_idx := pm_idx (the (tree_find (p_serverq d) aux))\<rparr>) ws,
           p_total := p_total d - (length (p_wantq d) - length ws)\<rparr>)"

text \<open>\<open>line[1]\<close> of an empty line is behind its terminator.\<close>

definition pop3_state_cache3 :: "'c pop3_env \<Rightarrow> 'c pop3_step" where
  "pop3_state_cache3 e d f = pop3_line e (\<lambda>line d.
     if line = [] then Inl (MemErr ''line[1]'')
     else if hd line \<noteq> CHR ''.'' \<and> tl line \<noteq> [] then Inr (FETCH_ERROR, d, f)
     else if p_total d = 0 then
       (case pop3_load e d of (r, d) \<Rightarrow>
          if r \<noteq> 0 then Inr (FETCH_ERROR, d, f)
          else let d = build_wantq d in
            if p_total d = 0 \<or> FETCH_POLL f then pop3_put e ''QUIT'' Pop3_quit d f
            else pop3_go Pop3_next FETCH_AGAIN d f)
     else pop3_go Pop3_next FETCH_AGAIN (renumber_wantq d) f) d f"

section \<open>Mails\<close>

definition pop3_state_next :: "'c pop3_env \<Rightarrow> 'c pop3_step" where
  "pop3_state_next e d f = (case p_dropq d of
     aux # _ \<Rightarrow> pop3_put e (''DELE '' @ show_nat (pm_idx aux)) Pop3_delete d f
   | [] \<Rightarrow>
      (case p_wantq d of
         [] \<Rightarrow> if p_committed d \<noteq> p_total d then Inr (FETCH_BLOCK, d, f) else pop3_put e ''QUIT'' Pop3_quit d f
       | aux # _ \<Rightarrow>
           if FETCH_PURGE f then
             (if FETCH_EMPTY f then pop3_put e ''QUIT'' Pop3_reconnect d (f\<lparr>FETCH_PURGE := False\<rparr>)
              else Inr (FETCH_BLOCK, d, f))
           else pop3_put e (''LIST '' @ show_nat (pm_idx aux)) Pop3_list d (f\<lparr>f_mail := (f_mail f)\<lparr>auxdata := Some aux\<rparr>\<rparr>)))"

definition pop3_state_delete :: "'c pop3_env \<Rightarrow> 'c pop3_step" where
  "pop3_state_delete e d f = pop3_answer e (\<lambda>_ d. case p_dropq d of
     [] \<Rightarrow> Inl (MemErr ''pop3_state_delete'')
   | aux # q \<Rightarrow>
      (let d = d\<lparr>p_dropq := q, p_cacheq := tree_insert aux (p_cacheq d), p_committed := p_committed d + 1\<rparr> in
       if p_only d \<noteq> FETCH_ONLY_OLD then
         (case pop3_save e d of (r, d) \<Rightarrow>
            if r \<noteq> 0 then Inr (FETCH_ERROR, d, f) else pop3_go Pop3_next FETCH_AGAIN d f)
       else pop3_go Pop3_next FETCH_AGAIN d f)) d f"

definition pop3_state_reconnect :: "'c pop3_env \<Rightarrow> 'c pop3_step" where
  "pop3_state_reconnect e d f = pop3_answer e (\<lambda>_ d.
     pop3_go Pop3_connect FETCH_AGAIN (d\<lparr>p_conn := cn_disconnect (pe_ops e) (p_conn d)\<rparr>) f) d f"

definition with_aux :: "(pop3_state, pop3_mail) fetch_ctx \<Rightarrow> (pop3_mail \<Rightarrow> 'r res) \<Rightarrow> 'r res" where
  "with_aux f k = (case auxdata (f_mail f) of None \<Rightarrow> Inl (MemErr ''auxdata'') | Some aux \<Rightarrow> k aux)"

definition pop3_state_list :: "'c pop3_env \<Rightarrow> 'c pop3_step" where
  "pop3_state_list e d f = pop3_answer e (\<lambda>line d. case scan_ok2 32 64 line of
     None \<Rightarrow> Inr (FETCH_ERROR, d, f)
   | Some (n, sz) \<Rightarrow> with_aux f (\<lambda>aux.
       if n \<noteq> pm_idx aux then Inr (FETCH_ERROR, d\<lparr>p_size := sz\<rparr>, f)
       else pop3_put e (''RETR '' @ show_nat (pm_idx aux)) Pop3_retr (d\<lparr>p_size := sz\<rparr>) f)) d f"

definition pop3_state_retr :: "'c pop3_env \<Rightarrow> 'c pop3_step" where
  "pop3_state_retr e d f = pop3_answer e (\<lambda>_ d. with_aux f (\<lambda>aux.
     case mail_open (pe_shm e) (f_mail f) (p_size d) of (r, m) \<Rightarrow>
       if r \<noteq> 0 then Inr (FETCH_ERROR, d, f\<lparr>f_mail := m\<rparr>)
       else case m_tags m of
         None \<Rightarrow> Inl (MemErr ''tags'')
       | Some tags \<Rightarrow>
          rbind (pe_tags e tags (p_src d)) (\<lambda>tags.
          rbind (case p_server d of
              None \<Rightarrow> Inr tags
            | Some (h, p) \<Rightarrow> rbind (add_tag tags ''server'' h) (\<lambda>tags. add_tag tags ''port'' p)) (\<lambda>tags.
          rbind (add_tag tags ''server_uid'' (pm_uid aux)) (\<lambda>tags.
            pop3_go Pop3_line FETCH_AGAIN (d\<lparr>p_flushing := False\<rparr>)
              (f\<lparr>f_mail := m\<lparr>msize := 0, m_tags := Some tags\<rparr>\<rparr>)))))) d f"

text \<open>A line that starts with a dot has lost its first one.\<close>

definition unstuff :: "char list \<Rightarrow> char list" where
  "unstuff line = (if line \<noteq> [] \<and> hd line = CHR ''.'' then tl line else line)"

text \<open>
  The loop over the lines of a mail. It takes a line from the connection each time round and stops when there is
  none; the fuel bounds the number of lines the connection holds.
\<close>

fun line_state_loop :: "nat \<Rightarrow> 'c pop3_env \<Rightarrow> 'c pop3_step" where
  "line_state_loop 0 e d f = Inl (Diverges ''pop3_state_line'')"
| "line_state_loop (Suc n) e d f = pop3_line e (\<lambda>line d.
     if line = ''.'' then
       with_aux f (\<lambda>aux. pop3_go Pop3_next FETCH_MAIL (d\<lparr>p_wantq := remove1 aux (p_wantq d)\<rparr>) f)
     else if p_flushing d then line_state_loop n e d f
     else rbind (append_line (pe_shm e) (f_mail f) (unstuff line)) (\<lambda>(r, m).
       if r \<noteq> 0 then Inr (FETCH_ERROR, d, f\<lparr>f_mail := m\<rparr>)
       else line_state_loop n e (if pe_max_size e < msize m then d\<lparr>p_flushing := True\<rparr> else d) (f\<lparr>f_mail := m\<rparr>))) d f"

definition pop3_state_quit :: "'c pop3_env \<Rightarrow> 'c pop3_step" where
  "pop3_state_quit e d f = pop3_answer e (\<lambda>_ d. Inr (FETCH_EXIT, pop3_abort e d, f)) d f"

text \<open>\<open>fctx->state (a, fctx)\<close>; \<open>n\<close> is the fuel of the loop over the lines.\<close>

definition pop3_step :: "nat \<Rightarrow> 'c pop3_env \<Rightarrow> 'c pop3_step" where
  "pop3_step n e d f = (case f_state f of
     Pop3_init \<Rightarrow> pop3_state_init d f
   | Pop3_connect \<Rightarrow> pop3_state_connect e d f
   | Pop3_connected \<Rightarrow> pop3_state_connected e d f
   | Pop3_user \<Rightarrow> pop3_state_user e d f
   | Pop3_stat \<Rightarrow> pop3_state_stat e d f
   | Pop3_first \<Rightarrow> pop3_state_first e d f
   | Pop3_cache1 \<Rightarrow> pop3_state_cache1 e d f
   | Pop3_cache2 \<Rightarrow> pop3_state_cache2 e d f
   | Pop3_cache3 \<Rightarrow> pop3_state_cache3 e d f
   | Pop3_next \<Rightarrow> pop3_state_next e d f
   | Pop3_delete \<Rightarrow> pop3_state_delete e d f
   | Pop3_reconnect \<Rightarrow> pop3_state_reconnect e d f
   | Pop3_list \<Rightarrow> pop3_state_list e d f
   | Pop3_retr \<Rightarrow> pop3_state_retr e d f
   | Pop3_line \<Rightarrow> line_state_loop n e d f
   | Pop3_quit \<Rightarrow> pop3_state_quit e d f)"

section \<open>The handler\<close>

text \<open>\<open>struct fetch fetch_pop3\<close>: its first state notes where the mails come from; \<open>fill\<close> adds the one io.\<close>

definition fetch_pop3_state_init :: "'c pop3_step" where
  "fetch_pop3_state_init d f = pop3_state_init (d\<lparr>p_src := map_option fst (p_server d)\<rparr>) f"

definition fetch_pop3 :: "nat \<Rightarrow> 'c pop3_env \<Rightarrow> ('c pop3_data, pop3_state, pop3_mail) fetch_ops" where
  "fetch_pop3 n e = \<lparr>fo_first = Pop3_init,
     fo_step = (\<lambda>d f. if f_state f = Pop3_init then fetch_pop3_state_init d f else pop3_step n e d f),
     fo_fill = Some (\<lambda>d. 1), fo_commit = Some (pop3_commit e), fo_abort = pop3_abort e, fo_total = Some pop3_total\<rparr>"

end
