(* ===== verification/Pop3_Correct.thy ===== *)
theory Pop3_Correct imports Pop3 FetchQueue "HOL-Library.Multiset" begin

text \<open>
  What holds of the POP3 states: every state keeps the count of the mails, a mail comes through as the server has
  it, the cache file is read back as it was written, and the mails wanted are those the account asks for.
\<close>

section \<open>The count of mails\<close>

text \<open>
  \<open>n\<close> mails are handed out and not committed yet. Every mail counted in \<open>total\<close> is wanted, handed out, to be
  dropped or committed; the mail being fetched is the first one wanted; and when the connection is being
  closed for good no mail is handed out and, unless this is a poll, all are committed.
\<close>

definition pop3_inv :: "bool \<Rightarrow> nat \<Rightarrow> 'c pop3_data \<Rightarrow> (pop3_state, pop3_mail) fetch_ctx \<Rightarrow> bool" where
  "pop3_inv pl n d f \<longleftrightarrow>
     (f_state f = Pop3_init \<longrightarrow> n = 0) \<and>
     (f_state f \<noteq> Pop3_init \<longrightarrow> p_total d = length (p_wantq d) + n + length (p_dropq d) + p_committed d) \<and>
     (f_state f = Pop3_delete \<longrightarrow> p_dropq d \<noteq> []) \<and>
     (f_state f \<in> {Pop3_list, Pop3_retr, Pop3_line} \<longrightarrow> p_wantq d \<noteq> [] \<and> auxdata (f_mail f) = Some (hd (p_wantq d))) \<and>
     (f_state f = Pop3_quit \<longrightarrow> n = 0 \<and> (\<not> pl \<longrightarrow> p_total d = p_committed d)) \<and> FETCH_POLL f = pl"

definition all_committed :: "bool \<Rightarrow> 'c pop3_data \<Rightarrow> (pop3_state, pop3_mail) fetch_ctx \<Rightarrow> bool" where
  "all_committed pl d f \<longleftrightarrow> \<not> pl \<longrightarrow> p_committed d = p_total d"

abbreviation pop3_keeps :: "bool \<Rightarrow> nat \<Rightarrow> (fetch_result \<times> 'c pop3_data \<times> (pop3_state, pop3_mail) fetch_ctx) res \<Rightarrow> bool" where
  "pop3_keeps pl \<equiv> keeps (pop3_inv pl) (all_committed pl)"

lemma pop3_inv_frame [simp]:
  "pop3_inv pl n (d\<lparr>p_conn := c\<rparr>) f = pop3_inv pl n d f" "pop3_inv pl n (d\<lparr>p_flushing := b\<rparr>) f = pop3_inv pl n d f"
  "pop3_inv pl n (d\<lparr>p_size := sz\<rparr>) f = pop3_inv pl n d f" "pop3_inv pl n (d\<lparr>p_serverq := q\<rparr>) f = pop3_inv pl n d f"
  "pop3_inv pl n (d\<lparr>p_cur := k\<rparr>) f = pop3_inv pl n d f"
  by (simp_all add: pop3_inv_def)

lemma keeps_go [keeps_intros]:
  "pop3_inv pl n d (f\<lparr>f_state := st\<rparr>) \<Longrightarrow> pop3_keeps pl n (pop3_go st FETCH_AGAIN d f)"
  "pop3_inv pl n d (f\<lparr>f_state := st\<rparr>) \<Longrightarrow> pop3_keeps pl n (pop3_go st FETCH_BLOCK d f)"
  by (simp_all add: keeps_def pop3_go_def)

lemma keeps_put [keeps_intros]:
  assumes "pop3_inv pl n d (f\<lparr>f_state := st\<rparr>)"
  shows "pop3_keeps pl n (pop3_put e s st d f)"
  unfolding pop3_put_def Let_def by (intro keeps_intros) (use assms in simp)

lemma keeps_line [keeps_intros]:
  assumes "pop3_inv pl n d f" and "\<And>line c. pop3_keeps pl n (k line (d\<lparr>p_conn := c\<rparr>))"
  shows "pop3_keeps pl n (pop3_line e k d f)"
  unfolding pop3_line_def Let_def by (intro keeps_intros) (use assms in simp_all)

lemma keeps_answer [keeps_intros]:
  assumes "pop3_inv pl n d f" and "\<And>line c. pop3_keeps pl n (k line (d\<lparr>p_conn := c\<rparr>))"
  shows "pop3_keeps pl n (pop3_answer e k d f)"
  unfolding pop3_answer_def by (intro keeps_intros) (use assms in simp_all)

lemma keeps_with_aux [keeps_intros]: "(\<And>aux. auxdata (f_mail f) = Some aux \<Longrightarrow> pop3_keeps pl n (k aux)) \<Longrightarrow> pop3_keeps pl n (with_aux f k)"
  by (cases "auxdata (f_mail f)") (simp_all add: with_aux_def keeps_basic)

lemma cache2_keeps: "pop3_inv pl m d f \<Longrightarrow> f_state f = Pop3_cache2 \<Longrightarrow> pop3_keeps pl m (cache2_loop n e d f)"
proof (induction n arbitrary: d)
  case 0
  then show ?case unfolding cache2_loop.simps by (intro keeps_intros) (simp add: pop3_inv_def)
next
  case (Suc n)
  then show ?case unfolding cache2_loop.simps by (intro keeps_intros) simp_all
qed

lemma remove1_hd: "q \<noteq> [] \<Longrightarrow> Suc (length (remove1 (hd q) q)) = length q"
  by (cases q) auto

lemma append_line_aux: "append_line shm m l = Inr (r, m') \<Longrightarrow> auxdata m' = auxdata m"
proof -
  have fit: "mail_fit shm m n = Inr (r, m') \<Longrightarrow> auxdata m' = auxdata m" for m m' :: "'x mail" and n r
  proof (induction shm m n rule: mail_fit.induct)
    case (1 shm m n)
    from "1.prems" show ?case
      by (subst (asm) mail_fit.simps) (auto split: if_splits dest!: "1.IH")
  qed
  assume "append_line shm m l = Inr (r, m')"
  then show ?thesis
    by (auto simp: append_line_def mail_resize_def rbind_Inr_iff Let_def dest!: fit split: if_splits prod.splits)
qed

lemma line_loop_keeps: "pop3_inv pl m d f \<Longrightarrow> f_state f = Pop3_line \<Longrightarrow> pop3_keeps pl m (line_state_loop n e d f)"
proof (induction n arbitrary: d f)
  case 0
  then show ?case by (simp add: keeps_basic)
next
  case (Suc n)
  have mail: "pop3_keeps pl m (pop3_go Pop3_next FETCH_MAIL (d\<lparr>p_conn := c, p_wantq := remove1 aux (p_wantq d)\<rparr>) f)"
    if "auxdata (f_mail f) = Some aux" for aux c
    using Suc.prems that by (auto simp: keeps_def pop3_go_def pop3_inv_def remove1_hd)
  have grown: "pop3_inv pl m d (f\<lparr>f_mail := m'\<rparr>)" if "append_line (pe_shm e) (f_mail f) l = Inr (r, m')" for l r m'
    using Suc.prems append_line_aux [OF that] by (simp add: pop3_inv_def)
  show ?case unfolding line_state_loop.simps
  proof (intro keeps_intros Suc.IH, goal_cases)
    case (2 line c aux)
    then show ?case using mail by simp
  qed (use Suc.prems grown in simp_all)
qed

lemma length_insert_before: "length (insert_before aux q) = length q + 1"
  by (induction q) auto

lemma length_fold_insert: "length (foldl (\<lambda>q aux. insert_before aux q) q ws) = length q + length ws"
  by (induction ws arbitrary: q) (auto simp: length_insert_before)

lemma build_wantq_counts:
  "p_total (build_wantq d) + length (p_wantq d) = p_total d + length (p_wantq (build_wantq d))"
  "p_dropq (build_wantq d) = p_dropq d" "p_committed (build_wantq d) = p_committed d"
  by (simp_all add: build_wantq_def Let_def length_fold_insert)

lemma renumber_wantq_counts:
  "p_total (renumber_wantq d) = p_total d - (length (p_wantq d) - length (p_wantq (renumber_wantq d)))"
  "length (p_wantq (renumber_wantq d)) \<le> length (p_wantq d)"
  "p_dropq (renumber_wantq d) = p_dropq d" "p_committed (renumber_wantq d) = p_committed d"
  by (simp_all add: renumber_wantq_def Let_def)

lemma pop3_load_counts:
  "pop3_load e d = (k, d2) \<Longrightarrow>
    p_total d2 = p_total d \<and> p_wantq d2 = p_wantq d \<and> p_dropq d2 = p_dropq d \<and> p_committed d2 = p_committed d"
  by (auto simp: pop3_load_def split: if_splits option.splits)

lemma pop3_save_counts:
  "pop3_save e d = (k, d2) \<Longrightarrow>
    p_total d2 = p_total d \<and> p_wantq d2 = p_wantq d \<and> p_dropq d2 = p_dropq d \<and> p_committed d2 = p_committed d"
  by (auto simp: pop3_save_def split: if_splits)

text \<open>Every state keeps the count.\<close>

lemma cache3_keeps:
  assumes "pop3_inv pl m d f" and "f_state f = Pop3_cache3"
  shows "pop3_keeps pl m (pop3_state_cache3 e d f)"
proof -
  have tot: "p_total d = length (p_wantq d) + m + length (p_dropq d) + p_committed d" using assms by (simp add: pop3_inv_def)
  have poll: "FETCH_POLL f = pl" using assms by (simp add: pop3_inv_def)
  have built: "pop3_inv pl m (build_wantq d2) (f\<lparr>f_state := st\<rparr>)" if "pop3_load e (d\<lparr>p_conn := c\<rparr>) = (k, d2)" "p_total d = 0"
    "st = Pop3_quit \<and> (p_total (build_wantq d2) = 0 \<or> FETCH_POLL f) \<or> st = Pop3_next" for k d2 c st
    using pop3_load_counts [OF that(1)] build_wantq_counts [of d2] tot poll that by (auto simp: pop3_inv_def)
  have again: "pop3_inv pl m (renumber_wantq (d\<lparr>p_conn := c\<rparr>)) (f\<lparr>f_state := Pop3_next\<rparr>)" for c
    using renumber_wantq_counts [of "d\<lparr>p_conn := c\<rparr>"] tot poll by (simp add: pop3_inv_def)
  show ?thesis unfolding pop3_state_cache3_def Let_def
    by (intro keeps_intros) (use assms built again in auto)
qed

lemma simple_keeps:
  assumes "pop3_inv pl m d f"
  shows "f_state f = Pop3_init \<Longrightarrow> pop3_keeps pl m (pop3_state_init d f)"
    and "f_state f = Pop3_connect \<Longrightarrow> pop3_keeps pl m (pop3_state_connect e d f)"
    and "f_state f = Pop3_connected \<Longrightarrow> pop3_keeps pl m (pop3_state_connected e d f)"
    and "f_state f = Pop3_user \<Longrightarrow> pop3_keeps pl m (pop3_state_user e d f)"
    and "f_state f = Pop3_stat \<Longrightarrow> pop3_keeps pl m (pop3_state_stat e d f)"
    and "f_state f = Pop3_cache1 \<Longrightarrow> pop3_keeps pl m (pop3_state_cache1 e d f)"
    and "f_state f = Pop3_reconnect \<Longrightarrow> pop3_keeps pl m (pop3_state_reconnect e d f)"
    and "f_state f = Pop3_list \<Longrightarrow> pop3_keeps pl m (pop3_state_list e d f)"
    and "f_state f = Pop3_quit \<Longrightarrow> pop3_keeps pl m (pop3_state_quit e d f)"
  using assms
  unfolding pop3_state_init_def pop3_state_connect_def pop3_state_connected_def pop3_state_user_def pop3_state_stat_def
    pop3_state_cache1_def pop3_state_reconnect_def pop3_state_list_def pop3_state_quit_def Let_def
  by (intro keeps_intros; simp add: pop3_inv_def pop3_abort_def all_committed_def)+

lemma pop3_step_keeps: "pop3_inv pl m d f \<Longrightarrow> pop3_keeps pl m (pop3_step n e d f)"
proof (cases "f_state f")
  case Pop3_cache2
  then show "pop3_inv pl m d f \<Longrightarrow> ?thesis" using cache2_keeps by (simp add: pop3_step_def pop3_state_cache2_def)
next
  case Pop3_line
  then show "pop3_inv pl m d f \<Longrightarrow> ?thesis" using line_loop_keeps by (simp add: pop3_step_def)
next
  case Pop3_cache3
  then show "pop3_inv pl m d f \<Longrightarrow> ?thesis" using cache3_keeps by (simp add: pop3_step_def)
next
  case Pop3_delete
  assume inv: "pop3_inv pl m d f"
  have D: "pop3_inv pl m (d\<lparr>p_conn := c, p_dropq := q, p_cacheq := t, p_committed := Suc (p_committed d)\<rparr>) (f\<lparr>f_state := Pop3_next\<rparr>)"
    if "p_dropq d = aux # q" for aux q c t
    using inv Pop3_delete that by (auto simp: pop3_inv_def)
  have S: "pop3_inv pl m d2 (f\<lparr>f_state := Pop3_next\<rparr>)"
    if "pop3_save e (d\<lparr>p_conn := c, p_dropq := q, p_cacheq := t, p_committed := Suc (p_committed d)\<rparr>) = (k, d2)"
      "p_dropq d = aux # q" for aux q c t d2 k
    using D [OF that(2), where c = c and t = t] pop3_save_counts [OF that(1)] by (simp add: pop3_inv_def)
  have "pop3_keeps pl m (pop3_state_delete e d f)" unfolding pop3_state_delete_def Let_def
    by (rule keeps_answer [OF inv]) (use D S in \<open>auto intro!: keeps_intros split: list.splits\<close>)
  then show ?thesis using Pop3_delete by (simp add: pop3_step_def)
next
  case Pop3_next
  assume inv: "pop3_inv pl m d f"
  have "pop3_keeps pl m (pop3_state_next e d f)" unfolding pop3_state_next_def
    using inv Pop3_next by (auto intro!: keeps_intros simp: pop3_inv_def split: list.splits)
  then show ?thesis using Pop3_next by (simp add: pop3_step_def)
next
  case Pop3_retr
  assume inv: "pop3_inv pl m d f"
  have "auxdata m' = auxdata (f_mail f)" if "mail_open (pe_shm e) (f_mail f) sz = (r, m')" for sz r m'
    using that by (auto simp: mail_open_def Let_def split: if_splits)
  then have M: "pop3_inv pl m d (f\<lparr>f_mail := m'\<lparr>msize := 0, m_tags := t\<rparr>, f_state := Pop3_line\<rparr>)"
    if "mail_open (pe_shm e) (f_mail f) sz = (r, m')" for sz r m' t
    using that inv Pop3_retr by (auto simp: pop3_inv_def)
  have "pop3_keeps pl m (pop3_state_retr e d f)" unfolding pop3_state_retr_def
    by (intro keeps_intros) (use inv M in simp_all)
  then show ?thesis using Pop3_retr by (simp add: pop3_step_def)
next
  case Pop3_first
  assume inv: "pop3_inv pl m d f"
  have "pop3_keeps pl m (pop3_state_first e d f)" unfolding pop3_state_first_def Let_def
    by (intro keeps_intros) (use inv Pop3_first in \<open>auto simp: pop3_inv_def\<close>)
  then show ?thesis using Pop3_first by (simp add: pop3_step_def)
qed (use simple_keeps in \<open>auto simp: pop3_step_def\<close>)

lemma pop3_commit_result:
  assumes "pop3_commit e d m = Inr (r, d', m')"
  shows "\<exists>aux. p_total d' = p_total d \<and> p_wantq d' = p_wantq d \<and>
    (p_dropq d' = p_dropq d @ [aux] \<and> p_committed d' = p_committed d \<or>
     p_dropq d' = p_dropq d \<and> p_committed d' = p_committed d + 1)"
proof (cases "auxdata m")
  case None
  then show ?thesis using assms by (simp add: pop3_commit_def)
next
  case (Some aux)
  let ?d = "d\<lparr>p_cacheq := tree_insert aux (p_cacheq d), p_committed := p_committed d + 1\<rparr>"
  obtain k d2 where s: "pop3_save e ?d = (k, d2)" by (cases "pop3_save e ?d")
  show ?thesis using assms Some s pop3_save_counts [OF s]
    by (cases "decision m = DECISION_DROP"; cases "p_only d = FETCH_ONLY_OLD") (auto simp: pop3_commit_def Let_def)
qed

lemma pop3_commit_keeps:
  assumes "pop3_inv pl (Suc n) d f" and "pop3_commit e d m = Inr (r, d', m')"
  shows "pop3_inv pl n d' f"
  using assms(1) pop3_commit_result [OF assms(2)] by (auto simp: pop3_inv_def)

section \<open>Mails come through as the server has them\<close>

text \<open>The connection hands over these lines, one per call.\<close>

fun gives :: "'c conn_ops \<Rightarrow> 'c \<Rightarrow> char list list \<Rightarrow> 'c \<Rightarrow> bool" where
  "gives ops c [] c' = (c' = c)"
| "gives ops c (l # ls) c' = (\<exists>c1. cn_getln ops c = Inr (Some (Some l), c1) \<and> gives ops c1 ls c')"

text \<open>What a server sends for a line of a mail.\<close>

definition stuff :: "char list \<Rightarrow> char list" where
  "stuff l = (if l \<noteq> [] \<and> hd l = CHR ''.'' then CHR ''.'' # l else l)"

lemma unstuff_stuff: "unstuff (stuff l) = l" "stuff l \<noteq> ''.''"
  by (auto simp: unstuff_def stuff_def)

lemma pop3_line_got:
  "cn_getln (pe_ops e) (p_conn d) = Inr (Some (Some l), c) \<Longrightarrow> pop3_line e k d f = k l (d\<lparr>p_conn := c\<rparr>)"
  by (simp add: pop3_line_def)

lemma line_loop_lines:
  assumes "gives (pe_ops e) (p_conn d) (map stuff ls) c'" "\<not> p_flushing d" "mail_ok (f_mail f)"
    "\<forall>k. pe_shm e k" "m_off (f_mail f) + msize (f_mail f) + length (concat (map (\<lambda>l. l @ [NL]) ls)) < SIZE_MAX div 2"
    "msize (f_mail f) + length (concat (map (\<lambda>l. l @ [NL]) ls)) \<le> pe_max_size e"
  shows "\<exists>m. line_state_loop (length ls + n) e d f = line_state_loop n e (d\<lparr>p_conn := c'\<rparr>) (f\<lparr>f_mail := m\<rparr>) \<and>
    mail_ok m \<and> content m = content (f_mail f) @ concat (map (\<lambda>l. l @ [NL]) ls) \<and> auxdata m = auxdata (f_mail f)"
  using assms
proof (induction ls arbitrary: d f)
  case Nil
  then show ?case by (intro exI [of _ "f_mail f"]) simp
next
  case (Cons l ls)
  obtain c1 where c1: "cn_getln (pe_ops e) (p_conn d) = Inr (Some (Some (stuff l)), c1)" "gives (pe_ops e) c1 (map stuff ls) c'"
    using Cons.prems(1) by auto
  obtain m where a: "append_line (pe_shm e) (f_mail f) l = Inr (0, m)"
    using append_line_returns [OF Cons.prems(3) _ Cons.prems(4), of l] Cons.prems(5) by auto
  have A: "mail_ok m" "content m = content (f_mail f) @ l @ [NL]" "m_off m = m_off (f_mail f)" "msize m = msize (f_mail f) + length l + 1"
    using append_line_ok [OF Cons.prems(3) a] by auto
  have step: "line_state_loop (Suc (length ls + n)) e d f = line_state_loop (length ls + n) e (d\<lparr>p_conn := c1\<rparr>) (f\<lparr>f_mail := m\<rparr>)"
    using Cons.prems(2,6) A(4) a by (simp add: pop3_line_got [OF c1(1)] unstuff_stuff)
  from Cons.IH [of "d\<lparr>p_conn := c1\<rparr>" "f\<lparr>f_mail := m\<rparr>"] c1(2) Cons.prems A
  obtain m2 where "line_state_loop (length ls + n) e (d\<lparr>p_conn := c1\<rparr>) (f\<lparr>f_mail := m\<rparr>) =
      line_state_loop n e (d\<lparr>p_conn := c'\<rparr>) (f\<lparr>f_mail := m2\<rparr>)"
    "mail_ok m2" "content m2 = content m @ concat (map (\<lambda>l. l @ [NL]) ls)" "auxdata m2 = auxdata m" by auto
  with step A(2) append_line_aux [OF a] show ?case by auto
qed

lemma gives_append: "gives ops c (xs @ ys) c' \<Longrightarrow> \<exists>c1. gives ops c xs c1 \<and> gives ops c1 ys c'"
  by (induction xs arbitrary: c) auto

text \<open>
  C34: a mail that the server sends as its lines, each with a dot doubled at its start, and a line with a single dot
  is the result of the state: its content is those lines, and the mail is no longer wanted.
\<close>

theorem pop3_mail_comes_through:
  assumes "gives (pe_ops e) (p_conn d) (map stuff ls @ [''.'']) c'" "\<not> p_flushing d" "mail_ok (f_mail f)"
    "auxdata (f_mail f) = Some aux" "\<forall>k. pe_shm e k"
    "m_off (f_mail f) + msize (f_mail f) + length (concat (map (\<lambda>l. l @ [NL]) ls)) < SIZE_MAX div 2"
    "msize (f_mail f) + length (concat (map (\<lambda>l. l @ [NL]) ls)) \<le> pe_max_size e" "length ls < n"
  shows "\<exists>m. line_state_loop n e d f = Inr (FETCH_MAIL, d\<lparr>p_conn := c', p_wantq := remove1 aux (p_wantq d)\<rparr>,
      f\<lparr>f_mail := m, f_state := Pop3_next\<rparr>) \<and>
    content m = content (f_mail f) @ concat (map (\<lambda>l. l @ [NL]) ls)"
proof -
  obtain c1 where c1: "gives (pe_ops e) (p_conn d) (map stuff ls) c1" "cn_getln (pe_ops e) c1 = Inr (Some (Some ''.''), c')"
    using assms(1) gives_append by fastforce
  obtain k where n: "n = length ls + Suc k" using assms(8) less_iff_Suc_add by auto
  obtain m where "line_state_loop n e d f = line_state_loop (Suc k) e (d\<lparr>p_conn := c1\<rparr>) (f\<lparr>f_mail := m\<rparr>)"
    "content m = content (f_mail f) @ concat (map (\<lambda>l. l @ [NL]) ls)" "auxdata m = Some aux"
    using line_loop_lines [OF c1(1) assms(2,3,5,6,7), of "Suc k"] assms(4) unfolding n by auto
  with c1(2) show ?thesis
    by (intro exI [of _ m]) (simp add: pop3_line_def with_aux_def pop3_go_def)
qed

definition sample_env :: "(char list list \<times> char list list) pop3_env" where
  "sample_env = \<lparr>pe_ops = script_ops, pe_load = True, pe_save = True, pe_md5 = (\<lambda>s. s), pe_tags = (\<lambda>t _. Inr t),
     pe_shm = (\<lambda>_. True), pe_max_size = 1000\<rparr>"

definition sample_data :: "char list list \<Rightarrow> (char list list \<times> char list list) pop3_data" where
  "sample_data ls = \<lparr>p_path = Some ''cache'', p_only = FETCH_ONLY_NEW, p_user = ''u'', p_pass = ''p'', p_server = None,
     p_apop = False, p_uidl = True, p_cur = 0, p_num = 0, p_total = 0, p_committed = 0,
     p_serverq = [\<lparr>pm_uid = ''a'', pm_idx = 3\<rparr>, \<lparr>pm_uid = ''b'', pm_idx = 2\<rparr>, \<lparr>pm_uid = ''c'', pm_idx = 1\<rparr>],
     p_cacheq = [\<lparr>pm_uid = ''b'', pm_idx = 0\<rparr>, \<lparr>pm_uid = ''d'', pm_idx = 0\<rparr>],
     p_wantq = [], p_dropq = [], p_flushing = False, p_size = 0, p_src = None, p_conn = (ls, []), p_file = None\<rparr>"

definition sample_new_mail :: "pop3_mail mail" where
  "sample_new_mail = \<lparr>m_idx = 0, m_tim = 0, m_tags = None, attach = None, attach_built = False, mapped = True,
     m_base = replicate 32 NUL, m_off = 0, msize = 0, m_space = 32, m_body = 0, wrapped = [], wrapchar = NUL,
     m_rml = empty_rml, decision = DECISION_NONE, auxfree = True, auxdata = Some \<lparr>pm_uid = ''a'', pm_idx = 3\<rparr>\<rparr>"

definition sample_ctx :: "pop3_state \<Rightarrow> (pop3_state, pop3_mail) fetch_ctx" where
  "sample_ctx st = \<lparr>f_state = st, FETCH_PURGE = False, FETCH_EMPTY = True, FETCH_POLL = False, f_mail = sample_new_mail\<rparr>"

lemma pop3_mail_comes_through_witness:
  "\<exists>m. line_state_loop 5 sample_env (sample_data [''..hi'', ''there'', ''.'', ''+OK'']) (sample_ctx Pop3_line) =
      Inr (FETCH_MAIL, sample_data [''+OK''], (sample_ctx Pop3_line)\<lparr>f_mail := m, f_state := Pop3_next\<rparr>) \<and>
    content m = ''.hi'' @ [NL] @ ''there'' @ [NL]"
proof -
  have "gives script_ops ([''..hi'', ''there'', ''.'', ''+OK''], []) (map stuff [''.hi'', ''there''] @ [''.'']) ([''+OK''], [])"
    by (simp add: script_ops_def stuff_def)
  moreover have "mail_ok sample_new_mail" "content sample_new_mail = []"
    by (simp_all add: mail_ok_def sample_new_mail_def content_def)
  ultimately show ?thesis
    using pop3_mail_comes_through [of sample_env "sample_data [''..hi'', ''there'', ''.'', ''+OK'']" "[''.hi'', ''there'']"
      "([''+OK''], [])" "sample_ctx Pop3_line" "\<lparr>pm_uid = ''a'', pm_idx = 3\<rparr>" 5]
    by (simp add: sample_env_def sample_data_def sample_ctx_def sample_new_mail_def SIZE_MAX_def)
qed

section \<open>The cache file\<close>

lemma scan_unsigned_space: "\<forall>c \<in> set ws. isspace c \<Longrightarrow> scan_unsigned w (ws @ s) = scan_unsigned w s"
  by (simp add: scan_unsigned_def dropWhile_append2 dropWhile_append1)

definition uid_ok :: "char list \<Rightarrow> bool" where
  "uid_ok uid \<longleftrightarrow> uid \<noteq> [] \<and> length uid \<le> 70 \<and> (\<forall>c \<in> set uid. 0x21 \<le> code c \<and> code c \<le> 0x7e)"

definition no_idx :: "pop3_mail \<Rightarrow> pop3_mail" where
  "no_idx aux = aux\<lparr>pm_idx := 0\<rparr>"

lemma uid_ok_chars:
  assumes "uid_ok uid"
  shows "cstr uid = uid" "\<not> isspace (hd uid)" "uid \<noteq> []" "length uid < 2 ^ 64"
proof -
  have *: "c \<noteq> NUL \<and> \<not> isspace c" if "c \<in> set uid" for c
    using assms that by (force simp: uid_ok_def isspace_def code_def)
  then show "cstr uid = uid" by (auto simp: cstr_def takeWhile_eq_all_conv)
  show "uid \<noteq> []" using assms by (simp add: uid_ok_def)
  with * show "\<not> isspace (hd uid)" by simp
  show "length uid < 2 ^ 64" using assms by (simp add: uid_ok_def)
qed

lemma load_saved:
  "\<forall>aux \<in> set t. uid_ok (pm_uid aux) \<Longrightarrow> \<forall>c \<in> set ws. isspace c \<Longrightarrow>
    load_entries (ws @ save_entries t) acc = Some (foldl (\<lambda>q aux. tree_insert (no_idx aux) q) acc t)"
proof (induction t arbitrary: ws acc)
  case Nil
  then have "dropWhile isspace ws = []" by simp
  moreover have "scan_unsigned 64 ws = None" using scan_unsigned_space [OF Nil.prems(2), of 64 "[]"] by (simp add: scan_unsigned_def)
  ultimately show ?case by (subst load_entries.simps) (simp add: save_entries_def)
next
  case (Cons aux t)
  let ?u = "pm_uid aux"
  have u: "cstr ?u = ?u" "\<not> isspace (hd ?u)" "?u \<noteq> []" "length ?u < 2 ^ 64" using Cons.prems(1) uid_ok_chars [of ?u] by simp_all
  have scan: "scan_unsigned 64 (ws @ save_entries (aux # t)) = Some (length ?u, SP # ?u @ [NL] @ save_entries t)"
    using scan_unsigned_show [OF u(4), of "SP # ?u @ [NL] @ save_entries t"] Cons.prems(2)
    by (simp add: scan_unsigned_space save_entries_def isdigit_def code_def)
  have "dropWhile isspace (SP # ?u @ [NL] @ save_entries t) = ?u @ [NL] @ save_entries t"
    using u(2,3) by (cases ?u) (auto simp: isspace_def)
  moreover have "load_entries ([NL] @ save_entries t) (tree_insert (no_idx aux) acc) =
      Some (foldl (\<lambda>q aux. tree_insert (no_idx aux) q) (tree_insert (no_idx aux) acc) t)"
    using Cons.prems by (intro Cons.IH) (simp_all add: isspace_def code_def)
  moreover have "no_idx aux = \<lparr>pm_uid = ?u, pm_idx = 0\<rparr>" by (simp add: no_idx_def)
  ultimately show ?case using scan u
    by (subst load_entries.simps) simp
qed

lemma tree_insert_last:
  "\<forall>x \<in> set t. pm_uid x < pm_uid aux \<Longrightarrow> tree_insert aux t = t @ [aux]"
proof -
  assume *: "\<forall>x \<in> set t. pm_uid x < pm_uid aux"
  then have "tree_find t aux = None" by (auto simp: tree_find_def find_None_iff)
  moreover have "insort_key pm_uid aux t = t @ [aux]" using * by (induction t) auto
  ultimately show ?thesis by (simp add: tree_insert_def)
qed

lemma fold_insert_sorted:
  "sorted_wrt (<) (map pm_uid (acc @ t)) \<Longrightarrow> foldl (\<lambda>q aux. tree_insert (no_idx aux) q) acc t = acc @ map no_idx t"
proof (induction t arbitrary: acc)
  case (Cons aux t)
  have "tree_insert (no_idx aux) acc = acc @ [no_idx aux]"
    using Cons.prems by (intro tree_insert_last) (auto simp: sorted_wrt_append no_idx_def)
  then show ?case using Cons by (simp add: no_idx_def)
qed simp

text \<open>
  the cache file that \<open>pop3_save\<close> writes is read back by the next \<open>pop3_load\<close>: the UIDs in the cache, in the
  order of the tree, when they are such as the server's lines may give.
\<close>

theorem pop3_cache_roundtrip:
  assumes "p_path d \<noteq> None" "pe_save e" "pe_load e'" "pop3_save e d = (r, d')" "sorted_wrt (<) (map pm_uid (p_cacheq d))"
    "\<forall>aux \<in> set (p_cacheq d). uid_ok (pm_uid aux)" "p_path d2 \<noteq> None" "p_file d2 = p_file d'" "p_cacheq d2 = []"
  shows "r = 0 \<and> pop3_load e' d2 = (0, d2\<lparr>p_cacheq := map no_idx (p_cacheq d)\<rparr>)"
  using assms load_saved [of "p_cacheq d" "[]" "[]"] fold_insert_sorted [of "[]" "p_cacheq d"]
  by (auto simp: pop3_save_def pop3_load_def)

lemma pop3_cache_roundtrip_witness:
  "pop3_load sample_env ((snd (pop3_save sample_env (sample_data [])))\<lparr>p_cacheq := []\<rparr>) =
    (0, (sample_data [])\<lparr>p_file := Some (''1 b'' @ [NL] @ ''1 d'' @ [NL])\<rparr>)"
proof -
  have "show_nat 1 = ''1''" by code_simp
  then have s: "pop3_save sample_env (sample_data []) = (0, (sample_data [])\<lparr>p_file := Some (''1 b'' @ [NL] @ ''1 d'' @ [NL])\<rparr>)"
    by (simp add: pop3_save_def sample_data_def sample_env_def save_entries_def)
  show ?thesis
    using pop3_cache_roundtrip [OF _ _ _ s, of sample_env "(sample_data [])\<lparr>p_file := Some (''1 b'' @ [NL] @ ''1 d'' @ [NL]), p_cacheq := []\<rparr>"]
    by (simp add: s) (simp add: sample_data_def sample_env_def uid_ok_def code_def no_idx_def)
qed

section \<open>What is fetched\<close>

lemma set_insert_before: "mset (insert_before aux q) = add_mset aux (mset q)"
  by (induction q) auto

lemma sorted_insert_before: "sorted (map pm_idx q) \<Longrightarrow> sorted (map pm_idx (insert_before aux q))"
proof (induction q)
  case (Cons a q)
  have "set (insert_before aux q) = insert aux (set q)" by (metis set_insert_before set_mset_add_mset_insert set_mset_mset)
  with Cons show ?case by auto
qed simp

lemma fold_insert_before:
  "mset (foldl (\<lambda>q aux. insert_before aux q) q ws) = mset q + mset ws"
  "sorted (map pm_idx q) \<Longrightarrow> sorted (map pm_idx (foldl (\<lambda>q aux. insert_before aux q) q ws))"
  by (induction ws arbitrary: q) (auto simp: set_insert_before sorted_insert_before)

lemma tree_find_iff: "tree_find t aux = None \<longleftrightarrow> pm_uid aux \<notin> pm_uid ` set t"
  by (auto simp: tree_find_def find_None_iff image_iff)

lemma wanted_weeded:
  assumes "aux \<in> set sq"
  shows "wanted only (filter (\<lambda>a. tree_find sq a \<noteq> None) cq) aux = wanted only cq aux"
proof -
  have "tree_find (filter (\<lambda>a. tree_find sq a \<noteq> None) cq) aux = None \<longleftrightarrow> tree_find cq aux = None"
    using assms unfolding tree_find_iff by (auto simp: image_iff) (metis)
  then show ?thesis by (cases only) (simp_all add: wanted_def)
qed

text \<open>
  C22: the mails to fetch are those on the server that the account asks for - all, those not in the cache or those
  in it - each once and in the order the server numbers them, and the total counts them; the cache keeps
  the entries that are still on the server.
\<close>

theorem build_wantq_correct:
  assumes "p_wantq d = []" "p_total d = 0"
  shows "let d' = build_wantq d in
    mset (p_wantq d') = mset (filter (wanted (p_only d) (p_cacheq d)) (p_serverq d)) \<and> sorted (map pm_idx (p_wantq d')) \<and>
    p_total d' = length (p_wantq d') \<and>
    set (p_cacheq d') = {aux \<in> set (p_cacheq d). pm_uid aux \<in> pm_uid ` set (p_serverq d)}"
proof -
  let ?cq = "filter (\<lambda>a. tree_find (p_serverq d) a \<noteq> None) (p_cacheq d)"
  have "filter (wanted (p_only d) ?cq) (p_serverq d) = filter (wanted (p_only d) (p_cacheq d)) (p_serverq d)"
    by (rule filter_cong) (simp_all only: wanted_weeded)
  with assms show ?thesis
    by (simp add: build_wantq_def Let_def fold_insert_before length_fold_insert del: not_None_eq)
      (auto simp: tree_find_iff)
qed

lemma build_wantq_correct_witness:
  "map pm_idx (p_wantq (build_wantq (sample_data []))) = [1, 3] \<and> p_total (build_wantq (sample_data [])) = 2"
proof -
  let ?q = "p_wantq (build_wantq (sample_data []))"
  have "mset ?q = {#\<lparr>pm_uid = ''a'', pm_idx = 3\<rparr>, \<lparr>pm_uid = ''c'', pm_idx = 1\<rparr>#}" "sorted (map pm_idx ?q)"
    "p_total (build_wantq (sample_data [])) = length ?q"
    using build_wantq_correct [of "sample_data []"]
    by (simp_all add: Let_def sample_data_def wanted_def tree_find_def)
  moreover from this(1) have "mset (map pm_idx ?q) = mset [3, 1]" by simp
  ultimately show ?thesis using properties_for_sort [of "map pm_idx ?q" "[3, 1]"] arg_cong [of _ _ length] by fastforce
qed

section \<open>Every mail is fetched\<close>

lemma fetch_pop3_step_keeps: "pop3_inv pl m d f \<Longrightarrow> pop3_keeps pl m (fo_step (fetch_pop3 n e) d f)"
proof (cases "f_state f = Pop3_init")
  case True
  assume "pop3_inv pl m d f"
  then have "pop3_inv pl m (d\<lparr>p_src := map_option fst (p_server d)\<rparr>) f" using True by (simp add: pop3_inv_def)
  from simple_keeps(1) [OF this True] show ?thesis using True by (simp add: fetch_pop3_def fetch_pop3_state_init_def)
qed (simp add: fetch_pop3_def pop3_step_keeps)

interpretation pop3_source: fetch_source "pop3_inv pl" "all_committed pl" "fo_step (fetch_pop3 n e)" "pop3_commit e"
  for pl n e
proof (unfold_locales, goal_cases)
  case (1 k d f)
  then show ?case by (rule fetch_pop3_step_keeps)
next
  case (2 k d f m r d' m')
  then show ?case by (rule pop3_commit_keeps)
qed (simp_all add: pop3_inv_def)

text \<open>
  C3: when the fetch of a POP3 account ends without an error and is not a poll, every mail that was counted has
  been decided on and committed, and no mail is queued.
\<close>

theorem pop3_fetches_all:
  assumes "fe_ops e = fetch_pop3 n pe" "fetch_account e is a d False = Inr (Some 0, s)"
  shows "p_committed (fa_data s) = p_total (fa_data s) \<and> fa_queued s = 0"
proof -
  obtain r s1 where l: "fetch_loop e is (start_state e a d False) = Inr (r, s1)"
    using assms(2) by (auto simp: fetch_account_def rbind_Inr_iff)
  then have r: "r = LoopFinished" "s = s1\<lparr>fa_matchq := [], fa_deliverq := []\<rparr>"
    using assms(2) by (cases r; simp add: fetch_account_def)+
  have u: "pop3_source.uses n pe e" using assms(1) unfolding pop3_source.uses_def by (simp add: fetch_pop3_def)
  have "pop3_source.counted False 0 (start_state e a d False)"
    using assms(1) unfolding pop3_source.counted_def by (simp add: start_state_def pop3_inv_def fetch_pop3_def)
  from pop3_source.loop_counts [OF u this l] r show ?thesis by (simp add: all_committed_def)
qed

definition sample_fetch :: "((char list list \<times> char list list) pop3_data, pop3_state, pop3_mail) fetch_env" where
  "sample_fetch = \<lparr>fe_ops = fetch_pop3 5 sample_env, fe_conf = sample_conf, fe_rules = [], fe_actions = [],
     fe_match = match_dispatch sample_conf sample_os, fe_deliver = (\<lambda>_ _ m. Inr (True, m)), fe_reopen = (\<lambda>_. None),
     fe_shm = (\<lambda>_. True), fe_build = ''fdm''\<rparr>"

definition sample_input :: "pop3_mail fetch_input" where
  "sample_input = \<lparr>fi_os = sample_os, fi_tim = 0, fi_msg = None, fi_poll = (\<lambda>_. PollReady)\<rparr>"

lemma queue_bounded_witness:
  "\<exists>s. fetch_loop sample_fetch [sample_input, sample_input] (start_state sample_fetch sample_account (sample_data []) False) = Inr (LoopAgain, s) \<and>
    fa_queued s \<le> 2"
proof -
  obtain s where s: "fetch_loop sample_fetch [sample_input, sample_input] (start_state sample_fetch sample_account (sample_data []) False) = Inr (LoopAgain, s)"
    by (simp add: fetch_round_def fetch_match_def fetch_deliver_def fetch_purge_def update_holding_def
        as_uint_def fetch_call_def end_of_round_def fetch_poll_def start_state_def sample_fetch_def sample_env_def sample_data_def sample_conf_def
        sample_input_def fetch_pop3_def fetch_pop3_state_init_def pop3_state_init_def pop3_go_def pop3_step_def
        pop3_state_connect_def script_ops_def)
  show ?thesis using queue_bounded [OF s] s by (auto simp: sample_fetch_def sample_conf_def as_uint_def)
qed

lemma pop3_fetches_all_witness:
  "\<exists>s. fetch_account sample_fetch ([sample_input, sample_input, sample_input, sample_input, sample_input, sample_input, sample_input]) sample_account
     (sample_data [''+OK ready'', ''+OK'', ''+OK'', ''+OK 0 0'', ''+OK'']) False = Inr (Some 0, s) \<and>
   p_committed (fa_data s) = p_total (fa_data s) \<and> p_conn (fa_data s) = ([], [''USER u'', ''PASS p'', ''STAT'', ''QUIT''])"
proof -
  have scan: "scan_ok2 32 32 ''+OK 0 0'' = Some (0, 0)"
    by (simp add: scan_ok2_def scan_literal_def starts_with_def scan_unsigned_def isspace_def isdigit_def code_def digits_value_def digit_val_def)
  obtain s where s: "fetch_account sample_fetch ([sample_input, sample_input, sample_input, sample_input, sample_input, sample_input, sample_input]) sample_account
     (sample_data [''+OK ready'', ''+OK'', ''+OK'', ''+OK 0 0'', ''+OK'']) False = Inr (Some 0, s)"
    "p_conn (fa_data s) = ([], [''USER u'', ''PASS p'', ''STAT'', ''QUIT''])"
    by (simp add: fetch_account_def fetch_round_def fetch_match_def fetch_deliver_def fetch_purge_def update_holding_def
        as_uint_def fetch_call_def end_of_round_def fetch_poll_def start_state_def sample_fetch_def sample_env_def sample_data_def sample_conf_def
        sample_input_def fetch_pop3_def fetch_pop3_state_init_def pop3_state_init_def pop3_go_def pop3_step_def
        pop3_state_connect_def script_ops_def pop3_state_connected_def pop3_state_user_def pop3_state_stat_def pop3_answer_def
        pop3_line_def pop3_put_def pop3_okay_def starts_with_def pop3_state_first_def scan pop3_state_quit_def pop3_abort_def)
  show ?thesis using pop3_fetches_all [OF _ s(1), of 5 sample_env] s by (auto simp: sample_fetch_def)
qed

end
