(* ===== verification/Imap.thy ===== *)
theory Imap imports FetchQueue begin

text \<open>
  Fetching from an IMAP server (\<^verbatim>\<open>imap-common.c\<close>, with the transport of \<^verbatim>\<open>fetch-imap.c\<close>): the
  tags of lines, the states from the greeting to the logout, and the folders one after the other.
\<close>

section \<open>Data\<close>

datatype imap_state =
    Imap_init | Imap_connect | Imap_connected | Imap_capability1 | Imap_capability2 | Imap_cram_md5_auth | Imap_login
  | Imap_user | Imap_pass | Imap_select1 | Imap_select2 | Imap_select3 | Imap_select4 | Imap_search1 | Imap_search2
  | Imap_search3 | Imap_next | Imap_body | Imap_line | Imap_mail | Imap_commit | Imap_expunge | Imap_close | Imap_quit

text \<open>\<open>struct fetch_imap_mail\<close> is the UID alone. The flags of \<open>capa\<close> are a field each.\<close>

record 'c imap_data =
  i_only :: fetch_only
  i_user :: "char list option"
  i_pass :: "char list option"
  i_server :: "(char list \<times> char list) option"
  i_nocrammd5 :: bool
  i_nologin :: bool
  i_folder :: nat
  i_folders :: "char list list"
  i_folders_total :: nat
  i_capa_cram_md5 :: bool
  i_capa_xyzzy :: bool
  i_tag :: nat
  i_wanted :: "nat list"
  i_dropped :: "nat list"
  i_kept :: "nat list"
  i_total :: nat
  i_committed :: nat
  i_flushing :: bool
  i_size :: nat
  i_lines :: nat
  i_src :: "char list option"
  i_conn :: 'c

text \<open>The surroundings: the connection, base64 and HMAC-MD5 (as hexadecimal digits), and the default tags.
  \<open>ie_fuel\<close> bounds the lines read by one call.\<close>

record 'c imap_env =
  ie_ops :: "'c conn_ops"
  ie_fuel :: nat
  ie_b64_decode :: "char list \<Rightarrow> char list option"
  ie_b64_encode :: "char list \<Rightarrow> char list option"
  ie_hmac_md5 :: "char list \<Rightarrow> char list \<Rightarrow> char list"
  ie_tags :: "strb \<Rightarrow> char list option \<Rightarrow> strb res"
  ie_shm :: "nat \<Rightarrow> bool"
  ie_max_size :: nat

type_synonym imap_ctx = "(imap_state, nat) fetch_ctx"
type_synonym 'c imap_res = "(fetch_result \<times> 'c imap_data \<times> imap_ctx) res"
type_synonym 'c imap_step = "'c imap_data \<Rightarrow> imap_ctx \<Rightarrow> 'c imap_res"

section \<open>Lines and tags\<close>

datatype imap_type = IMAP_TAGGED | IMAP_CONTINUE | IMAP_UNTAGGED | IMAP_RAW

datatype imap_tag = IMAP_TAG_NONE | IMAP_TAG_CONTINUE | IMAP_TAG_ERROR | ImapTag int

text \<open>
  The end of the tag is overwritten with a space; in a line without one that is the terminator, and
  every caller goes on reading the line.
\<close>

definition imap_tag :: "char list \<Rightarrow> imap_tag res" where
  "imap_tag line =
     (if starts_with ''* '' line then Inr IMAP_TAG_NONE
      else if starts_with ''+'' line then Inr IMAP_TAG_CONTINUE
      else case memchr line SP of
        None \<Rightarrow> Inl (MemErr ''imap_tag'')
      | Some i \<Rightarrow> Inr (case strtonum (take i line) 0 INT_MAX of Inr n \<Rightarrow> ImapTag n | Inl _ \<Rightarrow> IMAP_TAG_ERROR))"

definition imap_parse :: "nat \<Rightarrow> imap_type \<Rightarrow> char list \<Rightarrow> int res" where
  "imap_parse tag type line =
     (if type = IMAP_RAW then Inr 0
      else rbind (imap_tag line) (\<lambda>t. Inr (case type of
        IMAP_TAGGED \<Rightarrow> if t = IMAP_TAG_NONE then 1 else if t \<noteq> ImapTag (int tag) then - 1 else 0
      | IMAP_UNTAGGED \<Rightarrow> if t \<noteq> IMAP_TAG_NONE then - 1 else 0
      | IMAP_CONTINUE \<Rightarrow> if t = IMAP_TAG_NONE then 1 else if t \<noteq> IMAP_TAG_CONTINUE then - 1 else 0
      | IMAP_RAW \<Rightarrow> 0)))"

text \<open>An error (\<open>None\<close>), no line yet (\<open>Some None\<close>) or a line of the type, after those that are skipped.\<close>

fun imap_getln :: "nat \<Rightarrow> 'c conn_ops \<Rightarrow> nat \<Rightarrow> imap_type \<Rightarrow> 'c \<Rightarrow> (char list option option \<times> 'c) res" where
  "imap_getln 0 ops tag type c = Inl (Diverges ''imap_getln'')"
| "imap_getln (Suc n) ops tag type c = rbind (cn_getln ops c) (\<lambda>(l, c). case l of
     Some (Some line) \<Rightarrow> rbind (imap_parse tag type line) (\<lambda>k.
       if k = 1 then imap_getln n ops tag type c else Inr (if k = 0 then Some (Some line) else None, c))
   | _ \<Rightarrow> Inr (l, c))"

definition answer_is :: "char list \<Rightarrow> char list \<Rightarrow> bool" where
  "answer_is word line = (case memchr line SP of
     None \<Rightarrow> False
   | Some i \<Rightarrow> (let r = drop (i + 1) line in
       take 2 r = word \<and> (length r = 2 \<or> 2 < length r \<and> r ! 2 = SP)))"

definition imap_okay :: "char list \<Rightarrow> bool" where "imap_okay = answer_is ''OK''"
definition imap_no :: "char list \<Rightarrow> bool" where "imap_no = answer_is ''NO''"

definition strstr :: "char list \<Rightarrow> char list \<Rightarrow> nat option" where
  "strstr s p = List.find (\<lambda>i. take (length p) (drop i s) = p) [0..<length s + 1]"

section \<open>What the states share\<close>

definition imap_go :: "imap_state \<Rightarrow> fetch_result \<Rightarrow> 'c imap_data \<Rightarrow> imap_ctx \<Rightarrow> 'c imap_res" where
  "imap_go st r d f = Inr (r, d, f\<lparr>f_state := st\<rparr>)"

definition imap_put :: "'c imap_env \<Rightarrow> char list \<Rightarrow> imap_state \<Rightarrow> 'c imap_data \<Rightarrow> imap_ctx \<Rightarrow> 'c imap_res" where
  "imap_put e s st d f = rbind (cn_putln (ie_ops e) (i_conn d) s) (\<lambda>(ok, c).
     let d = d\<lparr>i_conn := c\<rparr> in if ok then imap_go st FETCH_BLOCK d f else Inr (FETCH_ERROR, d, f))"

text \<open>A command with the next tag, an unsigned int.\<close>

definition imap_cmd :: "'c imap_env \<Rightarrow> char list \<Rightarrow> imap_state \<Rightarrow> 'c imap_data \<Rightarrow> imap_ctx \<Rightarrow> 'c imap_res" where
  "imap_cmd e s st d f = imap_put e (show_nat ((i_tag d + 1) mod 2 ^ 32) @ '' '' @ s) st (d\<lparr>i_tag := (i_tag d + 1) mod 2 ^ 32\<rparr>) f"

definition imap_get :: "'c imap_env \<Rightarrow> imap_type \<Rightarrow> (char list \<Rightarrow> 'c imap_data \<Rightarrow> 'c imap_res) \<Rightarrow> 'c imap_data \<Rightarrow> imap_ctx \<Rightarrow> 'c imap_res" where
  "imap_get e type k d f = rbind (imap_getln (ie_fuel e) (ie_ops e) (i_tag d) type (i_conn d)) (\<lambda>(l, c).
     let d = d\<lparr>i_conn := c\<rparr> in
     case l of None \<Rightarrow> Inr (FETCH_ERROR, d, f) | Some None \<Rightarrow> Inr (FETCH_BLOCK, d, f) | Some (Some line) \<Rightarrow> k line d)"

definition imap_done :: "'c imap_env \<Rightarrow> ('c imap_data \<Rightarrow> 'c imap_res) \<Rightarrow> 'c imap_data \<Rightarrow> imap_ctx \<Rightarrow> 'c imap_res" where
  "imap_done e k d f = imap_get e IMAP_TAGGED (\<lambda>line d. if imap_okay line then k d else Inr (FETCH_ERROR, d, f)) d f"

section \<open>Operations\<close>

definition imap_commit :: "'c imap_data \<Rightarrow> nat mail \<Rightarrow> (fetch_result \<times> 'c imap_data \<times> nat mail) res" where
  "imap_commit d m = (case auxdata m of
     None \<Rightarrow> Inl (MemErr ''imap_commit'')
   | Some uid \<Rightarrow> Inr (FETCH_AGAIN,
       if decision m = DECISION_DROP then d\<lparr>i_dropped := i_dropped d @ [uid]\<rparr> else d\<lparr>i_kept := i_kept d @ [uid]\<rparr>,
       m\<lparr>auxdata := None, auxfree := False\<rparr>))"

definition imap_abort :: "'c imap_env \<Rightarrow> 'c imap_data \<Rightarrow> 'c imap_data" where
  "imap_abort e d = d\<lparr>i_dropped := [], i_kept := [], i_wanted := [], i_conn := cn_disconnect (ie_ops e) (i_conn d)\<rparr>"

definition imap_total :: "'c imap_data \<Rightarrow> nat" where "imap_total d = i_folders_total d"

section \<open>Logging in\<close>

definition imap_state_init :: "'c imap_step" where
  "imap_state_init d f = imap_go Imap_connect FETCH_AGAIN
     (d\<lparr>i_dropped := [], i_kept := [], i_wanted := [], i_tag := 0, i_folder := 0, i_folders_total := 0\<rparr>) f"

definition imap_state_connect :: "'c imap_env \<Rightarrow> 'c imap_step" where
  "imap_state_connect e d f = rbind (cn_connect (ie_ops e) (i_conn d)) (\<lambda>(ok, c).
     let d = d\<lparr>i_conn := c\<rparr> in if ok then imap_go Imap_connected FETCH_BLOCK d f else Inr (FETCH_ERROR, d, f))"

definition imap_state_connected :: "'c imap_env \<Rightarrow> 'c imap_step" where
  "imap_state_connected e d f = imap_get e IMAP_UNTAGGED (\<lambda>line d.
     if starts_with ''* PREAUTH'' line then imap_go Imap_select1 FETCH_AGAIN d f
     else if i_user d = None \<or> i_pass d = None then Inr (FETCH_ERROR, d, f)
     else imap_cmd e ''CAPABILITY'' Imap_capability1 d f) d f"

definition imap_state_capability1 :: "'c imap_env \<Rightarrow> 'c imap_step" where
  "imap_state_capability1 e d f = imap_get e IMAP_UNTAGGED (\<lambda>line d.
     let line = map toupper line in
     if strstr line ''IMAP4REV1'' = None then Inr (FETCH_ERROR, d, f)
     else imap_go Imap_capability2 FETCH_AGAIN
       (d\<lparr>i_capa_cram_md5 := strstr line ''AUTH=CRAM-MD5'' \<noteq> None, i_capa_xyzzy := strstr line ''XYZZY'' \<noteq> None\<rparr>) f) d f"

text \<open>\<open>strlen\<close> or \<open>%s\<close> of an option that may be NULL.\<close>

definition with_string :: "char list option \<Rightarrow> (char list \<Rightarrow> 'r res) \<Rightarrow> 'r res" where
  "with_string s k = (case s of None \<Rightarrow> Inl (MemErr ''NULL string'') | Some s \<Rightarrow> k s)"

definition imap_state_capability2 :: "'c imap_env \<Rightarrow> 'c imap_step" where
  "imap_state_capability2 e d f = imap_done e (\<lambda>d.
     if \<not> i_nocrammd5 d \<and> i_capa_cram_md5 d then imap_cmd e ''AUTHENTICATE CRAM-MD5'' Imap_cram_md5_auth d f
     else if \<not> i_nologin d then
       with_string (i_user d) (\<lambda>user. imap_cmd e (''LOGIN {'' @ show_nat (length user) @ ''}'') Imap_login d f)
     else Inr (FETCH_ERROR, d, f)) d f"

text \<open>A challenge that is not base64 gives NULL, which is used; the answer is freed, NULL or not.\<close>

definition imap_state_cram_md5_auth :: "'c imap_env \<Rightarrow> 'c imap_step" where
  "imap_state_cram_md5_auth e d f = imap_get e IMAP_CONTINUE (\<lambda>line d.
     let ptr = dropWhile isspace (tl line) in
     if ptr = [] then Inr (FETCH_ERROR, d, f)
     else with_string (ie_b64_decode e ptr) (\<lambda>chal.
          with_string (i_pass d) (\<lambda>pass. with_string (i_user d) (\<lambda>user.
       (case ie_b64_encode e (user @ '' '' @ ie_hmac_md5 e pass (cstr chal)) of
          None \<Rightarrow> Inl (FatalX ''null pointer'')
        | Some b64 \<Rightarrow> imap_put e b64 Imap_pass d f))))) d f"

definition imap_state_login :: "'c imap_env \<Rightarrow> 'c imap_step" where
  "imap_state_login e d f = imap_get e IMAP_CONTINUE (\<lambda>_ d. with_string (i_user d) (\<lambda>user. with_string (i_pass d) (\<lambda>pass.
     imap_put e (user @ '' {'' @ show_nat (length pass) @ ''}'') Imap_user d f))) d f"

definition imap_state_user :: "'c imap_env \<Rightarrow> 'c imap_step" where
  "imap_state_user e d f = imap_get e IMAP_CONTINUE (\<lambda>_ d. with_string (i_pass d) (\<lambda>pass. imap_put e pass Imap_pass d f)) d f"

definition imap_state_pass :: "'c imap_env \<Rightarrow> 'c imap_step" where
  "imap_state_pass e d f = imap_done e (\<lambda>d. imap_go Imap_select1 FETCH_AGAIN d f) d f"

section \<open>Selecting a folder\<close>

definition with_folder :: "'c imap_data \<Rightarrow> (char list \<Rightarrow> 'r res) \<Rightarrow> 'r res" where
  "with_folder d k = (if i_folder d < length (i_folders d) then k (i_folders d ! i_folder d) else Inl (MemErr ''folders''))"

definition imap_state_select1 :: "'c imap_env \<Rightarrow> 'c imap_step" where
  "imap_state_select1 e d f = with_folder d (\<lambda>folder.
     imap_cmd e (''SELECT {'' @ show_nat (length folder) @ ''}'') Imap_select2 d f)"

definition imap_state_select2 :: "'c imap_env \<Rightarrow> 'c imap_step" where
  "imap_state_select2 e d f = imap_get e IMAP_CONTINUE (\<lambda>_ d. with_folder d (\<lambda>folder. imap_put e folder Imap_select3 d f)) d f"

text \<open>\<open>sscanf (line, "* %u EXISTS", &n) == 1\<close>: one number was read, whatever follows it.\<close>

definition scan_star :: "char list \<Rightarrow> nat option" where
  "scan_star line = (case line of
     [] \<Rightarrow> None
   | c # r \<Rightarrow> if c = CHR ''*'' then map_option fst (scan_unsigned 32 (dropWhile isspace r)) else None)"

fun select3_loop :: "nat \<Rightarrow> 'c imap_env \<Rightarrow> 'c imap_step" where
  "select3_loop 0 e d f = Inl (Diverges ''imap_state_select3'')"
| "select3_loop (Suc n) e d f = imap_get e IMAP_UNTAGGED (\<lambda>line d. case scan_star line of
     None \<Rightarrow> select3_loop n e d f
   | Some num \<Rightarrow> imap_go Imap_select4 FETCH_AGAIN (d\<lparr>i_total := num\<rparr>) f) d f"

definition imap_state_select3 :: "'c imap_env \<Rightarrow> 'c imap_step" where
  "imap_state_select3 e d f = select3_loop (ie_fuel e) e d f"

definition imap_state_select4 :: "'c imap_env \<Rightarrow> 'c imap_step" where
  "imap_state_select4 e d f = imap_done e (\<lambda>d.
     if i_total d = 0 then imap_cmd e ''CLOSE'' Imap_close d f else imap_go Imap_search1 FETCH_AGAIN d f) d f"

definition imap_state_search1 :: "'c imap_env \<Rightarrow> 'c imap_step" where
  "imap_state_search1 e d f = imap_cmd e (case i_only d of
     FETCH_ONLY_NEW \<Rightarrow> ''UID SEARCH UNSEEN'' | FETCH_ONLY_OLD \<Rightarrow> ''UID SEARCH SEEN'' | FETCH_ONLY_ALL \<Rightarrow> ''UID SEARCH ALL'')
     Imap_search2 d f"

text \<open>The UIDs of the answer; the flag tells whether all could be read.\<close>

function search_uids :: "char list \<Rightarrow> nat list \<Rightarrow> bool \<times> nat list" where
  "search_uids s acc =
     (let s = dropWhile isspace s; tok = takeWhile (\<lambda>c. c \<noteq> SP) s; rest = drop (length tok) s in
      if tok = [] then (True, acc)
      else case scan_unsigned 32 s of
        None \<Rightarrow> (False, acc)
      | Some (uid, _) \<Rightarrow> if rest = [] then (True, acc @ [uid]) else search_uids rest (acc @ [uid]))"
  by pat_completeness auto
termination
proof (relation "measure (\<lambda>(s, acc). length s)", simp, clarsimp)
  fix s :: "char list"
  let ?t = "dropWhile isspace s" and ?k = "length (takeWhile (\<lambda>c. c \<noteq> SP) (dropWhile isspace s))"
  assume "takeWhile (\<lambda>c. c \<noteq> SP) ?t \<noteq> []" "\<not> length ?t \<le> ?k"
  then have "0 < ?k" "?k < length ?t" by simp_all
  moreover have "length ?t \<le> length s" by (rule length_dropWhile_le)
  ultimately show "length ?t - ?k < length s" by linarith
qed

declare search_uids.simps [simp del]

definition imap_state_search2 :: "'c imap_env \<Rightarrow> 'c imap_step" where
  "imap_state_search2 e d f = imap_get e IMAP_UNTAGGED (\<lambda>line d.
     if \<not> strncasecmp_eq (take 8 line) ''* SEARCH'' then Inr (FETCH_ERROR, d, f)
     else case search_uids (drop 8 line) (i_wanted d) of (ok, uids) \<Rightarrow>
       (let d = d\<lparr>i_wanted := uids\<rparr> in if ok then imap_go Imap_search3 FETCH_AGAIN d f else Inr (FETCH_ERROR, d, f))) d f"

definition imap_state_search3 :: "'c imap_env \<Rightarrow> 'c imap_step" where
  "imap_state_search3 e d f = imap_done e (\<lambda>d.
     let d = d\<lparr>i_total := length (i_wanted d), i_folders_total := i_folders_total d + length (i_wanted d)\<rparr> in
     if i_total d = 0 \<or> FETCH_POLL f then imap_cmd e ''CLOSE'' Imap_close d f
     else imap_go Imap_next FETCH_AGAIN d f) d f"

section \<open>Mails\<close>

definition imap_state_next :: "'c imap_env \<Rightarrow> 'c imap_step" where
  "imap_state_next e d f = (case i_dropped d of
     uid # q \<Rightarrow> imap_cmd e (''UID STORE '' @ show_nat uid @ '' +FLAGS.SILENT ('' @ [CHR 0x5C] @ ''Deleted)'') Imap_commit (d\<lparr>i_dropped := q\<rparr>) f
   | [] \<Rightarrow> (case i_kept d of
       uid # q \<Rightarrow> imap_cmd e (''UID STORE '' @ show_nat uid @ '' +FLAGS.SILENT ('' @ [CHR 0x5C] @ ''Seen)'') Imap_commit (d\<lparr>i_kept := q\<rparr>) f
     | [] \<Rightarrow>
         if FETCH_PURGE f then
           (if FETCH_EMPTY f then imap_cmd e ''EXPUNGE'' Imap_expunge d (f\<lparr>FETCH_PURGE := False\<rparr>) else Inr (FETCH_BLOCK, d, f))
         else case i_wanted d of
           [] \<Rightarrow> if i_committed d \<noteq> i_total d then Inr (FETCH_BLOCK, d, f) else imap_cmd e ''CLOSE'' Imap_close d f
         | uid # _ \<Rightarrow> imap_cmd e (''UID FETCH '' @ show_nat uid @ '' BODY[]'') Imap_body d f))"

definition imap_state_body :: "'c imap_env \<Rightarrow> 'c imap_step" where
  "imap_state_body e d f = imap_get e IMAP_UNTAGGED (\<lambda>line d.
     case (scan_star line, strstr line ''BODY[] {'') of
       (Some _, Some i) \<Rightarrow>
         (case scan_unsigned 64 (drop (i + 8) line) of
            None \<Rightarrow> Inr (FETCH_ERROR, d, f)
          | Some (sz, _) \<Rightarrow>
              (case i_wanted d of
                 [] \<Rightarrow> Inl (MemErr ''wanted'')
               | uid # q \<Rightarrow>
                   (let d = d\<lparr>i_size := sz, i_lines := 0, i_wanted := q\<rparr> in
                    case mail_open (ie_shm e) ((f_mail f)\<lparr>auxdata := Some uid, auxfree := True\<rparr>) sz of (r, m) \<Rightarrow>
                      if r \<noteq> 0 then Inr (FETCH_ERROR, d, f\<lparr>f_mail := m\<rparr>)
                      else case m_tags m of
                        None \<Rightarrow> Inl (MemErr ''tags'')
                      | Some tags \<Rightarrow>
                          rbind (ie_tags e tags (i_src d)) (\<lambda>tags.
                          rbind (case i_server d of
                              None \<Rightarrow> Inr tags
                            | Some (h, p) \<Rightarrow> rbind (add_tag tags ''server'' h) (\<lambda>tags. add_tag tags ''port'' p)) (\<lambda>tags.
                          rbind (add_tag tags ''server_uid'' (show_nat uid)) (\<lambda>tags.
                          with_folder d (\<lambda>folder. rbind (add_tag tags ''folder'' folder) (\<lambda>tags.
                            imap_go Imap_line FETCH_AGAIN (d\<lparr>i_flushing := ie_max_size e < sz\<rparr>)
                              (f\<lparr>f_mail := m\<lparr>msize := 0, m_tags := Some tags\<rparr>\<rparr>)))))))))
     | _ \<Rightarrow> Inr (FETCH_ERROR, d, f)) d f"

text \<open>
  The last line of the mail and what follows it: the bytes that are still missing are taken from it, a
  terminator may be one of them, and the newline that \<open>append_line\<close> adds is taken back.
\<close>

definition last_line :: "'c imap_env \<Rightarrow> char list \<Rightarrow> 'c imap_step" where
  "last_line e line d f =
     (let m = f_mail f; left' = size_sub (i_size d) (msize m + i_lines d) in
      if line = [] then Inl (MemErr ''line[-1]'')
      else if last line \<noteq> CHR '')'' \<and> length line \<le> left' then Inr (FETCH_ERROR, d, f)
      else if left' = 0 then imap_go Imap_mail FETCH_AGAIN d f
      else if length line + 1 < left' then Inl (MemErr ''append_line'')
      else rbind (append_line (ie_shm e) m (take left' (line @ [NUL]))) (\<lambda>(r, m).
        if r \<noteq> 0 then Inr (FETCH_ERROR, d, f\<lparr>f_mail := m\<rparr>)
        else imap_go Imap_mail FETCH_AGAIN (d\<lparr>i_lines := i_lines d + 1\<rparr>) (f\<lparr>f_mail := m\<lparr>msize := msize m - 1\<rparr>\<rparr>)))"

fun imap_line_loop :: "nat \<Rightarrow> 'c imap_env \<Rightarrow> 'c imap_step" where
  "imap_line_loop 0 e d f = Inl (Diverges ''imap_state_line'')"
| "imap_line_loop (Suc n) e d f = imap_get e IMAP_RAW (\<lambda>line d.
     if i_flushing d then imap_line_loop n e d f
     else if i_size d < msize (f_mail f) + i_lines d + length line + 2 then last_line e line d f
     else rbind (append_line (ie_shm e) (f_mail f) line) (\<lambda>(r, m).
       if r \<noteq> 0 then Inr (FETCH_ERROR, d, f\<lparr>f_mail := m\<rparr>)
       else imap_line_loop n e (d\<lparr>i_lines := i_lines d + 1\<rparr>) (f\<lparr>f_mail := m\<rparr>))) d f"

definition imap_state_line :: "'c imap_env \<Rightarrow> 'c imap_step" where
  "imap_state_line e d f = imap_line_loop (ie_fuel e) e d f"

definition imap_state_mail :: "'c imap_env \<Rightarrow> 'c imap_step" where
  "imap_state_mail e d f = imap_done e (\<lambda>d. imap_go Imap_next FETCH_MAIL d f) d f"

definition imap_state_commit :: "'c imap_env \<Rightarrow> 'c imap_step" where
  "imap_state_commit e d f = imap_done e (\<lambda>d. imap_go Imap_next FETCH_AGAIN (d\<lparr>i_committed := i_committed d + 1\<rparr>) f) d f"

definition imap_state_expunge :: "'c imap_env \<Rightarrow> 'c imap_step" where
  "imap_state_expunge e d f = imap_done e (\<lambda>d. imap_go Imap_next FETCH_AGAIN d f) d f"

definition imap_state_close :: "'c imap_env \<Rightarrow> 'c imap_step" where
  "imap_state_close e d f = imap_done e (\<lambda>d.
     let d = d\<lparr>i_folder := i_folder d + 1\<rparr> in
     if i_folder d \<noteq> length (i_folders d) then imap_go Imap_select1 FETCH_AGAIN d f
     else imap_cmd e ''LOGOUT'' Imap_quit d f) d f"

definition imap_state_quit :: "'c imap_env \<Rightarrow> 'c imap_step" where
  "imap_state_quit e d f = imap_done e (\<lambda>d. Inr (FETCH_EXIT, imap_abort e d, f)) d f"

definition imap_step :: "'c imap_env \<Rightarrow> 'c imap_step" where
  "imap_step e d f = (case f_state f of
     Imap_init \<Rightarrow> imap_state_init d f
   | Imap_connect \<Rightarrow> imap_state_connect e d f
   | Imap_connected \<Rightarrow> imap_state_connected e d f
   | Imap_capability1 \<Rightarrow> imap_state_capability1 e d f
   | Imap_capability2 \<Rightarrow> imap_state_capability2 e d f
   | Imap_cram_md5_auth \<Rightarrow> imap_state_cram_md5_auth e d f
   | Imap_login \<Rightarrow> imap_state_login e d f
   | Imap_user \<Rightarrow> imap_state_user e d f
   | Imap_pass \<Rightarrow> imap_state_pass e d f
   | Imap_select1 \<Rightarrow> imap_state_select1 e d f
   | Imap_select2 \<Rightarrow> imap_state_select2 e d f
   | Imap_select3 \<Rightarrow> imap_state_select3 e d f
   | Imap_select4 \<Rightarrow> imap_state_select4 e d f
   | Imap_search1 \<Rightarrow> imap_state_search1 e d f
   | Imap_search2 \<Rightarrow> imap_state_search2 e d f
   | Imap_search3 \<Rightarrow> imap_state_search3 e d f
   | Imap_next \<Rightarrow> imap_state_next e d f
   | Imap_body \<Rightarrow> imap_state_body e d f
   | Imap_line \<Rightarrow> imap_state_line e d f
   | Imap_mail \<Rightarrow> imap_state_mail e d f
   | Imap_commit \<Rightarrow> imap_state_commit e d f
   | Imap_expunge \<Rightarrow> imap_state_expunge e d f
   | Imap_close \<Rightarrow> imap_state_close e d f
   | Imap_quit \<Rightarrow> imap_state_quit e d f)"

definition fetch_imap_state_init :: "'c imap_step" where
  "fetch_imap_state_init d f = imap_state_init (d\<lparr>i_src := map_option fst (i_server d)\<rparr>) f"

definition fetch_imap :: "'c imap_env \<Rightarrow> ('c imap_data, imap_state, nat) fetch_ops" where
  "fetch_imap e = \<lparr>fo_first = Imap_init,
     fo_step = (\<lambda>d f. if f_state f = Imap_init then fetch_imap_state_init d f else imap_step e d f),
     fo_fill = Some (\<lambda>d. 1), fo_commit = Some imap_commit, fo_abort = imap_abort e, fo_total = Some imap_total\<rparr>"

end
