(* ===== verification/Imap_Correct.thy ===== *)
theory Imap_Correct imports Imap begin

text \<open>
  What holds of the IMAP states: an account with one folder commits every mail it counted, a mail comes through
  byte by byte, the answer to a search is read in full, and what happens to a mail that is too big.
\<close>

section \<open>The count of mails\<close>

text \<open>
  For one folder: \<open>n\<close> mails are handed out and not committed yet. Until the search has been answered
  there are none; then every mail counted is wanted, being fetched, handed out, to be flagged or committed.
\<close>

definition imap_setup :: "imap_state set" where
  "imap_setup = {Imap_init, Imap_connect, Imap_connected, Imap_capability1, Imap_capability2, Imap_cram_md5_auth, Imap_login,
     Imap_user, Imap_pass, Imap_select1, Imap_select2, Imap_select3, Imap_select4, Imap_search1, Imap_search2}"

definition imap_count :: "nat \<Rightarrow> 'c imap_data \<Rightarrow> bool" where
  "imap_count n d \<longleftrightarrow> i_total d = length (i_wanted d) + n + length (i_dropped d) + length (i_kept d) + i_committed d \<and>
     i_folders_total d = i_total d"

definition imap_inv :: "bool \<Rightarrow> nat \<Rightarrow> 'c imap_data \<Rightarrow> imap_ctx \<Rightarrow> bool" where
  "imap_inv pl n d f \<longleftrightarrow> length (i_folders d) = 1 \<and> FETCH_POLL f = pl \<and>
     (f_state f \<noteq> Imap_quit \<and> f_state f \<noteq> Imap_init \<longrightarrow> i_folder d = 0) \<and>
     (f_state f \<in> imap_setup \<union> {Imap_search3} \<longrightarrow> n = 0 \<and> i_committed d = 0 \<and>
        (f_state f \<noteq> Imap_init \<longrightarrow> i_dropped d = [] \<and> i_kept d = [] \<and> i_folders_total d = 0)) \<and>
     (f_state f \<in> {Imap_next, Imap_body, Imap_expunge} \<longrightarrow> imap_count n d) \<and>
     (f_state f \<in> {Imap_line, Imap_mail, Imap_commit} \<longrightarrow> imap_count (Suc n) d) \<and>
     (f_state f \<in> {Imap_close, Imap_quit} \<longrightarrow> n = 0 \<and> (\<not> pl \<longrightarrow> i_committed d = i_folders_total d))"

definition all_flagged :: "bool \<Rightarrow> 'c imap_data \<Rightarrow> imap_ctx \<Rightarrow> bool" where
  "all_flagged pl d f \<longleftrightarrow> \<not> pl \<longrightarrow> i_committed d = i_folders_total d"

abbreviation imap_keeps :: "bool \<Rightarrow> nat \<Rightarrow> 'c imap_res \<Rightarrow> bool" where
  "imap_keeps pl \<equiv> keeps (imap_inv pl) (all_flagged pl)"

lemma imap_frame [simp]:
  "imap_inv pl n (d\<lparr>i_conn := c\<rparr>) f = imap_inv pl n d f" "imap_inv pl n (d\<lparr>i_tag := k\<rparr>) f = imap_inv pl n d f"
  "imap_inv pl n (d\<lparr>i_flushing := b\<rparr>) f = imap_inv pl n d f" "imap_inv pl n (d\<lparr>i_size := k\<rparr>) f = imap_inv pl n d f"
  "imap_inv pl n (d\<lparr>i_lines := k\<rparr>) f = imap_inv pl n d f" "imap_inv pl n d (f\<lparr>f_mail := m\<rparr>) = imap_inv pl n d f"
  "imap_inv pl n d (f\<lparr>f_mail := m, f_state := st\<rparr>) = imap_inv pl n d (f\<lparr>f_state := st\<rparr>)"
  by (simp_all add: imap_inv_def imap_count_def)

lemma imap_go_keeps [keeps_intros]:
  "imap_inv pl n d (f\<lparr>f_state := st\<rparr>) \<Longrightarrow> imap_keeps pl n (imap_go st FETCH_AGAIN d f)"
  "imap_inv pl n d (f\<lparr>f_state := st\<rparr>) \<Longrightarrow> imap_keeps pl n (imap_go st FETCH_BLOCK d f)"
  "imap_inv pl (Suc n) d (f\<lparr>f_state := st\<rparr>) \<Longrightarrow> imap_keeps pl n (imap_go st FETCH_MAIL d f)"
  by (simp_all add: keeps_def imap_go_def)

lemma imap_put_keeps [keeps_intros]:
  assumes "imap_inv pl n d (f\<lparr>f_state := st\<rparr>)"
  shows "imap_keeps pl n (imap_put e s st d f)" "imap_keeps pl n (imap_cmd e s st d f)"
  unfolding imap_cmd_def imap_put_def Let_def by (intro keeps_intros; use assms in simp)+

lemma imap_get_keeps [keeps_intros]:
  assumes "imap_inv pl n d f" and "\<And>line c. imap_keeps pl n (k line (d\<lparr>i_conn := c\<rparr>))"
  shows "imap_keeps pl n (imap_get e type k d f)"
  unfolding imap_get_def Let_def by (intro keeps_intros) (use assms in simp_all)

lemma imap_done_keeps [keeps_intros]:
  assumes "imap_inv pl n d f" and "\<And>c. imap_keeps pl n (k (d\<lparr>i_conn := c\<rparr>))"
  shows "imap_keeps pl n (imap_done e k d f)"
  unfolding imap_done_def by (intro keeps_intros) (use assms in simp_all)

lemma with_string_keeps [keeps_intros]: "(\<And>x. s = Some x \<Longrightarrow> imap_keeps pl n (k x)) \<Longrightarrow> imap_keeps pl n (with_string s k)"
  by (cases s) (simp_all add: with_string_def keeps_basic)

lemma with_folder_keeps [keeps_intros]:
  "(\<And>x. i_folder d < length (i_folders d) \<Longrightarrow> imap_keeps pl n (k x)) \<Longrightarrow> imap_keeps pl n (with_folder d k)"
  by (simp add: with_folder_def keeps_basic)

lemma select3_keeps: "imap_inv pl m d f \<Longrightarrow> f_state f = Imap_select3 \<Longrightarrow> imap_keeps pl m (select3_loop n e d f)"
proof (induction n arbitrary: d)
  case 0
  then show ?case by (simp add: keeps_basic)
next
  case (Suc n)
  have "imap_inv pl m (d\<lparr>i_conn := c, i_total := num\<rparr>) (f\<lparr>f_state := Imap_select4\<rparr>)" for c num
    using Suc.prems by (simp add: imap_inv_def imap_setup_def)
  with Suc.prems show ?case unfolding select3_loop.simps by (intro keeps_intros Suc.IH) simp_all
qed

lemma last_line_keeps:
  assumes "imap_inv pl m d f" "f_state f = Imap_line" shows "imap_keeps pl m (last_line e line d f)"
proof -
  have "imap_inv pl m d (f\<lparr>f_state := Imap_mail\<rparr>)" using assms by (simp add: imap_inv_def imap_setup_def)
  then show ?thesis unfolding last_line_def Let_def by (intro keeps_intros) simp_all
qed

lemma imap_line_loop_keeps: "imap_inv pl m d f \<Longrightarrow> f_state f = Imap_line \<Longrightarrow> imap_keeps pl m (imap_line_loop n e d f)"
proof (induction n arbitrary: d f)
  case 0
  then show ?case by (simp add: keeps_basic)
next
  case (Suc n)
  then show ?case unfolding imap_line_loop.simps by (intro keeps_intros last_line_keeps Suc.IH) simp_all
qed

lemma setup_keeps:
  assumes "imap_inv pl m d f"
  shows "f_state f = Imap_init \<Longrightarrow> imap_keeps pl m (imap_state_init d f)"
    and "f_state f = Imap_connect \<Longrightarrow> imap_keeps pl m (imap_state_connect e d f)"
    and "f_state f = Imap_connected \<Longrightarrow> imap_keeps pl m (imap_state_connected e d f)"
    and "f_state f = Imap_capability1 \<Longrightarrow> imap_keeps pl m (imap_state_capability1 e d f)"
    and "f_state f = Imap_capability2 \<Longrightarrow> imap_keeps pl m (imap_state_capability2 e d f)"
    and "f_state f = Imap_cram_md5_auth \<Longrightarrow> imap_keeps pl m (imap_state_cram_md5_auth e d f)"
    and "f_state f = Imap_login \<Longrightarrow> imap_keeps pl m (imap_state_login e d f)"
    and "f_state f = Imap_user \<Longrightarrow> imap_keeps pl m (imap_state_user e d f)"
    and "f_state f = Imap_pass \<Longrightarrow> imap_keeps pl m (imap_state_pass e d f)"
    and "f_state f = Imap_select1 \<Longrightarrow> imap_keeps pl m (imap_state_select1 e d f)"
    and "f_state f = Imap_select2 \<Longrightarrow> imap_keeps pl m (imap_state_select2 e d f)"
    and "f_state f = Imap_search1 \<Longrightarrow> imap_keeps pl m (imap_state_search1 e d f)"
    and "f_state f = Imap_search2 \<Longrightarrow> imap_keeps pl m (imap_state_search2 e d f)"
  using assms
  unfolding imap_state_init_def imap_state_connect_def imap_state_connected_def imap_state_capability1_def
    imap_state_capability2_def imap_state_cram_md5_auth_def imap_state_login_def imap_state_user_def imap_state_pass_def
    imap_state_select1_def imap_state_select2_def imap_state_search1_def imap_state_search2_def Let_def
  by (intro keeps_intros; simp add: imap_inv_def imap_setup_def)+

lemma fetching_keeps:
  assumes "imap_inv pl m d f"
  shows "f_state f = Imap_select4 \<Longrightarrow> imap_keeps pl m (imap_state_select4 e d f)"
    and "f_state f = Imap_search3 \<Longrightarrow> imap_keeps pl m (imap_state_search3 e d f)"
    and "f_state f = Imap_next \<Longrightarrow> imap_keeps pl m (imap_state_next e d f)"
    and "f_state f = Imap_mail \<Longrightarrow> imap_keeps pl m (imap_state_mail e d f)"
    and "f_state f = Imap_commit \<Longrightarrow> imap_keeps pl m (imap_state_commit e d f)"
    and "f_state f = Imap_expunge \<Longrightarrow> imap_keeps pl m (imap_state_expunge e d f)"
    and "f_state f = Imap_close \<Longrightarrow> imap_keeps pl m (imap_state_close e d f)"
    and "f_state f = Imap_quit \<Longrightarrow> imap_keeps pl m (imap_state_quit e d f)"
  using assms
  unfolding imap_state_select4_def imap_state_search3_def imap_state_next_def imap_state_mail_def imap_state_commit_def
    imap_state_expunge_def imap_state_close_def imap_state_quit_def Let_def
  by (intro keeps_intros; auto simp: imap_inv_def imap_setup_def imap_count_def imap_abort_def all_flagged_def)+

lemma body_keeps:
  assumes "imap_inv pl m d f" "f_state f = Imap_body" shows "imap_keeps pl m (imap_state_body e d f)"
  unfolding imap_state_body_def Let_def
  by (intro keeps_intros; use assms in \<open>auto simp: imap_inv_def imap_setup_def imap_count_def\<close>)

lemma fetch_imap_keeps: "imap_inv pl m d f \<Longrightarrow> imap_keeps pl m (fo_step (fetch_imap e) d f)"
proof (cases "f_state f")
  case Imap_init
  assume "imap_inv pl m d f"
  then have "imap_inv pl m (d\<lparr>i_src := map_option fst (i_server d)\<rparr>) f" by (simp add: imap_inv_def imap_count_def)
  from setup_keeps(1) [OF this Imap_init] show ?thesis using Imap_init by (simp add: fetch_imap_def fetch_imap_state_init_def)
qed (simp_all add: fetch_imap_def imap_step_def setup_keeps fetching_keeps body_keeps imap_state_select3_def select3_keeps
    imap_state_line_def imap_line_loop_keeps)

lemma imap_commit_keeps:
  assumes "imap_inv pl (Suc n) d f" "imap_commit d m = Inr (r, d', m')"
  shows "imap_inv pl n d' f"
proof -
  obtain uid where "d' = d\<lparr>i_dropped := i_dropped d @ [uid]\<rparr> \<or> d' = d\<lparr>i_kept := i_kept d @ [uid]\<rparr>"
    using assms(2) by (auto simp: imap_commit_def split: option.splits if_splits)
  then have c: "imap_count k d' \<longleftrightarrow> imap_count (Suc k) d" "i_folders d' = i_folders d" "i_folder d' = i_folder d"
    "i_committed d' = i_committed d" "i_folders_total d' = i_folders_total d" for k
    by (auto simp: imap_count_def)
  show ?thesis using assms(1) unfolding imap_inv_def c by simp
qed

interpretation imap_source: fetch_source "imap_inv pl" "all_flagged pl" "fo_step (fetch_imap e)" imap_commit
  for pl e
proof (unfold_locales, goal_cases)
  case (1 n d f)
  then show ?case by (rule fetch_imap_keeps)
next
  case (2 n d f m r d' m')
  then show ?case by (rule imap_commit_keeps)
qed (simp_all add: imap_inv_def imap_count_def)

text \<open>
  C4: when the fetch of an IMAP account with one folder ends without an error and is not a poll, every mail the
  search gave has been decided on, flagged on the server and committed, and no mail is queued.
\<close>

theorem imap_fetches_all:
  assumes "fe_ops e = fetch_imap ie" "length (i_folders d) = 1" "i_committed d = 0"
    "fetch_account e is a d False = Inr (Some 0, s)"
  shows "i_committed (fa_data s) = i_folders_total (fa_data s) \<and> fa_queued s = 0"
proof -
  obtain r s1 where l: "fetch_loop e is (start_state e a d False) = Inr (r, s1)"
    using assms(4) by (auto simp: fetch_account_def rbind_Inr_iff)
  then have r: "r = LoopFinished" "s = s1\<lparr>fa_matchq := [], fa_deliverq := []\<rparr>"
    using assms(4) by (cases r; simp add: fetch_account_def)+
  have u: "imap_source.uses ie e" using assms(1) unfolding imap_source.uses_def by (simp add: fetch_imap_def)
  have "imap_source.counted False 0 (start_state e a d False)"
    using assms(1-3) unfolding imap_source.counted_def
    by (simp add: start_state_def imap_inv_def imap_setup_def fetch_imap_def)
  from imap_source.loop_counts [OF u this l] r show ?thesis by (simp add: all_flagged_def)
qed

definition sample_imap_env :: "(char list list \<times> char list list) imap_env" where
  "sample_imap_env = \<lparr>ie_ops = script_ops, ie_fuel = 5, ie_b64_decode = Some, ie_b64_encode = Some, ie_hmac_md5 = (\<lambda>_ s. s),
     ie_tags = (\<lambda>t _. Inr t), ie_shm = (\<lambda>_. True), ie_max_size = 1000\<rparr>"

definition sample_imap_data :: "char list list \<Rightarrow> (char list list \<times> char list list) imap_data" where
  "sample_imap_data ls = \<lparr>i_only = FETCH_ONLY_ALL, i_user = Some ''u'', i_pass = Some ''p'', i_server = None, i_nocrammd5 = True,
     i_nologin = False, i_folder = 0, i_folders = [''INBOX''], i_folders_total = 0, i_capa_cram_md5 = False, i_capa_xyzzy = False,
     i_tag = 0, i_wanted = [], i_dropped = [], i_kept = [], i_total = 0, i_committed = 0, i_flushing = False, i_size = 0,
     i_lines = 0, i_src = None, i_conn = (ls, [])\<rparr>"

definition sample_imap_fetch :: "((char list list \<times> char list list) imap_data, imap_state, nat) fetch_env" where
  "sample_imap_fetch = \<lparr>fe_ops = fetch_imap sample_imap_env, fe_conf = sample_conf, fe_rules = [], fe_actions = [],
     fe_match = match_dispatch sample_conf sample_os, fe_deliver = (\<lambda>_ _ m. Inr (True, m)), fe_reopen = (\<lambda>_. None),
     fe_shm = (\<lambda>_. True), fe_build = ''fdm''\<rparr>"

definition sample_imap_input :: "nat fetch_input" where
  "sample_imap_input = \<lparr>fi_os = sample_os, fi_tim = 0, fi_msg = None, fi_poll = (\<lambda>_. PollReady)\<rparr>"

definition sample_mail_of :: "'x \<Rightarrow> 'x mail" where
  "sample_mail_of x = \<lparr>m_idx = 0, m_tim = 0, m_tags = None, attach = None, attach_built = False, mapped = True,
     m_base = replicate 32 NUL, m_off = 0, msize = 0, m_space = 32, m_body = 0, wrapped = [], wrapchar = NUL,
     m_rml = empty_rml, decision = DECISION_NONE, auxfree = True, auxdata = Some x\<rparr>"

definition sample_imap_ctx :: "imap_state \<Rightarrow> imap_ctx" where
  "sample_imap_ctx st = \<lparr>f_state = st, FETCH_PURGE = False, FETCH_EMPTY = True, FETCH_POLL = False, f_mail = sample_mail_of 7\<rparr>"

lemma imap_fetches_all_witness:
  "\<exists>s. fetch_account sample_imap_fetch (replicate 10 sample_imap_input) sample_account
     (sample_imap_data [''* PREAUTH hi'', ''+ go'', ''* 0 EXISTS'', ''1 OK'', ''2 OK'', ''3 OK'']) False = Inr (Some 0, s) \<and>
   i_committed (fa_data s) = i_folders_total (fa_data s) \<and>
   i_conn (fa_data s) = ([], [''1 SELECT {5}'', ''INBOX'', ''2 CLOSE'', ''3 LOGOUT''])"
proof -
  have scan: "scan_star ''* 0 EXISTS'' = Some 0"
    by (simp add: scan_star_def scan_unsigned_def isspace_def isdigit_def code_def digits_value_def digit_val_def)
  have tags: "imap_tag ''1 OK'' = Inr (ImapTag 1)" "imap_tag ''2 OK'' = Inr (ImapTag 2)" "imap_tag ''3 OK'' = Inr (ImapTag 3)"
    "imap_tag ''+ go'' = Inr IMAP_TAG_CONTINUE" "imap_tag ''* 0 EXISTS'' = Inr IMAP_TAG_NONE" "imap_tag ''* PREAUTH hi'' = Inr IMAP_TAG_NONE"
    by code_simp+
  have nums: "show_nat (Suc 0) = ''1''" "show_nat (Suc (Suc 0)) = ''2''" "show_nat (Suc (Suc (Suc 0))) = ''3''"
    "show_nat (Suc (Suc (Suc (Suc (Suc 0))))) = ''5''" "show_nat 2 = ''2''" "show_nat 3 = ''3''" by code_simp+
  have ok: "imap_okay ''1 OK''" "imap_okay ''2 OK''" "imap_okay ''3 OK''" by code_simp+
  obtain k where fuel: "ie_fuel sample_imap_env = Suc k" "ie_ops sample_imap_env = script_ops"
    by (simp add: sample_imap_env_def numeral_eq_Suc)
  have run: "replicate 10 sample_imap_input = [sample_imap_input, sample_imap_input, sample_imap_input, sample_imap_input,
     sample_imap_input, sample_imap_input, sample_imap_input, sample_imap_input, sample_imap_input, sample_imap_input]"
    by (simp add: numeral_eq_Suc)
  obtain s where s: "fetch_account sample_imap_fetch (replicate 10 sample_imap_input) sample_account
     (sample_imap_data [''* PREAUTH hi'', ''+ go'', ''* 0 EXISTS'', ''1 OK'', ''2 OK'', ''3 OK'']) False = Inr (Some 0, s)"
    "i_conn (fa_data s) = ([], [''1 SELECT {5}'', ''INBOX'', ''2 CLOSE'', ''3 LOGOUT''])"
    unfolding run
    by (simp add: fetch_account_def fetch_round_def fetch_match_def fetch_deliver_def fetch_purge_def update_holding_def
        as_uint_def fetch_call_def end_of_round_def fetch_poll_def start_state_def sample_imap_fetch_def sample_imap_data_def sample_conf_def
        sample_imap_input_def fetch_imap_def fetch_imap_state_init_def imap_state_init_def imap_go_def imap_step_def
        imap_state_connect_def imap_state_connected_def imap_state_select1_def imap_state_select2_def imap_state_select3_def
        imap_state_select4_def imap_state_close_def imap_state_quit_def imap_get_def imap_done_def imap_cmd_def imap_put_def
        with_folder_def imap_parse_def tags ok nums scan fuel starts_with_def imap_abort_def script_ops_def)
  show ?thesis using imap_fetches_all [OF _ _ _ s(1), of sample_imap_env] s
    by (auto simp: sample_imap_fetch_def sample_imap_data_def)
qed

section \<open>Mails come through\<close>

text \<open>The connection hands over these lines, one per call.\<close>

fun reads :: "'c conn_ops \<Rightarrow> 'c \<Rightarrow> char list list \<Rightarrow> 'c \<Rightarrow> bool" where
  "reads ops c [] c' = (c' = c)"
| "reads ops c (l # ls) c' = (\<exists>c1. cn_getln ops c = Inr (Some (Some l), c1) \<and> reads ops c1 ls c')"

lemma imap_get_raw:
  "cn_getln (ie_ops e) (i_conn d) = Inr (Some (Some l), c) \<Longrightarrow> ie_fuel e \<noteq> 0 \<Longrightarrow>
    imap_get e IMAP_RAW k d f = k l (d\<lparr>i_conn := c\<rparr>)"
  by (cases "ie_fuel e") (simp_all add: imap_get_def imap_parse_def)

text \<open>The bytes of a mail as they are counted: each line has two at its end, and the last need not have an end.\<close>

definition octets :: "char list list \<Rightarrow> nat" where
  "octets ls = length (concat (map (\<lambda>l. l @ [CR, NL]) ls))"

lemma octets_simps [simp]: "octets [] = 0" "octets (l # ls) = length l + 2 + octets ls"
  by (simp_all add: octets_def)

lemma text_octets: "length (concat (map (\<lambda>l. l @ [NL]) ls)) + length ls = octets ls"
  by (induction ls) auto

lemma line_loop_body:
  assumes "reads (ie_ops e) (i_conn d) ls c'" "ie_fuel e \<noteq> 0" "\<not> i_flushing d" "mail_ok (f_mail f)"
    "\<forall>k. ie_shm e k" "m_off (f_mail f) + msize (f_mail f) + octets ls < SIZE_MAX div 2"
    "msize (f_mail f) + i_lines d + octets ls \<le> i_size d"
  shows "\<exists>m. imap_line_loop (length ls + n) e d f = imap_line_loop n e (d\<lparr>i_conn := c', i_lines := i_lines d + length ls\<rparr>) (f\<lparr>f_mail := m\<rparr>) \<and>
    mail_ok m \<and> content m = content (f_mail f) @ concat (map (\<lambda>l. l @ [NL]) ls) \<and> m_off m = m_off (f_mail f) \<and>
    msize m + length ls = msize (f_mail f) + octets ls"
  using assms
proof (induction ls arbitrary: d f)
  case Nil
  then show ?case by (intro exI [of _ "f_mail f"]) simp
next
  case (Cons l ls)
  obtain c1 where c1: "cn_getln (ie_ops e) (i_conn d) = Inr (Some (Some l), c1)" "reads (ie_ops e) c1 ls c'"
    using Cons.prems(1) by auto
  obtain m where a: "append_line (ie_shm e) (f_mail f) l = Inr (0, m)"
    using append_line_returns [OF Cons.prems(4) _ Cons.prems(5), of l] Cons.prems(6) by auto
  have A: "mail_ok m" "content m = content (f_mail f) @ l @ [NL]" "m_off m = m_off (f_mail f)" "msize m = msize (f_mail f) + length l + 1"
    using append_line_ok [OF Cons.prems(4) a] by auto
  let ?d = "d\<lparr>i_conn := c1, i_lines := i_lines d + 1\<rparr>"
  have step: "imap_line_loop (Suc (length ls + n)) e d f = imap_line_loop (length ls + n) e ?d (f\<lparr>f_mail := m\<rparr>)"
    using Cons.prems(3,7) A(4) a by (simp add: imap_get_raw [OF c1(1) Cons.prems(2)])
  from Cons.IH [of ?d "f\<lparr>f_mail := m\<rparr>"] c1(2) Cons.prems A
  obtain m2 where "imap_line_loop (length ls + n) e ?d (f\<lparr>f_mail := m\<rparr>) =
      imap_line_loop n e (d\<lparr>i_conn := c', i_lines := i_lines d + 1 + length ls\<rparr>) (f\<lparr>f_mail := m2\<rparr>)"
    "mail_ok m2" "content m2 = content m @ concat (map (\<lambda>l. l @ [NL]) ls)" "m_off m2 = m_off m"
    "msize m2 + length ls = msize m + octets ls" by auto
  with step A show ?case by (intro exI [of _ m2]) simp
qed

lemma reads_append: "reads ops c (xs @ ys) c' \<Longrightarrow> \<exists>c1. reads ops c xs c1 \<and> reads ops c1 ys c'"
  by (induction xs arbitrary: c) auto

lemma size_sub_at_most: "b \<le> a \<Longrightarrow> size_sub a b = a - b"
  by (simp add: size_sub_def)

lemma content_cut: "k \<le> msize m \<Longrightarrow> content (m\<lparr>msize := k\<rparr>) = take k (content m)"
  by (simp add: content_def min_def)

lemma last_line_ends:
  assumes "mail_ok (f_mail f)" "\<forall>k. ie_shm e k" "m_off (f_mail f) + msize (f_mail f) + length r + 1 < SIZE_MAX div 2"
    "i_size d = msize (f_mail f) + i_lines d + length r" "last (r @ tail) = CHR '')''" "tail \<noteq> []"
  shows "\<exists>d' m. last_line e (r @ tail) d f = Inr (FETCH_AGAIN, d', f\<lparr>f_mail := m, f_state := Imap_mail\<rparr>) \<and>
    content m = content (f_mail f) @ r"
proof (cases "r = []")
  case True
  then show ?thesis using assms by (intro exI [of _ d] exI [of _ "f_mail f"]) (simp add: last_line_def size_sub_at_most imap_go_def)
next
  case False
  obtain m where a: "append_line (ie_shm e) (f_mail f) r = Inr (0, m)"
    using append_line_returns [OF assms(1) _ assms(2), of r] assms(3) by auto
  have A: "mail_ok m" "content m = content (f_mail f) @ r @ [NL]" "msize m = msize (f_mail f) + length r + 1"
    using append_line_ok [OF assms(1) a] by auto
  then have c: "content (m\<lparr>msize := msize m - 1\<rparr>) = content (f_mail f) @ r"
    using length_content [OF assms(1)] content_cut [of "msize m - 1" m] by simp
  show ?thesis using assms(4,5,6) False a c
    by (intro exI [of _ "d\<lparr>i_lines := i_lines d + 1\<rparr>"] exI [of _ "m\<lparr>msize := msize m - 1\<rparr>"])
      (simp add: last_line_def size_sub_at_most imap_go_def Let_def)
qed

text \<open>
  C21: a mail that the server announces with its size and sends as lines, the last one perhaps without an
  end and followed by the closing parenthesis, is taken over byte by byte, with a newline for each line end.
\<close>

theorem imap_mail_comes_through:
  assumes "reads (ie_ops e) (i_conn d) (ls @ [r @ tail]) c'" "\<not> i_flushing d" "mail_ok (f_mail f)" "\<forall>k. ie_shm e k"
    "i_size d = octets ls + length r" "i_lines d = 0" "msize (f_mail f) = 0" "m_off (f_mail f) + i_size d + 1 < SIZE_MAX div 2"
    "last (r @ tail) = CHR '')''" "tail \<noteq> []" "length ls < n" "ie_fuel e \<noteq> 0"
  shows "\<exists>d' m. imap_line_loop n e d f = Inr (FETCH_AGAIN, d', f\<lparr>f_mail := m, f_state := Imap_mail\<rparr>) \<and>
    content m = concat (map (\<lambda>l. l @ [NL]) ls) @ r"
proof -
  obtain c1 where c1: "reads (ie_ops e) (i_conn d) ls c1" "cn_getln (ie_ops e) c1 = Inr (Some (Some (r @ tail)), c')"
    using reads_append [OF assms(1)] by auto
  obtain k where n: "n = length ls + Suc k" using assms(11) less_iff_Suc_add by auto
  let ?d = "d\<lparr>i_conn := c1, i_lines := i_lines d + length ls\<rparr>"
  obtain m where m: "imap_line_loop n e d f = imap_line_loop (Suc k) e ?d (f\<lparr>f_mail := m\<rparr>)" "mail_ok m"
    "content m = content (f_mail f) @ concat (map (\<lambda>l. l @ [NL]) ls)" "m_off m = m_off (f_mail f)"
    "msize m + length ls = msize (f_mail f) + octets ls"
    using line_loop_body [OF c1(1) assms(12,2,3,4), of "Suc k"] assms(5-8) unfolding n by (auto simp del: imap_line_loop.simps)
  let ?d' = "?d\<lparr>i_conn := c'\<rparr>"
  have "content (f_mail f) = []" using length_content [OF assms(3)] assms(7) by simp
  moreover have "0 < length tail" using assms(10) by simp
  then have "imap_line_loop (Suc k) e ?d (f\<lparr>f_mail := m\<rparr>) = last_line e (r @ tail) ?d' (f\<lparr>f_mail := m\<rparr>)"
    using c1(2) assms(2,5,6,7,12) m(5) by (simp add: imap_get_raw)
  moreover obtain d' m' where "last_line e (r @ tail) ?d' (f\<lparr>f_mail := m\<rparr>) = Inr (FETCH_AGAIN, d', f\<lparr>f_mail := m', f_state := Imap_mail\<rparr>)"
    "content m' = content m @ r"
    using last_line_ends [of "f\<lparr>f_mail := m\<rparr>" e r ?d' tail] m assms by auto
  ultimately show ?thesis using m(1,3) by (intro exI [of _ d'] exI [of _ m']) (simp del: imap_line_loop.simps)
qed

lemma imap_mail_comes_through_witness:
  "\<exists>d' m. imap_line_loop 5 sample_imap_env (sample_imap_data [''hi'', ''there FLAGS ())''] \<lparr>i_size := 9\<rparr>) (sample_imap_ctx Imap_line) =
      Inr (FETCH_AGAIN, d', (sample_imap_ctx Imap_line)\<lparr>f_mail := m, f_state := Imap_mail\<rparr>) \<and>
    content m = ''hi'' @ [NL] @ ''there''"
proof -
  have "reads script_ops ([''hi'', ''there FLAGS ())''], []) ([''hi''] @ [''there'' @ '' FLAGS ())'']) ([], [])"
    by (simp add: script_ops_def)
  moreover have "mail_ok (sample_mail_of (7 :: nat))" by (simp add: mail_ok_def sample_mail_of_def)
  ultimately show ?thesis
    using imap_mail_comes_through [of sample_imap_env "sample_imap_data [''hi'', ''there FLAGS ())''] \<lparr>i_size := 9\<rparr>" "[''hi'']"
      "''there''" "'' FLAGS ())''" "([], [])" "sample_imap_ctx Imap_line" 5]
    by (simp add: sample_imap_env_def sample_imap_data_def sample_imap_ctx_def sample_mail_of_def SIZE_MAX_def)
qed

section \<open>Mails that are too big\<close>

text \<open>
  once a mail is known to be too big its lines are thrown away, and nothing ends that: the state never goes on
  to the next one, whatever the server sends; it waits for more or fails with the connection.
\<close>

theorem imap_flush_never_ends:
  assumes "i_flushing d" "imap_line_loop n e d f = Inr (r, d', f')"
  shows "r = FETCH_ERROR \<or> r = FETCH_BLOCK \<and> i_flushing d' \<and> f' = f"
  using assms
proof (induction n arbitrary: d)
  case (Suc n)
  obtain l c where "imap_getln (ie_fuel e) (ie_ops e) (i_tag d) IMAP_RAW (i_conn d) = Inr (l, c)"
    using Suc.prems(2) by (auto simp: imap_get_def rbind_Inr_iff)
  with Suc.prems Suc.IH [of "d\<lparr>i_conn := c\<rparr>"] show ?case
    by (auto simp: imap_get_def Let_def split: option.split_asm)
qed simp

lemma imap_flush_never_ends_witness:
  "\<exists>r d' f'. imap_line_loop (Suc (Suc (Suc (Suc 0)))) sample_imap_env (sample_imap_data [''line'', '')'', ''1 OK''] \<lparr>i_flushing := True\<rparr>) (sample_imap_ctx Imap_line) =
      Inr (r, d', f') \<and> (r = FETCH_ERROR \<or> r = FETCH_BLOCK \<and> i_flushing d' \<and> f' = sample_imap_ctx Imap_line)"
proof -
  obtain k where fuel: "ie_fuel sample_imap_env = Suc k" "ie_ops sample_imap_env = script_ops"
    by (simp add: sample_imap_env_def numeral_eq_Suc)
  obtain x where x: "imap_line_loop (Suc (Suc (Suc (Suc 0)))) sample_imap_env (sample_imap_data [''line'', '')'', ''1 OK''] \<lparr>i_flushing := True\<rparr>) (sample_imap_ctx Imap_line) = Inr x"
    by (simp add: imap_get_def imap_parse_def fuel script_ops_def sample_imap_data_def)
  obtain r d' f' where "x = (r, d', f')" by (cases x)
  with imap_flush_never_ends [OF _ x [unfolded this]] x show ?thesis by (auto simp: sample_imap_data_def)
qed

section \<open>The answer to a search\<close>

definition uid_list :: "nat list \<Rightarrow> char list" where
  "uid_list us = concat (map (\<lambda>u. SP # show_nat u) us)"

lemma takeWhile_number: "takeWhile (\<lambda>c. c \<noteq> SP) (show_nat u @ uid_list us) = show_nat u"
proof -
  have "\<forall>c \<in> set (show_nat u). c \<noteq> SP" using show_nat_digits [of u] isdigit_not_space by (auto simp: isspace_def)
  then show ?thesis by (cases us) (simp_all add: uid_list_def takeWhile_append2)
qed

text \<open>
  the UIDs that the server lists in its answer are the ones that are fetched, in that order.
\<close>

theorem search_uids_correct:
  assumes "\<forall>u \<in> set us. u < 2 ^ 32"
  shows "search_uids (uid_list us) acc = (True, acc @ us)"
  using assms
proof (induction us arbitrary: acc)
  case Nil
  then show ?case by (subst search_uids.simps) (simp add: uid_list_def)
next
  case (Cons u us)
  have start: "dropWhile isspace (uid_list (u # us)) = show_nat u @ uid_list us"
    using show_nat_digits [of u] show_nat_nonempty [of u] isdigit_not_space
    by (cases "show_nat u") (auto simp: uid_list_def isspace_def)
  have "scan_unsigned 32 (show_nat u @ uid_list us) = Some (u, uid_list us)"
    using Cons.prems by (intro scan_unsigned_show) (cases us; auto simp: uid_list_def isdigit_def code_def)+
  then have "search_uids (uid_list (u # us)) acc =
      (if uid_list us = [] then (True, acc @ [u]) else search_uids (uid_list us) (acc @ [u]))"
    by (subst search_uids.simps) (simp add: start takeWhile_number show_nat_nonempty Let_def)
  moreover have "uid_list us = [] \<Longrightarrow> us = []" by (cases us) (simp_all add: uid_list_def)
  ultimately show ?case using Cons by auto
qed

lemma search_uids_correct_witness: "search_uids '' 4 12'' [] = (True, [4, 12])"
proof -
  have "uid_list [4, 12] = '' 4 12''" by code_simp
  with search_uids_correct [of "[4, 12]" "[]"] show ?thesis by simp
qed

end
