(* ===== verification/Nntp.thy ===== *)
theory Nntp imports Pop3 begin

text \<open>
  Fetching from an NNTP server (\<^verbatim>\<open>fetch-nntp.c\<close>): the response codes, the cache file with the last article of
  each group, the states, and what the cache loses when mails are committed late.
\<close>

section \<open>Data\<close>

datatype nntp_state =
    Nntp_connect | Nntp_connected | Nntp_auth1 | Nntp_auth2 | Nntp_switch | Nntp_group | Nntp_reset | Nntp_stat | Nntp_wait
  | Nntp_next | Nntp_article | Nntp_line | Nntp_quit

record nntp_group =
  ng_name :: "char list"
  ng_last :: nat
  ng_size :: nat
  ng_id :: "char list option"
  ng_ignore :: bool

text \<open>The cache file, \<open>None\<close> when it does not exist, is kept with the data.\<close>

record 'c nntp_data =
  n_user :: "char list option"
  n_pass :: "char list option"
  n_server :: "char list \<times> char list"
  n_names :: "char list list"
  n_group :: nat
  n_groups :: "nntp_group list"
  n_flushing :: bool
  n_conn :: 'c
  n_file :: "char list option"

record 'c nntp_env =
  ne_ops :: "'c conn_ops"
  ne_fuel :: nat
  ne_load :: bool
  ne_save :: bool
  ne_tags :: "strb \<Rightarrow> char list option \<Rightarrow> strb res"
  ne_shm :: "nat \<Rightarrow> bool"
  ne_max_size :: nat

type_synonym nntp_ctx = "(nntp_state, unit) fetch_ctx"
type_synonym 'c nntp_res = "(fetch_result \<times> 'c nntp_data \<times> nntp_ctx) res"
type_synonym 'c nntp_step = "'c nntp_data \<Rightarrow> nntp_ctx \<Rightarrow> 'c nntp_res"

section \<open>Responses\<close>

definition fetch_nntp_code :: "char list \<Rightarrow> int" where
  "fetch_nntp_code line =
     (let ds = takeWhile isdigit line in
      if ds = [] then - 1 else case strtonum ds 100 999 of Inr n \<Rightarrow> n | Inl _ \<Rightarrow> - 1)"

text \<open>
  The line and its code, after those of informational messages. \<open>n\<close> codes are read; the one call
  that passes fewer than it says reads what is behind them.
\<close>

fun fetch_nntp_check :: "nat \<Rightarrow> 'c conn_ops \<Rightarrow> nat \<Rightarrow> int list \<Rightarrow> 'c \<Rightarrow> ((char list \<times> int) option option \<times> 'c) res" where
  "fetch_nntp_check 0 ops n codes c = Inl (Diverges ''fetch_nntp_check'')"
| "fetch_nntp_check (Suc k) ops n codes c = rbind (cn_getln ops c) (\<lambda>(l, c). case l of
     Some (Some line) \<Rightarrow>
       (let num = fetch_nntp_code line in
        if num = - 1 then Inr (None, c)
        else if 100 \<le> num \<and> num \<le> 199 then fetch_nntp_check k ops n codes c
        else if num \<in> set (take n codes) then Inr (Some (Some (line, num)), c)
        else if length codes < n then Inl (MemErr ''va_arg'')
        else Inr (None, c))
   | Some None \<Rightarrow> Inr (Some None, c)
   | None \<Rightarrow> Inr (None, c))"

definition fetch_nntp_parse223 :: "char list \<Rightarrow> (nat \<times> char list) option" where
  "fetch_nntp_parse223 line = Option.bind (scan_literal ''223'' line) (\<lambda>r. Option.bind (scan_unsigned 32 r) (\<lambda>(n, _).
     Option.bind (memchr line (CHR ''<'')) (\<lambda>i. map_option (\<lambda>j. (n, take j (drop (i + 1) line)))
       (memchr (drop (i + 1) line) (CHR ''>'')))))"

section \<open>The cache file\<close>

text \<open>\<open>%zu\<close>, white space and that many bytes.\<close>

definition read_block :: "char list \<Rightarrow> (char list \<times> char list) option" where
  "read_block s = Option.bind (scan_unsigned 64 s) (\<lambda>(n, r).
     let r = dropWhile isspace r in if n = 0 \<or> length r < n then None else Some (cstr (take n r), drop n r))"

text \<open>\<open>feof\<close> after a number that could not be read.\<close>

definition at_eof :: "char list \<Rightarrow> bool" where
  "at_eof s \<longleftrightarrow> (let r = dropWhile isspace s in r = [] \<or> tl r = [] \<and> (hd r = CHR ''-'' \<or> hd r = CHR ''+''))"

text \<open>A group that is not fetched is kept, and ignored.\<close>

definition set_group :: "char list \<Rightarrow> nat \<Rightarrow> char list \<Rightarrow> nntp_group list \<Rightarrow> nntp_group list" where
  "set_group name last' id' gs =
     (case List.find (\<lambda>i. ng_name (gs ! i) = name) [0..<length gs] of
        Some i \<Rightarrow> gs[i := (gs ! i)\<lparr>ng_last := last', ng_id := Some id'\<rparr>]
      | None \<Rightarrow> gs @ [\<lparr>ng_name = name, ng_last = last', ng_size = 0, ng_id = Some id', ng_ignore = True\<rparr>])"

function load_groups :: "char list \<Rightarrow> nntp_group list \<Rightarrow> nntp_group list option" where
  "load_groups s gs =
     (if scan_unsigned 64 s = None then (if at_eof s then Some gs else None)
      else case read_block s of
        None \<Rightarrow> None
      | Some (name, r) \<Rightarrow>
         (case scan_unsigned 32 r of
            None \<Rightarrow> None
          | Some (last', r) \<Rightarrow>
             (case read_block r of None \<Rightarrow> None | Some (id', r) \<Rightarrow> load_groups r (set_group name last' id' gs))))"
  by pat_completeness auto

lemma scan_unsigned_le: "scan_unsigned w s = Some (n, r) \<Longrightarrow> length r \<le> length s"
  by (rule scan_unsigned_shorter)

lemma read_block_shorter: "read_block s = Some (b, r) \<Longrightarrow> length r < length s"
proof -
  assume "read_block s = Some (b, r)"
  then obtain n r0 where "scan_unsigned 64 s = Some (n, r0)" "r = drop n (dropWhile isspace r0)" "0 < n" "n \<le> length (dropWhile isspace r0)"
    by (auto simp: read_block_def Let_def bind_eq_Some_conv split: if_splits)
  then show ?thesis using scan_unsigned_le [of 64 s n r0] length_dropWhile_le [of isspace r0] by auto
qed

termination load_groups
  by (relation "measure (\<lambda>(s, gs). length s)") (auto dest!: read_block_shorter scan_unsigned_le)

declare load_groups.simps [simp del]

definition fetch_nntp_load :: "'c nntp_env \<Rightarrow> 'c nntp_data \<Rightarrow> int \<times> 'c nntp_data" where
  "fetch_nntp_load e d = (case n_file d of
     None \<Rightarrow> (0, d)
   | Some s \<Rightarrow> if \<not> ne_load e then (- 1, d)
       else case load_groups s (n_groups d) of None \<Rightarrow> (- 1, d) | Some gs \<Rightarrow> (0, d\<lparr>n_groups := gs\<rparr>))"

definition save_groups :: "nntp_group list \<Rightarrow> char list" where
  "save_groups gs = concat (map (\<lambda>g. case ng_id g of
     None \<Rightarrow> []
   | Some id' \<Rightarrow> show_nat (length (ng_name g)) @ '' '' @ ng_name g @ '' '' @ show_nat (ng_last g) @ '' '' @
        show_nat (length id') @ '' '' @ id' @ [NL]) gs)"

definition fetch_nntp_save :: "'c nntp_env \<Rightarrow> 'c nntp_data \<Rightarrow> int \<times> 'c nntp_data" where
  "fetch_nntp_save e d = (if ne_save e then (0, d\<lparr>n_file := Some (save_groups (n_groups d))\<rparr>) else (- 1, d))"

section \<open>Operations\<close>

definition fetch_nntp_commit :: "'c nntp_env \<Rightarrow> 'c nntp_data \<Rightarrow> unit mail \<Rightarrow> (fetch_result \<times> 'c nntp_data \<times> unit mail) res" where
  "fetch_nntp_commit e d m = (case fetch_nntp_save e d of (r, d) \<Rightarrow> Inr (if r \<noteq> 0 then FETCH_ERROR else FETCH_AGAIN, d, m))"

definition fetch_nntp_abort :: "'c nntp_env \<Rightarrow> 'c nntp_data \<Rightarrow> 'c nntp_data" where
  "fetch_nntp_abort e d = d\<lparr>n_conn := cn_disconnect (ne_ops e) (n_conn d), n_groups := []\<rparr>"

section \<open>States\<close>

definition nntp_go :: "nntp_state \<Rightarrow> fetch_result \<Rightarrow> 'c nntp_data \<Rightarrow> nntp_ctx \<Rightarrow> 'c nntp_res" where
  "nntp_go st r d f = Inr (r, d, f\<lparr>f_state := st\<rparr>)"

text \<open>\<open>io_writeline\<close> does not report errors.\<close>

definition nntp_put :: "'c nntp_env \<Rightarrow> char list \<Rightarrow> nntp_state \<Rightarrow> fetch_result \<Rightarrow> 'c nntp_data \<Rightarrow> nntp_ctx \<Rightarrow> 'c nntp_res" where
  "nntp_put e s st r d f = rbind (cn_putln (ne_ops e) (n_conn d) s) (\<lambda>(ok, c). nntp_go st r (d\<lparr>n_conn := c\<rparr>) f)"

definition nntp_get :: "'c nntp_env \<Rightarrow> nat \<Rightarrow> int list \<Rightarrow> (char list \<Rightarrow> int \<Rightarrow> 'c nntp_data \<Rightarrow> 'c nntp_res) \<Rightarrow> 'c nntp_data \<Rightarrow> nntp_ctx \<Rightarrow> 'c nntp_res" where
  "nntp_get e n codes k d f = rbind (fetch_nntp_check (ne_fuel e) (ne_ops e) n codes (n_conn d)) (\<lambda>(l, c).
     let d = d\<lparr>n_conn := c\<rparr> in
     case l of None \<Rightarrow> Inr (FETCH_ERROR, d, f) | Some None \<Rightarrow> Inr (FETCH_BLOCK, d, f) | Some (Some (line, num)) \<Rightarrow> k line num d)"

definition with_group :: "'c nntp_data \<Rightarrow> (nntp_group \<Rightarrow> 'r res) \<Rightarrow> 'r res" where
  "with_group d k = (if n_group d < length (n_groups d) then k (n_groups d ! n_group d) else Inl (MemErr ''groups''))"

definition put_group :: "nntp_group \<Rightarrow> 'c nntp_data \<Rightarrow> 'c nntp_data" where
  "put_group g d = d\<lparr>n_groups := (n_groups d)[n_group d := g]\<rparr>"

definition active_from :: "nat \<Rightarrow> nntp_group list \<Rightarrow> nat option" where
  "active_from i gs = List.find (\<lambda>i. \<not> ng_ignore (gs ! i)) [i..<length gs]"

definition fetch_nntp_state_connect :: "'c nntp_env \<Rightarrow> 'c nntp_step" where
  "fetch_nntp_state_connect e d f =
     (let d = d\<lparr>n_groups := map (\<lambda>name. \<lparr>ng_name = name, ng_last = 0, ng_size = 0, ng_id = None, ng_ignore = False\<rparr>) (n_names d)\<rparr> in
      case fetch_nntp_load e d of (r, d) \<Rightarrow>
        if r \<noteq> 0 then Inr (FETCH_ERROR, d, f)
        else if n_groups d = [] then Inl (MemErr ''groups'')
        else case active_from 0 (n_groups d) of
          None \<Rightarrow> Inr (FETCH_ERROR, d\<lparr>n_group := length (n_groups d)\<rparr>, f)
        | Some i \<Rightarrow> rbind (cn_connect (ne_ops e) (n_conn d)) (\<lambda>(ok, c).
            let d = d\<lparr>n_group := i, n_conn := c\<rparr> in
            if ok then nntp_go Nntp_connected FETCH_BLOCK d f else Inr (FETCH_ERROR, d, f)))"

definition fetch_nntp_state_connected :: "'c nntp_env \<Rightarrow> 'c nntp_step" where
  "fetch_nntp_state_connected e d f = nntp_get e 2 [200, 201] (\<lambda>_ _ d. case (n_user d, n_pass d) of
     (Some user, Some _) \<Rightarrow> nntp_put e (''AUTHINFO USER '' @ user) Nntp_auth1 FETCH_BLOCK d f
   | _ \<Rightarrow> nntp_go Nntp_group FETCH_AGAIN d f) d f"

definition fetch_nntp_state_auth1 :: "'c nntp_env \<Rightarrow> 'c nntp_step" where
  "fetch_nntp_state_auth1 e d f = nntp_get e 1 [381] (\<lambda>_ _ d. case n_pass d of
     None \<Rightarrow> Inl (MemErr ''pass'')
   | Some pass \<Rightarrow> nntp_put e (''AUTHINFO PASS '' @ pass) Nntp_auth2 FETCH_BLOCK d f) d f"

definition fetch_nntp_state_auth2 :: "'c nntp_env \<Rightarrow> 'c nntp_step" where
  "fetch_nntp_state_auth2 e d f = nntp_get e 2 [281] (\<lambda>_ _ d. nntp_go Nntp_group FETCH_AGAIN d f) d f"

definition fetch_nntp_state_switch :: "'c nntp_env \<Rightarrow> 'c nntp_step" where
  "fetch_nntp_state_switch e d f = (case active_from (n_group d + 1) (n_groups d) of
     None \<Rightarrow> nntp_put e ''QUIT'' Nntp_quit FETCH_BLOCK (d\<lparr>n_group := length (n_groups d)\<rparr>) f
   | Some i \<Rightarrow> nntp_go Nntp_group FETCH_AGAIN (d\<lparr>n_group := i\<rparr>) f)"

definition fetch_nntp_state_group :: "'c nntp_env \<Rightarrow> 'c nntp_step" where
  "fetch_nntp_state_group e d f = with_group d (\<lambda>g. nntp_put e (''GROUP '' @ ng_name g) Nntp_stat FETCH_BLOCK d f)"

definition fetch_nntp_state_reset :: "'c nntp_step" where
  "fetch_nntp_state_reset d f = with_group d (\<lambda>g. nntp_go Nntp_group FETCH_AGAIN (put_group (g\<lparr>ng_id := None, ng_last := 0\<rparr>) d) f)"

text \<open>\<open>sscanf (line, "211 %u %*u %u", &size, &n) == 2\<close>.\<close>

definition scan_211 :: "char list \<Rightarrow> (nat \<times> nat) option" where
  "scan_211 line = Option.bind (scan_literal ''211'' line) (\<lambda>r. Option.bind (scan_unsigned 32 r) (\<lambda>(a, r).
     Option.bind (scan_unsigned 32 r) (\<lambda>(_, r). map_option (\<lambda>(n, _). (a, n)) (scan_unsigned 32 r))))"

definition fetch_nntp_state_stat :: "'c nntp_env \<Rightarrow> 'c nntp_step" where
  "fetch_nntp_state_stat e d f = with_group d (\<lambda>g. nntp_get e 1 [211] (\<lambda>line _ d. case scan_211 line of
     None \<Rightarrow> Inr (FETCH_ERROR, d, f)
   | Some (size', n) \<Rightarrow>
       if n < ng_last g then nntp_go Nntp_reset FETCH_AGAIN (put_group (g\<lparr>ng_size := size'\<rparr>) d) f
       else let d = put_group (g\<lparr>ng_size := n - ng_last g\<rparr>) d in
         if ng_last g \<noteq> 0 then nntp_put e (''STAT '' @ show_nat (ng_last g)) Nntp_wait FETCH_BLOCK d f
         else nntp_put e ''NEXT'' Nntp_next FETCH_BLOCK d f) d f)"

definition fetch_nntp_state_wait :: "'c nntp_env \<Rightarrow> 'c nntp_step" where
  "fetch_nntp_state_wait e d f = with_group d (\<lambda>g. nntp_get e 2 [223, 423] (\<lambda>line num d.
     if num \<noteq> 223 then nntp_put e ''NEXT'' Nntp_next FETCH_BLOCK d f
     else case fetch_nntp_parse223 line of
       None \<Rightarrow> Inr (FETCH_ERROR, d, f)
     | Some (n, id') \<Rightarrow>
         if n \<noteq> ng_last g then Inr (FETCH_ERROR, d, f)
         else case ng_id g of
           None \<Rightarrow> Inl (MemErr ''strcmp'')
         | Some gid \<Rightarrow> if id' \<noteq> gid then nntp_go Nntp_reset FETCH_AGAIN d f else nntp_put e ''NEXT'' Nntp_next FETCH_BLOCK d f) d f)"

definition fetch_nntp_state_next :: "'c nntp_env \<Rightarrow> 'c nntp_step" where
  "fetch_nntp_state_next e d f = with_group d (\<lambda>g. nntp_get e 3 [223, 420, 421] (\<lambda>line num d.
     if num = 420 \<or> num = 421 then nntp_go Nntp_switch FETCH_AGAIN d f
     else case fetch_nntp_parse223 line of
       None \<Rightarrow> Inr (FETCH_ERROR, d, f)
     | Some (n, id') \<Rightarrow> nntp_put e ''ARTICLE'' Nntp_article FETCH_BLOCK (put_group (g\<lparr>ng_last := n, ng_id := Some id'\<rparr>) d) f) d f)"

definition fetch_nntp_state_article :: "'c nntp_env \<Rightarrow> 'c nntp_step" where
  "fetch_nntp_state_article e d f = with_group d (\<lambda>g. nntp_get e 3 [220, 423, 430] (\<lambda>line num d.
     if num = 423 \<or> num = 430 then nntp_put e ''NEXT'' Nntp_next FETCH_BLOCK d f
     else case mail_open (ne_shm e) (f_mail f) Mail.IO_BLOCKSIZE of (r, m) \<Rightarrow>
       if r \<noteq> 0 then Inr (FETCH_ERROR, d, f\<lparr>f_mail := m\<rparr>)
       else case m_tags m of
         None \<Rightarrow> Inl (MemErr ''tags'')
       | Some tags \<Rightarrow>
           rbind (ne_tags e tags (Some (ng_name g))) (\<lambda>tags.
           rbind (add_all add_tag tags [(''group'', ng_name g), (''server'', fst (n_server d)), (''port'', snd (n_server d))]) (\<lambda>tags.
             nntp_go Nntp_line FETCH_AGAIN (d\<lparr>n_flushing := False\<rparr>) (f\<lparr>f_mail := m\<lparr>msize := 0, m_tags := Some tags\<rparr>\<rparr>)))) d f)"

fun nntp_line_loop :: "nat \<Rightarrow> 'c nntp_env \<Rightarrow> 'c nntp_step" where
  "nntp_line_loop 0 e d f = Inl (Diverges ''fetch_nntp_state_line'')"
| "nntp_line_loop (Suc n) e d f = rbind (cn_getln (ne_ops e) (n_conn d)) (\<lambda>(l, c).
     let d = d\<lparr>n_conn := c\<rparr> in
     case l of
       Some (Some line) \<Rightarrow>
         if line = ''.'' then nntp_put e ''NEXT'' Nntp_next FETCH_MAIL d f
         else if n_flushing d then nntp_line_loop n e d f
         else rbind (append_line (ne_shm e) (f_mail f) (unstuff line)) (\<lambda>(r, m).
           if r \<noteq> 0 then Inr (FETCH_ERROR, d, f\<lparr>f_mail := m\<rparr>)
           else nntp_line_loop n e (if ne_max_size e < msize m then d\<lparr>n_flushing := True\<rparr> else d) (f\<lparr>f_mail := m\<rparr>))
     | _ \<Rightarrow> Inr (FETCH_BLOCK, d, f))"

definition fetch_nntp_state_line :: "'c nntp_env \<Rightarrow> 'c nntp_step" where
  "fetch_nntp_state_line e d f = nntp_line_loop (ne_fuel e) e d f"

definition fetch_nntp_state_quit :: "'c nntp_env \<Rightarrow> 'c nntp_step" where
  "fetch_nntp_state_quit e d f = nntp_get e 1 [205] (\<lambda>_ _ d. Inr (FETCH_EXIT, fetch_nntp_abort e d, f)) d f"

definition nntp_step :: "'c nntp_env \<Rightarrow> 'c nntp_step" where
  "nntp_step e d f = (case f_state f of
     Nntp_connect \<Rightarrow> fetch_nntp_state_connect e d f
   | Nntp_connected \<Rightarrow> fetch_nntp_state_connected e d f
   | Nntp_auth1 \<Rightarrow> fetch_nntp_state_auth1 e d f
   | Nntp_auth2 \<Rightarrow> fetch_nntp_state_auth2 e d f
   | Nntp_switch \<Rightarrow> fetch_nntp_state_switch e d f
   | Nntp_group \<Rightarrow> fetch_nntp_state_group e d f
   | Nntp_reset \<Rightarrow> fetch_nntp_state_reset d f
   | Nntp_stat \<Rightarrow> fetch_nntp_state_stat e d f
   | Nntp_wait \<Rightarrow> fetch_nntp_state_wait e d f
   | Nntp_next \<Rightarrow> fetch_nntp_state_next e d f
   | Nntp_article \<Rightarrow> fetch_nntp_state_article e d f
   | Nntp_line \<Rightarrow> fetch_nntp_state_line e d f
   | Nntp_quit \<Rightarrow> fetch_nntp_state_quit e d f)"

definition fetch_nntp :: "'c nntp_env \<Rightarrow> ('c nntp_data \<Rightarrow> nat) \<Rightarrow> ('c nntp_data, nntp_state, unit) fetch_ops" where
  "fetch_nntp e fill' = \<lparr>fo_first = Nntp_connect, fo_step = nntp_step e, fo_fill = Some fill',
     fo_commit = Some (fetch_nntp_commit e), fo_abort = fetch_nntp_abort e, fo_total = None\<rparr>"

section \<open>The cache is read back\<close>

definition word_ok :: "char list \<Rightarrow> bool" where
  "word_ok s \<longleftrightarrow> s \<noteq> [] \<and> is_cstr s \<and> \<not> isspace (hd s) \<and> length s < 2 ^ 64"

definition reset_group :: "nntp_group \<Rightarrow> nntp_group" where
  "reset_group g = g\<lparr>ng_last := 0, ng_size := 0, ng_id := None\<rparr>"

definition saved_group :: "nntp_group \<Rightarrow> nntp_group" where
  "saved_group g = (if ng_id g = None then reset_group g else g\<lparr>ng_size := 0\<rparr>)"

definition group_ok :: "nntp_group \<Rightarrow> bool" where
  "group_ok g \<longleftrightarrow> word_ok (ng_name g) \<and> ng_last g < 2 ^ 32 \<and> (\<forall>i. ng_id g = Some i \<longrightarrow> word_ok i)"

lemma scan_show_space:
  assumes "n < 2 ^ w" "w \<le> 64" "\<forall>c \<in> set ws. isspace c" "isspace c"
  shows "scan_unsigned w (ws @ show_nat n @ c # rest) = Some (n, c # rest)"
proof -
  have "scan_unsigned w (show_nat n @ c # rest) = Some (n, c # rest)"
    using assms isdigit_not_space [of c] by (intro scan_unsigned_show) auto
  then show ?thesis using assms(3) by (simp add: scan_unsigned_def dropWhile_append2)
qed

lemma read_block_written:
  assumes "word_ok s" "\<forall>c \<in> set ws. isspace c"
  shows "read_block (ws @ show_nat (length s) @ SP # s @ rest) = Some (s, rest)"
proof -
  have "scan_unsigned 64 (ws @ show_nat (length s) @ SP # s @ rest) = Some (length s, SP # s @ rest)"
    using assms by (intro scan_show_space) (simp_all add: word_ok_def isspace_def)
  moreover have "dropWhile isspace (SP # s @ rest) = s @ rest"
    using assms(1) by (cases s) (auto simp: word_ok_def isspace_def)
  ultimately show ?thesis using assms(1) by (simp add: read_block_def word_ok_def cstr_id)
qed

lemma set_group_at:
  assumes "name \<notin> ng_name ` set done'" "ng_name g = name"
  shows "set_group name l i (done' @ g # rest) = done' @ g\<lparr>ng_last := l, ng_id := Some i\<rparr> # rest"
proof -
  have "List.find (\<lambda>k. ng_name ((done' @ g # rest) ! k) = name) [0..<length (done' @ g # rest)] = Some (length done')"
    unfolding find_Some_iff using assms
    by (intro exI [of _ "length done'"]) (auto simp: nth_append image_iff simp del: upt_Suc, metis nth_mem)
  then show ?thesis unfolding set_group_def by simp
qed

lemma load_saved_groups:
  assumes "\<forall>g \<in> set gs. group_ok g" "distinct (map ng_name (done' @ gs))" "\<forall>c \<in> set ws. isspace c"
  shows "load_groups (ws @ save_groups gs) (done' @ map reset_group gs) = Some (done' @ map saved_group gs)"
  using assms
proof (induction gs arbitrary: done' ws)
  case Nil
  then have d: "dropWhile isspace ws = []" by simp
  have "scan_unsigned 64 ws = None" "at_eof ws" unfolding scan_unsigned_def at_eof_def d by simp_all
  then show ?case by (subst load_groups.simps) (simp add: save_groups_def)
next
  case (Cons g gs)
  note IH = Cons.IH [of "done' @ [saved_group g]"]
  have names: "distinct (map ng_name ((done' @ [saved_group g]) @ gs))"
    using Cons.prems(2) by (simp add: saved_group_def reset_group_def)
  show ?case
  proof (cases "ng_id g")
    case None
    then have "save_groups (g # gs) = save_groups gs" "reset_group g = saved_group g"
      by (simp_all add: save_groups_def saved_group_def)
    then show ?thesis using IH [of ws] names Cons.prems by simp
  next
    case (Some i)
    let ?tail = "NL # save_groups gs"
    let ?r2 = "SP # show_nat (length i) @ SP # i @ ?tail"
    let ?r1 = "SP # show_nat (ng_last g) @ ?r2"
    have ok: "word_ok (ng_name g)" "ng_last g < 2 ^ 32" "word_ok i" using Cons.prems(1) Some by (auto simp: group_ok_def)
    have s: "save_groups (g # gs) = show_nat (length (ng_name g)) @ SP # ng_name g @ ?r1"
      using Some by (simp add: save_groups_def)
    have b1: "read_block (ws @ save_groups (g # gs)) = Some (ng_name g, ?r1)"
      unfolding s by (rule read_block_written [OF ok(1) Cons.prems(3)])
    have n: "scan_unsigned 32 ?r1 = Some (ng_last g, ?r2)"
      using scan_show_space [of "ng_last g" 32 "[SP]" SP] ok(2) by (simp add: isspace_def)
    have b2: "read_block ?r2 = Some (i, ?tail)"
      using read_block_written [OF ok(3), of "[SP]"] by (simp add: isspace_def)
    have "scan_unsigned 64 (ws @ save_groups (g # gs)) \<noteq> None" using b1 by (auto simp: read_block_def bind_eq_Some_conv)
    moreover have "set_group (ng_name g) (ng_last g) i (done' @ reset_group g # map reset_group gs) =
        (done' @ [saved_group g]) @ map reset_group gs"
      using Cons.prems(2) Some by (subst set_group_at) (auto simp: reset_group_def saved_group_def)
    moreover have "load_groups ([NL] @ save_groups gs) ((done' @ [saved_group g]) @ map reset_group gs) =
        Some ((done' @ [saved_group g]) @ map saved_group gs)"
      using names Cons.prems(1) by (intro IH) (simp_all add: isspace_def code_def)
    ultimately show ?thesis using b1 n b2 by (subst load_groups.simps) auto
  qed
qed

text \<open>
  the cache file that a commit writes gives every group back its last article and message-id at the next start,
  when the account names the same groups.
\<close>

theorem nntp_cache_roundtrip:
  assumes "\<forall>g \<in> set (n_groups d). group_ok g" "distinct (map ng_name (n_groups d))"
    "fetch_nntp_commit e d m = Inr (FETCH_AGAIN, d', m')" "ne_load e"
    "n_file d2 = n_file d'" "n_groups d2 = map reset_group (n_groups d)"
  shows "fetch_nntp_load e d2 = (0, d2\<lparr>n_groups := map saved_group (n_groups d)\<rparr>)"
proof -
  have "n_file d2 = Some (save_groups (n_groups d))"
    using assms(3,5) by (auto simp: fetch_nntp_commit_def fetch_nntp_save_def split: if_splits)
  then show ?thesis using assms load_saved_groups [of "n_groups d" "[]" "[]"] by (simp add: fetch_nntp_load_def)
qed

definition sample_nntp_env :: "(char list list \<times> char list list) nntp_env" where
  "sample_nntp_env = \<lparr>ne_ops = script_ops, ne_fuel = 5, ne_load = True, ne_save = True, ne_tags = (\<lambda>t _. Inr t),
     ne_shm = (\<lambda>_. True), ne_max_size = 1000\<rparr>"

definition sample_nntp_data :: "char list list \<Rightarrow> nntp_group list \<Rightarrow> (char list list \<times> char list list) nntp_data" where
  "sample_nntp_data ls gs = \<lparr>n_user = None, n_pass = None, n_server = (''host'', ''119''), n_names = map ng_name gs, n_group = 0,
     n_groups = gs, n_flushing = False, n_conn = (ls, []), n_file = None\<rparr>"

definition sample_group :: nntp_group where
  "sample_group = \<lparr>ng_name = ''comp.c'', ng_last = 7, ng_size = 3, ng_id = Some ''id7'', ng_ignore = False\<rparr>"

definition sample_nntp_ctx :: "nntp_state \<Rightarrow> nntp_ctx" where
  "sample_nntp_ctx st = \<lparr>f_state = st, FETCH_PURGE = False, FETCH_EMPTY = True, FETCH_POLL = False, f_mail = new_mail\<rparr>"

lemma nntp_cache_roundtrip_witness:
  "\<exists>d'. fetch_nntp_commit sample_nntp_env (sample_nntp_data [] [sample_group]) new_mail = Inr (FETCH_AGAIN, d', new_mail) \<and>
    n_file d' = Some (''6 comp.c 7 3 id7'' @ [NL]) \<and>
    fetch_nntp_load sample_nntp_env (d'\<lparr>n_groups := [reset_group sample_group]\<rparr>) =
      (0, d'\<lparr>n_groups := [sample_group\<lparr>ng_size := 0\<rparr>]\<rparr>)"
proof -
  let ?d = "sample_nntp_data [] [sample_group]"
  let ?d' = "?d\<lparr>n_file := Some (save_groups [sample_group])\<rparr>"
  have c: "fetch_nntp_commit sample_nntp_env ?d new_mail = Inr (FETCH_AGAIN, ?d', new_mail)"
    by (simp add: fetch_nntp_commit_def fetch_nntp_save_def sample_nntp_env_def sample_nntp_data_def)
  have f: "save_groups [sample_group] = ''6 comp.c 7 3 id7'' @ [NL]" by code_simp
  have ok: "group_ok sample_group"
    by (simp add: group_ok_def word_ok_def sample_group_def is_cstr_def isspace_def code_def)
  have "fetch_nntp_load sample_nntp_env (?d'\<lparr>n_groups := [reset_group sample_group]\<rparr>) =
      (0, ?d'\<lparr>n_groups := [reset_group sample_group], n_groups := [saved_group sample_group]\<rparr>)"
    using nntp_cache_roundtrip [OF _ _ c, of "?d'\<lparr>n_groups := [reset_group sample_group]\<rparr>"] ok
    by (simp add: sample_nntp_data_def sample_nntp_env_def)
  moreover have "saved_group sample_group = sample_group\<lparr>ng_size := 0\<rparr>" by (simp add: saved_group_def sample_group_def)
  ultimately show ?thesis using c f by (intro exI [of _ ?d']) simp
qed

section \<open>Mails committed after the end\<close>

text \<open>
  the handler ends as soon as the server has answered QUIT, without waiting for the mails that are still being
  delivered, and its groups are freed then; the commit of such a mail replaces the cache file with an
  empty one, so that the next fetch starts from the first article of every group.
\<close>

theorem nntp_late_commit_empties_cache:
  assumes "f_state f = Nntp_quit" "nntp_step e d f = Inr (FETCH_EXIT, d', f')"
    "fetch_nntp_commit e d' m = Inr (FETCH_AGAIN, d'', m')" "ne_load e" "n_groups d2 = gs" "n_file d2 = n_file d''"
  shows "n_file d'' = Some [] \<and> fetch_nntp_load e d2 = (0, d2)"
proof -
  have "n_groups d' = []"
    using assms(1,2) by (auto simp: nntp_step_def fetch_nntp_state_quit_def nntp_get_def rbind_Inr_iff Let_def fetch_nntp_abort_def
        split: option.splits)
  then have "n_file d'' = Some []"
    using assms(3) by (auto simp: fetch_nntp_commit_def fetch_nntp_save_def save_groups_def split: if_splits)
  moreover have "load_groups [] gs = Some gs" by (subst load_groups.simps) (simp add: scan_unsigned_def at_eof_def)
  ultimately show ?thesis using assms by (simp add: fetch_nntp_load_def)
qed

lemma nntp_late_commit_empties_cache_witness:
  "\<exists>d' d''. nntp_step sample_nntp_env (sample_nntp_data [''205 bye''] [sample_group]) (sample_nntp_ctx Nntp_quit) =
      Inr (FETCH_EXIT, d', sample_nntp_ctx Nntp_quit) \<and>
    fetch_nntp_commit sample_nntp_env d' new_mail = Inr (FETCH_AGAIN, d'', new_mail) \<and> n_file d'' = Some []"
proof -
  have num: "fetch_nntp_code ''205 bye'' = 205"
    by (simp add: fetch_nntp_code_def strtonum_def strtoll10_def isdigit_def isspace_def code_def digits_value_def digit_val_def Let_def
        LLONG_MIN_def LLONG_MAX_def)
  obtain k where fuel: "ne_fuel sample_nntp_env = Suc k" "ne_ops sample_nntp_env = script_ops"
    by (simp add: sample_nntp_env_def numeral_eq_Suc)
  obtain d' where q: "nntp_step sample_nntp_env (sample_nntp_data [''205 bye''] [sample_group]) (sample_nntp_ctx Nntp_quit) =
      Inr (FETCH_EXIT, d', sample_nntp_ctx Nntp_quit)"
    by (simp add: nntp_step_def sample_nntp_ctx_def fetch_nntp_state_quit_def nntp_get_def fuel num script_ops_def sample_nntp_data_def)
  obtain d'' where c: "fetch_nntp_commit sample_nntp_env d' new_mail = Inr (FETCH_AGAIN, d'', new_mail)"
    by (simp add: fetch_nntp_commit_def fetch_nntp_save_def sample_nntp_env_def)
  from nntp_late_commit_empties_cache [OF _ q c, of "d''"] q c show ?thesis
    by (auto simp: sample_nntp_ctx_def sample_nntp_env_def)
qed

end
