(* ===== verification/File.thy ===== *)
theory File imports Match begin

text \<open>
  Files and locks (\<^verbatim>\<open>file.c\<close>) and the list of files to remove when the process ends
  (\<^verbatim>\<open>cleanup.c\<close>), over a file system that maps paths to nodes. What the system may refuse is a
  parameter; a file descriptor is the path it was opened with.
\<close>

section \<open>The file system\<close>

datatype errno = EAGAIN | EEXIST | ENOENT | EXDEV | ENAMETOOLONG | ENOTDIR | EPERM | EIO | ENOMEM

datatype node = Dir | File "char list"

record fsys =
  nodes :: "char list \<rightharpoonup> node"
  clean :: "char list list"

text \<open>Why an open, a creation, a lock and so on of a path fails, apart from the nodes that are there.\<close>

record sysenv =
  sy_open :: "char list \<Rightarrow> errno option"
  sy_create :: "char list \<Rightarrow> errno option"
  sy_flock :: "char list \<Rightarrow> errno option"
  sy_fcntl :: "char list \<Rightarrow> errno option"
  sy_chown :: "char list \<Rightarrow> errno option"
  sy_xdev :: "char list \<Rightarrow> char list \<Rightarrow> bool"

type_synonym 'a sysres = "((errno + 'a) \<times> fsys) res"

definition MAXPATHLEN :: nat where "MAXPATHLEN = 4096"

definition sys_open :: "sysenv \<Rightarrow> char list \<Rightarrow> fsys \<Rightarrow> errno option" where
  "sys_open e path s = (if nodes s path = None then Some ENOENT else sy_open e path)"

definition sys_unlink :: "char list \<Rightarrow> fsys \<Rightarrow> errno + fsys" where
  "sys_unlink path s = (case nodes s path of
     None \<Rightarrow> Inl ENOENT | Some Dir \<Rightarrow> Inl EPERM | Some (File _) \<Rightarrow> Inr (s\<lparr>nodes := (nodes s)(path := None)\<rparr>))"

section \<open>The cleanup list\<close>

definition cleanup_check :: "fsys \<Rightarrow> unit res" where
  "cleanup_check s = (if clean s = [] then Inr () else Inl (FatalX ''list not empty''))"

text \<open>A file that cannot be removed ends the process with the rest of the list.\<close>

fun purge_list :: "char list list \<Rightarrow> fsys \<Rightarrow> bool \<times> fsys" where
  "purge_list [] s = (True, s)"
| "purge_list (p # ps) s = (case sys_unlink p s of Inl _ \<Rightarrow> (False, s) | Inr s \<Rightarrow> purge_list ps s)"

definition cleanup_purge :: "fsys \<Rightarrow> bool \<times> fsys" where
  "cleanup_purge s = purge_list (clean s) s"

definition cleanup_flush :: "fsys \<Rightarrow> fsys" where
  "cleanup_flush s = s\<lparr>clean := []\<rparr>"

definition cleanup_register :: "char list \<Rightarrow> fsys \<Rightarrow> fsys res" where
  "cleanup_register path s = (if path = [] then Inl (FatalX ''empty path'') else Inr (s\<lparr>clean := path # clean s\<rparr>))"

definition cleanup_deregister :: "char list \<Rightarrow> fsys \<Rightarrow> fsys res" where
  "cleanup_deregister path s =
     (if path = [] then Inl (FatalX ''empty path'')
      else if path \<notin> set (clean s) then Inl (FatalX ''entry not found'')
      else Inr (s\<lparr>clean := remove1 path (clean s)\<rparr>))"

section \<open>Paths\<close>

definition ppath :: "nat \<Rightarrow> char list \<Rightarrow> errno + char list" where
  "ppath len s = (if len \<le> length s then Inl ENAMETOOLONG else Inr s)"

section \<open>Creating files\<close>

text \<open>\<open>owned\<close>: a user or group other than -1 is to be set. The new file stays when that fails.\<close>

definition xcreate :: "sysenv \<Rightarrow> bool \<Rightarrow> char list \<Rightarrow> fsys \<Rightarrow> (errno + unit) \<times> fsys" where
  "xcreate e owned path s =
     (if nodes s path \<noteq> None then (Inl EEXIST, s)
      else case sy_create e path of
        Some err \<Rightarrow> (Inl err, s)
      | None \<Rightarrow>
         (let s = s\<lparr>nodes := (nodes s)(path \<mapsto> File [])\<rparr> in
          case (if owned then sy_chown e path else None) of Some err \<Rightarrow> (Inl err, s) | None \<Rightarrow> (Inr (), s)))"

definition xmkdir :: "sysenv \<Rightarrow> bool \<Rightarrow> char list \<Rightarrow> fsys \<Rightarrow> (errno + unit) \<times> fsys" where
  "xmkdir e owned path s =
     (if nodes s path \<noteq> None then (Inl EEXIST, s)
      else case sy_create e path of
        Some err \<Rightarrow> (Inl err, s)
      | None \<Rightarrow>
         (let s = s\<lparr>nodes := (nodes s)(path \<mapsto> Dir)\<rparr> in
          case (if owned then sy_chown e path else None) of Some err \<Rightarrow> (Inl err, s) | None \<Rightarrow> (Inr (), s)))"

text \<open>
  The loop of \<open>xmkpath\<close>: \<open>done\<close> has been gone through; slashes and then a name are added to it. A path that
  ends with slashes names the same node as without them, and the root is there.
\<close>

definition stat_node :: "fsys \<Rightarrow> char list \<Rightarrow> node option" where
  "stat_node s path = (let q = rev (dropWhile (\<lambda>c. c = CHR ''/'') (rev path)) in
     if q = [] then (if path = [] then None else Some Dir) else nodes s q)"

function mkpath_loop :: "sysenv \<Rightarrow> bool \<Rightarrow> char list \<Rightarrow> char list \<Rightarrow> fsys \<Rightarrow> (errno + unit) \<times> fsys" where
  "mkpath_loop e owned before rest s =
     (let rest1 = dropWhile (\<lambda>c. c = CHR ''/'') rest;
          rest2 = dropWhile (\<lambda>c. c \<noteq> CHR ''/'') rest1;
          path = before @ take (length rest - length rest2) rest;
          made = (case stat_node s path of
              None \<Rightarrow> (case xmkdir e owned path s of
                         (Inl EEXIST, s) \<Rightarrow> (Inr (), s) | r \<Rightarrow> r)
            | Some Dir \<Rightarrow> (Inr (), s)
            | Some (File _) \<Rightarrow> (Inl ENOTDIR, s))
      in case made of
           (Inl err, s) \<Rightarrow> (Inl err, s)
         | (Inr _, s) \<Rightarrow> if rest2 = [] then (Inr (), s) else mkpath_loop e owned path rest2 s)"
  by pat_completeness auto

lemma mkpath_progress:
  "dropWhile (\<lambda>c. c \<noteq> CHR ''/'') (dropWhile (\<lambda>c. c = CHR ''/'') rest) \<noteq> [] \<Longrightarrow>
    length (dropWhile (\<lambda>c. c \<noteq> CHR ''/'') (dropWhile (\<lambda>c. c = CHR ''/'') rest)) < length rest"
proof (cases "dropWhile (\<lambda>c. c = CHR ''/'') rest")
  case (Cons c cs)
  then have "c \<noteq> CHR ''/''" using hd_dropWhile [of "\<lambda>c. c = CHR ''/''" rest] by simp
  moreover have "length (c # cs) \<le> length rest" using length_dropWhile_le [of "\<lambda>c. c = CHR ''/''" rest] Cons by simp
  ultimately show ?thesis using Cons length_dropWhile_le [of "\<lambda>c. c \<noteq> CHR ''/''" cs] by simp
qed simp

termination mkpath_loop
  by (relation "measure (\<lambda>(e, owned, before, rest, s). length rest)") (simp_all add: mkpath_progress)

declare mkpath_loop.simps [simp del]

definition xmkpath :: "sysenv \<Rightarrow> bool \<Rightarrow> char list \<Rightarrow> fsys \<Rightarrow> (errno + unit) \<times> fsys" where
  "xmkpath e owned path s = mkpath_loop e owned [] path s"

section \<open>Locks\<close>

datatype lock = LOCK_FCNTL | LOCK_FLOCK | LOCK_DOTLOCK

definition dotlock :: "char list \<Rightarrow> char list" where "dotlock path = path @ ''.lock''"

definition mklock :: "sysenv \<Rightarrow> lock list \<Rightarrow> char list \<Rightarrow> fsys \<Rightarrow> unit sysres" where
  "mklock e locks path s =
     (if LOCK_DOTLOCK \<notin> set locks then Inr (Inr (), s)
      else case ppath MAXPATHLEN (dotlock path) of
        Inl err \<Rightarrow> Inr (Inl err, s)
      | Inr lock \<Rightarrow>
         (case xcreate e False lock s of
            (Inl err, s) \<Rightarrow> Inr (Inl (if err = EEXIST then EAGAIN else err), s)
          | (Inr _, s) \<Rightarrow> rbind (cleanup_register lock s) (\<lambda>s. Inr (Inr (), s))))"

definition rmlock :: "lock list \<Rightarrow> char list \<Rightarrow> fsys \<Rightarrow> fsys res" where
  "rmlock locks path s =
     (if LOCK_DOTLOCK \<notin> set locks then Inr s
      else case ppath MAXPATHLEN (dotlock path) of
        Inl _ \<Rightarrow> Inl (FatalX ''unlink failed'')
      | Inr lock \<Rightarrow> (case sys_unlink lock s of
            Inl _ \<Rightarrow> Inl (FatalX ''unlink failed'')
          | Inr s \<Rightarrow> cleanup_deregister lock s))"

definition lockfd :: "sysenv \<Rightarrow> lock list \<Rightarrow> char list \<Rightarrow> errno option" where
  "lockfd e locks path = (case (if LOCK_FLOCK \<in> set locks then sy_flock e path else None) of
     Some err \<Rightarrow> Some err
   | None \<Rightarrow> if LOCK_FCNTL \<in> set locks then sy_fcntl e path else None)"

definition openlock :: "sysenv \<Rightarrow> lock list \<Rightarrow> char list \<Rightarrow> fsys \<Rightarrow> unit sysres" where
  "openlock e locks path s = rbind (mklock e locks path s) (\<lambda>(r, s). case r of
     Inl err \<Rightarrow> Inr (Inl err, s)
   | Inr _ \<Rightarrow>
      (case (case sys_open e path s of Some err \<Rightarrow> Some err | None \<Rightarrow> lockfd e locks path) of
         Some err \<Rightarrow> rbind (rmlock locks path s) (\<lambda>s. Inr (Inl err, s))
       | None \<Rightarrow> Inr (Inr (), s)))"

text \<open>A file that was created stays when it cannot be locked.\<close>

definition createlock :: "sysenv \<Rightarrow> bool \<Rightarrow> lock list \<Rightarrow> char list \<Rightarrow> fsys \<Rightarrow> unit sysres" where
  "createlock e owned locks path s = rbind (mklock e locks path s) (\<lambda>(r, s). case r of
     Inl err \<Rightarrow> Inr (Inl err, s)
   | Inr _ \<Rightarrow>
      (case xcreate e owned path s of
         (Inl err, s) \<Rightarrow> rbind (rmlock locks path s) (\<lambda>s. Inr (Inl err, s))
       | (Inr _, s) \<Rightarrow>
           (case lockfd e locks path of
              Some err \<Rightarrow> rbind (rmlock locks path s) (\<lambda>s. Inr (Inl err, s))
            | None \<Rightarrow> Inr (Inr (), s))))"

definition closelock :: "lock list \<Rightarrow> char list \<Rightarrow> fsys \<Rightarrow> fsys res" where
  "closelock locks path s = rmlock locks path s"

definition LOCKSLEEPTIME :: int where "LOCKSLEEPTIME = 10000"
definition LOCKTOTALTIME :: int where "LOCKTOTALTIME = 10000000"

text \<open>\<open>random\<close> is given; the result and the time used.\<close>

definition locksleep :: "int \<Rightarrow> int \<Rightarrow> int \<times> int" where
  "locksleep rnd used =
     (let used = used + (LOCKSLEEPTIME + rnd mod LOCKSLEEPTIME) in (if used < LOCKTOTALTIME then 0 else - 1, used))"

section \<open>Permissions and moving\<close>

record stat =
  st_mode :: nat
  st_uid :: nat
  st_gid :: nat

definition show_mode :: "nat \<Rightarrow> char list" where
  "show_mode m = concat (map show_nat [m div 64 mod 8, m div 8 mod 8, m mod 8])"

definition checkmode :: "stat \<Rightarrow> nat \<Rightarrow> char list option" where
  "checkmode sb mode = (if st_mode sb mod 512 = mode then None
     else Some (''bad permissions: '' @ show_mode (st_mode sb) @ '', should be '' @ show_mode mode))"

text \<open>\<open>None\<close> stands for -1, the user or group of the process.\<close>

definition checkowner :: "nat \<Rightarrow> stat \<Rightarrow> nat option \<Rightarrow> char list option" where
  "checkowner euid sb uid = (let uid = (case uid of None \<Rightarrow> euid | Some u \<Rightarrow> u) in
     if st_uid sb = uid then None else Some (''bad owner: '' @ show_nat (st_uid sb) @ '', should be '' @ show_nat uid))"

definition checkgroup :: "nat \<Rightarrow> stat \<Rightarrow> nat option \<Rightarrow> char list option" where
  "checkgroup ourgid sb gid = (let gid = (case gid of None \<Rightarrow> ourgid | Some g \<Rightarrow> g) in
     if st_gid sb = gid then None else Some (''bad group: '' @ show_nat (st_gid sb) @ '', should be '' @ show_nat gid))"

definition sys_link :: "sysenv \<Rightarrow> char list \<Rightarrow> char list \<Rightarrow> fsys \<Rightarrow> errno + fsys" where
  "sys_link e old new s = (case nodes s old of
     None \<Rightarrow> Inl ENOENT
   | Some n \<Rightarrow>
       if nodes s new \<noteq> None then Inl EEXIST
       else if sy_xdev e old new then Inl EXDEV
       else case sy_create e new of Some err \<Rightarrow> Inl err | None \<Rightarrow> Inr (s\<lparr>nodes := (nodes s)(new \<mapsto> n)\<rparr>))"

definition sys_rename :: "sysenv \<Rightarrow> char list \<Rightarrow> char list \<Rightarrow> fsys \<Rightarrow> errno + fsys" where
  "sys_rename e old new s = (case nodes s old of
     None \<Rightarrow> Inl ENOENT
   | Some n \<Rightarrow> (case sy_create e new of Some err \<Rightarrow> Inl err | None \<Rightarrow> Inr (s\<lparr>nodes := (nodes s)(old := None, new \<mapsto> n)\<rparr>)))"

text \<open>Between file systems: \<open>stat\<close> is taken to fail only when there is no file, and nothing comes up between it and \<open>rename\<close>.\<close>

definition safemove :: "sysenv \<Rightarrow> char list \<Rightarrow> char list \<Rightarrow> fsys \<Rightarrow> unit sysres" where
  "safemove e old new s =
     (let (r, s) = (case sys_link e old new s of
          Inr s \<Rightarrow> (Inr (), s)
        | Inl err \<Rightarrow>
            if err \<noteq> EXDEV then (Inl err, s)
            else if nodes s new \<noteq> None then (Inl EEXIST, s)
            else case sys_rename e old new s of Inl err \<Rightarrow> (Inl err, s) | Inr s \<Rightarrow> (Inr (), s))
      in case sys_unlink old s of
           Inr s \<Rightarrow> Inr (r, s)
         | Inl err \<Rightarrow> if err \<noteq> ENOENT then Inl (FatalX ''unlink failed'') else Inr (r, s))"

section \<open>Locking and unlocking\<close>

lemma mklock_result:
  assumes "mklock e locks path s = Inr (r, s')"
  shows "(\<exists>err. r = Inl err \<and> s' = s) \<or>
    r = Inr () \<and> (if LOCK_DOTLOCK \<in> set locks
      then nodes s (dotlock path) = None \<and> length (dotlock path) < MAXPATHLEN \<and>
        s' = s\<lparr>nodes := (nodes s)(dotlock path \<mapsto> File []), clean := dotlock path # clean s\<rparr>
      else s' = s)"
  using assms
  by (auto simp: mklock_def ppath_def xcreate_def Let_def cleanup_register_def rbind_def dotlock_def
      split: if_splits option.splits sum.splits prod.splits)

lemma rmlock_undoes:
  assumes "nodes s (dotlock path) = Some (File [])" "length (dotlock path) < MAXPATHLEN" "clean s = dotlock path # c" "LOCK_DOTLOCK \<in> set locks"
  shows "rmlock locks path s = Inr (s\<lparr>nodes := (nodes s)(dotlock path := None), clean := c\<rparr>)"
  using assms by (simp add: rmlock_def ppath_def sys_unlink_def cleanup_deregister_def dotlock_def)

lemma rmlock_mklock:
  assumes "mklock e locks path s = Inr (Inr u, s')"
  shows "rmlock locks path s' = Inr s"
proof (cases "LOCK_DOTLOCK \<in> set locks")
  case True
  then have m: "nodes s (dotlock path) = None" "length (dotlock path) < MAXPATHLEN"
    "s' = s\<lparr>nodes := (nodes s)(dotlock path \<mapsto> File []), clean := dotlock path # clean s\<rparr>"
    using mklock_result [OF assms] by auto
  have "rmlock locks path s' = Inr (s'\<lparr>nodes := (nodes s')(dotlock path := None), clean := clean s\<rparr>)"
    by (rule rmlock_undoes) (simp_all add: m True)
  moreover have "(nodes s)(dotlock path := None) = nodes s" using m(1) by (simp add: fun_upd_idem)
  ultimately show ?thesis by (simp add: m(3))
next
  case False
  then show ?thesis using mklock_result [OF assms] by (simp add: rmlock_def)
qed

text \<open>
  C10: a lock file is held by one process at a time. A process that has locked a file finds everything else as it was;
  another one that tries then is told to try again and changes nothing; closing undoes the lock, also on the list of
  files to remove; and an attempt that fails for any other reason leaves nothing behind.
\<close>

theorem openlock_excludes:
  assumes "openlock e locks path s = Inr (r, s')"
  shows "(case r of
      Inl err \<Rightarrow> s' = s
    | Inr _ \<Rightarrow> closelock locks path s' = Inr s \<and>
        (LOCK_DOTLOCK \<in> set locks \<and> LOCK_DOTLOCK \<in> set locks2 \<longrightarrow> openlock e2 locks2 path s' = Inr (Inl EAGAIN, s')))"
proof -
  obtain q s1 where q: "mklock e locks path s = Inr (q, s1)" using assms by (auto simp: openlock_def rbind_Inr_iff)
  show ?thesis
  proof (cases q)
    case (Inl err)
    then have "r = Inl err" "s' = s1" using assms q by (auto simp: openlock_def)
    then show ?thesis using mklock_result [OF q] Inl by auto
  next
    case (Inr u)
    note undo = rmlock_mklock [OF q [unfolded Inr]]
    show ?thesis
    proof (cases "case sys_open e path s1 of Some err \<Rightarrow> Some err | None \<Rightarrow> lockfd e locks path")
      case (Some err)
      then show ?thesis using assms q Inr undo by (auto simp: openlock_def)
    next
      case None
      then have r: "r = Inr ()" "s' = s1" using assms q Inr by (auto simp: openlock_def)
      have "openlock e2 locks2 path s1 = Inr (Inl EAGAIN, s1)" if "LOCK_DOTLOCK \<in> set locks" "LOCK_DOTLOCK \<in> set locks2"
        using mklock_result [OF q] Inr that by (simp add: openlock_def mklock_def ppath_def xcreate_def)
      then show ?thesis using r undo by (simp add: closelock_def)
    qed
  qed
qed

definition quiet_env :: sysenv where
  "quiet_env = \<lparr>sy_open = (\<lambda>_. None), sy_create = (\<lambda>_. None), sy_flock = (\<lambda>_. None), sy_fcntl = (\<lambda>_. None),
     sy_chown = (\<lambda>_. None), sy_xdev = (\<lambda>_ _. False)\<rparr>"

lemma openlock_excludes_witness:
  "\<exists>s'. openlock quiet_env [LOCK_DOTLOCK] ''box'' \<lparr>nodes = [''box'' \<mapsto> File ''x''], clean = []\<rparr> = Inr (Inr (), s') \<and>
    openlock quiet_env [LOCK_DOTLOCK] ''box'' s' = Inr (Inl EAGAIN, s') \<and>
    closelock [LOCK_DOTLOCK] ''box'' s' = Inr \<lparr>nodes = [''box'' \<mapsto> File ''x''], clean = []\<rparr>"
proof -
  obtain s' where s: "openlock quiet_env [LOCK_DOTLOCK] ''box'' \<lparr>nodes = [''box'' \<mapsto> File ''x''], clean = []\<rparr> = Inr (Inr (), s')"
    by (simp add: openlock_def mklock_def ppath_def xcreate_def cleanup_register_def sys_open_def lockfd_def quiet_env_def
        dotlock_def MAXPATHLEN_def)
  from openlock_excludes [OF s, of "[LOCK_DOTLOCK]" quiet_env] s show ?thesis by simp
qed

text \<open>
  C29: moving a file never replaces one that is there: the old name is gone afterwards, whatever happened, the new one holds
  the file exactly when the move succeeded, what it held before otherwise, and no other path changes.
\<close>

theorem safemove_safe:
  assumes "nodes s old = Some (File t)" "old \<noteq> new" "safemove e old new s = Inr (r, s')"
  shows "nodes s' old = None \<and> clean s' = clean s \<and> (\<forall>p. p \<noteq> old \<and> p \<noteq> new \<longrightarrow> nodes s' p = nodes s p) \<and>
    (case r of Inl err \<Rightarrow> nodes s' new = nodes s new \<and> (nodes s new \<noteq> None \<longrightarrow> err = EEXIST)
     | Inr _ \<Rightarrow> nodes s new = None \<and> nodes s' new = Some (File t))"
  using assms
  by (auto simp: safemove_def sys_link_def sys_rename_def sys_unlink_def Let_def split: option.splits if_splits)

lemma safemove_safe_witness:
  "\<exists>s'. safemove quiet_env ''tmp/a'' ''new/a'' \<lparr>nodes = [''tmp/a'' \<mapsto> File ''mail''], clean = []\<rparr> = Inr (Inr (), s') \<and>
    nodes s' ''tmp/a'' = None \<and> nodes s' ''new/a'' = Some (File ''mail'')"
proof -
  obtain s' where s: "safemove quiet_env ''tmp/a'' ''new/a'' \<lparr>nodes = [''tmp/a'' \<mapsto> File ''mail''], clean = []\<rparr> = Inr (Inr (), s')"
    by (simp add: safemove_def sys_link_def sys_unlink_def quiet_env_def)
  from safemove_safe [OF _ _ s, of "''mail''"] s show ?thesis by simp
qed

end
