(* ===== verification/Shm.thy ===== *)
theory Shm imports File Xmalloc begin

text \<open>
  Shared memory in files (\<^verbatim>\<open>shm-mmap.c\<close>), where the texts of mails are kept. A mapping shows the first bytes of its file, so
  that what one process writes is seen by the others; files are blocks of bytes by their path, and a descriptor is the path it was
  opened with. This is the code as it is built without \<^verbatim>\<open>HAVE_MREMAP\<close>.
\<close>

record shm =
  sh_name :: "char list"
  sh_fd :: "char list option"
  sh_data :: "nat option"
  sh_size :: nat

type_synonym shm_files = "char list \<Rightarrow> char list option"

text \<open>
  What the system does: the name \<open>mkstemp\<close> finds for a template, the result of each write (\<open>None\<close> for an error), and whether the
  other calls succeed.
\<close>

record shm_sys =
  ss_tmp_dir :: "char list"
  ss_progname :: "char list"
  ss_mkstemp :: "char list \<Rightarrow> char list option"
  ss_basename :: "char list \<Rightarrow> char list"
  ss_write :: "nat \<Rightarrow> nat \<Rightarrow> nat option"
  ss_fsync :: bool
  ss_ftruncate :: bool
  ss_lseek :: bool
  ss_open :: bool
  ss_mmap :: bool
  ss_munmap :: bool
  ss_unlink :: bool
  ss_fchown :: bool

definition MAXNAMLEN :: nat where "MAXNAMLEN = 255"

definition shm_path :: "shm_sys \<Rightarrow> shm \<Rightarrow> char list option" where
  "shm_path sys s = (case ppath MAXPATHLEN (ss_tmp_dir sys @ ''/'' @ sh_name s) of Inl _ \<Rightarrow> None | Inr p \<Rightarrow> Some p)"

text \<open>Zeros written at a position.\<close>

definition write_zeros :: "char list \<Rightarrow> nat \<Rightarrow> nat \<Rightarrow> char list" where
  "write_zeros f pos n = take pos (f @ replicate (pos - length f) NUL) @ replicate n NUL @ drop (pos + n) f"

text \<open>Blocks of \<open>BUFSIZ\<close> bytes and the rest; whether all of it was written, and the file. \<open>k\<close> counts the writes.\<close>

function write_blocks :: "shm_sys \<Rightarrow> nat \<Rightarrow> nat \<Rightarrow> nat \<Rightarrow> char list \<Rightarrow> bool \<times> char list" where
  "write_blocks sys k pos n f =
     (let b = unat BUFSIZ in
      if b < n then (case ss_write sys k b of
          None \<Rightarrow> (False, f)
        | Some w \<Rightarrow> if w \<noteq> b then (False, write_zeros f pos w) else write_blocks sys (k + 1) (pos + b) (n - b) (write_zeros f pos b))
      else if 0 < n then (case ss_write sys k n of
          None \<Rightarrow> (False, f) | Some w \<Rightarrow> (w = n, write_zeros f pos w))
      else (True, f))"
  by pat_completeness auto
termination by (relation "measure (\<lambda>(sys, k, pos, n, f). n)") (auto simp: BUFSIZ_def)

declare write_blocks.simps [simp del]

text \<open>A larger size is written as a whole behind the old one. The result is whether it worked.\<close>

definition shm_expand :: "shm_sys \<Rightarrow> shm \<Rightarrow> nat \<Rightarrow> shm_files \<Rightarrow> (bool \<times> shm_files) res" where
  "shm_expand sys s n fs =
     (if n = sh_size s then Inr (True, fs)
      else case sh_fd s of
        None \<Rightarrow> Inr (False, fs)
      | Some fd \<Rightarrow> (case fs fd of
          None \<Rightarrow> Inl (MemErr ''fd'')
        | Some f \<Rightarrow>
            if n < sh_size s then
              (if ss_ftruncate sys then Inr (True, fs(fd \<mapsto> take n (f @ replicate (n - length f) NUL))) else Inr (False, fs))
            else if \<not> ss_lseek sys then Inr (False, fs)
            else (case write_blocks sys 0 (sh_size s) n f of (ok, f) \<Rightarrow> Inr (ok \<and> ss_fsync sys, fs(fd \<mapsto> f)))))"

text \<open>\<open>None\<close> is a null pointer for the data.\<close>

definition shm_create :: "shm_sys \<Rightarrow> shm \<Rightarrow> nat \<Rightarrow> shm_files \<Rightarrow> (bool \<times> shm \<times> shm_files) res" where
  "shm_create sys s n fs =
     (if n = 0 then Inl (FatalX ''zero size'')
      else case ppath MAXNAMLEN (ss_progname sys @ ''.XXXXXXXXXX'') of
        Inl _ \<Rightarrow> Inr (False, s, fs)
      | Inr name \<Rightarrow>
          (let s = s\<lparr>sh_name := name\<rparr> in
           case shm_path sys s of
             None \<Rightarrow> Inr (False, s, fs)
           | Some template \<Rightarrow> (case ss_mkstemp sys template of
               None \<Rightarrow> Inr (False, s\<lparr>sh_fd := None\<rparr>, fs)
             | Some path \<Rightarrow>
                 (let s = s\<lparr>sh_fd := Some path, sh_name := take (MAXNAMLEN - 1) (ss_basename sys path)\<rparr> in
                  rbind (shm_expand sys s n (fs(path \<mapsto> []))) (\<lambda>(ok, fs).
                    if \<not> ok \<or> \<not> ss_mmap sys then Inr (False, s, fs(path := None))
                    else Inr (True, s\<lparr>sh_data := Some n, sh_size := n\<rparr>, fs))))))"

definition shm_close :: "shm_sys \<Rightarrow> shm \<Rightarrow> shm res" where
  "shm_close sys s = (case sh_fd s of
     None \<Rightarrow> Inr s
   | Some fd \<Rightarrow> if \<not> ss_munmap sys then Inl (FatalX ''munmap failed'') else Inr (s\<lparr>sh_data := None, sh_fd := None\<rparr>))"

definition shm_destroy :: "shm_sys \<Rightarrow> shm \<Rightarrow> shm_files \<Rightarrow> (shm \<times> shm_files) res" where
  "shm_destroy sys s fs =
     (if sh_name s = [] then Inr (s, fs)
      else rbind (shm_close sys s) (\<lambda>s. case shm_path sys s of
        None \<Rightarrow> Inl (FatalX ''unlink failed'')
      | Some path \<Rightarrow> if \<not> ss_unlink sys \<or> fs path = None then Inl (FatalX ''unlink failed'') else Inr (s\<lparr>sh_name := []\<rparr>, fs(path := None))))"

definition shm_reopen :: "shm_sys \<Rightarrow> shm \<Rightarrow> shm_files \<Rightarrow> bool \<times> shm" where
  "shm_reopen sys s fs = (case shm_path sys s of
     None \<Rightarrow> (False, s)
   | Some path \<Rightarrow>
       if \<not> ss_open sys \<or> fs path = None then (False, s\<lparr>sh_fd := None\<rparr>)
       else if \<not> ss_mmap sys then (False, s\<lparr>sh_fd := Some path\<rparr>)
       else (True, s\<lparr>sh_fd := Some path, sh_data := Some (sh_size s)\<rparr>))"

definition shm_owner :: "shm_sys \<Rightarrow> shm \<Rightarrow> int" where
  "shm_owner sys s = (if sh_fd s = None \<or> \<not> ss_fchown sys then - 1 else 0)"

definition shm_resize :: "shm_sys \<Rightarrow> shm \<Rightarrow> size_t \<Rightarrow> size_t \<Rightarrow> shm_files \<Rightarrow> (bool \<times> shm \<times> shm_files) res" where
  "shm_resize sys s nmemb size' fs =
     (if size' = 0 then Inl (FatalX ''zero size'')
      else if nmemb = 0 then Inl (MemErr ''division by zero'')
      else if SIZE_MAX div unat nmemb < unat size' then Inl (FatalX ''nmemb * size > SIZE_MAX'')
      else if \<not> ss_munmap sys then Inl (FatalX ''munmap failed'')
      else
        (let n = unat nmemb * unat size'; s = s\<lparr>sh_data := None\<rparr> in
         rbind (shm_expand sys s n fs) (\<lambda>(ok, fs).
           if \<not> ok \<or> \<not> ss_mmap sys then Inr (False, s, fs)
           else Inr (True, s\<lparr>sh_data := Some n, sh_size := n\<rparr>, fs))))"

section \<open>What is seen through a mapping\<close>

definition shm_view :: "shm \<Rightarrow> shm_files \<Rightarrow> char list option" where
  "shm_view s fs = (case (sh_fd s, sh_data s) of
     (Some fd, Some n) \<Rightarrow> (case fs fd of None \<Rightarrow> None | Some f \<Rightarrow> if n \<le> length f then Some (take n f) else None)
   | _ \<Rightarrow> None)"

lemma write_zeros_length: "pos \<le> length f \<Longrightarrow> length (write_zeros f pos n) = max (length f) (pos + n)"
  by (simp add: write_zeros_def max_def)

lemma write_zeros_take: "pos \<le> length f \<Longrightarrow> take (pos + n) (write_zeros f pos n) = take pos f @ replicate n NUL"
  by (simp add: write_zeros_def)

lemma write_blocks_spec:
  "write_blocks sys k pos n f = (True, g) \<Longrightarrow> pos \<le> length f \<Longrightarrow>
     take (pos + n) g = take pos f @ replicate n NUL \<and> length g = max (length f) (pos + n)"
proof (induction sys k pos n f rule: write_blocks.induct)
  case (1 sys k pos n f)
  let ?b = "unat BUFSIZ"
  consider "?b < n" | "n \<le> ?b" "0 < n" | "n = 0" by linarith
  then show ?case
  proof cases
    case 1
    then have w: "ss_write sys k ?b = Some ?b" "write_blocks sys (k + 1) (pos + ?b) (n - ?b) (write_zeros f pos ?b) = (True, g)"
      using "1.prems"(1) by (auto simp: write_blocks.simps [of sys k] Let_def split: option.splits if_splits)
    have l: "length (write_zeros f pos ?b) = max (length f) (pos + ?b)" using "1.prems"(2) by (rule write_zeros_length)
    have "take (pos + ?b + (n - ?b)) g = take (pos + ?b) (write_zeros f pos ?b) @ replicate (n - ?b) NUL \<and>
        length g = max (length (write_zeros f pos ?b)) (pos + ?b + (n - ?b))"
      using "1.IH" [OF refl 1 w(1) _ w(2)] l by simp
    moreover have "replicate ?b NUL @ replicate (n - ?b) NUL = replicate n NUL" using 1 by (simp flip: replicate_add)
    ultimately show ?thesis using write_zeros_take [OF "1.prems"(2), of ?b] l 1 by simp
  next
    case 2
    then have "g = write_zeros f pos n" using "1.prems"(1) by (auto simp: write_blocks.simps [of sys k] Let_def split: option.splits)
    then show ?thesis using write_zeros_take [OF "1.prems"(2)] write_zeros_length [OF "1.prems"(2)] by simp
  next
    case 3
    then show ?thesis using "1.prems" by (simp add: write_blocks.simps [of sys k] max_def)
  qed
qed

text \<open>
  C33: after the memory was resized a mapping shows what was in it, cut off or followed by zeros, in exactly the bytes asked for,
  and a process that opens it by its name sees the same. The file is larger than that when the memory grew: the whole new
  size is written behind the old one.
\<close>

theorem shm_resize_keeps:
  assumes "shm_resize sys s nmemb size' fs = Inr (True, s', fs')" "shm_view s fs = Some d" "sh_data s = Some (sh_size s)"
    and path: "shm_path sys s = sh_fd s" "ss_open sys"
  shows "let n = unat nmemb * unat size' in shm_view s' fs' = Some (take n (d @ replicate n NUL)) \<and> sh_size s' = n \<and>
    shm_view (snd (shm_reopen sys (s'\<lparr>sh_fd := None, sh_data := None\<rparr>) fs')) fs' = shm_view s' fs' \<and>
    (length d < n \<longrightarrow> (\<exists>fd f. sh_fd s' = Some fd \<and> fs' fd = Some f \<and> length d + n \<le> length f))"
proof -
  let ?n = "unat nmemb * unat size'"
  obtain fd f where f: "sh_fd s = Some fd" "fs fd = Some f" "sh_size s \<le> length f" "d = take (sh_size s) f"
    using assms(2,3) by (auto simp: shm_view_def split: option.splits if_splits)
  have e: "shm_expand sys (s\<lparr>sh_data := None\<rparr>) ?n fs = Inr (True, fs')" and s': "s' = s\<lparr>sh_data := Some ?n, sh_size := ?n\<rparr>" and mm: "ss_mmap sys"
    using assms(1) by (auto simp: shm_resize_def Let_def rbind_Inr_iff split: if_splits)
  have len: "length d = sh_size s" using f by simp
  have "\<exists>g. fs' fd = Some g \<and> ?n \<le> length g \<and> take ?n g = take ?n (d @ replicate ?n NUL) \<and> (length d < ?n \<longrightarrow> length d + ?n \<le> length g)"
  proof -
    consider "?n = sh_size s" | "?n < sh_size s" | "sh_size s < ?n" by linarith
    then show ?thesis
    proof cases
      case 1
      then show ?thesis using e f len by (auto simp: shm_expand_def)
    next
      case 2
      then have "fs' = fs(fd \<mapsto> take ?n f)" using e f by (auto simp: shm_expand_def split: if_splits)
      then show ?thesis using 2 f len by (auto simp: min_def)
    next
      case 3
      then obtain g where g: "write_blocks sys 0 (sh_size s) ?n f = (True, g)" "fs' = fs(fd \<mapsto> g)"
        using e f by (auto simp: shm_expand_def split: if_splits prod.splits)
      from write_blocks_spec [OF g(1) f(3)] have w: "take (sh_size s + ?n) g = d @ replicate ?n NUL" "length g = max (length f) (sh_size s + ?n)"
        using f(4) by simp_all
      then have "take ?n g = take ?n (d @ replicate ?n NUL)" by (metis le_add2 min.absorb1 take_take)
      then show ?thesis using g(2) w(2) len by auto
    qed
  qed
  then obtain g where g: "fs' fd = Some g" "?n \<le> length g" "take ?n g = take ?n (d @ replicate ?n NUL)" "length d < ?n \<longrightarrow> length d + ?n \<le> length g"
    by blast
  have "shm_view s' fs' = Some (take ?n (d @ replicate ?n NUL))" using g f(1) s' by (simp add: shm_view_def)
  moreover have "snd (shm_reopen sys (s'\<lparr>sh_fd := None, sh_data := None\<rparr>) fs') = s'"
    using path f(1) g(1) mm s' by (simp add: shm_reopen_def shm_path_def)
  ultimately show ?thesis using g s' f(1) by (auto simp: Let_def)
qed

definition sample_shm_sys :: shm_sys where
  "sample_shm_sys = \<lparr>ss_tmp_dir = ''/tmp'', ss_progname = ''fdm'', ss_mkstemp = Some, ss_basename = (\<lambda>p. ''x''), ss_write = (\<lambda>k n. Some n),
     ss_fsync = True, ss_ftruncate = True, ss_lseek = True, ss_open = True, ss_mmap = True, ss_munmap = True, ss_unlink = True, ss_fchown = True\<rparr>"

definition sample_shm :: shm where
  "sample_shm = \<lparr>sh_name = ''x'', sh_fd = Some ''/tmp/x'', sh_data = Some 2, sh_size = 2\<rparr>"

lemma shm_resize_keeps_witness:
  "\<exists>s' fs'. shm_resize sample_shm_sys sample_shm 2 2 (\<lambda>p. if p = ''/tmp/x'' then Some ''ab'' else None) = Inr (True, s', fs') \<and>
     shm_view s' fs' = Some (''ab'' @ [NUL, NUL])"
proof -
  let ?fs = "\<lambda>p. if p = ''/tmp/x'' then Some ''ab'' else None"
  have w: "write_blocks sample_shm_sys 0 2 4 ''ab'' = (True, write_zeros ''ab'' 2 4)"
    by (simp add: write_blocks.simps BUFSIZ_def sample_shm_sys_def)
  obtain s' fs' where r: "shm_resize sample_shm_sys sample_shm 2 2 ?fs = Inr (True, s', fs')"
  proof -
    have flags: "ss_munmap sample_shm_sys" "ss_mmap sample_shm_sys" "ss_lseek sample_shm_sys" "ss_fsync sample_shm_sys"
      by (simp_all add: sample_shm_sys_def)
    have "shm_expand sample_shm_sys (sample_shm\<lparr>sh_data := None\<rparr>) 4 ?fs = Inr (True, ?fs(''/tmp/x'' \<mapsto> write_zeros ''ab'' 2 4))"
      using w flags by (simp add: shm_expand_def sample_shm_def)
    then have "\<exists>s' fs'. shm_resize sample_shm_sys sample_shm 2 2 ?fs = Inr (True, s', fs')"
      using flags by (simp add: shm_resize_def SIZE_MAX_def Let_def)
    then show ?thesis using that by blast
  qed
  have p: "shm_path sample_shm_sys sample_shm = sh_fd sample_shm" by (simp add: shm_path_def ppath_def sample_shm_def sample_shm_sys_def MAXPATHLEN_def)
  have v: "shm_view sample_shm ?fs = Some ''ab''" "sh_data sample_shm = Some (sh_size sample_shm)" "ss_open sample_shm_sys"
    by (simp_all add: shm_view_def sample_shm_def sample_shm_sys_def)
  from shm_resize_keeps [OF r v(1,2) p v(3)] r
  have "shm_view s' fs' = Some (take 4 (''ab'' @ replicate 4 NUL))" by (simp add: Let_def)
  moreover have "replicate 4 NUL = [NUL, NUL, NUL, NUL]" by (simp add: numeral_eq_Suc)
  ultimately show ?thesis using r by auto
qed

end
