(* ===== verification/Array.thy ===== *)
theory Array imports Fdm_Prelude begin

text \<open>
  Growing arrays (\<^verbatim>\<open>array.h\<close>). The block is a list of cells, \<open>None\<close> for one that was never set; \<open>space\<close> is its size in bytes
  and \<open>isz\<close> the size of an item.
\<close>

section \<open>Cells\<close>

definition cells_write :: "'a option list \<Rightarrow> nat \<Rightarrow> 'a option list \<Rightarrow> 'a option list res" where
  "cells_write m pos bs =
     (if pos + length bs \<le> length m then Inr (take pos m @ bs @ drop (pos + length bs) m) else Inl (MemErr ''write''))"

definition cells_read :: "'a option list \<Rightarrow> nat \<Rightarrow> nat \<Rightarrow> 'a option list res" where
  "cells_read m pos n = (if pos + n \<le> length m then Inr (take n (drop pos m)) else Inl (MemErr ''read''))"

definition cells_move :: "'a option list \<Rightarrow> nat \<Rightarrow> nat \<Rightarrow> nat \<Rightarrow> 'a option list res" where
  "cells_move m dst src n = rbind (cells_read m src n) (cells_write m dst)"

section \<open>Arrays\<close>

record 'a array =
  ar_list :: "'a option list"
  ar_num :: nat
  ar_space :: nat

definition ARRAY_INIT :: "'a array" where
  "ARRAY_INIT = \<lparr>ar_list = [], ar_num = 0, ar_space = 0\<rparr>"

definition ARRAY_INITIALSPACE :: "nat \<Rightarrow> nat" where
  "ARRAY_INITIALSPACE isz = 10 * isz"

text \<open>\<open>xrealloc\<close>: the cells that fit and new ones.\<close>

definition resize_cells :: "nat \<Rightarrow> nat \<Rightarrow> 'a option list \<Rightarrow> 'a option list" where
  "resize_cells isz space m = take (space div isz) m @ replicate (space div isz - length m) None"

text \<open>The block is doubled until it is larger than what is asked for.\<close>

function array_grow :: "nat \<Rightarrow> nat \<Rightarrow> 'a array \<Rightarrow> 'a array res" where
  "array_grow isz need a =
     (if need < ar_space a then Inr a
      else if ar_space a = 0 then Inl (FatalX ''zero size'')
      else if SIZE_MAX div 2 < ar_space a then Inl (FatalX ''nmemb * size > SIZE_MAX'')
      else array_grow isz need (a\<lparr>ar_list := resize_cells isz (2 * ar_space a) (ar_list a), ar_space := 2 * ar_space a\<rparr>))"
  by pat_completeness auto
termination by (relation "measure (\<lambda>(isz, need, a). need + 1 - ar_space a)") auto

declare array_grow.simps [simp del]

definition ARRAY_ENSURE :: "nat \<Rightarrow> 'a array \<Rightarrow> nat \<Rightarrow> 'a array res" where
  "ARRAY_ENSURE isz a n =
     (if UINT_MAX - n < ar_num a then Inl (FatalX ''number too big'')
      else if ar_num a + n = 0 then Inl (MemErr ''division by zero'')
      else if SIZE_MAX div (ar_num a + n) < isz then Inl (FatalX ''size too big'')
      else array_grow isz ((ar_num a + n) * isz)
        (if ar_space a = 0 then a\<lparr>ar_space := ARRAY_INITIALSPACE isz, ar_list := resize_cells isz (ARRAY_INITIALSPACE isz) (ar_list a)\<rparr> else a))"

definition ARRAY_ITEM :: "'a array \<Rightarrow> nat \<Rightarrow> 'a res" where
  "ARRAY_ITEM a i = (if i < length (ar_list a) then (case ar_list a ! i of Some x \<Rightarrow> Inr x | None \<Rightarrow> Inl (MemErr ''item''))
     else Inl (MemErr ''item''))"

definition ARRAY_EMPTY :: "'a array option \<Rightarrow> bool" where
  "ARRAY_EMPTY a \<longleftrightarrow> (case a of None \<Rightarrow> True | Some a \<Rightarrow> ar_num a = 0)"

definition ARRAY_CLEAR :: "'a array \<Rightarrow> 'a array" where
  "ARRAY_CLEAR a = a\<lparr>ar_num := 0\<rparr>"

definition ARRAY_FREE :: "'a array \<Rightarrow> 'a array" where
  "ARRAY_FREE a = ARRAY_INIT"

definition ARRAY_SET :: "'a array \<Rightarrow> nat \<Rightarrow> 'a \<Rightarrow> 'a array res" where
  "ARRAY_SET a i s = rbind (cells_write (ar_list a) i [Some s]) (\<lambda>l. Inr (a\<lparr>ar_list := l\<rparr>))"

definition ARRAY_ADD :: "nat \<Rightarrow> 'a array \<Rightarrow> 'a \<Rightarrow> 'a array res" where
  "ARRAY_ADD isz a s = rbind (ARRAY_ENSURE isz a 1) (\<lambda>a.
     rbind (cells_write (ar_list a) (ar_num a) [Some s]) (\<lambda>l. Inr (a\<lparr>ar_list := l, ar_num := ar_num a + 1\<rparr>)))"

definition ARRAY_INSERT :: "nat \<Rightarrow> 'a array \<Rightarrow> nat \<Rightarrow> 'a \<Rightarrow> 'a array res" where
  "ARRAY_INSERT isz a i s = rbind (ARRAY_ENSURE isz a 1) (\<lambda>a.
     rbind (if i < ar_num a then cells_move (ar_list a) (i + 1) i (ar_num a - i) else Inr (ar_list a)) (\<lambda>l.
     rbind (cells_write l i [Some s]) (\<lambda>l. Inr (a\<lparr>ar_list := l, ar_num := ar_num a + 1\<rparr>))))"

text \<open>For an empty array the number wraps around before it is compared.\<close>

definition ARRAY_REMOVE :: "'a array \<Rightarrow> nat \<Rightarrow> 'a array res" where
  "ARRAY_REMOVE a i =
     (let num = ar_num a; last = (if num = 0 then UINT_MAX else num - 1) in
      rbind (if i < last then cells_move (ar_list a) i (i + 1) (last - i) else Inr (ar_list a)) (\<lambda>l.
        let a = a\<lparr>ar_list := l, ar_num := last\<rparr> in Inr (if last = 0 then ARRAY_FREE a else a)))"

definition ARRAY_EXPAND :: "nat \<Rightarrow> 'a array \<Rightarrow> nat \<Rightarrow> 'a array res" where
  "ARRAY_EXPAND isz a n = rbind (ARRAY_ENSURE isz a n) (\<lambda>a. Inr (a\<lparr>ar_num := ar_num a + n\<rparr>))"

definition ARRAY_TRUNC :: "'a array \<Rightarrow> nat \<Rightarrow> 'a array" where
  "ARRAY_TRUNC a n = (if n < ar_num a then a\<lparr>ar_num := ar_num a - n\<rparr> else ARRAY_FREE a)"

definition ARRAY_CONCAT :: "nat \<Rightarrow> 'a array \<Rightarrow> 'a array \<Rightarrow> 'a array res" where
  "ARRAY_CONCAT isz a b = rbind (ARRAY_ENSURE isz a (ar_num b)) (\<lambda>a.
     rbind (cells_read (ar_list b) 0 (ar_num b)) (\<lambda>d.
     rbind (cells_write (ar_list a) (ar_num a) d) (\<lambda>l. Inr (a\<lparr>ar_list := l, ar_num := ar_num a + ar_num b\<rparr>))))"

section \<open>An array is a list\<close>

text \<open>What is in an array, and that it is in its block.\<close>

definition array_of :: "nat \<Rightarrow> 'a array \<Rightarrow> 'a list \<Rightarrow> bool" where
  "array_of isz a xs \<longleftrightarrow> 0 < isz \<and> ar_num a = length xs \<and> take (length xs) (ar_list a) = map Some xs \<and>
     length (ar_list a) = ar_space a div isz \<and> ar_num a \<le> length (ar_list a)"

lemma array_grow_spec:
  "array_grow isz need a = Inr b \<Longrightarrow> array_of isz a xs \<Longrightarrow> array_of isz b xs \<and> need < ar_space b"
proof (induction isz need a rule: array_grow.induct)
  case (1 isz need a)
  show ?case
  proof (cases "need < ar_space a")
    case True
    then show ?thesis using "1.prems" by (simp add: array_grow.simps [of isz need a])
  next
    case False
    then have nz: "ar_space a \<noteq> 0" "\<not> SIZE_MAX div 2 < ar_space a"
        "array_grow isz need (a\<lparr>ar_list := resize_cells isz (2 * ar_space a) (ar_list a), ar_space := 2 * ar_space a\<rparr>) = Inr b"
      using "1.prems"(1) by (auto simp: array_grow.simps [of isz need a] split: if_splits)
    have le: "ar_space a div isz \<le> 2 * ar_space a div isz" by (intro div_le_mono) simp
    then have "array_of isz (a\<lparr>ar_list := resize_cells isz (2 * ar_space a) (ar_list a), ar_space := 2 * ar_space a\<rparr>) xs"
      using "1.prems"(2) by (auto simp: array_of_def resize_cells_def)
    from "1.IH" [OF False nz(1,2,3) this] show ?thesis .
  qed
qed

lemma array_ensure_spec:
  assumes "ARRAY_ENSURE isz a n = Inr b" "array_of isz a xs"
  shows "array_of isz b xs \<and> length xs + n \<le> length (ar_list b)"
proof -
  let ?a = "if ar_space a = 0 then a\<lparr>ar_space := ARRAY_INITIALSPACE isz, ar_list := resize_cells isz (ARRAY_INITIALSPACE isz) (ar_list a)\<rparr> else a"
  have isz: "0 < isz" using assms(2) by (simp add: array_of_def)
  have "array_of isz ?a xs" using assms(2) by (auto simp: array_of_def resize_cells_def ARRAY_INITIALSPACE_def)
  moreover have "array_grow isz ((ar_num a + n) * isz) ?a = Inr b" using assms(1) by (auto simp: ARRAY_ENSURE_def split: if_splits)
  ultimately have b: "array_of isz b xs" "(ar_num a + n) * isz < ar_space b" using array_grow_spec by blast+
  then have "(ar_num a + n) * isz div isz \<le> ar_space b div isz" by (intro div_le_mono) simp
  then have "length xs + n \<le> length (ar_list b)" using b(1) isz assms(2) by (simp add: array_of_def)
  with b(1) show ?thesis by simp
qed

lemma array_insert_spec:
  assumes "ARRAY_INSERT isz a i s = Inr b" "array_of isz a xs" "i \<le> length xs"
  shows "array_of isz b (take i xs @ s # drop i xs)"
proof -
  obtain c l l' where c: "ARRAY_ENSURE isz a 1 = Inr c" "(if i < ar_num c then cells_move (ar_list c) (i + 1) i (ar_num c - i) else Inr (ar_list c)) = Inr l"
      "cells_write l i [Some s] = Inr l'" "b = c\<lparr>ar_list := l', ar_num := ar_num c + 1\<rparr>"
    using assms(1) by (auto simp: ARRAY_INSERT_def rbind_Inr_iff)
  have e: "array_of isz c xs" "length xs + 1 \<le> length (ar_list c)" using array_ensure_spec [OF c(1) assms(2)] by auto
  obtain rest where r: "ar_list c = map Some xs @ rest" "ar_num c = length xs"
    using e(1) by (metis append_take_drop_id array_of_def)
  obtain u us where u: "rest = u # us" using e(2) r(1) by (cases rest) auto
  have l: "i < length xs \<Longrightarrow> l = take (i + 1) (map Some xs) @ map Some (drop i xs) @ us" "i = length xs \<Longrightarrow> l = map Some xs @ u # us"
    using c(2) r u by (auto simp: cells_move_def cells_read_def cells_write_def drop_map take_map)
  have "l' = map Some (take i xs) @ Some s # map Some (drop i xs) @ us"
  proof (cases "i = length xs")
    case True
    then show ?thesis using c(3) l(2) by (auto simp: cells_write_def split: if_splits)
  next
    case False
    then have i: "i < length xs" using assms(3) by simp
    then have "take i l = map Some (take i xs)" "drop (i + 1) l = map Some (drop i xs) @ us"
      using l(1) by (simp_all add: take_map min_def)
    then show ?thesis using c(3) by (auto simp: cells_write_def split: if_splits)
  qed
  moreover have "Suc (length xs) - i = Suc (length xs - i)" using assms(3) by simp
  ultimately show ?thesis using e(1) c(4) r u assms(3) by (auto simp: array_of_def)
qed

lemma array_add_insert: "array_of isz a xs \<Longrightarrow> ARRAY_ADD isz a s = Inr b \<Longrightarrow> ARRAY_INSERT isz a (length xs) s = Inr b"
  using array_ensure_spec [of isz a 1 _ xs] by (auto simp: ARRAY_ADD_def ARRAY_INSERT_def rbind_Inr_iff array_of_def)

lemma cells_move_length: "cells_move m d src n = Inr m' \<Longrightarrow> length m' = length m"
  by (auto simp: cells_move_def cells_read_def cells_write_def rbind_Inr_iff split: if_splits)

lemma array_remove_spec:
  assumes "ARRAY_REMOVE a i = Inr b" "array_of isz a xs" "i < length xs"
  shows "array_of isz b (take i xs @ drop (i + 1) xs)"
proof -
  have isz: "0 < isz" and num: "ar_num a = length xs" using assms(2) by (auto simp: array_of_def)
  obtain rest where r: "ar_list a = map Some xs @ rest" using assms(2) by (metis append_take_drop_id array_of_def)
  obtain l where l: "(if i < length xs - 1 then cells_move (ar_list a) i (i + 1) (length xs - 1 - i) else Inr (ar_list a)) = Inr l"
      "b = (if length xs - 1 = 0 then ARRAY_INIT else a\<lparr>ar_list := l, ar_num := length xs - 1\<rparr>)"
  proof -
    have nz: "length xs \<noteq> 0" using assms(3) by auto
    then have e: "(if length xs = 0 then UINT_MAX else length xs - 1) = length xs - 1" by (rule if_not_P)
    have "rbind (if i < length xs - 1 then cells_move (ar_list a) i (i + 1) (length xs - 1 - i) else Inr (ar_list a)) (\<lambda>l.
        let a = a\<lparr>ar_list := l, ar_num := length xs - 1\<rparr> in Inr (if length xs - 1 = 0 then ARRAY_FREE a else a)) = Inr b"
      using assms(1) unfolding ARRAY_REMOVE_def num e Let_def .
    then show ?thesis unfolding rbind_Inr_iff using that by (auto simp: ARRAY_FREE_def Let_def split: if_splits)
  qed
  let ?ys = "take i xs @ drop (i + 1) xs"
  have len: "length l = length (ar_list a)"
    using l(1) cells_move_length [of "ar_list a"] by (auto split: if_splits)
  have "take (length xs - 1) l = map Some ?ys"
  proof (cases "i < length xs - 1")
    case True
    then have "l = take i (map Some xs) @ map Some (drop (i + 1) xs) @ drop (length xs - 1) (map Some xs @ rest)"
      using l(1) r by (auto simp: cells_move_def cells_read_def cells_write_def rbind_Inr_iff drop_map take_map split: if_splits)
    then show ?thesis using True assms(3) by (simp add: take_map min_def)
  next
    case False
    then have "i = length xs - 1" using assms(3) by simp
    moreover have "l = map Some xs @ rest" using False l(1) r by simp
    ultimately show ?thesis using assms(3) by (simp add: take_map)
  qed
  then show ?thesis using l(2) isz len assms(2,3) num by (auto simp: array_of_def ARRAY_INIT_def)
qed

lemma array_concat_spec:
  assumes "ARRAY_CONCAT isz a b = Inr c" "array_of isz a xs" "array_of isz b ys"
  shows "array_of isz c (xs @ ys)"
proof -
  have n: "ar_num b = length ys" "take (length ys) (ar_list b) = map Some ys" using assms(3) by (simp_all add: array_of_def)
  obtain a' l where a': "ARRAY_ENSURE isz a (ar_num b) = Inr a'" "cells_write (ar_list a') (ar_num a') (map Some ys) = Inr l"
      "c = a'\<lparr>ar_list := l, ar_num := ar_num a' + ar_num b\<rparr>"
    using assms(1) n by (auto simp: ARRAY_CONCAT_def rbind_Inr_iff cells_read_def split: if_splits)
  have e: "array_of isz a' xs" using array_ensure_spec [OF a'(1) assms(2)] by simp
  then obtain rest where r: "ar_list a' = map Some xs @ rest" "ar_num a' = length xs" by (metis append_take_drop_id array_of_def)
  then have "l = map Some xs @ map Some ys @ drop (length ys) rest" "length ys \<le> length rest"
    using a'(2) by (auto simp: cells_write_def split: if_splits)
  then show ?thesis using e a'(3) r n(1) by (auto simp: array_of_def)
qed

lemma array_trunc_spec:
  assumes "array_of isz a xs"
  shows "array_of isz (ARRAY_TRUNC a n) (take (length xs - n) xs)"
proof (cases "n < length xs")
  case True
  have "take (length xs - n) (take (length xs) (ar_list a)) = map Some (take (length xs - n) xs)"
    using assms by (simp add: array_of_def take_map)
  then show ?thesis using True assms by (auto simp: array_of_def ARRAY_TRUNC_def)
qed (use assms in \<open>auto simp: array_of_def ARRAY_TRUNC_def ARRAY_FREE_def ARRAY_INIT_def\<close>)

section \<open>The calls return\<close>

lemma array_grow_returns:
  "need \<le> SIZE_MAX div 2 \<Longrightarrow> 0 < ar_space a \<Longrightarrow> \<exists>b. array_grow isz need a = Inr b"
proof (induction isz need a rule: array_grow.induct)
  case (1 isz need a)
  then show ?case by (auto simp: array_grow.simps [of isz need a])
qed

definition array_room :: "nat \<Rightarrow> nat \<Rightarrow> bool" where
  "array_room isz n \<longleftrightarrow> 0 < n \<and> n \<le> UINT_MAX \<and> n * isz \<le> SIZE_MAX div 2"

lemma array_ensure_returns:
  assumes "array_of isz a xs" "array_room isz (length xs + n)"
  shows "\<exists>b. ARRAY_ENSURE isz a n = Inr b"
proof -
  let ?n = "length xs + n"
  have n: "0 < ?n" "?n \<le> UINT_MAX" "?n * isz \<le> SIZE_MAX div 2" "0 < isz" "ar_num a = length xs" using assms by (auto simp: array_room_def array_of_def)
  have "isz * ?n \<le> SIZE_MAX" using n(3) by (simp add: SIZE_MAX_def mult.commute)
  then have "isz \<le> SIZE_MAX div ?n" using n(1) by (subst less_eq_div_iff_mult_less_eq) auto
  then show ?thesis using n array_grow_returns by (auto simp: ARRAY_ENSURE_def ARRAY_INITIALSPACE_def)
qed

lemma array_insert_returns:
  assumes "array_of isz a xs" "array_room isz (length xs + 1)" "i \<le> length xs"
  shows "\<exists>b. ARRAY_INSERT isz a i s = Inr b"
proof -
  obtain c where c: "ARRAY_ENSURE isz a 1 = Inr c" using array_ensure_returns [OF assms(1,2)] by blast
  have e: "array_of isz c xs" "length xs + 1 \<le> length (ar_list c)" using array_ensure_spec [OF c assms(1)] by auto
  then show ?thesis using c assms(3) by (auto simp: ARRAY_INSERT_def cells_move_def cells_read_def cells_write_def array_of_def)
qed

lemma array_add_returns:
  assumes "array_of isz a xs" "array_room isz (length xs + 1)"
  shows "\<exists>b. ARRAY_ADD isz a s = Inr b"
proof -
  obtain c where c: "ARRAY_ENSURE isz a 1 = Inr c" using array_ensure_returns [OF assms] by blast
  then show ?thesis using array_ensure_spec [OF c assms(1)] by (auto simp: ARRAY_ADD_def cells_write_def array_of_def)
qed

lemma array_remove_returns:
  assumes "array_of isz a xs" "i < length xs"
  shows "\<exists>b. ARRAY_REMOVE a i = Inr b"
proof -
  have "ar_num a = length xs" "length xs \<noteq> 0" "length xs \<le> length (ar_list a)" using assms by (auto simp: array_of_def)
  then show ?thesis using assms(2) by (auto simp: ARRAY_REMOVE_def Let_def cells_move_def cells_read_def cells_write_def)
qed

lemma array_concat_returns:
  assumes "array_of isz a xs" "array_of isz b ys" "array_room isz (length xs + length ys)"
  shows "\<exists>c. ARRAY_CONCAT isz a b = Inr c"
proof -
  have n: "ar_num b = length ys" "length ys \<le> length (ar_list b)" using assms(2) by (auto simp: array_of_def)
  obtain c where c: "ARRAY_ENSURE isz a (ar_num b) = Inr c" using array_ensure_returns [OF assms(1,3)] n by auto
  then show ?thesis using array_ensure_spec [OF c assms(1)] n by (auto simp: ARRAY_CONCAT_def cells_read_def cells_write_def array_of_def)
qed

lemma array_set_spec:
  assumes "array_of isz a xs" "i < length xs"
  shows "\<exists>c. ARRAY_SET a i s = Inr c \<and> array_of isz c (xs[i := s])"
proof -
  obtain rest where r: "ar_list a = map Some xs @ rest" using assms(1) by (metis append_take_drop_id array_of_def)
  have "take i (ar_list a) @ Some s # drop (i + 1) (ar_list a) = map Some (xs[i := s]) @ rest"
    using assms(2) r by (simp add: map_update upd_conv_take_nth_drop take_map drop_map)
  then have "ARRAY_SET a i s = Inr (a\<lparr>ar_list := map Some (xs[i := s]) @ rest\<rparr>)"
    using assms(2) r by (simp add: ARRAY_SET_def cells_write_def)
  then show ?thesis using assms(1) r by (auto simp: array_of_def)
qed

lemma array_expand_spec:
  assumes "array_of isz a xs" "array_room isz (length xs + m)"
  shows "\<exists>c. ARRAY_EXPAND isz a m = Inr c \<and> ar_num c = length xs + m \<and> ar_num c \<le> length (ar_list c) \<and> array_of isz (c\<lparr>ar_num := length xs\<rparr>) xs"
proof -
  obtain c where c: "ARRAY_ENSURE isz a m = Inr c" using array_ensure_returns [OF assms] by blast
  then show ?thesis using array_ensure_spec [OF c assms(1)] by (auto simp: ARRAY_EXPAND_def array_of_def)
qed

text \<open>
  C27: an array is a list. While the size of its items fits, adding, inserting before an item or at the end, replacing,
  removing, reading and cutting off return, stay in the block and do what they say; removing the last item gives back the block.
  Expanding keeps the items and makes place for new ones, which have no value yet. Joining does what it says unless both
  arrays are empty: that divides by zero.
\<close>

theorem array_is_list:
  assumes a: "array_of isz a xs" and b: "array_of isz b ys" and room: "array_room isz (length xs + length ys + 1)"
  shows "(\<exists>c. ARRAY_ADD isz a s = Inr c \<and> array_of isz c (xs @ [s])) \<and>
    (i \<le> length xs \<longrightarrow> (\<exists>c. ARRAY_INSERT isz a i s = Inr c \<and> array_of isz c (take i xs @ s # drop i xs))) \<and>
    (i < length xs \<longrightarrow> (\<exists>c. ARRAY_REMOVE a i = Inr c \<and> array_of isz c (take i xs @ drop (i + 1) xs)) \<and> ARRAY_ITEM a i = Inr (xs ! i)) \<and>
    (if xs = [] \<and> ys = [] then ARRAY_CONCAT isz a b = Inl (MemErr ''division by zero'')
     else \<exists>c. ARRAY_CONCAT isz a b = Inr c \<and> array_of isz c (xs @ ys)) \<and>
    array_of isz (ARRAY_TRUNC a n) (take (length xs - n) xs) \<and>
    (i < length xs \<longrightarrow> (\<exists>c. ARRAY_SET a i s = Inr c \<and> array_of isz c (xs[i := s]))) \<and>
    (\<exists>c. ARRAY_EXPAND isz a (length ys + 1) = Inr c \<and> ar_num c = length xs + (length ys + 1) \<and> ar_num c \<le> length (ar_list c) \<and>
      array_of isz (c\<lparr>ar_num := length xs\<rparr>) xs) \<and>
    array_of isz (ARRAY_CLEAR a) [] \<and> array_of isz (ARRAY_FREE a) [] \<and> (ARRAY_EMPTY (Some a) \<longleftrightarrow> xs = [])"
proof (intro conjI impI)
  have "(length xs + 1) * isz \<le> (length xs + length ys + 1) * isz" by simp
  then have r1: "array_room isz (length xs + 1)" using room unfolding array_room_def by linarith
  have "(length xs + length ys) * isz \<le> (length xs + length ys + 1) * isz" by simp
  then have r2: "xs \<noteq> [] \<or> ys \<noteq> [] \<Longrightarrow> array_room isz (length xs + length ys)" using room unfolding array_room_def by auto
  obtain c where c: "ARRAY_ADD isz a s = Inr c" using array_add_returns [OF a r1] by blast
  with array_insert_spec [OF array_add_insert [OF a c] a] show "\<exists>c. ARRAY_ADD isz a s = Inr c \<and> array_of isz c (xs @ [s])" by auto
  show "\<exists>c. ARRAY_INSERT isz a i s = Inr c \<and> array_of isz c (take i xs @ s # drop i xs)" if "i \<le> length xs"
    using array_insert_returns [OF a r1 that] array_insert_spec [OF _ a that] by blast
  show "\<exists>c. ARRAY_REMOVE a i = Inr c \<and> array_of isz c (take i xs @ drop (i + 1) xs)" if "i < length xs"
    using array_remove_returns [OF a that] array_remove_spec [OF _ a that] by blast
  show "ARRAY_ITEM a i = Inr (xs ! i)" if "i < length xs"
  proof -
    have "take (length xs) (ar_list a) ! i = Some (xs ! i)" using a that by (simp add: array_of_def)
    then show ?thesis using a that by (simp add: ARRAY_ITEM_def array_of_def)
  qed
  show "if xs = [] \<and> ys = [] then ARRAY_CONCAT isz a b = Inl (MemErr ''division by zero'')
     else \<exists>c. ARRAY_CONCAT isz a b = Inr c \<and> array_of isz c (xs @ ys)"
  proof (cases "xs = [] \<and> ys = []")
    case True
    then show ?thesis using a b by (simp add: ARRAY_CONCAT_def ARRAY_ENSURE_def array_of_def)
  next
    case False
    then obtain c where "ARRAY_CONCAT isz a b = Inr c" using array_concat_returns [OF a b] r2 by blast
    then show ?thesis using False array_concat_spec [OF _ a b] by auto
  qed
  show "array_of isz (ARRAY_TRUNC a n) (take (length xs - n) xs)" by (rule array_trunc_spec [OF a])
  show "\<exists>c. ARRAY_SET a i s = Inr c \<and> array_of isz c (xs[i := s])" if "i < length xs" by (rule array_set_spec [OF a that])
  show "\<exists>c. ARRAY_EXPAND isz a (length ys + 1) = Inr c \<and> ar_num c = length xs + (length ys + 1) \<and> ar_num c \<le> length (ar_list c) \<and>
      array_of isz (c\<lparr>ar_num := length xs\<rparr>) xs"
    using room by (intro array_expand_spec [OF a]) (simp add: add.assoc)
qed (use a in \<open>auto simp: array_of_def ARRAY_CLEAR_def ARRAY_FREE_def ARRAY_INIT_def ARRAY_EMPTY_def\<close>)

lemma array_is_list_witness:
  "\<exists>a b c. ARRAY_ADD 8 ARRAY_INIT (7 :: nat) = Inr a \<and> ARRAY_INSERT 8 a 0 5 = Inr b \<and> array_of 8 b [5, 7] \<and>
     ARRAY_REMOVE b 0 = Inr c \<and> array_of 8 c [7]"
proof -
  have i: "array_of 8 (ARRAY_INIT :: nat array) []" by (simp add: array_of_def ARRAY_INIT_def)
  have r: "array_room 8 n" if "0 < n" "n < 10" for n using that by (simp add: array_room_def UINT_MAX_def SIZE_MAX_def)
  obtain a where a: "ARRAY_ADD 8 ARRAY_INIT (7 :: nat) = Inr a" "array_of 8 a [7]" using array_is_list [OF i i, of 7 0 0] r by auto
  obtain b where b: "ARRAY_INSERT 8 a 0 5 = Inr b" "array_of 8 b [5, 7]" using array_is_list [OF a(2) i, of 5 0 0] r by auto
  obtain c where "ARRAY_REMOVE b 0 = Inr c" "array_of 8 c [7]" using array_is_list [OF b(2) i, of 5 0 0] r by auto
  with a b show ?thesis by blast
qed

end
