(* ===== verification/DeliverFile.thy ===== *)
theory DeliverFile imports MailState File begin

text \<open>
  Delivering into files: \<^verbatim>\<open>deliver-maildir.c\<close>, \<^verbatim>\<open>deliver-mbox.c\<close> and \<^verbatim>\<open>deliver-write.c\<close>, with
  \<open>xdirname\<close> of \<^verbatim>\<open>xmalloc.c\<close>. Messages to the log are left out, and with them the checks of owner and mode
  whose only effect they are.
\<close>

section \<open>Surroundings\<close>

text \<open>
  \<open>dv_group\<close> is the group new files are given (\<open>None\<close> for -1); \<open>dv_write\<close> how many bytes of a write to a path
  reach the disk before it fails (\<open>None\<close>: all of them, and they are synced).
\<close>

record denv =
  dv_sys :: sysenv
  dv_strip :: "char list"
  dv_getpwdir :: "char list \<Rightarrow> char list option"
  dv_no_create :: bool
  dv_group :: "nat option"
  dv_locks :: "lock list"
  dv_host :: "char list"
  dv_pid :: nat
  dv_ctime :: "char list"
  dv_write :: "char list \<Rightarrow> nat option"
  dv_gzip :: "char list \<Rightarrow> char list"

text \<open>The result, the mail with its new tags, and the files.\<close>

type_synonym 'x delivered = "((bool \<times> 'x mail) \<times> fsys) res"

definition action_path :: "denv \<Rightarrow> userdata \<Rightarrow> 'x mail \<Rightarrow> char list \<Rightarrow> char list res" where
  "action_path e ud m rp = (case m_tags m of
     None \<Rightarrow> Inl (MemErr ''tags'')
   | Some tags \<Rightarrow> replacepath (dv_strip e) (dv_getpwdir e) rp tags (Some m) (Some (m_rml m)) (ud_home ud))"

definition tag_mail :: "'x mail \<Rightarrow> char list \<Rightarrow> char list \<Rightarrow> 'x mail res" where
  "tag_mail m key v = (case m_tags m of
     None \<Rightarrow> Inl (MemErr ''tags'')
   | Some tags \<Rightarrow> rbind (add_tag tags key v) (\<lambda>tags. Inr (m\<lparr>m_tags := Some tags\<rparr>)))"

text \<open>A write that appends to a file.\<close>

definition sys_append :: "denv \<Rightarrow> char list \<Rightarrow> char list \<Rightarrow> fsys \<Rightarrow> bool \<times> fsys" where
  "sys_append e path d s = (case nodes s path of
     Some (File t) \<Rightarrow>
       (let k = (case dv_write e path of None \<Rightarrow> length d | Some n \<Rightarrow> n) in
        (dv_write e path = None, s\<lparr>nodes := (nodes s)(path \<mapsto> File (t @ take k d))\<rparr>))
   | _ \<Rightarrow> (False, s))"

text \<open>\<open>xdirname\<close>: \<open>dirname\<close> of a path cut to its buffer.\<close>

definition xdirname :: "char list \<Rightarrow> char list" where
  "xdirname src =
     (let p = take (MAXPATHLEN - 1) src;
          r = dropWhile (\<lambda>c. c = CHR ''/'') (rev p);
          q = dropWhile (\<lambda>c. c \<noteq> CHR ''/'') r;
          d = dropWhile (\<lambda>c. c = CHR ''/'') q
      in if p = [] then ''.'' else if r = [] then ''/'' else if q = [] then ''.'' else if d = [] then ''/'' else rev d)"

section \<open>Maildirs\<close>

definition MAXHOSTNAMELEN :: nat where "MAXHOSTNAMELEN = 64"

definition strlcat :: "char list \<Rightarrow> char list \<Rightarrow> nat \<Rightarrow> char list" where
  "strlcat dst src n = dst @ take (n - 1 - length dst) src"

text \<open>The loop over the parts of the name between slashes and colons. Its last search starts behind the end of the name, and what it
  finds there is not used; it is left out.\<close>

function host_loop :: "char list \<Rightarrow> char list \<Rightarrow> char list" where
  "host_loop host2 host1 =
     (let part = takeWhile (\<lambda>c. c \<noteq> CHR ''/'' \<and> c \<noteq> CHR '':'') host1;
          rest = dropWhile (\<lambda>c. c \<noteq> CHR ''/'' \<and> c \<noteq> CHR '':'') host1;
          host2 = strlcat host2 part MAXHOSTNAMELEN
      in case rest of
           [] \<Rightarrow> host2
         | ch # rest \<Rightarrow>
             host_loop (strlcat host2 (CHR 0x5C # (if ch = CHR ''/'' then ''057'' else ''072'')) MAXHOSTNAMELEN) rest)"
  by pat_completeness auto

lemma host_progress:
  "c # ys = dropWhile P xs \<Longrightarrow> length ys < length xs"
  using length_dropWhile_le [of P xs] by (metis Suc_le_lessD length_Cons)

termination host_loop
  by (relation "measure (\<lambda>(_, h). length h)") (simp_all add: host_progress)

declare host_loop.simps [simp del]

definition deliver_maildir_host :: "char list \<Rightarrow> char list" where
  "deliver_maildir_host host1 = (if CHR ''/'' \<notin> set host1 \<and> CHR '':'' \<notin> set host1 then host1 else host_loop [] host1)"

text \<open>The four directories of a maildir, from the names on.\<close>

fun make_dirs :: "denv \<Rightarrow> char list \<Rightarrow> char list list \<Rightarrow> fsys \<Rightarrow> bool \<times> fsys" where
  "make_dirs e maildir [] s = (True, s)"
| "make_dirs e maildir (n # ns) s = (case ppath MAXPATHLEN (maildir @ n) of
     Inl _ \<Rightarrow> (False, s)
   | Inr path \<Rightarrow> (case xmkdir (dv_sys e) (dv_group e \<noteq> None) path s of
         (Inr _, s) \<Rightarrow> make_dirs e maildir ns s
       | (Inl err, s) \<Rightarrow>
           if err \<noteq> EEXIST then (False, s) else if nodes s path = None then (False, s) else make_dirs e maildir ns s))"

definition deliver_maildir_create :: "denv \<Rightarrow> char list \<Rightarrow> fsys \<Rightarrow> bool \<times> fsys" where
  "deliver_maildir_create e maildir s =
     (if dv_no_create e then (True, s)
      else case xmkpath (dv_sys e) (dv_group e \<noteq> None) (xdirname maildir) s of
        (Inl _, s) \<Rightarrow> (False, s)
      | (Inr _, s) \<Rightarrow> make_dirs e maildir ['''', ''/cur'', ''/new'', ''/tmp''] s)"

definition show_long :: "int \<Rightarrow> char list" where
  "show_long n = (if n < 0 then CHR ''-'' # show_nat (nat (- n)) else show_nat (nat n))"

definition maildir_name :: "denv \<Rightarrow> int \<Rightarrow> nat \<Rightarrow> char list" where
  "maildir_name e t n =
     show_long t @ ''.'' @ show_nat (dv_pid e) @ ''_'' @ show_nat n @ ''.'' @ deliver_maildir_host (dv_host e)"

datatype maildir_try = TryAgain bool | TryFailed | TryDone "char list"

text \<open>
  One name: a file in \<open>tmp\<close>, its contents, and the move to \<open>new\<close>. \<open>TryAgain\<close> for a name that is taken. When the
  write fails the file stays in \<open>tmp\<close>, no longer on the list of files to remove.
\<close>

definition maildir_attempt :: "denv \<Rightarrow> char list \<Rightarrow> char list \<Rightarrow> char list \<Rightarrow> fsys \<Rightarrow> (maildir_try \<times> fsys) res" where
  "maildir_attempt e path name d s = (case ppath MAXPATHLEN (path @ ''/tmp/'' @ name) of
     Inl _ \<Rightarrow> Inr (TryFailed, s)
   | Inr src \<Rightarrow> (case xcreate (dv_sys e) (dv_group e \<noteq> None) src s of
       (Inl err, s) \<Rightarrow> if err = EEXIST then Inr (TryAgain False, s) else Inr (TryFailed, s)
     | (Inr _, s) \<Rightarrow>
         rbind (cleanup_register src s) (\<lambda>s.
         case sys_append e src d s of
           (False, s) \<Rightarrow> rbind (cleanup_deregister src s) (\<lambda>s. Inr (TryFailed, s))
         | (True, s) \<Rightarrow> (case ppath MAXPATHLEN (path @ ''/new/'' @ name) of
             Inl _ \<Rightarrow> rbind (cleanup_deregister src s) (\<lambda>s. Inr (TryFailed, s))
           | Inr dst \<Rightarrow> rbind (safemove (dv_sys e) src dst s) (\<lambda>(r, s).
               rbind (cleanup_deregister src s) (\<lambda>s.
                 Inr (case r of Inr _ \<Rightarrow> TryDone dst | Inl err \<Rightarrow> if err = EEXIST then TryAgain True else TryFailed, s)))))))"

text \<open>
  The loop over the names, with \<open>clock\<close> what \<open>time\<close> gives each time round; \<open>delivered\<close> is static and an
  unsigned int: \<open>n\<close> is its value when the loop starts. The fuel bounds the number of names that are tried.
\<close>

fun maildir_loop :: "nat \<Rightarrow> denv \<Rightarrow> (nat \<Rightarrow> int) \<Rightarrow> char list \<Rightarrow> char list \<Rightarrow> nat \<Rightarrow> fsys \<Rightarrow> (char list option \<times> fsys) res" where
  "maildir_loop 0 e clock path d n s = Inl (Diverges ''deliver_maildir_deliver'')"
| "maildir_loop (Suc k) e clock path d n s =
     rbind (maildir_attempt e path (maildir_name e (clock 0) n) d s) (\<lambda>(r, s). case r of
       TryAgain _ \<Rightarrow> maildir_loop k e (\<lambda>i. clock (Suc i)) path d ((n + 1) mod 2 ^ 32) s
     | TryFailed \<Rightarrow> Inr (None, s)
     | TryDone dst \<Rightarrow> Inr (Some dst, s))"

definition deliver_maildir_deliver ::
    "nat \<Rightarrow> denv \<Rightarrow> (nat \<Rightarrow> int) \<Rightarrow> nat \<Rightarrow> userdata \<Rightarrow> char list \<Rightarrow> 'x mail \<Rightarrow> fsys \<Rightarrow> 'x delivered" where
  "deliver_maildir_deliver k e clock n ud rp m s = rbind (action_path e ud m rp) (\<lambda>path.
     if path = [] then Inr ((False, m), s)
     else case deliver_maildir_create e path s of
       (False, s) \<Rightarrow> Inr ((False, m), s)
     | (True, s) \<Rightarrow> rbind (bytes_at m 0 (msize m)) (\<lambda>d.
         rbind (maildir_loop k e clock path d n s) (\<lambda>(r, s). case r of
           None \<Rightarrow> Inr ((False, m), s)
         | Some dst \<Rightarrow> rbind (tag_mail m ''mail_file'' dst) (\<lambda>m. Inr ((True, m), s)))))"

section \<open>Mboxes\<close>

text \<open>\<open>deliver_mbox_write\<close> gives \<open>False\<close> for a \<open>fwrite\<close> of nothing; the text is what the stream holds.\<close>

definition deliver_mbox_write :: "bool \<Rightarrow> char list \<Rightarrow> char list \<Rightarrow> bool \<times> char list" where
  "deliver_mbox_write gz text' buf = (gz \<or> buf \<noteq> [], text' @ buf)"

definition from_line :: "char list \<Rightarrow> bool" where
  "from_line l \<longleftrightarrow> take 5 (dropWhile (\<lambda>c. c = CHR ''>'') l) = ''From ''"

text \<open>\<open>Inl\<close> of the text when a write fails.\<close>

definition mbox_line :: "'x mail \<Rightarrow> bool \<Rightarrow> char list \<Rightarrow> nat \<Rightarrow> nat \<Rightarrow> (char list + char list) res" where
  "mbox_line m gz text' p len = rbind (bytes_at m p len) (\<lambda>l.
     let text' = (if p \<noteq> 0 \<and> from_line l then text' @ ''>'' else text') in
     case deliver_mbox_write gz text' l of (ok, text') \<Rightarrow> Inr (if ok then Inr text' else Inl text'))"

text \<open>All that is written, and whether each write worked.\<close>

definition mbox_text :: "denv \<Rightarrow> bool \<Rightarrow> userdata \<Rightarrow> 'x mail \<Rightarrow> (bool \<times> char list) res" where
  "mbox_text e gz ud m = rbind (make_from (dv_ctime e) m (ud_name ud)) (\<lambda>from.
     rbind (on_lines m (mbox_line m gz) (from @ [NL])) (\<lambda>r. case r of
       Inl text' \<Rightarrow> Inr (False, text')
     | Inr text' \<Rightarrow>
         if msize m = 0 then Inl (MemErr ''deliver_mbox_deliver'')
         else rbind (bytes_at m (msize m - 1) 1) (\<lambda>c. Inr (True, text' @ (if c = [NL] then [NL] else [NL, NL])))))"

text \<open>
  A lock is asked for until it is had, or an attempt fails for another reason than that it is taken (\<open>EAGAIN\<close>), or the time
  is up (\<open>Inr False\<close>). \<open>others k\<close> is the random number of the k-th sleep and what other processes do to the files
  during it. Each sleep uses up some of the time, so the loop ends.
\<close>

function lock_retry :: "(fsys \<Rightarrow> unit sysres) \<Rightarrow> (nat \<Rightarrow> nat \<times> (fsys \<Rightarrow> fsys)) \<Rightarrow> int \<Rightarrow> fsys \<Rightarrow> bool sysres" where
  "lock_retry attempt others used s = rbind (attempt s) (\<lambda>(r, s). case r of
       Inr _ \<Rightarrow> Inr (Inr True, s)
     | Inl err \<Rightarrow>
         if err \<noteq> EAGAIN then Inr (Inl err, s)
         else (let slept = locksleep (int (fst (others 0))) used in
               if fst slept \<noteq> 0 then Inr (Inr False, s)
               else lock_retry attempt (\<lambda>i. others (Suc i)) (snd slept) (snd (others 0) s)))"
  by pat_completeness auto

lemma locksleep_progress:
  "fst (locksleep (int r) used) = 0 \<Longrightarrow> nat (LOCKTOTALTIME - snd (locksleep (int r) used)) < nat (LOCKTOTALTIME - used)"
proof -
  assume a: "fst (locksleep (int r) used) = 0"
  have "0 \<le> int r mod LOCKSLEEPTIME" by (simp add: LOCKSLEEPTIME_def)
  then show ?thesis using a by (auto simp: locksleep_def Let_def LOCKSLEEPTIME_def split: if_splits)
qed

termination lock_retry
  by (relation "measure (\<lambda>(attempt, others, used, s). nat (LOCKTOTALTIME - used))")
    (simp_all only: in_measure prod.case wf_measure locksleep_progress simp_thms)

declare lock_retry.simps [simp del]

text \<open>The mbox is made if it may be and is not there, and opened otherwise.\<close>

definition mbox_open :: "denv \<Rightarrow> char list \<Rightarrow> fsys \<Rightarrow> unit sysres" where
  "mbox_open e path s =
     rbind (if dv_no_create e then openlock (dv_sys e) (dv_locks e) path s
            else createlock (dv_sys e) (dv_group e \<noteq> None) (dv_locks e) path s) (\<lambda>(r, s).
     if r = Inl EEXIST then openlock (dv_sys e) (dv_locks e) path s else Inr (r, s))"

definition mbox_path :: "char list \<Rightarrow> bool \<Rightarrow> char list" where
  "mbox_path path compress =
     (if compress \<and> (length path < 3 \<or> drop (length path - 3) path \<noteq> ''.gz'') then path @ ''.gz'' else path)"

definition deliver_mbox_deliver ::
    "denv \<Rightarrow> (nat \<Rightarrow> nat \<times> (fsys \<Rightarrow> fsys)) \<Rightarrow> userdata \<Rightarrow> char list \<Rightarrow> bool \<Rightarrow> 'x mail \<Rightarrow> fsys \<Rightarrow> 'x delivered" where
  "deliver_mbox_deliver e others ud rp compress m s = rbind (action_path e ud m rp) (\<lambda>path.
     if path = [] then Inr ((False, m), s)
     else
       (let path = mbox_path path compress in
        rbind (tag_mail m ''mbox_file'' path) (\<lambda>m.
        case (if stat_node s path \<noteq> None then (Inr (), s)
              else if dv_no_create e then (Inl ENOENT, s)
              else xmkpath (dv_sys e) (dv_group e \<noteq> None) (xdirname path) s) of
          (Inl _, s) \<Rightarrow> Inr ((False, m), s)
        | (Inr _, s) \<Rightarrow> rbind (lock_retry (mbox_open e path) others 0 s) (\<lambda>(r, s).
            if r \<noteq> Inr True then Inr ((False, m), s)
            else rbind (mbox_text e compress ud m) (\<lambda>(ok, text').
              case sys_append e path (if compress then dv_gzip e text' else text') s of (synced, s) \<Rightarrow>
                rbind (closelock (dv_locks e) path s) (\<lambda>s. Inr ((ok \<and> synced, m), s)))))))"

section \<open>Plain files\<close>

text \<open>A file that is opened for writing is emptied; one that is not there is made.\<close>

definition sys_fopen :: "denv \<Rightarrow> bool \<Rightarrow> char list \<Rightarrow> fsys \<Rightarrow> fsys option" where
  "sys_fopen e append' path s = (case nodes s path of
     Some Dir \<Rightarrow> None
   | Some (File t) \<Rightarrow> if sy_open (dv_sys e) path \<noteq> None then None
       else Some (s\<lparr>nodes := (nodes s)(path \<mapsto> File (if append' then t else []))\<rparr>)
   | None \<Rightarrow> if sy_create (dv_sys e) path \<noteq> None then None else Some (s\<lparr>nodes := (nodes s)(path \<mapsto> File [])\<rparr>))"

definition deliver_write_deliver :: "denv \<Rightarrow> userdata \<Rightarrow> char list \<Rightarrow> bool \<Rightarrow> 'x mail \<Rightarrow> fsys \<Rightarrow> 'x delivered" where
  "deliver_write_deliver e ud rp append' m s = rbind (action_path e ud m rp) (\<lambda>path.
     if path = [] then Inr ((False, m), s)
     else case sys_fopen e append' path s of
       None \<Rightarrow> Inr ((False, m), s)
     | Some s \<Rightarrow> rbind (bytes_at m 0 (msize m)) (\<lambda>d.
         if d = [] then Inr ((False, m), s)
         else case sys_append e path d s of (ok, s) \<Rightarrow> Inr ((ok, m), s)))"

section \<open>A maildir delivery\<close>

lemma deregister_registered:
  assumes "src \<noteq> []"
  shows "cleanup_deregister src (s\<lparr>clean := src # c\<rparr>) = Inr (s\<lparr>clean := c\<rparr>)"
  using assms by (simp add: cleanup_deregister_def)

text \<open>Only a name that is there gives \<open>EEXIST\<close>.\<close>

definition honest_env :: "sysenv \<Rightarrow> bool" where
  "honest_env e \<longleftrightarrow> (\<forall>p. sy_create e p \<noteq> Some EEXIST \<and> sy_chown e p \<noteq> Some EEXIST)"

definition name_taken :: "char list \<Rightarrow> char list \<Rightarrow> fsys \<Rightarrow> bool" where
  "name_taken path name s \<longleftrightarrow> nodes s (path @ ''/tmp/'' @ name) \<noteq> None \<or> nodes s (path @ ''/new/'' @ name) \<noteq> None"

lemma safemove_new_file:
  assumes "nodes s src = Some (File t)" "src \<noteq> dst"
  obtains (moved) s' where "safemove e src dst s = Inr (Inr (), s')" "nodes s dst = None" "clean s' = clean s"
      "nodes s' = (nodes s)(src := None, dst \<mapsto> File t)"
    | (failed) err s' where "safemove e src dst s = Inr (Inl err, s')" "clean s' = clean s" "nodes s' = (nodes s)(src := None)"
        "err = EEXIST \<Longrightarrow> nodes s dst \<noteq> None \<or> sy_create e dst = Some EEXIST"
        "nodes s dst \<noteq> None \<Longrightarrow> err = EEXIST"
proof (cases "nodes s dst")
  case (Some n)
  then show ?thesis using assms
    by (intro failed [of EEXIST "s\<lparr>nodes := (nodes s)(src := None)\<rparr>"]) (auto simp: safemove_def sys_link_def sys_unlink_def)
next
  case None
  show ?thesis
  proof (cases "sy_create e dst")
    case (Some err)
    then show ?thesis using assms None
      by (intro failed [of err "s\<lparr>nodes := (nodes s)(src := None)\<rparr>"]) (auto simp: safemove_def sys_link_def sys_unlink_def sys_rename_def split: if_splits)
  next
    case c: None
    then show ?thesis using assms None
      by (intro moved [of "s\<lparr>nodes := (nodes s)(src := None, dst \<mapsto> File t)\<rparr>"]) (auto simp: safemove_def sys_link_def sys_unlink_def sys_rename_def fun_upd_twist split: if_splits)
  qed
qed

lemma xcreate_result:
  obtains (there) "xcreate e owned path s = (Inl EEXIST, s)" "nodes s path \<noteq> None"
    | (failed) err s' where "xcreate e owned path s = (Inl err, s')" "nodes s path = None" "clean s' = clean s"
        "\<And>p. p \<noteq> path \<Longrightarrow> nodes s' p = nodes s p" "\<And>p y. nodes s p = Some y \<Longrightarrow> nodes s' p = Some y" "err = EEXIST \<Longrightarrow> \<not> honest_env e"
    | (created) "xcreate e owned path s = (Inr (), s\<lparr>nodes := (nodes s)(path \<mapsto> File [])\<rparr>)" "nodes s path = None"
proof (cases "nodes s path")
  case None
  show ?thesis
  proof (cases "sy_create e path")
    case (Some err)
    then show ?thesis using None by (intro failed [of err s]) (auto simp: xcreate_def honest_env_def)
  next
    case c: None
    show ?thesis
    proof (cases "if owned then sy_chown e path else None")
      case (Some err)
      then show ?thesis using None c
        by (intro failed [of err "s\<lparr>nodes := (nodes s)(path \<mapsto> File [])\<rparr>"]) (auto simp: xcreate_def honest_env_def split: if_splits)
    next
      case o: None
      then show ?thesis using None c by (intro created) (simp_all add: xcreate_def del: if_split)
    qed
  qed
next
  case (Some n)
  then show ?thesis by (intro there) (simp_all add: xcreate_def)
qed

lemma attempt_result:
  obtains (again) b where "maildir_attempt e path name d s = Inr (TryAgain b, s)"
      "honest_env (dv_sys e) \<Longrightarrow> name_taken path name s"
    | (failed) s' where "maildir_attempt e path name d s = Inr (TryFailed, s')" "clean s' = clean s"
      "\<And>p. p \<noteq> path @ ''/tmp/'' @ name \<Longrightarrow> nodes s' p = nodes s p" "\<And>p y. nodes s p = Some y \<Longrightarrow> nodes s' p = Some y"
    | (finished) s' where "maildir_attempt e path name d s = Inr (TryDone (path @ ''/new/'' @ name), s')" "clean s' = clean s"
      "nodes s (path @ ''/new/'' @ name) = None" "nodes s' = (nodes s)(path @ ''/new/'' @ name \<mapsto> File d)"
    | (odd) b s' where "maildir_attempt e path name d s = Inr (TryAgain b, s')" "\<not> honest_env (dv_sys e)" "clean s' = clean s"
      "\<And>p. p \<noteq> path @ ''/tmp/'' @ name \<Longrightarrow> nodes s' p = nodes s p" "\<And>p y. nodes s p = Some y \<Longrightarrow> nodes s' p = Some y"
proof -
  let ?src = "path @ ''/tmp/'' @ name" and ?dst = "path @ ''/new/'' @ name"
  have ne: "?src \<noteq> ?dst" by simp
  show ?thesis
  proof (cases "length ?src < MAXPATHLEN")
    case False
    then show ?thesis by (intro failed [of s]) (simp_all add: maildir_attempt_def ppath_def)
  next
    case len: True
    show ?thesis
    proof (cases rule: xcreate_result [of "dv_sys e" "dv_group e \<noteq> None" ?src s])
      case there
      then show ?thesis using len by (intro again [of False]) (simp_all add: maildir_attempt_def ppath_def name_taken_def)
    next
      case c: (failed err s')
      show ?thesis
      proof (cases "err = EEXIST")
        case True
        then show ?thesis using c len by (intro odd [of False s']) (auto simp: maildir_attempt_def ppath_def)
      next
        case False
        then show ?thesis using c len by (intro failed [of s']) (auto simp: maildir_attempt_def ppath_def)
      qed
    next
      case c: created
      show ?thesis
    proof (cases "dv_write e ?src")
      case (Some n)
      then show ?thesis using len c
        by (intro failed [of "s\<lparr>nodes := (nodes s)(?src \<mapsto> File (take n d))\<rparr>"])
          (auto simp: maildir_attempt_def ppath_def xcreate_def cleanup_register_def cleanup_deregister_def sys_append_def)
    next
      case None
      let ?s2 = "s\<lparr>clean := ?src # clean s, nodes := (nodes s)(?src \<mapsto> File d)\<rparr>"
      have step: "maildir_attempt e path name d s = rbind (safemove (dv_sys e) ?src ?dst ?s2) (\<lambda>(r, s).
          rbind (cleanup_deregister ?src s) (\<lambda>s.
            Inr (case r of Inr _ \<Rightarrow> TryDone ?dst | Inl err \<Rightarrow> if err = EEXIST then TryAgain True else TryFailed, s)))"
        using len c None by (simp add: maildir_attempt_def ppath_def cleanup_register_def sys_append_def del: append_Cons)
      have "nodes ?s2 ?src = Some (File d)" by simp
      from this ne show ?thesis
      proof (cases rule: safemove_new_file [of ?s2 ?src d ?dst "dv_sys e"])
        case (moved s')
        have "nodes s' = (nodes s)(?dst \<mapsto> File d)" using moved c by (simp add: fun_upd_idem)
        then show ?thesis using moved step by (intro finished [of "s'\<lparr>clean := clean s\<rparr>"]) (simp_all add: cleanup_deregister_def)
      next
        case (failed err s')
        have undone: "nodes s' = nodes s" using failed c by (simp add: fun_upd_idem)
        then have same: "s'\<lparr>clean := clean s\<rparr> = s" by simp
        then show ?thesis
        proof (cases "err = EEXIST")
          case True
          then show ?thesis using failed step same
            by (cases "honest_env (dv_sys e)")
              (auto simp: cleanup_deregister_def honest_env_def name_taken_def intro: again that(4))
        next
          case False
          then show ?thesis using failed step same by (intro that(2) [of s]) (auto simp: cleanup_deregister_def)
        qed
      qed
    qed
    qed
  qed
qed

section \<open>Names\<close>

lemma strlcat_all: "\<forall>c \<in> set dst. P c \<Longrightarrow> \<forall>c \<in> set src. P c \<Longrightarrow> \<forall>c \<in> set (strlcat dst src n). P c"
  by (auto simp: strlcat_def dest: in_set_takeD)

lemma takeWhile_set: "\<forall>c \<in> set (takeWhile P xs). P c"
  by (auto dest: set_takeWhileD)

lemma host_loop_plain:
  "\<forall>c \<in> set host2. c \<noteq> CHR ''/'' \<and> c \<noteq> CHR '':'' \<Longrightarrow> \<forall>c \<in> set (host_loop host2 host1). c \<noteq> CHR ''/'' \<and> c \<noteq> CHR '':''"
proof (induction host2 host1 rule: host_loop.induct)
  case (1 host2 host1)
  let ?P = "\<lambda>c. c \<noteq> CHR ''/'' \<and> c \<noteq> CHR '':''"
  have a: "\<forall>c \<in> set (strlcat host2 (takeWhile ?P host1) MAXHOSTNAMELEN). ?P c"
    by (rule strlcat_all [OF "1.prems" takeWhile_set])
  show ?case
  proof (cases "dropWhile ?P host1")
    case Nil
    show ?thesis unfolding host_loop.simps [of host2 host1] Let_def Nil list.case by (rule a)
  next
    case (Cons ch rest)
    let ?s = "CHR 0x5C # (if ch = CHR ''/'' then ''057'' else ''072'')"
    let ?h = "strlcat (strlcat host2 (takeWhile ?P host1) MAXHOSTNAMELEN) ?s MAXHOSTNAMELEN"
    have "\<forall>c \<in> set ?s. ?P c" by simp
    then have "\<forall>c \<in> set ?h. ?P c" by (rule strlcat_all [OF a])
    then have "\<forall>c \<in> set (host_loop ?h rest). ?P c" by (rule "1.IH" [OF refl refl refl Cons])
    then show ?thesis unfolding host_loop.simps [of host2 host1] Let_def Cons list.case .
  qed
qed

lemma host_plain: "CHR ''/'' \<notin> set (deliver_maildir_host h) \<and> CHR '':'' \<notin> set (deliver_maildir_host h)"
  using host_loop_plain [of "[]" h] by (auto simp: deliver_maildir_host_def)

lemma show_nat_plain: "\<not> isdigit c \<Longrightarrow> c \<notin> set (show_nat n)"
  using show_nat_digits by blast

lemma not_digits: "\<not> isdigit (CHR ''/'')" "\<not> isdigit (CHR ''_'')" "\<not> isdigit (CHR ''.'')"
  by (simp_all add: isdigit_def code_def)

lemma show_long_plain: "CHR ''/'' \<notin> set (show_long n)" "CHR ''_'' \<notin> set (show_long n)"
  by (simp_all add: show_long_def show_nat_plain not_digits)

lemma maildir_name_plain: "CHR ''/'' \<notin> set (maildir_name e t n)"
  by (simp add: maildir_name_def show_nat_plain not_digits show_long_plain host_plain)

text \<open>The number of a name can be read back.\<close>

definition name_number :: "char list \<Rightarrow> nat" where
  "name_number name = digits_value (takeWhile isdigit (tl (dropWhile (\<lambda>c. c \<noteq> CHR ''_'') name)))"

lemma name_number_name: "name_number (maildir_name e t n) = n"
proof -
  let ?l = "show_long t @ ''.'' @ show_nat (dv_pid e)"
  have "\<forall>c \<in> set ?l. c \<noteq> CHR ''_''" using show_long_plain(2) [of t] show_nat_plain [OF not_digits(2), of "dv_pid e"] by auto
  then have "dropWhile (\<lambda>c. c \<noteq> CHR ''_'') (?l @ CHR ''_'' # show_nat n @ ''.'' @ deliver_maildir_host (dv_host e)) =
      CHR ''_'' # show_nat n @ ''.'' @ deliver_maildir_host (dv_host e)"
    by (subst dropWhile_append2) auto
  moreover have "takeWhile isdigit (show_nat n @ ''.'' @ deliver_maildir_host (dv_host e)) = show_nat n"
    using show_nat_digits [of n] by (subst takeWhile_append2) (auto simp: not_digits)
  ultimately show ?thesis by (simp add: name_number_def maildir_name_def digits_value_show_nat)
qed

section \<open>Where the mail ends up\<close>

lemma loop_safe:
  assumes "maildir_loop k e clock path d n s = Inr (r, s')"
  shows "clean s' = clean s \<and> (\<forall>p t. nodes s p = Some t \<longrightarrow> nodes s' p = Some t) \<and>
    (honest_env (dv_sys e) \<longrightarrow> (\<exists>t i. case r of
        None \<Rightarrow> \<forall>p. p \<noteq> path @ ''/tmp/'' @ maildir_name e t i \<longrightarrow> nodes s' p = nodes s p
      | Some dst \<Rightarrow> dst = path @ ''/new/'' @ maildir_name e t i \<and> nodes s dst = None \<and> nodes s' = (nodes s)(dst \<mapsto> File d)))"
  using assms
proof (induction k arbitrary: clock n s)
  case (Suc k)
  let ?name = "maildir_name e (clock 0) n"
  show ?case
  proof (cases rule: attempt_result [of e path ?name d s])
    case (again b)
    then show ?thesis using Suc by simp
  next
    case (failed s1)
    then show ?thesis using Suc.prems by auto
  next
    case (finished s1)
    then have "r = Some (path @ ''/new/'' @ ?name)" "s' = s1" using Suc.prems by simp_all
    then show ?thesis using finished by (intro conjI impI exI [of _ "clock 0"] exI [of _ n]) (simp_all del: append_Cons)
  next
    case (odd b s1)
    then have "maildir_loop k e (\<lambda>i. clock (Suc i)) path d ((n + 1) mod 2 ^ 32) s1 = Inr (r, s')" using Suc.prems by simp
    from Suc.IH [OF this] have "clean s' = clean s1" "\<And>p t. nodes s1 p = Some t \<Longrightarrow> nodes s' p = Some t" by simp_all
    then show ?thesis using odd by simp
  qed
qed simp

text \<open>
  C7: a delivery to a maildir never changes a file that was there. When it succeeds the mail, byte by byte, is in a new
  file of \<open>new\<close>, whose name has no slash, and nothing else has changed; when it fails, at most one file of \<open>tmp\<close> has come up.
  The list of files to remove is as before.
\<close>

theorem maildir_safe:
  assumes m: "mail_ok m" and p: "action_path e ud m rp = Inr path" "path \<noteq> []"
    and c: "deliver_maildir_create e path s = (True, s1)" and h: "honest_env (dv_sys e)"
    and r: "deliver_maildir_deliver k e clock n ud rp m s = Inr ((ok, m'), s')"
  shows "clean s' = clean s1 \<and> (\<forall>q t. nodes s1 q = Some t \<longrightarrow> nodes s' q = Some t) \<and>
    (\<exists>name. CHR ''/'' \<notin> set name \<and>
      (if ok then nodes s1 (path @ ''/new/'' @ name) = None \<and> nodes s' = (nodes s1)(path @ ''/new/'' @ name \<mapsto> File (content m))
       else \<forall>q. q \<noteq> path @ ''/tmp/'' @ name \<longrightarrow> nodes s' q = nodes s1 q))"
proof -
  have d: "bytes_at m 0 (msize m) = Inr (content m)" using m by (simp add: bytes_at_ok)
  obtain q where l: "maildir_loop k e clock path (content m) n s1 = Inr (q, s')" and ok: "ok \<longleftrightarrow> q \<noteq> None"
    using r p c d by (auto simp: deliver_maildir_deliver_def rbind_Inr_iff split: option.splits)
  note f = loop_safe [OF l]
  obtain t i where t: "case q of None \<Rightarrow> \<forall>p. p \<noteq> path @ ''/tmp/'' @ maildir_name e t i \<longrightarrow> nodes s' p = nodes s1 p
      | Some dst \<Rightarrow> dst = path @ ''/new/'' @ maildir_name e t i \<and> nodes s1 dst = None \<and> nodes s' = (nodes s1)(dst \<mapsto> File (content m))"
    using f h by blast
  have "if ok then nodes s1 (path @ ''/new/'' @ maildir_name e t i) = None \<and>
        nodes s' = (nodes s1)(path @ ''/new/'' @ maildir_name e t i \<mapsto> File (content m))
      else \<forall>q. q \<noteq> path @ ''/tmp/'' @ maildir_name e t i \<longrightarrow> nodes s' q = nodes s1 q"
    using t ok by (cases q) (simp_all del: append_Cons)
  then show ?thesis using f maildir_name_plain by blast
qed

section \<open>A free name is found\<close>

lemma loop_progress:
  assumes "honest_env (dv_sys e)" "n < 2 ^ 32"
  shows "(\<exists>r. maildir_loop k e clock path d n s = Inr r) \<or>
    (\<forall>i < k. name_taken path (maildir_name e (clock i) ((n + i) mod 2 ^ 32)) s)"
  using assms(2)
proof (induction k arbitrary: clock n)
  case (Suc k)
  let ?name = "maildir_name e (clock 0) n"
  show ?case
  proof (cases rule: attempt_result [of e path ?name d s])
    case (again b)
    have n: "(n + 1) mod 2 ^ 32 < 2 ^ 32" by simp
    have step: "maildir_loop (Suc k) e clock path d n s = maildir_loop k e (\<lambda>i. clock (Suc i)) path d ((n + 1) mod 2 ^ 32) s"
      using again(1) by simp
    have first: "name_taken path ?name s" using again(2) assms(1) .
    have shift: "((n + 1) mod 2 ^ 32 + i) mod 2 ^ 32 = (n + Suc i) mod 2 ^ 32" for i by (simp add: mod_add_left_eq)
    from Suc.IH [OF n, of "\<lambda>i. clock (Suc i)"] show ?thesis
    proof
      assume taken: "\<forall>i < k. name_taken path (maildir_name e (clock (Suc i)) (((n + 1) mod 2 ^ 32 + i) mod 2 ^ 32)) s"
      have "name_taken path (maildir_name e (clock i) ((n + i) mod 2 ^ 32)) s" if "i < Suc k" for i
        using that first taken Suc.prems shift by (cases i) auto
      then show ?thesis by blast
    qed (use step in simp)
  next
    case (odd b s1)
    then show ?thesis using assms(1) by simp
  qed auto
qed simp

lemma mod_shift_inj: "(n + i) mod M = (n + j) mod M \<Longrightarrow> i < M \<Longrightarrow> j < M \<Longrightarrow> i = (j :: nat)"
proof -
  assume eq: "(n + i) mod M = (n + j) mod M" and less: "i < M" "j < M"
  from eq obtain q1 q2 where "n + i + M * q1 = n + j + M * q2" unfolding nat_mod_eq_iff by blast
  then have "(i + M * q1) mod M = (j + M * q2) mod M" by simp
  with less show ?thesis by simp
qed

text \<open>The name of each attempt, and a system that refuses nothing for the names that are tried.\<close>

definition nth_name :: "denv \<Rightarrow> (nat \<Rightarrow> int) \<Rightarrow> nat \<Rightarrow> nat \<Rightarrow> char list" where
  "nth_name e clock n i = maildir_name e (clock i) ((n + i) mod 2 ^ 32)"

definition willing :: "denv \<Rightarrow> char list \<Rightarrow> char list \<Rightarrow> bool" where
  "willing e path name \<longleftrightarrow> length (path @ ''/tmp/'' @ name) < MAXPATHLEN \<and> dv_write e (path @ ''/tmp/'' @ name) = None \<and>
     (\<forall>p. sy_create (dv_sys e) p = None \<and> sy_chown (dv_sys e) p = None)"

lemma attempt_willing:
  assumes "willing e path name"
  shows "if name_taken path name s then \<exists>b. maildir_attempt e path name d s = Inr (TryAgain b, s)
    else \<exists>s'. maildir_attempt e path name d s = Inr (TryDone (path @ ''/new/'' @ name), s') \<and>
      nodes s' = (nodes s)(path @ ''/new/'' @ name \<mapsto> File d)"
proof -
  let ?src = "path @ ''/tmp/'' @ name" and ?dst = "path @ ''/new/'' @ name"
  have w: "length ?src < MAXPATHLEN" "length ?dst < MAXPATHLEN" "dv_write e ?src = None" "\<And>p. sy_create (dv_sys e) p = None" "\<And>p. sy_chown (dv_sys e) p = None"
    using assms by (simp_all add: willing_def)
  have ne: "?src \<noteq> ?dst" by simp
  show ?thesis
  proof (cases "nodes s ?src")
    case (Some x)
    then show ?thesis using w(1) by (auto simp: name_taken_def maildir_attempt_def ppath_def xcreate_def)
  next
    case None
    have c: "xcreate (dv_sys e) (dv_group e \<noteq> None) ?src s = (Inr (), s\<lparr>nodes := (nodes s)(?src \<mapsto> File [])\<rparr>)"
      using None w(4,5) by (simp add: xcreate_def)
    let ?s = "s\<lparr>clean := ?src # clean s, nodes := (nodes s)(?src \<mapsto> File d)\<rparr>"
    have step: "maildir_attempt e path name d s = rbind (safemove (dv_sys e) ?src ?dst ?s) (\<lambda>(r, s).
        rbind (cleanup_deregister ?src s) (\<lambda>s.
          Inr (case r of Inr _ \<Rightarrow> TryDone ?dst | Inl err \<Rightarrow> if err = EEXIST then TryAgain True else TryFailed, s)))"
      using w(1-3) c by (simp add: maildir_attempt_def ppath_def cleanup_register_def sys_append_def del: append_Cons)
    show ?thesis
    proof (cases "nodes s ?dst")
      case n: None
      have "\<exists>s'. safemove (dv_sys e) ?src ?dst ?s = Inr (Inr (), s') \<and> nodes s' = (nodes s)(?dst \<mapsto> File d) \<and> clean s' = ?src # clean s"
        using ne n None w(4) by (auto simp: safemove_def sys_link_def sys_rename_def sys_unlink_def fun_upd_twist fun_upd_idem)
      then show ?thesis using step n None by (auto simp: name_taken_def cleanup_deregister_def)
    next
      case (Some x)
      have "safemove (dv_sys e) ?src ?dst ?s = Inr (Inl EEXIST, s\<lparr>clean := ?src # clean s\<rparr>)"
        using ne Some None by (simp add: safemove_def sys_link_def sys_unlink_def fun_upd_idem)
      then have "maildir_attempt e path name d s = Inr (TryAgain True, s)" using step by (simp add: cleanup_deregister_def)
      moreover have "name_taken path name s" using Some by (simp add: name_taken_def)
      ultimately show ?thesis by (simp only: if_True) blast
    qed
  qed
qed

lemma attempt_taken: "willing e path name \<Longrightarrow> name_taken path name s \<Longrightarrow> \<exists>b. maildir_attempt e path name d s = Inr (TryAgain b, s)"
  using attempt_willing [of e path name s d] by (simp only: if_True)

lemma attempt_free:
  assumes "willing e path name" "\<not> name_taken path name s"
  obtains s' where "maildir_attempt e path name d s = Inr (TryDone (path @ ''/new/'' @ name), s')"
    "nodes s' = (nodes s)(path @ ''/new/'' @ name \<mapsto> File d)"
  using attempt_willing [OF assms(1), of s d] assms(2) that by (simp only: if_False) blast

lemma nth_name_Suc: "nth_name e (\<lambda>i. clock (Suc i)) ((n + 1) mod 2 ^ 32) i = nth_name e clock n (Suc i)"
  by (simp add: nth_name_def mod_add_left_eq)

lemma loop_first_free:
  assumes "i < k" "\<forall>j < i. name_taken path (nth_name e clock n j) s" "\<not> name_taken path (nth_name e clock n i) s"
    and "\<forall>j \<le> i. willing e path (nth_name e clock n j)" "n < 2 ^ 32"
  shows "\<exists>s'. maildir_loop k e clock path d n s = Inr (Some (path @ ''/new/'' @ nth_name e clock n i), s') \<and>
    nodes s' = (nodes s)(path @ ''/new/'' @ nth_name e clock n i \<mapsto> File d)"
  using assms
proof (induction k arbitrary: i clock n)
  case (Suc k)
  have first: "nth_name e clock n 0 = maildir_name e (clock 0) n" using Suc.prems(5) by (simp add: nth_name_def)
  show ?case
  proof (cases i)
    case 0
    let ?dst = "path @ ''/new/'' @ nth_name e clock n 0"
    have "willing e path (nth_name e clock n 0)" "\<not> name_taken path (nth_name e clock n 0) s" using Suc.prems(3,4) 0 by simp_all
    then obtain s' where "maildir_attempt e path (nth_name e clock n 0) d s = Inr (TryDone ?dst, s')" "nodes s' = (nodes s)(?dst \<mapsto> File d)"
      by (rule attempt_free [where d = d])
    then show ?thesis unfolding 0 by (intro exI [of _ s']) (simp add: first [symmetric] del: append_Cons)
  next
    case (Suc i')
    then obtain b where b: "maildir_attempt e path (maildir_name e (clock 0) n) d s = Inr (TryAgain b, s)"
      using attempt_taken [of e path "nth_name e clock n 0" s d] Suc.prems(2,4) by (auto simp: first [symmetric])
    have "i' < k" "\<forall>j < i'. name_taken path (nth_name e (\<lambda>i. clock (Suc i)) ((n + 1) mod 2 ^ 32) j) s"
      "\<not> name_taken path (nth_name e (\<lambda>i. clock (Suc i)) ((n + 1) mod 2 ^ 32) i') s"
      "\<forall>j \<le> i'. willing e path (nth_name e (\<lambda>i. clock (Suc i)) ((n + 1) mod 2 ^ 32) j)" "(n + 1) mod 2 ^ 32 < (2 :: nat) ^ 32"
      using Suc.prems Suc unfolding nth_name_Suc by auto
    from Suc.IH [OF this] show ?thesis using b Suc unfolding nth_name_Suc by (simp del: append_Cons)
  qed
qed simp

lemma some_name_free:
  assumes fin: "finite (dom (nodes s))" and k: "card (dom (nodes s)) < k" "k \<le> 2 ^ 32"
  shows "\<exists>i < k. \<not> name_taken path (nth_name e clock n i) s"
proof (rule ccontr)
  assume "\<not> ?thesis"
  then have taken: "\<forall>i < k. name_taken path (nth_name e clock n i) s" by blast
  let ?f = "\<lambda>i. if nodes s (path @ ''/tmp/'' @ nth_name e clock n i) \<noteq> None then path @ ''/tmp/'' @ nth_name e clock n i else path @ ''/new/'' @ nth_name e clock n i"
  have number: "name_number (drop (length path + 5) (?f i)) = (n + i) mod 2 ^ 32" for i
    by (simp add: nth_name_def name_number_name)
  have "inj_on ?f {..<k}"
  proof (rule inj_onI)
    fix i j assume ij: "i \<in> {..<k}" "j \<in> {..<k}" "?f i = ?f j"
    then have "(n + i) mod 2 ^ 32 = (n + j) mod 2 ^ 32" using number [of i] number [of j] by simp
    then show "i = j" by (rule mod_shift_inj) (use ij k in auto)
  qed
  moreover have "?f ` {..<k} \<subseteq> dom (nodes s)" using taken by (auto simp: name_taken_def simp del: append_Cons)
  ultimately have "card {..<k} \<le> card (dom (nodes s))" using fin by (rule card_inj_on_le)
  with k show False by simp
qed

text \<open>
  C24: a maildir delivery ends. Fewer than 2^32 names are tried and with each a number is used that none of the others
  has, so with as many attempts as there are files, and one more, the loop returns, whatever the clock gives. When the system
  refuses nothing the mail is then in \<open>new\<close> under the first of the names that was free in \<open>tmp\<close> and in \<open>new\<close>, and nothing
  else has changed.
\<close>

theorem maildir_returns:
  assumes h: "honest_env (dv_sys e)" and fin: "finite (dom (nodes s))" and k: "card (dom (nodes s)) < k" "k \<le> 2 ^ 32" and n: "n < 2 ^ 32"
  shows "(\<exists>r. maildir_loop k e clock path d n s = Inr r) \<and>
    ((\<forall>i < k. willing e path (nth_name e clock n i)) \<longrightarrow>
      (\<exists>i < k. (\<forall>j < i. name_taken path (nth_name e clock n j) s) \<and> \<not> name_taken path (nth_name e clock n i) s \<and>
        (\<exists>s'. maildir_loop k e clock path d n s = Inr (Some (path @ ''/new/'' @ nth_name e clock n i), s') \<and>
          nodes s' = (nodes s)(path @ ''/new/'' @ nth_name e clock n i \<mapsto> File d))))"
proof (intro conjI impI)
  obtain i where i: "i < k" "\<not> name_taken path (nth_name e clock n i) s" using some_name_free [OF fin k] by blast
  then show "\<exists>r. maildir_loop k e clock path d n s = Inr r"
    using loop_progress [OF h n, of k clock path d s] unfolding nth_name_def by blast
  assume w: "\<forall>i < k. willing e path (nth_name e clock n i)"
  let ?i = "LEAST i. \<not> name_taken path (nth_name e clock n i) s"
  have least: "\<not> name_taken path (nth_name e clock n ?i) s" "?i \<le> i" "\<forall>j < ?i. name_taken path (nth_name e clock n j) s"
    using LeastI [of "\<lambda>i. \<not> name_taken path (nth_name e clock n i) s" i] Least_le [of "\<lambda>i. \<not> name_taken path (nth_name e clock n i) s" i]
      i(2) not_less_Least [where P = "\<lambda>i. \<not> name_taken path (nth_name e clock n i) s"] by blast+
  have lt: "?i < k" using least(2) i(1) by simp
  then have lw: "\<forall>j \<le> ?i. willing e path (nth_name e clock n j)" using w by simp
  show "\<exists>i < k. (\<forall>j < i. name_taken path (nth_name e clock n j) s) \<and> \<not> name_taken path (nth_name e clock n i) s \<and>
        (\<exists>s'. maildir_loop k e clock path d n s = Inr (Some (path @ ''/new/'' @ nth_name e clock n i), s') \<and>
          nodes s' = (nodes s)(path @ ''/new/'' @ nth_name e clock n i \<mapsto> File d))"
  proof (rule exI [of _ ?i], intro conjI)
    show "\<exists>s'. maildir_loop k e clock path d n s = Inr (Some (path @ ''/new/'' @ nth_name e clock n ?i), s') \<and>
        nodes s' = (nodes s)(path @ ''/new/'' @ nth_name e clock n ?i \<mapsto> File d)"
      by (rule loop_first_free [OF lt least(3,1) lw n])
  qed (fact lt least)+
qed

definition sample_denv :: denv where
  "sample_denv = \<lparr>dv_sys = quiet_env, dv_strip = [], dv_getpwdir = (\<lambda>_. None), dv_no_create = True, dv_group = None,
     dv_locks = [LOCK_DOTLOCK], dv_host = ''a/b'', dv_pid = 7, dv_ctime = ''Thu Jan  1 00:00:00 1970'', dv_write = (\<lambda>_. None),
     dv_gzip = (\<lambda>t. t)\<rparr>"

lemma sample_denv_honest: "honest_env (dv_sys sample_denv)"
  by (simp add: honest_env_def sample_denv_def quiet_env_def)

lemma maildir_returns_witness:
  "\<exists>s'. maildir_loop 3 sample_denv (\<lambda>_. 5) ''box'' ''mail'' 0
     \<lparr>nodes = [''box/tmp/'' @ nth_name sample_denv (\<lambda>_. 5) 0 0 \<mapsto> File [], ''box/new/'' @ nth_name sample_denv (\<lambda>_. 5) 0 1 \<mapsto> File []], clean = []\<rparr> =
     Inr (Some (''box/new/'' @ nth_name sample_denv (\<lambda>_. 5) 0 2), s')"
proof -
  let ?name = "nth_name sample_denv (\<lambda>_. 5) 0"
  let ?s = "\<lparr>nodes = [''box/tmp/'' @ ?name 0 \<mapsto> File [], ''box/new/'' @ ?name 1 \<mapsto> File []], clean = []\<rparr>"
  have names: "?name 0 = ''5.7_0.a'' @ CHR 0x5C # ''057b''" "?name 1 = ''5.7_1.a'' @ CHR 0x5C # ''057b''" "?name 2 = ''5.7_2.a'' @ CHR 0x5C # ''057b''"
  proof -
    have "maildir_name sample_denv 5 0 = ''5.7_0.a'' @ CHR 0x5C # ''057b''" "maildir_name sample_denv 5 1 = ''5.7_1.a'' @ CHR 0x5C # ''057b''"
      "maildir_name sample_denv 5 2 = ''5.7_2.a'' @ CHR 0x5C # ''057b''" by code_simp+
    then show "?name 0 = ''5.7_0.a'' @ CHR 0x5C # ''057b''" "?name 1 = ''5.7_1.a'' @ CHR 0x5C # ''057b''" "?name 2 = ''5.7_2.a'' @ CHR 0x5C # ''057b''"
      by (simp_all add: nth_name_def flip: numeral_2_eq_2)
  qed
  have upto: "(\<forall>i < (3 :: nat). P i) \<longleftrightarrow> P 0 \<and> P 1 \<and> P 2" for P
    by (auto simp: less_Suc_eq numeral_eq_Suc)
  have w: "\<forall>i < 3. willing sample_denv ''box'' (?name i)"
    unfolding upto names by (simp add: willing_def sample_denv_def quiet_env_def MAXPATHLEN_def)
  have t: "name_taken ''box'' (?name 0) ?s" "name_taken ''box'' (?name 1) ?s" by (simp_all add: name_taken_def)
  have fin: "finite (dom (nodes ?s))" "card (dom (nodes ?s)) < 3" "(3 :: nat) \<le> 2 ^ 32" "(0 :: nat) < 2 ^ 32" by (simp_all add: names)
  note r = maildir_returns [OF sample_denv_honest fin, of "\<lambda>_. 5" "''box''" "''mail''"]
  obtain i s' where i: "i < 3" "\<not> name_taken ''box'' (?name i) ?s"
      "maildir_loop 3 sample_denv (\<lambda>_. 5) ''box'' ''mail'' 0 ?s = Inr (Some (''box'' @ ''/new/'' @ ?name i), s')"
    using conjunct2 [OF r, THEN mp, OF w] by (elim exE conjE) (rule that)
  have "i \<noteq> 0" "i \<noteq> 1" using i(2) t by metis+
  then have "i = 2" using i(1) by linarith
  then show ?thesis using i(3) by (auto simp del: maildir_loop.simps)
qed

definition sample_ud :: userdata where
  "sample_ud = \<lparr>ud_name = ''joe'', ud_home = ''/home/joe'', ud_uid = 1, ud_gid = 1\<rparr>"

definition sample_tagged :: "unit mail" where "sample_tagged = sample_mail\<lparr>m_tags := Some strb_create\<rparr>"

lemma sample_tagged_ok: "mail_ok sample_tagged"
  using sample_mail_ok by (simp add: mail_ok_def sample_tagged_def)


lemma sample_action_path: "action_path sample_denv sample_ud sample_tagged ''box'' = Inr ''box''"
  by code_simp


lemma sample_name: "maildir_name sample_denv 5 0 = ''5.7_0.a'' @ CHR 0x5C # ''057b''"
  by code_simp

lemma sample_attempt:
  "\<exists>s'. maildir_attempt sample_denv ''box'' (''5.7_0.a'' @ CHR 0x5C # ''057b'') t \<lparr>nodes = Map.empty, clean = []\<rparr> =
    Inr (TryDone (''box/new/5.7_0.a'' @ CHR 0x5C # ''057b''), s')"
  by (simp add: maildir_attempt_def ppath_def xcreate_def sample_denv_def quiet_env_def MAXPATHLEN_def cleanup_register_def
      sys_append_def safemove_def sys_link_def sys_unlink_def cleanup_deregister_def)

lemma sample_add_tag:
  assumes "is_cstr k" "is_cstr v" "length k + length v < 1000"
  obtains sb where "add_tag strb_create k v = Inr sb"
proof -
  have f: "ent_max strb_create = 64" "ent_used strb_create = 0" "str_used strb_create = 0" "STRB_ENTSIZE strb_create = 1024"
    by (simp_all add: strb_create_def strb_clear_def STRBENTRIES_def STRB_ENTSIZE_def)
  have "\<exists>sb. add_all strb_add strb_create [(k, v)] = Inr sb"
    by (rule strb_add_all_returns) (use strb_create_ok f assms in \<open>simp_all add: INT_MAX_def STRBOFFSET_def SIZE_MAX_def\<close>)
  then show ?thesis using that by (auto simp: strb_add_def add_tag_def rbind_Inr_iff)
qed

lemma sample_tag: "\<exists>m'. tag_mail sample_tagged ''mail_file'' (''box/new/5.7_0.a'' @ CHR 0x5C # ''057b'') = Inr m'"
  by (rule sample_add_tag [of "''mail_file''" "''box/new/5.7_0.a'' @ CHR 0x5C # ''057b''"])
    (simp_all add: is_cstr_def tag_mail_def sample_tagged_def)

lemma maildir_safe_witness:
  "\<exists>name m' s'. deliver_maildir_deliver 1 sample_denv (\<lambda>_. 5) 0 sample_ud ''box'' sample_tagged \<lparr>nodes = Map.empty, clean = []\<rparr> =
      Inr ((True, m'), s') \<and> nodes s' = [''box/new/'' @ name \<mapsto> File sample_text] \<and> clean s' = []"
proof -
  have c: "deliver_maildir_create sample_denv ''box'' \<lparr>nodes = Map.empty, clean = []\<rparr> = (True, \<lparr>nodes = Map.empty, clean = []\<rparr>)"
    by (simp add: deliver_maildir_create_def sample_denv_def)
  have t: "content sample_tagged = sample_text" using sample_mail_ok(2) by (simp add: content_def sample_tagged_def)
  have sz: "msize sample_tagged = 12" "take 12 sample_text = sample_text"
    using sample_mail_ok(3) by (simp_all add: sample_tagged_def sample_text_def)
  obtain s' where a: "maildir_loop 1 sample_denv (\<lambda>_. 5) ''box'' sample_text 0 \<lparr>nodes = Map.empty, clean = []\<rparr> =
      Inr (Some (''box/new/5.7_0.a'' @ CHR 0x5C # ''057b''), s')"
    using sample_attempt [of sample_text] by (auto simp: sample_name)
  obtain m' where m: "tag_mail sample_tagged ''mail_file'' (''box/new/5.7_0.a'' @ CHR 0x5C # ''057b'') = Inr m'"
    using sample_tag by blast
  have r: "deliver_maildir_deliver 1 sample_denv (\<lambda>_. 5) 0 sample_ud ''box'' sample_tagged \<lparr>nodes = Map.empty, clean = []\<rparr> =
      Inr ((True, m'), s')"
    using a m c sample_action_path bytes_at_ok [OF sample_tagged_ok, of 0 "msize sample_tagged"] sample_tagged_ok
    by (simp add: deliver_maildir_deliver_def t sz del: maildir_loop.simps)
  obtain name where "nodes s' = [''box/new/'' @ name \<mapsto> File sample_text]" "clean s' = []"
    using maildir_safe [OF sample_tagged_ok sample_action_path _ c sample_denv_honest r] by (auto simp: t)
  with r show ?thesis by blast
qed

end
