(* ===== verification/FetchMbox.thy ===== *)
theory FetchMbox imports FetchQueue DeliverFile begin

text \<open>
  Fetching from mboxes (\<^verbatim>\<open>fetch-mbox.c\<close>): the files are locked and mapped one after the other, split into mails
  at the lines that begin with \<open>From \<close>, and written back, or emptied, when every mail has been decided on. A mapped file
  is its contents when it was opened; a pointer to an mbox is its place in the array.
\<close>

section \<open>Data\<close>

record fetch_mbox_mbox =
  bx_path :: "char list"
  bx_reference :: nat
  bx_total :: nat
  bx_fd :: bool
  bx_base :: "char list option"
  bx_size :: nat

record fetch_mbox_mail =
  ax_off :: nat
  ax_size :: nat
  ax_mbox :: nat

text \<open>An entry of \<open>kept\<close> is marked once its memory has been freed.\<close>

record fetch_mbox_data =
  mb_mboxes :: "char list list"
  mb_boxes :: "fetch_mbox_mbox list"
  mb_index :: nat
  mb_off :: nat
  mb_kept :: "(bool \<times> fetch_mbox_mail) list"
  mb_fs :: fsys

datatype mbox_state = Mbox_init | Mbox_open | Mbox_next | Mbox_mail | Mbox_exit

text \<open>
  \<open>glob\<close> (\<open>None\<close> when it fails), the name \<open>mkstemp\<close> makes of a template, whether a file can be emptied and mapped,
  the waits for a lock, and the default tags.
\<close>

record mbox_env =
  me_d :: denv
  me_glob :: "char list \<Rightarrow> char list list option"
  me_mktemp :: "char list \<Rightarrow> char list"
  me_trunc :: "char list \<Rightarrow> bool"
  me_mmap :: "char list \<Rightarrow> bool"
  me_others :: "nat \<Rightarrow> nat \<times> (fsys \<Rightarrow> fsys)"
  me_tags :: "strb \<Rightarrow> strb res"
  me_shm :: "nat \<Rightarrow> bool"
  me_max_size :: nat

type_synonym mbox_ctx = "(mbox_state, fetch_mbox_mail) fetch_ctx"
type_synonym mbox_step = "fetch_mbox_data \<Rightarrow> mbox_ctx \<Rightarrow> (fetch_result \<times> fetch_mbox_data \<times> mbox_ctx) res"

definition the_box :: "fetch_mbox_data \<Rightarrow> nat \<Rightarrow> fetch_mbox_mbox res" where
  "the_box d i = (if i < length (mb_boxes d) then Inr (mb_boxes d ! i) else Inl (MemErr ''fmboxes''))"

definition set_box :: "nat \<Rightarrow> fetch_mbox_mbox \<Rightarrow> fetch_mbox_data \<Rightarrow> fetch_mbox_data" where
  "set_box i b d = d\<lparr>mb_boxes := (mb_boxes d)[i := b]\<rparr>"

definition fetch_mbox_free :: "fetch_mbox_mail \<Rightarrow> fetch_mbox_data \<Rightarrow> fetch_mbox_data res" where
  "fetch_mbox_free aux d = rbind (the_box d (ax_mbox aux)) (\<lambda>b.
     if bx_reference b = 0 then Inl (FatalX ''zero reference count'')
     else Inr (set_box (ax_mbox aux) (b\<lparr>bx_reference := bx_reference b - 1\<rparr>) d))"

section \<open>The mboxes to visit\<close>

definition new_box :: "char list \<Rightarrow> fetch_mbox_mbox" where
  "new_box path = \<lparr>bx_path = path, bx_reference = 0, bx_total = 0, bx_fd = False, bx_base = None, bx_size = 0\<rparr>"

text \<open>\<open>None\<close> when a pattern cannot be expanded.\<close>

fun fetch_mbox_make :: "mbox_env \<Rightarrow> char list list \<Rightarrow> fetch_mbox_mbox list option res" where
  "fetch_mbox_make e [] = Inr (Some [])"
| "fetch_mbox_make e (path # paths) = (case me_glob e path of
     None \<Rightarrow> Inr None
   | Some g \<Rightarrow>
       if g = [] then Inl (FatalX ''glob returned garbage'')
       else rbind (fetch_mbox_make e paths) (\<lambda>r. Inr (map_option (\<lambda>bs. map new_box g @ bs) r)))"

text \<open>Without any mbox the state returns -1, which is none of the results of a state.\<close>

definition fetch_mbox_state_init :: "mbox_env \<Rightarrow> mbox_step" where
  "fetch_mbox_state_init e d f = rbind (fetch_mbox_make e (mb_mboxes d)) (\<lambda>r. case r of
     None \<Rightarrow> Inr (FETCH_ERROR, d\<lparr>mb_boxes := []\<rparr>, f)
   | Some bs \<Rightarrow>
       if bs = [] then Inl (FatalX ''unexpected fetch return'')
       else Inr (FETCH_AGAIN, d\<lparr>mb_boxes := bs, mb_index := 0, mb_kept := []\<rparr>, f\<lparr>f_state := Mbox_open\<rparr>))"

section \<open>Opening and reading\<close>

definition fetch_mbox_state_open :: "mbox_env \<Rightarrow> mbox_step" where
  "fetch_mbox_state_open e d f = rbind (the_box d (mb_index d)) (\<lambda>b.
     case nodes (mb_fs d) (bx_path b) of
       None \<Rightarrow> Inr (FETCH_ERROR, d, f)
     | Some Dir \<Rightarrow> Inr (FETCH_ERROR, d, f)
     | Some (File t) \<Rightarrow>
         if t = [] then Inr (FETCH_AGAIN, d, f\<lparr>f_state := Mbox_next\<rparr>)
         else if length t < 5 then Inr (FETCH_ERROR, d, f)
         else (let b = b\<lparr>bx_size := length t\<rparr> in
           rbind (lock_retry (openlock (dv_sys (me_d e)) (dv_locks (me_d e)) (bx_path b)) (me_others e) 0 (mb_fs d)) (\<lambda>(r, s).
             let d = d\<lparr>mb_fs := s\<rparr> in
             if r \<noteq> Inr True then Inr (FETCH_ERROR, set_box (mb_index d) b d, f)
             else case (if me_mmap e (bx_path b) then nodes s (bx_path b) else None) of
               Some (File t) \<Rightarrow>
                 if length t < bx_size b then Inl (MemErr ''mmap'')
                 else (let b = b\<lparr>bx_fd := True, bx_base := Some (take (bx_size b) t)\<rparr>; d = (set_box (mb_index d) b d)\<lparr>mb_off := 0\<rparr> in
                   if take 5 t \<noteq> ''From '' then Inr (FETCH_ERROR, d, f) else Inr (FETCH_AGAIN, d, f\<lparr>f_state := Mbox_mail\<rparr>))
             | _ \<Rightarrow> rbind (closelock (dv_locks (me_d e)) (bx_path b) s) (\<lambda>s.
                 Inr (FETCH_ERROR, (set_box (mb_index d) b d)\<lparr>mb_fs := s\<rparr>, f)))))"

definition fetch_mbox_state_next :: mbox_step where
  "fetch_mbox_state_next d f =
     (let d = (if mb_index d < length (mb_boxes d) then d\<lparr>mb_index := mb_index d + 1\<rparr> else d) in
      if mb_index d = length (mb_boxes d) then
        (if \<not> FETCH_EMPTY f then Inr (FETCH_BLOCK, d, f) else Inr (FETCH_AGAIN, d, f\<lparr>f_state := Mbox_exit\<rparr>))
      else Inr (FETCH_AGAIN, d, f\<lparr>f_state := Mbox_open\<rparr>))"

text \<open>A quoted From line loses one \<open>>\<close>.\<close>

definition unquote_line :: "char list \<Rightarrow> char list" where
  "unquote_line l = (if l \<noteq> [] \<and> hd l = CHR ''>'' \<and> from_line l then tl l else l)"

text \<open>
  The loop over the lines of one mail. It gives the offset it has got to, the end of the mail, and the mail, or
  \<open>Inl\<close> when the mail cannot be made longer. A \<open>From \<close> line that ends the mail is behind the new offset.
\<close>

function mbox_mail_loop :: "mbox_env \<Rightarrow> char list \<Rightarrow> nat \<Rightarrow> bool \<Rightarrow> 'x mail \<Rightarrow> ('x mail + nat \<times> nat \<times> 'x mail) res" where
  "mbox_mail_loop e base pos flushing m =
     (if length base \<le> pos then Inr (Inr (pos, pos, m))
      else
        (let rest = drop pos base;
             line = takeWhile (\<lambda>c. c \<noteq> NL) rest;
             next = (if NL \<in> set rest then pos + length line + 1 else length base)
         in if 0 < pos \<and> take 5 line = ''From '' then Inr (Inr (next, pos, m))
            else if flushing then mbox_mail_loop e base next flushing m
            else case append_line (me_shm e) m (unquote_line line) of
              Inl x \<Rightarrow> Inl x
            | Inr (r, m) \<Rightarrow>
                if r \<noteq> 0 then Inr (Inl m) else mbox_mail_loop e base next (me_max_size e < msize m) m))"
  by pat_completeness auto

lemma takeWhile_less: "NL \<in> set xs \<Longrightarrow> length (takeWhile (\<lambda>c. c \<noteq> NL) xs) < length xs"
  by (induction xs) auto

termination mbox_mail_loop
  by (relation "measure (\<lambda>(e, base, pos, flushing, m). length base - pos)") (auto dest: length_pos_if_in_set)

declare mbox_mail_loop.simps [simp del]

text \<open>A blank line at the end of the mail is taken off, with the end of the line before it.\<close>

definition trim_blank :: "char list \<Rightarrow> fetch_mbox_mail \<Rightarrow> 'x mail \<Rightarrow> fetch_mbox_mail \<times> 'x mail" where
  "trim_blank base aux m =
     (let stop = ax_off aux + ax_size aux in
      if 2 \<le> ax_size aux \<and> base ! (stop - 1) = NL \<and> base ! (stop - 2) = NL
      then (aux\<lparr>ax_size := ax_size aux - 2\<rparr>, m\<lparr>msize := size_sub (msize m) 2\<rparr>) else (aux, m))"

definition xbasename :: "char list \<Rightarrow> char list" where
  "xbasename src =
     (let p = take (MAXPATHLEN - 1) src; r = dropWhile (\<lambda>c. c = CHR ''/'') (rev p) in
      if p = [] then ''.'' else if r = [] then ''/'' else rev (takeWhile (\<lambda>c. c \<noteq> CHR ''/'') r))"

definition mbox_tags :: "mbox_env \<Rightarrow> char list \<Rightarrow> 'x mail \<Rightarrow> 'x mail res" where
  "mbox_tags e path m = (case m_tags m of
     None \<Rightarrow> Inl (MemErr ''tags'')
   | Some tags \<Rightarrow> rbind (me_tags e tags) (\<lambda>tags.
       rbind (add_all add_tag tags [(''mbox'', xbasename path), (''mbox_path'', xdirname path), (''mbox_file'', path)]) (\<lambda>tags.
         Inr (m\<lparr>m_tags := Some tags\<rparr>))))"

definition fetch_mbox_state_mail :: "mbox_env \<Rightarrow> mbox_step" where
  "fetch_mbox_state_mail e d f = rbind (the_box d (mb_index d)) (\<lambda>b.
     if mb_off d = bx_size b then Inr (FETCH_AGAIN, d, f\<lparr>f_state := Mbox_next\<rparr>)
     else case mail_open (me_shm e) (f_mail f) Mail.IO_BLOCKSIZE of (r, m) \<Rightarrow>
       if r \<noteq> 0 then Inr (FETCH_ERROR, d, f\<lparr>f_mail := fst (mail_destroy m)\<rparr>)
       else case bx_base b of
         None \<Rightarrow> Inl (MemErr ''base'')
       | Some base \<Rightarrow>
           (let aux = \<lparr>ax_off = mb_off d, ax_size = 0, ax_mbox = mb_index d\<rparr>;
                b = b\<lparr>bx_reference := (bx_reference b + 1) mod 2 ^ 32\<rparr>
            in if bx_reference b = 0 then Inl (FatalX ''reference count overflow'')
               else rbind (mbox_tags e (bx_path b) (m\<lparr>auxdata := Some aux, auxfree := True\<rparr>)) (\<lambda>m.
                 rbind (mbox_mail_loop e base (mb_off d) False m) (\<lambda>r. case r of
                   Inl m \<Rightarrow> rbind (fetch_mbox_free aux (set_box (mb_index d) b d)) (\<lambda>d.
                       Inr (FETCH_ERROR, d, f\<lparr>f_mail := fst (mail_destroy m)\<rparr>))
                 | Inr (pos, stop, m) \<Rightarrow>
                     (let b = b\<lparr>bx_total := bx_total b + 1\<rparr>; d = (set_box (mb_index d) b d)\<lparr>mb_off := pos\<rparr>
                      in case trim_blank base (aux\<lparr>ax_size := stop - ax_off aux\<rparr>) m of (aux, m) \<Rightarrow>
                           Inr (FETCH_MAIL, d, f\<lparr>f_mail := m\<lparr>auxdata := Some aux\<rparr>\<rparr>))))))"

section \<open>Committing and saving\<close>

definition fetch_mbox_commit :: "fetch_mbox_data \<Rightarrow> fetch_mbox_mail mail \<Rightarrow> (fetch_result \<times> fetch_mbox_data \<times> fetch_mbox_mail mail) res" where
  "fetch_mbox_commit d m =
     (if decision m \<noteq> DECISION_DROP then
        (case auxdata m of
           None \<Rightarrow> Inl (MemErr ''auxdata'')
         | Some aux \<Rightarrow> Inr (FETCH_AGAIN, d\<lparr>mb_kept := mb_kept d @ [(False, aux)]\<rparr>, m\<lparr>auxfree := False\<rparr>))
      else Inr (FETCH_AGAIN, d, m))"

text \<open>A commit and the release of the mail that follows it in the fetch child.\<close>

definition mbox_settle :: "fetch_mbox_data \<Rightarrow> fetch_mbox_mail mail \<Rightarrow> (fetch_result \<times> fetch_mbox_data \<times> fetch_mbox_mail mail) res" where
  "mbox_settle d m = rbind (fetch_mbox_commit d m) (\<lambda>(r, d, m). case snd (mail_destroy m) of
     None \<Rightarrow> Inr (r, d, m)
   | Some aux \<Rightarrow> rbind (fetch_mbox_free aux d) (\<lambda>d. Inr (r, d, m)))"

text \<open>The kept mails of one mbox are copied and taken off the list; those of the others stay.\<close>

fun copy_kept :: "mbox_env \<Rightarrow> nat \<Rightarrow> char list option \<Rightarrow> char list \<Rightarrow> (bool \<times> fetch_mbox_mail) list \<Rightarrow> (bool \<times> fetch_mbox_mail) list \<Rightarrow>
    fetch_mbox_data \<Rightarrow> (bool \<times> fetch_mbox_data) res" where
  "copy_kept e i base tmp seen [] d = Inr (True, d\<lparr>mb_kept := seen\<rparr>)"
| "copy_kept e i base tmp seen ((freed, aux) # rest) d =
     (if freed then Inl (MemErr ''kept'')
      else if ax_mbox aux \<noteq> i then copy_kept e i base tmp (seen @ [(freed, aux)]) rest d
      else case base of
        None \<Rightarrow> Inl (MemErr ''base'')
      | Some base' \<Rightarrow> rbind (mem_read base' (ax_off aux) (ax_size aux)) (\<lambda>t.
          case sys_append (me_d e) tmp (t @ [NL]) (mb_fs d) of
            (False, s) \<Rightarrow> Inr (False, d\<lparr>mb_fs := s, mb_kept := seen @ (freed, aux) # rest\<rparr>)
          | (True, s) \<Rightarrow> rbind (fetch_mbox_free aux (d\<lparr>mb_fs := s\<rparr>)) (copy_kept e i base tmp seen rest)))"

text \<open>The mails of the mbox that are still on the list are freed, but not taken off it.\<close>

fun free_kept :: "nat \<Rightarrow> (bool \<times> fetch_mbox_mail) list \<Rightarrow> (bool \<times> fetch_mbox_mail) list \<Rightarrow> fetch_mbox_data \<Rightarrow> fetch_mbox_data res" where
  "free_kept i seen [] d = Inr (d\<lparr>mb_kept := seen\<rparr>)"
| "free_kept i seen ((freed, aux) # rest) d =
     (if freed then Inl (MemErr ''kept'')
      else if ax_mbox aux = i then rbind (fetch_mbox_free aux d) (free_kept i (seen @ [(True, aux)]) rest)
      else free_kept i (seen @ [(freed, aux)]) rest d)"

text \<open>The steps of the replacement, each with whether it worked; \<open>saved\<close> is the name of the backup.\<close>

definition step_link :: "mbox_env \<Rightarrow> char list \<Rightarrow> char list \<Rightarrow> fsys \<Rightarrow> bool \<times> fsys" where
  "step_link e old new s = (case sys_link (dv_sys (me_d e)) old new s of Inl _ \<Rightarrow> (False, s) | Inr s \<Rightarrow> (True, s))"

definition step_unlink :: "char list \<Rightarrow> fsys \<Rightarrow> bool \<times> fsys" where
  "step_unlink path s = (case sys_unlink path s of Inl _ \<Rightarrow> (False, s) | Inr s \<Rightarrow> (True, s))"

fun run_steps :: "(fsys \<Rightarrow> bool \<times> fsys) list \<Rightarrow> fsys \<Rightarrow> bool \<times> fsys" where
  "run_steps [] s = (True, s)"
| "run_steps (f # fs) s = (case f s of (True, s) \<Rightarrow> run_steps fs s | (False, s) \<Rightarrow> (False, s))"

definition replace_mbox :: "mbox_env \<Rightarrow> char list \<Rightarrow> char list \<Rightarrow> char list \<Rightarrow> fsys \<Rightarrow> bool \<times> fsys" where
  "replace_mbox e path tmp saved s =
     run_steps [step_link e path saved, step_unlink path, step_link e tmp path, step_unlink tmp, step_unlink saved] s"

text \<open>\<open>free_all\<close> and the check at its end.\<close>

definition mbox_free_all :: "nat \<Rightarrow> fetch_mbox_data \<Rightarrow> (bool \<times> fetch_mbox_data) res" where
  "mbox_free_all i d = rbind (free_kept i [] (mb_kept d) d) (\<lambda>d. rbind (the_box d i) (\<lambda>b.
     if bx_reference b \<noteq> 0 then Inl (FatalX ''dangling reference'') else Inr (True, d)))"

definition fetch_mbox_save :: "mbox_env \<Rightarrow> nat \<Rightarrow> fetch_mbox_data \<Rightarrow> (bool \<times> fetch_mbox_data) res" where
  "fetch_mbox_save e i d = rbind (the_box d i) (\<lambda>b.
     if bx_reference b = 0 then
       (if bx_total b = 0 then mbox_free_all i d
        else if \<not> me_trunc e (bx_path b) then Inr (False, d)
        else mbox_free_all i (d\<lparr>mb_fs := (mb_fs d)\<lparr>nodes := (nodes (mb_fs d))(bx_path b \<mapsto> File [])\<rparr>\<rparr>))
     else if bx_reference b = bx_total b then mbox_free_all i d
     else (let saved = bx_path b @ ''.XXXXXXXXXX''; tmp = me_mktemp e saved; s = mb_fs d in
       if MAXPATHLEN \<le> length saved \<or> nodes s tmp \<noteq> None then Inr (False, d)
       else rbind (copy_kept e i (bx_base b) tmp [] (mb_kept d) (d\<lparr>mb_fs := s\<lparr>nodes := (nodes s)(tmp \<mapsto> File [])\<rparr>\<rparr>)) (\<lambda>(ok, d).
         if \<not> ok then Inr (False, d\<lparr>mb_fs := snd (step_unlink tmp (mb_fs d))\<rparr>)
         else case replace_mbox e (bx_path b) tmp saved (mb_fs d) of
           (False, s) \<Rightarrow> Inr (False, d\<lparr>mb_fs := snd (step_unlink tmp s)\<rparr>)
         | (True, s) \<Rightarrow> mbox_free_all i (d\<lparr>mb_fs := s\<rparr>))))"

fun save_boxes :: "mbox_env \<Rightarrow> nat list \<Rightarrow> fetch_mbox_data \<Rightarrow> (bool \<times> fetch_mbox_data) res" where
  "save_boxes e [] d = Inr (True, d)"
| "save_boxes e (i # is) d = rbind (fetch_mbox_save e i d) (\<lambda>(ok, d). if ok then save_boxes e is d else Inr (False, d))"

fun close_boxes :: "mbox_env \<Rightarrow> fetch_mbox_mbox list \<Rightarrow> fsys \<Rightarrow> fsys res" where
  "close_boxes e [] s = Inr s"
| "close_boxes e (b # bs) s =
     rbind (if bx_fd b then closelock (dv_locks (me_d e)) (bx_path b) s else Inr s) (close_boxes e bs)"

definition fetch_mbox_abort :: "mbox_env \<Rightarrow> fetch_mbox_data \<Rightarrow> fetch_mbox_data res" where
  "fetch_mbox_abort e d = rbind (close_boxes e (mb_boxes d) (mb_fs d)) (\<lambda>s. Inr (d\<lparr>mb_boxes := [], mb_fs := s\<rparr>))"

definition fetch_mbox_state_exit :: "mbox_env \<Rightarrow> mbox_step" where
  "fetch_mbox_state_exit e d f = rbind (save_boxes e [0..<length (mb_boxes d)] d) (\<lambda>(ok, d).
     if \<not> ok then Inr (FETCH_ERROR, d, f) else rbind (fetch_mbox_abort e d) (\<lambda>d. Inr (FETCH_EXIT, d, f)))"

definition mbox_step :: "mbox_env \<Rightarrow> mbox_step" where
  "mbox_step e d f = (case f_state f of
     Mbox_init \<Rightarrow> fetch_mbox_state_init e d f
   | Mbox_open \<Rightarrow> fetch_mbox_state_open e d f
   | Mbox_next \<Rightarrow> fetch_mbox_state_next d f
   | Mbox_mail \<Rightarrow> fetch_mbox_state_mail e d f
   | Mbox_exit \<Rightarrow> fetch_mbox_state_exit e d f)"

text \<open>\<open>struct fetch fetch_mbox\<close>; an abort that dies while it closes the locks leaves the data as it is.\<close>

definition fetch_mbox :: "mbox_env \<Rightarrow> (fetch_mbox_data, mbox_state, fetch_mbox_mail) fetch_ops" where
  "fetch_mbox e = \<lparr>fo_first = Mbox_init, fo_step = mbox_step e, fo_fill = None, fo_commit = Some mbox_settle,
     fo_abort = (\<lambda>d. case fetch_mbox_abort e d of Inl _ \<Rightarrow> d | Inr d \<Rightarrow> d), fo_total = None\<rparr>"

end
