(* ===== verification/Mbox_Correct.thy ===== *)
theory Mbox_Correct imports FetchMbox begin

text \<open>
  What mbox deliveries write and what the fetch of an mbox makes of it: the text of a delivery, the mails that are
  read back from a file of deliveries, and the file that is left when some of them are kept.
\<close>

section \<open>Lines that end in a newline\<close>

definition ended_lines :: "char list list \<Rightarrow> char list" where
  "ended_lines ls = concat (map (\<lambda>l. l @ [NL]) ls)"

lemma ended_lines_simps [simp]:
  "ended_lines [] = []" "ended_lines (l # ls) = l @ NL # ended_lines ls" "ended_lines (ls @ ks) = ended_lines ls @ ended_lines ks"
  by (simp_all add: ended_lines_def)

text \<open>A text with a newline at its end, and without.\<close>

definition ended :: "char list \<Rightarrow> char list" where
  "ended c = (if last c = NL then c else c @ [NL])"

definition unended :: "char list \<Rightarrow> char list" where
  "unended c = (if last c = NL then butlast c else c)"

lemma butlast_ended: "c \<noteq> [] \<Longrightarrow> butlast (ended c) = unended c"
  by (simp add: ended_def unended_def)

definition body_lines :: "char list \<Rightarrow> char list list" where
  "body_lines c = map (takeWhile (\<lambda>c. c \<noteq> NL)) (lines_of c)"

lemma first_line:
  assumes "c \<noteq> []"
  shows "NL \<in> set c \<Longrightarrow> take (line_len c) c = takeWhile (\<lambda>c. c \<noteq> NL) c @ [NL]"
    and "NL \<notin> set c \<Longrightarrow> take (line_len c) c = c"
    and "takeWhile (\<lambda>c. c \<noteq> NL) (take (line_len c) c) = takeWhile (\<lambda>c. c \<noteq> NL) c"
proof -
  show a: "take (line_len c) c = takeWhile (\<lambda>c. c \<noteq> NL) c @ [NL]" if n: "NL \<in> set c"
  proof -
    obtain a b where "c = a @ NL # b" "NL \<notin> set a" using split_list_first [OF n] by blast
    moreover from this have "\<forall>x \<in> set a. x \<noteq> NL" by blast
    ultimately show ?thesis by (simp add: line_len_def memchr_append2 takeWhile_append2)
  qed
  show b: "take (line_len c) c = c" if "NL \<notin> set c"
    using that memchr_None [of c NL] by (simp add: line_len_def)
  show "takeWhile (\<lambda>c. c \<noteq> NL) (take (line_len c) c) = takeWhile (\<lambda>c. c \<noteq> NL) c"
  proof (cases "NL \<in> set c")
    case True
    have "\<forall>x \<in> set (takeWhile (\<lambda>c. c \<noteq> NL) c). x \<noteq> NL" by (auto dest: set_takeWhileD)
    then show ?thesis unfolding a [OF True] by (simp add: takeWhile_append2)
  qed (simp add: b)
qed

lemma body_lines_plain: "l \<in> set (body_lines c) \<Longrightarrow> NL \<notin> set l"
  by (auto simp: body_lines_def dest: set_takeWhileD)

lemma lines_of_split:
  assumes "c \<noteq> []"
  obtains (one) "lines_of c = [c]" "NL \<notin> set c" "body_lines c = [c]"
    | (ends) w where "lines_of c = [c]" "c = w @ [NL]" "body_lines c = [w]"
    | (more) w r where "lines_of c = (w @ [NL]) # lines_of r" "c = w @ NL # r" "r \<noteq> []" "body_lines c = w # body_lines r"
proof (cases "NL \<in> set c")
  case False
  then have "memchr c NL = None" by (simp add: memchr_None)
  then have "lines_of c = [c]" by (subst lines_of.simps) (simp add: line_len_def)
  moreover have "takeWhile (\<lambda>c. c \<noteq> NL) c = c" using False by (auto simp: takeWhile_eq_all_conv)
  ultimately show ?thesis using False by (intro one) (simp_all add: body_lines_def)
next
  case True
  let ?w = "takeWhile (\<lambda>c. c \<noteq> NL) c"
  note t = first_line(1) [OF assms True] and u = first_line(3) [OF assms, unfolded first_line(1) [OF assms True]]
  show ?thesis
  proof (cases "line_len c = length c")
    case len: True
    then have "c = ?w @ [NL]" using t by simp
    moreover have "lines_of c = [c]" using len by (subst lines_of.simps) simp
    moreover have "body_lines c = [?w]" using \<open>lines_of c = [c]\<close> by (simp add: body_lines_def)
    ultimately show ?thesis by (intro ends)
  next
    case False
    let ?r = "drop (line_len c) c"
    have "?r \<noteq> []" using False line_len_le [of c] by simp
    moreover have "lines_of c = (?w @ [NL]) # lines_of ?r" using False t by (subst lines_of.simps) simp
    moreover have "c = ?w @ NL # ?r" using t append_take_drop_id [of "line_len c" c] by simp
    moreover have "body_lines c = ?w # body_lines ?r" using \<open>lines_of c = _ # _\<close> u by (simp add: body_lines_def)
    ultimately show ?thesis by (intro more)
  qed
qed

lemma ended_body_lines: "c \<noteq> [] \<Longrightarrow> ended_lines (body_lines c) = ended c"
proof (induction "length c" arbitrary: c rule: less_induct)
  case less
  from less.prems show ?case
  proof (cases rule: lines_of_split)
    case one
    then have "last c \<noteq> NL" using less.prems by (metis last_in_set)
    then show ?thesis using one by (simp add: ended_def)
  next
    case (more w r)
    then have "ended_lines (body_lines r) = ended r" using less.hyps [of r] by simp
    then show ?thesis using more by (simp add: ended_def)
  qed (simp add: ended_def)
qed

section \<open>Quoting\<close>

definition quote_line :: "char list \<Rightarrow> char list" where
  "quote_line l = (if from_line l then CHR ''>'' # l else l)"

lemma from_line_quoted [simp]: "from_line (CHR ''>'' # l) = from_line l"
  by (simp add: from_line_def)

lemma unquote_quote: "unquote_line (quote_line l) = l"
  by (auto simp: unquote_line_def quote_line_def)

lemma quote_not_from: "take 5 (quote_line l) \<noteq> ''From ''"
proof (cases "from_line l")
  case False
  have "dropWhile (\<lambda>c. c = CHR ''>'') l = l" if "take 5 l = ''From ''" using that by (cases l) auto
  then show ?thesis using False by (auto simp: quote_line_def from_line_def)
qed (simp add: quote_line_def numeral_eq_Suc)

lemma take_From_app: "take 5 (w @ [NL]) = ''From '' \<longleftrightarrow> take 5 w = ''From ''"
proof (cases "5 \<le> length w")
  case False
  then have "take 5 (w @ [NL]) = w @ [NL]" "take 5 w = w" by simp_all
  moreover have "w @ [NL] \<noteq> ''From ''"
  proof
    assume "w @ [NL] = ''From ''"
    then have "last (w @ [NL]) = last ''From ''" by (rule arg_cong)
    then show False by simp
  qed
  moreover have "w \<noteq> ''From ''" using False by auto
  ultimately show ?thesis by simp
qed simp

lemma from_line_end: "from_line (w @ [NL]) = from_line w"
proof (cases "\<forall>c \<in> set w. c = CHR ''>''")
  case True
  then have "dropWhile (\<lambda>c. c = CHR ''>'') (w @ [NL]) = [NL]" "dropWhile (\<lambda>c. c = CHR ''>'') w = []" by simp_all
  then show ?thesis by (simp only: from_line_def) simp
next
  case False
  then have "dropWhile (\<lambda>c. c = CHR ''>'') (w @ [NL]) = dropWhile (\<lambda>c. c = CHR ''>'') w @ [NL]" by (auto simp: dropWhile_append1)
  then show ?thesis by (simp only: from_line_def take_From_app)
qed

section \<open>What a delivery writes\<close>

text \<open>The lines of a mail in the mbox: all but the first are quoted.\<close>

definition quoted_lines :: "char list \<Rightarrow> char list list" where
  "quoted_lines c = (case body_lines c of [] \<Rightarrow> [] | l # ls \<Rightarrow> l # map quote_line ls)"

definition mbox_entry :: "char list \<Rightarrow> char list \<Rightarrow> char list" where
  "mbox_entry from c = ended_lines (from # quoted_lines c @ [[]])"

lemma quote_line_end: "quote_line (w @ [NL]) = quote_line w @ [NL]"
  by (simp add: quote_line_def from_line_end)

lemma quote_ended:
  "c \<noteq> [] \<Longrightarrow> concat (map quote_line (lines_of c)) @ (if last c = NL then [] else [NL]) = ended_lines (map quote_line (body_lines c))"
proof (induction "length c" arbitrary: c rule: less_induct)
  case less
  from less.prems show ?case
  proof (cases rule: lines_of_split)
    case one
    then have "last c \<noteq> NL" using less.prems by (metis last_in_set)
    then show ?thesis using one by simp
  next
    case (ends w)
    then show ?thesis by (simp add: quote_line_end)
  next
    case (more w r)
    then have "concat (map quote_line (lines_of r)) @ (if last r = NL then [] else [NL]) = ended_lines (map quote_line (body_lines r))"
      using less.hyps [of r] by simp
    then show ?thesis using more by (simp add: quote_line_end)
  qed
qed

definition write_line :: "bool \<Rightarrow> char list \<Rightarrow> nat \<Rightarrow> char list \<Rightarrow> (char list + char list) res" where
  "write_line gz t p l = (let t = (if p \<noteq> 0 \<and> from_line l then t @ ''>'' else t) in
     case deliver_mbox_write gz t l of (ok, t) \<Rightarrow> Inr (if ok then Inr t else Inl t))"

lemma write_lines:
  "[] \<notin> set ls \<Longrightarrow> 0 < p \<Longrightarrow> fold_lines (write_line gz) t p ls = Inr (Inr (t @ concat (map quote_line ls)))"
  by (induction ls arbitrary: t p) (auto simp: write_line_def deliver_mbox_write_def quote_line_def)

lemma mbox_text_entry:
  assumes m: "mail_ok m" "content m \<noteq> []" and f: "make_from (dv_ctime e) m (ud_name ud) = Inr from"
  shows "mbox_text e gz ud m = Inr (True, mbox_entry from (content m))"
proof -
  let ?c = "content m"
  obtain l ls where ls: "lines_of ?c = l # ls" using lines_of.simps [of ?c] by metis
  have ne: "[] \<notin> set (l # ls)" using lines_of_nonempty [OF m(2)] ls by simp
  have "on_lines m (mbox_line m gz) (from @ [NL]) = fold_lines (write_line gz) (from @ [NL]) 0 (lines_of ?c)"
    by (rule on_lines_fold [OF m(1)]) (simp add: mbox_line_def write_line_def bytes_at_ok [OF m(1)])
  also have "\<dots> = Inr (Inr (from @ NL # l @ concat (map quote_line ls)))"
    using ne write_lines [of ls "length l" gz] by (cases gz) (auto simp: ls write_line_def deliver_mbox_write_def)
  finally have a: "on_lines m (mbox_line m gz) (from @ [NL]) = Inr (Inr (from @ NL # l @ concat (map quote_line ls)))" .
  have sz: "0 < msize m" "length ?c = msize m" using m by (metis length_content length_greater_0_conv, simp)
  have "drop (msize m - 1) ?c = [last ?c]" using m(2) sz by (metis append_butlast_last_id append_eq_conv_conj length_butlast)
  then have b: "bytes_at m (msize m - 1) 1 = Inr [last ?c]" using bytes_at_ok [OF m(1), of "msize m - 1" 1] sz by simp
  have "l @ concat (map quote_line ls) @ (if last ?c = NL then [] else [NL]) = ended_lines (quoted_lines ?c)"
    using m(2)
  proof (cases rule: lines_of_split)
    case one
    then have "last ?c \<noteq> NL" using m(2) by (metis last_in_set)
    then show ?thesis using one ls by (simp add: quoted_lines_def)
  next
    case (ends w)
    then have e: "l = w @ [NL]" "ls = []" using ls by auto
    show ?thesis unfolding ends(2) e using ends by (simp add: quoted_lines_def)
  next
    case (more w r)
    then show ?thesis using ls quote_ended [of r] by (simp add: quoted_lines_def)
  qed
  then show ?thesis using f a b sz by (cases "last ?c = NL") (simp_all add: mbox_text_def mbox_entry_def)
qed

section \<open>Reading a mail\<close>

lemma loop_line:
  assumes base: "base = pre @ l @ NL # rest" "NL \<notin> set l" and pos: "pos = length pre" and f: "pos = 0 \<or> take 5 l \<noteq> ''From ''"
    and m: "append_line (me_shm e) m (unquote_line l) = Inr (0, m')" "msize m' \<le> me_max_size e"
  shows "mbox_mail_loop e base pos False m = mbox_mail_loop e base (pos + length l + 1) False m'"
proof -
  have "\<forall>x \<in> set l. x \<noteq> NL" using base(2) by blast
  then have "takeWhile (\<lambda>c. c \<noteq> NL) (l @ NL # rest) = l" by (simp add: takeWhile_append2)
  then show ?thesis using base(1) pos f m by (subst mbox_mail_loop.simps) (auto simp: Let_def)
qed

lemma loop_end:
  assumes base: "base = pre @ rest" and pos: "pos = length pre" "0 < pos"
    and r: "rest = [] \<or> (\<exists>g t. rest = g @ NL # t \<and> NL \<notin> set g \<and> take 5 g = ''From '')"
  shows "mbox_mail_loop e base pos False m =
    Inr (Inr (pos + length (takeWhile (\<lambda>c. c \<noteq> NL) rest) + (if rest = [] then 0 else 1), pos, m))"
  using r
proof
  assume "\<exists>g t. rest = g @ NL # t \<and> NL \<notin> set g \<and> take 5 g = ''From ''"
  then obtain g t where g: "rest = g @ NL # t" "NL \<notin> set g" "take 5 g = ''From ''" by blast
  have "\<forall>x \<in> set g. x \<noteq> NL" using g(2) by blast
  then have "takeWhile (\<lambda>c. c \<noteq> NL) (g @ NL # t) = g" by (simp add: takeWhile_append2)
  then show ?thesis using base pos g by (subst mbox_mail_loop.simps) (auto simp: Let_def)
qed (use base pos in \<open>subst mbox_mail_loop.simps, simp\<close>)

lemma append_line_fine:
  assumes "mail_ok m" "m_off m + msize m + length l + 1 < SIZE_MAX div 2" "\<forall>k. shm k"
  obtains m' where "append_line shm m l = Inr (0, m')" "mail_ok m'" "content m' = content m @ l @ [NL]" "m_off m' = m_off m"
    "msize m' = msize m + length l + 1" "auxfree m' = auxfree m"
proof -
  obtain m' where m': "append_line shm m l = Inr (0, m')" using append_line_returns [OF assms] by blast
  obtain m1 mem where r: "mail_fit shm m (msize m + length l + 1) = Inr (0, m1)" "auxfree m' = auxfree m1"
    using m' by (auto simp: append_line_def mail_resize_def rbind_Inr_iff split: if_splits)
  have x: "m1 = m\<lparr>m_base := m_base m1, m_space := m_space m1\<rparr>"
    using mail_fit_result [OF r(1)] assms(1) by (simp add: mail_ok_def)
  have "auxfree m1 = auxfree m" using arg_cong [OF x, of auxfree] by simp
  with that m' r(2) append_line_ok [OF assms(1) m'] show ?thesis by simp
qed

lemma unquote_length: "length (unquote_line l) \<le> length l"
  by (simp add: unquote_line_def)

lemma loop_lines:
  assumes "base = pre @ ended_lines ls @ rest" "pos = length pre" "0 < pos" and "\<forall>l \<in> set ls. NL \<notin> set l \<and> take 5 l \<noteq> ''From ''"
    and r: "rest = [] \<or> (\<exists>g t. rest = g @ NL # t \<and> NL \<notin> set g \<and> take 5 g = ''From '')"
    and "mail_ok m" and shm: "\<forall>k. me_shm e k"
    and "m_off m + msize m + length (ended_lines ls) < SIZE_MAX div 2" "msize m + length (ended_lines ls) \<le> me_max_size e"
  shows "\<exists>m'. mbox_mail_loop e base pos False m = Inr (Inr (pos + length (ended_lines ls) +
        length (takeWhile (\<lambda>c. c \<noteq> NL) rest) + (if rest = [] then 0 else 1), pos + length (ended_lines ls), m')) \<and>
      mail_ok m' \<and> auxfree m' = auxfree m \<and> content m' = content m @ ended_lines (map unquote_line ls)"
  using assms(1-4,6,8,9)
proof (induction ls arbitrary: pre pos m)
  case Nil
  then have "mbox_mail_loop e base pos False m =
      Inr (Inr (pos + length (takeWhile (\<lambda>c. c \<noteq> NL) rest) + (if rest = [] then 0 else 1), pos, m))"
    by (intro loop_end [OF _ _ _ r]) simp_all
  then show ?case using Nil by simp
next
  case (Cons l ls)
  note u = unquote_length [of l]
  have "m_off m + msize m + length (unquote_line l) + 1 < SIZE_MAX div 2" using Cons.prems(6) u by simp
  from append_line_fine [OF Cons.prems(5) this shm] obtain m1 where m1: "append_line (me_shm e) m (unquote_line l) = Inr (0, m1)"
    "mail_ok m1" "content m1 = content m @ unquote_line l @ [NL]" "m_off m1 = m_off m" "msize m1 = msize m + length (unquote_line l) + 1"
    "auxfree m1 = auxfree m" .
  have step: "mbox_mail_loop e base pos False m = mbox_mail_loop e base (pos + length l + 1) False m1"
    by (rule loop_line [of _ pre _ "ended_lines ls @ rest", OF _ _ Cons.prems(2)]) (use Cons.prems m1 u in auto)
  have "\<exists>m'. mbox_mail_loop e base (pos + length l + 1) False m1 = Inr (Inr (pos + length l + 1 + length (ended_lines ls) +
        length (takeWhile (\<lambda>c. c \<noteq> NL) rest) + (if rest = [] then 0 else 1), pos + length l + 1 + length (ended_lines ls), m')) \<and>
      mail_ok m' \<and> auxfree m' = auxfree m1 \<and> content m' = content m1 @ ended_lines (map unquote_line ls)"
    by (rule Cons.IH [of "pre @ l @ [NL]"]) (use Cons.prems m1 u in auto)
  then show ?case using step m1(3,6) by (auto simp: add.assoc)
qed

lemma loop_region:
  assumes base: "base = pre @ ended_lines (k # ls) @ rest" and pos: "pos = length pre"
    and k: "NL \<notin> set k" "pos = 0 \<or> take 5 k \<noteq> ''From ''" and ls: "\<forall>l \<in> set ls. NL \<notin> set l \<and> take 5 l \<noteq> ''From ''"
    and r: "rest = [] \<or> (\<exists>g t. rest = g @ NL # t \<and> NL \<notin> set g \<and> take 5 g = ''From '')"
    and m: "mail_ok m" "m_off m = 0" "msize m = 0" and shm: "\<forall>k. me_shm e k"
    and size: "length (ended_lines (k # ls)) < SIZE_MAX div 2" "length (ended_lines (k # ls)) \<le> me_max_size e"
  shows "\<exists>m'. mbox_mail_loop e base pos False m = Inr (Inr (pos + length (ended_lines (k # ls)) +
        length (takeWhile (\<lambda>c. c \<noteq> NL) rest) + (if rest = [] then 0 else 1), pos + length (ended_lines (k # ls)), m')) \<and>
      mail_ok m' \<and> auxfree m' = auxfree m \<and> content m' = ended_lines (map unquote_line (k # ls))"
proof -
  note u = unquote_length [of k]
  have "m_off m + msize m + length (unquote_line k) + 1 < SIZE_MAX div 2" using m size u by simp
  from append_line_fine [OF m(1) this shm] obtain m1 where m1: "append_line (me_shm e) m (unquote_line k) = Inr (0, m1)"
    "mail_ok m1" "content m1 = content m @ unquote_line k @ [NL]" "m_off m1 = m_off m" "msize m1 = msize m + length (unquote_line k) + 1"
    "auxfree m1 = auxfree m" .
  have step: "mbox_mail_loop e base pos False m = mbox_mail_loop e base (pos + length k + 1) False m1"
    by (rule loop_line [of _ pre _ "ended_lines ls @ rest", OF _ _ pos k(2) m1(1)]) (use base k m m1 u size in auto)
  have "\<exists>m'. mbox_mail_loop e base (pos + length k + 1) False m1 = Inr (Inr (pos + length k + 1 + length (ended_lines ls) +
        length (takeWhile (\<lambda>c. c \<noteq> NL) rest) + (if rest = [] then 0 else 1), pos + length k + 1 + length (ended_lines ls), m')) \<and>
      mail_ok m' \<and> auxfree m' = auxfree m1 \<and> content m' = content m1 @ ended_lines (map unquote_line ls)"
    by (rule loop_lines [of _ "pre @ k @ [NL]", OF _ _ _ ls r m1(2) shm]) (use base pos m m1 u size in auto)
  moreover have "content m = []" using m by (simp add: content_def)
  ultimately show ?thesis using step m1(3,6) by (auto simp: add.assoc)
qed

lemma trim_region:
  assumes base: "base = pre @ ended_lines (ls @ [[]]) @ rest" and ls: "ls \<noteq> []" and m: "mail_ok m" "content m = ended_lines (ks @ [[]])" "ks \<noteq> []"
    and aux: "ax_off aux = length pre" "ax_size aux = length (ended_lines (ls @ [[]]))"
  obtains m' where "trim_blank base aux m = (aux\<lparr>ax_size := length (ended_lines ls) - 1\<rparr>, m')"
    "content m' = butlast (ended_lines ks)" "auxfree m' = auxfree m"
proof -
  obtain t where t: "ended_lines ls = t @ [NL]" using ls by (metis append_butlast_last_id append.assoc ended_lines_simps append_Cons append_Nil)
  obtain u where u: "ended_lines ks = u @ [NL]" using m(3) by (metis append_butlast_last_id append.assoc ended_lines_simps append_Cons append_Nil)
  have sz: "msize m = length u + 2" using m length_content [OF m(1)] u by simp
  have b: "base ! (length pre + length t) = NL" "base ! (length pre + length t + 1) = NL" using base t by (simp_all add: nth_append)
  have "trim_blank base aux m = (aux\<lparr>ax_size := length (ended_lines ls) - 1\<rparr>, m\<lparr>msize := length u\<rparr>)"
    using aux t sz b by (simp add: trim_blank_def Let_def)
  moreover have "content (m\<lparr>msize := length u\<rparr>) = take (length u) (content m)" using sz by (simp add: content_def)
  moreover have "\<dots> = u" using m(2) u by simp
  ultimately show ?thesis using that u by simp
qed

definition tags_fine :: "mbox_env \<Rightarrow> char list \<Rightarrow> bool" where
  "tags_fine e path \<longleftrightarrow> (\<exists>t. rbind (me_tags e strb_create) (\<lambda>tags.
     add_all add_tag tags [(''mbox'', xbasename path), (''mbox_path'', xdirname path), (''mbox_file'', path)]) = Inr t)"

lemma mbox_tags_fine:
  assumes "tags_fine e path" "m_tags m = Some strb_create"
  obtains t where "mbox_tags e path m = Inr (m\<lparr>m_tags := Some t\<rparr>)"
proof -
  from assms(1) obtain t0 t where "me_tags e strb_create = Inr t0"
      "add_all add_tag t0 [(''mbox'', xbasename path), (''mbox_path'', xdirname path), (''mbox_file'', path)] = Inr t"
    unfolding tags_fine_def rbind_Inr_iff by blast
  then have "mbox_tags e path m = Inr (m\<lparr>m_tags := Some t\<rparr>)" using assms(2) by (simp add: mbox_tags_def del: add_all.simps)
  with that show ?thesis .
qed

lemma mail_open_fine:
  assumes "\<forall>k. shm k"
  obtains m' where "mail_open shm m sz = (0, m')" "mail_ok m'" "m_off m' = 0" "msize m' = 0" "m_tags m' = Some strb_create"
  using assms by (simp add: mail_open_def Let_def mail_ok_def IO_ROUND_def Mail.IO_BLOCKSIZE_def)

definition box_ok :: "nat \<Rightarrow> char list \<Rightarrow> char list \<Rightarrow> fetch_mbox_data \<Rightarrow> bool" where
  "box_ok n path base d \<longleftrightarrow> mb_index d < length (mb_boxes d) \<and>
    (let b = mb_boxes d ! mb_index d in bx_path b = path \<and> bx_base b = Some base \<and> bx_size b = length base \<and>
      bx_reference b + n < 2 ^ 32)"

definition env_fine :: "mbox_env \<Rightarrow> char list \<Rightarrow> char list \<Rightarrow> bool" where
  "env_fine e path base \<longleftrightarrow> tags_fine e path \<and> (\<forall>k. me_shm e k) \<and> length base < SIZE_MAX div 2 \<and> length base \<le> me_max_size e"

text \<open>The data after one mail more.\<close>

definition mail_taken :: "nat \<Rightarrow> fetch_mbox_data \<Rightarrow> fetch_mbox_data" where
  "mail_taken pos d = (let i = mb_index d; b = mb_boxes d ! i in
     (set_box i (b\<lparr>bx_reference := bx_reference b + 1, bx_total := bx_total b + 1\<rparr>) d)\<lparr>mb_off := pos\<rparr>)"

lemma state_mail_region:
  assumes b: "box_ok 1 path base d" and e: "env_fine e path base"
    and base: "base = pre @ ended_lines ((k # ls) @ [[]]) @ rest" "mb_off d = length pre"
    and k: "NL \<notin> set k" "pre = [] \<or> take 5 k \<noteq> ''From ''" and ls: "\<forall>l \<in> set ls. NL \<notin> set l \<and> take 5 l \<noteq> ''From ''"
    and r: "rest = [] \<or> (\<exists>g t. rest = g @ NL # t \<and> NL \<notin> set g \<and> take 5 g = ''From '')"
  shows "\<exists>m'. fetch_mbox_state_mail e d f = Inr (FETCH_MAIL,
        mail_taken (length pre + length (ended_lines ((k # ls) @ [[]])) + length (takeWhile (\<lambda>c. c \<noteq> NL) rest) + (if rest = [] then 0 else 1)) d,
        f\<lparr>f_mail := m'\<rparr>) \<and>
      content m' = butlast (ended_lines (map unquote_line (k # ls))) \<and> auxfree m' \<and>
      auxdata m' = Some \<lparr>ax_off = length pre, ax_size = length (ended_lines (k # ls)) - 1, ax_mbox = mb_index d\<rparr>"
proof -
  let ?i = "mb_index d" and ?b = "mb_boxes d ! mb_index d" and ?K = "k # (ls @ [[]])"
  let ?aux = "\<lparr>ax_off = mb_off d, ax_size = 0, ax_mbox = ?i\<rparr>"
  have box: "the_box d ?i = Inr ?b" "bx_path ?b = path" "bx_base ?b = Some base" "bx_size ?b = length base" "(bx_reference ?b + 1) mod 2 ^ 32 = bx_reference ?b + 1"
    using b by (simp_all add: box_ok_def the_box_def Let_def)
  have ef: "tags_fine e path" "\<forall>k. me_shm e k" "length base < SIZE_MAX div 2" "length base \<le> me_max_size e"
    using e by (simp_all add: env_fine_def)
  obtain m where m: "mail_open (me_shm e) (f_mail f) Mail.IO_BLOCKSIZE = (0, m)" "mail_ok m" "m_off m = 0" "msize m = 0" "m_tags m = Some strb_create"
    using mail_open_fine [OF ef(2)] .
  let ?m = "m\<lparr>auxdata := Some ?aux, auxfree := True\<rparr>"
  obtain t where t: "mbox_tags e path ?m = Inr (?m\<lparr>m_tags := Some t\<rparr>)" using mbox_tags_fine [OF ef(1), of ?m] m(5) by auto
  let ?m1 = "?m\<lparr>m_tags := Some t\<rparr>" and ?stop = "length pre + length (ended_lines ?K)"
  have base': "base = pre @ ended_lines ?K @ rest" and lsK: "\<forall>l \<in> set (ls @ [[]]). NL \<notin> set l \<and> take 5 l \<noteq> ''From ''"
    using base(1) ls by auto
  have m1: "mail_ok ?m1" "m_off ?m1 = 0" "msize ?m1 = 0" using m by (simp_all add: mail_ok_def)
  have size: "length (ended_lines ?K) < SIZE_MAX div 2" "length (ended_lines ?K) \<le> me_max_size e" using base' ef(3,4) by simp_all
  obtain m2 where m2: "mbox_mail_loop e base (length pre) False ?m1 =
        Inr (Inr (?stop + length (takeWhile (\<lambda>c. c \<noteq> NL) rest) + (if rest = [] then 0 else 1), ?stop, m2))"
      "mail_ok m2" "auxfree m2 = auxfree ?m1" "content m2 = ended_lines (map unquote_line ?K)"
    using loop_region [OF base' refl k(1) _ lsK r m1 ef(2) size] k(2) by auto
  have ks: "content m2 = ended_lines (map unquote_line (k # ls) @ [[]])" using m2(4) by (simp add: unquote_line_def)
  obtain m3 where m3: "trim_blank base (?aux\<lparr>ax_size := ?stop - ax_off ?aux\<rparr>) m2 = (?aux\<lparr>ax_size := length (ended_lines (k # ls)) - 1\<rparr>, m3)"
      "content m3 = butlast (ended_lines (map unquote_line (k # ls)))" "auxfree m3 = auxfree m2"
    using trim_region [OF base(1) _ m2(2) ks, of "?aux\<lparr>ax_size := ?stop - ax_off ?aux\<rparr>"] base(2) by (auto simp: set_box_def)
  have "mb_off d \<noteq> bx_size ?b" using base box(4) by simp
  then have "fetch_mbox_state_mail e d f = Inr (FETCH_MAIL, mail_taken (?stop + length (takeWhile (\<lambda>c. c \<noteq> NL) rest) + (if rest = [] then 0 else 1)) d,
      f\<lparr>f_mail := m3\<lparr>auxdata := Some (?aux\<lparr>ax_size := length (ended_lines (k # ls)) - 1\<rparr>)\<rparr>\<rparr>)"
    using box m(1) t m2(1) m3(1) base(2) by (simp add: fetch_mbox_state_mail_def Let_def mail_taken_def)
  then show ?thesis using m3 m2(3) base(2) by (intro exI [of _ "m3\<lparr>auxdata := Some (?aux\<lparr>ax_size := length (ended_lines (k # ls)) - 1\<rparr>)\<rparr>"])
    (simp add: content_def)
qed

section \<open>Reading a file of deliveries\<close>

definition good_delivery :: "char list \<times> char list \<Rightarrow> bool" where
  "good_delivery x \<longleftrightarrow> (case x of (from, c) \<Rightarrow>
     take 5 from = ''From '' \<and> NL \<notin> set from \<and> c \<noteq> [] \<and> \<not> from_line (takeWhile (\<lambda>c. c \<noteq> NL) c))"

definition mbox_file :: "(char list \<times> char list) list \<Rightarrow> char list" where
  "mbox_file ds = concat (map (\<lambda>(from, c). mbox_entry from c) ds)"

lemma take_From_from_line: "take 5 l = ''From '' \<Longrightarrow> from_line l"
  by (cases l) (auto simp: from_line_def)

lemma quoted_lines_fine:
  assumes "good_delivery (from, c)"
  obtains k ls where "quoted_lines c = k # ls" "\<forall>l \<in> set (k # ls). NL \<notin> set l \<and> take 5 l \<noteq> ''From ''"
    "butlast (ended_lines (map unquote_line (k # ls))) = unended c"
    "butlast (ended_lines (map unquote_line (from # k # ls))) = from @ NL # unended c"
proof -
  have c: "c \<noteq> []" "\<not> from_line (takeWhile (\<lambda>c. c \<noteq> NL) c)" and f: "take 5 from = ''From ''" using assms by (simp_all add: good_delivery_def)
  have "body_lines c = takeWhile (\<lambda>c. c \<noteq> NL) c # map (takeWhile (\<lambda>c. c \<noteq> NL)) (tl (lines_of c))"
    using first_line(3) [OF c(1)] lines_of.simps [of c] by (simp add: body_lines_def)
  then obtain l ls where ls: "body_lines c = l # ls" "\<not> from_line l" using c(2) by blast
  have u: "unquote_line l = l" using ls(2) by (simp add: unquote_line_def)
  have uf: "unquote_line from = from" using f by (cases "from") (auto simp: unquote_line_def)
  have nl: "NL \<notin> set x" if "x = l \<or> x \<in> quote_line ` set ls" for x
    using that body_lines_plain [of _ c] ls(1) by (auto simp: quote_line_def)
  have nf: "take 5 x \<noteq> ''From ''" if "x = l \<or> x \<in> quote_line ` set ls" for x
    using that ls(2) take_From_from_line quote_not_from by blast
  have m: "map unquote_line (l # map quote_line ls) = body_lines c" using u ls(1) by (simp add: unquote_quote comp_def)
  have e: "ended c \<noteq> []" by (simp add: ended_def c)
  have "quoted_lines c = l # map quote_line ls" by (simp add: quoted_lines_def ls(1))
  moreover have "\<forall>x \<in> set (l # map quote_line ls). NL \<notin> set x \<and> take 5 x \<noteq> ''From ''" using nl nf by auto
  moreover have "butlast (ended_lines (map unquote_line (l # map quote_line ls))) = unended c"
    unfolding m ended_body_lines [OF c(1)] by (rule butlast_ended [OF c(1)])
  moreover have "butlast (ended_lines (map unquote_line (from # l # map quote_line ls))) = from @ NL # unended c"
    using m uf e by (simp add: ended_body_lines [OF c(1)] butlast_append butlast_ended [OF c(1)] del: map_map)
  ultimately show ?thesis using that by blast
qed

lemma next_entry:
  assumes "\<forall>x \<in> set ds. good_delivery x"
  shows "mbox_file ds = [] \<and> ds = [] \<or> (\<exists>g t. mbox_file ds = g @ NL # t \<and> NL \<notin> set g \<and> take 5 g = ''From '' \<and> g = fst (hd ds) \<and> ds \<noteq> [])"
proof (cases ds)
  case (Cons x xs)
  then have "mbox_file ds = fst x @ NL # ended_lines (quoted_lines (snd x) @ [[]]) @ mbox_file xs" "good_delivery x"
    using assms by (auto simp: mbox_file_def mbox_entry_def split: prod.splits)
  then show ?thesis using Cons by (auto simp: good_delivery_def split: prod.splits)
qed (simp add: mbox_file_def)

text \<open>The mails a number of calls of the state give.\<close>

fun read_mails :: "nat \<Rightarrow> mbox_env \<Rightarrow> fetch_mbox_data \<Rightarrow> mbox_ctx \<Rightarrow> (fetch_mbox_mail mail list \<times> fetch_mbox_data) res" where
  "read_mails 0 e d f = Inr ([], d)"
| "read_mails (Suc n) e d f = rbind (fetch_mbox_state_mail e d f) (\<lambda>(r, d, f).
     if r \<noteq> FETCH_MAIL then Inr ([], d)
     else rbind (read_mails n e d (f\<lparr>f_mail := new_mail\<rparr>)) (\<lambda>(ms, d). Inr (f_mail f # ms, d)))"

lemma mail_taken_simps:
  assumes "box_ok (Suc n) path base d"
  shows "box_ok n path base (mail_taken pos d)" "mb_off (mail_taken pos d) = pos" "mb_index (mail_taken pos d) = mb_index d"
  using assms by (simp_all add: box_ok_def mail_taken_def Let_def set_box_def)

lemma box_ok_less: "box_ok n path base d \<Longrightarrow> k \<le> n \<Longrightarrow> box_ok k path base d"
  by (auto simp: box_ok_def Let_def)

lemma behind_from:
  assumes r: "rest = [] \<and> ds = [] \<or> (\<exists>g t. rest = g @ NL # t \<and> NL \<notin> set g \<and> take 5 g = ''From '' \<and> g = fst (hd ds) \<and> ds \<noteq> [])"
  shows "length (takeWhile (\<lambda>c. c \<noteq> NL) rest) + (if rest = [] then 0 else 1) = (if ds = [] then 0 else length (fst (hd ds)) + 1)"
  using r
proof
  assume "\<exists>g t. rest = g @ NL # t \<and> NL \<notin> set g \<and> take 5 g = ''From '' \<and> g = fst (hd ds) \<and> ds \<noteq> []"
  then obtain g t where g: "rest = g @ NL # t" "NL \<notin> set g" "g = fst (hd ds)" "ds \<noteq> []" by blast
  have "\<forall>x \<in> set g. x \<noteq> NL" using g(2) by blast
  then show ?thesis using g by (simp add: takeWhile_append2)
qed simp

lemma read_rest:
  assumes "box_ok (length ds) path base d" and e: "env_fine e path base" and "base = pre @ mbox_file ds" "pre \<noteq> []"
    and "mb_off d = length pre + (if ds = [] then 0 else length (fst (hd ds)) + 1)" and "\<forall>x \<in> set ds. good_delivery x"
  shows "\<exists>ms d'. read_mails (length ds) e d f = Inr (ms, d') \<and> map content ms = map (\<lambda>(from, c). unended c) ds \<and> mb_off d' = length base"
  using assms(1,3-6)
proof (induction ds arbitrary: d f pre)
  case Nil
  then show ?case by (simp add: mbox_file_def)
next
  case (Cons x ds)
  obtain fr c where x: "x = (fr, c)" by (cases x)
  then have g: "good_delivery (fr, c)" using Cons.prems(5) by simp
  obtain k ls where q: "quoted_lines c = k # ls" "\<forall>l \<in> set (k # ls). NL \<notin> set l \<and> take 5 l \<noteq> ''From ''"
    "butlast (ended_lines (map unquote_line (k # ls))) = unended c" using quoted_lines_fine [OF g] by blast
  let ?pre = "pre @ fr @ [NL]" and ?E = "ended_lines ((k # ls) @ [[]])"
  have base: "base = ?pre @ ?E @ mbox_file ds" using Cons.prems(2) x q(1) by (simp add: mbox_file_def mbox_entry_def)
  have pos: "mb_off d = length ?pre" using Cons.prems(4) x by simp
  note nx = next_entry [of ds]
  have b1: "box_ok 1 path base d" using Cons.prems(1) by (rule box_ok_less) simp
  let ?pos = "length ?pre + length ?E + length (takeWhile (\<lambda>c. c \<noteq> NL) (mbox_file ds)) + (if mbox_file ds = [] then 0 else 1)"
  obtain m' where m': "fetch_mbox_state_mail e d f = Inr (FETCH_MAIL, mail_taken ?pos d, f\<lparr>f_mail := m'\<rparr>)" "content m' = unended c"
    using state_mail_region [OF b1 e base pos, of f] q(2,3) nx Cons.prems(5) by (auto simp del: ended_lines_simps)
  have "box_ok (Suc (length ds)) path base d" using Cons.prems(1) by simp
  note t = mail_taken_simps [OF this, of ?pos]
  have p: "?pos = length (?pre @ ?E) + (if ds = [] then 0 else length (fst (hd ds)) + 1)"
    using behind_from [OF nx] Cons.prems(5) by simp
  have "\<exists>ms d'. read_mails (length ds) e (mail_taken ?pos d) (f\<lparr>f_mail := new_mail\<rparr>) = Inr (ms, d') \<and>
      map content ms = map (\<lambda>(from, c). unended c) ds \<and> mb_off d' = length base"
    by (rule Cons.IH [OF t(1), of "?pre @ ?E"]) (use base t(2) p Cons.prems(5) in \<open>simp_all\<close>)
  then show ?case using m' x by auto
qed

lemma read_first:
  assumes b: "box_ok (Suc n) path base d" and e: "env_fine e path base" and base: "base = mbox_file ((fr, c) # ds)"
    and pos: "mb_off d = 0" and g: "good_delivery (fr, c)" "\<forall>x \<in> set ds. good_delivery x"
  shows "\<exists>m' pos. fetch_mbox_state_mail e d f = Inr (FETCH_MAIL, mail_taken pos d, f\<lparr>f_mail := m'\<rparr>) \<and>
    content m' = fr @ NL # unended c \<and> auxfree m' \<and> ax_mbox (the (auxdata m')) = mb_index d \<and> auxdata m' \<noteq> None \<and>
    pos = length (mbox_entry fr c) + (if ds = [] then 0 else length (fst (hd ds)) + 1)"
proof -
  obtain k ls where q: "quoted_lines c = k # ls" "\<forall>l \<in> set (k # ls). NL \<notin> set l \<and> take 5 l \<noteq> ''From ''"
    "butlast (ended_lines (map unquote_line (fr # k # ls))) = fr @ NL # unended c" using quoted_lines_fine [OF g(1)] by blast
  have fr: "NL \<notin> set fr" using g(1) by (simp add: good_delivery_def)
  have base': "base = [] @ ended_lines ((fr # k # ls) @ [[]]) @ mbox_file ds" "mb_off d = length []"
    using base pos q(1) by (simp_all add: mbox_file_def mbox_entry_def)
  have E: "ended_lines ((fr # k # ls) @ [[]]) = mbox_entry fr c" using q(1) by (simp add: mbox_entry_def)
  have b1: "box_ok 1 path base d" using b by (rule box_ok_less) simp
  note nx = next_entry [OF g(2)]
  have "[] = [] \<or> take 5 fr \<noteq> ''From ''" by simp
  from state_mail_region [OF b1 e base' fr this q(2)] nx behind_from [OF nx] q(3) E show ?thesis
    by (fastforce simp del: ended_lines_simps)
qed

section \<open>Properties\<close>

lemma make_from_From: "make_from ctime m user = Inr fr \<Longrightarrow> take 5 fr = ''From ''"
  by (auto simp: make_from_def rbind_Inr_iff)

definition from_of :: "denv \<Rightarrow> userdata \<Rightarrow> 'x mail \<Rightarrow> char list" where
  "from_of dv ud m = (case make_from (dv_ctime dv) m (ud_name ud) of Inl _ \<Rightarrow> [] | Inr fr \<Rightarrow> fr)"

definition delivered_text :: "denv \<Rightarrow> userdata \<Rightarrow> 'x mail \<Rightarrow> char list" where
  "delivered_text dv ud m = (case mbox_text dv False ud m of Inr (True, t) \<Rightarrow> t | _ \<Rightarrow> [])"

definition can_deliver :: "denv \<Rightarrow> userdata \<Rightarrow> 'x mail \<Rightarrow> bool" where
  "can_deliver dv ud m \<longleftrightarrow> mail_ok m \<and> content m \<noteq> [] \<and> \<not> from_line (takeWhile (\<lambda>c. c \<noteq> NL) (content m)) \<and>
     (\<exists>fr. make_from (dv_ctime dv) m (ud_name ud) = Inr fr \<and> NL \<notin> set fr)"

lemma can_deliver_good:
  assumes "can_deliver dv ud m"
  shows "good_delivery (from_of dv ud m, content m)" "delivered_text dv ud m = mbox_entry (from_of dv ud m) (content m)"
proof -
  obtain fr where fr: "make_from (dv_ctime dv) m (ud_name ud) = Inr fr" "NL \<notin> set fr"
    and m: "mail_ok m" "content m \<noteq> []" "\<not> from_line (takeWhile (\<lambda>c. c \<noteq> NL) (content m))"
    using assms unfolding can_deliver_def by blast
  show "good_delivery (from_of dv ud m, content m)" using fr m make_from_From [OF fr(1)] by (simp add: good_delivery_def from_of_def)
  show "delivered_text dv ud m = mbox_entry (from_of dv ud m) (content m)"
    using mbox_text_entry [OF m(1,2) fr(1), of False] fr(1) by (simp add: delivered_text_def from_of_def)
qed

text \<open>
  C11: the mails that deliveries have appended to an mbox are read back by the mbox fetch, one by one and in order, with
  quoted From lines restored and at most the newline at the very end lost. But only the first mail comes with
  its From line: that of every other one has been passed over together with the end of the mail before it.
\<close>

theorem mbox_roundtrip:
  assumes ms: "ms \<noteq> []" "\<forall>m \<in> set ms. can_deliver dv ud m" and base: "base = concat (map (delivered_text dv ud) ms)"
    and b: "box_ok (length ms) path base d" "mb_off d = 0" and e: "env_fine e path base"
  shows "\<exists>rs d'. read_mails (length ms) e d f = Inr (rs, d') \<and> mb_off d' = length base \<and>
    map content rs = (from_of dv ud (hd ms) @ NL # unended (content (hd ms))) # map (\<lambda>m. unended (content m)) (tl ms)"
proof -
  let ?x = "\<lambda>m. (from_of dv ud m, content m)"
  obtain m ns where n: "ms = m # ns" using ms(1) by (cases ms) auto
  have g: "good_delivery (?x m)" "\<forall>x \<in> set (map ?x ns). good_delivery x" using ms(2) n can_deliver_good(1) by auto
  have "delivered_text dv ud y = mbox_entry (from_of dv ud y) (content y)" if "y \<in> set ms" for y
    using that ms(2) can_deliver_good(2) by blast
  then have t: "map (delivered_text dv ud) ms = map (\<lambda>y. mbox_entry (from_of dv ud y) (content y)) ms" by simp
  have base': "base = mbox_file (?x m # map ?x ns)" unfolding base t by (simp add: n mbox_file_def comp_def)
  have b': "box_ok (Suc (length (map ?x ns))) path base d" using b(1) n by simp
  obtain m1 pos where m1: "fetch_mbox_state_mail e d f = Inr (FETCH_MAIL, mail_taken pos d, f\<lparr>f_mail := m1\<rparr>)"
      "content m1 = from_of dv ud m @ NL # unended (content m)"
      "pos = length (mbox_entry (from_of dv ud m) (content m)) + (if map ?x ns = [] then 0 else length (fst (hd (map ?x ns))) + 1)"
    using read_first [OF b' e base' b(2) g, of f] by blast
  note t = mail_taken_simps [OF b', of pos]
  have split: "base = mbox_entry (from_of dv ud m) (content m) @ mbox_file (map ?x ns)" using base' by (simp add: mbox_file_def)
  have ne: "mbox_entry (from_of dv ud m) (content m) \<noteq> []" by (simp add: mbox_entry_def)
  obtain rs d' where "read_mails (length ns) e (mail_taken pos d) (f\<lparr>f_mail := new_mail\<rparr>) = Inr (rs, d')" "mb_off d' = length base"
      "map content rs = map (\<lambda>(fr, c). unended c) (map ?x ns)"
    using read_rest [OF t(1) e split ne _ g(2), of "f\<lparr>f_mail := new_mail\<rparr>"] t(2) m1(3) by auto
  then show ?thesis using m1(1,2) n by (auto simp: comp_def)
qed

lemma sample_delivered:
  "delivered_text sample_denv sample_ud sample_tagged = ''From joe Thu Jan  1 00:00:00 1970'' @ NL # sample_text @ [NL]"
  by code_simp

lemma sample_can_deliver: "can_deliver sample_denv sample_ud sample_tagged"
proof -
  have "make_from (dv_ctime sample_denv) sample_tagged (ud_name sample_ud) = Inr ''From joe Thu Jan  1 00:00:00 1970''" by code_simp
  moreover have "content sample_tagged = sample_text" using sample_mail_ok(2) by (simp add: content_def sample_tagged_def)
  ultimately show ?thesis using sample_tagged_ok by (simp add: can_deliver_def sample_text_def from_line_def)
qed

definition sample_menv :: mbox_env where
  "sample_menv = \<lparr>me_d = sample_denv, me_glob = (\<lambda>p. Some [p]), me_mktemp = (\<lambda>t. ''tmp''), me_trunc = (\<lambda>_. True), me_mmap = (\<lambda>_. True),
     me_others = (\<lambda>_. (0, \<lambda>s. s)), me_tags = Inr, me_shm = (\<lambda>_. True), me_max_size = 1000\<rparr>"

lemma sample_tags_fine: "tags_fine sample_menv ''box''"
proof -
  have n: "xbasename ''box'' = ''box''" "xdirname ''box'' = ''.''" by (simp_all add: xbasename_def xdirname_def MAXPATHLEN_def)
  have f: "ent_max strb_create = 64" "ent_used strb_create = 0" "str_used strb_create = 0" "STRB_ENTSIZE strb_create = 1024"
    by (simp_all add: strb_create_def strb_clear_def STRBENTRIES_def STRB_ENTSIZE_def)
  have "\<exists>sb. add_all strb_add strb_create [(''mbox'', ''box''), (''mbox_path'', ''.''), (''mbox_file'', ''box'')] = Inr sb"
    by (rule strb_add_all_returns) (use strb_create_ok f in \<open>simp_all add: is_cstr_def INT_MAX_def STRBOFFSET_def SIZE_MAX_def card_insert_if\<close>)
  moreover have "strb_add = add_tag" by (simp add: fun_eq_iff strb_add_def add_tag_def)
  ultimately show ?thesis by (simp add: tags_fine_def sample_menv_def n del: add_all.simps)
qed

definition sample_mbox :: "char list \<Rightarrow> fetch_mbox_data" where
  "sample_mbox t = \<lparr>mb_mboxes = [''box''], mb_boxes = [\<lparr>bx_path = ''box'', bx_reference = 0, bx_total = 0, bx_fd = True,
     bx_base = Some t, bx_size = length t\<rparr>], mb_index = 0, mb_off = 0, mb_kept = [], mb_fs = \<lparr>nodes = [''box'' \<mapsto> File t], clean = []\<rparr>\<rparr>"

definition sample_mctx :: mbox_ctx where
  "sample_mctx = \<lparr>f_state = Mbox_mail, FETCH_PURGE = False, FETCH_EMPTY = True, FETCH_POLL = False, f_mail = new_mail\<rparr>"

lemma mbox_roundtrip_witness:
  "\<exists>rs d'. read_mails 2 sample_menv (sample_mbox (concat (map (delivered_text sample_denv sample_ud) [sample_tagged, sample_tagged]))) sample_mctx =
      Inr (rs, d') \<and> map content rs = [''From joe Thu Jan  1 00:00:00 1970'' @ NL # butlast sample_text, butlast sample_text]"
proof -
  let ?t = "concat (map (delivered_text sample_denv sample_ud) [sample_tagged, sample_tagged])"
  have c: "content sample_tagged = sample_text" using sample_mail_ok(2) by (simp add: content_def sample_tagged_def)
  have f: "from_of sample_denv sample_ud sample_tagged = ''From joe Thu Jan  1 00:00:00 1970''" by code_simp
  have u: "unended sample_text = butlast sample_text" by (simp add: unended_def sample_text_def)
  have b: "box_ok (length [sample_tagged, sample_tagged]) ''box'' ?t (sample_mbox ?t)" by (simp add: box_ok_def sample_mbox_def)
  have "length ?t < 1000" by (simp add: sample_delivered sample_text_def)
  then have e: "env_fine sample_menv ''box'' ?t" using sample_tags_fine by (simp add: env_fine_def sample_menv_def SIZE_MAX_def)
  have off: "mb_off (sample_mbox ?t) = 0" by (simp add: sample_mbox_def)
  from mbox_roundtrip [OF _ _ refl b off e, of sample_mctx] sample_can_deliver
  show ?thesis by (auto simp: c f u numeral_2_eq_2)
qed

section \<open>Saving what was kept\<close>

definition quiet_menv :: "mbox_env \<Rightarrow> bool" where
  "quiet_menv e \<longleftrightarrow> dv_sys (me_d e) = quiet_env \<and> (\<forall>p. dv_write (me_d e) p = None)"

lemma replace_mbox_quiet:
  assumes e: "quiet_menv e" and n: "nodes s path = Some (File t)" "nodes s tmp = Some (File u)" "nodes s saved = None"
    and d: "path \<noteq> tmp" "path \<noteq> saved" "tmp \<noteq> saved"
  obtains s' where "replace_mbox e path tmp saved s = (True, s')" "nodes s' = (nodes s)(path \<mapsto> File u, tmp := None)"
proof -
  have x: "replace_mbox e path tmp saved s =
      (True, s\<lparr>nodes := ((((nodes s)(saved \<mapsto> File t))(path := None))(path \<mapsto> File u))(tmp := None, saved := None)\<rparr>)"
    using assms by (simp add: replace_mbox_def step_link_def step_unlink_def sys_link_def sys_unlink_def quiet_menv_def quiet_env_def)
  have "(((nodes s)(saved \<mapsto> File t))(path := None, path \<mapsto> File u))(tmp := None, saved := None) = (nodes s)(path \<mapsto> File u, tmp := None)"
    using n d by (auto simp: fun_eq_iff)
  then show ?thesis using that [OF x] by simp
qed

lemma ended_lines_end: "ls \<noteq> [] \<Longrightarrow> ended_lines ls = butlast (ended_lines ls) @ [NL]"
  by (cases ls rule: rev_cases) (simp_all add: butlast_append)

lemma take_From_line: "take 5 w \<noteq> ''From '' \<Longrightarrow> take 5 (w @ NL # r) \<noteq> ''From ''"
proof (cases "5 \<le> length w")
  case False
  then have "NL \<in> set (take 5 (w @ NL # r))" by (simp add: take_Cons')
  moreover have "NL \<notin> set ''From ''" by simp
  ultimately show "take 5 (w @ NL # r) \<noteq> ''From ''" by metis
qed simp

text \<open>The reading of two deliveries, with what the data and the second mail are then.\<close>

lemma read_two:
  assumes g: "good_delivery (f1, c1)" "good_delivery (f2, c2)" and base: "base = mbox_file [(f1, c1), (f2, c2)]"
    and b: "box_ok 2 path base d" "mb_off d = 0" and e: "env_fine e path base"
  shows "\<exists>r1 r2 p q a1 a2. read_mails 2 e d f = Inr ([r1, r2], mail_taken q (mail_taken p d)) \<and>
    auxfree r1 \<and> auxdata r1 = Some a1 \<and> ax_mbox a1 = mb_index d \<and> auxfree r2 \<and> auxdata r2 = Some a2 \<and> ax_mbox a2 = mb_index d \<and>
    mem_read base (ax_off a2) (ax_size a2) = Inr (butlast (ended_lines (quoted_lines c2)))"
proof -
  have b2: "box_ok (Suc 1) path base d" using b(1) by (simp add: numeral_2_eq_2)
  have g2: "\<forall>x \<in> set [(f2, c2)]. good_delivery x" using g(2) by simp
  obtain r1 p where r1: "fetch_mbox_state_mail e d f = Inr (FETCH_MAIL, mail_taken p d, f\<lparr>f_mail := r1\<rparr>)" "auxfree r1"
      "ax_mbox (the (auxdata r1)) = mb_index d" "auxdata r1 \<noteq> None" "p = length (mbox_entry f1 c1) + (length f2 + 1)"
    using read_first [OF b2 e base b(2) g(1) g2, of f] by auto
  note t = mail_taken_simps [OF b2, of p]
  obtain k ls where q: "quoted_lines c2 = k # ls" "\<forall>l \<in> set (k # ls). NL \<notin> set l \<and> take 5 l \<noteq> ''From ''"
    using quoted_lines_fine [OF g(2)] by blast
  let ?pre = "mbox_entry f1 c1 @ f2 @ [NL]"
  have base2: "base = ?pre @ ended_lines ((k # ls) @ [[]]) @ []" using base q(1) by (simp add: mbox_file_def mbox_entry_def)
  have k: "NL \<notin> set k" "?pre = [] \<or> take 5 k \<noteq> ''From ''" and ls: "\<forall>l \<in> set ls. NL \<notin> set l \<and> take 5 l \<noteq> ''From ''" using q(2) by simp_all
  have pos: "mb_off (mail_taken p d) = length ?pre" using t(2) r1(5) by simp
  have b1: "box_ok 1 path base (mail_taken p d)" using t(1) .
  obtain r2 q2 where r2: "fetch_mbox_state_mail e (mail_taken p d) (f\<lparr>f_mail := new_mail\<rparr>) =
        Inr (FETCH_MAIL, mail_taken q2 (mail_taken p d), f\<lparr>f_mail := r2\<rparr>)"
      "auxfree r2" "auxdata r2 = Some \<lparr>ax_off = length ?pre, ax_size = length (ended_lines (k # ls)) - 1, ax_mbox = mb_index d\<rparr>"
    using state_mail_region [OF b1 e base2 pos k ls, of "f\<lparr>f_mail := new_mail\<rparr>"] t(3) by (auto simp del: ended_lines_simps)
  have "read_mails 2 e d f = Inr ([r1, r2], mail_taken q2 (mail_taken p d))" using r1(1) r2(1) by (simp add: numeral_2_eq_2)
  moreover have "mem_read base (length ?pre) (length (ended_lines (k # ls)) - 1) = Inr (butlast (ended_lines (quoted_lines c2)))"
  proof -
    have "base = ?pre @ ended_lines (k # ls) @ [NL]" using base2 by simp
    then show ?thesis unfolding mem_read_def q(1) by (simp add: butlast_conv_take del: ended_lines_simps)
  qed
  ultimately show ?thesis using r1 r2 by force
qed

lemma save_one:
  assumes e: "quiet_menv e" and b: "mb_boxes d = [b]" "bx_path b = path" "bx_reference b = 1" "bx_total b = 2" "bx_base b = Some base"
    and k: "mb_kept d = [(False, aux)]" "ax_mbox aux = 0" "mem_read base (ax_off aux) (ax_size aux) = Inr t"
    and fs: "nodes (mb_fs d) path = Some (File base)" "nodes (mb_fs d) (path @ ''.XXXXXXXXXX'') = None"
      "nodes (mb_fs d) (me_mktemp e (path @ ''.XXXXXXXXXX'')) = None" "me_mktemp e (path @ ''.XXXXXXXXXX'') \<noteq> path @ ''.XXXXXXXXXX''"
      "length path + 11 < MAXPATHLEN"
  shows "\<exists>d'. fetch_mbox_save e 0 d = Inr (True, d') \<and> nodes (mb_fs d') = (nodes (mb_fs d))(path \<mapsto> File (t @ [NL]))"
proof -
  let ?saved = "path @ ''.XXXXXXXXXX''"
  obtain tmp where tmp: "tmp = me_mktemp e ?saved" by simp
  let ?s = "(mb_fs d)\<lparr>nodes := (nodes (mb_fs d))(tmp \<mapsto> File (t @ [NL]))\<rparr>"
  let ?d = "set_box 0 (b\<lparr>bx_reference := 0\<rparr>) (d\<lparr>mb_fs := ?s\<rparr>)"
  have w: "dv_write (me_d e) tmp = None" using e by (simp add: quiet_menv_def)
  have copy: "copy_kept e 0 (bx_base b) tmp [] (mb_kept d) (d\<lparr>mb_fs := (mb_fs d)\<lparr>nodes := (nodes (mb_fs d))(tmp \<mapsto> File [])\<rparr>\<rparr>) =
      Inr (True, ?d\<lparr>mb_kept := []\<rparr>)"
    using b k w by (simp add: sys_append_def fetch_mbox_free_def the_box_def set_box_def)
  have ne: "tmp \<noteq> path" "path \<noteq> ?saved" "tmp \<noteq> ?saved" using fs tmp by auto
  have ns: "nodes ?s path = Some (File base)" "nodes ?s tmp = Some (File (t @ [NL]))" "nodes ?s ?saved = None" using fs ne by simp_all
  obtain s' where s': "replace_mbox e path tmp ?saved ?s = (True, s')" "nodes s' = (nodes ?s)(path \<mapsto> File (t @ [NL]), tmp := None)"
    using replace_mbox_quiet [OF e ns _ ne(2,3)] ne(1) by metis
  have "nodes s' = (nodes (mb_fs d))(path \<mapsto> File (t @ [NL]))" using s'(2) ne(1) fs(3) tmp by (auto simp: fun_eq_iff)
  moreover have "fetch_mbox_save e 0 d = Inr (True, ?d\<lparr>mb_kept := [], mb_fs := s'\<rparr>)"
  proof -
    have "length ?saved < MAXPATHLEN" using fs(5) by simp
    then show ?thesis using b copy s'(1) fs(3) tmp k
      by (simp add: fetch_mbox_save_def the_box_def Let_def mbox_free_all_def set_box_def del: copy_kept.simps)
  qed
  ultimately show ?thesis by simp
qed

text \<open>
  keeping one mail of two ruins the mbox. When the first of two delivered mails has been dropped and the second kept, what
  is saved is the text of the second mail without its From line, so that the file is no mbox any more.
\<close>

theorem mbox_partial_save:
  assumes ms: "can_deliver dv ud m1" "can_deliver dv ud m2" and base: "base = delivered_text dv ud m1 @ delivered_text dv ud m2"
    and d: "mb_boxes d = [\<lparr>bx_path = path, bx_reference = 0, bx_total = 0, bx_fd = True, bx_base = Some base, bx_size = length base\<rparr>]"
      "mb_index d = 0" "mb_off d = 0" "mb_kept d = []"
    and e: "env_fine e path base" "quiet_menv e"
    and fs: "nodes (mb_fs d) path = Some (File base)" "nodes (mb_fs d) (path @ ''.XXXXXXXXXX'') = None"
      "nodes (mb_fs d) (me_mktemp e (path @ ''.XXXXXXXXXX'')) = None" "me_mktemp e (path @ ''.XXXXXXXXXX'') \<noteq> path @ ''.XXXXXXXXXX''"
      "length path + 11 < MAXPATHLEN"
  shows "\<exists>r1 r2 d1 d2 d3 d4 n1 n2. read_mails 2 e d f = Inr ([r1, r2], d1) \<and>
    mbox_settle d1 (r1\<lparr>decision := DECISION_DROP\<rparr>) = Inr (FETCH_AGAIN, d2, n1) \<and>
    mbox_settle d2 (r2\<lparr>decision := DECISION_KEEP\<rparr>) = Inr (FETCH_AGAIN, d3, n2) \<and>
    fetch_mbox_save e 0 d3 = Inr (True, d4) \<and>
    nodes (mb_fs d4) = (nodes (mb_fs d))(path \<mapsto> File (ended_lines (quoted_lines (content m2)))) \<and>
    take 5 (ended_lines (quoted_lines (content m2))) \<noteq> ''From ''"
proof -
  let ?x = "\<lambda>m. (from_of dv ud m, content m)" and ?q = "quoted_lines (content m2)"
  note g = can_deliver_good(1) [OF ms(1)] can_deliver_good(1) [OF ms(2)]
  have base': "base = mbox_file [?x m1, ?x m2]" using base can_deliver_good(2) [OF ms(1)] can_deliver_good(2) [OF ms(2)] by (simp add: mbox_file_def)
  have b: "box_ok 2 path base d" using d by (simp add: box_ok_def)
  obtain r1 r2 p q a1 a2 where r: "read_mails 2 e d f = Inr ([r1, r2], mail_taken q (mail_taken p d))"
      "auxfree r1" "auxdata r1 = Some a1" "ax_mbox a1 = 0" "auxfree r2" "auxdata r2 = Some a2" "ax_mbox a2 = 0"
      "mem_read base (ax_off a2) (ax_size a2) = Inr (butlast (ended_lines ?q))"
    using read_two [OF g base' b d(3) e(1), of f] d(2) by auto
  let ?d1 = "mail_taken q (mail_taken p d)"
  let ?b = "\<lparr>bx_path = path, bx_reference = 1, bx_total = 2, bx_fd = True, bx_base = Some base, bx_size = length base\<rparr>"
  let ?d2 = "?d1\<lparr>mb_boxes := [?b]\<rparr>"
  have s1: "mbox_settle ?d1 (r1\<lparr>decision := DECISION_DROP\<rparr>) = Inr (FETCH_AGAIN, ?d2, r1\<lparr>decision := DECISION_DROP\<rparr>)"
    using r(2-4) d by (simp add: mbox_settle_def fetch_mbox_commit_def mail_destroy_def mail_free_def fetch_mbox_free_def the_box_def
        set_box_def mail_taken_def Let_def)
  have s2: "mbox_settle ?d2 (r2\<lparr>decision := DECISION_KEEP\<rparr>) =
      Inr (FETCH_AGAIN, ?d2\<lparr>mb_kept := [(False, a2)]\<rparr>, r2\<lparr>decision := DECISION_KEEP, auxfree := False\<rparr>)"
    using r(5-7) d by (simp add: mbox_settle_def fetch_mbox_commit_def mail_destroy_def mail_free_def mail_taken_def set_box_def Let_def)
  obtain k ls where k: "?q = k # ls" "take 5 k \<noteq> ''From ''" using quoted_lines_fine [OF g(2)] by (metis list.set_intros(1))
  have end': "butlast (ended_lines ?q) @ [NL] = ended_lines ?q" using ended_lines_end [of ?q] k(1) by simp
  have fs': "mb_fs (?d2\<lparr>mb_kept := [(False, a2)]\<rparr>) = mb_fs d" by (simp add: mail_taken_def set_box_def Let_def)
  obtain d4 where "fetch_mbox_save e 0 (?d2\<lparr>mb_kept := [(False, a2)]\<rparr>) = Inr (True, d4)"
      "nodes (mb_fs d4) = (nodes (mb_fs d))(path \<mapsto> File (ended_lines ?q))"
    using save_one [OF e(2), of "?d2\<lparr>mb_kept := [(False, a2)]\<rparr>" ?b path base a2 "butlast (ended_lines ?q)"] r(7,8) fs end' fs' by auto
  moreover have "take 5 (ended_lines ?q) \<noteq> ''From ''" using take_From_line [OF k(2)] k(1) by simp
  ultimately show ?thesis using r(1) s1 s2 by blast
qed

lemma mbox_partial_save_witness:
  "\<exists>r1 r2 d1 d2 d3 d4 n1 n2.
    read_mails 2 sample_menv (sample_mbox (delivered_text sample_denv sample_ud sample_tagged @ delivered_text sample_denv sample_ud sample_tagged))
      sample_mctx = Inr ([r1, r2], d1) \<and>
    mbox_settle d1 (r1\<lparr>decision := DECISION_DROP\<rparr>) = Inr (FETCH_AGAIN, d2, n1) \<and>
    mbox_settle d2 (r2\<lparr>decision := DECISION_KEEP\<rparr>) = Inr (FETCH_AGAIN, d3, n2) \<and>
    fetch_mbox_save sample_menv 0 d3 = Inr (True, d4) \<and> nodes (mb_fs d4) = [''box'' \<mapsto> File sample_text]"
proof -
  let ?t = "delivered_text sample_denv sample_ud sample_tagged @ delivered_text sample_denv sample_ud sample_tagged"
  have "content sample_tagged = sample_text" using sample_mail_ok(2) by (simp add: content_def sample_tagged_def)
  moreover have "ended_lines (quoted_lines sample_text) = sample_text" by code_simp
  ultimately have t: "ended_lines (quoted_lines (content sample_tagged)) = sample_text" by simp
  have "length ?t < 1000" by (simp add: sample_delivered sample_text_def)
  then have e: "env_fine sample_menv ''box'' ?t" using sample_tags_fine by (simp add: env_fine_def sample_menv_def SIZE_MAX_def)
  have q: "quiet_menv sample_menv" by (simp add: quiet_menv_def sample_menv_def sample_denv_def)
  from mbox_partial_save [OF sample_can_deliver sample_can_deliver refl _ _ _ _ e q, of "sample_mbox ?t" sample_mctx]
  show ?thesis by (fastforce simp: sample_mbox_def sample_menv_def MAXPATHLEN_def t)
qed

end
