(* ===== verification/Cache.thy ===== *)
theory Cache imports MailState "HOL-Library.DAList" begin

text \<open>
  The caches of keys (\<^verbatim>\<open>db-tdb.c\<close>, \<^verbatim>\<open>cache-op.c\<close>, \<open>open_cache\<close> of \<^verbatim>\<open>child-fetch.c\<close>) and the actions on
  them (\<^verbatim>\<open>deliver-add-to-cache.c\<close>, \<^verbatim>\<open>deliver-remove-from-cache.c\<close>). The database library is a parameter: the functions
  that are called, and what its manual says of them (\<open>tdb_law\<close>).
\<close>

section \<open>The library\<close>

text \<open>\<open>tdb_traverse\<close> gets the function it calls for each record, which may change the database.\<close>

record 'db tdb =
  tdb_open :: "char list \<Rightarrow> 'db option"
  tdb_store :: "'db \<Rightarrow> char list \<Rightarrow> char list \<Rightarrow> int \<times> 'db"
  tdb_delete :: "'db \<Rightarrow> char list \<Rightarrow> int \<times> 'db"
  tdb_exists :: "'db \<Rightarrow> char list \<Rightarrow> bool"
  tdb_traverse :: "'db \<Rightarrow> ('db \<Rightarrow> char list \<Rightarrow> char list \<Rightarrow> int \<times> 'db) \<Rightarrow> int \<times> 'db"
  tdb_records :: "'db \<Rightarrow> (char list \<times> char list) list"

text \<open>The function is called for one record after the other until it returns something else than 0.\<close>

fun visit :: "('db \<Rightarrow> char list \<Rightarrow> char list \<Rightarrow> int \<times> 'db) \<Rightarrow> (char list \<times> char list) list \<Rightarrow> int \<Rightarrow> 'db \<Rightarrow> int \<times> 'db" where
  "visit f [] n db = (n, db)"
| "visit f ((k, v) # kvs) n db = (case f db k v of (r, db) \<Rightarrow> if r \<noteq> 0 then (n + 1, db) else visit f kvs (n + 1) db)"

definition tdb_law :: "'db tdb \<Rightarrow> bool" where
  "tdb_law t \<longleftrightarrow>
     (\<forall>db. distinct (map fst (tdb_records t db))) \<and>
     (\<forall>db k v. fst (tdb_store t db k v) = 0 \<longrightarrow>
        map_of (tdb_records t (snd (tdb_store t db k v))) = (map_of (tdb_records t db))(k \<mapsto> v)) \<and>
     (\<forall>db k. fst (tdb_delete t db k) = 0 \<longrightarrow> map_of (tdb_records t (snd (tdb_delete t db k))) = (map_of (tdb_records t db))(k := None)) \<and>
     (\<forall>db k. tdb_exists t db k \<longleftrightarrow> k \<in> dom (map_of (tdb_records t db))) \<and>
     (\<forall>db f. tdb_traverse t db f = visit f (tdb_records t db) 0 db)"

section \<open>Items\<close>

text \<open>\<open>struct cacheitem\<close>: the time with its least byte first, and 16 bytes of padding.\<close>

fun put_le :: "nat \<Rightarrow> nat \<Rightarrow> char list" where
  "put_le 0 n = []"
| "put_le (Suc k) n = char_of (n mod 256) # put_le k (n div 256)"

fun get_le :: "char list \<Rightarrow> nat" where
  "get_le [] = 0"
| "get_le (c # cs) = of_char c + 256 * get_le cs"

definition cacheitem :: "nat \<Rightarrow> char list" where
  "cacheitem tim = put_le 8 (tim mod 2 ^ 64) @ replicate 16 NUL"

definition item_time :: "char list \<Rightarrow> nat" where
  "item_time v = get_le (take 8 v)"

definition item_size :: nat where "item_size = 24"

section \<open>Operations\<close>

definition db_open :: "'db tdb \<Rightarrow> char list \<Rightarrow> 'db option" where
  "db_open t path = tdb_open t path"

definition db_add :: "'db tdb \<Rightarrow> nat \<Rightarrow> 'db \<Rightarrow> char list \<Rightarrow> int \<times> 'db" where
  "db_add t now db k = tdb_store t db k (cacheitem now)"

definition db_remove :: "'db tdb \<Rightarrow> 'db \<Rightarrow> char list \<Rightarrow> int \<times> 'db" where
  "db_remove t db k = tdb_delete t db k"

definition db_contains :: "'db tdb \<Rightarrow> 'db \<Rightarrow> char list \<Rightarrow> bool" where
  "db_contains t db k = tdb_exists t db k"

definition db_size :: "'db tdb \<Rightarrow> 'db \<Rightarrow> int" where
  "db_size t db = fst (tdb_traverse t db (\<lambda>db k v. (0, db)))"

definition db_expire_item :: "'db tdb \<Rightarrow> nat \<Rightarrow> 'db \<Rightarrow> char list \<Rightarrow> char list \<Rightarrow> int \<times> 'db" where
  "db_expire_item t lim db k v =
     (if length v \<noteq> item_size then (- 1, db) else if item_time v < lim then tdb_delete t db k else (0, db))"

definition db_expire :: "'db tdb \<Rightarrow> nat \<Rightarrow> 'db \<Rightarrow> nat \<Rightarrow> int \<times> 'db" where
  "db_expire t now db age =
     (if now \<le> age then (0, db)
      else case tdb_traverse t db (db_expire_item t (now - age)) of (n, db) \<Rightarrow> (if n = - 1 then - 1 else 0, db))"

definition db_clear_item :: "'db tdb \<Rightarrow> 'db \<Rightarrow> char list \<Rightarrow> char list \<Rightarrow> int \<times> 'db" where
  "db_clear_item t db k v = (if length v \<noteq> item_size then (- 1, db) else tdb_delete t db k)"

definition db_clear :: "'db tdb \<Rightarrow> 'db \<Rightarrow> int \<times> 'db" where
  "db_clear t db = (case tdb_traverse t db (db_clear_item t) of (n, db) \<Rightarrow> (if n = - 1 then - 1 else 0, db))"

text \<open>What is printed goes with the database, as the list of lines.\<close>

definition db_print_item :: "'db \<times> char list list \<Rightarrow> char list \<Rightarrow> char list \<Rightarrow> int \<times> ('db \<times> char list list)" where
  "db_print_item s k v =
     (if length v \<noteq> item_size then (- 1, s) else (0, fst s, snd s @ [cstr k @ '' '' @ show_nat (item_time v)]))"

definition db_print :: "'db tdb \<Rightarrow> 'db \<Rightarrow> char list list" where
  "db_print t db = snd (snd (visit db_print_item (tdb_records t db) 0 (db, [])))"

section \<open>The caches of the configuration\<close>

record 'db cache =
  ca_db :: "'db option"
  ca_path :: "char list"
  ca_expire :: nat

text \<open>A cache that could not be expired stays open.\<close>

definition open_cache :: "'db tdb \<Rightarrow> nat \<Rightarrow> 'db cache \<Rightarrow> int \<times> 'db cache" where
  "open_cache t now c = (case ca_db c of
     Some _ \<Rightarrow> (0, c)
   | None \<Rightarrow> (case db_open t (ca_path c) of
        None \<Rightarrow> (- 1, c)
      | Some db \<Rightarrow>
          if ca_expire c = 0 then (0, c\<lparr>ca_db := Some db\<rparr>)
          else case db_expire t now db (ca_expire c) of (r, db) \<Rightarrow> (if r \<noteq> 0 then - 1 else 0, c\<lparr>ca_db := Some db\<rparr>)))"

text \<open>The first cache with a path is opened and used.\<close>

fun with_cache :: "'db tdb \<Rightarrow> nat \<Rightarrow> char list \<Rightarrow> ('db \<Rightarrow> int \<times> 'db) \<Rightarrow> 'db cache list \<Rightarrow> bool \<times> 'db cache list" where
  "with_cache t now path f [] = (False, [])"
| "with_cache t now path f (c # cs) =
     (if path = ca_path c then
        (case open_cache t now c of (r, c) \<Rightarrow>
           if r \<noteq> 0 then (False, c # cs)
           else case ca_db c of
             None \<Rightarrow> (False, c # cs)
           | Some db \<Rightarrow> (case f db of (r, db) \<Rightarrow> (r = 0, c\<lparr>ca_db := Some db\<rparr> # cs)))
      else case with_cache t now path f cs of (ok, cs) \<Rightarrow> (ok, c # cs))"

definition deliver_add_to_cache_deliver ::
    "'db tdb \<Rightarrow> nat \<Rightarrow> conf \<Rightarrow> char list \<Rightarrow> char list \<Rightarrow> 'x mail \<Rightarrow> 'db cache list \<Rightarrow> (bool \<times> 'db cache list) res" where
  "deliver_add_to_cache_deliver t now cf path key m cs = rbind (mail_replace cf m key) (\<lambda>k. case k of
     None \<Rightarrow> Inr (False, cs)
   | Some k \<Rightarrow> if k = [] then Inr (False, cs) else Inr (with_cache t now path (\<lambda>db. db_add t now db k) cs))"

definition deliver_remove_from_cache_deliver ::
    "'db tdb \<Rightarrow> nat \<Rightarrow> conf \<Rightarrow> char list \<Rightarrow> char list \<Rightarrow> 'x mail \<Rightarrow> 'db cache list \<Rightarrow> (bool \<times> 'db cache list) res" where
  "deliver_remove_from_cache_deliver t now cf path key m cs = rbind (mail_replace cf m key) (\<lambda>k. case k of
     None \<Rightarrow> Inr (False, cs)
   | Some k \<Rightarrow>
       if k = [] then Inr (False, cs)
       else Inr (with_cache t now path (\<lambda>db. if db_contains t db k then db_remove t db k else (0, db)) cs))"

section \<open>The cache command\<close>

text \<open>The result is the exit status (\<open>None\<close> for the usage message), what is printed, and the database.\<close>

datatype cache_cmd = CacheAdd | CacheRemove | CacheList | CacheDump | CacheClear

definition cache_cmd_of :: "char list \<Rightarrow> cache_cmd option" where
  "cache_cmd_of cmd =
     (if take (length cmd) ''add'' = cmd then Some CacheAdd
      else if take (length cmd) ''remove'' = cmd then Some CacheRemove
      else if take (length cmd) ''list'' = cmd then Some CacheList
      else if take (length cmd) ''dump'' = cmd then Some CacheDump
      else if take (length cmd) ''clear'' = cmd then Some CacheClear
      else None)"

type_synonym 'db op_result = "nat option \<times> char list list \<times> 'db option"

definition cache_op_add :: "'db tdb \<Rightarrow> nat \<Rightarrow> char list list \<Rightarrow> 'db op_result" where
  "cache_op_add t now args = (case args of
     [path, key] \<Rightarrow> (case db_open t path of
         None \<Rightarrow> (Some 1, [], None)
       | Some db \<Rightarrow> (case db_add t now db key of (r, db) \<Rightarrow> (Some (if r \<noteq> 0 then 1 else 0), [], Some db)))
   | _ \<Rightarrow> (None, [], None))"

definition cache_op_remove :: "'db tdb \<Rightarrow> char list list \<Rightarrow> 'db op_result" where
  "cache_op_remove t args = (case args of
     [path, key] \<Rightarrow> (case db_open t path of
         None \<Rightarrow> (Some 1, [], None)
       | Some db \<Rightarrow>
           if \<not> db_contains t db key then (Some 1, [], Some db)
           else case db_remove t db key of (r, db) \<Rightarrow> (Some (if r \<noteq> 0 then 1 else 0), [], Some db))
   | _ \<Rightarrow> (None, [], None))"

definition keys_line :: "'db tdb \<Rightarrow> char list \<Rightarrow> 'db \<Rightarrow> char list" where
  "keys_line t path db = path @ '': '' @ show_nat (nat (db_size t db mod 2 ^ 32)) @ '' keys''"

fun list_caches :: "'db tdb \<Rightarrow> char list list \<Rightarrow> char list list \<Rightarrow> 'db op_result" where
  "list_caches t [] out = (Some 0, out, None)"
| "list_caches t (p # ps) out = (case db_open t p of
     None \<Rightarrow> (Some 1, out, None) | Some db \<Rightarrow> list_caches t ps (out @ [keys_line t p db]))"

definition cache_op_list :: "'db tdb \<Rightarrow> conf \<Rightarrow> char list list \<Rightarrow> 'db op_result" where
  "cache_op_list t cf args = (case args of
     [path] \<Rightarrow> (case db_open t path of None \<Rightarrow> (Some 1, [], None) | Some db \<Rightarrow> (Some 0, [keys_line t path db], Some db))
   | [] \<Rightarrow> list_caches t (conf_caches cf) []
   | _ \<Rightarrow> (None, [], None))"

definition cache_op_dump :: "'db tdb \<Rightarrow> char list list \<Rightarrow> 'db op_result" where
  "cache_op_dump t args = (case args of
     [path] \<Rightarrow> (case db_open t path of None \<Rightarrow> (Some 1, [], None) | Some db \<Rightarrow> (Some 0, db_print t db, Some db))
   | _ \<Rightarrow> (None, [], None))"

definition cache_op_clear :: "'db tdb \<Rightarrow> char list list \<Rightarrow> 'db op_result" where
  "cache_op_clear t args = (case args of
     [path] \<Rightarrow> (case db_open t path of
         None \<Rightarrow> (Some 1, [], None)
       | Some db \<Rightarrow> (case db_clear t db of (r, db) \<Rightarrow> (Some (if r \<noteq> 0 then 1 else 0), [], Some db)))
   | _ \<Rightarrow> (None, [], None))"

definition cache_op :: "'db tdb \<Rightarrow> nat \<Rightarrow> conf \<Rightarrow> char list list \<Rightarrow> 'db op_result" where
  "cache_op t now cf argv = (case argv of
     [] \<Rightarrow> (None, [], None)
   | cmd # args \<Rightarrow> (case cache_cmd_of cmd of
        None \<Rightarrow> (None, [], None)
      | Some CacheAdd \<Rightarrow> cache_op_add t now args
      | Some CacheRemove \<Rightarrow> cache_op_remove t args
      | Some CacheList \<Rightarrow> cache_op_list t cf args
      | Some CacheDump \<Rightarrow> cache_op_dump t args
      | Some CacheClear \<Rightarrow> cache_op_clear t args))"

section \<open>Expiry\<close>

lemma get_put_le: "get_le (put_le k n) = n mod 256 ^ k"
proof (induction k arbitrary: n)
  case (Suc k)
  have "of_char (char_of (n mod 256) :: char) = (n mod 256 :: nat)" by simp
  then show ?case using Suc by (simp add: mod_mult2_eq)
qed simp

lemma length_put_le: "length (put_le k n) = k"
  by (induction k arbitrary: n) simp_all

lemma item_time_cacheitem: "length (cacheitem tim) = item_size \<and> item_time (cacheitem tim) = tim mod 2 ^ 64"
  by (simp add: cacheitem_def item_time_def item_size_def get_put_le length_put_le del: put_le.simps)

definition well_formed :: "'db tdb \<Rightarrow> 'db \<Rightarrow> bool" where
  "well_formed t db \<longleftrightarrow> (\<forall>k v. map_of (tdb_records t db) k = Some v \<longrightarrow> length v = item_size)"

definition deletes :: "'db tdb \<Rightarrow> bool" where
  "deletes t \<longleftrightarrow> (\<forall>db k. k \<in> dom (map_of (tdb_records t db)) \<longrightarrow> fst (tdb_delete t db k) = 0)"

definition is_old :: "nat \<Rightarrow> char list option \<Rightarrow> bool" where
  "is_old lim v \<longleftrightarrow> (case v of None \<Rightarrow> False | Some v \<Rightarrow> item_time v < lim)"

lemma visit_expire:
  assumes t: "tdb_law t" "deletes t"
  shows "distinct (map fst kvs) \<Longrightarrow> \<forall>(k, v) \<in> set kvs. map_of (tdb_records t db) k = Some v \<and> length v = item_size \<Longrightarrow>
    \<exists>db'. visit (db_expire_item t lim) kvs n db = (n + int (length kvs), db') \<and>
      map_of (tdb_records t db') = (\<lambda>k. if is_old lim (map_of kvs k) then None else map_of (tdb_records t db) k)"
proof (induction kvs arbitrary: n db)
  case Nil
  then show ?case by (simp add: is_old_def)
next
  case (Cons x kvs)
  obtain k v where x: "x = (k, v)" by (cases x)
  have kv: "map_of (tdb_records t db) k = Some v" "length v = item_size" "k \<notin> fst ` set kvs" using Cons.prems x by auto
  have none: "map_of kvs k = None" using kv(3) by (simp add: map_of_eq_None_iff)
  show ?case
  proof (cases "item_time v < lim")
    case True
    obtain db1 where d: "tdb_delete t db k = (0, db1)" using t(2) kv(1) unfolding deletes_def by (metis domI prod.collapse)
    then have m: "map_of (tdb_records t db1) = (map_of (tdb_records t db))(k := None)" using t(1) unfolding tdb_law_def by (metis fst_conv snd_conv)
    have "\<forall>(k, v) \<in> set kvs. map_of (tdb_records t db1) k = Some v \<and> length v = item_size"
      using Cons.prems(2) kv(3) m by force
    from Cons.IH [OF _ this, of "n + 1"] Cons.prems(1) obtain db' where db': "visit (db_expire_item t lim) kvs (n + 1) db1 = (n + 1 + int (length kvs), db')"
        "map_of (tdb_records t db') = (\<lambda>k. if is_old lim (map_of kvs k) then None else map_of (tdb_records t db1) k)" by auto
    have "map_of (tdb_records t db') = (\<lambda>k'. if is_old lim (map_of (x # kvs) k') then None else map_of (tdb_records t db) k')"
      using db'(2) m True none x by (auto simp: fun_eq_iff is_old_def)
    moreover have "db_expire_item t lim db k v = (0, db1)" using d True kv(2) by (simp add: db_expire_item_def)
    ultimately show ?thesis using db'(1) x by (simp add: add.assoc)
  next
    case False
    have "\<forall>(k, v) \<in> set kvs. map_of (tdb_records t db) k = Some v \<and> length v = item_size" using Cons.prems(2) by simp
    from Cons.IH [OF _ this, of "n + 1"] Cons.prems(1) obtain db' where db': "visit (db_expire_item t lim) kvs (n + 1) db = (n + 1 + int (length kvs), db')"
        "map_of (tdb_records t db') = (\<lambda>k. if is_old lim (map_of kvs k) then None else map_of (tdb_records t db) k)" by auto
    have "map_of (tdb_records t db') = (\<lambda>k'. if is_old lim (map_of (x # kvs) k') then None else map_of (tdb_records t db) k')"
      using db'(2) False none x by (auto simp: fun_eq_iff is_old_def)
    moreover have "db_expire_item t lim db k v = (0, db)" using False kv(2) by (simp add: db_expire_item_def)
    ultimately show ?thesis using db'(1) x by (simp add: add.assoc)
  qed
qed

lemma open_cache_expires:
  assumes t: "tdb_law t" "deletes t" and db: "well_formed t db" "db_open t (ca_path c) = Some db" "ca_db c = None"
  obtains db' where "open_cache t now c = (0, c\<lparr>ca_db := Some db'\<rparr>)"
    "\<And>k. db_contains t db' k \<longleftrightarrow> (\<exists>v. map_of (tdb_records t db) k = Some v \<and> (ca_expire c = 0 \<or> now \<le> item_time v + ca_expire c))"
proof -
  have ex: "tdb_exists t d k \<longleftrightarrow> k \<in> dom (map_of (tdb_records t d))" for d k using t(1) unfolding tdb_law_def by blast
  show ?thesis
  proof (cases "ca_expire c = 0 \<or> now \<le> ca_expire c")
    case True
    then show ?thesis using db by (intro that [of db]) (auto simp: open_cache_def db_expire_def db_contains_def ex)
  next
    case False
    let ?kvs = "tdb_records t db"
    have dist: "distinct (map fst ?kvs)" using t(1) unfolding tdb_law_def by blast
    then have "\<forall>(k, v) \<in> set ?kvs. map_of ?kvs k = Some v \<and> length v = item_size" using db(1) by (auto simp: well_formed_def)
    from visit_expire [OF t dist this, of "now - ca_expire c" 0] obtain db' where
        v: "tdb_traverse t db (db_expire_item t (now - ca_expire c)) = (int (length ?kvs), db')"
          "map_of (tdb_records t db') = (\<lambda>k. if is_old (now - ca_expire c) (map_of ?kvs k) then None else map_of ?kvs k)"
      using t(1) unfolding tdb_law_def by force
    have "open_cache t now c = (0, c\<lparr>ca_db := Some db'\<rparr>)" using db False v(1) by (simp add: open_cache_def db_expire_def)
    then show ?thesis
      by (rule that) (use v(2) False in \<open>auto simp: db_contains_def ex is_old_def split: option.splits if_splits\<close>)
  qed
qed

section \<open>Properties\<close>

text \<open>
  C25: a key that is added to a cache is found in it until its time is up: when the cache is opened at a later time, the
  key is there if it is not older than the cache allows, with the time of the last adding; every other key is kept
  or expired by its own time.
\<close>

theorem cache_keeps_until_expired:
  assumes t: "tdb_law t" "deletes t" and db: "well_formed t db" and t1: "t1 < 2 ^ 64" and add: "db_add t t1 db k = (0, db1)"
    and c: "db_open t (ca_path c) = Some db1" "ca_db c = None"
  shows "\<exists>db2. open_cache t t2 c = (0, c\<lparr>ca_db := Some db2\<rparr>) \<and>
    (db_contains t db2 k \<longleftrightarrow> ca_expire c = 0 \<or> t2 \<le> t1 + ca_expire c) \<and>
    (\<forall>k'. k' \<noteq> k \<longrightarrow> (db_contains t db2 k' \<longleftrightarrow>
      (\<exists>v. map_of (tdb_records t db) k' = Some v \<and> (ca_expire c = 0 \<or> t2 \<le> item_time v + ca_expire c))))"
proof -
  have m: "map_of (tdb_records t db1) = (map_of (tdb_records t db))(k \<mapsto> cacheitem t1)"
    using t(1) add unfolding tdb_law_def db_add_def by (metis fst_conv snd_conv)
  then have wf: "well_formed t db1" using db item_time_cacheitem by (auto simp: well_formed_def)
  have tim: "item_time (cacheitem t1) = t1" using item_time_cacheitem [of t1] t1 by simp
  obtain db2 where o: "open_cache t t2 c = (0, c\<lparr>ca_db := Some db2\<rparr>)"
      "\<And>k. db_contains t db2 k \<longleftrightarrow> (\<exists>v. map_of (tdb_records t db1) k = Some v \<and> (ca_expire c = 0 \<or> t2 \<le> item_time v + ca_expire c))"
    using open_cache_expires [OF t wf c, of t2] by blast
  show ?thesis by (intro exI [of _ db2] conjI) (use o m tim in auto)
qed

text \<open>A database that is an association list, for examples.\<close>

definition list_tdb :: "(char list, char list) alist \<Rightarrow> (char list, char list) alist tdb" where
  "list_tdb al = \<lparr>tdb_open = (\<lambda>_. Some al), tdb_store = (\<lambda>db k v. (0, DAList.update k v db)),
     tdb_delete = (\<lambda>db k. (0, DAList.delete k db)), tdb_exists = (\<lambda>db k. DAList.lookup db k \<noteq> None),
     tdb_traverse = (\<lambda>db f. visit f (DAList.impl_of db) 0 db), tdb_records = DAList.impl_of\<rparr>"

lemma list_tdb_law: "tdb_law (list_tdb al) \<and> deletes (list_tdb al)"
  by (auto simp: tdb_law_def list_tdb_def deletes_def DAList.lookup.rep_eq [symmetric])

lemma cache_keeps_until_expired_witness:
  "\<exists>db2. open_cache (list_tdb (DAList.update ''id1'' (cacheitem 50) DAList.empty)) 100 \<lparr>ca_db = None, ca_path = ''cache'', ca_expire = 60\<rparr> =
     (0, \<lparr>ca_db = Some db2, ca_path = ''cache'', ca_expire = 60\<rparr>) \<and>
     db_contains (list_tdb (DAList.update ''id1'' (cacheitem 50) DAList.empty)) db2 ''id1''"
proof -
  let ?t = "list_tdb (DAList.update ''id1'' (cacheitem 50) DAList.empty)"
  have wf: "well_formed ?t DAList.empty" by (simp add: well_formed_def list_tdb_def DAList.lookup.rep_eq [symmetric])
  have add: "db_add ?t 50 DAList.empty ''id1'' = (0, DAList.update ''id1'' (cacheitem 50) DAList.empty)" by (simp add: db_add_def list_tdb_def)
  have c: "db_open ?t (ca_path \<lparr>ca_db = None, ca_path = ''cache'', ca_expire = 60\<rparr>) = Some (DAList.update ''id1'' (cacheitem 50) DAList.empty)"
    by (simp add: db_open_def list_tdb_def)
  from cache_keeps_until_expired [OF _ _ wf _ add c, of 100] list_tdb_law [of "DAList.update ''id1'' (cacheitem 50) DAList.empty"]
  show ?thesis by auto
qed

end
