(* ===== verification/Command.thy ===== *)
theory Command imports Io Mail begin

text \<open>
  Running a shell command (\<^verbatim>\<open>command.c\<close>, with the timer of \<^verbatim>\<open>timer.c\<close>): the descriptors that are set up for the
  new process, and the calls that feed it its input and hand over its lines until it has exited. Descriptors are
  numbers in the table of the process; what a pipe carries and what the system answers are those of an io.
\<close>

section \<open>The timer\<close>

text \<open>\<open>setitimer\<close> refuses a time that is too large with EINVAL (\<open>ok\<close> is false); it is tried with half of it.\<close>

function timer_try :: "(nat \<Rightarrow> bool) \<Rightarrow> nat \<Rightarrow> nat res" where
  "timer_try ok n = (if ok n then Inr n else if n < 30 then Inl (FatalX ''setitimer failed'') else timer_try ok (n div 2))"
  by pat_completeness auto
termination by (relation "measure snd") auto

declare timer_try.simps [simp del]

definition timer_set :: "(nat \<Rightarrow> bool) \<Rightarrow> nat \<Rightarrow> nat res" where
  "timer_set ok seconds = (if seconds = 0 then Inl (FatalX ''zero timeout'') else timer_try ok seconds)"

lemma timer_try_le: "timer_try ok n = Inr k \<Longrightarrow> ok k \<and> k \<le> n"
proof (induction ok n rule: timer_try.induct)
  case (1 ok n)
  show ?case
  proof (cases "ok n")
    case True
    then show ?thesis using "1.prems" by (subst (asm) timer_try.simps) simp
  next
    case False
    then show ?thesis using "1.prems" "1.IH" by (subst (asm) timer_try.simps) (auto split: if_splits)
  qed
qed

section \<open>Descriptors\<close>

text \<open>A pipe has a number; the table gives what each open descriptor is.\<close>

datatype fd_end = PipeRead nat | PipeWrite nat | DevNull | OtherFile nat

record kern =
  k_fds :: "(nat \<times> fd_end) list"
  k_pipes :: nat
  k_killed :: "int list"

definition new_fd :: "(nat \<times> fd_end) list \<Rightarrow> nat" where
  "new_fd t = (case List.find (\<lambda>n. map_of t n = None) [0..<length t + 1] of None \<Rightarrow> 0 | Some n \<Rightarrow> n)"

definition sys_close :: "nat \<Rightarrow> (nat \<times> fd_end) list \<Rightarrow> (nat \<times> fd_end) list" where
  "sys_close n t = filter (\<lambda>e. fst e \<noteq> n) t"

definition sys_open :: "fd_end \<Rightarrow> (nat \<times> fd_end) list \<Rightarrow> nat \<times> (nat \<times> fd_end) list" where
  "sys_open f t = (new_fd t, (new_fd t, f) # t)"

definition sys_dup2 :: "nat \<Rightarrow> nat \<Rightarrow> (nat \<times> fd_end) list \<Rightarrow> ((nat \<times> fd_end) list) option" where
  "sys_dup2 a b t = (case map_of t a of None \<Rightarrow> None | Some f \<Rightarrow> Some (if a = b then t else (b, f) # sys_close b t))"

text \<open>A pipe, or the null device, as the stream needs it; \<open>None\<close> in the pair for -1.\<close>

type_synonym fd_pair = "nat option \<times> nat option"

definition sys_pipe :: "kern \<Rightarrow> fd_pair \<times> kern" where
  "sys_pipe k = (case sys_open (PipeRead (k_pipes k)) (k_fds k) of (r, t) \<Rightarrow>
     case sys_open (PipeWrite (k_pipes k)) t of (w, t) \<Rightarrow>
       ((Some r, Some w), k\<lparr>k_fds := t, k_pipes := k_pipes k + 1\<rparr>))"

definition close_opt :: "nat option \<Rightarrow> kern \<Rightarrow> kern" where
  "close_opt fd k = (case fd of None \<Rightarrow> k | Some n \<Rightarrow> k\<lparr>k_fds := sys_close n (k_fds k)\<rparr>)"

section \<open>The state of a command\<close>

text \<open>The flags are bits; \<open>cmd_sent\<close> is what was written to its input, and an io is kept with its descriptor.\<close>

record cmd =
  cmd_pid :: int
  cmd_status :: int
  CMD_IN :: bool
  CMD_OUT :: bool
  CMD_ONCE :: bool
  cmd_buf :: "char list"
  cmd_sent :: "char list"
  cmd_in :: "(nat \<times> io) option"
  cmd_out :: "(nat \<times> io) option"
  cmd_err :: "(nat \<times> io) option"

text \<open>What the system answers while a command is started, and the data that will come from its two outputs.\<close>

record start_sys =
  ss_in :: bool
  ss_out :: bool
  ss_err :: bool
  ss_fork :: int
  ss_outdata :: "sock list"
  ss_errdata :: "sock list"

section \<open>Starting\<close>

text \<open>The descriptors of the new process when it calls the shell.\<close>

definition child_fds :: "fd_pair \<Rightarrow> fd_pair \<Rightarrow> fd_pair \<Rightarrow> (nat \<times> fd_end) list \<Rightarrow> ((nat \<times> fd_end) list) res" where
  "child_fds fin fout ferr t =
     (let shut = (\<lambda>fd t. case fd of None \<Rightarrow> t | Some n \<Rightarrow> sys_close n t);
          move = (\<lambda>fd n what t. case fd of
              None \<Rightarrow> Inl (FatalX what)
            | Some a \<Rightarrow> (case sys_dup2 a n t of None \<Rightarrow> Inl (FatalX what) | Some t \<Rightarrow> Inr (sys_close a t)));
          t = shut (fst ferr) (shut (fst fout) (shut (snd fin) t))
      in rbind (move (fst fin) 0 ''dup2(stdin) failed'' t) (\<lambda>t.
         rbind (move (snd fout) 1 ''dup2(stdout) failed'' t) (\<lambda>t.
         move (snd ferr) 2 ''dup2(stderr) failed'' t)))"

definition stdin_pair :: "start_sys \<Rightarrow> bool \<Rightarrow> kern \<Rightarrow> (fd_pair \<times> kern) option" where
  "stdin_pair ss piped k =
     (if \<not> ss_in ss then None
      else if piped then Some (sys_pipe k)
      else case sys_open DevNull (k_fds k) of (n, t) \<Rightarrow> Some ((Some n, None), k\<lparr>k_fds := t\<rparr>))"

definition stdout_pair :: "start_sys \<Rightarrow> bool \<Rightarrow> kern \<Rightarrow> (fd_pair \<times> kern) option" where
  "stdout_pair ss piped k =
     (if \<not> ss_out ss then None
      else if piped then Some (sys_pipe k)
      else case sys_open DevNull (k_fds k) of (n, t) \<Rightarrow> Some ((None, Some n), k\<lparr>k_fds := t\<rparr>))"

definition close_pairs :: "fd_pair list \<Rightarrow> kern \<Rightarrow> kern" where
  "close_pairs ps k = fold (\<lambda>p k. close_opt (snd p) (close_opt (fst p) k)) ps k"

text \<open>The io on a pipe, for one direction.\<close>

definition start_io :: "nat option \<Rightarrow> (io \<Rightarrow> io) \<Rightarrow> sock list \<Rightarrow> (nat \<times> io) option res" where
  "start_io fd f ins = (case fd of None \<Rightarrow> Inr None
     | Some n \<Rightarrow> rbind (io_create False ins [] [NL]) (\<lambda>i. Inr (Some (n, f i))))"

text \<open>The parent closes the ends of the child and makes the ios; the result without a command has a cause.\<close>

definition cmd_parent ::
    "start_sys \<Rightarrow> bool \<Rightarrow> bool \<Rightarrow> bool \<Rightarrow> char list \<Rightarrow> fd_pair \<Rightarrow> fd_pair \<Rightarrow> fd_pair \<Rightarrow> kern \<Rightarrow> (cmd \<times> kern) res" where
  "cmd_parent ss cin cout once buf fin fout ferr k =
     (let k = close_opt (snd ferr) (close_opt (snd fout) (close_opt (fst fin) k)) in
      rbind (start_io (snd fin) (\<lambda>i. (io_writeonly i)\<lparr>IOF_MUSTWR := (buf \<noteq> [])\<rparr>) []) (\<lambda>i.
      rbind (start_io (fst fout) io_readonly (ss_outdata ss)) (\<lambda>out.
      rbind (start_io (fst ferr) io_readonly (ss_errdata ss)) (\<lambda>err.
        Inr (\<lparr>cmd_pid = ss_fork ss, cmd_status = 0, CMD_IN = cin, CMD_OUT = cout, CMD_ONCE = once, cmd_buf = buf,
              cmd_sent = [], cmd_in = i, cmd_out = out, cmd_err = err\<rparr>, k)))))"

definition cmd_start ::
    "start_sys \<Rightarrow> bool \<Rightarrow> bool \<Rightarrow> bool \<Rightarrow> char list \<Rightarrow> kern \<Rightarrow> ((char list + cmd) \<times> kern) res" where
  "cmd_start ss cin cout once buf k =
     (let buf = (if cin then buf else []) in
      case stdin_pair ss cin k of
        None \<Rightarrow> Inr (Inl (if cin then ''pipe'' else ''open''), k)
      | Some (fin, k) \<Rightarrow>
          (case stdout_pair ss cout k of
             None \<Rightarrow> Inr (Inl (if cout then ''pipe'' else ''open''), close_pairs [fin] k)
           | Some (fout, k) \<Rightarrow>
               if \<not> ss_err ss then Inr (Inl ''pipe'', close_pairs [fin, fout] k)
               else case sys_pipe k of (ferr, k) \<Rightarrow>
                 if ss_fork ss = - 1 then Inr (Inl ''fork'', close_pairs [fin, fout, ferr] k)
                 else rbind (cmd_parent ss cin cout once buf fin fout ferr k) (\<lambda>(c, k). Inr (Inr c, k))))"

section \<open>Polling\<close>

datatype write_answer = Wrote nat | WriteAgain | WritePipe | WriteFailed
datatype wait_answer = WaitNone | WaitInterrupted | WaitFailed | WaitExited nat | WaitSignaled nat | WaitOther

record poll_sys =
  ps_write :: write_answer
  ps_poll :: poll_answer
  ps_wait :: wait_answer
  ps_itimer :: "nat \<Rightarrow> bool"
  ps_timer_expired :: bool

text \<open>What a call leaves for its caller: a line of output, a line of errors, the cause, and the line buffer.\<close>

record poll_got =
  pg_out :: "char list option"
  pg_err :: "char list option"
  pg_cause :: "char list option"
  pg_lbuf :: "char list"
  pg_llen :: size_t

definition sys_kill :: "int \<Rightarrow> kern \<Rightarrow> kern" where
  "sys_kill pid k = k\<lparr>k_killed := k_killed k @ [pid]\<rparr>"

definition io_shut :: "(nat \<times> io) option \<Rightarrow> kern \<Rightarrow> kern" where
  "io_shut i k = close_opt (map_option fst i) k"

text \<open>The fixed buffer is written as far as the pipe takes it; an error has a cause.\<close>

definition cmd_write :: "write_answer \<Rightarrow> cmd \<Rightarrow> kern \<Rightarrow> char list option \<times> cmd \<times> kern" where
  "cmd_write a c k = (case cmd_in c of
     None \<Rightarrow> (None, c, k)
   | Some (fd, i) \<Rightarrow>
       if cmd_buf c = [] \<or> IOF_CLOSED i then (None, c, k)
       else
         let pipe = c\<lparr>cmd_buf := []\<rparr>;
             next = (\<lambda>c. if cmd_buf c \<noteq> [] then (None, c, k)
               else if CMD_ONCE c then (None, c\<lparr>cmd_in := None\<rparr>, io_shut (cmd_in c) k)
               else (None, c\<lparr>cmd_in := Some (fd, i\<lparr>IOF_MUSTWR := False\<rparr>)\<rparr>, k))
         in case a of
              WriteFailed \<Rightarrow> (Some ''write'', c, k)
            | WriteAgain \<Rightarrow> next c
            | WritePipe \<Rightarrow> next pipe
            | Wrote n \<Rightarrow>
                if n = 0 then next pipe
                else next (c\<lparr>cmd_sent := cmd_sent c @ take n (cmd_buf c), cmd_buf := drop n (cmd_buf c)\<rparr>))"

definition cmd_ios :: "cmd \<Rightarrow> io option list" where
  "cmd_ios c = [map_option snd (cmd_in c), map_option snd (cmd_out c), map_option snd (cmd_err c)]"

definition put_io :: "(nat \<times> io) option \<Rightarrow> io option \<Rightarrow> (nat \<times> io) option" where
  "put_io old i = (case (old, i) of (Some (fd, _), Some i) \<Rightarrow> Some (fd, i) | _ \<Rightarrow> None)"

definition put_ios :: "io option list \<Rightarrow> cmd \<Rightarrow> cmd" where
  "put_ios ios c = (case ios of
     [a, b, d] \<Rightarrow> c\<lparr>cmd_in := put_io (cmd_in c) a, cmd_out := put_io (cmd_out c) b, cmd_err := put_io (cmd_err c) d\<rparr>
   | _ \<Rightarrow> c)"

definition rd_empty :: "(nat \<times> io) option \<Rightarrow> bool" where
  "rd_empty i = (case Option.bind i (\<lambda>(_, i). io_rd i) of None \<Rightarrow> False | Some rd \<Rightarrow> BUFFER_USED rd = 0)"

text \<open>The closed io that was found is closed here too; an output only when all that was read has been taken.\<close>

definition cmd_closed :: "nat \<Rightarrow> cmd \<Rightarrow> kern \<Rightarrow> cmd \<times> kern" where
  "cmd_closed n c k =
     (if n = 0 then (c\<lparr>cmd_in := None\<rparr>, io_shut (cmd_in c) k)
      else if n = 1 then (if rd_empty (cmd_out c) then (c\<lparr>cmd_out := None\<rparr>, io_shut (cmd_out c) k) else (c, k))
      else (if rd_empty (cmd_err c) then (c\<lparr>cmd_err := None\<rparr>, io_shut (cmd_err c) k) else (c, k)))"

definition all_closed :: "cmd \<Rightarrow> bool" where
  "all_closed c \<longleftrightarrow> cmd_in c = None \<and> cmd_out c = None \<and> cmd_err c = None"

text \<open>Polling what is open: whether the call goes on, and the cause when it does not.\<close>

definition cmd_wait_io :: "int \<Rightarrow> poll_answer \<Rightarrow> cmd \<Rightarrow> kern \<Rightarrow> (bool \<times> char list option \<times> cmd \<times> kern) res" where
  "cmd_wait_io timeout a c k =
     (if all_closed c then Inr (True, None, c, k)
      else rbind (io_polln (cmd_ios c) timeout a) (\<lambda>((n, e, cause), ios).
        let k' = sys_kill (cmd_pid c) k in
        if n = - 1 then
          (if e = Some EAGAIN then Inr (True, None, put_ios ios c, k) else Inr (False, cause, put_ios ios c, k'))
        else if n = 0 then
          (case before_all (cmd_ios c) 0 of
             None \<Rightarrow> Inr (True, None, put_ios ios c, k')
           | Some (_, i) \<Rightarrow> (case cmd_closed i (put_ios ios c) k' of (c, k) \<Rightarrow> Inr (True, None, c, k)))
        else Inr (True, None, put_ios ios c, k)))"

text \<open>A line without the CR it may end in; the NUL is written into the line buffer.\<close>

definition strip_cr :: "char list \<Rightarrow> char list \<Rightarrow> char list \<times> char list" where
  "strip_cr line lbuf =
     (let s = cstr line in
      if s \<noteq> [] \<and> last s = CR then (butlast s, lbuf[length s - 1 := NUL]) else (s, lbuf))"

definition cmd_line ::
    "(nat \<times> io) option \<Rightarrow> char list \<Rightarrow> size_t \<Rightarrow> (char list option \<times> char list \<times> size_t \<times> (nat \<times> io) option) res" where
  "cmd_line i lbuf llen = (case i of
     None \<Rightarrow> Inr (None, lbuf, llen, None)
   | Some (fd, i) \<Rightarrow> rbind (io_readline2 i lbuf llen) (\<lambda>(line, lbuf, llen, i).
       case line of
         None \<Rightarrow> Inr (None, lbuf, llen, Some (fd, i))
       | Some line \<Rightarrow> (case strip_cr line lbuf of (s, lbuf) \<Rightarrow> Inr (Some s, lbuf, llen, Some (fd, i)))))"

text \<open>Asking for the exit status.\<close>

definition cmd_reap :: "poll_sys \<Rightarrow> int \<Rightarrow> cmd \<Rightarrow> (int \<times> char list option \<times> cmd) res" where
  "cmd_reap ps timeout c =
     rbind (if timeout \<noteq> 0 then rbind (timer_set (ps_itimer ps) (nat (timeout div 1000))) (\<lambda>_. Inr ()) else Inr ()) (\<lambda>_.
       case ps_wait ps of
         WaitNone \<Rightarrow> Inr (0, None, c)
       | WaitInterrupted \<Rightarrow>
           Inr (- 1, Some (if timeout \<noteq> 0 \<and> ps_timer_expired ps then ''waitpid: timed out'' else ''waitpid''), c)
       | WaitFailed \<Rightarrow> Inr (- 1, Some ''waitpid'', c)
       | WaitSignaled n \<Rightarrow> Inr (- 1, Some (''child got signal: '' @ show_nat n), c\<lparr>cmd_pid := - 1, cmd_status := int n\<rparr>)
       | WaitOther \<Rightarrow> Inr (- 1, Some (''child didn'' @ [CHR 0x27] @ ''t exit normally''), c\<lparr>cmd_pid := - 1\<rparr>)
       | WaitExited n \<Rightarrow> Inr (1 + int n, None, c\<lparr>cmd_pid := - 1, cmd_status := int n\<rparr>))"

text \<open>A line of output, or the end of the command when everything is closed; the errors had no line.\<close>

definition cmd_output ::
    "poll_sys \<Rightarrow> bool \<Rightarrow> int \<Rightarrow> poll_got \<Rightarrow> cmd \<Rightarrow> kern \<Rightarrow> (int \<times> poll_got \<times> cmd \<times> kern) res" where
  "cmd_output ps want_out timeout got c k =
     (if cmd_out c \<noteq> None \<and> \<not> want_out then Inl (MemErr ''NULL out'')
      else rbind (cmd_line (cmd_out c) (pg_lbuf got) (pg_llen got)) (\<lambda>(line, lbuf, llen, i).
        let c = c\<lparr>cmd_out := i\<rparr>; got = got\<lparr>pg_out := line, pg_lbuf := lbuf, pg_llen := llen\<rparr> in
        if line \<noteq> None then Inr (0, got, c, k)
        else if \<not> all_closed c then Inr (0, got, c, k)
        else rbind (cmd_reap ps timeout c) (\<lambda>(n, cause, c). Inr (n, got\<lparr>pg_cause := cause\<rparr>, c, k))))"

definition cmd_poll ::
    "poll_sys \<Rightarrow> bool \<Rightarrow> int \<Rightarrow> char list \<Rightarrow> size_t \<Rightarrow> cmd \<Rightarrow> kern \<Rightarrow> (int \<times> poll_got \<times> cmd \<times> kern) res" where
  "cmd_poll ps want_out timeout lbuf llen c k =
     (let got = \<lparr>pg_out = None, pg_err = None, pg_cause = None, pg_lbuf = lbuf, pg_llen = llen\<rparr> in
      case cmd_write (ps_write ps) c k of
        (Some e, c, k) \<Rightarrow> Inr (- 1, got\<lparr>pg_cause := Some e\<rparr>, c, k)
      | (None, c, k) \<Rightarrow> rbind (cmd_wait_io timeout (ps_poll ps) c k) (\<lambda>(ok, cause, c, k).
          if \<not> ok then Inr (- 1, got\<lparr>pg_cause := cause\<rparr>, c, k)
          else rbind (cmd_line (cmd_err c) lbuf llen) (\<lambda>(line, lbuf, llen, i).
            let c = c\<lparr>cmd_err := i\<rparr>; got = got\<lparr>pg_err := line, pg_lbuf := lbuf, pg_llen := llen\<rparr> in
            if line \<noteq> None then Inr (0, got, c, k) else cmd_output ps want_out timeout got c k)))"

lemma cmd_output_err: "cmd_output ps want timeout got c k = Inr (n, got', c', k') \<Longrightarrow> pg_err got' = pg_err got"
  by (auto simp: cmd_output_def Let_def rbind_Inr_iff split: if_split_asm)

lemma cmd_poll_err:
  assumes "cmd_poll ps want timeout lbuf llen c k = Inr (n, got, c', k')" "pg_err got \<noteq> None"
  shows "pg_out got = None"
proof -
  obtain e c1 k1 where w: "cmd_write (ps_write ps) c k = (e, c1, k1)" by (metis prod_cases3)
  show ?thesis
  proof (cases e)
    case (Some x)
    then show ?thesis using assms w by (auto simp: cmd_poll_def Let_def)
  next
    case None
    then obtain ok cause c2 k2 where i: "cmd_wait_io timeout (ps_poll ps) c1 k1 = Inr (ok, cause, c2, k2)"
      using assms(1) w by (auto simp: cmd_poll_def rbind_Inr_iff Let_def)
    show ?thesis
    proof (cases ok)
      case False
      then show ?thesis using assms w None i by (auto simp: cmd_poll_def Let_def)
    next
      case True
      then obtain line lb ll j where l: "cmd_line (cmd_err c2) lbuf llen = Inr (line, lb, ll, j)"
        using assms(1) w None i by (auto simp: cmd_poll_def rbind_Inr_iff Let_def)
      show ?thesis
        using assms w None i True l by (cases line) (auto simp: cmd_poll_def Let_def dest!: cmd_output_err)
    qed
  qed
qed

definition cmd_free :: "cmd \<Rightarrow> kern \<Rightarrow> kern" where
  "cmd_free c k =
     (let k = (if cmd_pid c \<noteq> - 1 then sys_kill (cmd_pid c) k else k)
      in io_shut (cmd_err c) (io_shut (cmd_out c) (io_shut (cmd_in c) k)))"

end
