(* ===== verification/Deliver.thy ===== *)
theory Deliver imports MailState Command begin

text \<open>
  The actions that run in the process that fetches (\<^verbatim>\<open>deliver-add-header.c\<close>, \<^verbatim>\<open>deliver-remove-header.c\<close>,
  \<^verbatim>\<open>deliver-tag.c\<close>, \<^verbatim>\<open>deliver-drop.c\<close>, \<^verbatim>\<open>deliver-keep.c\<close>, \<^verbatim>\<open>deliver-stdout.c\<close>) and those that run a
  command (\<^verbatim>\<open>deliver-pipe.c\<close>, \<^verbatim>\<open>deliver-rewrite.c\<close>); whether the action succeeded comes with the mail it leaves.
  The loops that poll a command take the answers of the system to each round; when they have run out the call
  does not return.
\<close>

section \<open>Headers\<close>

definition drop_match :: "'x mail \<Rightarrow> 'x mail" where
  "drop_match m = m\<lparr>m_rml := (m_rml m)\<lparr>rml_valid := False\<rparr>\<rparr>"

definition rewrap :: "'x mail \<Rightarrow> 'x mail res" where
  "rewrap m = rbind (fill_wrapped (m\<lparr>wrapped := [], wrapchar := NUL\<rparr>)) (\<lambda>(_, m). Inr m)"

definition deliver_add_header_deliver ::
    "(nat \<Rightarrow> bool) \<Rightarrow> conf \<Rightarrow> char list \<Rightarrow> char list \<Rightarrow> 'x mail \<Rightarrow> (bool \<times> 'x mail) res" where
  "deliver_add_header_deliver shm cf hdr value m = rbind (mail_replace cf m hdr) (\<lambda>h. case h of
     None \<Rightarrow> Inr (False, m)
   | Some h \<Rightarrow>
       if h = [] then Inr (False, m)
       else rbind (mail_replace cf m value) (\<lambda>v. case v of
         None \<Rightarrow> Inr (False, m)
       | Some v \<Rightarrow> rbind (insert_header shm m None (h @ '': '' @ v)) (\<lambda>(n, m).
           if n \<noteq> 0 then Inr (False, m)
           else rbind (rewrap m) (\<lambda>m. Inr (True, drop_match m)))))"

text \<open>The positions of the wrapped lines after \<open>len\<close> bytes at \<open>o'\<close> are gone.\<close>

fun fix_wrapped :: "nat \<Rightarrow> nat \<Rightarrow> nat list \<Rightarrow> nat list" where
  "fix_wrapped o' len [] = []"
| "fix_wrapped o' len (w # ws) =
     (if o' + len \<le> w then (w - len) # fix_wrapped o' len ws
      else if o' \<le> w then fix_wrapped o' len ws
      else w # fix_wrapped o' len ws)"

definition cut_header :: "nat \<Rightarrow> nat \<Rightarrow> 'x mail \<Rightarrow> 'x mail res" where
  "cut_header p len m =
     (if msize m < p + len then Inl (MemErr ''memmove'')
      else rbind (mem_move (m_base m) (m_off m + p) (m_off m + p + len) (msize m - len - p)) (\<lambda>mem.
        Inr (m\<lparr>m_base := mem, msize := msize m - len, m_body := size_sub (m_body m) len, wrapped := fix_wrapped p len (wrapped m)\<rparr>)))"

function remove_loop :: "(char list \<Rightarrow> char list \<Rightarrow> bool) \<Rightarrow> char list \<Rightarrow> 'x mail \<Rightarrow> 'x mail res" where
  "remove_loop fnmatch hdr m =
     (case match_header fnmatch m hdr False of
        Inl e \<Rightarrow> Inl e
      | Inr None \<Rightarrow> Inr m
      | Inr (Some (p, len)) \<Rightarrow>
          (case cut_header p len m of
             Inl e \<Rightarrow> Inl e
           | Inr m' \<Rightarrow> if len = 0 then Inl (Diverges ''remove_header'') else remove_loop fnmatch hdr m'))"
  by pat_completeness auto
termination
  by (relation "measure (\<lambda>(_, _, m). msize m)") (auto simp: cut_header_def rbind_Inr_iff split: if_splits)

declare remove_loop.simps [simp del]

text \<open>The lines are unwrapped anew for each pattern.\<close>

fun remove_each :: "(char list \<Rightarrow> char list \<Rightarrow> bool) \<Rightarrow> conf \<Rightarrow> char list list \<Rightarrow> 'x mail \<Rightarrow> (bool \<times> 'x mail) res" where
  "remove_each fnmatch cf [] m = Inr (True, m)"
| "remove_each fnmatch cf (h # hs) m = rbind (mail_replace cf m h) (\<lambda>hdr. case hdr of
     None \<Rightarrow> Inr (False, m)
   | Some hdr \<Rightarrow>
       if hdr = [] then Inr (False, m)
       else rbind (rewrap m) (\<lambda>m. rbind (set_wrapped m SP) (\<lambda>m.
         rbind (remove_loop fnmatch hdr m) (\<lambda>m. remove_each fnmatch cf hs m))))"

definition deliver_remove_header_deliver ::
    "(char list \<Rightarrow> char list \<Rightarrow> bool) \<Rightarrow> conf \<Rightarrow> char list list \<Rightarrow> 'x mail \<Rightarrow> (bool \<times> 'x mail) res" where
  "deliver_remove_header_deliver fnmatch cf hdrs m = rbind (remove_each fnmatch cf hdrs m) (\<lambda>(ok, m).
     if \<not> ok then Inr (False, m) else rbind (set_wrapped (drop_match m) NL) (\<lambda>m. Inr (True, m)))"

section \<open>Tags and decisions\<close>

definition deliver_tag_deliver :: "conf \<Rightarrow> char list \<Rightarrow> char list option \<Rightarrow> 'x mail \<Rightarrow> (bool \<times> 'x mail) res" where
  "deliver_tag_deliver cf key value m = rbind (mail_replace cf m key) (\<lambda>tk.
     rbind (case value of None \<Rightarrow> Inr (Some []) | Some v \<Rightarrow> mail_replace cf m v) (\<lambda>tv.
     case (tk, tv, m_tags m) of
       (Some tk, Some tv, Some tags) \<Rightarrow>
         if tk = [] then Inr (True, m)
         else rbind (add_tag tags tk tv) (\<lambda>tags. Inr (True, m\<lparr>m_tags := Some tags\<rparr>))
     | _ \<Rightarrow> Inr (True, m)))"

definition deliver_drop_deliver :: "'x mail \<Rightarrow> (bool \<times> 'x mail) res" where
  "deliver_drop_deliver m = Inr (True, m\<lparr>decision := DECISION_DROP\<rparr>)"

definition deliver_keep_deliver :: "'x mail \<Rightarrow> (bool \<times> 'x mail) res" where
  "deliver_keep_deliver m = Inr (True, m\<lparr>decision := DECISION_KEEP\<rparr>)"

text \<open>\<open>writable\<close> tells whether the standard output takes the text; \<open>fwrite\<close> of nothing counts no item.\<close>

definition deliver_stdout_deliver ::
    "(char list \<Rightarrow> bool) \<Rightarrow> 'x mail \<Rightarrow> char list \<Rightarrow> ((bool \<times> 'x mail) \<times> char list) res" where
  "deliver_stdout_deliver writable m output = rbind (bytes_at m 0 (msize m)) (\<lambda>d.
     Inr (if d = [] \<or> \<not> writable d then ((False, m), output) else ((True, m), output @ d)))"

section \<open>Commands\<close>

definition command_path :: "conf \<Rightarrow> (char list \<Rightarrow> char list option) \<Rightarrow> char list \<Rightarrow> 'x mail \<Rightarrow> char list \<Rightarrow> char list res" where
  "command_path cf getpwdir home m cmd = (case m_tags m of
     None \<Rightarrow> Inl (MemErr ''tags'')
   | Some tags \<Rightarrow> replacepath (conf_strip cf) getpwdir cmd tags (Some m) (Some (m_rml m)) home)"

text \<open>The rounds of \<open>deliver_pipe\<close>: the status minus one, or \<open>None\<close> after an error.\<close>

fun pipe_loop ::
    "poll_sys list \<Rightarrow> int \<Rightarrow> char list \<Rightarrow> size_t \<Rightarrow> cmd \<Rightarrow> kern \<Rightarrow> (int option \<times> cmd \<times> kern) res" where
  "pipe_loop [] timeout lbuf llen c k = Inl (Diverges ''cmd_poll'')"
| "pipe_loop (ps # pss) timeout lbuf llen c k = rbind (cmd_poll ps False timeout lbuf llen c k) (\<lambda>(n, got, c, k).
     if n = - 1 then Inr (None, c, k)
     else if n = 0 then pipe_loop pss timeout (pg_lbuf got) (pg_llen got) c k
     else Inr (Some (n - 1), c, k))"

definition deliver_pipe_deliver ::
    "conf \<Rightarrow> (char list \<Rightarrow> char list option) \<Rightarrow> start_sys \<Rightarrow> poll_sys list \<Rightarrow> userdata \<Rightarrow> char list \<Rightarrow> bool \<Rightarrow> 'x mail \<Rightarrow> kern \<Rightarrow> (bool \<times> kern) res" where
  "deliver_pipe_deliver cf getpwdir ss pss ud cmd piped m k = rbind (command_path cf getpwdir (ud_home ud) m cmd) (\<lambda>s.
     if s = [] then Inr (False, k)
     else rbind (bytes_at m 0 (msize m)) (\<lambda>d.
       rbind (if piped then cmd_start ss True False True d k else cmd_start ss False False False [] k) (\<lambda>(r, k). case r of
         Inl _ \<Rightarrow> Inr (False, k)
       | Inr c \<Rightarrow> rbind (xmalloc IO_LINESIZE) (\<lambda>lbuf.
           rbind (pipe_loop pss (conf_timeout cf) lbuf IO_LINESIZE c k) (\<lambda>(st, c, k).
             Inr (st = Some 0, cmd_free c k))))))"

text \<open>The rounds of \<open>deliver_rewrite\<close> append each line of output to the new mail.\<close>

fun rewrite_loop ::
    "(nat \<Rightarrow> bool) \<Rightarrow> nat \<Rightarrow> poll_sys list \<Rightarrow> int \<Rightarrow> char list \<Rightarrow> size_t \<Rightarrow> cmd \<Rightarrow> 'x mail \<Rightarrow> kern \<Rightarrow> (int option \<times> 'x mail \<times> cmd \<times> kern) res" where
  "rewrite_loop shm maxsize [] timeout lbuf llen c md k = Inl (Diverges ''cmd_poll'')"
| "rewrite_loop shm maxsize (ps # pss) timeout lbuf llen c md k =
     rbind (cmd_poll ps True timeout lbuf llen c k) (\<lambda>(n, got, c, k).
       if n = - 1 then Inr (None, md, c, k)
       else if n \<noteq> 0 then Inr (Some (n - 1), md, c, k)
       else case pg_out got of
         None \<Rightarrow> rewrite_loop shm maxsize pss timeout (pg_lbuf got) (pg_llen got) c md k
       | Some line \<Rightarrow> rbind (append_line shm md line) (\<lambda>(r, md).
           if r \<noteq> 0 then Inr (None, md, c, k)
           else if maxsize < msize md then Inr (None, md, c, k)
           else rewrite_loop shm maxsize pss timeout (pg_lbuf got) (pg_llen got) c md k))"

definition deliver_rewrite_deliver ::
    "(nat \<Rightarrow> bool) \<Rightarrow> conf \<Rightarrow> (char list \<Rightarrow> char list option) \<Rightarrow> start_sys \<Rightarrow> poll_sys list \<Rightarrow> userdata \<Rightarrow> char list \<Rightarrow> 'x mail \<Rightarrow> 'x mail \<Rightarrow> kern \<Rightarrow>
     (bool \<times> 'x mail \<times> kern) res" where
  "deliver_rewrite_deliver shm cf getpwdir ss pss ud cmd m md k = rbind (command_path cf getpwdir (ud_home ud) m cmd) (\<lambda>s.
     if s = [] then Inr (False, md, k)
     else rbind (bytes_at m 0 (msize m)) (\<lambda>d.
       let md = md\<lparr>msize := 0\<rparr> in
       rbind (cmd_start ss True True True d k) (\<lambda>(r, k). case r of
         Inl _ \<Rightarrow> Inr (False, md, k)
       | Inr c \<Rightarrow> rbind (xmalloc IO_LINESIZE) (\<lambda>lbuf.
           rbind (rewrite_loop shm (conf_max_size cf) pss (conf_timeout cf) lbuf IO_LINESIZE c md k) (\<lambda>(st, md, c, k).
             if st = Some 0 \<and> msize md \<noteq> 0 then rbind (find_body md) (\<lambda>b. Inr (True, md\<lparr>m_body := b\<rparr>, cmd_free c k))
             else Inr (False, md, cmd_free c k))))))"

end
