(* ===== verification/Parent.thy ===== *)
theory Parent imports Deliver begin

text \<open>
  Actions and commands that run as another user: the fetch child asks the parent (\<^verbatim>\<open>parent-fetch.c\<close>), which starts
  a deliver child (\<^verbatim>\<open>child-deliver.c\<close>); its answer goes back through the parent (\<^verbatim>\<open>parent-deliver.c\<close>). A deliver
  child starts with a copy of the memory of the parent, but the text of a mail is memory they share: what a child
  has written there is part of its answer (\<open>cr_shared\<close>).
\<close>

section \<open>Data\<close>

datatype hook = ActionHook | CmdHook

text \<open>The source of the request is the child that the answer is sent to.\<close>

record 'x child_deliver_data =
  dd_hook :: hook
  dd_child :: nat
  dd_msgid :: nat
  dd_uid :: nat
  dd_gid :: nat
  dd_mail :: "'x mail"
  dd_wr_mail :: "'x mail option"
  dd_actitem :: "actitem option"
  dd_cmddata :: "cmddata option"

text \<open>What the parent meets: what the memory of the mail of a message holds when it can be mapped, whether there is
  memory for a new mail, and whether it can be given to the user of the child.\<close>

record 'x penv =
  pe_reopen :: "'x mail \<Rightarrow> char list option"
  pe_shm :: "nat \<Rightarrow> bool"
  pe_owner :: bool

text \<open>The mail that \<open>xcalloc\<close> or \<open>memset\<close> gives.\<close>

definition zero_mail :: "'x mail" where
  "zero_mail = \<lparr>m_idx = 0, m_tim = 0, m_tags = None, attach = None, attach_built = False, mapped = False, m_base = [], m_off = 0,
     msize = 0, m_space = 0, m_body = 0, wrapped = [], wrapchar = NUL, m_rml = empty_rml, decision = DECISION_NONE,
     auxfree = False, auxdata = None\<rparr>"

datatype 'x parent_result =
    Started "'x child_deliver_data"
  | Answered "'x msg" "strb option"
  | FetchExited

section \<open>The parent and the fetch child\<close>

text \<open>An error is answered without tags.\<close>

definition parent_fetch_error :: "'x msg \<Rightarrow> 'x parent_result" where
  "parent_fetch_error msg = Answered (msg\<lparr>msg_type := MSG_DONE, msg_error := 1\<rparr>) None"

definition parent_fetch_action :: "'x penv \<Rightarrow> nat \<Rightarrow> 'x mail \<Rightarrow> 'x msg \<Rightarrow> 'x parent_result res" where
  "parent_fetch_action pe child m msg = (case msg_actitem msg of
     Some (ActDeliver i d) \<Rightarrow>
       (let data = \<lparr>dd_hook = ActionHook, dd_child = child, dd_msgid = msg_id msg, dd_uid = msg_uid msg, dd_gid = msg_gid msg,
                    dd_mail = m, dd_wr_mail = None, dd_actitem = Some (ActDeliver i d), dd_cmddata = None\<rparr>
        in if deliver_type d \<noteq> DELIVER_WRBACK then Inr (Started data)
           else case mail_open (pe_shm pe) zero_mail Mail.IO_BLOCKSIZE of (n, md) \<Rightarrow>
             if n \<noteq> 0 \<or> \<not> pe_owner pe then Inr (parent_fetch_error msg)
             else Inr (Started (data\<lparr>dd_wr_mail := Some (md\<lparr>decision := decision m\<rparr>)\<rparr>)))
   | _ \<Rightarrow> Inl (MemErr ''actitem''))"

definition parent_fetch_cmd :: "nat \<Rightarrow> 'x mail \<Rightarrow> 'x msg \<Rightarrow> 'x parent_result" where
  "parent_fetch_cmd child m msg =
     Started \<lparr>dd_hook = CmdHook, dd_child = child, dd_msgid = msg_id msg, dd_uid = msg_uid msg, dd_gid = msg_gid msg,
              dd_mail = m, dd_wr_mail = None, dd_actitem = None, dd_cmddata = msg_cmddata msg\<rparr>"

definition parent_mail :: "'x penv \<Rightarrow> 'x msg \<Rightarrow> int \<times> 'x mail" where
  "parent_mail pe msg = (case mail_receive (pe_reopen pe (msg_mail msg)) zero_mail (msg_mail msg) False of (n, m, _) \<Rightarrow> (n, m))"

definition parent_fetch :: "'x penv \<Rightarrow> nat \<Rightarrow> 'x msg \<Rightarrow> strb option \<Rightarrow> 'x parent_result res" where
  "parent_fetch pe child msg buf = (case msg_type msg of
     MSG_EXIT \<Rightarrow> Inr FetchExited
   | MSG_DONE \<Rightarrow> Inl (FatalX ''unexpected message'')
   | _ \<Rightarrow>
       (case buf of
          None \<Rightarrow> Inl (FatalX ''bad tags'')
        | Some tags \<Rightarrow> (case parent_mail pe msg of (n, m) \<Rightarrow>
            if n \<noteq> 0 then Inr (parent_fetch_error msg)
            else let m = m\<lparr>m_tags := Some tags\<rparr> in
              if msg_type msg = MSG_ACTION then parent_fetch_action pe child m msg else Inr (parent_fetch_cmd child m msg))))"

section \<open>The deliver child\<close>

text \<open>
  The answer: the message, the tags, and what the texts of the mail and of the new mail then hold. The delivery
  is a function of the user, the mail and the new mail.
\<close>

type_synonym 'x delivery = "userdata \<Rightarrow> deliver \<Rightarrow> 'x mail \<Rightarrow> 'x mail option \<Rightarrow> (bool \<times> 'x mail \<times> 'x mail option) res"

record 'x child_reply =
  cr_msg :: "'x msg"
  cr_tags :: "strb option"
  cr_shared :: "char list"

definition zero_msg :: "'x msg" where
  "zero_msg = \<lparr>msg_id = 0, msg_type = MSG_ACTION, msg_error = 0, msg_mail = zero_mail, msg_uid = 0, msg_gid = 0,
     msg_actitem = None, msg_cmddata = None\<rparr>"

text \<open>The part of the hook that runs in the child: the mail, and the message with the result.\<close>

definition action_hook_child :: "'x delivery \<Rightarrow> 'x child_deliver_data \<Rightarrow> 'x msg \<Rightarrow> ('x mail \<times> 'x msg) res" where
  "action_hook_child dl data msg = (case (m_tags (dd_mail data), dd_actitem data) of
     (Some tags, Some (ActDeliver _ d)) \<Rightarrow>
       rbind (find_tag tags ''user'') (\<lambda>user. rbind (find_tag tags ''home'') (\<lambda>home.
         case (user, home) of
           (Some user, Some home) \<Rightarrow>
             rbind (dl \<lparr>ud_name = user, ud_home = home, ud_uid = dd_uid data, ud_gid = dd_gid data\<rparr> d (dd_mail data) (dd_wr_mail data))
               (\<lambda>(ok, m, md). let msg = msg\<lparr>msg_error := (if ok then 0 else 1)\<rparr> in
                  if deliver_type d \<noteq> DELIVER_WRBACK \<or> \<not> ok then Inr (m, msg)
                  else case md of
                    None \<Rightarrow> Inl (MemErr ''wr_mail'')
                  | Some md \<Rightarrow> Inr (m, msg\<lparr>msg_mail := mail_send md\<rparr>))
         | _ \<Rightarrow> Inl (MemErr ''strdup'')))
   | _ \<Rightarrow> Inl (MemErr ''actitem''))"

text \<open>A command as a condition: the lines it writes are matched until one does; without an exit code to compare
  it is not waited for then. The result, the tags of the mail, and what is left.\<close>

definition save_matches :: "rmlist \<Rightarrow> char list \<Rightarrow> strb \<Rightarrow> strb res" where
  "save_matches rml out tags =
     (let ms = takeWhile (\<lambda>(i, r). rm_valid r) (zip [0..<NPMATCH] (rml_list rml)) in
      fold (\<lambda>(i, r) t. rbind t (\<lambda>t. rbind (mem_read out (rm_so r) (rm_eo r - rm_so r)) (\<lambda>v.
        add_tag t (''command'' @ show_nat i) v))) ms (Inr tags))"

datatype cmd_end = CmdStatus int bool | CmdFailed

fun cmd_hook_loop ::
    "os \<Rightarrow> cmddata \<Rightarrow> int \<Rightarrow> poll_sys list \<Rightarrow> bool \<Rightarrow> char list \<Rightarrow> size_t \<Rightarrow> strb \<Rightarrow> cmd \<Rightarrow> kern \<Rightarrow> (cmd_end \<times> strb \<times> cmd \<times> kern) res" where
  "cmd_hook_loop os cd timeout pss found lbuf llen tags c k =
     (if found \<and> cd_ret cd = - 1 then Inr (CmdStatus 0 True, tags, c, k)
      else case pss of
        [] \<Rightarrow> Inl (Diverges ''cmd_poll'')
      | ps # pss \<Rightarrow> rbind (cmd_poll ps True timeout lbuf llen c k) (\<lambda>(n, got, c, k).
          if n = - 1 then Inr (CmdFailed, tags, c, k)
          else if n \<noteq> 0 then Inr (CmdStatus (n - 1) found, tags, c, k)
          else case pg_out got of
            None \<Rightarrow> cmd_hook_loop os cd timeout pss found (pg_lbuf got) (pg_llen got) tags c k
          | Some out \<Rightarrow>
              if found then cmd_hook_loop os cd timeout pss found (pg_lbuf got) (pg_llen got) tags c k
              else case cd_re cd of
                None \<Rightarrow> Inl (MemErr ''re'')
              | Some re \<Rightarrow> (case re_block os re out of (r, rml) \<Rightarrow>
                  if r = - 1 then Inr (CmdFailed, tags, c, k)
                  else rbind (if r = 1 \<and> rml_valid rml then save_matches rml out tags else Inr tags) (\<lambda>tags.
                    cmd_hook_loop os cd timeout pss (r \<noteq> 0) (pg_lbuf got) (pg_llen got) tags c k))))"

definition cmd_verdict :: "cmddata \<Rightarrow> int \<Rightarrow> bool \<Rightarrow> match_result" where
  "cmd_verdict cd status found =
     (let same = (cd_ret cd = status) in
      if cd_ret cd \<noteq> - 1 \<and> cd_re cd \<noteq> None then of_bool_result (found \<and> same)
      else if cd_ret cd \<noteq> - 1 then of_bool_result same
      else if cd_re cd \<noteq> None then of_bool_result found
      else MATCH_ERROR)"

text \<open>On two of the ways to the end after an error variables are freed that were never set.\<close>

definition cmd_hook_child ::
    "conf \<Rightarrow> os \<Rightarrow> (char list \<Rightarrow> char list option) \<Rightarrow> start_sys \<Rightarrow> poll_sys list \<Rightarrow> 'x child_deliver_data \<Rightarrow> kern \<Rightarrow>
     (match_result \<times> 'x mail \<times> kern) res" where
  "cmd_hook_child cf os getpwdir ss pss data k = (case (m_tags (dd_mail data), dd_cmddata data) of
     (Some tags, Some cd) \<Rightarrow>
       rbind (find_tag tags ''home'') (\<lambda>home. case home of
         None \<Rightarrow> Inl (MemErr ''home'')
       | Some home \<Rightarrow> rbind (command_path cf getpwdir home (dd_mail data) (cd_cmd cd)) (\<lambda>s.
           if s = [] then Inl (MemErr ''free cause'')
           else rbind (bytes_at (dd_mail data) 0 (msize (dd_mail data))) (\<lambda>d.
             rbind (cmd_start ss (cd_pipe cd) (cd_re cd \<noteq> None) True d k) (\<lambda>(r, k). case r of
               Inl _ \<Rightarrow> Inl (MemErr ''free lbuf'')
             | Inr c \<Rightarrow> rbind (xmalloc IO_LINESIZE) (\<lambda>lbuf.
                 rbind (cmd_hook_loop os cd (conf_timeout cf) pss False lbuf IO_LINESIZE tags c k) (\<lambda>(e, tags, c, k).
                   Inr (case e of CmdFailed \<Rightarrow> MATCH_ERROR | CmdStatus st found \<Rightarrow> cmd_verdict cd st found,
                        (dd_mail data)\<lparr>m_tags := Some tags\<rparr>, cmd_free c k)))))))
   | _ \<Rightarrow> Inl (MemErr ''cmddata''))"

fun match_code :: "match_result \<Rightarrow> int" where
  "match_code MATCH_FALSE = 0"
| "match_code MATCH_TRUE = 1"
| "match_code MATCH_ERROR = 2"
| "match_code MATCH_PARENT = 3"

definition child_deliver ::
    "('x child_deliver_data \<Rightarrow> 'x msg \<Rightarrow> ('x mail \<times> 'x msg) res) \<Rightarrow> 'x child_deliver_data \<Rightarrow> 'x child_reply res" where
  "child_deliver run data = rbind (run data zero_msg) (\<lambda>(m, msg).
     Inr \<lparr>cr_msg = msg\<lparr>msg_type := MSG_DONE, msg_id := 0\<rparr>, cr_tags = m_tags m, cr_shared = m_base m\<rparr>)"

text \<open>The hook of a child that is given by its data.\<close>

definition child_hook ::
    "'x delivery \<Rightarrow> ('x child_deliver_data \<Rightarrow> (match_result \<times> 'x mail) res) \<Rightarrow> 'x child_deliver_data \<Rightarrow> 'x msg \<Rightarrow> ('x mail \<times> 'x msg) res" where
  "child_hook dl cmd data msg = (case dd_hook data of
     ActionHook \<Rightarrow> action_hook_child dl data msg
   | CmdHook \<Rightarrow> rbind (cmd data) (\<lambda>(r, m). Inr (m, msg\<lparr>msg_error := match_code r\<rparr>)))"

section \<open>The parent and the deliver child\<close>

text \<open>The part of the hook that runs in the parent.\<close>

definition action_hook_parent :: "'x penv \<Rightarrow> 'x child_deliver_data \<Rightarrow> 'x mail \<Rightarrow> 'x msg \<Rightarrow> 'x mail \<times> 'x msg" where
  "action_hook_parent pe data m msg = (case dd_actitem data of
     Some (ActDeliver _ d) \<Rightarrow>
       if deliver_type d \<noteq> DELIVER_WRBACK \<or> msg_error msg \<noteq> 0 then (m, msg)
       else (case mail_receive (pe_reopen pe (msg_mail msg)) m (msg_mail msg) False of (n, m, _) \<Rightarrow>
         (m, if n \<noteq> 0 then msg\<lparr>msg_error := 1\<rparr> else msg))
   | _ \<Rightarrow> (m, msg))"

text \<open>The answer to the fetch child; the deliver child is told to exit (\<open>-1\<close>).\<close>

definition parent_deliver :: "'x penv \<Rightarrow> 'x child_deliver_data \<Rightarrow> 'x child_reply \<Rightarrow> ('x msg \<times> strb option) res" where
  "parent_deliver pe data r =
     (if msg_type (cr_msg r) \<noteq> MSG_DONE then Inl (FatalX ''unexpected message'')
      else case cr_tags r of
        None \<Rightarrow> Inl (FatalX ''bad tags'')
      | Some tags \<Rightarrow>
          (let m = (dd_mail data)\<lparr>m_base := cr_shared r, m_tags := Some tags\<rparr> in
           case (case dd_hook data of ActionHook \<Rightarrow> action_hook_parent pe data m (cr_msg r) | CmdHook \<Rightarrow> (m, cr_msg r)) of
             (m, msg) \<Rightarrow> Inr (msg\<lparr>msg_type := MSG_DONE, msg_id := dd_msgid data, msg_mail := mail_send m\<rparr>, m_tags m)))"

text \<open>A request from the fetch child until its answer.\<close>

definition ask_parent ::
    "'x penv \<Rightarrow> ('x child_deliver_data \<Rightarrow> 'x msg \<Rightarrow> ('x mail \<times> 'x msg) res) \<Rightarrow> nat \<Rightarrow> 'x msg \<Rightarrow> strb option \<Rightarrow> ('x msg \<times> strb option) res" where
  "ask_parent pe run child msg buf = rbind (parent_fetch pe child msg buf) (\<lambda>r. case r of
     Started data \<Rightarrow> rbind (child_deliver run data) (parent_deliver pe data)
   | Answered msg buf \<Rightarrow> Inr (msg, buf)
   | FetchExited \<Rightarrow> Inl (FatalX ''exit''))"

end
