(* ===== verification/Parent_Correct.thy ===== *)
theory Parent_Correct imports Parent begin

text \<open>
  A request of the fetch child on its way through the parent, the deliver child and back: it does what the action would do
  in place (C39), and what becomes of a command when the parent cannot map the mail (C40).
\<close>

section \<open>The way of a request\<close>

definition request_tags :: "nat \<Rightarrow> deliver_ctx \<Rightarrow> (char list \<times> char list) list" where
  "request_tags n dx = (''action'', act_name (dx_action dx)) # (''rule'', show_nat n) #
     [(''user'', ud_name (dx_udata dx)), (''home'', ud_home (dx_udata dx)), (''uid'', show_nat (ud_uid (dx_udata dx))), (''gid'', show_nat (ud_gid (dx_udata dx)))]"

definition request_msg :: "deliver_ctx \<Rightarrow> 'x mail \<Rightarrow> 'x msg" where
  "request_msg dx m = \<lparr>msg_id = m_idx m, msg_type = MSG_ACTION, msg_error = 0, msg_mail = mail_send m,
     msg_uid = ud_uid (dx_udata dx), msg_gid = ud_gid (dx_udata dx), msg_actitem = Some (dx_actitem dx), msg_cmddata = None\<rparr>"

lemma start_action_sends:
  assumes "start_action dl0 c dx = Inr (ACTION_PARENT, c1)"
  obtains t0 tags tags' where "m_tags (mc_mail c) = Some t0" "add_all add_tag t0 (request_tags (mc_ruleidx c) dx) = Inr tags"
    "c1 = c\<lparr>mc_mail := (mc_mail c)\<lparr>m_tags := Some tags'\<rparr>,
      mc_sent := mc_sent c @ [(request_msg dx ((mc_mail c)\<lparr>m_tags := Some tags\<rparr>), Some tags)], mc_msgid := m_idx (mc_mail c)\<rparr>"
proof -
  obtain t0 i d where t: "m_tags (mc_mail c) = Some t0" "dx_actitem dx = ActDeliver i d"
    using assms by (auto simp: start_action_def split: option.splits actitem.splits)
  show ?thesis
    using assms t that
    by (auto simp: start_action_def update_tags_def request_tags_def request_msg_def rbind_Inr_iff Let_def
        split: if_splits option.splits)
qed

text \<open>The mail that the parent makes of a request.\<close>

definition parent_view :: "'x mail \<Rightarrow> strb \<Rightarrow> 'x mail" where
  "parent_view m tags = m\<lparr>m_idx := 0, m_tags := Some tags, attach := None, auxfree := False, auxdata := None, mapped := True,
     wrapped := [], wrapchar := NUL\<rparr>"

lemma parent_mail_view:
  assumes "pe_reopen pe (mail_send m) = Some (m_base m)"
  shows "parent_mail pe (request_msg dx m) = (0, (parent_view m t)\<lparr>m_tags := None\<rparr>)"
  using assms by (simp add: parent_mail_def mail_receive_def request_msg_def zero_mail_def mail_send_def parent_view_def Let_def)


lemma is_cstr_show_nat: "is_cstr (show_nat n)"
  using show_nat_digits [of n] by (auto simp: is_cstr_def isdigit_def code_def)

text \<open>The new mail that an action which writes back is given.\<close>

definition new_mail :: "deliver \<Rightarrow> decision \<Rightarrow> 'x mail option" where
  "new_mail d dec = (if deliver_type d = DELIVER_WRBACK then Some ((snd (mail_open (\<lambda>_. True) zero_mail Mail.IO_BLOCKSIZE))\<lparr>decision := dec\<rparr>) else None)"

text \<open>What a delivery does to the mail when it is made in place.\<close>

definition written_back :: "'x mail \<Rightarrow> 'x mail \<Rightarrow> 'x mail" where
  "written_back m md = md\<lparr>m_idx := m_idx m, m_tags := m_tags m, attach := attach m, auxfree := auxfree m, auxdata := auxdata m,
     mapped := True, wrapped := [], wrapchar := NUL\<rparr>"

definition deliver_here :: "'x mail_ctx \<Rightarrow> deliver \<Rightarrow> bool \<Rightarrow> strb \<Rightarrow> 'x mail option \<Rightarrow> (action_result \<times> 'x mail_ctx) res" where
  "deliver_here c d ok tags md =
     (let m = (mc_mail c)\<lparr>m_tags := Some tags\<rparr> in
      if \<not> ok then Inr (ACTION_ERROR, c\<lparr>mc_mail := m\<rparr>)
      else case (if deliver_type d = DELIVER_WRBACK then md else None) of
        None \<Rightarrow> Inr (ACTION_DONE, c\<lparr>mc_mail := m\<rparr>)
      | Some md \<Rightarrow> rbind (trim_from (written_back m md)) (\<lambda>m. rbind (fill_wrapped m) (\<lambda>(lines, m).
          Inr (ACTION_DONE, c\<lparr>mc_mail := m\<rparr>))))"

lemma ask_parent_action:
  fixes m :: "'x mail"
  assumes dx: "dx_actitem dx = ActDeliver i d" and d: "deliver_type d \<noteq> DELIVER_INCHILD"
    and sh: "\<forall>x. pe_reopen pe x = Some (m_base x)" and room: "pe_owner pe" "\<forall>n. pe_shm pe n"
    and u: "find_tag tags ''user'' = Inr (Some (ud_name (dx_udata dx)))" "find_tag tags ''home'' = Inr (Some (ud_home (dx_udata dx)))"
    and run: "dl (dx_udata dx) d (parent_view m tags) (new_mail d (decision m)) = Inr (ok, m', md)"
    and m': "m_tags m' = Some t1" "m_base m' = m_base m" and md: "deliver_type d = DELIVER_WRBACK \<longrightarrow> ok \<longrightarrow> md \<noteq> None"
  shows "\<exists>reply. ask_parent pe (child_hook dl cmd) child (request_msg dx m) (Some tags) = Inr (reply, Some t1) \<and>
    msg_id reply = m_idx m \<and> msg_error reply = (if ok then 0 else 1) \<and>
    (deliver_type d = DELIVER_WRBACK \<longrightarrow> ok \<longrightarrow> m_base (msg_mail reply) = m_base (the md) \<and>
       written_back m0 (msg_mail reply) = written_back m0 (the md))"
proof -
  have r: "pe_reopen pe (mail_send m) = Some (m_base m)" using sh by (simp add: mail_send_def)
  have run': "dl \<lparr>ud_name = ud_name (dx_udata dx), ud_home = ud_home (dx_udata dx), ud_uid = ud_uid (dx_udata dx), ud_gid = ud_gid (dx_udata dx)\<rparr>
      d (parent_view m tags) (new_mail d (decision m)) = Inr (ok, m', md)"
    using run by (cases "dx_udata dx") simp
  have shm: "mail_open (pe_shm pe) (zero_mail :: 'x mail) Mail.IO_BLOCKSIZE = mail_open (\<lambda>_. True) zero_mail Mail.IO_BLOCKSIZE"
    using room(2) by (simp add: mail_open_def)
  have z: "fst (mail_open (\<lambda>_. True) (zero_mail :: 'x mail) Mail.IO_BLOCKSIZE) = 0" by (simp add: mail_open_def Let_def)
  define data where "data = \<lparr>dd_hook = ActionHook, dd_child = child, dd_msgid = m_idx m, dd_uid = ud_uid (dx_udata dx), dd_gid = ud_gid (dx_udata dx),
    dd_mail = parent_view m tags, dd_wr_mail = new_mail d (decision m), dd_actitem = Some (ActDeliver i d), dd_cmddata = None\<rparr>"
  have v: "(parent_view m tags)\<lparr>m_tags := None, m_tags := Some tags\<rparr> = parent_view m tags" by (simp add: parent_view_def)
  have pv: "m_tags (parent_view m tags) = Some tags" by (simp add: parent_view_def)
  have dec: "decision (parent_view m tags) = decision m" by (simp add: parent_view_def)
  have pf: "parent_fetch pe child (request_msg dx m) (Some tags) = Inr (Started data)"
    using parent_mail_view [OF r, of dx tags] shm z dx room(1)
    by (simp add: parent_fetch_def request_msg_def parent_fetch_action_def data_def new_mail_def dec v case_prod_beta
        Let_def parent_view_def)
  let ?msg = "zero_msg\<lparr>msg_error := (if ok then 0 else 1), msg_mail := (if deliver_type d = DELIVER_WRBACK \<and> ok then mail_send (the md) else zero_mail),
    msg_type := MSG_DONE, msg_id := 0\<rparr>"
  have cd: "child_deliver (child_hook dl cmd) data = Inr \<lparr>cr_msg = ?msg, cr_tags = Some t1, cr_shared = m_base m\<rparr>"
    using u run' m' md pv
    by (auto simp: child_deliver_def child_hook_def data_def action_hook_child_def zero_msg_def Let_def)
  show ?thesis
    using pf cd d sh
    by (auto simp: ask_parent_def parent_deliver_def data_def action_hook_parent_def mail_receive_def zero_msg_def mail_send_def
        written_back_def mail_close_def mail_free_def Let_def)
qed

lemma finish_action_here:
  assumes dx: "dx_actitem dx = ActDeliver i d" and sh: "\<forall>x. reopen x = Some (m_base x)" and t: "reset_tags t1 = Inr t2"
    and r: "msg_error reply = (if ok then 0 else 1)" and md: "deliver_type d = DELIVER_WRBACK \<longrightarrow> ok \<longrightarrow> md \<noteq> None"
    and w: "deliver_type d = DELIVER_WRBACK \<longrightarrow> ok \<longrightarrow> m_base (msg_mail reply) = m_base (the md) \<and>
       written_back ((mc_mail c)\<lparr>m_tags := Some t2\<rparr>) (msg_mail reply) = written_back ((mc_mail c)\<lparr>m_tags := Some t2\<rparr>) (the md)"
  shows "finish_action reopen c dx reply (Some t1) = deliver_here c d ok t2 md"
proof (cases "deliver_type d = DELIVER_WRBACK \<and> ok")
  case True
  then obtain m' where m': "md = Some m'" using md by auto
  have "mail_receive (reopen (msg_mail reply)) ((mc_mail c)\<lparr>m_tags := Some t2\<rparr>) (msg_mail reply) True =
      (0, written_back ((mc_mail c)\<lparr>m_tags := Some t2\<rparr>) (msg_mail reply), snd (mail_destroy ((mc_mail c)\<lparr>m_tags := None, attach := None, auxfree := False, auxdata := None\<rparr>)))"
    using sh by (simp add: mail_receive_def written_back_def Let_def)
  then show ?thesis
    using True m' w dx t r by (simp add: finish_action_def take_tags_def deliver_here_def Let_def)
next
  case False
  then show ?thesis using dx t r by (auto simp: finish_action_def take_tags_def deliver_here_def Let_def)
qed

lemma decision_tags: "decision (m\<lparr>m_tags := t\<rparr>) = decision m" and base_tags: "m_base (m\<lparr>m_tags := t\<rparr>) = m_base m"
  by simp_all

lemma request_finds_user:
  assumes "strb_ok t0" "\<forall>(k, v) \<in> set (request_tags n dx). is_cstr k \<and> is_cstr v" "add_all add_tag t0 (request_tags n dx) = Inr tags"
  shows "find_tag tags ''user'' = Inr (Some (ud_name (dx_udata dx)))" "find_tag tags ''home'' = Inr (Some (ud_home (dx_udata dx)))"
proof -
  have a: "add_tag = strb_add" by (simp add: add_tag_def strb_add_def fun_eq_iff)
  have "strb_ok tags \<and> tags_of tags = tags_of t0 ++ map_of (rev (request_tags n dx))"
    using strb.add_all_tags [OF assms(1,2)] assms(3) a by simp
  then show "find_tag tags ''user'' = Inr (Some (ud_name (dx_udata dx)))" "find_tag tags ''home'' = Inr (Some (ud_home (dx_udata dx)))"
    by (simp_all add: find_tag_tags request_tags_def)
qed

lemma answer_taken_in:
  fixes m :: "'x mail"
  assumes dx: "dx_actitem dx = ActDeliver i d" "deliver_type d \<noteq> DELIVER_INCHILD"
    and sh: "\<forall>x. pe_reopen pe x = Some (m_base x)" "\<forall>x. reopen x = Some (m_base x)"
    and room: "pe_owner pe" "\<forall>n. pe_shm pe n"
    and u: "find_tag tags ''user'' = Inr (Some (ud_name (dx_udata dx)))" "find_tag tags ''home'' = Inr (Some (ud_home (dx_udata dx)))"
    and run: "dl (dx_udata dx) d (parent_view m tags) (new_mail d (decision m)) = Inr (ok, m', md)"
    and m': "m_tags m' = Some t1" "m_base m' = m_base m" and t2: "reset_tags t1 = Inr t2"
    and md: "deliver_type d = DELIVER_WRBACK \<longrightarrow> ok \<longrightarrow> md \<noteq> None"
  shows "\<exists>reply. ask_parent pe (child_hook dl cmd) child (request_msg dx (m\<lparr>m_tags := Some tags\<rparr>)) (Some tags) = Inr (reply, Some t1) \<and>
    msg_id reply = m_idx m \<and> finish_action reopen c dx reply (Some t1) = deliver_here c d ok t2 md"
proof -
  let ?m = "m\<lparr>m_tags := Some tags\<rparr>" and ?m2 = "(mc_mail c)\<lparr>m_tags := Some t2\<rparr>"
  have "parent_view ?m tags = parent_view m tags" by (simp add: parent_view_def)
  then have run1: "dl (dx_udata dx) d (parent_view ?m tags) (new_mail d (decision ?m)) = Inr (ok, m', md)" using run by simp
  have b: "m_base m' = m_base ?m" using m'(2) by simp
  have A1: "\<exists>reply. ask_parent pe (child_hook dl cmd) child (request_msg dx ?m) (Some tags) = Inr (reply, Some t1) \<and>
    msg_id reply = m_idx ?m \<and> msg_error reply = (if ok then 0 else 1) \<and>
    (deliver_type d = DELIVER_WRBACK \<longrightarrow> ok \<longrightarrow> m_base (msg_mail reply) = m_base (the md) \<and>
       written_back ?m2 (msg_mail reply) = written_back ?m2 (the md))"
    by (rule ask_parent_action [where dl = dl and m = ?m, OF dx sh(1) room u run1 m'(1) b md])
  obtain reply where a: "ask_parent pe (child_hook dl cmd) child (request_msg dx ?m) (Some tags) = Inr (reply, Some t1)"
    "msg_id reply = m_idx ?m" "msg_error reply = (if ok then 0 else 1)"
    "deliver_type d = DELIVER_WRBACK \<longrightarrow> ok \<longrightarrow> m_base (msg_mail reply) = m_base (the md) \<and>
       written_back ?m2 (msg_mail reply) = written_back ?m2 (the md)"
    using A1 by (elim exE conjE)
  from finish_action_here [OF dx(1) sh(2) t2 a(3) md a(4)] a(1,2) show ?thesis by auto
qed

section \<open>Properties\<close>

text \<open>
  C2: an action that is run for the fetch child by a child of the parent, as the user of the rule, does what it would
  do in place. The request that \<open>start_action\<close> sends makes the parent start a child in which the delivery sees the text
  and tags of the mail and the user of the rule; the answer that comes back has the number the mail waits for, and
  taking it in gives the mail the tags that the delivery left (without those of the user), the result, and for an
  action that writes back the new text.
\<close>

theorem deliver_roundtrip:
  fixes c :: "'x mail_ctx"
  assumes start: "start_action dl0 c dx = Inr (ACTION_PARENT, c1)"
    and dx: "dx_actitem dx = ActDeliver i d" "deliver_type d \<noteq> DELIVER_INCHILD"
    and t: "m_tags (mc_mail c) = Some t0" "strb_ok t0" "\<forall>(k, v) \<in> set (request_tags (mc_ruleidx c) dx). is_cstr k \<and> is_cstr v"
    and sh: "\<forall>x. pe_reopen pe x = Some (m_base x)" "\<forall>x. reopen x = Some (m_base x)"
    and room: "pe_owner pe" "\<forall>n. pe_shm pe n"
  shows "\<exists>msg tags. mc_sent c1 = mc_sent c @ [(msg, Some tags)] \<and>
    (\<forall>ok m' md t1 t2. dl (dx_udata dx) d (parent_view (mc_mail c) tags) (new_mail d (decision (mc_mail c))) = Inr (ok, m', md) \<longrightarrow>
       m_tags m' = Some t1 \<longrightarrow> m_base m' = m_base (mc_mail c) \<longrightarrow> reset_tags t1 = Inr t2 \<longrightarrow>
       (deliver_type d = DELIVER_WRBACK \<longrightarrow> ok \<longrightarrow> md \<noteq> None) \<longrightarrow>
       (\<exists>reply. ask_parent pe (child_hook dl cmd) child msg (Some tags) = Inr (reply, Some t1) \<and> msg_id reply = mc_msgid c1 \<and>
          finish_action reopen (c1\<lparr>mc_msgid := 0\<rparr>) dx reply (Some t1) = deliver_here (c1\<lparr>mc_msgid := 0\<rparr>) d ok t2 md))"
proof -
  obtain tags tags' where g: "add_all add_tag t0 (request_tags (mc_ruleidx c) dx) = Inr tags"
    "c1 = c\<lparr>mc_mail := (mc_mail c)\<lparr>m_tags := Some tags'\<rparr>,
      mc_sent := mc_sent c @ [(request_msg dx ((mc_mail c)\<lparr>m_tags := Some tags\<rparr>), Some tags)], mc_msgid := m_idx (mc_mail c)\<rparr>"
    using start_action_sends [OF start] t(1) by (metis option.inject)
  let ?m = "(mc_mail c)\<lparr>m_tags := Some tags\<rparr>"
  note u = request_finds_user [OF t(2,3) g(1)]
  have id: "mc_msgid c1 = m_idx ?m" using g(2) by simp
  have sent: "mc_sent c1 = mc_sent c @ [(request_msg dx ?m, Some tags)]" using g(2) by simp
  show ?thesis
    by (rule exI [of _ "request_msg dx ?m"], rule exI [of _ tags], rule conjI [OF sent])
      (use answer_taken_in [where dl = dl and c = "c1\<lparr>mc_msgid := 0\<rparr>" and child = child and cmd = cmd and m = "mc_mail c", OF dx sh room u] id in simp)
qed

definition sample_dx :: deliver_ctx where
  "sample_dx = \<lparr>dx_action = \<lparr>act_name = ''a'', act_users = None, act_list = []\<rparr>, dx_actitem = ActDeliver 0 (Deliver_pipe ''c'' True),
     dx_rule = sample_leaf, dx_udata = sample_user\<rparr>"

definition sample_waiting :: "unit mail_ctx" where
  "sample_waiting = sample_mctx\<lparr>mc_mail := (mc_mail sample_mctx)\<lparr>m_idx := 1, m_tags := Some strb_create\<rparr>, mc_sent := []\<rparr>"

definition sample_penv :: "unit penv" where
  "sample_penv = \<lparr>pe_reopen = (\<lambda>x. Some (m_base x)), pe_shm = (\<lambda>_. True), pe_owner = True\<rparr>"

lemma sample_started:
  obtains c1 tags t2 where "start_action dl0 sample_waiting sample_dx = Inr (ACTION_PARENT, c1)" "mc_sent c1 = [(request_msg sample_dx ((mc_mail sample_waiting)\<lparr>m_tags := Some tags\<rparr>), Some tags)]"
    "reset_tags tags = Inr t2"
proof -
  have f: "ent_max strb_create = 64" "ent_used strb_create = 0" "str_used strb_create = 0" "STRB_ENTSIZE strb_create = 1024"
    by (simp_all add: strb_create_def strb_clear_def STRBENTRIES_def STRB_ENTSIZE_def)
  have n: "show_nat 0 = ''0''" "show_nat 1000 = ''1000''" by code_simp+
  let ?kvs = "request_tags 0 sample_dx @ [(''user'', []), (''home'', []), (''uid'', []), (''gid'', [])]"
  have "\<exists>sb. add_all strb_add strb_create ?kvs = Inr sb"
    by (rule strb_add_all_returns)
      (use strb_create_ok f n in \<open>simp_all add: request_tags_def sample_dx_def sample_user_def is_cstr_def INT_MAX_def STRBOFFSET_def SIZE_MAX_def card_insert_if\<close>)
  then show ?thesis
    using that n
    by (auto simp: start_action_def sample_waiting_def sample_mctx_def sample_dx_def request_tags_def update_tags_def reset_tags_def
        add_tag_def strb_add_def [abs_def] rbind_Inr_iff request_msg_def sample_user_def Let_def)
qed

lemma deliver_roundtrip_witness:
  "\<exists>c1 msg tags reply t2. start_action (\<lambda>_ _ m. Inr (True, m)) sample_waiting sample_dx = Inr (ACTION_PARENT, c1) \<and>
     mc_sent c1 = [(msg, Some tags)] \<and>
     ask_parent sample_penv (child_hook (\<lambda>_ _ m md. Inr (True, m, md)) (\<lambda>_. Inl (FatalX []))) 0 msg (Some tags) = Inr (reply, Some tags) \<and>
     finish_action (\<lambda>x. Some (m_base x)) (c1\<lparr>mc_msgid := 0\<rparr>) sample_dx reply (Some tags) =
       Inr (ACTION_DONE, c1\<lparr>mc_msgid := 0, mc_mail := (mc_mail c1)\<lparr>m_tags := Some t2\<rparr>\<rparr>)"
proof -
  obtain c1 tags t2 where g: "start_action (\<lambda>_ _ m. Inr (True, m)) sample_waiting sample_dx = Inr (ACTION_PARENT, c1)"
    "mc_sent c1 = [(request_msg sample_dx ((mc_mail sample_waiting)\<lparr>m_tags := Some tags\<rparr>), Some tags)]" "reset_tags tags = Inr t2"
    by (rule sample_started)
  have dx: "dx_actitem sample_dx = ActDeliver 0 (Deliver_pipe ''c'' True)" "deliver_type (Deliver_pipe ''c'' True) \<noteq> DELIVER_INCHILD"
    by (simp_all add: sample_dx_def)
  have t: "m_tags (mc_mail sample_waiting) = Some strb_create" "mc_sent sample_waiting = []" by (simp_all add: sample_waiting_def)
  have cs: "\<forall>(k, v) \<in> set (request_tags (mc_ruleidx sample_waiting) sample_dx). is_cstr k \<and> is_cstr v"
    using is_cstr_show_nat by (simp add: request_tags_def sample_dx_def sample_user_def is_cstr_def)
  have pe: "\<forall>x. pe_reopen sample_penv x = Some (m_base x)" "pe_owner sample_penv" "\<forall>n. pe_shm sample_penv n" by (simp_all add: sample_penv_def)
  have v: "m_tags (parent_view m tags) = Some tags" "m_base (parent_view m tags) = m_base m" for m :: "unit mail" by (simp_all add: parent_view_def)
  note R = deliver_roundtrip [where dl = "\<lambda>_ _ m md. Inr (True, m, md)" and cmd = "\<lambda>_. Inl (FatalX [])" and child = 0 and
      reopen = "\<lambda>x. Some (m_base x)", OF g(1) dx t(1) conjunct1 [OF strb_create_ok] cs pe(1) _ pe(2,3)]
  show ?thesis
    using R g t(2) v by (auto simp: deliver_here_def Let_def)
qed

text \<open>
  C40: when the parent cannot map the mail of a request to run a command, the condition holds. The error answer has the
  number of a failed delivery, which for a command is the number of a match; \<open>mail_match\<close> goes on as if the command
  had matched. A command that could not be run in the child is an error instead.
\<close>

theorem command_failure_matches:
  assumes msg: "msg_type msg = MSG_COMMAND" "msg_id msg = mc_msgid c" "mc_msgid c \<noteq> 0" and gone: "pe_reopen pe (msg_mail msg) = None"
    and w: "set_wrapped (mc_mail c) SP = Inr m"
  shows "\<exists>reply. ask_parent pe run child msg (Some tags) = Inr (reply, None) \<and>
    mail_match mt cf os actions c (Some (reply, None)) = next_expritem cf os actions
      (c\<lparr>mc_msgid := 0, mc_mail := m, mc_result := apply_result (hd (mc_expritem c)) (mc_result c) True\<rparr>) \<and>
    mail_match mt cf os actions c (Some (reply\<lparr>msg_error := match_code MATCH_ERROR\<rparr>, None)) =
      Inr (MAIL_ERROR, c\<lparr>mc_msgid := 0, mc_mail := m\<rparr>)"
proof -
  have "ask_parent pe run child msg (Some tags) = Inr (msg\<lparr>msg_type := MSG_DONE, msg_error := 1\<rparr>, None)"
    using msg(1) gone by (simp add: ask_parent_def parent_fetch_def parent_mail_def mail_receive_def parent_fetch_error_def Let_def)
  then show ?thesis using msg w by (simp add: mail_match_def take_tags_def Let_def)
qed

definition sample_command :: cmddata where
  "sample_command = \<lparr>cd_cmd = ''c'', cd_user = None, cd_pipe = True, cd_re = None, cd_ret = 1\<rparr>"

text \<open>A rule that is to end the matching if a command exits with 1: it ends it although no command was run.\<close>

lemma command_failure_matches_witness:
  "\<exists>reply. ask_parent (sample_penv\<lparr>pe_reopen := \<lambda>_. None\<rparr>) (\<lambda>_ _. Inl (FatalX [])) 0
       (zero_msg\<lparr>msg_type := MSG_COMMAND, msg_id := 1, msg_cmddata := Some sample_command\<rparr>) (Some strb_create) = Inr (reply, None) \<and>
     mail_match (match_dispatch sample_conf sample_os) sample_conf sample_os sample_actions
       (sample_mctx\<lparr>mc_msgid := 1, mc_expritem := [sample_item (Match_command sample_command)], mc_rule := [Rule 0 [sample_item (Match_command sample_command)] None True [] None []]\<rparr>) (Some (reply, None)) =
     Inr (MAIL_CONTINUE, sample_mctx\<lparr>mc_done := True, mc_result := True, mc_matched := True, mc_expritem := [], mc_rule := []\<rparr>)"
proof -
  let ?msg = "zero_msg\<lparr>msg_type := MSG_COMMAND, msg_id := 1, msg_cmddata := Some sample_command\<rparr> :: unit msg"
  let ?c = "sample_mctx\<lparr>mc_msgid := 1, mc_expritem := [sample_item (Match_command sample_command)], mc_rule := [Rule 0 [sample_item (Match_command sample_command)] None True [] None []]\<rparr>"
  have w: "set_wrapped (mc_mail ?c) SP = Inr (mc_mail ?c)" by (simp add: set_wrapped_def sample_mctx_def)
  have "next_expritem sample_conf sample_os sample_actions
      (?c\<lparr>mc_msgid := 0, mc_mail := mc_mail ?c, mc_result := apply_result (hd (mc_expritem ?c)) (mc_result ?c) True\<rparr>) =
      Inr (MAIL_CONTINUE, sample_mctx\<lparr>mc_done := True, mc_result := True, mc_matched := True, mc_expritem := [], mc_rule := []\<rparr>)"
    by (simp add: next_expritem_def sample_item_def apply_result_def fill_actions_def fill_queue_def next_rule_def sample_mctx_def Let_def)
  note n = this
  have m: "msg_type ?msg = MSG_COMMAND" "msg_id ?msg = mc_msgid ?c" "mc_msgid ?c \<noteq> 0" "pe_reopen (sample_penv\<lparr>pe_reopen := \<lambda>_. None\<rparr>) (msg_mail ?msg) = None"
    by simp_all
  obtain reply where "ask_parent (sample_penv\<lparr>pe_reopen := \<lambda>_. None\<rparr>) (\<lambda>_ _. Inl (FatalX [])) 0 ?msg (Some strb_create) = Inr (reply, None)"
    "mail_match (match_dispatch sample_conf sample_os) sample_conf sample_os sample_actions ?c (Some (reply, None)) = next_expritem sample_conf sample_os sample_actions
      (?c\<lparr>mc_msgid := 0, mc_mail := mc_mail ?c, mc_result := apply_result (hd (mc_expritem ?c)) (mc_result ?c) True\<rparr>)"
    using command_failure_matches [OF m w] by metis
  then show ?thesis unfolding n by (intro exI conjI)
qed

end
