(* ===== verification/FetchMaildir.thy ===== *)
theory FetchMaildir imports FetchMbox begin

text \<open>
  Fetching from maildirs (\<^verbatim>\<open>fetch-maildir.c\<close>) and from the standard input (\<^verbatim>\<open>fetch-stdin.c\<close>). A directory that is open is
  the list of the entries \<open>readdir\<close> has still to give.
\<close>

section \<open>Data\<close>

text \<open>An entry of \<open>unlinklist\<close> is marked once its memory has been freed. \<open>struct fetch_maildir_mail\<close> is a path.\<close>

datatype dtype = DT_REG | DT_UNKNOWN | DT_OTHER

record fetch_maildir_data =
  md_maildirs :: "char list list"
  md_total :: nat
  md_unlinklist :: "(bool \<times> char list) list"
  md_paths :: "char list list option"
  md_index :: nat
  md_dirp :: "(char list \<times> dtype) list option"
  md_fs :: fsys

datatype maildir_state = Maildir_init | Maildir_next | Maildir_open | Maildir_mail

text \<open>
  What the system answers: \<open>stat\<close> (with the resolution of \<open>.\<close> and the like), \<open>opendir\<close> with the entries that will be read,
  \<open>closedir\<close>, and how much a \<open>read\<close> of a path gives (\<open>None\<close>: all).
\<close>

record maildir_env =
  de_glob :: "char list \<Rightarrow> char list list option"
  de_stat :: "fsys \<Rightarrow> char list \<Rightarrow> node option"
  de_opendir :: "fsys \<Rightarrow> char list \<Rightarrow> (char list \<times> dtype) list option"
  de_closedir :: "char list \<Rightarrow> bool"
  de_open :: "char list \<Rightarrow> bool"
  de_read :: "char list \<Rightarrow> nat option"
  de_tags :: "char list \<Rightarrow> strb \<Rightarrow> strb res"
  de_shm :: "nat \<Rightarrow> bool"
  de_max_size :: nat

type_synonym maildir_ctx = "(maildir_state, char list) fetch_ctx"
type_synonym maildir_step = "fetch_maildir_data \<Rightarrow> maildir_ctx \<Rightarrow> (fetch_result \<times> fetch_maildir_data \<times> maildir_ctx) res"

section \<open>The directories to visit\<close>

text \<open>A maildir without one of its directories is left out with both.\<close>

definition maildir_paths :: "maildir_env \<Rightarrow> fsys \<Rightarrow> char list \<Rightarrow> char list list" where
  "maildir_paths e s dir =
     (if de_stat e s (dir @ ''/cur'') \<noteq> Some Dir \<or> de_stat e s (dir @ ''/new'') \<noteq> Some Dir then []
      else [dir @ ''/cur'', dir @ ''/new''])"

fun fetch_maildir_makepaths :: "maildir_env \<Rightarrow> fsys \<Rightarrow> char list list \<Rightarrow> char list list option res" where
  "fetch_maildir_makepaths e s [] = Inr (Some [])"
| "fetch_maildir_makepaths e s (path # paths) = (case de_glob e path of
     None \<Rightarrow> Inr None
   | Some g \<Rightarrow>
       if g = [] then Inl (FatalX ''glob returned garbage'')
       else rbind (fetch_maildir_makepaths e s paths) (\<lambda>r. Inr (map_option (\<lambda>ps. concat (map (maildir_paths e s) g) @ ps) r)))"

definition fetch_maildir_freepaths :: "fetch_maildir_data \<Rightarrow> fetch_maildir_data" where
  "fetch_maildir_freepaths d = d\<lparr>md_paths := None\<rparr>"

section \<open>Counting\<close>

text \<open>The mails of one directory; \<open>None\<close> after an error.\<close>

fun poll_entries :: "maildir_env \<Rightarrow> fsys \<Rightarrow> char list \<Rightarrow> (char list \<times> dtype) list \<Rightarrow> nat option" where
  "poll_entries e s path [] = (if de_closedir e path then Some 0 else None)"
| "poll_entries e s path ((name, t) # dps) =
     (if t = DT_REG then map_option (\<lambda>n. n + 1) (poll_entries e s path dps)
      else if t \<noteq> DT_UNKNOWN then poll_entries e s path dps
      else case ppath MAXPATHLEN (path @ ''/'' @ name) of
        Inl _ \<Rightarrow> None
      | Inr entry \<Rightarrow> (case de_stat e s entry of
          None \<Rightarrow> None
        | Some Dir \<Rightarrow> poll_entries e s path dps
        | Some (File _) \<Rightarrow> map_option (\<lambda>n. n + 1) (poll_entries e s path dps)))"

fun fetch_maildir_poll :: "maildir_env \<Rightarrow> fsys \<Rightarrow> char list list \<Rightarrow> nat \<Rightarrow> nat option" where
  "fetch_maildir_poll e s [] n = Some n"
| "fetch_maildir_poll e s (path # paths) n = (case de_opendir e s path of
     None \<Rightarrow> None
   | Some dps \<Rightarrow> (case poll_entries e s path dps of
       None \<Rightarrow> None | Some k \<Rightarrow> fetch_maildir_poll e s paths ((n + k) mod 2 ^ 32)))"

section \<open>Operations\<close>

definition fetch_maildir_commit :: "fetch_maildir_data \<Rightarrow> char list mail \<Rightarrow> (fetch_result \<times> fetch_maildir_data \<times> char list mail) res" where
  "fetch_maildir_commit d m =
     (if decision m = DECISION_DROP then
        (case auxdata m of
           None \<Rightarrow> Inl (MemErr ''auxdata'')
         | Some path \<Rightarrow> Inr (FETCH_AGAIN, d\<lparr>md_unlinklist := md_unlinklist d @ [(False, path)]\<rparr>, m))
      else Inr (FETCH_AGAIN, d, m))"

definition fetch_maildir_abort :: "fetch_maildir_data \<Rightarrow> fetch_maildir_data res" where
  "fetch_maildir_abort d =
     (if \<exists>u \<in> set (md_unlinklist d). fst u then Inl (MemErr ''unlinklist'')
      else Inr (fetch_maildir_freepaths (d\<lparr>md_unlinklist := [], md_dirp := None\<rparr>)))"

definition fetch_maildir_state_init :: "maildir_env \<Rightarrow> maildir_step" where
  "fetch_maildir_state_init e d f = rbind (fetch_maildir_makepaths e (md_fs d) (md_maildirs d)) (\<lambda>r. case r of
     None \<Rightarrow> Inr (FETCH_ERROR, d\<lparr>md_paths := None\<rparr>, f)
   | Some ps \<Rightarrow>
       if ps = [] then Inr (FETCH_ERROR, d\<lparr>md_paths := Some ps\<rparr>, f)
       else (let d = d\<lparr>md_paths := Some ps, md_index := 0, md_dirp := None, md_unlinklist := []\<rparr> in
         if FETCH_POLL f then
           (case fetch_maildir_poll e (md_fs d) ps 0 of
              None \<Rightarrow> Inr (FETCH_ERROR, d, f)
            | Some n \<Rightarrow> Inr (FETCH_EXIT, fetch_maildir_freepaths (d\<lparr>md_total := n\<rparr>), f))
         else Inr (FETCH_AGAIN, d, f\<lparr>f_state := Maildir_open\<rparr>)))"

text \<open>After a file that cannot be removed the list keeps the paths that were freed.\<close>

fun unlink_all :: "(bool \<times> char list) list \<Rightarrow> fsys \<Rightarrow> (bool \<times> (bool \<times> char list) list \<times> fsys) res" where
  "unlink_all [] s = Inr (True, [], s)"
| "unlink_all ((freed, p) # ps) s =
     (if freed then Inl (MemErr ''unlinklist'')
      else case sys_unlink p s of
        Inl _ \<Rightarrow> Inr (False, (False, p) # ps, s)
      | Inr s \<Rightarrow> rbind (unlink_all ps s) (\<lambda>(ok, ps, s). Inr (ok, (True, p) # ps, s)))"

definition fetch_maildir_state_next :: maildir_step where
  "fetch_maildir_state_next d f = rbind (unlink_all (md_unlinklist d) (md_fs d)) (\<lambda>(ok, us, s).
     if \<not> ok then Inr (FETCH_ERROR, d\<lparr>md_unlinklist := us, md_fs := s\<rparr>, f)
     else (let d = d\<lparr>md_unlinklist := [], md_fs := s\<rparr> in case md_paths d of
         None \<Rightarrow> Inl (MemErr ''paths'')
       | Some ps \<Rightarrow>
           (let d = (if md_index d < length ps then d\<lparr>md_index := md_index d + 1\<rparr> else d) in
            if md_index d = length ps then
              (if \<not> FETCH_EMPTY f then Inr (FETCH_BLOCK, d, f) else Inr (FETCH_EXIT, fetch_maildir_freepaths d, f))
            else Inr (FETCH_AGAIN, d, f\<lparr>f_state := Maildir_open\<rparr>))))"

definition maildir_path :: "fetch_maildir_data \<Rightarrow> char list res" where
  "maildir_path d = (case md_paths d of
     None \<Rightarrow> Inl (MemErr ''paths'')
   | Some ps \<Rightarrow> if md_index d < length ps then Inr (ps ! md_index d) else Inl (MemErr ''paths''))"

definition fetch_maildir_state_open :: "maildir_env \<Rightarrow> maildir_step" where
  "fetch_maildir_state_open e d f = rbind (maildir_path d) (\<lambda>path. case de_opendir e (md_fs d) path of
     None \<Rightarrow> Inr (FETCH_ERROR, d\<lparr>md_dirp := None\<rparr>, f)
   | Some dps \<Rightarrow> Inr (FETCH_AGAIN, d\<lparr>md_dirp := Some dps\<rparr>, f\<lparr>f_state := Maildir_mail\<rparr>))"

text \<open>The tag \<open>maildir_file\<close> is the directory, too.\<close>

definition maildir_tags :: "maildir_env \<Rightarrow> char list \<Rightarrow> char list mail \<Rightarrow> char list mail res" where
  "maildir_tags e path m = (case m_tags m of
     None \<Rightarrow> Inl (MemErr ''tags'')
   | Some tags \<Rightarrow> (let maildir = xbasename (xdirname path) in
       rbind (de_tags e maildir tags) (\<lambda>tags.
       rbind (add_all add_tag tags [(''maildir'', maildir), (''maildir_path'', xdirname path), (''maildir_file'', path)]) (\<lambda>tags.
         Inr (m\<lparr>m_tags := Some tags\<rparr>)))))"

text \<open>Reading the file that was found. An empty and an oversized mail have neither tags of the maildir nor a path.\<close>

definition maildir_read :: "maildir_env \<Rightarrow> char list \<Rightarrow> char list \<Rightarrow> char list \<Rightarrow> maildir_step" where
  "maildir_read e path name t d f = (case mail_open (de_shm e) (f_mail f) (length t) of (r, m) \<Rightarrow>
     if r \<noteq> 0 then Inr (FETCH_ERROR, d, f\<lparr>f_mail := m\<rparr>)
     else if t = [] then Inr (FETCH_MAIL, d, f\<lparr>f_mail := m\<lparr>msize := 0\<rparr>\<rparr>)
     else if SIZE_MAX < length t \<or> de_max_size e < length t then Inr (FETCH_MAIL, d, f\<lparr>f_mail := m\<lparr>msize := SIZE_MAX\<rparr>\<rparr>)
     else if \<not> de_open e name then Inr (FETCH_ERROR, d, f\<lparr>f_mail := m\<rparr>)
     else rbind (maildir_tags e path m) (\<lambda>m.
       let m = m\<lparr>auxdata := Some name, auxfree := True\<rparr> in
       rbind (mem_write (m_base m) (m_off m) (take (case de_read e name of None \<Rightarrow> length t | Some n \<Rightarrow> n) t)) (\<lambda>mem.
         if de_read e name \<noteq> None then Inr (FETCH_ERROR, d, f\<lparr>f_mail := m\<lparr>m_base := mem\<rparr>\<rparr>)
         else Inr (FETCH_MAIL, d, f\<lparr>f_mail := m\<lparr>m_base := mem, msize := length t\<rparr>\<rparr>))))"

text \<open>The loop over the entries, from \<open>restart\<close>.\<close>

fun maildir_next :: "maildir_env \<Rightarrow> char list \<Rightarrow> (char list \<times> dtype) list \<Rightarrow> maildir_step" where
  "maildir_next e path [] d f =
     (if \<not> de_closedir e path then Inr (FETCH_ERROR, d\<lparr>md_dirp := Some []\<rparr>, f)
      else Inr (FETCH_AGAIN, d\<lparr>md_dirp := None\<rparr>, f\<lparr>f_state := Maildir_next\<rparr>))"
| "maildir_next e path ((n, _) # dps) d f =
     (let d = d\<lparr>md_dirp := Some dps\<rparr> in
      case ppath MAXPATHLEN (path @ ''/'' @ n) of
        Inl _ \<Rightarrow> Inr (FETCH_ERROR, d, f)
      | Inr name \<Rightarrow> (case de_stat e (md_fs d) name of
          None \<Rightarrow> Inr (FETCH_ERROR, d, f)
        | Some Dir \<Rightarrow> maildir_next e path dps d f
        | Some (File t) \<Rightarrow> maildir_read e path name t d f))"

definition fetch_maildir_state_mail :: "maildir_env \<Rightarrow> maildir_step" where
  "fetch_maildir_state_mail e d f = rbind (maildir_path d) (\<lambda>path. case md_dirp d of
     None \<Rightarrow> Inl (MemErr ''readdir'')
   | Some dps \<Rightarrow> maildir_next e path dps d f)"

definition maildir_step :: "maildir_env \<Rightarrow> maildir_step" where
  "maildir_step e d f = (case f_state f of
     Maildir_init \<Rightarrow> fetch_maildir_state_init e d f
   | Maildir_next \<Rightarrow> fetch_maildir_state_next d f
   | Maildir_open \<Rightarrow> fetch_maildir_state_open e d f
   | Maildir_mail \<Rightarrow> fetch_maildir_state_mail e d f)"

definition fetch_maildir :: "maildir_env \<Rightarrow> (fetch_maildir_data, maildir_state, char list) fetch_ops" where
  "fetch_maildir e = \<lparr>fo_first = Maildir_init, fo_step = maildir_step e, fo_fill = None, fo_commit = Some fetch_maildir_commit,
     fo_abort = (\<lambda>d. case fetch_maildir_abort d of Inl _ \<Rightarrow> d | Inr d \<Rightarrow> d), fo_total = Some md_total\<rparr>"

section \<open>Standard input\<close>

text \<open>
  What \<open>isatty\<close> and \<open>fcntl\<close> say of descriptor 0 (\<open>None\<close>: an error other than EBADF), the answers of the polls and the
  data that comes.
\<close>

datatype stdin_state = Stdin_init | Stdin_mail | Stdin_exit

record stdin_env =
  st_tty :: bool
  st_valid :: "bool option"
  st_data :: "sock list"
  st_polls :: "Io.poll_answer list"
  st_timeout :: int
  st_tags :: "strb \<Rightarrow> strb res"
  st_shm :: "nat \<Rightarrow> bool"
  st_max_size :: nat

text \<open>The data is whether descriptor 0 is open, and the line buffer of the context.\<close>

record stdin_data =
  sd_open :: bool
  sd_lbuf :: "char list"
  sd_llen :: size_t

type_synonym stdin_ctx = "(stdin_state, unit) fetch_ctx"
type_synonym stdin_step = "stdin_data \<Rightarrow> stdin_ctx \<Rightarrow> (fetch_result \<times> stdin_data \<times> stdin_ctx) res"

definition fetch_stdin_abort :: "stdin_data \<Rightarrow> stdin_data" where
  "fetch_stdin_abort d = d\<lparr>sd_open := False\<rparr>"

definition fetch_stdin_state_init :: "stdin_env \<Rightarrow> stdin_step" where
  "fetch_stdin_state_init e d f =
     (if st_tty e then Inr (FETCH_ERROR, d, f)
      else case st_valid e of
        None \<Rightarrow> Inl (FatalX ''fcntl failed'')
      | Some False \<Rightarrow> Inr (FETCH_ERROR, d, f)
      | Some True \<Rightarrow> Inr (FETCH_AGAIN, d, f\<lparr>f_state := Stdin_mail\<rparr>))"

text \<open>
  The loop over the lines: whether there is a mail. A poll of the io that has data or room uses up answers; a poll that
  fails with EAGAIN is tried again, and each time round at least one answer or one byte is used up, so that
  \<open>n\<close> rounds with \<open>n\<close> more than both are enough.
\<close>

fun stdin_loop :: "nat \<Rightarrow> stdin_env \<Rightarrow> io \<Rightarrow> Io.poll_answer list \<Rightarrow> char list \<Rightarrow> size_t \<Rightarrow> unit mail \<Rightarrow> (bool \<times> unit mail \<times> char list \<times> size_t) res" where
  "stdin_loop 0 e i ans lbuf llen m = Inl (Diverges ''stdin'')"
| "stdin_loop (Suc n) e i ans lbuf llen m =
     rbind (io_pollline2 i lbuf llen (st_timeout e) ans) (\<lambda>((r, err, cause), line, lbuf, llen, i, ans).
       if r = 0 then Inr (True, m, lbuf, llen)
       else if r = - 1 then (if err = Some Io.errno.EAGAIN then stdin_loop n e i ans lbuf llen m else Inr (False, m, lbuf, llen))
       else case line of
         None \<Rightarrow> Inl (MemErr ''line'')
       | Some line \<Rightarrow> rbind (append_line (st_shm e) m (cstr line)) (\<lambda>(r, m).
           if r \<noteq> 0 then Inr (False, m, lbuf, llen)
           else if st_max_size e < msize m then Inr (True, m, lbuf, llen)
           else stdin_loop n e i ans lbuf llen m))"

definition fetch_stdin_state_mail :: "nat \<Rightarrow> stdin_env \<Rightarrow> stdin_step" where
  "fetch_stdin_state_mail n e d f = rbind (io_create False (st_data e) [] [NL]) (\<lambda>i.
     case mail_open (st_shm e) (f_mail f) Mail.IO_BLOCKSIZE of (r, m) \<Rightarrow>
       if r \<noteq> 0 then Inr (FETCH_ERROR, d, f\<lparr>f_mail := m\<rparr>)
       else case m_tags m of
         None \<Rightarrow> Inl (MemErr ''tags'')
       | Some tags \<Rightarrow> rbind (st_tags e tags) (\<lambda>tags.
           rbind (stdin_loop n e i (st_polls e) (sd_lbuf d) (sd_llen d) (m\<lparr>msize := 0, m_tags := Some tags\<rparr>)) (\<lambda>(ok, m, lbuf, llen).
             let d = d\<lparr>sd_lbuf := lbuf, sd_llen := llen\<rparr> in
             if ok then Inr (FETCH_MAIL, d, f\<lparr>f_mail := m, f_state := Stdin_exit\<rparr>) else Inr (FETCH_ERROR, d, f\<lparr>f_mail := m\<rparr>))))"

definition fetch_stdin_state_exit :: stdin_step where
  "fetch_stdin_state_exit d f = Inr (FETCH_EXIT, d\<lparr>sd_open := False\<rparr>, f)"

definition stdin_step :: "nat \<Rightarrow> stdin_env \<Rightarrow> stdin_step" where
  "stdin_step n e d f = (case f_state f of
     Stdin_init \<Rightarrow> fetch_stdin_state_init e d f
   | Stdin_mail \<Rightarrow> fetch_stdin_state_mail n e d f
   | Stdin_exit \<Rightarrow> fetch_stdin_state_exit d f)"

definition fetch_stdin :: "nat \<Rightarrow> stdin_env \<Rightarrow> (stdin_data, stdin_state, unit) fetch_ops" where
  "fetch_stdin n e = \<lparr>fo_first = Stdin_init, fo_step = stdin_step n e, fo_fill = None, fo_commit = None,
     fo_abort = fetch_stdin_abort, fo_total = None\<rparr>"

end
