(* ===== verification/FetchPipe.thy ===== *)
theory FetchPipe imports Pop3 Imap Command begin

text \<open>
  POP3 and IMAP through a command instead of a connection (\<^verbatim>\<open>fetch-pop3pipe.c\<close>, \<^verbatim>\<open>fetch-imappipe.c\<close>): the server is
  what the command's input and output lead to. The two files have the same functions.
\<close>

section \<open>The command as a connection\<close>

text \<open>
  \<open>PipeFreed\<close> is a pointer to a command that was freed. The line buffer of the context is \<open>None\<close> once it has been
  freed. The system starts the command with \<open>pc_start\<close> and answers poll number \<open>n\<close> with \<open>pc_sys n\<close>.
\<close>

datatype pipe_cmd = PipeNull | PipeCmd cmd | PipeFreed

record pipe_conn =
  pc_cmd :: pipe_cmd
  pc_lbuf :: "char list option"
  pc_llen :: size_t
  pc_kern :: kern
  pc_polls :: nat
  pc_start :: start_sys
  pc_sys :: "nat \<Rightarrow> poll_sys"

definition the_cmd :: "pipe_conn \<Rightarrow> cmd res" where
  "the_cmd p = (case pc_cmd p of PipeCmd c \<Rightarrow> Inr c | _ \<Rightarrow> Inl (MemErr ''cmd''))"

definition fetch_pop3pipe_putln :: "pipe_conn \<Rightarrow> char list \<Rightarrow> (bool \<times> pipe_conn) res" where
  "fetch_pop3pipe_putln p text' = rbind (the_cmd p) (\<lambda>c. case cmd_in c of
     None \<Rightarrow> Inr (False, p)
   | Some (fd, i) \<Rightarrow> rbind (io_vwriteline i (Some text')) (\<lambda>i. Inr (True, p\<lparr>pc_cmd := PipeCmd (c\<lparr>cmd_in := Some (fd, i)\<rparr>)\<rparr>)))"

text \<open>A line of errors is the line buffer, and it is freed.\<close>

definition fetch_pop3pipe_getln :: "pipe_conn \<Rightarrow> (char list option option \<times> pipe_conn) res" where
  "fetch_pop3pipe_getln p = rbind (the_cmd p) (\<lambda>c. case pc_lbuf p of
     None \<Rightarrow> Inl (MemErr ''lbuf'')
   | Some lbuf \<Rightarrow> rbind (cmd_poll (pc_sys p (pc_polls p)) True 0 lbuf (pc_llen p) c (pc_kern p)) (\<lambda>(n, got, c, k).
       let p = p\<lparr>pc_cmd := PipeCmd c, pc_kern := k, pc_polls := pc_polls p + 1, pc_lbuf := Some (pg_lbuf got), pc_llen := pg_llen got\<rparr> in
       if n \<noteq> 0 then Inr (None, p)
       else Inr (Some (pg_out got), if pg_err got \<noteq> None then p\<lparr>pc_lbuf := None\<rparr> else p)))"

definition fetch_pop3pipe_fill :: "pipe_conn \<Rightarrow> nat" where
  "fetch_pop3pipe_fill p = (case pc_cmd p of
     PipeCmd c \<Rightarrow> length (filter (\<lambda>i. i \<noteq> None) [cmd_in c, cmd_out c, cmd_err c]) | _ \<Rightarrow> 0)"

definition fetch_pop3pipe_connect :: "pipe_conn \<Rightarrow> (bool \<times> pipe_conn) res" where
  "fetch_pop3pipe_connect p = rbind (cmd_start (pc_start p) True True False [] (pc_kern p)) (\<lambda>(r, k). case r of
     Inl _ \<Rightarrow> Inr (False, p\<lparr>pc_cmd := PipeNull, pc_kern := k\<rparr>)
   | Inr c \<Rightarrow> Inr (True, p\<lparr>pc_cmd := PipeCmd c, pc_kern := k\<rparr>))"

text \<open>The pointer is kept; to disconnect twice frees the command twice, which \<open>the_cmd\<close> does not allow.\<close>

definition fetch_pop3pipe_disconnect :: "pipe_conn \<Rightarrow> pipe_conn" where
  "fetch_pop3pipe_disconnect p = (case pc_cmd p of
     PipeCmd c \<Rightarrow> p\<lparr>pc_cmd := PipeFreed, pc_kern := cmd_free c (pc_kern p)\<rparr> | _ \<Rightarrow> p)"

definition pipe_ops :: "pipe_conn conn_ops" where
  "pipe_ops = \<lparr>cn_connect = fetch_pop3pipe_connect, cn_disconnect = fetch_pop3pipe_disconnect,
     cn_getln = fetch_pop3pipe_getln, cn_putln = fetch_pop3pipe_putln\<rparr>"

section \<open>The handlers\<close>

definition fetch_pop3pipe_state_init :: "pipe_conn pop3_step" where
  "fetch_pop3pipe_state_init d f = pop3_state_init (d\<lparr>p_src := None\<rparr>) f"

definition fetch_pop3pipe :: "nat \<Rightarrow> pipe_conn pop3_env \<Rightarrow> (pipe_conn pop3_data, pop3_state, pop3_mail) fetch_ops" where
  "fetch_pop3pipe n e = (let e = e\<lparr>pe_ops := pipe_ops\<rparr> in \<lparr>fo_first = Pop3_init,
     fo_step = (\<lambda>d f. if f_state f = Pop3_init then fetch_pop3pipe_state_init d f else pop3_step n e d f),
     fo_fill = Some (\<lambda>d. fetch_pop3pipe_fill (p_conn d)), fo_commit = Some (pop3_commit e), fo_abort = pop3_abort e, fo_total = Some pop3_total\<rparr>)"

definition fetch_imappipe_state_init :: "pipe_conn imap_step" where
  "fetch_imappipe_state_init d f = imap_state_init (d\<lparr>i_src := None\<rparr>) f"

definition fetch_imappipe :: "pipe_conn imap_env \<Rightarrow> (pipe_conn imap_data, imap_state, nat) fetch_ops" where
  "fetch_imappipe e = (let e = e\<lparr>ie_ops := pipe_ops\<rparr> in \<lparr>fo_first = Imap_init,
     fo_step = (\<lambda>d f. if f_state f = Imap_init then fetch_imappipe_state_init d f else imap_step e d f),
     fo_fill = Some (\<lambda>d. fetch_pop3pipe_fill (i_conn d)), fo_commit = Some imap_commit, fo_abort = imap_abort e, fo_total = Some imap_total\<rparr>)"

section \<open>Properties\<close>

text \<open>
  a line of errors from the command that a POP3 or IMAP account is fetched through breaks the fetch. It is reported
  and freed, but it is the line buffer of the handler: the next line that is asked for is read into memory that was given
  back. Without a line of errors the buffer stays.
\<close>

theorem pipe_error_line_frees_buffer:
  assumes p: "pc_cmd p = PipeCmd c" "pc_lbuf p = Some lbuf"
    and poll: "cmd_poll (pc_sys p (pc_polls p)) True 0 lbuf (pc_llen p) c (pc_kern p) = Inr (0, got, c', k')"
  shows "\<exists>p'. cn_getln pipe_ops p = Inr (Some (pg_out got), p') \<and> pc_cmd p' = PipeCmd c' \<and>
    (pg_err got = None \<longrightarrow> pc_lbuf p' = Some (pg_lbuf got)) \<and>
    (pg_err got \<noteq> None \<longrightarrow> pg_out got = None \<and> cn_getln pipe_ops p' = Inl (MemErr ''lbuf''))"
  using assms cmd_poll_err [OF poll]
  by (simp add: pipe_ops_def fetch_pop3pipe_getln_def the_cmd_def Let_def)

definition sample_pipe :: pipe_conn where
  "sample_pipe = \<lparr>pc_cmd = PipeCmd \<lparr>cmd_pid = 1, cmd_status = 0, CMD_IN = True, CMD_OUT = True, CMD_ONCE = False, cmd_buf = [],
       cmd_sent = [], cmd_in = None, cmd_out = None, cmd_err = Some (3, sample_io (''no'' @ [NL]) [NL])\<rparr>,
     pc_lbuf = Some (replicate 256 NUL), pc_llen = 256, pc_kern = \<lparr>k_fds = [], k_pipes = 0, k_killed = []\<rparr>, pc_polls = 0,
     pc_start = \<lparr>ss_in = True, ss_out = True, ss_err = True, ss_fork = 1, ss_outdata = [], ss_errdata = []\<rparr>,
     pc_sys = (\<lambda>_. \<lparr>ps_write = WriteAgain, ps_poll = PollTimeout, ps_wait = WaitNone, ps_itimer = (\<lambda>_. True), ps_timer_expired = False\<rparr>)\<rparr>"

lemma pipe_error_line_frees_buffer_witness:
  "\<exists>p'. cn_getln pipe_ops sample_pipe = Inr (Some None, p') \<and> cn_getln pipe_ops p' = Inl (MemErr ''lbuf'')"
proof -
  let ?i = "sample_io (''no'' @ [NL]) [NL]"
  let ?lbuf = "replicate 256 NUL"
  have n: "next_line [NL] (''no'' @ [NL]) = Some 2" by (simp add: next_line_def eol_at_def IO_MAXLINELEN_def upt_rec)
  obtain buf' len' i' where r: "io_readline2 ?i ?lbuf 256 = Inr (Some ''no'', buf', len', i')"
    using readline_spec [OF sample_io_ok(1), of "[NL]" "''no'' @ [NL]" ?lbuf 256] n sample_io_ok(4) [of "[NL]" "''no'' @ [NL]"]
    by (auto simp: block_ok_def)
  obtain c where c: "pc_cmd sample_pipe = PipeCmd c" "cmd_err c = Some (3, ?i)" "cmd_in c = None" "cmd_out c = None" "cmd_buf c = []"
    by (simp add: sample_pipe_def)
  have "\<exists>got c' k'. cmd_poll (pc_sys sample_pipe (pc_polls sample_pipe)) True 0 ?lbuf (pc_llen sample_pipe) c (pc_kern sample_pipe) = Inr (0, got, c', k') \<and> pg_err got \<noteq> None"
    using r c by (simp add: cmd_poll_def cmd_write_def cmd_wait_io_def all_closed_def cmd_ios_def io_polln_def io_before_poll_def
        sample_pipe_def put_ios_def put_io_def cmd_line_def strip_cr_def cstr_def sample_io_def Let_def)
  then obtain got c' k' where g: "cmd_poll (pc_sys sample_pipe (pc_polls sample_pipe)) True 0 ?lbuf (pc_llen sample_pipe) c (pc_kern sample_pipe) = Inr (0, got, c', k')"
    "pg_err got \<noteq> None" by blast
  have "pc_lbuf sample_pipe = Some ?lbuf" by (simp add: sample_pipe_def)
  from pipe_error_line_frees_buffer [OF c(1) this g(1)] g(2) show ?thesis by auto
qed

end
