(* ===== verification/Smtp.thy ===== *)
theory Smtp imports MailState Io begin

text \<open>
  Delivery by SMTP (\<^verbatim>\<open>deliver-smtp.c\<close>): the dialogue with the server and the text of the mail in its data phase. The
  connection is what \<open>connectproxy\<close> gives; the loops take the answers of the polls that are still to come.
\<close>

section \<open>Responses\<close>

definition deliver_smtp_code :: "char list \<Rightarrow> int" where
  "deliver_smtp_code line =
     (let ds = takeWhile isdigit line in
      if ds = [] then - 1 else case strtonum ds 100 999 of Inl _ \<Rightarrow> - 1 | Inr n \<Rightarrow> n)"

section \<open>The text of the mail\<close>

definition smtp_update :: "io \<Rightarrow> int \<Rightarrow> poll_answer list \<Rightarrow> (int \<times> io \<times> poll_answer list) res" where
  "smtp_update i timeout answers = rbind (the_buf (io_wr i)) (\<lambda>wr.
     if BUFFER_USED wr < IO_FLUSHSIZE then Inr (1, i, answers)
     else case answers of
       [] \<Rightarrow> Inl (Diverges ''poll'')
     | ans # answers \<Rightarrow> rbind (io_update i timeout ans) (\<lambda>(r, i). Inr (fst r, i, answers)))"

text \<open>Every line is written without its last byte, with a dot before a dot.\<close>

definition smtp_line :: "int \<Rightarrow> 'x mail \<Rightarrow> io \<times> poll_answer list \<Rightarrow> nat \<Rightarrow> nat \<Rightarrow> ((io \<times> poll_answer list) + io \<times> poll_answer list) res" where
  "smtp_line timeout m s p len = (case s of (i, answers) \<Rightarrow>
     rbind (if 1 < len then rbind (bytes_at m p len) (\<lambda>l.
              rbind (if hd l = CHR ''.'' then io_write i ''.'' else Inr i) (\<lambda>i. io_write i (take (len - 1) l)))
            else Inr i) (\<lambda>i.
     rbind (io_writeline i None) (\<lambda>i.
     rbind (smtp_update i timeout answers) (\<lambda>(r, i, answers).
       Inr (if r \<noteq> 1 then Inl (i, answers) else Inr (i, answers))))))"

definition smtp_text :: "int \<Rightarrow> 'x mail \<Rightarrow> io \<Rightarrow> poll_answer list \<Rightarrow> ((io \<times> poll_answer list) + io \<times> poll_answer list) res" where
  "smtp_text timeout m i answers = on_lines m (smtp_line timeout m) (i, answers)"

section \<open>The dialogue\<close>

datatype smtp_state = SMTP_CONNECTING | SMTP_HELO | SMTP_FROM | SMTP_TO | SMTP_DATA | SMTP_DONE | SMTP_QUIT

datatype smtp_result = SmtpGo smtp_state io "poll_answer list" | SmtpFailed io "poll_answer list" | SmtpSent io

definition smtp_say :: "io \<Rightarrow> poll_answer list \<Rightarrow> bool \<Rightarrow> smtp_state \<Rightarrow> char list \<Rightarrow> smtp_result res" where
  "smtp_say i answers ok st text' =
     (if \<not> ok then Inr (SmtpFailed i answers)
      else rbind (io_writeline i (Some text')) (\<lambda>i. Inr (SmtpGo st i answers)))"

definition host_of :: "conf \<Rightarrow> char list" where
  "host_of cf = (case conf_host_fqdn cf of Some h \<Rightarrow> h | None \<Rightarrow> (case conf_host_name cf of Some h \<Rightarrow> h | None \<Rightarrow> ''(null)''))"

definition smtp_step ::
    "conf \<Rightarrow> char list \<Rightarrow> char list \<Rightarrow> 'x mail \<Rightarrow> smtp_state \<Rightarrow> int \<Rightarrow> io \<Rightarrow> poll_answer list \<Rightarrow> smtp_result res" where
  "smtp_step cf sender rcpt m st rc i answers = (case st of
     SMTP_CONNECTING \<Rightarrow> smtp_say i answers (rc = 220) SMTP_HELO (''HELO '' @ host_of cf)
   | SMTP_HELO \<Rightarrow> smtp_say i answers (rc = 250) SMTP_FROM (''MAIL FROM:<'' @ sender @ ''>'')
   | SMTP_FROM \<Rightarrow> smtp_say i answers (rc = 250) SMTP_TO (''RCPT TO:<'' @ rcpt @ ''>'')
   | SMTP_TO \<Rightarrow> smtp_say i answers (rc = 250) SMTP_DATA ''DATA''
   | SMTP_DATA \<Rightarrow>
       if rc \<noteq> 354 then Inr (SmtpFailed i answers)
       else rbind (smtp_text (conf_timeout cf) m i answers) (\<lambda>r. case r of
         Inl (i, answers) \<Rightarrow> Inr (SmtpFailed i answers)
       | Inr (i, answers) \<Rightarrow> rbind (io_writeline i (Some ''.'')) (\<lambda>i.
           rbind (io_flush i (conf_timeout cf) answers) (\<lambda>(n, i, answers). Inr (SmtpGo SMTP_DONE i answers))))
   | SMTP_DONE \<Rightarrow> smtp_say i answers (rc = 250) SMTP_QUIT ''QUIT''
   | SMTP_QUIT \<Rightarrow> if rc \<noteq> 500 \<and> rc \<noteq> 221 then Inr (SmtpFailed i answers) else Inr (SmtpSent i))"

fun smtp_left :: "smtp_state \<Rightarrow> nat" where
  "smtp_left SMTP_CONNECTING = 6"
| "smtp_left SMTP_HELO = 5"
| "smtp_left SMTP_FROM = 4"
| "smtp_left SMTP_TO = 3"
| "smtp_left SMTP_DATA = 2"
| "smtp_left SMTP_DONE = 1"
| "smtp_left SMTP_QUIT = 0"

lemma smtp_say_left: "smtp_say i answers ok st text' = Inr (SmtpGo st' i' answers') \<Longrightarrow> st' = st"
  by (auto simp: smtp_say_def rbind_Inr_iff split: if_splits)

lemma smtp_data_left:
  assumes "rbind (smtp_text t m i answers) (\<lambda>r. case r of
      Inl (i, answers) \<Rightarrow> Inr (SmtpFailed i answers)
    | Inr (i, answers) \<Rightarrow> rbind (io_writeline i (Some ''.'')) (\<lambda>i.
        rbind (io_flush i t answers) (\<lambda>(n, i, answers). Inr (SmtpGo SMTP_DONE i answers)))) = Inr (SmtpGo st' i' answers')"
  shows "st' = SMTP_DONE"
  using assms by (cases "smtp_text t m i answers") (auto simp: rbind_Inr_iff split: sum.split_asm prod.split_asm)

lemma smtp_step_left: "smtp_step cf sender rcpt m st rc i answers = Inr (SmtpGo st' i' answers') \<Longrightarrow> smtp_left st' < smtp_left st"
  by (cases st) (auto simp: smtp_step_def dest!: smtp_say_left smtp_data_left split: if_splits)

text \<open>Each round reads one response, whatever it is part of, and takes the next state.\<close>

function smtp_loop ::
    "conf \<Rightarrow> char list \<Rightarrow> char list \<Rightarrow> 'x mail \<Rightarrow> smtp_state \<Rightarrow> char list \<Rightarrow> size_t \<Rightarrow> io \<Rightarrow> poll_answer list \<Rightarrow> (bool \<times> io \<times> poll_answer list) res" where
  "smtp_loop cf sender rcpt m st lbuf llen i answers =
     (case io_pollline2 i lbuf llen (conf_timeout cf) answers of
        Inl e \<Rightarrow> Inl e
      | Inr ((n, _, _), line, lbuf, llen, i, answers) \<Rightarrow>
          if n = 0 \<or> n = - 1 then Inr (False, i, answers)
          else (case line of
            None \<Rightarrow> Inl (MemErr ''line'')
          | Some line \<Rightarrow> (case smtp_step cf sender rcpt m st (deliver_smtp_code (cstr line)) i answers of
              Inl e \<Rightarrow> Inl e
            | Inr (SmtpFailed i answers) \<Rightarrow> Inr (False, i, answers)
            | Inr (SmtpSent i) \<Rightarrow> Inr (True, i, answers)
            | Inr (SmtpGo st i answers) \<Rightarrow> smtp_loop cf sender rcpt m st lbuf llen i answers)))"
  by pat_completeness auto
termination
  by (relation "measure (\<lambda>(cf, sender, rcpt, m, st, lbuf, llen, i, answers). smtp_left st)") (auto dest: smtp_step_left)

declare smtp_loop.simps [simp del]

section \<open>The delivery\<close>

definition smtp_address :: "conf \<Rightarrow> userdata \<Rightarrow> 'x mail \<Rightarrow> char list option \<Rightarrow> char list option res" where
  "smtp_address cf ud m addr = (case addr of
     None \<Rightarrow> Inr (Some (ud_name ud @ ''@'' @ host_of cf))
   | Some a \<Rightarrow> rbind (mail_replace cf m a) (\<lambda>t. Inr (if t = Some [] then None else t)))"

text \<open>On an error the server is told to quit.\<close>

definition smtp_quit :: "int \<Rightarrow> io \<Rightarrow> poll_answer list \<Rightarrow> (bool \<times> io) res" where
  "smtp_quit timeout i answers = rbind (io_writeline i (Some ''QUIT'')) (\<lambda>i.
     rbind (io_flush i timeout answers) (\<lambda>(n, i, _). Inr (False, i)))"

definition deliver_smtp_deliver ::
    "conf \<Rightarrow> io option \<Rightarrow> poll_answer list \<Rightarrow> userdata \<Rightarrow> char list option \<Rightarrow> char list option \<Rightarrow> 'x mail \<Rightarrow> (bool \<times> io option) res" where
  "deliver_smtp_deliver cf dial answers ud toaddr fromaddr m = (case dial of
     None \<Rightarrow> Inr (False, None)
   | Some i \<Rightarrow> rbind (xmalloc IO_LINESIZE) (\<lambda>lbuf.
       rbind (smtp_address cf ud m toaddr) (\<lambda>rcpt. case rcpt of
         None \<Rightarrow> rbind (smtp_quit (conf_timeout cf) i answers) (\<lambda>(ok, i). Inr (ok, Some i))
       | Some rcpt \<Rightarrow> rbind (smtp_address cf ud m fromaddr) (\<lambda>sender. case sender of
           None \<Rightarrow> rbind (smtp_quit (conf_timeout cf) i answers) (\<lambda>(ok, i). Inr (ok, Some i))
         | Some sender \<Rightarrow> rbind (smtp_loop cf sender rcpt m SMTP_CONNECTING lbuf IO_LINESIZE i answers) (\<lambda>(ok, i, answers).
             rbind (if ok then Inr (True, i) else smtp_quit (conf_timeout cf) i answers) (\<lambda>(ok, i). Inr (ok, Some i)))))))"

end
