(* ===== verification/Smtp_Correct.thy ===== *)
theory Smtp_Correct imports Smtp Pop3_Correct Io_Wire begin

text \<open>
  What the data phase of an SMTP delivery puts on the wire: the lines of the mail with their dots doubled, which a
  reader that undoes the doubling, as the POP3 fetch does, turns back into the mail.
\<close>

section \<open>The data phase on the wire\<close>

lemma smtp_update_wire:
  assumes "smtp_update i timeout answers = Inr (1, i', answers')" "wire i t" "length t < 2 ^ 62"
  shows "wire i' t \<and> io_eol i' = io_eol i"
proof -
  obtain s wr where w: "io_out_ok i s" "io_wr i = Some wr" using assms(2) by (auto simp: wire_def io_out_ok_def)
  show ?thesis
  proof (cases "BUFFER_USED wr < IO_FLUSHSIZE")
    case True
    then show ?thesis using assms w by (simp add: smtp_update_def)
  next
    case False
    then obtain a r where a: "io_poll i timeout a = Inr (r, i')" "fst r = 1"
      using assms(1) w by (auto simp: smtp_update_def io_update_def rbind_Inr_iff split: list.splits)
    then show ?thesis using assms(2,3) by (rule io_poll_wire)
  qed
qed

section \<open>The data phase\<close>

text \<open>A line with or without the doubling of a dot at its start.\<close>

definition line_put :: "bool \<Rightarrow> int \<Rightarrow> io \<times> Io.poll_answer list \<Rightarrow> char list \<Rightarrow> ((io \<times> Io.poll_answer list) + io \<times> Io.poll_answer list) res" where
  "line_put dots timeout s l = (case s of (i, answers) \<Rightarrow>
     rbind (if 1 < length l then rbind (if dots \<and> hd l = CHR ''.'' then io_write i ''.'' else Inr i) (\<lambda>i. io_write i (take (length l - 1) l)) else Inr i) (\<lambda>i.
     rbind (io_writeline i None) (\<lambda>i.
     rbind (smtp_update i timeout answers) (\<lambda>(r, i, answers).
       Inr (if r \<noteq> 1 then Inl (i, answers) else Inr (i, answers))))))"

text \<open>The lines as they are written.\<close>

definition stuffed :: "bool \<Rightarrow> char list \<Rightarrow> char list" where
  "stuffed dots l = (if dots then stuff l else l)"

definition wired :: "bool \<Rightarrow> char list \<Rightarrow> char list list \<Rightarrow> char list" where
  "wired dots eol ls = concat (map (\<lambda>l. stuffed dots (butlast l) @ eol) ls)"

lemma wired_simps [simp]: "wired dots eol [] = []" "wired dots eol (l # ls) = stuffed dots (butlast l) @ eol @ wired dots eol ls"
  by (simp_all add: wired_def)

lemma stuffed_butlast:
  "stuffed dots (butlast l) = (if 1 < length l then (if dots \<and> hd l = CHR ''.'' then ''.'' else []) @ take (length l - 1) l else [])"
proof (cases "1 < length l")
  case True
  then have "butlast l \<noteq> []" "hd (butlast l) = hd l" by (cases l; cases "tl l"; simp)+
  with True show ?thesis by (simp add: stuffed_def stuff_def butlast_conv_take)
next
  case False
  then have "butlast l = []" by (cases l) auto
  with False show ?thesis by (simp add: stuffed_def stuff_def)
qed

lemma smtp_body_wire:
  assumes w: "wire i t" and small: "length t + length (stuffed dots (butlast l) @ io_eol i) < 2 ^ 62"
  shows "\<exists>i1. rbind (if 1 < length l then rbind (if dots \<and> hd l = CHR ''.'' then io_write i ''.'' else Inr i) (\<lambda>i. io_write i (take (length l - 1) l)) else Inr i)
      (\<lambda>i. io_writeline i None) = Inr i1 \<and> wire i1 (t @ stuffed dots (butlast l) @ io_eol i) \<and> io_eol i1 = io_eol i \<and> io_sent i1 = io_sent i"
proof (cases "1 < length l")
  case False
  with w small io_writeline_none_wire [OF w] show ?thesis by (simp add: stuffed_butlast)
next
  case True
  have ne: "take (length l - 1) l \<noteq> []" using True by (cases l) auto
  have sb: "stuffed dots (butlast l) = (if dots \<and> hd l = CHR ''.'' then ''.'' else []) @ take (length l - 1) l" using True by (simp add: stuffed_butlast)
  obtain i0 where i0: "(if dots \<and> hd l = CHR ''.'' then io_write i ''.'' else Inr i) = Inr i0" "wire i0 (t @ (if dots \<and> hd l = CHR ''.'' then ''.'' else []))"
    "io_eol i0 = io_eol i" "io_sent i0 = io_sent i"
    using io_write_wire [OF w, of "''.''"] w small sb by (cases "dots \<and> hd l = CHR ''.''") auto
  obtain i1 where i1: "io_write i0 (take (length l - 1) l) = Inr i1" "wire i1 ((t @ (if dots \<and> hd l = CHR ''.'' then ''.'' else [])) @ take (length l - 1) l)"
    "io_eol i1 = io_eol i0" "io_sent i1 = io_sent i0"
    using io_write_wire [OF i0(2) ne] small sb by auto
  obtain i2 where "io_writeline i1 None = Inr i2" "wire i2 ((t @ stuffed dots (butlast l)) @ io_eol i)" "io_eol i2 = io_eol i" "io_sent i2 = io_sent i"
    using io_writeline_none_wire [OF i1(2)] small sb i1(3,4) i0(3,4) by auto
  with True i0(1) i1(1) show ?thesis by simp
qed

lemma wire_room:
  assumes "wire i t" "length t \<le> length (io_sent i) + n" "n < unat IO_FLUSHSIZE"
  shows "smtp_update i timeout answers = Inr (1, i, answers)"
proof -
  obtain s wr where w: "io_out_ok i s" "io_sent i @ s = t" "io_wr i = Some wr" "buffer_ok wr" "contents wr = s"
    using assms(1) by (auto simp: wire_def io_out_ok_def)
  have "unat (BUFFER_USED wr) = length s" using length_contents [OF w(4)] w(5) by (simp add: BUFFER_USED_def)
  then have "BUFFER_USED wr < IO_FLUSHSIZE" using assms(2,3) w(2) by (auto simp: word_less_nat_alt)
  with w(3) show ?thesis by (simp add: smtp_update_def)
qed

lemma smtp_fold:
  assumes "wire i t" "length t + length (wired dots (io_eol i) ls) < 2 ^ 62"
  shows "fold_lines (\<lambda>s p l. line_put dots timeout s l) (i, answers) p ls = Inr (Inr (i', answers')) \<Longrightarrow>
      wire i' (t @ wired dots (io_eol i) ls) \<and> io_eol i' = io_eol i"
    and "length t + length (wired dots (io_eol i) ls) \<le> length (io_sent i) + n \<Longrightarrow> n < unat IO_FLUSHSIZE \<Longrightarrow>
      \<exists>i'. fold_lines (\<lambda>s p l. line_put dots timeout s l) (i, answers) p ls = Inr (Inr (i', answers)) \<and> io_sent i' = io_sent i"
  using assms
proof (induction ls arbitrary: i t answers p)
  case Nil
  {
    case 1
    then show ?case by simp
  next
    case 2
    then show ?case by simp
  }
next
  case (Cons l ls)
  {
    case 1
    then obtain i1 where i1: "rbind (if 1 < length l then rbind (if dots \<and> hd l = CHR ''.'' then io_write i ''.'' else Inr i) (\<lambda>i. io_write i (take (length l - 1) l)) else Inr i)
        (\<lambda>i. io_writeline i None) = Inr i1" "wire i1 (t @ stuffed dots (butlast l) @ io_eol i)" "io_eol i1 = io_eol i"
      using smtp_body_wire [of i t dots l] by auto
    obtain i2 as2 where i2: "smtp_update i1 timeout answers = Inr (1, i2, as2)"
      "fold_lines (\<lambda>s p l. line_put dots timeout s l) (i2, as2) (p + length l) ls = Inr (Inr (i', answers'))"
      using "1" i1(1) by (auto simp: line_put_def rbind_assoc [symmetric] rbind_Inr_iff split: sum.splits if_splits)
    have "wire i2 (t @ stuffed dots (butlast l) @ io_eol i) \<and> io_eol i2 = io_eol i"
      using smtp_update_wire [OF i2(1) i1(2)] "1"(3) i1(3) by simp
    then show ?case using Cons.IH(1) [OF i2(2), of "t @ stuffed dots (butlast l) @ io_eol i"] "1"(3) by simp
  next
    case 2
    then obtain i1 where i1: "rbind (if 1 < length l then rbind (if dots \<and> hd l = CHR ''.'' then io_write i ''.'' else Inr i) (\<lambda>i. io_write i (take (length l - 1) l)) else Inr i)
        (\<lambda>i. io_writeline i None) = Inr i1" "wire i1 (t @ stuffed dots (butlast l) @ io_eol i)" "io_eol i1 = io_eol i" "io_sent i1 = io_sent i"
      using smtp_body_wire [of i t dots l] by auto
    have u: "smtp_update i1 timeout answers = Inr (1, i1, answers)"
      using wire_room [OF i1(2), of n] "2" i1(4) by simp
    have "line_put dots timeout (i, answers) l = Inr (Inr (i1, answers))"
      using i1(1) u by (simp add: line_put_def rbind_assoc [symmetric])
    moreover obtain i' where "fold_lines (\<lambda>s p l. line_put dots timeout s l) (i1, answers) (p + length l) ls = Inr (Inr (i', answers))" "io_sent i' = io_sent i"
      using Cons.IH(2) [OF _ _ i1(2)] "2" i1(3,4) by auto
    ultimately show ?case by simp
  }
qed

section \<open>Properties\<close>

lemma lines_read_back:
  "c \<noteq> [] \<Longrightarrow> concat (map (\<lambda>l. butlast l @ [NL]) (lines_of c)) = butlast c @ [NL]"
proof (induction c rule: lines_of.induct)
  case (1 c)
  show ?case
  proof (cases "line_len c = length c")
    case True
    then show ?thesis by (subst lines_of.simps) simp
  next
    case False
    then obtain i where i: "memchr c NL = Some i" "line_len c = i + 1" by (auto simp: line_len_def split: option.splits)
    have n: "i < length c" "c ! i = NL" "i + 1 < length c" using i False by (auto simp: memchr_Some)
    have "butlast (take (i + 1) c) @ [NL] = take (i + 1) c" using n by (simp add: butlast_take take_Suc_conv_app_nth)
    moreover have "drop (i + 1) c \<noteq> []" using n by simp
    moreover have "take (i + 1) c @ butlast (drop (i + 1) c) = butlast c"
      using n(3) by (metis append_take_drop_id butlast_append drop_eq_Nil not_less)
    ultimately show ?thesis using "1.IH" False i(2) by (subst lines_of.simps) simp
  qed
qed

text \<open>
  C12: the data phase of an SMTP delivery writes the lines of the mail in order, each ended by the line end of the io and with
  a dot doubled at its start, whatever the system takes at once; with less than \<open>IO_FLUSHSIZE\<close> bytes it does so without
  waiting. A reader that undoes the doubling gets the mail - if it ends with a newline: the last byte of the mail
  is taken for the end of its line.
\<close>

theorem smtp_sends_mail:
  assumes m: "mail_ok m" and i: "io_out_ok i s"
    and small: "length (io_sent i @ s) + length (wired True (io_eol i) (lines_of (content m))) < 2 ^ 62"
  shows "(\<forall>i' answers'. smtp_text timeout m i answers = Inr (Inr (i', answers')) \<longrightarrow>
       (\<exists>s'. io_out_ok i' s' \<and> io_sent i' @ s' = io_sent i @ s @ concat (map (\<lambda>l. stuff (butlast l) @ io_eol i) (lines_of (content m))))) \<and>
    (length s + length (wired True (io_eol i) (lines_of (content m))) < unat IO_FLUSHSIZE \<longrightarrow>
       (\<exists>i'. smtp_text timeout m i answers = Inr (Inr (i', answers)))) \<and>
    (content m \<noteq> [] \<longrightarrow>
       concat (map (\<lambda>l. unstuff (stuff (butlast l)) @ [NL]) (lines_of (content m))) = butlast (content m) @ [NL])"
proof -
  have w: "wire i (io_sent i @ s)" using i by (auto simp: wire_def)
  have f: "smtp_text timeout m i answers = fold_lines (\<lambda>s p l. line_put True timeout s l) (i, answers) 0 (lines_of (content m))"
    unfolding smtp_text_def
  proof (rule on_lines_fold [OF m])
    fix st :: "io \<times> Io.poll_answer list" and p n :: nat
    assume p: "p + n \<le> msize m"
    then have "length (take n (drop p (content m))) = n" using m by simp
    with p m show "smtp_line timeout m st p n = line_put True timeout st (take n (drop p (content m)))"
      by (cases st) (simp add: smtp_line_def line_put_def bytes_at_ok take_all)
  qed
  note F = smtp_fold [OF w small, where timeout = timeout and answers = answers and p = 0]
  show ?thesis
    unfolding f using F(1) F(2) [of "length s + length (wired True (io_eol i) (lines_of (content m)))"] lines_read_back [of "content m"]
    by (fastforce simp: wire_def wired_def stuffed_def unstuff_stuff)
qed

lemma smtp_sends_mail_witness:
  "\<exists>i' s'. smtp_text 0 sample_mail (sample_io [] [CR, NL]) [] = Inr (Inr (i', [])) \<and> io_out_ok i' s' \<and>
     io_sent i' @ s' = ''A: b'' @ [CR, NL] @ '' c'' @ [CR, NL, CR, NL] @ ''hi'' @ [CR, NL]"
proof -
  have l: "lines_of sample_text = [''A: b'' @ [NL], '' c'' @ [NL], [NL], ''hi'' @ [NL]]" by code_simp
  have o: "io_out_ok (sample_io [] [CR, NL]) []" "io_eol (sample_io [] [CR, NL]) = [CR, NL]" "io_sent (sample_io [] [CR, NL]) = []"
    using sample_io_ok(2,4) [of "[CR, NL]" "[]"] by (simp_all add: sample_io_def)
  have w: "wired True [CR, NL] (lines_of sample_text) = ''A: b'' @ [CR, NL] @ '' c'' @ [CR, NL, CR, NL] @ ''hi'' @ [CR, NL]"
    unfolding l by (simp add: stuffed_def stuff_def)
  have small: "length (io_sent (sample_io [] [CR, NL]) @ []) + length (wired True (io_eol (sample_io [] [CR, NL])) (lines_of (content sample_mail))) < 2 ^ 62"
    "length ([] :: char list) + length (wired True (io_eol (sample_io [] [CR, NL])) (lines_of (content sample_mail))) < unat IO_FLUSHSIZE"
    using o w by (simp_all add: sample_mail_ok IO_FLUSHSIZE_def Io.IO_BLOCKSIZE_def)
  obtain i' where i': "smtp_text 0 sample_mail (sample_io [] [CR, NL]) [] = Inr (Inr (i', []))"
    using smtp_sends_mail [OF sample_mail_ok(1) o(1) small(1), of 0 "[]"] small(2) by blast
  with smtp_sends_mail [OF sample_mail_ok(1) o(1) small(1), of 0 "[]"] obtain s' where "io_out_ok i' s'"
    "io_sent i' @ s' = wired True [CR, NL] (lines_of sample_text)"
    using o by (auto simp: sample_mail_ok wired_def stuffed_def)
  with i' w show ?thesis by metis
qed

end
