(* ===== verification/ImapDeliver.thy ===== *)
theory ImapDeliver imports Imap Smtp_Correct begin

text \<open>
  Delivery into a folder of an IMAP server (\<^verbatim>\<open>deliver-imap.c\<close>): the login with the states of the IMAP fetch, then the
  append command, which creates the folder when the server asks for it. The io is the connection of the fetch data; the
  loops take the answers of the polls that are still to come.
\<close>

section \<open>Waiting\<close>

text \<open>Whether there may be data.\<close>

definition deliver_imap_poll :: "int \<Rightarrow> sock_conn imap_data \<Rightarrow> Io.poll_answer \<Rightarrow> (bool \<times> sock_conn imap_data) res" where
  "deliver_imap_poll timeout d ans = rbind (the_io (i_conn d)) (\<lambda>i. rbind (io_poll i timeout ans) (\<lambda>(r, i).
     Inr (fst r \<noteq> 0 \<and> fst r \<noteq> - 1, d\<lparr>i_conn := (Some i, snd (i_conn d))\<rparr>)))"

text \<open>The states of the fetch until one is reached; at most \<open>n\<close> of them are run.\<close>

fun deliver_imap_pollto ::
    "nat \<Rightarrow> imap_state option \<Rightarrow> int \<Rightarrow> sock_conn imap_env \<Rightarrow> Io.poll_answer list \<Rightarrow> sock_conn imap_data \<Rightarrow> imap_ctx \<Rightarrow>
     (bool \<times> Io.poll_answer list \<times> sock_conn imap_data \<times> imap_ctx) res" where
  "deliver_imap_pollto 0 st timeout e answers d f = Inl (Diverges ''deliver_imap_pollto'')"
| "deliver_imap_pollto (Suc n) st timeout e answers d f =
     (if st = Some (f_state f) then Inr (True, answers, d, f)
      else rbind (imap_step e d f) (\<lambda>(r, d, f).
        if r = FETCH_AGAIN then deliver_imap_pollto n st timeout e answers d f
        else if r = FETCH_ERROR then Inr (False, answers, d, f)
        else if r = FETCH_EXIT then Inr (True, answers, d, f)
        else case answers of
          [] \<Rightarrow> Inl (Diverges ''poll'')
        | ans # answers \<Rightarrow> rbind (deliver_imap_poll timeout d ans) (\<lambda>(ok, d).
            if ok then deliver_imap_pollto n st timeout e answers d f else Inr (False, answers, d, f))))"

text \<open>A line of a type; \<open>None\<close> after an error.\<close>

fun deliver_imap_wait ::
    "imap_type \<Rightarrow> int \<Rightarrow> sock_conn imap_env \<Rightarrow> Io.poll_answer list \<Rightarrow> sock_conn imap_data \<Rightarrow>
     (char list option \<times> Io.poll_answer list \<times> sock_conn imap_data) res" where
  "deliver_imap_wait type timeout e [] d = Inl (Diverges ''poll'')"
| "deliver_imap_wait type timeout e (ans # answers) d = rbind (deliver_imap_poll timeout d ans) (\<lambda>(ok, d).
     if \<not> ok then Inr (None, answers, d)
     else rbind (imap_getln (ie_fuel e) (ie_ops e) (i_tag d) type (i_conn d)) (\<lambda>(l, c).
       let d = d\<lparr>i_conn := c\<rparr> in case l of
         None \<Rightarrow> Inr (None, answers, d)
       | Some None \<Rightarrow> deliver_imap_wait type timeout e answers d
       | Some (Some line) \<Rightarrow> Inr (Some line, answers, d)))"

definition deliver_imap_waitokay ::
    "int \<Rightarrow> sock_conn imap_env \<Rightarrow> Io.poll_answer list \<Rightarrow> sock_conn imap_data \<Rightarrow> (char list option \<times> Io.poll_answer list \<times> sock_conn imap_data) res" where
  "deliver_imap_waitokay timeout e answers d = rbind (deliver_imap_wait IMAP_TAGGED timeout e answers d) (\<lambda>(l, answers, d).
     Inr (case l of None \<Rightarrow> None | Some line \<Rightarrow> if imap_okay line then Some line else None, answers, d))"

definition deliver_imap_waitcontinue ::
    "int \<Rightarrow> sock_conn imap_env \<Rightarrow> Io.poll_answer list \<Rightarrow> sock_conn imap_data \<Rightarrow> (bool \<times> Io.poll_answer list \<times> sock_conn imap_data) res" where
  "deliver_imap_waitcontinue timeout e answers d = rbind (deliver_imap_wait IMAP_CONTINUE timeout e answers d) (\<lambda>(l, answers, d).
     Inr (l \<noteq> None, answers, d))"

text \<open>
  The line of the caller is \<open>None\<close> before it was ever set, \<open>Some None\<close> when it is NULL. After an error it is what it was.
\<close>

type_synonym line_var = "char list option option"

fun deliver_imap_waitappend ::
    "int \<Rightarrow> sock_conn imap_env \<Rightarrow> Io.poll_answer list \<Rightarrow> line_var \<Rightarrow> sock_conn imap_data \<Rightarrow>
     (imap_tag \<times> line_var \<times> Io.poll_answer list \<times> sock_conn imap_data) res" where
  "deliver_imap_waitappend timeout e [] line d = Inl (Diverges ''poll'')"
| "deliver_imap_waitappend timeout e (ans # answers) line d = rbind (deliver_imap_poll timeout d ans) (\<lambda>(ok, d).
     if \<not> ok then Inr (IMAP_TAG_ERROR, line, answers, d)
     else rbind (cn_getln (ie_ops e) (i_conn d)) (\<lambda>(l, c).
       let d = d\<lparr>i_conn := c\<rparr> in case l of
         None \<Rightarrow> Inr (IMAP_TAG_ERROR, line, answers, d)
       | Some None \<Rightarrow> deliver_imap_waitappend timeout e answers (Some None) d
       | Some (Some s) \<Rightarrow> rbind (imap_tag s) (\<lambda>tag.
           if tag = IMAP_TAG_NONE then deliver_imap_waitappend timeout e answers (Some (Some s)) d
           else Inr (if tag = IMAP_TAG_CONTINUE \<or> tag = ImapTag (int (i_tag d)) then tag else IMAP_TAG_ERROR, Some (Some s), answers, d))))"

section \<open>The append command\<close>

definition imap_send :: "sock_conn imap_env \<Rightarrow> char list \<Rightarrow> sock_conn imap_data \<Rightarrow> (bool \<times> sock_conn imap_data) res" where
  "imap_send e s d = rbind (cn_putln (ie_ops e) (i_conn d) s) (\<lambda>(ok, c). Inr (ok, d\<lparr>i_conn := c\<rparr>))"

definition next_tag :: "sock_conn imap_data \<Rightarrow> sock_conn imap_data" where
  "next_tag d = d\<lparr>i_tag := (i_tag d + 1) mod 2 ^ 32\<rparr>"

text \<open>What is to be done after a response.\<close>

datatype append_next = AppendGo | AppendCreate | AppendError

definition line_str :: "line_var \<Rightarrow> char list res" where
  "line_str line = (case line of Some (Some s) \<Rightarrow> Inr s | _ \<Rightarrow> Inl (MemErr ''line''))"

definition append_reply :: "imap_tag \<Rightarrow> line_var \<Rightarrow> append_next res" where
  "append_reply tag line =
     (if tag = IMAP_TAG_ERROR then (if line = None then Inl (MemErr ''line'') else Inr AppendError)
      else if tag = IMAP_TAG_CONTINUE then Inr AppendGo
      else rbind (line_str line) (\<lambda>s. Inr (if imap_no s \<and> strstr s ''[TRYCREATE]'' \<noteq> None then AppendCreate else AppendError)))"

text \<open>After the mail the server must not ask for more.\<close>

definition append_done :: "imap_tag \<Rightarrow> line_var \<Rightarrow> append_next res" where
  "append_done tag line =
     (if tag = IMAP_TAG_ERROR \<or> tag = IMAP_TAG_CONTINUE then (if line = None then Inl (MemErr ''line'') else Inr AppendError)
      else rbind (line_str line) (\<lambda>s. Inr (if imap_okay s then AppendGo else if strstr s ''[TRYCREATE]'' \<noteq> None then AppendCreate else AppendError)))"

type_synonym append_state = "line_var \<times> Io.poll_answer list \<times> sock_conn imap_data"

definition append_ask :: "int \<Rightarrow> sock_conn imap_env \<Rightarrow> char list \<Rightarrow> append_state \<Rightarrow> (append_next \<times> append_state) res" where
  "append_ask timeout e s st = (case st of (line, answers, d) \<Rightarrow> rbind (imap_send e s d) (\<lambda>(ok, d).
     if \<not> ok then Inr (AppendError, line, answers, d)
     else rbind (deliver_imap_waitappend timeout e answers line d) (\<lambda>(tag, line, answers, d).
       rbind (append_reply tag line) (\<lambda>a. Inr (a, line, answers, d)))))"

text \<open>The size that is announced; a CRLF counts as one byte for a server with XYZZY.\<close>

definition append_size :: "sock_conn imap_data \<Rightarrow> 'x mail \<Rightarrow> nat res" where
  "append_size d m = rbind (count_lines m) (\<lambda>(lines, _).
     Inr (if i_capa_xyzzy d then msize m else size_sub (msize m + lines) 1))"

definition imap_line :: "int \<Rightarrow> 'x mail \<Rightarrow> io \<times> Io.poll_answer list \<Rightarrow> nat \<Rightarrow> nat \<Rightarrow> ((io \<times> Io.poll_answer list) + io \<times> Io.poll_answer list) res" where
  "imap_line timeout m s p len = (case s of (i, answers) \<Rightarrow>
     rbind (if 1 < len then rbind (bytes_at m p len) (\<lambda>l. io_write i (take (len - 1) l)) else Inr i) (\<lambda>i.
     rbind (io_writeline i None) (\<lambda>i.
     rbind (smtp_update i timeout answers) (\<lambda>(r, i, answers).
       Inr (if r \<noteq> 1 then Inl (i, answers) else Inr (i, answers))))))"

definition imap_text :: "int \<Rightarrow> 'x mail \<Rightarrow> io \<Rightarrow> Io.poll_answer list \<Rightarrow> ((io \<times> Io.poll_answer list) + io \<times> Io.poll_answer list) res" where
  "imap_text timeout m i answers = on_lines m (imap_line timeout m) (i, answers)"

definition append_data :: "int \<Rightarrow> sock_conn imap_env \<Rightarrow> 'x mail \<Rightarrow> append_state \<Rightarrow> (append_next \<times> append_state) res" where
  "append_data timeout e m st = (case st of (line, answers, d) \<Rightarrow>
     rbind (the_io (i_conn d)) (\<lambda>i. rbind (imap_text timeout m i answers) (\<lambda>r. case r of
       Inl (i, answers) \<Rightarrow> Inr (AppendError, line, answers, d\<lparr>i_conn := (Some i, snd (i_conn d))\<rparr>)
     | Inr (i, answers) \<Rightarrow>
         rbind (deliver_imap_waitappend timeout e answers line (d\<lparr>i_conn := (Some i, snd (i_conn d))\<rparr>)) (\<lambda>(tag, line, answers, d).
           rbind (append_done tag line) (\<lambda>a. Inr (a, line, answers, d))))))"

text \<open>One round from \<open>retry\<close>.\<close>

definition append_round :: "int \<Rightarrow> sock_conn imap_env \<Rightarrow> 'x mail \<Rightarrow> char list \<Rightarrow> append_state \<Rightarrow> (append_next \<times> append_state) res" where
  "append_round timeout e m folder st = (case st of (line, answers, d) \<Rightarrow>
     let d = next_tag d in
     rbind (append_ask timeout e (show_nat (i_tag d) @ '' APPEND {'' @ show_nat (length folder) @ ''}'') (line, answers, d)) (\<lambda>(a, line, answers, d).
     if a \<noteq> AppendGo then Inr (a, line, answers, d)
     else rbind (append_size d m) (\<lambda>maillen.
       rbind (append_ask timeout e (folder @ '' {'' @ show_nat maillen @ ''}'') (line, answers, d)) (\<lambda>(a, st).
         if a \<noteq> AppendGo then Inr (a, st) else append_data timeout e m st))))"

text \<open>From \<open>try_create\<close>: whether the folder was created.\<close>

definition append_create :: "int \<Rightarrow> sock_conn imap_env \<Rightarrow> char list \<Rightarrow> append_state \<Rightarrow> (bool \<times> append_state) res" where
  "append_create timeout e folder st = (case st of (line, answers, d) \<Rightarrow>
     let d = next_tag d in
     rbind (imap_send e (show_nat (i_tag d) @ '' CREATE {'' @ show_nat (length folder) @ ''}'') d) (\<lambda>(ok, d).
     if \<not> ok then Inr (False, line, answers, d)
     else rbind (deliver_imap_waitcontinue timeout e answers d) (\<lambda>(ok, answers, d).
     if \<not> ok then Inr (False, line, answers, d)
     else rbind (imap_send e folder d) (\<lambda>(ok, d).
     if \<not> ok then Inr (False, line, answers, d)
     else rbind (deliver_imap_waitokay timeout e answers d) (\<lambda>(l, answers, d). Inr (l \<noteq> None, Some l, answers, d))))))"

text \<open>At most \<open>n\<close> rounds. Every round takes an answer of the system, so that one more than the answers is enough.\<close>

fun append_loop :: "nat \<Rightarrow> int \<Rightarrow> sock_conn imap_env \<Rightarrow> 'x mail \<Rightarrow> char list \<Rightarrow> append_state \<Rightarrow> (bool \<times> append_state) res" where
  "append_loop 0 timeout e m folder st = Inl (Diverges ''retry'')"
| "append_loop (Suc n) timeout e m folder st = rbind (append_round timeout e m folder st) (\<lambda>(a, st).
     if a = AppendGo then Inr (True, st)
     else if a = AppendError then Inr (False, st)
     else rbind (append_create timeout e folder st) (\<lambda>(ok, st). if ok then append_loop n timeout e m folder st else Inr (False, st)))"

section \<open>The delivery\<close>

record deliver_imap_data =
  di_user :: "char list option"
  di_pass :: "char list option"
  di_server :: "char list \<times> char list"
  di_nocrammd5 :: bool
  di_nologin :: bool
  di_folder :: "char list"

text \<open>The error path: the line buffer is freed a second time when the mail had been accepted.\<close>

definition imap_failed :: "int \<Rightarrow> bool \<Rightarrow> Io.poll_answer list \<Rightarrow> sock_conn imap_data \<Rightarrow> (bool \<times> sock_conn imap_data) res" where
  "imap_failed timeout freed answers d = rbind (the_io (i_conn d)) (\<lambda>i.
     rbind (io_writeline i (Some ''QUIT'')) (\<lambda>i. rbind (io_flush i timeout answers) (\<lambda>(n, i, _).
       if freed then Inl (MemErr ''xfree(lbuf)'')
       else Inr (False, d\<lparr>i_conn := sock_disconnect (Some i, snd (i_conn d))\<rparr>))))"

definition imap_fake :: "deliver_imap_data \<Rightarrow> io \<Rightarrow> char list \<Rightarrow> sock_conn imap_data" where
  "imap_fake data i lbuf = \<lparr>i_only = FETCH_ONLY_ALL, i_user = di_user data, i_pass = di_pass data, i_server = Some (di_server data),
     i_nocrammd5 = di_nocrammd5 data, i_nologin = di_nologin data, i_folder = 0, i_folders = [], i_folders_total = 0,
     i_capa_cram_md5 = False, i_capa_xyzzy = False, i_tag = 0, i_wanted = [], i_dropped = [], i_kept = [], i_total = 0, i_committed = 0,
     i_flushing = False, i_size = 0, i_lines = 0, i_src = None, i_conn = (Some i, lbuf, IO_LINESIZE)\<rparr>"

definition deliver_imap_deliver ::
    "nat \<Rightarrow> conf \<Rightarrow> sock_conn imap_env \<Rightarrow> io option \<Rightarrow> Io.poll_answer list \<Rightarrow> imap_ctx \<Rightarrow> deliver_imap_data \<Rightarrow> 'x mail \<Rightarrow> bool res" where
  "deliver_imap_deliver n cf e dial answers f data m = (let e = e\<lparr>ie_ops := sock_ops None\<rparr>; timeout = conf_timeout cf in case dial of
     None \<Rightarrow> Inr False
   | Some i \<Rightarrow> rbind (mail_replace cf m (di_folder data)) (\<lambda>folder. case folder of
       None \<Rightarrow> Inl (MemErr ''lbuf'')
     | Some folder \<Rightarrow>
         if folder = [] then Inl (MemErr ''lbuf'')
         else rbind (xmalloc IO_LINESIZE) (\<lambda>lbuf.
           rbind (fetch_imap_state_init (imap_fake data i lbuf) f) (\<lambda>(_, d, f).
           rbind (deliver_imap_pollto n (Some Imap_select1) timeout e answers d (f\<lparr>f_state := Imap_connected\<rparr>)) (\<lambda>(ok, answers, d, f).
           if \<not> ok then map_sum id fst (imap_failed timeout False answers d)
           else rbind (append_loop n timeout e m folder (None, answers, d)) (\<lambda>(ok, line, answers, d).
             if \<not> ok then map_sum id fst (imap_failed timeout False answers d)
             else (let d = next_tag d in
               rbind (imap_send e (show_nat (i_tag d) @ '' LOGOUT'') d) (\<lambda>(ok, d).
               if \<not> ok then map_sum id fst (imap_failed timeout True answers d)
               else rbind (deliver_imap_waitokay timeout e answers d) (\<lambda>(l, answers, d).
                 if l = None then map_sum id fst (imap_failed timeout True answers d) else Inr True)))))))))"

section \<open>Fuel\<close>





lemma imap_text_fold:
  assumes m: "mail_ok m"
  shows "imap_text timeout m i answers = fold_lines (\<lambda>s p l. line_put False timeout s l) (i, answers) 0 (lines_of (content m))"
  unfolding imap_text_def
proof (rule on_lines_fold [OF m])
  fix st :: "io \<times> Io.poll_answer list" and p n :: nat
  assume p: "p + n \<le> msize m"
  then have "length (take n (drop p (content m))) = n" using m by simp
  with p m show "imap_line timeout m st p n = line_put False timeout st (take n (drop p (content m)))"
    by (cases st) (simp add: imap_line_def line_put_def bytes_at_ok take_all)
qed








section \<open>Properties\<close>







definition sample_imap_env :: "sock_conn imap_env" where
  "sample_imap_env = \<lparr>ie_ops = sock_ops None, ie_fuel = 9, ie_b64_decode = (\<lambda>_. None), ie_b64_encode = (\<lambda>_. None),
     ie_hmac_md5 = (\<lambda>_ _. []), ie_tags = (\<lambda>t _. Inr t), ie_shm = (\<lambda>_. True), ie_max_size = 1000\<rparr>"

definition sample_append :: "char list \<Rightarrow> sock_conn imap_data" where
  "sample_append input = next_tag (imap_fake \<lparr>di_user = None, di_pass = None, di_server = ([], []), di_nocrammd5 = False,
     di_nologin = False, di_folder = ''f''\<rparr> (sample_io input [CR, NL]) (replicate 256 NUL))"

text \<open>A connection on which some lines wait to be read, with \<open>n\<close> bytes at most that wait to be sent. A signal interrupts its polls.\<close>

definition at_lines :: "char list list \<Rightarrow> nat \<Rightarrow> nat \<Rightarrow> sock_conn imap_data \<Rightarrow> bool" where
  "at_lines ls n tag d \<longleftrightarrow> i_tag d = tag \<and> length (concat (map (\<lambda>l. l @ [CR, NL]) ls)) < 2 ^ 60 \<and>
     (\<exists>i lb ll s. i_conn d = (Some i, lb, ll) \<and> io_in_ok i (concat (map (\<lambda>l. l @ [CR, NL]) ls)) \<and> io_out_ok i s \<and> length s \<le> n \<and>
       io_eol i = [CR, NL] \<and> \<not> IOF_CLOSED i \<and> block_ok lb ll)"

definition interrupted :: Io.poll_answer where
  "interrupted = Io.PollFailed Io.errno.EINTR"

lemma deliver_imap_poll_interrupted:
  assumes "i_conn d = (Some i, lb)" "io_error i = None" "\<not> IOF_CLOSED i"
  shows "deliver_imap_poll timeout d interrupted = Inr (True, d)"
proof -
  have "io_poll i timeout interrupted = Inr ((1, None, None), i)"
    using assms(2,3) by (simp add: interrupted_def io_poll_def io_polln_def io_before_poll_def)
  moreover have "d\<lparr>i_conn := (Some i, lb)\<rparr> = d" using assms(1) by (cases d) simp
  ultimately show ?thesis using assms(1) by (simp add: deliver_imap_poll_def the_io_def)
qed

lemma at_lines_poll: "at_lines ls n tag d \<Longrightarrow> deliver_imap_poll timeout d interrupted = Inr (True, d)"
  unfolding at_lines_def using deliver_imap_poll_interrupted by (fastforce simp: io_in_ok_def)

lemma at_lines_getln:
  assumes a: "at_lines (l # ls) n tag d" and l: "framed [CR, NL] l" "length l < 1000" "NUL \<notin> set l"
  shows "\<exists>c. cn_getln (sock_ops None) (i_conn d) = Inr (Some (Some l), c) \<and> at_lines ls n tag (d\<lparr>i_conn := c\<rparr>)"
proof -
  let ?s = "concat (map (\<lambda>l. l @ [CR, NL]) (l # ls))"
  obtain i lb ll s where i: "i_tag d = tag" "length ?s < 2 ^ 60" "i_conn d = (Some i, lb, ll)" "io_in_ok i ?s" "io_out_ok i s" "length s \<le> n"
      "io_eol i = [CR, NL]" "\<not> IOF_CLOSED i" "block_ok lb ll"
    using a by (auto simp: at_lines_def)
  have "next_line (io_eol i) ?s = Some (length l)"
    using next_line_framed [OF l(1), of "concat (map (\<lambda>l. l @ [CR, NL]) ls)"] l(2) i(7) by (simp add: IO_MAXLINELEN_def)
  then obtain lb' ll' i' where r: "io_readline2 i lb ll = Inr (Some l, lb', ll', i')" "block_ok lb' ll'"
      "io_in_ok i' (concat (map (\<lambda>l. l @ [CR, NL]) ls))" "io_eol i' = io_eol i"
    using io_readline2_line [OF i(4) _ i(9), of "length l"] i(2,7) by auto
  note k = io_readline2_flags [OF r(1)]
  have out: "io_out_ok i' s" using i(5) r(3) k by (simp add: io_out_ok_def io_in_ok_def)
  have "cn_getln (sock_ops None) (i_conn d) = Inr (Some (Some l), Some i', lb', ll')"
    using i(3) r(1) l(3) by (simp add: sock_ops_def sock_getln_def the_io_def cstr_id is_cstr_def)
  moreover have "at_lines ls n tag (d\<lparr>i_conn := (Some i', lb', ll')\<rparr>)"
    using i r out k by (auto simp: at_lines_def)
  ultimately show ?thesis by blast
qed



text \<open>A line that may be read whole and has the tag of the waits.\<close>

definition reply_ok :: "char list \<Rightarrow> bool" where
  "reply_ok l \<longleftrightarrow> framed [CR, NL] l \<and> length l < 1000 \<and> NUL \<notin> set l"






lemma sample_lines:
  assumes "length (concat (map (\<lambda>l. l @ [CR, NL]) ls)) < 1000"
  shows "at_lines ls 0 1 (sample_append (concat (map (\<lambda>l. l @ [CR, NL]) ls)))"
proof -
  let ?s = "concat (map (\<lambda>l. l @ [CR, NL]) ls)" and ?lb = "replicate 256 NUL"
  note ok = sample_io_ok [of "[CR, NL]" ?s] assms
  have d: "i_conn (sample_append ?s) = (Some (sample_io ?s [CR, NL]), ?lb, 256)" "i_tag (sample_append ?s) = 1"
    by (simp_all add: sample_append_def next_tag_def imap_fake_def IO_LINESIZE_def)
  have "io_in_ok (sample_io ?s [CR, NL]) ?s" "io_out_ok (sample_io ?s [CR, NL]) []" "io_eol (sample_io ?s [CR, NL]) = [CR, NL]"
      "\<not> IOF_CLOSED (sample_io ?s [CR, NL])" "block_ok ?lb 256" using ok by (simp_all add: sample_io_def block_ok_def)
  then show ?thesis
    using d ok(6) unfolding at_lines_def by (intro conjI exI [of _ "sample_io ?s [CR, NL]"] exI [of _ ?lb] exI [of _ 256] exI [of _ "[]"]) auto
qed







lemma line_of_nonempty: "c \<noteq> [] \<Longrightarrow> l \<in> set (lines_of c) \<Longrightarrow> l \<noteq> []"
proof (induction c rule: lines_of.induct)
  case (1 c)
  show ?case
  proof (cases "line_len c = length c")
    case True
    then show ?thesis using "1.prems" by (simp add: lines_of.simps [of c])
  next
    case False
    then have "0 < line_len c" "line_len c < length c"
      using line_len_le [of c] by (auto simp: line_len_def split: option.splits)
    then show ?thesis using "1.prems" "1.IH" False by (subst (asm) lines_of.simps) auto
  qed
qed

lemma wired_length:
  assumes "\<forall>l \<in> set ls. l \<noteq> []"
  shows "length (wired False eol ls) + length ls = length (concat ls) + length eol * length ls"
  using assms
proof (induction ls)
  case (Cons l ls)
  then have "0 < length l" by simp
  with Cons show ?case by (simp add: stuffed_def)
qed simp

text \<open>
  C36: what is written for a mail is one byte more than the literal that was announced, its lines ended by CRLF: the
  literal ends between the two bytes of the last line end, and only the second one ends the command. A server with XYZZY
  is told the length of the mail instead.
\<close>

theorem append_literal:
  assumes m: "mail_ok m" "content m \<noteq> []" and i: "io_out_ok i s" "io_eol i = [CR, NL]"
    and small: "length (io_sent i @ s) + length (concat (map (\<lambda>l. butlast l @ [CR, NL]) (lines_of (content m)))) < 2 ^ 62"
    and t: "imap_text timeout m i answers = Inr (Inr (i', answers'))"
  shows "\<exists>s' lit. io_out_ok i' s' \<and> io_sent i' @ s' = io_sent i @ s @ lit @ [NL] \<and>
    lit @ [NL] = concat (map (\<lambda>l. butlast l @ [CR, NL]) (lines_of (content m))) \<and>
    append_size d m = Inr (if i_capa_xyzzy d then msize m else length lit)"
proof -
  let ?w = "wired False [CR, NL] (lines_of (content m))"
  have w: "?w = concat (map (\<lambda>l. butlast l @ [CR, NL]) (lines_of (content m)))" by (simp add: wired_def stuffed_def)
  have ne: "lines_of (content m) \<noteq> []" by (subst lines_of.simps) simp
  then obtain ls l where ls: "lines_of (content m) = ls @ [l]" by (metis rev_exhaust)
  then have nl: "?w = (concat (map (\<lambda>l. butlast l @ [CR, NL]) ls) @ butlast l @ [CR]) @ [NL]" by (simp add: wired_def stuffed_def)
  then obtain lit where lit: "?w = lit @ [NL]" by blast
  have len: "length ?w = length (content m) + nlines (content m)"
    using wired_length [of "lines_of (content m)" "[CR, NL]"] line_of_nonempty [OF m(2)] by (simp add: concat_lines_of length_lines_of)
  have cl: "\<exists>b. count_lines m = Inr (nlines (content m), b)" using count_lines_spec [OF m(1)] by blast
  have "length lit < 2 ^ 62" using small lit w by (auto dest: arg_cong [where f = length])
  then have sz: "size_sub (msize m + nlines (content m)) 1 = length lit"
    using len lit m(1) by (simp add: size_sub_def SIZE_MAX_def)
  have "wire i (io_sent i @ s)" using i(1) by (auto simp: wire_def)
  moreover have "length (io_sent i @ s) + length (wired False (io_eol i) (lines_of (content m))) < 2 ^ 62" using small w i(2) by simp
  ultimately have "wire i' ((io_sent i @ s) @ ?w)"
    using smtp_fold(1) [where dots = False and p = 0] t i(2) by (fastforce simp: imap_text_fold [OF m(1)])
  then obtain s' where "io_out_ok i' s'" "io_sent i' @ s' = io_sent i @ s @ ?w" by (auto simp: wire_def)
  moreover have "append_size d m = Inr (if i_capa_xyzzy d then msize m else length lit)"
    using cl sz by (auto simp: append_size_def)
  ultimately show ?thesis using lit w by metis
qed

lemma append_literal_witness:
  "\<exists>i' s' lit. imap_text 0 sample_mail (sample_io [] [CR, NL]) [] = Inr (Inr (i', [])) \<and> io_out_ok i' s' \<and> io_sent i' @ s' = lit @ [NL] \<and>
     append_size (sample_append []) sample_mail = Inr (length lit) \<and> last lit = CR"
proof -
  let ?i = "sample_io [] [CR, NL]"
  have l: "lines_of sample_text = [''A: b'' @ [NL], '' c'' @ [NL], [NL], ''hi'' @ [NL]]" by code_simp
  have o: "io_out_ok ?i []" "io_eol ?i = [CR, NL]" "io_sent ?i = []"
    using sample_io_ok(2,4) [of "[CR, NL]" "[]"] by (simp_all add: sample_io_def)
  have small: "length (io_sent ?i @ []) + length (concat (map (\<lambda>l. butlast l @ [CR, NL]) (lines_of (content sample_mail)))) < 2 ^ 62"
    using o by (simp add: sample_mail_ok l)
  have "wire ?i []" using o by (auto simp: wire_def)
  then obtain i' where i': "imap_text 0 sample_mail ?i [] = Inr (Inr (i', []))"
    using smtp_fold(2) [of ?i "[]" False "lines_of (content sample_mail)" 100 0 "[]" 0] o
    by (auto simp: imap_text_fold sample_mail_ok l stuffed_def IO_FLUSHSIZE_def Io.IO_BLOCKSIZE_def)
  have ne: "content sample_mail \<noteq> []" by (simp add: sample_mail_ok sample_text_def)
  obtain s' lit where r: "io_out_ok i' s'" "io_sent i' @ s' = lit @ [NL]"
    "lit @ [NL] = concat (map (\<lambda>l. butlast l @ [CR, NL]) (lines_of (content sample_mail)))"
    "append_size (sample_append []) sample_mail = Inr (length lit)"
    using append_literal [OF sample_mail_ok(1) ne o(1,2) small i', of "sample_append []"] o(3)
    by (auto simp: sample_append_def next_tag_def imap_fake_def)
  have "lit @ [NL] = (''A: b'' @ [CR, NL] @ '' c'' @ [CR, NL, CR, NL] @ ''hi'' @ [CR]) @ [NL]"
    unfolding r(3) by (simp add: sample_mail_ok l)
  then have "last lit = CR" by simp
  with i' r show ?thesis by blast
qed

text \<open>
  C39: the wait for the answer to the append command polls again after every line it skips, also when the answer has come with that
  line and is in the buffer. It does not return before there is another event: without one it goes on waiting, when the poll times
  out it gives up with the answer unread, and any event, if only a signal, makes it take the answer. The wait for the answers to
  CREATE and LOGOUT takes an answer that comes behind such a line at once.
\<close>

theorem waitappend_stalls:
  assumes poll: "deliver_imap_poll timeout d ans = Inr (True, d1)" and t: "timeout \<noteq> 0"
    and first: "cn_getln (ie_ops e) (i_conn d1) = Inr (Some (Some s), Some i, lb)" "starts_with ''* '' s" "io_error i = None" "\<not> IOF_CLOSED i"
    and second: "cn_getln (ie_ops e) (Some i, lb) = Inr (Some (Some reply), c)" "imap_tag reply = Inr (ImapTag (int (i_tag d1)))"
    and fuel: "2 \<le> ie_fuel e"
  shows "deliver_imap_waitappend timeout e [ans] line d = Inl (Diverges ''poll'') \<and>
    deliver_imap_waitappend timeout e (ans # PollTimeout # answers) line d =
      Inr (IMAP_TAG_ERROR, Some (Some s), answers, d1\<lparr>i_conn := (Some i, lb)\<rparr>) \<and>
    deliver_imap_waitappend timeout e (ans # interrupted # answers) line d =
      Inr (ImapTag (int (i_tag d1)), Some (Some reply), answers, d1\<lparr>i_conn := c\<rparr>) \<and>
    deliver_imap_waitokay timeout e (ans # answers) d =
      Inr (if imap_okay reply then Some reply else None, answers, d1\<lparr>i_conn := c\<rparr>)"
proof -
  let ?d = "d1\<lparr>i_conn := (Some i, lb)\<rparr>"
  have tag: "imap_tag s = Inr IMAP_TAG_NONE" using first(2) by (simp add: imap_tag_def)
  have next': "deliver_imap_waitappend timeout e (ans # more) line d = deliver_imap_waitappend timeout e more (Some (Some s)) ?d" for more
    by (simp add: poll first(1) tag)
  have "io_poll i timeout PollTimeout = Inr ((- 1, Some Io.errno.ETIMEDOUT, Some ''io: poll''), i)"
    using first(3,4) t by (simp add: io_poll_def io_polln_def io_before_poll_def)
  then have late: "deliver_imap_poll timeout ?d PollTimeout = Inr (False, ?d)" by (simp add: deliver_imap_poll_def the_io_def)
  have woken: "deliver_imap_poll timeout ?d interrupted = Inr (True, ?d)" using first(3,4) by (intro deliver_imap_poll_interrupted) simp_all
  obtain n where n: "ie_fuel e = Suc (Suc n)" using fuel by (cases "ie_fuel e"; cases "ie_fuel e - 1") auto
  have "imap_parse (i_tag d1) IMAP_TAGGED s = Inr 1" "imap_parse (i_tag d1) IMAP_TAGGED reply = Inr 0"
    using tag second(2) by (simp_all add: imap_parse_def)
  then have "deliver_imap_wait IMAP_TAGGED timeout e (ans # answers) d = Inr (Some reply, answers, d1\<lparr>i_conn := c\<rparr>)"
    using poll first(1) second(1) n by simp
  then show ?thesis unfolding next' using late woken second by (simp add: deliver_imap_waitokay_def del: deliver_imap_wait.simps)
qed

lemma waitappend_stalls_witness:
  "\<exists>d d1 c. at_lines [''* x'', ''1 OK''] 0 1 d \<and>
     deliver_imap_waitappend 1000 sample_imap_env [interrupted] None d = Inl (Diverges ''poll'') \<and>
     deliver_imap_waitappend 1000 sample_imap_env [interrupted, PollTimeout] None d = Inr (IMAP_TAG_ERROR, Some (Some ''* x''), [], d1) \<and>
     deliver_imap_waitokay 1000 sample_imap_env [interrupted] d = Inr (Some ''1 OK'', [], c)"
proof -
  let ?ls = "[''* x'', ''1 OK'']"
  let ?s = "concat (map (\<lambda>l. l @ [CR, NL]) ?ls)" and ?e = sample_imap_env
  have ok: "reply_ok ''* x''" "reply_ok ''1 OK''" by (auto simp: reply_ok_def framed_def eol_at_def less_Suc_eq)
  have lines: "at_lines ?ls 0 1 (sample_append ?s)"
    by (rule sample_lines) simp
  obtain c1 where c1: "cn_getln (sock_ops None) (i_conn (sample_append ?s)) = Inr (Some (Some ''* x''), c1)"
      "at_lines [''1 OK''] 0 1 ((sample_append ?s)\<lparr>i_conn := c1\<rparr>)" using at_lines_getln [OF lines] ok(1) by (auto simp: reply_ok_def)
  obtain i lb where i: "c1 = (Some i, lb)" "io_error i = None" "\<not> IOF_CLOSED i" using c1(2) by (auto simp: at_lines_def io_in_ok_def)
  obtain c2 where c2: "cn_getln (sock_ops None) c1 = Inr (Some (Some ''1 OK''), c2)"
    using at_lines_getln [OF c1(2)] ok(2) by (auto simp: reply_ok_def)
  have e: "ie_ops ?e = sock_ops None" "2 \<le> ie_fuel ?e" "(1000 :: int) \<noteq> 0" by (simp_all add: sample_imap_env_def)
  have st: "starts_with ''* '' ''* x''" by (simp add: starts_with_def)
  have "imap_tag ''1 OK'' = Inr (ImapTag (int 1))" by code_simp
  then have tg: "imap_tag ''1 OK'' = Inr (ImapTag (int (i_tag (sample_append ?s))))" using lines by (simp add: at_lines_def)
  have okay: "imap_okay ''1 OK''" by code_simp
  note stall = waitappend_stalls [OF at_lines_poll [OF lines] e(3), of ?e, unfolded e(1), OF c1(1) [unfolded i(1)] st i(2,3) c2 [unfolded i(1)] tg e(2)]
  from stall [of None "[]"] lines okay show ?thesis by (intro exI conjI) (auto simp del: deliver_imap_waitappend.simps)
qed

end
