(* ===== verification/Lex.thy ===== *)
theory Lex imports FetchMbox "HOL-Library.List_Lexorder" begin

text \<open>
  The lexer of the configuration file (\<^verbatim>\<open>lex.c\<close>): characters to tokens with macros in strings, conditional sections
  and included files. A file that is open is what is still to be read of it. The numbers of the tokens come from the
  generated parser, so a token is the name of its constant. \<open>yyerror\<close> ends the process; its messages keep their fixed part.
\<close>

section \<open>The table of tokens\<close>

definition tokens :: "(char list \<times> char list) list" where
  "tokens = [
    (''B'', ''TOKBYTES''), (''G'', ''TOKGIGABYTES''), (''GB'', ''TOKGIGABYTES''), (''K'', ''TOKKILOBYTES''), (''KB'', ''TOKKILOBYTES''),
    (''M'', ''TOKMEGABYTES''), (''MB'', ''TOKMEGABYTES''), (''account'', ''TOKACCOUNT''), (''accounts'', ''TOKACCOUNTS''),
    (''action'', ''TOKACTION''), (''actions'', ''TOKACTIONS''), (''add-header'', ''TOKADDHEADER''), (''add-to-cache'', ''TOKADDTOCACHE''),
    (''age'', ''TOKAGE''), (''all'', ''TOKALL''), (''allow-multiple'', ''TOKALLOWMANY''), (''and'', ''TOKAND''), (''any-name'', ''TOKANYNAME''),
    (''any-size'', ''TOKANYSIZE''), (''any-type'', ''TOKANYTYPE''), (''append'', ''TOKAPPEND''), (''attachment'', ''TOKATTACHMENT''),
    (''b'', ''TOKBYTES''), (''body'', ''TOKBODY''), (''byte'', ''TOKBYTES''), (''bytes'', ''TOKBYTES''), (''cache'', ''TOKCACHE''),
    (''case'', ''TOKCASE''), (''command-user'', ''TOKCMDUSER''), (''compress'', ''TOKCOMPRESS''), (''continue'', ''TOKCONTINUE''),
    (''count'', ''TOKCOUNT''), (''courier'', ''TOKCOURIER''), (''day'', ''TOKDAYS''), (''days'', ''TOKDAYS''), (''default-user'', ''TOKDEFUSER''),
    (''delete-oversized'', ''TOKDELTOOBIG''), (''disabled'', ''TOKDISABLED''), (''domain'', ''TOKDOMAIN''), (''dotlock'', ''TOKDOTLOCK''),
    (''drop'', ''TOKDROP''), (''exec'', ''TOKEXEC''), (''expire'', ''TOKEXPIRE''), (''fcntl'', ''TOKFCNTL''), (''file-group'', ''TOKFILEGROUP''),
    (''file-umask'', ''TOKFILEUMASK''), (''flock'', ''TOKFLOCK''), (''folder'', ''TOKFOLDER''), (''folders'', ''TOKFOLDERS''),
    (''from'', ''TOKFROM''), (''g'', ''TOKGIGABYTES''), (''gb'', ''TOKGIGABYTES''), (''gigabyte'', ''TOKGIGABYTES''),
    (''gigabytes'', ''TOKGIGABYTES''), (''group'', ''TOKGROUP''), (''groups'', ''TOKGROUPS''), (''header'', ''TOKHEADER''),
    (''headers'', ''TOKHEADERS''), (''hour'', ''TOKHOURS''), (''hours'', ''TOKHOURS''), (''imap'', ''TOKIMAP''), (''imaps'', ''TOKIMAPS''),
    (''in'', ''TOKIN''), (''in-cache'', ''TOKINCACHE''), (''invalid'', ''TOKINVALID''), (''k'', ''TOKKILOBYTES''), (''kb'', ''TOKKILOBYTES''),
    (''keep'', ''TOKKEEP''), (''key'', ''TOKKEY''), (''kilobyte'', ''TOKKILOBYTES''), (''kilobytes'', ''TOKKILOBYTES''),
    (''lock-file'', ''TOKLOCKFILE''), (''lock-type'', ''TOKLOCKTYPES''), (''lock-types'', ''TOKLOCKTYPES''), (''lookup-order'', ''TOKLOOKUPORDER''),
    (''m'', ''TOKMEGABYTES''), (''maildir'', ''TOKMAILDIR''), (''maildirs'', ''TOKMAILDIRS''), (''match'', ''TOKMATCH''),
    (''matched'', ''TOKMATCHED''), (''maximum-size'', ''TOKMAXSIZE''), (''mb'', ''TOKMEGABYTES''), (''mbox'', ''TOKMBOX''),
    (''mboxes'', ''TOKMBOXES''), (''megabyte'', ''TOKMEGABYTES''), (''megabytes'', ''TOKMEGABYTES''), (''minute'', ''TOKMINUTES''),
    (''minutes'', ''TOKMINUTES''), (''month'', ''TOKMONTHS''), (''months'', ''TOKMONTHS''), (''new-only'', ''TOKNEWONLY''), (''nntp'', ''TOKNNTP''),
    (''nntps'', ''TOKNNTPS''), (''no-apop'', ''TOKNOAPOP''), (''no-cram-md5'', ''TOKNOCRAMMD5''), (''no-create'', ''TOKNOCREATE''),
    (''no-login'', ''TOKNOLOGIN''), (''no-received'', ''TOKNORECEIVED''), (''no-tls1'', ''TOKNOTLS1''), (''no-uidl'', ''TOKNOUIDL''),
    (''no-verify'', ''TOKNOVERIFY''), (''none'', ''TOKNONE''), (''not'', ''TOKNOT''), (''old-only'', ''TOKOLDONLY''), (''or'', ''TOKOR''),
    (''parallel-accounts'', ''TOKPARALLELACCOUNTS''), (''pass'', ''TOKPASS''), (''passwd'', ''TOKPASSWD''), (''pipe'', ''TOKPIPE''),
    (''pop3'', ''TOKPOP3''), (''pop3s'', ''TOKPOP3S''), (''port'', ''TOKPORT''), (''proxy'', ''TOKPROXY''), (''purge-after'', ''TOKPURGEAFTER''),
    (''queue-high'', ''TOKQUEUEHIGH''), (''queue-low'', ''TOKQUEUELOW''), (''remove-from-cache'', ''TOKREMOVEFROMCACHE''),
    (''remove-header'', ''TOKREMOVEHEADER''), (''remove-headers'', ''TOKREMOVEHEADERS''), (''returns'', ''TOKRETURNS''),
    (''rewrite'', ''TOKREWRITE''), (''second'', ''TOKSECONDS''), (''seconds'', ''TOKSECONDS''), (''server'', ''TOKSERVER''), (''set'', ''TOKSET''),
    (''size'', ''TOKSIZE''), (''smtp'', ''TOKSMTP''), (''stdin'', ''TOKSTDIN''), (''stdout'', ''TOKSTDOUT''), (''string'', ''TOKSTRING''),
    (''strip-characters'', ''TOKSTRIPCHARACTERS''), (''tag'', ''TOKTAG''), (''tagged'', ''TOKTAGGED''), (''timeout'', ''TOKTIMEOUT''),
    (''to'', ''TOKTO''), (''to-cache'', ''TOKADDTOCACHE''), (''total-size'', ''TOKTOTALSIZE''), (''unmatched'', ''TOKUNMATCHED''),
    (''unmatched-mail'', ''TOKIMPLACT''), (''user'', ''TOKUSER''), (''users'', ''TOKUSERS''), (''value'', ''TOKVALUE''),
    (''verify-certificates'', ''TOKVERIFYCERTS''), (''week'', ''TOKWEEKS''), (''weeks'', ''TOKWEEKS''), (''write'', ''TOKWRITE''),
    (''year'', ''TOKYEARS''), (''years'', ''TOKYEARS'')]"

text \<open>\<open>strcmp\<close>, for bytes without sign.\<close>

fun strcmp :: "char list \<Rightarrow> char list \<Rightarrow> int" where
  "strcmp [] [] = 0"
| "strcmp [] (y # ys) = - 1"
| "strcmp (x # xs) [] = 1"
| "strcmp (x # xs) (y # ys) = (if code x < code y then - 1 else if code y < code x then 1 else strcmp xs ys)"

definition cmp_token :: "char list \<Rightarrow> char list \<times> char list \<Rightarrow> int" where
  "cmp_token name token = strcmp name (fst token)"

text \<open>\<open>bsearch\<close> between two indices.\<close>

function bsearch :: "('a \<Rightarrow> int) \<Rightarrow> 'a list \<Rightarrow> nat \<Rightarrow> nat \<Rightarrow> 'a option" where
  "bsearch cmp xs lo hi =
     (if hi \<le> lo then None
      else let mid = (lo + hi) div 2; n = cmp (xs ! mid) in
        if n = 0 then Some (xs ! mid) else if n < 0 then bsearch cmp xs lo mid else bsearch cmp xs (mid + 1) hi)"
  by pat_completeness auto
termination by (relation "measure (\<lambda>(cmp, xs, lo, hi). hi - lo)") auto

declare bsearch.simps [simp del]

definition find_token :: "char list \<Rightarrow> char list option" where
  "find_token token = map_option snd (bsearch (cmp_token token) tokens 0 (length tokens))"

section \<open>Macros\<close>

datatype macro_value = MACRO_NUMBER int | MACRO_STRING "char list"

record macro =
  macro_name :: "char list"
  macro_value :: macro_value

definition find_macro :: "macro list \<Rightarrow> char list \<Rightarrow> macro option" where
  "find_macro parse_macros name = List.find (\<lambda>m. macro_name m = name) parse_macros"

definition MAXNAMESIZE :: nat where "MAXNAMESIZE = 64"

definition yyerror :: "char list \<Rightarrow> 'a res" where
  "yyerror msg = Inl (FatalX msg)"

definition isname :: "char \<Rightarrow> bool" where
  "isname ch \<longleftrightarrow> isalnum ch \<or> ch = CHR ''-'' \<or> ch = CHR ''_''"

text \<open>The name of a macro after its \<open>$\<close> or \<open>%\<close> and the character behind it.\<close>

definition read_macro :: "char \<Rightarrow> char \<Rightarrow> char list \<Rightarrow> (char list \<times> char list) res" where
  "read_macro type ch f =
     (let brackets = ch = CHR ''{'' in
      rbind (if brackets then (case f of
              [] \<Rightarrow> yyerror ''invalid macro name''
            | c # f \<Rightarrow> if \<not> isalnum c then yyerror ''invalid macro name'' else Inr (c, f)) else Inr (ch, f)) (\<lambda>(ch, f).
      let name = type # ch # takeWhile isname f; f = dropWhile isname f in
      if MAXNAMESIZE - 1 \<le> length name then yyerror ''macro name too long''
      else if \<not> brackets then Inr (name, f)
      else case f of c # f' \<Rightarrow> if c = CHR ''}'' then Inr (name, f') else yyerror ''missing }'' | [] \<Rightarrow> yyerror ''missing }''))"

section \<open>Numbers, strings and commands\<close>

definition read_number :: "char \<Rightarrow> char list \<Rightarrow> (int \<times> char list) res" where
  "read_number ch f =
     (let number = ch # takeWhile isdigit f in
      if 31 \<le> length number then yyerror ''number too long''
      else case strtonum number 0 LLONG_MAX of
        Inl _ \<Rightarrow> yyerror ''number is invalid'' | Inr n \<Rightarrow> Inr (n, dropWhile isdigit f))"

text \<open>
  The contents of the buffer, which is kept larger than what it holds by \<open>ENSURE_SIZE\<close>. A macro that is not known is
  left out.
\<close>

definition show_int :: "int \<Rightarrow> char list" where
  "show_int n = (if n < 0 then CHR ''-'' # show_nat (nat (- n)) else show_nat (nat n))"

definition macro_text :: "macro option \<Rightarrow> char list" where
  "macro_text m = (case m of None \<Rightarrow> []
     | Some m \<Rightarrow> (case macro_value m of MACRO_NUMBER n \<Rightarrow> show_int n | MACRO_STRING s \<Rightarrow> s))"

definition escaped :: "char \<Rightarrow> char" where
  "escaped ch = (if ch = CHR ''r'' then CR else if ch = CHR ''n'' then NL else if ch = CHR ''t'' then TAB else ch)"

lemma read_macro_shrinks:
  assumes "read_macro type ch f = Inr (name, f')"
  shows "length f' \<le> length f"
proof -
  have d: "length (dropWhile isname g) \<le> length g" for g by (rule length_dropWhile_le)
  have "\<exists>g. length g \<le> length f \<and> (f' = dropWhile isname g \<or> dropWhile isname g = CHR ''}'' # f')"
  proof (cases "ch = CHR ''{''")
    case True
    then obtain c g where "f = c # g" "dropWhile isname g = CHR ''}'' # f'"
      using assms by (auto simp: read_macro_def yyerror_def Let_def rbind_Inr_iff split: if_splits list.splits)
    then show ?thesis by (intro exI [of _ g]) simp
  next
    case False
    then have "f' = dropWhile isname f" using assms by (auto simp: read_macro_def yyerror_def Let_def split: if_splits)
    then show ?thesis by blast
  qed
  then obtain g where g: "length g \<le> length f" "f' = dropWhile isname g \<or> dropWhile isname g = CHR ''}'' # f'" by blast
  show ?thesis using g(2)
  proof
    assume "f' = dropWhile isname g"
    with d [of g] g(1) show ?thesis by simp
  next
    assume "dropWhile isname g = CHR ''}'' # f'"
    with d [of g] g(1) show ?thesis by simp
  qed
qed

function read_string :: "macro list \<Rightarrow> char \<Rightarrow> bool \<Rightarrow> char list \<Rightarrow> (char list \<times> char list) res" where
  "read_string macros endch esc [] = yyerror ''missing quote''"
| "read_string macros endch esc (ch # f) =
     (if ch = endch then Inr ([], f)
      else if ch = CHR 0x5C \<and> esc then (case f of
          [] \<Rightarrow> yyerror ''missing quote''
        | c # f \<Rightarrow> rbind (read_string macros endch esc f) (\<lambda>(s, f). Inr (escaped c # s, f)))
      else if (ch = CHR ''$'' \<or> ch = CHR ''%'') \<and> esc then (case f of
          [] \<Rightarrow> yyerror ''missing quote''
        | c # f' \<Rightarrow>
            if c \<noteq> CHR ''{'' then rbind (read_string macros endch esc f) (\<lambda>(s, f). Inr (ch # s, f))
            else (case read_macro ch (CHR ''{'') f' of
                Inl e \<Rightarrow> Inl e
              | Inr (name, f) \<Rightarrow> rbind (read_string macros endch esc f) (\<lambda>(s, f). Inr (macro_text (find_macro macros name) @ s, f))))
      else rbind (read_string macros endch esc f) (\<lambda>(s, f). Inr (ch # s, f)))"
  by pat_completeness auto
termination
  by (relation "measure (\<lambda>(m, q, esc, f). length f)") (auto dest: read_macro_shrinks)

declare read_string.simps [simp del]

definition shrinks :: "nat \<Rightarrow> (char list \<times> char list) res \<Rightarrow> bool" where
  "shrinks n r \<longleftrightarrow> (\<forall>s f. r = Inr (s, f) \<longrightarrow> length f < n)"

lemma shrinks_bind: "shrinks n r \<Longrightarrow> shrinks n (rbind r (\<lambda>(s, f). Inr (g s, f)))"
  by (cases r) (auto simp: shrinks_def)

lemma shrinks_mono: "shrinks n r \<Longrightarrow> n \<le> m \<Longrightarrow> shrinks m r"
  by (auto simp: shrinks_def)

lemma shrinks_error [simp]: "shrinks n (Inl e)"
  by (simp add: shrinks_def)

lemma read_string_length: "shrinks (length f) (read_string macros endch esc f)"
proof (induction macros endch esc f rule: read_string.induct)
  case (2 macros endch esc ch f)
  let ?r = "read_string macros endch esc"
  have plain: "shrinks (Suc (length f)) (rbind (?r h) (\<lambda>(s, f). Inr (g s, f)))" if "shrinks (length h) (?r h)" "length h \<le> length f" for g h
    by (rule shrinks_bind) (rule shrinks_mono [OF that(1)], use that(2) in simp)
  have hit: "shrinks (Suc (length f)) (Inr ([], f))" by (simp add: shrinks_def)
  consider "ch = endch" | "ch \<noteq> endch" "ch = CHR 0x5C" "esc" | "ch \<noteq> endch" "ch \<noteq> CHR 0x5C" "ch = CHR ''$'' \<or> ch = CHR ''%''" "esc"
    | "ch \<noteq> endch" "\<not> esc \<or> ch \<noteq> CHR 0x5C \<and> ch \<noteq> CHR ''$'' \<and> ch \<noteq> CHR ''%''" by blast
  then show ?case
  proof cases
    case 1
    with hit show ?thesis by (simp add: read_string.simps)
  next
    case 2
    then show ?thesis
      using plain "2.IH"(1) by (cases f) (auto simp: read_string.simps yyerror_def)
  next
    case 3
    show ?thesis
    proof (cases f)
      case Nil
      with 3 show ?thesis by (auto simp: read_string.simps yyerror_def)
    next
      case (Cons c g)
      show ?thesis
      proof (cases "c = CHR ''{''")
        case True
        show ?thesis
        proof (cases "read_macro ch c g")
          case (Inr x)
          then obtain name h where h: "read_macro ch (CHR ''{'') g = Inr (name, h)" using True by (cases x) auto
          have "shrinks (length h) (?r h)" using "2.IH"(3) [of c g] 3 Cons True h by auto
          moreover have "length h \<le> length f" using read_macro_shrinks [OF h] Cons by simp
          ultimately show ?thesis using plain [of h] 3 Cons True h by (auto simp: read_string.simps)
        qed (use 3 Cons True in \<open>auto simp: read_string.simps\<close>)
      next
        case False
        have "shrinks (length f) (?r f)" using "2.IH"(2) [of c g] 3 Cons False by auto
        then have "shrinks (Suc (length f)) (rbind (?r f) (\<lambda>(s, f). Inr (ch # s, f)))" by (rule plain) simp
        then show ?thesis unfolding read_string.simps(2) [of macros endch esc ch f] using 3 Cons False by simp
      qed
    qed
  next
    case 4
    then have "shrinks (length f) (?r f)" using "2.IH"(4) by blast
    with plain [of f] 4 show ?thesis by (auto simp: read_string.simps(2) [of macros endch esc ch f])
  qed
qed (simp add: read_string.simps yyerror_def)

lemma read_string_shrinks: "read_string macros endch esc f = Inr (s, f') \<Longrightarrow> length f' < length f"
  using read_string_length [of f macros endch esc] by (simp add: shrinks_def)

text \<open>A command up to its closing bracket, with the strings in it read and put between quotes again.\<close>

function read_command :: "macro list \<Rightarrow> nat \<Rightarrow> char list \<Rightarrow> (char list \<times> char list) res" where
  "read_command macros nesting [] = yyerror ''missing )''"
| "read_command macros nesting (ch # f) =
     (if ch = CHR '')'' \<and> nesting = 0 then Inr ([], f)
      else if ch = DQ \<or> ch = CHR 0x27 then (case read_string macros ch (ch = DQ) f of
          Inl e \<Rightarrow> Inl e
        | Inr (s, f) \<Rightarrow> rbind (read_command macros nesting f) (\<lambda>(t, f). Inr (ch # cstr s @ [ch] @ t, f)))
      else rbind (read_command macros (if ch = CHR ''('' then nesting + 1 else if ch = CHR '')'' then nesting - 1 else nesting) f)
        (\<lambda>(t, f). Inr (ch # t, f)))"
  by pat_completeness auto
termination
  by (relation "measure (\<lambda>(m, n, f). length f)") (auto dest: read_string_shrinks)

declare read_command.simps [simp del]

section \<open>The lexer\<close>

record parse_file =
  pf_f :: "char list"
  pf_line :: nat
  pf_path :: "char list"

text \<open>The file that is read, those it is included from, the state of the conditional sections and the macros.\<close>

record lexer =
  lx_file :: parse_file
  lx_stack :: "parse_file list"
  lex_include :: bool
  lex_ifdef :: nat
  lex_skip :: bool
  lx_macros :: "macro list"

text \<open>A value of \<open>yylex\<close> with its \<open>yylval\<close>.\<close>

datatype lexval =
    LexEOF | LexNone | LexTok "char list" | LexChar char | LexString "char list" | LexNumber int
  | LexStrCommand "char list" | LexNumCommand "char list" | LexStrMacro "char list" | LexNumMacro "char list"

definition at :: "lexer \<Rightarrow> char list \<Rightarrow> lexer" where
  "at lx f = lx\<lparr>lx_file := (lx_file lx)\<lparr>pf_f := f\<rparr>\<rparr>"

definition next_line_no :: "lexer \<Rightarrow> lexer" where
  "next_line_no lx = lx\<lparr>lx_file := (lx_file lx)\<lparr>pf_line := pf_line (lx_file lx) + 1\<rparr>\<rparr>"

text \<open>\<open>ifdef\<close> and \<open>ifndef\<close>: the skipping starts here and ends with the outermost \<open>endif\<close>.\<close>

definition read_ifdef :: "lexer \<Rightarrow> bool \<Rightarrow> char list \<Rightarrow> (lexval \<times> lexer) res" where
  "read_ifdef lx negated f = (case dropWhile isspace f of
     ch # ch2 # f \<Rightarrow>
       if ch \<noteq> CHR ''$'' \<and> ch \<noteq> CHR ''%'' then yyerror ''syntax error''
       else if ch2 \<noteq> CHR ''{'' \<and> \<not> isalnum ch2 then yyerror ''invalid macro name''
       else rbind (read_macro ch ch2 f) (\<lambda>(name, f).
         let defined = find_macro (lx_macros lx) name \<noteq> None in
         Inr (LexNone, (at lx f)\<lparr>lex_skip := lex_skip lx \<or> (negated = defined), lex_ifdef := lex_ifdef lx + 1\<rparr>))
   | [ch] \<Rightarrow> yyerror (if ch \<noteq> CHR ''$'' \<and> ch \<noteq> CHR ''%'' then ''syntax error'' else ''invalid macro name'')
   | [] \<Rightarrow> yyerror ''syntax error'')"

definition read_token :: "lexer \<Rightarrow> char \<Rightarrow> char list \<Rightarrow> (lexval \<times> lexer) res" where
  "read_token lx ch f =
     (let token = ch # takeWhile isname f; f = dropWhile isname f in
      if 127 \<le> length token then yyerror ''token too long''
      else if token = ''ifdef'' then read_ifdef lx False f
      else if token = ''ifndef'' then read_ifdef lx True f
      else if token = ''endif'' then
        (if lex_ifdef lx = 0 then yyerror ''spurious endif''
         else Inr (LexNone, (at lx f)\<lparr>lex_ifdef := lex_ifdef lx - 1, lex_skip := lex_skip lx \<and> lex_ifdef lx \<noteq> 1\<rparr>))
      else if token = ''include'' then Inr (LexNone, (at lx f)\<lparr>lex_include := True\<rparr>)
      else case find_token token of
        None \<Rightarrow> yyerror ''unknown token''
      | Some t \<Rightarrow> Inr (LexTok t, at lx f))"

text \<open>\<open>$\<close> and \<open>%\<close>: a command or the name of a macro.\<close>

definition read_dollar :: "lexer \<Rightarrow> char \<Rightarrow> char list \<Rightarrow> (lexval \<times> lexer) res" where
  "read_dollar lx type f = (case f of
     [] \<Rightarrow> yyerror ''invalid macro name''
   | ch # f \<Rightarrow>
       if ch = CHR ''('' then rbind (read_command (lx_macros lx) 0 f) (\<lambda>(s, f).
         Inr ((if type = CHR ''$'' then LexStrCommand else LexNumCommand) (cstr s), at lx f))
       else if ch = CHR ''{'' \<or> isalnum ch then rbind (read_macro type ch f) (\<lambda>(s, f).
         Inr ((if type = CHR ''$'' then LexStrMacro else LexNumMacro) s, at lx f))
       else yyerror ''invalid macro name'')"

text \<open>An operator that may be followed by \<open>=\<close>.\<close>

definition read_equals :: "lexer \<Rightarrow> char \<Rightarrow> char list \<Rightarrow> char list \<Rightarrow> (lexval \<times> lexer) res" where
  "read_equals lx ch token f = (case f of
     c # f' \<Rightarrow> if c = CHR ''='' then Inr (LexTok token, at lx f') else Inr (LexChar ch, at lx f)
   | [] \<Rightarrow> Inr (LexChar ch, at lx f))"

text \<open>The switch of \<open>yylex\<close>: \<open>LexEOF\<close> when there was nothing but space or a comment.\<close>

definition lex_one :: "lexer \<Rightarrow> char \<Rightarrow> char list \<Rightarrow> (lexval \<times> lexer) res" where
  "lex_one lx ch f =
     (if ch = CHR ''#'' then Inr (LexEOF, next_line_no (at lx (drop 1 (dropWhile (\<lambda>c. c \<noteq> NL) f))))
      else if ch = CHR 0x27 \<or> ch = DQ then
        rbind (read_string (lx_macros lx) ch (ch = DQ) f) (\<lambda>(s, f). Inr (LexString (cstr s), at lx f))
      else if ch = CHR ''$'' \<or> ch = CHR ''%'' then read_dollar lx ch f
      else if ch = CHR ''='' then read_equals lx ch ''TOKEQ'' f
      else if ch = CHR ''!'' then read_equals lx ch ''TOKNE'' f
      else if ch \<in> set ''~+(),<>{}*'' then Inr (LexChar ch, at lx f)
      else if ch = NL then Inr (LexEOF, next_line_no (at lx f))
      else if ch = SP \<or> ch = TAB then Inr (LexEOF, at lx f)
      else if ch \<noteq> CHR ''_'' \<and> ch \<noteq> CHR ''-'' \<and> \<not> isalnum ch then yyerror ''unexpected character''
      else if isdigit ch then rbind (read_number ch f) (\<lambda>(n, f). Inr (LexNumber n, at lx f))
      else read_token lx ch f)"

text \<open>What is still to be read: every step takes from it.\<close>

definition lex_left :: "lexer \<Rightarrow> nat" where
  "lex_left lx = length (pf_f (lx_file lx)) + sum_list (map (\<lambda>p. length (pf_f p) + 1) (lx_stack lx))"

definition with_rest :: "lexer \<Rightarrow> nat \<Rightarrow> (lexval \<times> lexer) res \<Rightarrow> bool" where
  "with_rest lx n r \<longleftrightarrow> (\<forall>v lx'. r = Inr (v, lx') \<longrightarrow> lx_stack lx' = lx_stack lx \<and> length (pf_f (lx_file lx')) \<le> n)"

lemma with_rest_intros:
  "length f \<le> n \<Longrightarrow> with_rest lx n (Inr (v, at lx f))" "with_rest lx n (yyerror msg)"
  "length f \<le> n \<Longrightarrow> with_rest lx n (Inr (v, next_line_no (at lx f)))"
  "length f \<le> n \<Longrightarrow> with_rest lx n (Inr (v, (at lx f)\<lparr>lex_skip := b, lex_ifdef := k\<rparr>))"
  "length f \<le> n \<Longrightarrow> with_rest lx n (Inr (v, (at lx f)\<lparr>lex_ifdef := k, lex_skip := b\<rparr>))"
  "length f \<le> n \<Longrightarrow> with_rest lx n (Inr (v, (at lx f)\<lparr>lex_include := b\<rparr>))"
  by (simp_all add: with_rest_def at_def next_line_no_def yyerror_def)

lemma with_rest_bind:
  "(\<And>x f. r = Inr (x, f) \<Longrightarrow> with_rest lx n (g x f)) \<Longrightarrow> with_rest lx n (rbind r (\<lambda>(x, f). g x f))"
  by (cases r) (auto simp: with_rest_def)

lemma with_rest_if: "with_rest lx n x \<Longrightarrow> with_rest lx n y \<Longrightarrow> with_rest lx n (if b then x else y)"
  by simp

lemma read_command_length: "shrinks (length f) (read_command macros nesting f)"
proof (induction macros nesting f rule: read_command.induct)
  case (2 macros nesting ch f)
  have sb: "shrinks (Suc (length f)) (rbind r (\<lambda>(s, f). Inr (g s, f)))" if "shrinks k r" "k \<le> length f" for r k g
    using that by (intro shrinks_bind) (rule shrinks_mono, auto)
  show ?case
  proof (cases "ch = DQ \<or> ch = CHR 0x27")
    case True
    show ?thesis
    proof (cases "read_string macros ch (ch = DQ) f")
      case (Inr x)
      then obtain s h where h: "read_string macros ch (ch = DQ) f = Inr (s, h)" by (cases x) auto
      have "shrinks (length h) (read_command macros nesting h)" using "2.IH"(1) True h by auto
      then show ?thesis using True h read_string_shrinks [OF h] sb [of "length h"] by (auto simp: read_command.simps)
    qed (use True in \<open>auto simp: read_command.simps\<close>)
  next
    case False
    show ?thesis
    proof (cases "ch = CHR '')'' \<and> nesting = 0")
      case True
      then show ?thesis by (simp add: read_command.simps shrinks_def)
    next
      case ne: False
      from "2.IH"(2) [OF ne False] show ?thesis
        using ne False sb [of "length f"] by (auto simp: read_command.simps)
    qed
  qed
qed (simp add: read_command.simps yyerror_def)

lemma read_number_length: "read_number ch f = Inr (k, f') \<Longrightarrow> length f' \<le> length f"
  using length_dropWhile_le [of isdigit f] by (auto simp: read_number_def Let_def yyerror_def split: if_splits sum.splits)

lemma read_dollar_rest: "with_rest lx (length f) (read_dollar lx type f)"
proof (cases f)
  case (Cons ch g)
  have "length h \<le> length f" if "read_command m 0 g = Inr (s, h)" for m s h
    using read_command_length [of g m 0] that Cons by (auto simp: shrinks_def)
  moreover have "length h \<le> length f" if "read_macro type ch g = Inr (s, h)" for s h
    using read_macro_shrinks [OF that] Cons by simp
  ultimately show ?thesis
    unfolding read_dollar_def Cons by (auto simp: Cons intro!: with_rest_intros with_rest_bind split: if_splits)
qed (simp add: read_dollar_def with_rest_intros)

lemma read_equals_rest: "with_rest lx (length f) (read_equals lx ch t f)"
  by (auto simp: read_equals_def intro!: with_rest_intros split: list.split)

lemma read_ifdef_rest: "with_rest lx (length f) (read_ifdef lx neg f)"
proof -
  have d: "length (dropWhile isspace f) \<le> length f" by (rule length_dropWhile_le)
  have "length h \<le> length f" if "dropWhile isspace f = ch # ch2 # g" "read_macro ch ch2 g = Inr (s, h)" for ch ch2 g s h
    using read_macro_shrinks [OF that(2)] that(1) d by simp
  then show ?thesis
    unfolding read_ifdef_def by (auto simp: Let_def intro!: with_rest_intros with_rest_bind split: list.split)
qed

lemma read_token_rest: "with_rest lx (length f) (read_token lx ch f)"
proof -
  have d: "length (dropWhile isname f) \<le> length f" by (rule length_dropWhile_le)
  have i: "with_rest lx (length f) (read_ifdef lx neg (dropWhile isname f))" for neg
    using read_ifdef_rest [of lx "dropWhile isname f" neg] d unfolding with_rest_def by (meson le_trans)
  show ?thesis
    unfolding read_token_def Let_def
    by (auto intro!: with_rest_intros i d split: option.split)
qed

lemma lex_one_rest: "with_rest lx (length f) (lex_one lx ch f)"
proof -
  have c: "length (drop 1 (dropWhile (\<lambda>c. c \<noteq> NL) f)) \<le> length f"
    using length_dropWhile_le [of "\<lambda>c. c \<noteq> NL" f] by simp
  have s: "length h \<le> length f" if "read_string m q e f = Inr (s, h)" for m q e s h using read_string_shrinks [OF that] by simp
  show ?thesis
    unfolding lex_one_def
    by (intro with_rest_if with_rest_bind read_dollar_rest read_equals_rest read_token_rest with_rest_intros c order.refl;
        erule s read_number_length)
qed

lemma lex_one_left: "lex_one (at lx f) ch f = Inr (v, lx') \<Longrightarrow> pf_f (lx_file lx) = ch # f \<Longrightarrow> lex_left lx' < lex_left lx"
  using lex_one_rest [of "at lx f" f ch] by (fastforce simp: with_rest_def lex_left_def at_def)

text \<open>\<open>include_finish\<close>: whether the file was the last one.\<close>

definition include_finish :: "lexer \<Rightarrow> bool \<times> lexer" where
  "include_finish lx = (case lx_stack lx of [] \<Rightarrow> (True, lx) | p # ps \<Rightarrow> (False, lx\<lparr>lx_file := p, lx_stack := ps\<rparr>))"

lemma include_finish_left: "include_finish lx = (False, lx') \<Longrightarrow> lex_left lx' < lex_left lx"
  by (auto simp: include_finish_def lex_left_def split: list.splits)

text \<open>From \<open>restart\<close>: values in a section that is skipped are read and dropped.\<close>

function yylex_restart :: "lexer \<Rightarrow> (lexval \<times> lexer) res" where
  "yylex_restart lx = (case pf_f (lx_file lx) of
     [] \<Rightarrow> (case include_finish lx of
         (True, lx) \<Rightarrow> if lex_ifdef lx \<noteq> 0 then yyerror ''missing endif'' else Inr (LexEOF, lx)
       | (False, lx) \<Rightarrow> yylex_restart lx)
   | ch # f \<Rightarrow> (case lex_one (at lx f) ch f of
         Inl e \<Rightarrow> Inl e
       | Inr (v, lx) \<Rightarrow> if v = LexEOF \<or> lex_skip lx then yylex_restart lx else Inr (v, lx)))"
  by pat_completeness auto
termination
  by (relation "measure lex_left") (auto dest: lex_one_left include_finish_left [OF sym])

declare yylex_restart.simps [simp del]

text \<open>What the process has: the files that can be opened, and what the path of an included file is expanded with.\<close>

record lex_env =
  le_fopen :: "char list \<Rightarrow> char list option"
  le_fstat :: "char list \<Rightarrow> bool"
  le_conf_file :: "char list"
  le_strip :: "char list"
  le_pwdir :: "char list \<Rightarrow> char list option"
  le_tags :: strb
  le_home :: "char list"

definition include_start :: "lex_env \<Rightarrow> lexer \<Rightarrow> char list \<Rightarrow> lexer res" where
  "include_start e lx file =
     (if file = [] then yyerror ''invalid include file''
      else rbind (case le_fopen e file of
          Some f \<Rightarrow> Inr (file, f)
        | None \<Rightarrow> (let path = xdirname (le_conf_file e) @ ''/'' @ file in
            case le_fopen e path of Some f \<Rightarrow> Inr (path, f) | None \<Rightarrow> yyerror path)) (\<lambda>(path, f).
        if \<not> le_fstat e path then yyerror path
        else Inr (lx\<lparr>lx_stack := lx_file lx # lx_stack lx, lx_file := \<lparr>pf_f = f, pf_line = 1, pf_path = path\<rparr>\<rparr>)))"

definition read_include :: "lex_env \<Rightarrow> lexer \<Rightarrow> lexer res" where
  "read_include e lx = (case dropWhile isspace (pf_f (lx_file lx)) of
     [] \<Rightarrow> yyerror ''syntax error''
   | ch # f \<Rightarrow>
       if ch \<noteq> DQ \<and> ch \<noteq> CHR 0x27 then yyerror ''syntax error''
       else rbind (read_string (lx_macros lx) ch (ch = DQ) f) (\<lambda>(s, f).
            rbind (replacepath (le_strip e) (le_pwdir e) (cstr s) (le_tags e) (None :: unit mail option) None (le_home e)) (\<lambda>path.
            rbind (include_start e (at lx f) path) (\<lambda>lx. Inr (lx\<lparr>lex_include := False\<rparr>)))))"

definition yylex :: "lex_env \<Rightarrow> lexer \<Rightarrow> (lexval \<times> lexer) res" where
  "yylex e lx = rbind (if lex_include lx then read_include e lx else Inr lx) yylex_restart"

end
