(* ===== verification/Lex_Correct.thy ===== *)
theory Lex_Correct imports Lex begin

text \<open>
  What the lexer reads: the table of tokens and its search, the texts of tokens and their values, and conditional sections.
\<close>

section \<open>The table\<close>

lemma code_inj: "code a = code b \<longleftrightarrow> a = b"
  by (simp add: code_def)

lemma strcmp_order:
  "strcmp a b < 0 \<longleftrightarrow> map code a < map code b" "strcmp a b = 0 \<longleftrightarrow> a = b" "0 < strcmp a b \<longleftrightarrow> map code b < map code a"
  by (induction a b rule: strcmp.induct) (auto simp: code_inj)

definition token_key :: "char list \<times> char list \<Rightarrow> nat list" where
  "token_key t = map code (fst t)"

lemma tokens_sorted: "sorted_wrt (\<lambda>s t. token_key s < token_key t) tokens"
proof -
  have "successively (\<lambda>s t. strcmp (fst s) (fst t) < 0) tokens" by code_simp
  then have "successively (\<lambda>s t. token_key s < token_key t) tokens" by (simp add: strcmp_order(1) token_key_def)
  then show ?thesis
    by (subst (asm) successively_conv_sorted_wrt) (auto intro: transpI)
qed

lemma bsearch_sound: "bsearch cmp xs lo hi = Some x \<Longrightarrow> hi \<le> length xs \<Longrightarrow> x \<in> set xs \<and> cmp x = 0"
proof (induction cmp xs lo hi rule: bsearch.induct)
  case (1 cmp xs lo hi)
  let ?m = "(lo + hi) div 2"
  have m: "\<not> hi \<le> lo" using "1.prems"(1) by (auto simp: bsearch.simps split: if_splits)
  then have lt: "?m < length xs" using "1.prems"(2) by linarith
  consider "cmp (xs ! ?m) = 0" | "cmp (xs ! ?m) < 0" | "0 < cmp (xs ! ?m)" by linarith
  then show ?case
  proof cases
    case 1
    then show ?thesis using "1.prems" m lt by (simp add: bsearch.simps [of cmp xs lo hi] Let_def) (metis nth_mem)
  next
    case 2
    then have "bsearch cmp xs lo ?m = Some x" using "1.prems" m by (simp add: bsearch.simps [of cmp xs lo hi] Let_def)
    with "1.IH"(1) [OF m refl refl] 2 lt show ?thesis by simp
  next
    case 3
    then have "bsearch cmp xs (?m + 1) hi = Some x" using "1.prems" m by (simp add: bsearch.simps [of cmp xs lo hi] Let_def)
    with "1.IH"(2) [OF m refl refl] 3 "1.prems"(2) show ?thesis by simp
  qed
qed

lemma bsearch_complete:
  assumes "\<And>i j. i < j \<Longrightarrow> j < length xs \<Longrightarrow> (cmp (xs ! i) \<le> 0 \<longrightarrow> cmp (xs ! j) < 0)"
  shows "lo \<le> i \<Longrightarrow> i < hi \<Longrightarrow> hi \<le> length xs \<Longrightarrow> cmp (xs ! i) = 0 \<Longrightarrow> bsearch cmp xs lo hi \<noteq> None"
  using assms
proof (induction cmp xs lo hi rule: bsearch.induct)
  case (1 cmp xs lo hi)
  let ?m = "(lo + hi) div 2"
  have m: "\<not> hi \<le> lo" "?m < length xs" using "1.prems" by linarith+
  consider "cmp (xs ! ?m) = 0" | "cmp (xs ! ?m) < 0" | "0 < cmp (xs ! ?m)" by linarith
  then show ?case
  proof cases
    case 1
    then show ?thesis using m by (simp add: bsearch.simps [of cmp xs lo hi] Let_def)
  next
    case 2
    have "i < ?m" using "1.prems"(5) [of ?m i] "1.prems"(2,3,4) 2 by (cases "?m = i") (auto simp: not_less [symmetric] intro: ccontr)
    with "1.IH"(1) [OF m(1) refl refl] 2 "1.prems" m show ?thesis by (simp add: bsearch.simps [of cmp xs lo hi] Let_def)
  next
    case 3
    have "?m < i" using "1.prems"(5) [of i ?m] "1.prems"(4) m(2) 3 by (cases "?m = i") (auto simp: not_less [symmetric] intro: ccontr)
    with "1.IH"(2) [OF m(1) refl refl] 3 "1.prems" m show ?thesis by (simp add: bsearch.simps [of cmp xs lo hi] Let_def)
  qed
qed

lemma tokens_distinct: "distinct (map fst tokens)"
proof -
  have "distinct (map token_key tokens)"
    using tokens_sorted by (auto simp: distinct_conv_nth sorted_wrt_iff_nth_less nat_neq_iff) (metis less_irrefl)+
  then have "distinct (map (map code) (map fst tokens))" by (simp add: token_key_def [abs_def] comp_def)
  then show ?thesis by (simp only: distinct_map)
qed

lemma find_token_search: "find_token s = map_of tokens s"
proof -
  have mono: "cmp_token s (tokens ! i) \<le> 0 \<longrightarrow> cmp_token s (tokens ! j) < 0" if "i < j" "j < length tokens" for i j
  proof -
    have "token_key (tokens ! i) < token_key (tokens ! j)" using tokens_sorted that by (auto simp: sorted_wrt_iff_nth_less)
    moreover have "strcmp s (fst (tokens ! i)) \<le> 0 \<longleftrightarrow> map code s \<le> token_key (tokens ! i)"
      using strcmp_order(3) [of s "fst (tokens ! i)"] by (simp add: token_key_def not_less [symmetric])
    ultimately show ?thesis by (auto simp: cmp_token_def strcmp_order(1) token_key_def)
  qed
  note d = tokens_distinct
  show ?thesis
  proof (cases "bsearch (cmp_token s) tokens 0 (length tokens)")
    case None
    have "s \<noteq> fst t" if t: "t \<in> set tokens" for t
    proof
      assume "s = fst t"
      moreover obtain i where "i < length tokens" "tokens ! i = t" using t by (auto simp: in_set_conv_nth)
      ultimately show False
        using bsearch_complete [of tokens "cmp_token s" 0 i "length tokens"] mono None by (auto simp: cmp_token_def strcmp_order(2))
    qed
    then have "map_of tokens s = None" by (auto simp: map_of_eq_None_iff)
    with None show ?thesis by (simp add: find_token_def)
  next
    case (Some t)
    then have "t \<in> set tokens" "s = fst t" using bsearch_sound [OF Some] by (auto simp: cmp_token_def strcmp_order(2))
    with Some d show ?thesis by (auto simp: find_token_def)
  qed
qed

section \<open>Words and their values\<close>

definition lex_quote :: "char list \<Rightarrow> char list" where
  "lex_quote s = concat (map (\<lambda>c. if c \<in> {DQ, CHR 0x5C, CHR ''$'', CHR ''%''} then [CHR 0x5C, c] else [c]) s)"

definition macro_ok :: "char \<Rightarrow> char list \<Rightarrow> bool" where
  "macro_ok c cs \<longleftrightarrow> isalnum c \<and> (\<forall>x \<in> set cs. isname x) \<and> length cs < 61"

inductive lex_word :: "char list \<Rightarrow> lexval \<Rightarrow> bool" where
  keyword: "(name, t) \<in> set tokens \<Longrightarrow> lex_word name (LexTok t)"
| eq: "lex_word ''=='' (LexTok ''TOKEQ'')"
| ne: "lex_word ''!='' (LexTok ''TOKNE'')"
| char: "c \<in> set ''=!~+(),<>{}*'' \<Longrightarrow> lex_word [c] (LexChar c)"
| number: "int n \<le> LLONG_MAX \<Longrightarrow> lex_word (show_nat n) (LexNumber (int n))"
| quoted: "NUL \<notin> set s \<Longrightarrow> lex_word (DQ # lex_quote s @ [DQ]) (LexString s)"
| plain: "NUL \<notin> set s \<Longrightarrow> CHR 0x27 \<notin> set s \<Longrightarrow> lex_word (CHR 0x27 # s @ [CHR 0x27]) (LexString s)"
| macro_str: "macro_ok c cs \<Longrightarrow> lex_word (CHR ''$'' # c # cs) (LexStrMacro (CHR ''$'' # c # cs))"
| macro_num: "macro_ok c cs \<Longrightarrow> lex_word (CHR ''%'' # c # cs) (LexNumMacro (CHR ''%'' # c # cs))"
| brackets: "macro_ok c cs \<Longrightarrow> lex_word (CHR ''$'' # CHR ''{'' # c # cs @ [CHR ''}'']) (LexStrMacro (CHR ''$'' # c # cs))"

definition token_name_ok :: "char list \<Rightarrow> bool" where
  "token_name_ok name \<longleftrightarrow> (case name of [] \<Rightarrow> False
     | c # cs \<Rightarrow> isalnum c \<and> \<not> isdigit c \<and> list_all isname cs \<and> length cs < 126 \<and> name \<notin> {''ifdef'', ''ifndef'', ''endif'', ''include''})"

lemma keyword_chars:
  "list_all isname ''abcdefghijklmnopqrstuvwxyzBGKM135-''"
  "list_all (\<lambda>c. isalnum c \<and> \<not> isdigit c) ''abcdefghijklmnopqrstuvwxyzBGKM''"
  by code_simp+

lemma token_names: "(name, t) \<in> set tokens \<Longrightarrow> token_name_ok name"
proof -
  have "list_all (\<lambda>t. token_name_ok (fst t)) tokens"
    using keyword_chars by (simp add: tokens_def token_name_ok_def)
  then show "(name, t) \<in> set tokens \<Longrightarrow> token_name_ok name" by (force simp: list_all_iff)
qed

lemma lex_quote_simps [simp]:
  "lex_quote [] = []"
  "lex_quote (c # s) = (if c \<in> {DQ, CHR 0x5C, CHR ''$'', CHR ''%''} then CHR 0x5C # c # lex_quote s else c # lex_quote s)"
  by (simp_all add: lex_quote_def)

lemma read_string_escape:
  "c \<notin> {CHR ''r'', CHR ''n'', CHR ''t''} \<Longrightarrow> read_string macros DQ True (CHR 0x5C # c # f) = rbind (read_string macros DQ True f) (\<lambda>(s, f). Inr (c # s, f))"
  unfolding read_string.simps(2) [of macros DQ True "CHR 0x5C" "c # f"] by (simp add: escaped_def)

lemma read_string_char:
  "c \<notin> {DQ, CHR 0x5C, CHR ''$'', CHR ''%''} \<Longrightarrow> read_string macros DQ True (c # f) = rbind (read_string macros DQ True f) (\<lambda>(s, f). Inr (c # s, f))"
  unfolding read_string.simps(2) [of macros DQ True c f] by simp

lemma read_string_end: "read_string macros q esc (q # f) = Inr ([], f)"
  by (simp add: read_string.simps)

lemma read_string_quoted: "read_string macros DQ True (lex_quote s @ DQ # rest) = Inr (s, rest)"
proof (induction s)
  case (Cons c s)
  show ?case
  proof (cases "c \<in> {DQ, CHR 0x5C, CHR ''$'', CHR ''%''}")
    case True
    then have "c \<notin> {CHR ''r'', CHR ''n'', CHR ''t''}" by auto
    with Cons read_string_escape [OF this, of macros "lex_quote s @ DQ # rest"] True show ?thesis by simp
  next
    case False
    with Cons read_string_char [OF False, of macros "lex_quote s @ DQ # rest"] show ?thesis by simp
  qed
qed (simp add: read_string_end)

lemma read_string_plain:
  "\<not> esc \<Longrightarrow> endch \<notin> set s \<Longrightarrow> read_string macros endch esc (s @ endch # rest) = Inr (s, rest)"
proof (induction s)
  case (Cons c s)
  then show ?case unfolding append_Cons read_string.simps(2) [of macros endch esc c "s @ endch # rest"] by auto
qed (simp add: read_string_end)

lemma read_macro_plain:
  assumes "macro_ok c cs" "rest = [] \<or> \<not> isname (hd rest)"
  shows "read_macro type c (cs @ rest) = Inr (type # c # cs, rest)"
proof -
  have c: "c \<noteq> CHR ''{''" using assms(1) by (auto simp: macro_ok_def isalnum_def isdigit_def isupper_def islower_def code_def)
  have "takeWhile isname (cs @ rest) = cs" "dropWhile isname (cs @ rest) = rest"
    using assms by (cases rest; auto simp: macro_ok_def)+
  with c assms(1) show ?thesis by (simp add: read_macro_def MAXNAMESIZE_def macro_ok_def)
qed

lemma read_macro_brackets:
  assumes "macro_ok c cs"
  shows "read_macro type (CHR ''{'') (c # cs @ CHR ''}'' # rest) = Inr (type # c # cs, rest)"
proof -
  have b: "\<not> isname (CHR ''}'')" by code_simp
  have "takeWhile isname (cs @ CHR ''}'' # rest) = cs" "dropWhile isname (cs @ CHR ''}'' # rest) = CHR ''}'' # rest"
    using assms b by (auto simp: macro_ok_def)
  with assms show ?thesis by (simp add: read_macro_def MAXNAMESIZE_def macro_ok_def)
qed

lemma at_simps [simp]:
  "at (at lx f) g = at lx g" "lx_macros (at lx f) = lx_macros lx" "pf_f (lx_file (at lx f)) = f" "lx_stack (at lx f) = lx_stack lx"
  "lex_skip (at lx f) = lex_skip lx" "lex_ifdef (at lx f) = lex_ifdef lx" "lex_include (at lx f) = lex_include lx"
  by (simp_all add: at_def)

definition lex_specials :: "char list" where
  "lex_specials = [NL, SP, TAB] @ ''#'' @ [DQ, CHR 0x27] @ ''$%=!~+(),<>{}*''"

lemma alnum_plain: "isalnum c \<Longrightarrow> c \<notin> set lex_specials \<and> c \<noteq> CHR ''_'' \<and> c \<noteq> CHR ''-''"
proof -
  have "list_all (\<lambda>c. \<not> isalnum c) (lex_specials @ ''_-'')" by code_simp
  then show "isalnum c \<Longrightarrow> c \<notin> set lex_specials \<and> c \<noteq> CHR ''_'' \<and> c \<noteq> CHR ''-''" by (auto simp: list_all_iff)
qed

lemma lex_one_alnum:
  "isalnum c \<Longrightarrow> lex_one lx c f = (if isdigit c then rbind (read_number c f) (\<lambda>(n, f). Inr (LexNumber n, at lx f)) else read_token lx c f)"
  using alnum_plain [of c] unfolding lex_one_def lex_specials_def by simp

lemma show_nat_length: "0 < k \<Longrightarrow> n < 10 ^ k \<Longrightarrow> length (show_nat n) \<le> k"
proof (induction k arbitrary: n)
  case (Suc k)
  show ?case
  proof (cases "n < 10")
    case True
    then show ?thesis by (subst show_nat.simps) simp
  next
    case False
    then have "0 < k" using Suc.prems(2) by (cases k) auto
    moreover have "n div 10 < 10 ^ k" using Suc.prems(2) by auto
    ultimately have "length (show_nat (n div 10)) \<le> k" by (rule Suc.IH)
    with False show ?thesis by (subst show_nat.simps) simp
  qed
qed simp

lemma lex_one_number:
  assumes "int n \<le> LLONG_MAX" "show_nat n = c # cs"
  shows "lex_one lx c (cs @ SP # rest) = Inr (LexNumber (int n), at lx (SP # rest))"
proof -
  have d: "isdigit c" "\<forall>x \<in> set cs. isdigit x" using show_nat_digits [of n] assms(2) by auto
  have sp: "\<not> isdigit SP" by code_simp
  have t: "takeWhile isdigit (cs @ SP # rest) = cs" "dropWhile isdigit (cs @ SP # rest) = SP # rest" using d sp by auto
  have "n < 10 ^ 19" using assms(1) by (simp add: LLONG_MAX_def)
  then have "length (c # cs) \<le> 19" using show_nat_length [of 19 n] assms(2) by simp
  moreover have "strtonum (c # cs) 0 LLONG_MAX = Inr (int n)"
    using strtonum_show_nat [of 0 n LLONG_MAX] assms by simp
  ultimately have "read_number c (cs @ SP # rest) = Inr (int n, SP # rest)" using t by (simp add: read_number_def)
  with d(1) show ?thesis by (simp add: lex_one_alnum isalnum_def)
qed

lemma lex_one_keyword:
  assumes "(name, t) \<in> set tokens"
  shows "\<exists>c cs. name = c # cs \<and> (\<forall>lx rest. lex_one lx c (cs @ SP # rest) = Inr (LexTok t, at lx (SP # rest)))"
proof -
  obtain c cs where n: "name = c # cs" "isalnum c" "\<not> isdigit c" "list_all isname cs" "length cs < 126"
    "name \<notin> {''ifdef'', ''ifndef'', ''endif'', ''include''}"
    using token_names [OF assms] by (auto simp: token_name_ok_def split: list.splits)
  have sp: "\<not> isname SP" by code_simp
  have w: "takeWhile isname (cs @ SP # rest) = cs" "dropWhile isname (cs @ SP # rest) = SP # rest" for rest
    using n(4) sp by (auto simp: list_all_iff)
  have "distinct (map fst tokens)" by (rule tokens_distinct)
  with assms have "find_token name = Some t" by (simp add: find_token_search)
  then have "lex_one lx c (cs @ SP # rest) = Inr (LexTok t, at lx (SP # rest))" for lx rest
    using n w by (auto simp: lex_one_alnum read_token_def Let_def)
  with n(1) show ?thesis by blast
qed

lemma lex_one_word:
  assumes "lex_word w v"
  shows "\<exists>c cs. w = c # cs \<and> v \<noteq> LexEOF \<and> (\<forall>lx rest. lex_one lx c (cs @ SP # rest) = Inr (v, at lx (SP # rest)))"
  using assms
proof (induction rule: lex_word.induct)
  case (keyword name t)
  with lex_one_keyword [of name t] show ?case by auto
next
  case (number n)
  obtain c cs where "show_nat n = c # cs" using show_nat_nonempty by (cases "show_nat n") auto
  with number lex_one_number [of n c cs] show ?case by auto
next
  case (quoted s)
  have "read_string m DQ True (lex_quote s @ DQ # r) = Inr (s, r)" for m r by (rule read_string_quoted)
  with quoted show ?case by (simp add: lex_one_def cstr_id is_cstr_def)
next
  case (plain s)
  have "read_string m (CHR 0x27) False (s @ CHR 0x27 # r) = Inr (s, r)" for m r using plain by (intro read_string_plain) auto
  with plain show ?case by (simp add: lex_one_def cstr_id is_cstr_def)
next
  case (char c)
  then show ?case by (auto simp: lex_one_def read_equals_def)
next
  case (macro_str c cs)
  have "isalnum c" using macro_str by (simp add: macro_ok_def)
  moreover have "\<not> isname SP" by code_simp
  ultimately show ?case
    using macro_str alnum_plain [of c] read_macro_plain [OF macro_str, of "SP # rest" for rest]
    by (auto simp: lex_one_def read_dollar_def lex_specials_def)
next
  case (macro_num c cs)
  have "isalnum c" using macro_num by (simp add: macro_ok_def)
  moreover have "\<not> isname SP" by code_simp
  ultimately show ?case
    using macro_num alnum_plain [of c] read_macro_plain [OF macro_num, of "SP # rest" for rest]
    by (auto simp: lex_one_def read_dollar_def lex_specials_def)
next
  case (brackets c cs)
  with read_macro_brackets [OF brackets] show ?case by (simp add: lex_one_def read_dollar_def)
qed (simp_all add: lex_one_def read_equals_def)

section \<open>Sequences of values\<close>

fun lex_values :: "lex_env \<Rightarrow> nat \<Rightarrow> lexer \<Rightarrow> (lexval list \<times> lexer) res" where
  "lex_values e 0 lx = Inr ([], lx)"
| "lex_values e (Suc n) lx = rbind (yylex e lx) (\<lambda>(v, lx). rbind (lex_values e n lx) (\<lambda>(vs, lx). Inr (v # vs, lx)))"

definition words :: "(char list \<times> lexval) list \<Rightarrow> char list" where
  "words ws = concat (map (\<lambda>(w, v). SP # w) ws)"

lemma words_simps [simp]: "words [] = []" "words ((w, v) # ws) = SP # w @ words ws"
  by (simp_all add: words_def)

lemma lex_values_more: "lex_values e (n + k) lx = rbind (lex_values e n lx) (\<lambda>(vs, lx). rbind (lex_values e k lx) (\<lambda>(us, lx). Inr (vs @ us, lx)))"
proof (induction n arbitrary: lx)
  case 0
  show ?case by (cases "lex_values e k lx") auto
next
  case (Suc n)
  show ?case
  proof (cases "yylex e lx")
    case (Inr x)
    then show ?thesis using Suc.IH [of "snd x"] by (cases x; cases "lex_values e n (snd x)") (auto simp: rbind_def split: sum.splits)
  qed simp
qed

lemma at_same [simp]: "at lx (pf_f (lx_file lx)) = lx"
  by (simp add: at_def)

lemma skip_space: "yylex_restart (at lx (SP # f)) = yylex_restart (at lx f)"
  by (simp add: yylex_restart.simps [of "at lx (SP # f)"] lex_one_def)

lemma restart_word:
  assumes "lex_word w v"
  shows "yylex_restart (at lx (w @ SP # rest)) = (if lex_skip lx then yylex_restart (at lx (SP # rest)) else Inr (v, at lx (SP # rest)))"
proof -
  obtain c cs where w: "w = c # cs" "v \<noteq> LexEOF" "\<forall>lx rest. lex_one lx c (cs @ SP # rest) = Inr (v, at lx (SP # rest))"
    using lex_one_word [OF assms] by blast
  then show ?thesis by (simp add: yylex_restart.simps [of "at lx (c # cs @ SP # rest)"])
qed

lemma skip_words:
  assumes "\<forall>(w, v) \<in> set ws. lex_word w v" "lex_skip lx"
  shows "yylex_restart (at lx (words ws @ SP # rest)) = yylex_restart (at lx (SP # rest))"
  using assms
proof (induction ws)
  case (Cons x ws)
  obtain w v where x: "x = (w, v)" by (cases x)
  have "\<exists>r. words ws @ SP # rest = SP # r" by (cases ws) auto
  then obtain r where r: "words ws @ SP # rest = SP # r" by blast
  have "lex_word w v" using Cons.prems(1) x by simp
  from restart_word [OF this, of lx r] Cons x r show ?case by (simp add: skip_space)
qed simp

lemma values_words:
  assumes "\<forall>(w, v) \<in> set ws. lex_word w v" "\<not> lex_skip lx" "\<not> lex_include lx"
  shows "lex_values e (length ws) (at lx (words ws @ SP # rest)) = Inr (map snd ws, at lx (SP # rest))"
  using assms
proof (induction ws)
  case (Cons x ws)
  obtain w v where x: "x = (w, v)" by (cases x)
  have "\<exists>r. words ws @ SP # rest = SP # r" by (cases ws) auto
  then obtain r where r: "words ws @ SP # rest = SP # r" by blast
  have "lex_word w v" using Cons.prems(1) x by simp
  from restart_word [OF this, of lx r] Cons x r show ?case by (simp add: skip_space yylex_def)
qed simp

section \<open>Conditional sections\<close>

lemma lex_one_ifdef:
  assumes "macro_ok c cs"
  shows "lex_one lx (CHR ''i'') (''fdef $'' @ c # cs @ SP # rest) = Inr (LexNone, (at lx (SP # rest))\<lparr>
     lex_skip := lex_skip lx \<or> find_macro (lx_macros lx) (CHR ''$'' # c # cs) = None, lex_ifdef := lex_ifdef lx + 1\<rparr>)"
proof -
  have sp: "\<not> isname SP" "isspace SP" "\<not> isspace (CHR ''$'')" "isalnum (CHR ''i'')" "\<not> isdigit (CHR ''i'')" "list_all isname ''fdef''" by code_simp+
  have c: "isalnum c" using assms by (simp add: macro_ok_def)
  have "read_macro (CHR ''$'') c (cs @ SP # rest) = Inr (CHR ''$'' # c # cs, SP # rest)"
    using read_macro_plain [OF assms, of "SP # rest"] sp(1) by simp
  then show ?thesis using sp c by (simp add: lex_one_alnum read_token_def read_ifdef_def Let_def)
qed

lemma lex_one_endif:
  assumes "lex_ifdef lx = Suc n"
  shows "lex_one lx (CHR ''e'') (''ndif '' @ rest) = Inr (LexNone, (at lx (SP # rest))\<lparr>lex_ifdef := n, lex_skip := lex_skip lx \<and> n \<noteq> 0\<rparr>)"
proof -
  have sp: "\<not> isname SP" "isalnum (CHR ''e'')" "\<not> isdigit (CHR ''e'')" "list_all isname ''ndif''" by code_simp+
  then show ?thesis using assms by (simp add: lex_one_alnum read_token_def Let_def)
qed

lemma restart_ifdef:
  assumes "macro_ok c cs"
  shows "yylex_restart (at lx ('' ifdef $'' @ c # cs @ SP # rest)) =
     (let lx' = (at lx (SP # rest))\<lparr>lex_skip := lex_skip lx \<or> find_macro (lx_macros lx) (CHR ''$'' # c # cs) = None, lex_ifdef := lex_ifdef lx + 1\<rparr>
      in if lex_skip lx' then yylex_restart lx' else Inr (LexNone, lx'))"
  using lex_one_ifdef [OF assms, of "at lx (''fdef $'' @ c # cs @ SP # rest)" rest] skip_space [of lx "''ifdef $'' @ c # cs @ SP # rest"]
  by (simp add: yylex_restart.simps [of "at lx (CHR ''i'' # _)"] Let_def)

lemma restart_endif:
  assumes "lex_ifdef lx = Suc n"
  shows "yylex_restart (at lx ('' endif '' @ rest)) =
     (let lx' = (at lx (SP # rest))\<lparr>lex_ifdef := n, lex_skip := lex_skip lx \<and> n \<noteq> 0\<rparr> in if lex_skip lx' then yylex_restart lx' else Inr (LexNone, lx'))"
  using lex_one_endif [of "at lx (''ndif '' @ rest)" n rest] skip_space [of lx "''endif '' @ rest"] assms
  by (simp add: yylex_restart.simps [of "at lx (CHR ''e'' # _)"] Let_def)

section \<open>Properties\<close>

text \<open>
  C13: the texts of tokens are read as the tokens they stand for: keywords by the binary search of the table, numbers,
  strings with their quotes and escapes, names of macros and the punctuation, in order, up to the end of the file.
\<close>

theorem lex_roundtrip:
  assumes ws: "\<forall>(w, v) \<in> set ws. lex_word w v" and lx: "\<not> lex_skip lx" "\<not> lex_include lx" "lx_stack lx = []" "lex_ifdef lx = 0"
  shows "lex_values e (length ws + 1) (at lx (words ws @ [SP])) = Inr (map snd ws @ [LexEOF], at lx []) \<and>
    (\<forall>s. find_token s = map_of tokens s)"
proof -
  have v: "lex_values e (length ws) (at lx (words ws @ [SP])) = Inr (map snd ws, at lx [SP])"
    using values_words [OF ws lx(1,2), of e "[]"] by simp
  have "yylex e (at lx [SP]) = Inr (LexEOF, at lx [])"
    using skip_space [of lx "[]"] lx by (simp add: yylex_def yylex_restart.simps [of "at lx []"] include_finish_def)
  then have "lex_values e 1 (at lx [SP]) = Inr ([LexEOF], at lx [])" by simp
  with v show ?thesis by (simp only: lex_values_more rbind_simps prod.case find_token_search) simp
qed

definition sample_lexer :: lexer where
  "sample_lexer = \<lparr>lx_file = \<lparr>pf_f = [], pf_line = 1, pf_path = ''c''\<rparr>, lx_stack = [], lex_include = False, lex_ifdef = 0, lex_skip = False,
     lx_macros = [\<lparr>macro_name = ''$a'', macro_value = MACRO_NUMBER 1\<rparr>]\<rparr>"

definition sample_lex_env :: lex_env where
  "sample_lex_env = \<lparr>le_fopen = (\<lambda>_. None), le_fstat = (\<lambda>_. True), le_conf_file = [], le_strip = [], le_pwdir = (\<lambda>_. None), le_tags = sample_tags, le_home = []\<rparr>"

definition sample_words :: "(char list \<times> lexval) list" where
  "sample_words = [(''match'', LexTok ''TOKMATCH''), (''=='', LexTok ''TOKEQ''), (show_nat 30, LexNumber (int 30)), (DQ # lex_quote ''a$b'' @ [DQ], LexString ''a$b'')]"

lemma sample_words_ok: "\<forall>(w, v) \<in> set sample_words. lex_word w v"
proof -
  have "lex_word ''match'' (LexTok ''TOKMATCH'')" by (rule keyword) (simp add: tokens_def)
  moreover have "lex_word (show_nat 30) (LexNumber (int 30))" by (rule number) (simp add: LLONG_MAX_def)
  moreover have "lex_word (DQ # lex_quote ''a$b'' @ [DQ]) (LexString ''a$b'')" by (rule quoted) simp
  moreover note eq
  ultimately show ?thesis unfolding sample_words_def by (simp only: list.set ball_simps prod.case simp_thms)
qed

lemma lex_roundtrip_witness:
  "lex_values sample_lex_env 5 (at sample_lexer (words sample_words @ [SP])) =
     Inr ([LexTok ''TOKMATCH'', LexTok ''TOKEQ'', LexNumber 30, LexString ''a$b'', LexEOF], at sample_lexer [])"
proof -
  have "\<not> lex_skip sample_lexer" "\<not> lex_include sample_lexer" "lx_stack sample_lexer = []" "lex_ifdef sample_lexer = 0"
    by (simp_all add: sample_lexer_def)
  from conjunct1 [OF lex_roundtrip [OF sample_words_ok this]]
  have "lex_values sample_lex_env (length sample_words + 1) (at sample_lexer (words sample_words @ [SP])) =
    Inr (map snd sample_words @ [LexEOF], at sample_lexer [])" by blast
  moreover have "length sample_words + 1 = 5" "map snd sample_words = [LexTok ''TOKMATCH'', LexTok ''TOKEQ'', LexNumber 30, LexString ''a$b'']"
    by (simp_all add: sample_words_def)
  ultimately show ?thesis by (simp only: append_Cons append_Nil)
qed

lemma at_update [simp]:
  "(at lx f)\<lparr>lex_skip := b, lex_ifdef := n\<rparr> = at (lx\<lparr>lex_skip := b, lex_ifdef := n\<rparr>) f"
  "(at lx f)\<lparr>lex_ifdef := n, lex_skip := b\<rparr> = at (lx\<lparr>lex_ifdef := n, lex_skip := b\<rparr>) f"
  by (simp_all add: at_def)

lemma ifdef_step:
  assumes "macro_ok c cs" "r = SP # r'"
  shows "yylex_restart (at lx ('' ifdef $'' @ (c # cs) @ r)) =
     (let skip = lex_skip lx \<or> find_macro (lx_macros lx) (CHR ''$'' # c # cs) = None;
          lx' = at (lx\<lparr>lex_skip := skip, lex_ifdef := lex_ifdef lx + 1\<rparr>) r
      in if skip then yylex_restart lx' else Inr (LexNone, lx'))"
  using restart_ifdef [OF assms(1), of lx r'] assms(2) by (simp add: Let_def)

lemma endif_step:
  assumes "lex_ifdef lx = Suc n"
  shows "yylex_restart (at lx (SP # ''endif'' @ SP # r)) =
     (let lx' = at (lx\<lparr>lex_ifdef := n, lex_skip := lex_skip lx \<and> n \<noteq> 0\<rparr>) (SP # r)
      in if lex_skip lx \<and> n \<noteq> 0 then yylex_restart lx' else Inr (LexNone, lx'))"
  using restart_endif [OF assms, of r] by (simp add: Let_def)

definition section_text :: "char list \<Rightarrow> char list \<Rightarrow> char list" where
  "section_text name body = '' ifdef $'' @ name @ body @ SP # ''endif''"

lemma section_skipped:
  assumes "macro_ok b bs" "find_macro (lx_macros lx) (CHR ''$'' # b # bs) = None" "\<forall>(w, v) \<in> set ws. lex_word w v"
  shows "yylex_restart (at lx (section_text (b # bs) (words ws) @ SP # r)) =
     (let skip = lex_ifdef lx \<noteq> 0; lx' = at (lx\<lparr>lex_skip := skip\<rparr>) (SP # r) in if skip then yylex_restart lx' else Inr (LexNone, lx'))"
proof -
  let ?lx = "lx\<lparr>lex_skip := True, lex_ifdef := lex_ifdef lx + 1\<rparr>" and ?finish = "''endif'' @ SP # r"
  have "\<exists>q. words ws @ SP # ?finish = SP # q" by (cases ws) auto
  then obtain q where q: "words ws @ SP # ?finish = SP # q" by blast
  have "yylex_restart (at lx ('' ifdef $'' @ (b # bs) @ words ws @ SP # ?finish)) = yylex_restart (at ?lx (words ws @ SP # ?finish))"
    by (simp only: ifdef_step [OF assms(1) q] Let_def assms(2)) simp
  also have "\<dots> = yylex_restart (at ?lx (SP # ?finish))" by (rule skip_words [OF assms(3)]) simp
  also have "\<dots> = (let skip = lex_ifdef lx \<noteq> 0; lx' = at (lx\<lparr>lex_skip := skip\<rparr>) (SP # r) in if skip then yylex_restart lx' else Inr (LexNone, lx'))"
    by (subst endif_step [where n = "lex_ifdef lx"]) (simp_all add: Let_def)
  finally show ?thesis by (simp add: section_text_def)
qed

lemma section_read:
  assumes "macro_ok a as" "find_macro (lx_macros lx) (CHR ''$'' # a # as) \<noteq> None" "\<not> lex_skip lx" "\<not> lex_include lx" "r = SP # q"
  shows "yylex e (at lx ('' ifdef $'' @ (a # as) @ r)) = Inr (LexNone, at (lx\<lparr>lex_ifdef := lex_ifdef lx + 1\<rparr>) r)"
proof -
  have "lx\<lparr>lex_skip := False, lex_ifdef := n\<rparr> = lx\<lparr>lex_ifdef := n\<rparr>" for n
    using assms(3) by (cases lx) simp
  note same = this
  show ?thesis
    using ifdef_step [OF assms(1,5), of lx] assms(2,3,4) by (simp add: yylex_def Let_def same)
qed

lemma section_end:
  assumes "\<not> lex_skip lx" "\<not> lex_include lx" "lex_ifdef lx = 0"
  shows "yylex e (at (lx\<lparr>lex_ifdef := 1\<rparr>) (SP # ''endif'' @ SP # r)) = Inr (LexNone, at lx (SP # r))"
proof -
  have same: "lx\<lparr>lex_ifdef := 0, lex_skip := False\<rparr> = lx" using assms(1,3) by (cases lx) simp
  show ?thesis
    using endif_step [of "lx\<lparr>lex_ifdef := 1\<rparr>" 0 r] assms by (simp add: yylex_def Let_def same)
qed

text \<open>
  C31: sections under \<open>ifdef\<close> of a macro that exists are read and those of one that does not are skipped, at the outermost
  level. Inside a section that is read, one that is skipped takes with it what follows it up to the outermost \<open>endif\<close>,
  although blocks may be nested by the manual: only the outermost \<open>endif\<close> ends the skipping.
\<close>

theorem ifdef_sections:
  assumes lx: "\<not> lex_skip lx" "\<not> lex_include lx" "lex_ifdef lx = 0"
    and a: "macro_ok a as" "find_macro (lx_macros lx) (CHR ''$'' # a # as) \<noteq> None"
    and b: "macro_ok b bs" "find_macro (lx_macros lx) (CHR ''$'' # b # bs) = None"
    and ws: "\<forall>(w, v) \<in> set ws. lex_word w v" "\<forall>(w, v) \<in> set us. lex_word w v"
  shows "lex_values e (length ws + 2) (at lx (section_text (a # as) (words ws) @ SP # r)) = Inr (LexNone # map snd ws @ [LexNone], at lx (SP # r)) \<and>
    lex_values e 1 (at lx (section_text (b # bs) (words ws) @ SP # r)) = Inr ([LexNone], at lx (SP # r)) \<and>
    lex_values e 2 (at lx (section_text (a # as) (section_text (b # bs) (words ws) @ words us) @ SP # r)) = Inr ([LexNone, LexNone], at lx (SP # r))"
proof (intro conjI)
  let ?lx = "lx\<lparr>lex_ifdef := 1\<rparr>" and ?finish = "SP # ''endif'' @ SP # r"
  have same: "lx\<lparr>lex_skip := False\<rparr> = lx" "lx\<lparr>lex_skip := False, lex_ifdef := 0\<rparr> = lx" "lx\<lparr>lex_ifdef := 0, lex_skip := False\<rparr> = lx" using lx(1,3) by (cases lx; simp)+
  have sp: "\<exists>q. words vs @ SP # t = SP # q" for vs t by (cases vs) auto
  obtain q where q: "words ws @ ?finish = SP # q" using sp [of ws] by blast
  have 1: "yylex e (at lx (section_text (a # as) (words ws) @ SP # r)) = Inr (LexNone, at ?lx (words ws @ ?finish))"
    using section_read [OF a lx(1,2) q, of e] lx(3) by (simp add: section_text_def)
  have 2: "lex_values e (length ws) (at ?lx (words ws @ ?finish)) = Inr (map snd ws, at ?lx ?finish)"
    using lx by (intro values_words [OF ws(1)]) simp_all
  have 3: "lex_values e 1 (at ?lx ?finish) = Inr ([LexNone], at lx (SP # r))" using section_end [OF lx] by simp
  have "lex_values e (length ws + 1) (at ?lx (words ws @ ?finish)) = Inr (map snd ws @ [LexNone], at lx (SP # r))"
    unfolding lex_values_more 2 rbind_simps prod.case 3 by simp
  with 1 show "lex_values e (length ws + 2) (at lx (section_text (a # as) (words ws) @ SP # r)) = Inr (LexNone # map snd ws @ [LexNone], at lx (SP # r))"
    by (simp add: numeral_2_eq_2)
  show "lex_values e 1 (at lx (section_text (b # bs) (words ws) @ SP # r)) = Inr ([LexNone], at lx (SP # r))"
    using section_skipped [OF b ws(1), of r] lx same(1) by (simp add: yylex_def Let_def)
  let ?body = "section_text (b # bs) (words ws) @ words us"
  obtain q' where q': "?body @ ?finish = SP # q'" by (simp add: section_text_def)
  have 4: "yylex e (at lx (section_text (a # as) ?body @ SP # r)) = Inr (LexNone, at ?lx (?body @ ?finish))"
    using section_read [OF a lx(1,2) q', of e] lx(3) by (simp add: section_text_def)
  obtain u where u: "words us @ ?finish = SP # u" using sp [of us] by blast
  let ?sk = "?lx\<lparr>lex_skip := True\<rparr>"
  have "yylex_restart (at ?lx (?body @ ?finish)) = yylex_restart (at ?sk (SP # u))"
    using section_skipped [of b bs ?lx ws u] b ws(1) u by (simp add: Let_def)
  also have "\<dots> = yylex_restart (at ?sk ?finish)" unfolding u [symmetric] by (rule skip_words [OF ws(2)]) simp
  also have "\<dots> = Inr (LexNone, at lx (SP # r))"
    using endif_step [of ?sk 0 r] same by (simp add: Let_def)
  finally have "yylex e (at ?lx (?body @ ?finish)) = Inr (LexNone, at lx (SP # r))" using lx(2) by (simp add: yylex_def)
  with 4 show "lex_values e 2 (at lx (section_text (a # as) ?body @ SP # r)) = Inr ([LexNone, LexNone], at lx (SP # r))"
    by (simp add: numeral_2_eq_2)
qed

lemma ifdef_sections_witness:
  "lex_values sample_lex_env 2 (at sample_lexer (section_text ''a'' (section_text ''b'' [] @ words sample_words) @ SP # ''keep'')) =
     Inr ([LexNone, LexNone], at sample_lexer '' keep'')"
proof -
  have "\<not> lex_skip sample_lexer" "\<not> lex_include sample_lexer" "lex_ifdef sample_lexer = 0"
    "find_macro (lx_macros sample_lexer) ''$a'' \<noteq> None" "find_macro (lx_macros sample_lexer) ''$b'' = None"
    by (simp_all add: sample_lexer_def find_macro_def)
  moreover have "macro_ok (CHR ''a'') []" "macro_ok (CHR ''b'') []" by code_simp+
  ultimately show ?thesis
    using ifdef_sections [of sample_lexer "CHR ''a''" "[]" "CHR ''b''" "[]" "[]" sample_words sample_lex_env "''keep''"] sample_words_ok by simp
qed

end
