(* ===== verification/Netrc.thy ===== *)
theory Netrc imports Lex begin

text \<open>
  User names and passwords from \<^verbatim>\<open>.netrc\<close> (\<^verbatim>\<open>netrc.c\<close>) and what the parser does with them, with macros given on the command
  line and with the output of commands (\<^verbatim>\<open>parse-fn.c\<close>). An open file is what is still to be read.
\<close>

section \<open>Opening\<close>

record netrc_env =
  ne_stat :: "char list \<Rightarrow> nat option"
  ne_fopen :: "char list \<Rightarrow> char list option"

definition netrc_open :: "netrc_env \<Rightarrow> char list \<Rightarrow> char list option" where
  "netrc_open e home = (case ppath MAXPATHLEN (home @ ''/'' @ ''.netrc'') of
     Inl _ \<Rightarrow> None
   | Inr path \<Rightarrow> (case ne_stat e path of
       None \<Rightarrow> None
     | Some mode \<Rightarrow> if mode mod 8 div 2 \<noteq> 0 then None else ne_fopen e path))"

section \<open>Tokens\<close>

text \<open>The rest of a token that \<open>n\<close> bytes are stored of; \<open>None\<close> for an error. The buffer has \<open>BUFSIZ\<close> bytes.\<close>

definition TOKEN_SIZE :: nat where "TOKEN_SIZE = unat BUFSIZ"

fun quoted_token :: "nat \<Rightarrow> char list \<Rightarrow> (char list \<times> char list) option" where
  "quoted_token n [] = None"
| "quoted_token n (c # f) =
     (if c = DQ then Some ([], f)
      else if c = CHR 0x5C then (case f of
          [] \<Rightarrow> None
        | c # f \<Rightarrow> if n + 1 = TOKEN_SIZE then None else map_option (\<lambda>(t, f). (c # t, f)) (quoted_token (n + 1) f))
      else if n + 1 = TOKEN_SIZE then None else map_option (\<lambda>(t, f). (c # t, f)) (quoted_token (n + 1) f))"

fun plain_token :: "nat \<Rightarrow> char list \<Rightarrow> (char list \<times> char list) option" where
  "plain_token n [] = Some ([], [])"
| "plain_token n (c # f) =
     (if isspace c \<or> c = CHR '','' then Some ([], f)
      else if c = CHR 0x5C then (case f of
          [] \<Rightarrow> Some ([], [])
        | c # f \<Rightarrow> if n + 1 = TOKEN_SIZE then None else map_option (\<lambda>(t, f). (c # t, f)) (plain_token (n + 1) f))
      else if n + 1 = TOKEN_SIZE then None else map_option (\<lambda>(t, f). (c # t, f)) (plain_token (n + 1) f))"

text \<open>The end, an error or a token and the rest of the file. The first byte of a token without quotes is taken as it is.\<close>

datatype netrc_result = NetrcEnd | NetrcError | NetrcToken "char list" "char list"

definition netrc_token :: "char list \<Rightarrow> netrc_result" where
  "netrc_token f = (case dropWhile (\<lambda>c. isspace c \<or> c = CHR '','') f of
     [] \<Rightarrow> NetrcEnd
   | c # f \<Rightarrow>
       (case (if c = DQ then quoted_token 0 f else map_option (\<lambda>(t, f). (c # t, f)) (plain_token 1 f)) of
          None \<Rightarrow> NetrcError
        | Some (t, f) \<Rightarrow> NetrcToken (cstr t) f))"

lemma quoted_token_shrinks: "quoted_token n f = Some (t, f') \<Longrightarrow> length f' \<le> length f"
  by (induction n f arbitrary: t rule: quoted_token.induct) (fastforce split: if_splits list.splits)+

lemma plain_token_shrinks: "plain_token n f = Some (t, f') \<Longrightarrow> length f' \<le> length f"
  by (induction n f arbitrary: t rule: plain_token.induct) (fastforce split: if_splits list.splits)+

lemma netrc_token_shrinks:
  assumes "netrc_token f = NetrcToken t f'"
  shows "length f' < length f"
proof -
  obtain c g where g: "dropWhile (\<lambda>c. isspace c \<or> c = CHR '','') f = c # g"
    using assms by (auto simp: netrc_token_def split: list.splits)
  then have "length (c # g) \<le> length f" by (metis length_dropWhile_le)
  moreover have "length f' \<le> length g"
    using assms g quoted_token_shrinks [of 0 g] plain_token_shrinks [of 1 g]
    by (auto simp: netrc_token_def split: if_splits option.splits)
  ultimately show ?thesis by simp
qed

section \<open>Looking up a host\<close>

text \<open>Whether it worked, the user and the password. Before the host is found every token is taken for a keyword.\<close>

type_synonym netrc_login = "bool \<times> char list option \<times> char list option"

text \<open>The value after \<open>login\<close> or \<open>password\<close>.\<close>

definition netrc_value :: "char list \<Rightarrow> (char list \<times> char list) option" where
  "netrc_value f = (case netrc_token f of NetrcToken t f \<Rightarrow> if t = [] then None else Some (t, f) | _ \<Rightarrow> None)"

lemma netrc_value_shrinks: "netrc_value f = Some (t, f') \<Longrightarrow> length f' < length f"
  by (auto simp: netrc_value_def split: netrc_result.splits if_splits dest: netrc_token_shrinks)

text \<open>After \<open>login\<close> the value is the token that is compared with \<open>password\<close> next: there is one block for all tokens.\<close>

definition netrc_user :: "bool \<Rightarrow> char list \<Rightarrow> char list \<Rightarrow> char list option \<Rightarrow> (char list \<times> char list \<times> char list option) option" where
  "netrc_user want_user t f user =
     (if want_user \<and> t = ''login'' then map_option (\<lambda>(v, f). (v, f, Some v)) (netrc_value f) else Some (t, f, user))"

lemma netrc_user_shrinks: "netrc_user w t f user = Some (t', f', user') \<Longrightarrow> length f' \<le> length f"
  by (auto simp: netrc_user_def split: if_splits dest: netrc_value_shrinks)

function netrc_found :: "bool \<Rightarrow> bool \<Rightarrow> char list \<Rightarrow> char list option \<Rightarrow> char list option \<Rightarrow> netrc_login" where
  "netrc_found want_user want_pass f user pass = (case netrc_token f of
     NetrcEnd \<Rightarrow> (True, user, pass)
   | NetrcError \<Rightarrow> (False, user, pass)
   | NetrcToken t f \<Rightarrow>
       if t = ''machine'' \<or> t = ''default'' then (True, user, pass)
       else (case netrc_user want_user t f user of
         None \<Rightarrow> (False, user, pass)
       | Some (t, f, user) \<Rightarrow>
           if want_pass \<and> t = ''password'' then (case netrc_value f of
               None \<Rightarrow> (False, user, pass) | Some (v, f) \<Rightarrow> netrc_found want_user want_pass f user (Some v))
           else netrc_found want_user want_pass f user pass))"
  by pat_completeness auto
termination
  by (relation "measure (\<lambda>(wu, wp, f, u, p). length f)")
    (auto dest!: netrc_token_shrinks netrc_user_shrinks netrc_value_shrinks)

declare netrc_found.simps [simp del]

function netrc_search :: "char list \<Rightarrow> bool \<Rightarrow> bool \<Rightarrow> char list \<Rightarrow> netrc_login" where
  "netrc_search host want_user want_pass f = (case netrc_token f of
     NetrcEnd \<Rightarrow> (True, None, None)
   | NetrcError \<Rightarrow> (False, None, None)
   | NetrcToken t f \<Rightarrow>
       if t = ''machine'' then (case netrc_token f of
           NetrcToken t f \<Rightarrow> if t = host then netrc_found want_user want_pass f None None else netrc_search host want_user want_pass f
         | _ \<Rightarrow> (False, None, None))
       else if t = ''default'' then netrc_found want_user want_pass f None None
       else netrc_search host want_user want_pass f)"
  by pat_completeness auto
termination
  by (relation "measure (\<lambda>(h, wu, wp, f). length f)") (auto dest: netrc_token_shrinks less_trans [OF netrc_token_shrinks netrc_token_shrinks])

declare netrc_search.simps [simp del]

definition netrc_lookup :: "char list \<Rightarrow> char list \<Rightarrow> bool \<Rightarrow> bool \<Rightarrow> netrc_login" where
  "netrc_lookup f host want_user want_pass = netrc_search host want_user want_pass f"

text \<open>\<open>find_netrc1\<close>: \<open>None\<close> where it gives a cause.\<close>

definition find_netrc1 :: "netrc_env \<Rightarrow> char list \<Rightarrow> char list \<Rightarrow> bool \<Rightarrow> bool \<Rightarrow> (char list option \<times> char list option) option" where
  "find_netrc1 e home host want_user want_pass = (case netrc_open e home of
     None \<Rightarrow> None
   | Some f \<Rightarrow> (case netrc_lookup f host want_user want_pass of (ok, user, pass) \<Rightarrow>
       if \<not> ok \<or> want_user \<and> (user = None \<or> user = Some []) \<or> want_pass \<and> (pass = None \<or> pass = Some []) then None
       else Some (user, pass)))"

definition find_netrc :: "netrc_env \<Rightarrow> char list \<Rightarrow> char list \<Rightarrow> bool \<Rightarrow> bool \<Rightarrow> (char list option \<times> char list option) res" where
  "find_netrc e home host want_user want_pass = (case find_netrc1 e home host want_user want_pass of
     None \<Rightarrow> yyerror ''.netrc'' | Some r \<Rightarrow> Inr r)"

section \<open>Macros from the command line\<close>

text \<open>The name is cut to the field of the structure.\<close>

definition extract_macro :: "char list \<Rightarrow> macro res" where
  "extract_macro arg =
     (let s = takeWhile (\<lambda>c. c \<noteq> CHR ''='') arg;
          ptr = (case dropWhile (\<lambda>c. c \<noteq> CHR ''='') arg of [] \<Rightarrow> None | _ # v \<Rightarrow> Some v);
          name = take (MAXNAMESIZE - 1) s
      in if MAXNAMESIZE < length s then yyerror ''macro name too long''
         else case s of
           [] \<Rightarrow> yyerror ''invalid macro''
         | c # _ \<Rightarrow>
             if c = CHR ''$'' then Inr \<lparr>macro_name = name, macro_value = MACRO_STRING (case ptr of None \<Rightarrow> [] | Some v \<Rightarrow> v)\<rparr>
             else if c = CHR ''%'' then (case ptr of
                 None \<Rightarrow> Inr \<lparr>macro_name = name, macro_value = MACRO_NUMBER 0\<rparr>
               | Some v \<Rightarrow> (case strtonum v 0 LLONG_MAX of
                   Inl _ \<Rightarrow> yyerror ''number''
                 | Inr n \<Rightarrow> Inr \<lparr>macro_name = name, macro_value = MACRO_NUMBER n\<rparr>))
             else yyerror ''invalid macro'')"

section \<open>Lists of strings\<close>

text \<open>\<open>fmt_strings\<close>: the prefix and the strings in quotes, with the last byte cut off.\<close>

definition fmt_strings :: "char list \<Rightarrow> char list list \<Rightarrow> char list" where
  "fmt_strings prefix sp = butlast (prefix @ concat (map (\<lambda>s. DQ # s @ [DQ, SP]) sp))"

section \<open>Properties\<close>

definition netrc_quote :: "char list \<Rightarrow> char list" where
  "netrc_quote t = concat (map (\<lambda>c. if c = DQ \<or> c = CHR 0x5C then [CHR 0x5C, c] else [c]) t)"

definition netrc_login_text :: "char list \<Rightarrow> char list \<Rightarrow> char list \<Rightarrow> char list" where
  "netrc_login_text u p r = SP # ''login'' @ SP # DQ # netrc_quote u @ DQ # SP # ''password'' @ SP # DQ # netrc_quote p @ DQ # r"

fun netrc_text :: "(char list \<times> char list \<times> char list) list \<Rightarrow> char list" where
  "netrc_text [] = []"
| "netrc_text ((h, u, p) # es) = SP # ''machine'' @ SP # DQ # netrc_quote h @ DQ # netrc_login_text u p (netrc_text es)"

definition netrc_word :: "char list \<Rightarrow> bool" where
  "netrc_word t \<longleftrightarrow> NUL \<notin> set t \<and> length t < TOKEN_SIZE"

definition netrc_entry_ok :: "char list \<times> char list \<times> char list \<Rightarrow> bool" where
  "netrc_entry_ok e = (case e of (h, u, p) \<Rightarrow> netrc_word h \<and> netrc_word u \<and> netrc_word p \<and> u \<noteq> [] \<and> p \<noteq> [] \<and>
     u \<notin> {''machine'', ''default'', ''password''} \<and> p \<notin> {''machine'', ''default''})"

lemma quoted_token_quote: "n + length t < TOKEN_SIZE \<Longrightarrow> quoted_token n (netrc_quote t @ DQ # r) = Some (t, r)"
  by (induction t arbitrary: n) (auto simp: netrc_quote_def)

lemma netrc_token_quote: "netrc_word t \<Longrightarrow> netrc_token (DQ # netrc_quote t @ DQ # r) = NetrcToken t r"
proof -
  have sp: "\<not> isspace DQ" by code_simp
  assume "netrc_word t"
  with sp show ?thesis by (simp add: netrc_token_def quoted_token_quote netrc_word_def cstr_id is_cstr_def)
qed

lemma plain_token_word:
  "\<forall>c \<in> set t. \<not> isspace c \<and> c \<noteq> CHR '','' \<and> c \<noteq> CHR 0x5C \<Longrightarrow> n + length t < TOKEN_SIZE \<Longrightarrow> plain_token n (t @ SP # r) = Some (t, r)"
proof (induction t arbitrary: n)
  case Nil
  have "isspace SP" by code_simp
  then show ?case by simp
qed auto

definition keyword_ok :: "char list \<Rightarrow> bool" where
  "keyword_ok t \<longleftrightarrow> (case t of [] \<Rightarrow> False | c # cs \<Rightarrow> c \<noteq> DQ \<and> length cs < 9 \<and>
     list_all (\<lambda>c. \<not> isspace c \<and> c \<noteq> CHR '','' \<and> c \<noteq> CHR 0x5C \<and> c \<noteq> NUL) (c # cs))"

lemma netrc_token_plain:
  assumes "keyword_ok t"
  shows "netrc_token (SP # t @ SP # r) = NetrcToken t r"
proof -
  have sp: "isspace SP" by code_simp
  obtain c cs where t: "t = c # cs" "\<not> isspace c" "c \<noteq> CHR '',''" "c \<noteq> DQ" "c \<noteq> NUL"
    "\<forall>c \<in> set cs. \<not> isspace c \<and> c \<noteq> CHR '','' \<and> c \<noteq> CHR 0x5C" "NUL \<notin> set cs" "length cs < 9"
    using assms by (auto simp: keyword_ok_def list_all_iff split: list.splits)
  have "1 + length cs < TOKEN_SIZE" using t(8) by (simp add: TOKEN_SIZE_def BUFSIZ_def)
  then have "plain_token 1 (cs @ SP # r) = Some (cs, r)" using t(6) by (intro plain_token_word) auto
  with t sp show ?thesis by (simp add: netrc_token_def cstr_id is_cstr_def)
qed

lemma netrc_keywords:
  "netrc_token (SP # ''machine'' @ SP # r) = NetrcToken ''machine'' r"
  "netrc_token (SP # ''login'' @ SP # r) = NetrcToken ''login'' r"
  "netrc_token (SP # ''password'' @ SP # r) = NetrcToken ''password'' r"
proof -
  have "list_all keyword_ok [''machine'', ''login'', ''password'']" by code_simp
  then show "netrc_token (SP # ''machine'' @ SP # r) = NetrcToken ''machine'' r" "netrc_token (SP # ''login'' @ SP # r) = NetrcToken ''login'' r"
    "netrc_token (SP # ''password'' @ SP # r) = NetrcToken ''password'' r"
    by (simp_all only: list.pred_inject) (rule netrc_token_plain, blast)+
qed

lemma netrc_text_start: "netrc_token (netrc_text es) = NetrcEnd \<or> (\<exists>r. netrc_token (netrc_text es) = NetrcToken ''machine'' r)"
proof (cases es)
  case (Cons e es')
  then show ?thesis using netrc_keywords(1) [simplified] by (cases e) auto
qed (simp add: netrc_token_def)

text \<open>Going on behind a keyword with its value; the user is not compared with \<open>password\<close> when it is another word.\<close>

lemma netrc_found_pass:
  assumes "netrc_word p" "p \<noteq> []"
  shows "netrc_found wu True (SP # ''password'' @ SP # DQ # netrc_quote p @ DQ # r) user pass = netrc_found wu True r user (Some p)"
proof -
  have "netrc_value (DQ # netrc_quote p @ DQ # r) = Some (p, r)"
    using assms by (simp only: netrc_value_def netrc_token_quote netrc_result.case if_False)
  moreover have "netrc_user wu ''password'' f user = Some (''password'', f, user)" for f by (simp add: netrc_user_def)
  ultimately show ?thesis
    by (subst netrc_found.simps) (simp only: netrc_keywords netrc_result.case option.case prod.case list.inject char.inject simp_thms if_False if_True, simp?)
qed

lemma netrc_found_login:
  assumes "netrc_word u" "u \<noteq> []"
  shows "netrc_found True True (SP # ''login'' @ SP # DQ # netrc_quote u @ DQ # r) user pass =
    (if u = ''password'' then (case netrc_value r of None \<Rightarrow> (False, Some u, pass) | Some (v, f) \<Rightarrow> netrc_found True True f (Some u) (Some v))
     else netrc_found True True r (Some u) pass)"
proof -
  have "netrc_value (DQ # netrc_quote u @ DQ # r) = Some (u, r)"
    using assms by (simp only: netrc_value_def netrc_token_quote netrc_result.case if_False)
  then have "netrc_user True ''login'' (DQ # netrc_quote u @ DQ # r) user = Some (u, r, Some u)"
    by (simp add: netrc_user_def del: append.simps)
  then show ?thesis
    by (subst netrc_found.simps) (simp only: netrc_keywords netrc_result.case option.case prod.case list.inject char.inject simp_thms if_False if_True, simp?)
qed

lemma netrc_found_text:
  assumes "netrc_word u" "netrc_word p" "u \<noteq> []" "p \<noteq> []" "u \<noteq> ''password''"
  shows "netrc_found True True (netrc_login_text u p (netrc_text es)) None None = (True, Some u, Some p)"
proof -
  have "netrc_found True True (netrc_text es) (Some u) (Some p) = (True, Some u, Some p)"
    using netrc_text_start [of es] by (subst netrc_found.simps) auto
  then show ?thesis
    unfolding netrc_login_text_def netrc_found_login [OF assms(1,3)] netrc_found_pass [OF assms(2,4)] using assms(5) by simp
qed

lemma netrc_search_login:
  assumes "netrc_word u" "netrc_word p" "u \<notin> {''machine'', ''default''}" "p \<notin> {''machine'', ''default''}"
  shows "netrc_search host wu wp (netrc_login_text u p r) = netrc_search host wu wp r"
proof -
  have "netrc_search host wu wp (DQ # netrc_quote p @ DQ # r) = netrc_search host wu wp r"
    using assms(4) by (subst netrc_search.simps) (simp only: netrc_token_quote [OF assms(2)] netrc_result.case, simp?)
  then have "netrc_search host wu wp (SP # ''password'' @ SP # DQ # netrc_quote p @ DQ # r) = netrc_search host wu wp r"
    by (subst netrc_search.simps) (simp only: netrc_keywords netrc_result.case, simp?)
  then have "netrc_search host wu wp (DQ # netrc_quote u @ DQ # SP # ''password'' @ SP # DQ # netrc_quote p @ DQ # r) = netrc_search host wu wp r"
    using assms(3) by (subst netrc_search.simps) (simp only: netrc_token_quote [OF assms(1)] netrc_result.case, simp?)
  then show ?thesis unfolding netrc_login_text_def
    by (subst netrc_search.simps) (simp only: netrc_keywords netrc_result.case, simp?)
qed

lemma netrc_search_machine:
  assumes "netrc_word h"
  shows "netrc_search host wu wp (SP # ''machine'' @ SP # DQ # netrc_quote h @ DQ # r) =
    (if h = host then netrc_found wu wp r None None else netrc_search host wu wp r)"
  by (subst netrc_search.simps) (simp only: netrc_keywords netrc_token_quote [OF assms] netrc_result.case, simp?)

lemma netrc_search_text:
  "\<forall>e \<in> set es. netrc_entry_ok e \<Longrightarrow> netrc_search host True True (netrc_text es) =
     (case map_of es host of None \<Rightarrow> (True, None, None) | Some (u, p) \<Rightarrow> (True, Some u, Some p))"
proof (induction es)
  case Nil
  show ?case by (simp add: netrc_search.simps [of _ _ _ "[]"] netrc_token_def)
next
  case (Cons e es)
  obtain h u p where e: "e = (h, u, p)" by (cases e)
  have ok: "netrc_word h" "netrc_word u" "netrc_word p" "u \<noteq> []" "p \<noteq> []" "u \<noteq> ''password''" "u \<notin> {''machine'', ''default''}" "p \<notin> {''machine'', ''default''}"
    using Cons.prems e by (auto simp: netrc_entry_ok_def)
  show ?case
    unfolding e netrc_text.simps netrc_search_machine [OF ok(1)] netrc_found_text [OF ok(2-6)] netrc_search_login [OF ok(2,3,7,8)]
    using Cons by auto
qed

text \<open>
  C32: in a file of entries for machines the user and the password of the first entry for the host are found, with quotes and
  escapes undone. That needs entries whose values are no keywords where one is looked for: a user of another machine that is
  called \<open>default\<close> is taken for the entry of any host, and the password behind it is given out for the host that was asked for;
  and for a user that is called \<open>password\<close> the keyword behind it is given out as the password.
\<close>

theorem netrc_finds_entry:
  assumes "\<forall>e \<in> set es. netrc_entry_ok e" and h: "netrc_word h" "h \<noteq> host" and p: "netrc_word p" "p \<noteq> []" "p \<notin> {''login'', ''password''}"
  shows "netrc_lookup (netrc_text es) host True True =
      (case map_of es host of None \<Rightarrow> (True, None, None) | Some (u, p) \<Rightarrow> (True, Some u, Some p)) \<and>
    netrc_lookup (netrc_text [(h, ''default'', p)]) host False True = (True, None, Some p) \<and>
    netrc_lookup (netrc_text [(h, ''password'', p)]) h True True = (True, Some ''password'', Some ''password'')"
proof (intro conjI)
  show "netrc_lookup (netrc_text es) host True True =
      (case map_of es host of None \<Rightarrow> (True, None, None) | Some (u, p) \<Rightarrow> (True, Some u, Some p))"
    unfolding netrc_lookup_def by (rule netrc_search_text [OF assms(1)])
  let ?r = "SP # ''password'' @ SP # DQ # netrc_quote p @ DQ # []"
  have w: "netrc_word ''default''" "netrc_word ''password''" by (simp_all add: netrc_word_def TOKEN_SIZE_def BUFSIZ_def)
  have e: "netrc_found wu True [] u pw = (True, u, pw)" for wu u pw by (simp add: netrc_found.simps [of _ _ "[]"] netrc_token_def)
  then have "netrc_found False True ?r None None = (True, None, Some p)" unfolding netrc_found_pass [OF p(1,2)] .
  then have "netrc_search host False True (DQ # netrc_quote ''default'' @ DQ # ?r) = (True, None, Some p)"
    by (subst netrc_search.simps) (simp only: netrc_token_quote [OF w(1)] netrc_result.case, simp?)
  then have "netrc_search host False True (netrc_login_text ''default'' p []) = (True, None, Some p)"
    unfolding netrc_login_text_def by (subst netrc_search.simps) (simp only: netrc_keywords netrc_result.case, simp?)
  then show "netrc_lookup (netrc_text [(h, ''default'', p)]) host False True = (True, None, Some p)"
    unfolding netrc_lookup_def netrc_text.simps netrc_search_machine [OF h(1)] using h(2) by simp
  have v: "netrc_value ?r = Some (''password'', DQ # netrc_quote p @ DQ # [])"
    by (simp only: netrc_value_def netrc_keywords netrc_result.case, simp)
  have "netrc_found True True (DQ # netrc_quote p @ DQ # []) (Some ''password'') (Some ''password'') = (True, Some ''password'', Some ''password'')"
    using p(3) e by (subst netrc_found.simps) (simp only: netrc_token_quote [OF p(1)] netrc_result.case netrc_user_def, simp)
  then have "netrc_found True True (netrc_login_text ''password'' p []) None None = (True, Some ''password'', Some ''password'')"
    using netrc_found_login [OF w(2), of ?r None None] v unfolding netrc_login_text_def by (simp only: simp_thms if_True list.distinct option.case prod.case)
  then show "netrc_lookup (netrc_text [(h, ''password'', p)]) h True True = (True, Some ''password'', Some ''password'')"
    unfolding netrc_lookup_def netrc_text.simps netrc_search_machine [OF h(1)] by simp
qed

lemma netrc_finds_entry_witness:
  "netrc_lookup (netrc_text [(''a'', ''u'', ''p q''), (''b'', ''v'', [DQ])]) ''b'' True True = (True, Some ''v'', Some [DQ]) \<and>
   netrc_lookup (netrc_text [(''a'', ''default'', ''p'')]) ''b'' False True = (True, None, Some ''p'') \<and>
   netrc_lookup (netrc_text [(''a'', ''password'', ''p'')]) ''a'' True True = (True, Some ''password'', Some ''password'')"
proof -
  have "\<forall>e \<in> set [(''a'', ''u'', ''p q''), (''b'', ''v'', [DQ])]. netrc_entry_ok e" "netrc_word ''a''" "''a'' \<noteq> ''b''" "netrc_word ''p''"
    by (simp_all add: netrc_entry_ok_def netrc_word_def TOKEN_SIZE_def BUFSIZ_def)
  from netrc_finds_entry [OF this] show ?thesis by (simp del: netrc_text.simps)
qed

end
