(* ===== verification/Connect.thy ===== *)
theory Connect imports Command Lex begin

text \<open>
  Connections to servers (\<^verbatim>\<open>connect.c\<close>): addresses, proxies and certificates. What the resolver, the sockets and OpenSSL
  answer are arguments; an address is a value of the type \<open>'a\<close>.
\<close>

section \<open>Servers and proxies\<close>

record 'a server =
  srv_host :: "char list"
  srv_port :: "char list"
  srv_ai :: "'a list option"
  srv_ssl :: bool
  srv_tls1 :: bool
  srv_verify :: bool

datatype proxytype = PROXY_HTTP | PROXY_HTTPS | PROXY_SOCKS5

record 'a proxy =
  pr_type :: proxytype
  pr_user :: "char list option"
  pr_pass :: "char list option"
  pr_server :: "'a server"

definition proxylist :: "(char list \<times> proxytype \<times> bool \<times> char list) list" where
  "proxylist = [
    (''http://'', PROXY_HTTP, False, ''http''), (''https://'', PROXY_HTTPS, True, ''https''),
    (''socks://'', PROXY_SOCKS5, False, ''socks''), (''socks5://'', PROXY_SOCKS5, False, ''socks'')]"

text \<open>What is before a character and behind it, if it occurs: \<open>strchr\<close>.\<close>

definition split_at :: "char \<Rightarrow> char list \<Rightarrow> (char list \<times> char list) option" where
  "split_at c s = (if c \<in> set s then Some (takeWhile (\<lambda>x. x \<noteq> c) s, tl (dropWhile (\<lambda>x. x \<noteq> c) s)) else None)"

definition strip_slashes :: "char list \<Rightarrow> char list" where
  "strip_slashes s = rev (dropWhile (\<lambda>c. c = CHR ''/'') (rev s))"

text \<open>The user and the password before the host; a colon behind the \<open>@\<close> does not separate them.\<close>

definition proxy_login :: "char list \<Rightarrow> ((char list option \<times> char list option) \<times> char list) option" where
  "proxy_login url = (case split_at (CHR ''@'') url of
     None \<Rightarrow> Some ((None, None), url)
   | Some (login, url) \<Rightarrow> (case split_at (CHR '':'') login of
       None \<Rightarrow> None
     | Some (user, pass) \<Rightarrow> if user = [] \<or> pass = [] then None else Some ((Some user, Some pass), url)))"

definition getproxy :: "char list \<Rightarrow> 'a proxy option" where
  "getproxy xurl = (case List.find (\<lambda>(proto, _). take (length proto) xurl = proto) proxylist of
     None \<Rightarrow> None
   | Some (proto, type, ssl, port) \<Rightarrow>
       (let url = strip_slashes (drop (length proto) xurl) in
        if url = [] then None
        else case proxy_login url of
          None \<Rightarrow> None
        | Some ((user, pass), url) \<Rightarrow>
            (case (case split_at (CHR '':'') url of
                None \<Rightarrow> Some (url, port) | Some (host, port) \<Rightarrow> if port = [] then None else Some (host, port)) of
               None \<Rightarrow> None
             | Some (host, port) \<Rightarrow>
                 if host = [] then None
                 else Some \<lparr>pr_type = type, pr_user = user, pr_pass = pass,
                   pr_server = \<lparr>srv_host = host, srv_port = port, srv_ai = None, srv_ssl = ssl, srv_tls1 = False, srv_verify = False\<rparr>\<rparr>)))"

section \<open>Names and addresses\<close>

record 'a conn_env =
  ce_address :: "char list \<Rightarrow> 'a option"
  ce_name :: "'a \<Rightarrow> char list option"
  ce_numeric :: "'a \<Rightarrow> char list option"
  ce_getaddrinfo :: "char list \<Rightarrow> char list \<Rightarrow> char list + 'a list"
  ce_getservbyname :: "char list \<Rightarrow> nat option"
  ce_fnmatch :: "char list \<Rightarrow> char list \<Rightarrow> bool"
  ce_setitimer :: "nat \<Rightarrow> bool"

text \<open>The name and the number of the first address of a host.\<close>

definition getaddrs :: "'a conn_env \<Rightarrow> char list \<Rightarrow> char list option \<times> char list option" where
  "getaddrs e host = (case ce_address e host of
     None \<Rightarrow> (None, None) | Some ai \<Rightarrow> (ce_name e ai, ce_numeric e ai))"

definition getport :: "'a conn_env \<Rightarrow> char list \<Rightarrow> nat option" where
  "getport e port = (case ce_getservbyname e port of
     Some n \<Rightarrow> Some n
   | None \<Rightarrow> (case strtonum port 1 65535 of Inl _ \<Rightarrow> None | Inr n \<Rightarrow> Some (nat n)))"

section \<open>Certificates\<close>

text \<open>
  The answer of the verification (\<open>None\<close> is \<open>X509_V_OK\<close>), the subject as one line and the alternative names: \<open>None\<close> for one
  that is no DNS name or does not convert.
\<close>

record cert =
  x509_verify :: "char list option"
  x509_subject :: "char list"
  x509_alt_names :: "char list option list option"

definition host_matches :: "'a conn_env \<Rightarrow> char list \<Rightarrow> char list option \<Rightarrow> char list \<Rightarrow> bool" where
  "host_matches e host fqdn name \<longleftrightarrow>
     ce_fnmatch e name host \<or> (case fqdn of None \<Rightarrow> False | Some f \<Rightarrow> ce_fnmatch e name f)"

definition check_alt_names :: "'a conn_env \<Rightarrow> char list \<Rightarrow> char list option \<Rightarrow> cert \<Rightarrow> bool" where
  "check_alt_names e host fqdn x509 = (case x509_alt_names x509 of
     None \<Rightarrow> False
   | Some ans \<Rightarrow> List.find (\<lambda>p. case p of None \<Rightarrow> False | Some name \<Rightarrow> name \<noteq> [] \<and> host_matches e host fqdn (cstr name)) (rev ans) \<noteq> None)"

text \<open>What follows the first \<open>/CN=\<close>.\<close>

fun after_cn :: "char list \<Rightarrow> char list option" where
  "after_cn [] = None"
| "after_cn (c # s) = (if take 4 (c # s) = ''/CN='' then Some (drop 3 s) else after_cn s)"

lemma after_cn_shorter: "after_cn s = Some t \<Longrightarrow> length t < length s"
  by (induction s) (auto split: if_splits)

text \<open>The test of one name. The bracket of the second \<open>fnmatch\<close> is in the wrong place: without a name of the host it is true.\<close>

definition cn_matches :: "'a conn_env \<Rightarrow> char list \<Rightarrow> char list option \<Rightarrow> char list \<Rightarrow> bool" where
  "cn_matches e host fqdn cn \<longleftrightarrow>
     ce_fnmatch e cn host \<or> (case fqdn of None \<Rightarrow> True | Some f \<Rightarrow> ce_fnmatch e cn f)"

function cn_loop :: "(char list \<Rightarrow> bool) \<Rightarrow> char list \<Rightarrow> bool" where
  "cn_loop ok ptr =
     (if ok (takeWhile (\<lambda>c. c \<noteq> CHR ''/'') ptr) then True
      else case after_cn ptr of None \<Rightarrow> False | Some ptr \<Rightarrow> cn_loop ok ptr)"
  by pat_completeness auto
termination
  by (relation "measure (\<lambda>(ok, ptr). length ptr)") (auto dest: after_cn_shorter)

declare cn_loop.simps [simp del]

text \<open>\<open>None\<close> for a valid certificate, else the cause.\<close>

definition sslverify :: "'a conn_env \<Rightarrow> 'a server \<Rightarrow> cert option \<Rightarrow> char list option" where
  "sslverify e srv x509 =
     (let failed = (\<lambda>s. Some (''certificate verification failed: '' @ s)) in
      case x509 of
        None \<Rightarrow> failed ''no certificate''
      | Some x \<Rightarrow> (case x509_verify x of
          Some s \<Rightarrow> failed s
        | None \<Rightarrow> (case after_cn (x509_subject x) of
            None \<Rightarrow> failed ''CN missing''
          | Some ptr \<Rightarrow>
              (let fqdn = fst (getaddrs e (srv_host srv)) in
               if cn_loop (cn_matches e (srv_host srv) fqdn) ptr \<or> check_alt_names e (srv_host srv) fqdn x then None
               else failed ''no matching CN''))))"

section \<open>Proxies\<close>

text \<open>How a request to a proxy ends: done, with a cause of its own, or with that of the io.\<close>

datatype proxy_result = ProxyDone | ProxyFailed "char list" | ProxyIo

definition schar :: "char \<Rightarrow> int" where
  "schar c = (if code c < 128 then int (code c) else int (code c) - 256)"

text \<open>
  An answer of a SOCKS proxy: \<open>io_wait\<close> and \<open>io_read2\<close> into the buffer of 1024 bytes, which keeps what was in it behind them.
\<close>

definition socks_read :: "io \<Rightarrow> size_t \<Rightarrow> int \<Rightarrow> Io.poll_answer list \<Rightarrow> char list \<Rightarrow>
    (char list option \<times> io \<times> Io.poll_answer list) res" where
  "socks_read i len timeout answers buf = rbind (io_wait i len timeout answers) (\<lambda>(n, i, answers).
     if n \<noteq> 0 then Inr (None, i, answers)
     else if 1024 < unat len then Inl (MemErr ''buf'')
     else rbind (io_read2 i len) (\<lambda>(n, d, i). Inr (Some (d @ drop (length d) buf), i, answers)))"

text \<open>Every answer starts with the version.\<close>

definition socks_answer :: "io \<Rightarrow> size_t \<Rightarrow> int \<Rightarrow> Io.poll_answer list \<Rightarrow> char list \<Rightarrow>
    (char list \<Rightarrow> io \<Rightarrow> Io.poll_answer list \<Rightarrow> (proxy_result \<times> io \<times> Io.poll_answer list) res) \<Rightarrow>
    (proxy_result \<times> io \<times> Io.poll_answer list) res" where
  "socks_answer i len timeout answers buf k = rbind (socks_read i len timeout answers buf) (\<lambda>(r, i, answers). case r of
     None \<Rightarrow> Inr (ProxyIo, i, answers)
   | Some buf \<Rightarrow>
       if schar (buf ! 0) \<noteq> 5 then Inr (ProxyFailed (''bad protocol version: '' @ show_int (schar (buf ! 0))), i, answers)
       else k buf i answers)"

text \<open>The first bytes of the dialogue; the fourth is set in any case.\<close>

definition socks_hello :: "bool \<Rightarrow> char list" where
  "socks_hello auth = map char_of [5, if auth then 2 else 1, 0, 2 :: nat]"

text \<open>The user and the password.\<close>

definition socks_login :: "char list \<Rightarrow> char list \<Rightarrow> char list + char list" where
  "socks_login user pass =
     (if 255 < length user then Inl ''user too long''
      else if 255 < length pass then Inl ''pass too long''
      else Inr (char_of (5 :: nat) # char_of (length user) # user @ char_of (length pass) # pass))"

definition socks_auth :: "char list \<Rightarrow> char list \<Rightarrow> io \<Rightarrow> int \<Rightarrow> Io.poll_answer list \<Rightarrow>
    (char list \<Rightarrow> io \<Rightarrow> Io.poll_answer list \<Rightarrow> (proxy_result \<times> io \<times> Io.poll_answer list) res) \<Rightarrow>
    (proxy_result \<times> io \<times> Io.poll_answer list) res" where
  "socks_auth user pass i timeout answers k = (case socks_login user pass of
     Inl cause \<Rightarrow> Inr (ProxyFailed cause, i, answers)
   | Inr buf \<Rightarrow> rbind (io_write i buf) (\<lambda>i.
       socks_answer i 2 timeout answers buf (\<lambda>buf i answers.
         if schar (buf ! 1) \<noteq> 0 then Inr (ProxyFailed ''authentication failed'', i, answers) else k buf i answers)))"

definition socks_connect :: "char list \<Rightarrow> nat \<Rightarrow> char list" where
  "socks_connect host port =
     map char_of [5, 1, 0, 3 :: nat] @ char_of (length host) # host @ [char_of (port div 256 mod 256), char_of (port mod 256)]"

definition socks_cause :: "int \<Rightarrow> char list" where
  "socks_cause n = show_int n @
     (if n = 1 then '': server failure'' else if n = 2 then '': connection not permitted'' else if n = 3 then '': network unreachable''
      else if n = 4 then '': host unreachable'' else if n = 5 then '': connection refused'' else if n = 6 then '': TTL expired''
      else if n = 7 then '': command not supported'' else if n = 8 then '': address type not supported'' else '': unknown failure'')"

text \<open>How much is left behind the first five bytes. A length of more than 127 is negative.\<close>

definition socks_rest :: "char list \<Rightarrow> size_t option" where
  "socks_rest buf =
     (let t = schar (buf ! 3) in
      if t = 1 then Some 5 else if t = 3 then Some 17 else if t = 4 then Some (word_of_int (schar (buf ! 4) + 2)) else None)"

definition socks_response :: "int \<Rightarrow> char list \<Rightarrow> io \<Rightarrow> Io.poll_answer list \<Rightarrow> (proxy_result \<times> io \<times> Io.poll_answer list) res" where
  "socks_response timeout buf i answers =
     (if schar (buf ! 1) \<noteq> 0 then Inr (ProxyFailed (socks_cause (schar (buf ! 1))), i, answers)
      else case socks_rest buf of
        None \<Rightarrow> Inr (ProxyFailed (''unknown address type: '' @ show_int (schar (buf ! 3))), i, answers)
      | Some len \<Rightarrow> rbind (socks_read i len timeout answers buf) (\<lambda>(r, i, answers).
          Inr (if r = None then ProxyIo else ProxyDone, i, answers)))"

definition socks_request :: "char list \<Rightarrow> nat \<Rightarrow> int \<Rightarrow> char list \<Rightarrow> io \<Rightarrow> Io.poll_answer list \<Rightarrow>
    (proxy_result \<times> io \<times> Io.poll_answer list) res" where
  "socks_request host port timeout buf i answers =
     (if 255 < length host then Inr (ProxyFailed ''host too long'', i, answers)
      else rbind (io_write i (socks_connect host port)) (\<lambda>i.
        socks_answer i 5 timeout answers (socks_connect host port @ drop (length (socks_connect host port)) buf) (socks_response timeout)))"

text \<open>The method the server chose: none or user and password, which must have been offered.\<close>

definition socks_method :: "'a server \<Rightarrow> 'a proxy \<Rightarrow> nat \<Rightarrow> int \<Rightarrow> char list \<Rightarrow> io \<Rightarrow> Io.poll_answer list \<Rightarrow>
    (proxy_result \<times> io \<times> Io.poll_answer list) res" where
  "socks_method srv pr port timeout buf i answers =
     (let method = schar (buf ! 1); auth = pr_user pr \<noteq> None \<and> pr_pass pr \<noteq> None in
      if method \<noteq> 0 \<and> method \<noteq> 2 \<or> \<not> auth \<and> method = 2 then
        Inr (ProxyFailed (''unexpected method: '' @ show_int method), i, answers)
      else if method = 2 then
        socks_auth (the (pr_user pr)) (the (pr_pass pr)) i timeout answers (socks_request (srv_host srv) port timeout)
      else socks_request (srv_host srv) port timeout buf i answers)"

definition socks5proxy :: "'a conn_env \<Rightarrow> 'a server \<Rightarrow> 'a proxy \<Rightarrow> io \<Rightarrow> int \<Rightarrow> Io.poll_answer list \<Rightarrow>
    (proxy_result \<times> io \<times> Io.poll_answer list) res" where
  "socks5proxy e srv pr i timeout answers = (case getport e (srv_port srv) of
     None \<Rightarrow> Inr (ProxyFailed (''bad port: '' @ srv_port srv), i, answers)
   | Some port \<Rightarrow>
       (let auth = pr_user pr \<noteq> None \<and> pr_pass pr \<noteq> None; buf = socks_hello auth in
        rbind (io_write i (take (if auth then 4 else 3) buf)) (\<lambda>i.
        socks_answer i 2 timeout answers buf (socks_method srv pr port timeout))))"

text \<open>
  The header of the answer of an HTTP proxy is read to its empty line. A first line that is not the one expected is freed before
  it is put into the cause.
\<close>

fun http_header :: "io \<Rightarrow> int \<Rightarrow> nat \<Rightarrow> bool \<Rightarrow> Io.poll_answer list \<Rightarrow> (proxy_result \<times> io \<times> Io.poll_answer list) res" where
  "http_header i timeout 0 header answers = Inl (Diverges ''httpproxy'')"
| "http_header i timeout (Suc k) header answers = rbind (io_pollline i timeout answers) (\<lambda>(r, line, i, answers). case line of
     None \<Rightarrow> Inr (ProxyIo, i, answers)
   | Some line \<Rightarrow>
       (let l = cstr line in
        if fst r \<noteq> 1 then Inr (ProxyIo, i, answers)
        else if \<not> header then
          (if length l < 12 \<or> take 5 l \<noteq> ''HTTP/'' \<or> take 4 (drop 8 l) \<noteq> '' 200'' then Inl (MemErr ''line'')
           else http_header i timeout k True answers)
        else if l = [] then Inr (ProxyDone, i, answers)
        else http_header i timeout k True answers))"

definition http_connect :: "char list \<Rightarrow> nat \<Rightarrow> char list" where
  "http_connect host port = ''CONNECT '' @ host @ '':'' @ show_nat port @ '' HTTP/1.1''"

definition httpproxy :: "'a conn_env \<Rightarrow> 'a server \<Rightarrow> 'a proxy \<Rightarrow> io \<Rightarrow> int \<Rightarrow> nat \<Rightarrow> Io.poll_answer list \<Rightarrow>
    (proxy_result \<times> io \<times> Io.poll_answer list) res" where
  "httpproxy e srv pr i timeout fuel answers =
     (if pr_user pr \<noteq> None \<or> pr_pass pr \<noteq> None then
        Inr (ProxyFailed ''HTTP proxy authentication is not supported'', i, answers)
      else case getport e (srv_port srv) of
        None \<Rightarrow> Inr (ProxyFailed (''bad port: '' @ srv_port srv), i, answers)
      | Some port \<Rightarrow>
          rbind (io_writeline i (Some (http_connect (srv_host srv) port))) (\<lambda>i.
          rbind (io_writeline i None) (\<lambda>i.
            http_header i timeout fuel False answers)))"

section \<open>Connecting\<close>

text \<open>
  Causes of errors of OpenSSL: \<open>err\<close> is the text of its queue of errors, \<open>errno\<close> the text or, where the code sets it, the name
  of the error of the system.
\<close>

definition sslerror :: "char list \<Rightarrow> char list \<Rightarrow> char list" where
  "sslerror err fn = fn @ '': '' @ err"

datatype ssl_error = SSL_ERROR_ZERO_RETURN | SSL_ERROR_SYSCALL | SSL_ERROR_WANT_CONNECT | SSL_ERROR_WANT_ACCEPT
  | SSL_ERROR_WANT_READ | SSL_ERROR_WANT_WRITE | SSL_ERROR int

definition sslerror2 :: "char list \<Rightarrow> char list \<Rightarrow> ssl_error \<Rightarrow> char list \<Rightarrow> char list" where
  "sslerror2 errno err n fn = fn @ (case n of
     SSL_ERROR_ZERO_RETURN \<Rightarrow> '': '' @ ''ECONNRESET''
   | SSL_ERROR_SYSCALL \<Rightarrow> '': '' @ errno
   | SSL_ERROR_WANT_CONNECT \<Rightarrow> '': timed out or need connect''
   | SSL_ERROR_WANT_ACCEPT \<Rightarrow> '': timed out or need accept''
   | SSL_ERROR_WANT_READ \<Rightarrow> '': timed out or need read''
   | SSL_ERROR_WANT_WRITE \<Rightarrow> '': timed out or need write''
   | SSL_ERROR k \<Rightarrow> '': '' @ show_int k @ '': '' @ err)"

text \<open>
  What OpenSSL answers for a connection. \<open>tls_fcntl\<close> says which of the three calls of \<open>fcntl\<close> succeed; the result of the
  connection is \<open>None\<close> when it is made, else whether the timer had expired and the error.
\<close>

record tls =
  tls_new :: bool
  tls_set_fd :: bool
  tls_err :: "char list"
  tls_errno :: "char list"
  tls_fcntl :: "bool \<times> bool \<times> bool"
  tls_connect :: "(bool \<times> ssl_error) option"
  tls_cert :: "cert option"

text \<open>\<open>None\<close> for a connection, else the cause.\<close>

definition makessl :: "'a conn_env \<Rightarrow> tls \<Rightarrow> 'a server \<Rightarrow> bool \<Rightarrow> nat \<Rightarrow> char list option res" where
  "makessl e t srv verify timeout =
     (if \<not> tls_new t then Inr (Some (sslerror (tls_err t) ''SSL_new''))
      else if \<not> tls_set_fd t then Inr (Some (sslerror (tls_err t) ''SSL_set_fd''))
      else case tls_fcntl t of (get, block, reset) \<Rightarrow>
        if \<not> get \<or> \<not> block then Inl (FatalX ''fcntl failed'')
        else rbind (timer_set (ce_setitimer e) (timeout div 1000)) (\<lambda>_. case tls_connect t of
          Some (expired, n) \<Rightarrow>
            Inr (Some (if expired then ''SSL_connect: ETIMEDOUT'' else sslerror2 (tls_errno t) (tls_err t) n ''SSL_connect''))
        | None \<Rightarrow>
            if \<not> reset then Inl (FatalX ''fcntl failed'')
            else Inr (if verify then sslverify e srv (tls_cert t) else None)))"

text \<open>The results of \<open>socket\<close> and \<open>connect\<close> for one try.\<close>

datatype attempt = SocketFailed "char list" | ConnectFailed "char list" | ConnectInterrupted | Connected

text \<open>\<open>None\<close> for a connection, else the call that failed last and why.\<close>

fun connect_loop :: "'a list \<Rightarrow> attempt list \<Rightarrow> char list \<Rightarrow> (char list option \<times> attempt list) res" where
  "connect_loop [] ts why = Inr (Some why, ts)"
| "connect_loop (ai # ais) [] why = Inl (Diverges ''connect'')"
| "connect_loop (ai # ais) (SocketFailed s # ts) why = connect_loop ais ts (''socket: '' @ s)"
| "connect_loop (ai # ais) (ConnectFailed s # ts) why = connect_loop ais ts (''connect: '' @ s)"
| "connect_loop (ai # ais) (ConnectInterrupted # ts) why = connect_loop (ai # ais) ts why"
| "connect_loop (ai # ais) (Connected # ts) why = Inr (None, ts)"

record conn_sys =
  cs_attempts :: "attempt list"
  cs_in :: "sock list"
  cs_out :: "wsock list"
  cs_tls :: "tls list"

text \<open>A connection or the cause, the server with its addresses, and what of the system is left.\<close>

definition with_tls :: "'a conn_env \<Rightarrow> conn_sys \<Rightarrow> 'a server \<Rightarrow> bool \<Rightarrow> nat \<Rightarrow> (char list option \<times> conn_sys) res" where
  "with_tls e sys srv verify timeout = (case cs_tls sys of
     [] \<Rightarrow> Inl (Diverges ''SSL_connect'')
   | t # ts \<Rightarrow> rbind (makessl e t srv (verify \<and> srv_verify srv) timeout) (\<lambda>r. Inr (r, sys\<lparr>cs_tls := ts\<rparr>)))"

definition connectio :: "'a conn_env \<Rightarrow> conn_sys \<Rightarrow> 'a server \<Rightarrow> bool \<Rightarrow> char list \<Rightarrow> nat \<Rightarrow>
    ((char list + io) \<times> 'a server \<times> conn_sys) res" where
  "connectio e sys srv verify eol timeout =
     (case (case srv_ai srv of Some ai \<Rightarrow> Inr ai | None \<Rightarrow> ce_getaddrinfo e (srv_host srv) (srv_port srv)) of
        Inl cause \<Rightarrow> Inr (Inl cause, srv, sys)
      | Inr ais \<Rightarrow>
          (let srv = srv\<lparr>srv_ai := Some ais\<rparr> in
           rbind (connect_loop ais (cs_attempts sys) ''(null)'') (\<lambda>(r, ts).
           let sys = sys\<lparr>cs_attempts := ts\<rparr> in
           case r of
             Some cause \<Rightarrow> Inr (Inl cause, srv, sys)
           | None \<Rightarrow>
               rbind (if srv_ssl srv then with_tls e sys srv verify timeout else Inr (None, sys)) (\<lambda>(r, sys). case r of
                 Some cause \<Rightarrow> Inr (Inl cause, srv, sys)
               | None \<Rightarrow> rbind (io_create (srv_ssl srv) (cs_in sys) (cs_out sys) eol) (\<lambda>i. Inr (Inr i, srv, sys))))))"

text \<open>Through a proxy, if there is one. The lines of a proxy end in CRLF. An HTTP proxy over TLS is not known here.\<close>

definition connectproxy :: "'a conn_env \<Rightarrow> conn_sys \<Rightarrow> 'a server \<Rightarrow> bool \<Rightarrow> 'a proxy option \<Rightarrow> char list \<Rightarrow> nat \<Rightarrow> nat \<Rightarrow>
    Io.poll_answer list \<Rightarrow> (proxy_result + io) res" where
  "connectproxy e sys srv verify pr eol timeout fuel answers = (case pr of
     None \<Rightarrow> rbind (connectio e sys srv verify eol timeout) (\<lambda>(r, srv, sys). Inr (map_sum ProxyFailed id r))
   | Some pr \<Rightarrow> rbind (connectio e sys (pr_server pr) verify [CR, NL] timeout) (\<lambda>(r, psrv, sys). case r of
       Inl cause \<Rightarrow> Inr (Inl (ProxyFailed cause))
     | Inr i \<Rightarrow>
         (let pr = pr\<lparr>pr_server := psrv\<rparr> in
          rbind (case pr_type pr of
              PROXY_HTTP \<Rightarrow> httpproxy e srv pr i (int timeout) fuel answers
            | PROXY_SOCKS5 \<Rightarrow> socks5proxy e srv pr i (int timeout) answers
            | PROXY_HTTPS \<Rightarrow> Inl (FatalX ''unknown proxy type'')) (\<lambda>(p, i, answers).
          if p \<noteq> ProxyDone then Inr (Inl p)
          else rbind (if srv_ssl srv then with_tls e sys srv verify timeout else Inr (None, sys)) (\<lambda>(r, sys). case r of
                Some cause \<Rightarrow> Inr (Inl (ProxyFailed cause))
              | None \<Rightarrow> Inr (Inr (i\<lparr>io_ssl := io_ssl i \<or> srv_ssl srv, io_eol := eol\<rparr>)))))))"

end
