(* ===== verification/Connect_Correct.thy ===== *)
theory Connect_Correct imports Connect Io_Wire begin

text \<open>
  What is accepted as a certificate of a server, which texts describe proxies, and what a SOCKS proxy is sent.
\<close>

section \<open>Certificates\<close>

text \<open>The line OpenSSL writes for a subject.\<close>

definition subject_line :: "(char list \<times> char list) list \<Rightarrow> char list" where
  "subject_line fds = concat (map (\<lambda>(k, v). CHR ''/'' # k @ CHR ''='' # v) fds)"

definition subject_ok :: "(char list \<times> char list) list \<Rightarrow> bool" where
  "subject_ok fds \<longleftrightarrow> (\<forall>(k, v) \<in> set fds. CHR ''/'' \<notin> set k \<and> CHR ''='' \<notin> set k \<and> CHR ''/'' \<notin> set v)"

lemma subject_simps [simp]:
  "subject_line [] = []" "subject_line ((k, v) # fs) = CHR ''/'' # k @ CHR ''='' # v @ subject_line fs"
  "subject_ok []" "subject_ok ((k, v) # fs) \<longleftrightarrow> CHR ''/'' \<notin> set k \<and> CHR ''='' \<notin> set k \<and> CHR ''/'' \<notin> set v \<and> subject_ok fs"
  by (auto simp: subject_line_def subject_ok_def)

lemma after_cn_skip: "CHR ''/'' \<notin> set s \<Longrightarrow> after_cn (s @ r) = after_cn r"
  by (induction s) auto

lemma cn_start:
  assumes "CHR ''='' \<notin> set k"
  shows "take 3 (k @ CHR ''='' # r) = ''CN='' \<longleftrightarrow> k = ''CN''"
proof -
  consider "k = []" | a where "k = [a]" | a b where "k = [a, b]" | a b c k' where "k = a # b # c # k'"
    by (metis neq_Nil_conv)
  then show ?thesis using assms by cases auto
qed

lemma after_cn_field:
  assumes "subject_ok ((k, v) # fs)"
  shows "after_cn (subject_line ((k, v) # fs)) = (if k = ''CN'' then Some (v @ subject_line fs) else after_cn (subject_line fs))"
proof (cases "k = ''CN''")
  case False
  have "take 4 (subject_line ((k, v) # fs)) \<noteq> ''/CN=''"
    using cn_start [of k "v @ subject_line fs"] assms False by (simp add: numeral_eq_Suc)
  then have "after_cn (subject_line ((k, v) # fs)) = after_cn ((k @ CHR ''='' # v) @ subject_line fs)" by simp
  also have "\<dots> = after_cn (subject_line fs)" by (rule after_cn_skip) (use assms in simp)
  finally show ?thesis using False by simp
qed simp

lemma subject_value: "CHR ''/'' \<notin> set v \<Longrightarrow> takeWhile (\<lambda>c. c \<noteq> CHR ''/'') (v @ subject_line fs) = v"
  by (cases fs) (auto simp: takeWhile_append2 takeWhile_tail)

text \<open>The search of \<open>sslverify\<close> over the fields, from a value or from the start.\<close>

lemma after_cn_subject:
  "subject_ok fs \<Longrightarrow> (case after_cn (subject_line fs) of None \<Rightarrow> False | Some p \<Rightarrow> cn_loop ok p) \<longleftrightarrow> (\<exists>cn. (''CN'', cn) \<in> set fs \<and> ok cn)"
proof (induction fs)
  case (Cons f fs)
  obtain k v where f: "f = (k, v)" by (cases f)
  have ok: "subject_ok fs" "CHR ''/'' \<notin> set v" using Cons.prems f by auto
  show ?case
  proof (cases "k = ''CN''")
    case True
    have skip: "after_cn (v @ subject_line fs) = after_cn (subject_line fs)" using ok by (intro after_cn_skip)
    have "cn_loop ok (v @ subject_line fs) \<longleftrightarrow> ok v \<or> (\<exists>cn. (''CN'', cn) \<in> set fs \<and> ok cn)"
      using Cons.IH ok by (subst cn_loop.simps) (simp add: subject_value skip)
    then show ?thesis using after_cn_field [of k v fs] Cons.prems f True by auto
  next
    case False
    then show ?thesis using after_cn_field [of k v fs] Cons.prems Cons.IH f ok by auto
  qed
qed simp

lemma after_cn_missing: "subject_ok fs \<Longrightarrow> after_cn (subject_line fs) = None \<longleftrightarrow> (\<nexists>cn. (''CN'', cn) \<in> set fs)"
  using after_cn_subject [of fs "\<lambda>_. True"] by (auto simp: cn_loop.simps split: option.splits)

text \<open>
  C14: for a subject whose fields have no slash in them, a certificate is accepted exactly when its chain is valid, the subject
  has a common name, and one of these holds: a common name matches the host or its full name, an alternative name does, or the
  resolver gives no full name for the address of the host. So an alternative name is of no use without some common name; and
  because of a bracket in the wrong place every valid certificate with a common name passes for a host without a full name.
\<close>

theorem sslverify_accepts:
  assumes "x509_subject x = subject_line fds" "subject_ok fds"
  shows "sslverify e srv (Some x) = None \<longleftrightarrow>
    x509_verify x = None \<and> (\<exists>cn. (''CN'', cn) \<in> set fds) \<and>
    (let fqdn = fst (getaddrs e (srv_host srv)) in
      fqdn = None \<or> (\<exists>cn. (''CN'', cn) \<in> set fds \<and> host_matches e (srv_host srv) fqdn cn) \<or>
      (\<exists>ans name. x509_alt_names x = Some ans \<and> Some name \<in> set ans \<and> name \<noteq> [] \<and> host_matches e (srv_host srv) fqdn (cstr name)))"
proof -
  let ?f = "fst (getaddrs e (srv_host srv))"
  have alt: "check_alt_names e (srv_host srv) ?f x \<longleftrightarrow>
      (\<exists>ans name. x509_alt_names x = Some ans \<and> Some name \<in> set ans \<and> name \<noteq> [] \<and> host_matches e (srv_host srv) ?f (cstr name))"
    by (auto simp: check_alt_names_def find_None_iff split: option.splits)
  have cn: "cn_matches e (srv_host srv) ?f n \<longleftrightarrow> ?f = None \<or> host_matches e (srv_host srv) ?f n" for n
    by (auto simp: cn_matches_def host_matches_def split: option.splits)
  show ?thesis
  proof (cases "after_cn (subject_line fds)")
    case None
    then show ?thesis using after_cn_missing [OF assms(2)] assms(1) by (auto simp: sslverify_def Let_def split: option.splits)
  next
    case (Some p)
    have "cn_loop (cn_matches e (srv_host srv) ?f) p \<longleftrightarrow> (\<exists>cn. (''CN'', cn) \<in> set fds \<and> (?f = None \<or> host_matches e (srv_host srv) ?f cn))"
      using after_cn_subject [OF assms(2), of "cn_matches e (srv_host srv) ?f"] Some cn by simp
    moreover have "\<exists>cn. (''CN'', cn) \<in> set fds" using after_cn_missing [OF assms(2)] Some by auto
    ultimately show ?thesis using Some assms(1) alt by (auto simp: sslverify_def Let_def split: option.splits)
  qed
qed

definition conn_sample_env :: "nat conn_env" where
  "conn_sample_env = \<lparr>ce_address = (\<lambda>h. Some (length h)), ce_name = (\<lambda>a. if a = 4 then Some ''mail.example'' else None), ce_numeric = (\<lambda>a. None),
     ce_getaddrinfo = (\<lambda>h p. Inr [length h]), ce_getservbyname = (\<lambda>p. if p = ''imap'' then Some 143 else None),
     ce_fnmatch = (=), ce_setitimer = (\<lambda>n. True)\<rparr>"

definition conn_sample_server :: "char list \<Rightarrow> nat server" where
  "conn_sample_server host = \<lparr>srv_host = host, srv_port = ''imap'', srv_ai = None, srv_ssl = True, srv_tls1 = False, srv_verify = True\<rparr>"

definition sample_cert :: cert where
  "sample_cert = \<lparr>x509_verify = None, x509_subject = ''/C=GB/CN=other/CN=b'', x509_alt_names = None\<rparr>"

lemma sslverify_accepts_witness:
  "sslverify conn_sample_env (conn_sample_server ''mail'') (Some sample_cert) \<noteq> None \<and> sslverify conn_sample_env (conn_sample_server ''host1'') (Some sample_cert) = None"
proof -
  have s: "x509_subject sample_cert = subject_line [(''C'', ''GB''), (''CN'', ''other''), (''CN'', ''b'')]"
    "subject_ok [(''C'', ''GB''), (''CN'', ''other''), (''CN'', ''b'')]"
    by (simp_all add: sample_cert_def)
  from sslverify_accepts [OF s, of conn_sample_env "conn_sample_server ''mail''"] sslverify_accepts [OF s, of conn_sample_env "conn_sample_server ''host1''"]
  show ?thesis by (auto simp: conn_sample_env_def conn_sample_server_def sample_cert_def getaddrs_def host_matches_def)
qed

section \<open>Proxies as text\<close>

definition proxy_scheme :: "proxytype \<Rightarrow> char list" where
  "proxy_scheme t = (case t of PROXY_HTTP \<Rightarrow> ''http://'' | PROXY_HTTPS \<Rightarrow> ''https://'' | PROXY_SOCKS5 \<Rightarrow> ''socks5://'')"

definition proxy_text :: "'a proxy \<Rightarrow> char list" where
  "proxy_text pr = proxy_scheme (pr_type pr) @
     (case (pr_user pr, pr_pass pr) of (Some u, Some p) \<Rightarrow> u @ '':'' @ p @ ''@'' | _ \<Rightarrow> []) @
     srv_host (pr_server pr) @ '':'' @ srv_port (pr_server pr)"

definition proxy_ok :: "'a proxy \<Rightarrow> bool" where
  "proxy_ok pr \<longleftrightarrow>
     (case (pr_user pr, pr_pass pr) of
        (Some u, Some p) \<Rightarrow> u \<noteq> [] \<and> p \<noteq> [] \<and> set u \<inter> {CHR '':'', CHR ''@''} = {} \<and> CHR ''@'' \<notin> set p
      | (None, None) \<Rightarrow> True | _ \<Rightarrow> False) \<and>
     srv_host (pr_server pr) \<noteq> [] \<and> set (srv_host (pr_server pr)) \<inter> {CHR '':'', CHR ''@''} = {} \<and>
     srv_port (pr_server pr) \<noteq> [] \<and> last (srv_port (pr_server pr)) \<noteq> CHR ''/'' \<and> CHR ''@'' \<notin> set (srv_port (pr_server pr)) \<and>
     srv_ai (pr_server pr) = None \<and> srv_ssl (pr_server pr) = (pr_type pr = PROXY_HTTPS) \<and>
     \<not> srv_tls1 (pr_server pr) \<and> \<not> srv_verify (pr_server pr)"

lemma split_at_first: "c \<notin> set s \<Longrightarrow> split_at c (s @ c # t) = Some (s, t)"
  by (induction s) (auto simp: split_at_def)

lemma split_at_none: "c \<notin> set s \<Longrightarrow> split_at c s = None"
  by (simp add: split_at_def)

lemma strip_slashes_app:
  assumes "set r \<subseteq> {CHR ''/''}" "s \<noteq> []" "last s \<noteq> CHR ''/''"
  shows "strip_slashes (s @ r) = s"
proof -
  have "dropWhile (\<lambda>c. c = CHR ''/'') (rev r @ rev s) = dropWhile (\<lambda>c. c = CHR ''/'') (rev s)"
    using assms(1) by (intro dropWhile_append2) auto
  also have "\<dots> = rev s" using assms(2,3) by (cases s rule: rev_cases) auto
  finally show ?thesis by (simp add: strip_slashes_def)
qed

lemma proxylist_find:
  "List.find (\<lambda>(proto, _). take (length proto) (proxy_scheme t @ s) = proto) proxylist =
     Some (case t of PROXY_HTTP \<Rightarrow> (''http://'', PROXY_HTTP, False, ''http'') | PROXY_HTTPS \<Rightarrow> (''https://'', PROXY_HTTPS, True, ''https'')
       | PROXY_SOCKS5 \<Rightarrow> (''socks5://'', PROXY_SOCKS5, False, ''socks''))"
  by (cases t) (simp_all add: proxylist_def proxy_scheme_def)

text \<open>
  the text of a proxy, with any number of slashes behind it, is read back as the proxy. One over TLS is read as well, but
  no connection is ever made through it.
\<close>

theorem getproxy_roundtrip:
  assumes "proxy_ok pr" "set slashes \<subseteq> {CHR ''/''}"
  shows "getproxy (proxy_text pr @ slashes) = Some pr \<and>
    (pr_type pr = PROXY_HTTPS \<longrightarrow> connectproxy e sys srv verify (Some pr) eol timeout fuel answers \<noteq> Inr (Inr i))"
proof
  obtain t u p h po where pr: "pr = \<lparr>pr_type = t, pr_user = u, pr_pass = p, pr_server =
      \<lparr>srv_host = h, srv_port = po, srv_ai = None, srv_ssl = (t = PROXY_HTTPS), srv_tls1 = False, srv_verify = False\<rparr>\<rparr>"
    using assms(1) by (cases pr; cases "pr_server pr") (auto simp: proxy_ok_def)
  let ?login = "case (u, p) of (Some u, Some p) \<Rightarrow> u @ '':'' @ p @ ''@'' | _ \<Rightarrow> []"
  let ?url = "?login @ h @ '':'' @ po"
  have hp: "h \<noteq> []" "CHR '':'' \<notin> set h" "CHR ''@'' \<notin> set h" "po \<noteq> []" "last po \<noteq> CHR ''/''" "CHR ''@'' \<notin> set po"
    using assms(1) by (auto simp: proxy_ok_def pr)
  have url: "strip_slashes (?url @ slashes) = ?url" "?url \<noteq> []" by (rule strip_slashes_app [OF assms(2)]) (use hp in auto)
  have login: "proxy_login ?url = Some ((u, p), h @ '':'' @ po)"
  proof (cases u)
    case None
    then have "p = None" using assms(1) by (auto simp: proxy_ok_def pr split: option.splits)
    with None hp show ?thesis by (simp add: proxy_login_def split_at_none)
  next
    case (Some x)
    then obtain y where y: "p = Some y" "x \<noteq> []" "y \<noteq> []" "CHR '':'' \<notin> set x" "CHR ''@'' \<notin> set x" "CHR ''@'' \<notin> set y"
      using assms(1) by (auto simp: proxy_ok_def pr split: option.splits)
    have "split_at (CHR ''@'') ((x @ CHR '':'' # y) @ CHR ''@'' # (h @ '':'' @ po)) = Some (x @ CHR '':'' # y, h @ '':'' @ po)"
      by (rule split_at_first) (use y in auto)
    then show ?thesis using Some y split_at_first [of "CHR '':''" x y] by (simp add: proxy_login_def)
  qed
  have host: "split_at (CHR '':'') (h @ '':'' @ po) = Some (h, po)" using split_at_first [OF hp(2), of po] by simp
  have txt_eq: "proxy_text pr @ slashes = proxy_scheme t @ ?url @ slashes" by (simp add: proxy_text_def pr)
  show "getproxy (proxy_text pr @ slashes) = Some pr"
    unfolding txt_eq getproxy_def proxylist_find using url login host hp(1,4)
    by (cases t) (simp_all add: Let_def pr proxy_scheme_def)
qed (auto simp: connectproxy_def rbind_Inr_iff split: sum.splits)

definition sample_proxy :: "nat proxy" where
  "sample_proxy = \<lparr>pr_type = PROXY_SOCKS5, pr_user = Some ''u'', pr_pass = Some ''p:q'', pr_server =
     \<lparr>srv_host = ''h'', srv_port = ''1080'', srv_ai = None, srv_ssl = False, srv_tls1 = False, srv_verify = False\<rparr>\<rparr>"

lemma getproxy_roundtrip_witness: "getproxy ''socks5://u:p:q@h:1080//'' = Some sample_proxy"
proof -
  have "proxy_ok sample_proxy" "set ''//'' \<subseteq> {CHR ''/''}" by (simp_all add: proxy_ok_def sample_proxy_def)
  from getproxy_roundtrip [OF this] show ?thesis by (simp add: proxy_text_def proxy_scheme_def sample_proxy_def)
qed

section \<open>What a SOCKS proxy is sent\<close>

lemma socks_read_wire:
  assumes "socks_read i len timeout answers buf = Inr (Some buf', i', answers')" "wire i t" "length t < 2 ^ 62"
  shows "wire i' t"
proof -
  obtain j as n d where j: "io_wait i len timeout answers = Inr (0, j, as)" "io_read2 j len = Inr (n, d, i')"
    using assms(1) by (auto simp: socks_read_def rbind_Inr_iff split: if_splits)
  have "wire j t" using j(1) assms(2,3) by (rule io_wait_wire)
  moreover have "wire (j\<lparr>io_rd := x\<rparr>) t = wire j t" for x by (simp add: wire_def io_out_ok_def)
  moreover have "i' = j \<or> (\<exists>rd. i' = j\<lparr>io_rd := rd\<rparr>)" using j(2) by (auto simp: io_read2_def rbind_Inr_iff split: if_splits)
  ultimately show ?thesis by auto
qed

lemma socks_answer_wire:
  assumes "socks_answer i len timeout answers buf k = Inr (ProxyDone, i', answers')" "wire i t" "length t < 2 ^ 62"
  shows "\<exists>b j as. wire j t \<and> k b j as = Inr (ProxyDone, i', answers')"
proof -
  obtain b j as where j: "socks_read i len timeout answers buf = Inr (Some b, j, as)" "k b j as = Inr (ProxyDone, i', answers')"
    using assms(1) by (auto simp: socks_answer_def rbind_Inr_iff split: option.splits if_splits)
  with socks_read_wire [OF j(1) assms(2,3)] show ?thesis by blast
qed

lemma socks_response_wire:
  assumes "socks_response timeout buf i answers = Inr (ProxyDone, i', answers')" "wire i t" "length t < 2 ^ 62"
  shows "wire i' t"
proof -
  obtain len x where "socks_read i len timeout answers buf = Inr (Some x, i', answers')"
    using assms(1) by (auto simp: socks_response_def rbind_Inr_iff split: if_splits option.splits)
  then show ?thesis using assms(2,3) by (rule socks_read_wire)
qed

lemma socks_request_wire:
  assumes "socks_request host port timeout buf i answers = Inr (ProxyDone, i', answers')" "wire i t" "length t + 300 < 2 ^ 62"
  shows "length host \<le> 255 \<and> wire i' (t @ socks_connect host port)"
proof -
  let ?c = "socks_connect host port"
  have l: "length host \<le> 255" using assms(1) by (auto simp: socks_request_def split: if_splits)
  then have c: "?c \<noteq> []" "length t + length ?c < 2 ^ 62" "length (t @ ?c) < 2 ^ 62" using assms(3) by (auto simp: socks_connect_def)
  have e: "rbind (io_write i ?c) (\<lambda>i. socks_answer i 5 timeout answers (?c @ drop (length ?c) buf) (socks_response timeout)) =
      Inr (ProxyDone, i', answers')" using assms(1) l by (simp add: socks_request_def)
  from written_wire [OF e assms(2) c(1,2)] obtain j where j: "wire j (t @ ?c)"
    "socks_answer j 5 timeout answers (?c @ drop (length ?c) buf) (socks_response timeout) = Inr (ProxyDone, i', answers')" by blast
  from socks_answer_wire [OF j(2,1) c(3)] l socks_response_wire c(3) show ?thesis by blast
qed

lemma socks_auth_wire:
  assumes "socks_auth user pass i timeout answers k = Inr (ProxyDone, i', answers')" "wire i t" "length t + 600 < 2 ^ 62"
  shows "\<exists>login b j as. socks_login user pass = Inr login \<and> wire j (t @ login) \<and> length login < 600 \<and> k b j as = Inr (ProxyDone, i', answers')"
proof -
  obtain login where login: "socks_login user pass = Inr login" using assms(1) by (auto simp: socks_auth_def split: sum.splits)
  then have c: "login \<noteq> []" "length login < 600" "length t + length login < 2 ^ 62" "length (t @ login) < 2 ^ 62"
    using assms(3) by (auto simp: socks_login_def split: if_splits)
  let ?k = "\<lambda>buf i answers. if schar (buf ! 1) \<noteq> 0 then Inr (ProxyFailed ''authentication failed'', i, answers) else k buf i answers"
  have e: "rbind (io_write i login) (\<lambda>i. socks_answer i 2 timeout answers login ?k) = Inr (ProxyDone, i', answers')"
    using assms(1) login by (simp add: socks_auth_def)
  from written_wire [OF e assms(2) c(1,3)] obtain j where j: "wire j (t @ login)"
    "socks_answer j 2 timeout answers login ?k = Inr (ProxyDone, i', answers')" by blast
  from socks_answer_wire [OF j(2,1) c(4)] login c(2) show ?thesis by (auto split: if_splits)
qed

text \<open>How a server reads a request for a connection.\<close>

definition socks_parse :: "char list \<Rightarrow> (char list \<times> nat) option" where
  "socks_parse r = (if take 4 r = map char_of [5, 1, 0, 3 :: nat] \<and> 5 \<le> length r \<and> length r = code (r ! 4) + 7
     then Some (butlast (butlast (drop 5 r)), 256 * code (r ! (length r - 2)) + code (last r)) else None)"

lemma socks_parse_parts:
  assumes "length p = 4"
  shows "take 4 (p @ c # s @ [h, l]) = p" "(p @ c # s @ [h, l]) ! 4 = c" "drop 5 (p @ c # s @ [h, l]) = s @ [h, l]"
    "(p @ c # s @ [h, l]) ! (length s + 5) = h" "last (p @ c # s @ [h, l]) = l"
  using assms by (simp_all add: nth_append nth_Cons')

lemma socks_parse_connect:
  assumes "length host \<le> 255" "port < 65536"
  shows "socks_parse (socks_connect host port) = Some (host, port)"
proof -
  let ?p = "map char_of [5, 1, 0, 3 :: nat] :: char list"
  let ?h = "char_of (port div 256 mod 256) :: char" and ?l = "char_of (port mod 256) :: char" and ?c = "char_of (length host) :: char"
  have c: "code (char_of n :: char) = n" if "n < 256" for n :: nat using that by (simp add: code_def)
  have r: "socks_connect host port = ?p @ ?c # host @ [?h, ?l]" by (simp add: socks_connect_def)
  have n: "length (?p @ ?c # host @ [?h, ?l]) = length host + 7" "length host + 7 - 2 = length host + 5" by simp_all
  have p: "256 * (port div 256 mod 256) + port mod 256 = port"
  proof -
    have "port div 256 mod 256 = port div 256" using assms(2) by (intro mod_less) auto
    then show ?thesis by simp
  qed
  have v: "code ?c = length host" "code ?h = port div 256 mod 256" "code ?l = port mod 256" by (rule c, use assms(1) in simp)+
  have b: "butlast (butlast (host @ [?h, ?l])) = host" by (simp add: butlast_append)
  have l4: "length ?p = 4" by simp
  have "5 \<le> length host + 7" by simp
  then show ?thesis unfolding r socks_parse_def n socks_parse_parts [OF l4] v p b by (simp only: simp_thms if_True)
qed

section \<open>What a SOCKS proxy answers\<close>

lemma both_read:
  assumes b: "both_ok i w (d @ r)" and d: "d \<noteq> []" "length d \<le> 1024" "length (d @ r) < 2 ^ 62" and len: "unat len = length d"
  shows "\<exists>j. socks_read i len timeout answers buf = Inr (Some (d @ drop (length d) buf), j, answers) \<and> both_ok j w r"
proof -
  obtain j where "io_wait i len timeout answers = Inr (0, i, answers)" "io_read2 i len = Inr (0, d, j)" "both_ok j w r"
    using both_taken [OF b d(1,3) len] by blast
  then show ?thesis using len d(2) by (simp add: socks_read_def)
qed

lemma both_answer:
  assumes "both_ok i w (c # d @ r)" "length (c # d) \<le> 1024" "length (c # d @ r) < 2 ^ 62" "unat len = length (c # d)" "schar c = 5"
  shows "\<exists>j. socks_answer i len timeout answers buf k = k (c # d @ drop (length (c # d)) buf) j answers \<and> both_ok j w r"
proof -
  obtain j where "socks_read i len timeout answers buf = Inr (Some ((c # d) @ drop (length (c # d)) buf), j, answers)" "both_ok j w r"
    using both_read [of i w "c # d" r len timeout answers buf] assms(1-4) by auto
  then show ?thesis using assms(5) by (auto simp: socks_answer_def)
qed

lemma schar_small: "n < 128 \<Longrightarrow> schar (char_of (n :: nat)) = int n"
  by (simp add: schar_def code_def)

lemma socks_done:
  assumes b: "both_ok i w (map char_of [5, 0 :: nat] @ map char_of [5, 0, 0, a :: nat] @ c # s)" and n: "a = 1 \<and> n = 5 \<or> a = 3 \<and> n = 17" "n \<le> length s"
    and port: "getport e (srv_port srv) = Some port" and host: "length (srv_host srv) \<le> 255" and user: "pr_user pr = None"
    and small: "length s < 2 ^ 61" "length w < 2 ^ 61"
  shows "\<exists>j. socks5proxy e srv pr i timeout answers = Inr (ProxyDone, j, answers) \<and>
    both_ok j (w @ map char_of [5, 1, 0 :: nat] @ socks_connect (srv_host srv) port) (drop n s)"
proof -
  let ?five = "char_of (5 :: nat) :: char" and ?zero = "char_of (0 :: nat) :: char" and ?a = "char_of a :: char"
  let ?hello = "map char_of [5, 1, 0 :: nat] :: char list" and ?c = "socks_connect (srv_host srv) port"
  have c5: "schar ?five = 5" "schar ?zero = 0" "schar ?a = int a" using n(1) by (auto simp only: schar_small [of 5] schar_small [of 0] schar_small [of 1] schar_small [of 3])
  have hello: "take 3 (socks_hello False) = ?hello" by (simp add: socks_hello_def)
  have cl: "length ?c \<le> 300" "?c \<noteq> []" using host by (simp_all add: socks_connect_def)
  obtain i1 where i1: "io_write i ?hello = Inr i1" "both_ok i1 (w @ ?hello) (?five # [?zero] @ (map char_of [5, 0, 0, a] @ c # s))"
    using both_write [OF b, of ?hello] small by auto
  have l1: "length (?five # [?zero] @ map char_of [5, 0, 0, a] @ c # s) < 2 ^ 62" using small by simp
  have l2: "length (?five # [?zero]) \<le> 1024" and u2: "unat (2 :: size_t) = length (?five # [?zero])" by simp_all
  from both_answer [OF i1(2) l2 l1 u2 c5(1), of timeout answers "socks_hello False" "socks_method srv pr port timeout"]
  obtain i2 where i2: "socks_answer i1 2 timeout answers (socks_hello False) (socks_method srv pr port timeout) =
        socks_method srv pr port timeout (?five # [?zero] @ drop (length (?five # [?zero])) (socks_hello False)) i2 answers"
      "both_ok i2 (w @ ?hello) (map char_of [5, 0, 0, a] @ c # s)" by (elim exE conjE) (rule that)
  then have i2b: "both_ok i2 (w @ ?hello) (?five # [?zero, ?zero, ?a, c] @ s)" by simp
  obtain i3 where i3: "io_write i2 ?c = Inr i3" "both_ok i3 ((w @ ?hello) @ ?c) (?five # [?zero, ?zero, ?a, c] @ s)"
    using both_write [OF i2b cl(2)] cl(1) small by auto
  have l3: "length (?five # [?zero, ?zero, ?a, c] @ s) < 2 ^ 62" using small by simp
  let ?b = "?five # [?zero] @ drop (length (?five # [?zero])) (socks_hello False)" and ?finish = "\<lambda>b. ?five # [?zero, ?zero, ?a, c] @ b"
  obtain i4 b where i4: "socks_answer i3 5 timeout answers (?c @ drop (length ?c) ?b) (socks_response timeout) = socks_response timeout (?finish b) i4 answers"
      "both_ok i4 ((w @ ?hello) @ ?c) s"
    using both_answer [OF i3(2) _ l3 _ c5(1), of 5 timeout answers "?c @ drop (length ?c) ?b" "socks_response timeout"] by fastforce
  obtain len :: size_t where len: "socks_rest (?finish b) = Some len" "unat len = n"
    using n(1) c5(3) by (auto simp: socks_rest_def)
  have t: "both_ok i4 ((w @ ?hello) @ ?c) (take n s @ drop n s)" "take n s \<noteq> []" "length (take n s) \<le> 1024" "length (take n s @ drop n s) < 2 ^ 62"
      "unat len = length (take n s)"
    using i4(2) n small(1) len(2) by auto
  obtain i5 x where i5: "socks_read i4 len timeout answers (?finish b) = Inr (Some x, i5, answers)" "both_ok i5 ((w @ ?hello) @ ?c) (drop n s)"
    using both_read [OF t, of timeout answers "?finish b"] by blast
  have "socks_response timeout (?finish b) i4 answers = Inr (ProxyDone, i5, answers)"
    using len(1) i5(1) c5(2) by (simp add: socks_response_def)
  then have "socks_request (srv_host srv) port timeout ?b i2 answers = Inr (ProxyDone, i5, answers)"
    unfolding socks_request_def using host i3(1) i4(1) by simp
  then have "socks_method srv pr port timeout ?b i2 answers = Inr (ProxyDone, i5, answers)"
    using c5(2) by (simp add: socks_method_def)
  then have "socks5proxy e srv pr i timeout answers = Inr (ProxyDone, i5, answers)"
    using i1(1) i2(1) port user hello by (simp add: socks5proxy_def)
  with i5(2) show ?thesis by auto
qed

text \<open>
  C30: whatever the proxy answers and whatever the calls of \<open>poll\<close> give, when a connection through a SOCKS proxy is made then what
  was written is the greeting, the user and the password if the proxy asked for them and they were given, and a request
  that a server reads as the host and the port.
\<close>

theorem socks_sends:
  assumes ok: "socks5proxy e srv pr i timeout answers = Inr (ProxyDone, i', answers')"
    and w: "wire i t" "length t + 1024 < 2 ^ 62"
    and ports: "\<And>p n. ce_getservbyname e p = Some n \<Longrightarrow> n < 65536"
  shows "\<exists>port login request. getport e (srv_port srv) = Some port \<and>
    (login = [] \<or> (\<exists>u p. pr_user pr = Some u \<and> pr_pass pr = Some p \<and> socks_login u p = Inr login)) \<and>
    socks_parse request = Some (srv_host srv, port) \<and>
    wire i' (t @ (if pr_user pr \<noteq> None \<and> pr_pass pr \<noteq> None then map char_of [5, 2, 0, 2 :: nat] else map char_of [5, 1, 0 :: nat]) @ login @ request)"
proof -
  let ?auth = "pr_user pr \<noteq> None \<and> pr_pass pr \<noteq> None"
  let ?hello = "if ?auth then map char_of [5, 2, 0, 2 :: nat] else map char_of [5, 1, 0 :: nat]"
  have h: "?hello \<noteq> []" "length ?hello \<le> 4" "take (if ?auth then 4 else 3) (socks_hello ?auth) = ?hello" by (auto simp: socks_hello_def)
  have t1: "length t + length ?hello < 2 ^ 62" "length (t @ ?hello) < 2 ^ 62" using h(2) w(2) by auto
  obtain port where port: "getport e (srv_port srv) = Some port"
    using ok by (auto simp: socks5proxy_def split: option.splits)
  have small: "port < 65536" using port ports by (auto simp: getport_def dest!: strtonum_range split: option.splits sum.splits)
  have e: "rbind (io_write i ?hello) (\<lambda>i. socks_answer i 2 timeout answers (socks_hello ?auth) (socks_method srv pr port timeout)) =
      Inr (ProxyDone, i', answers')" using ok port by (simp only: socks5proxy_def option.case Let_def h(3))
  from written_wire [OF e w(1) h(1) t1(1)] obtain j where j: "wire j (t @ ?hello)"
    "socks_answer j 2 timeout answers (socks_hello ?auth) (socks_method srv pr port timeout) = Inr (ProxyDone, i', answers')" by blast
  from socks_answer_wire [OF j(2,1) t1(2)] obtain b k as
    where k: "wire k (t @ ?hello)" "socks_method srv pr port timeout b k as = Inr (ProxyDone, i', answers')" by blast
  have "\<exists>login. (login = [] \<or> (\<exists>u p. pr_user pr = Some u \<and> pr_pass pr = Some p \<and> socks_login u p = Inr login)) \<and>
      length (srv_host srv) \<le> 255 \<and> wire i' ((t @ ?hello) @ login @ socks_connect (srv_host srv) port)"
  proof (cases "schar (b ! 1) = 2")
    case False
    then have "socks_request (srv_host srv) port timeout b k as = Inr (ProxyDone, i', answers')"
      using k(2) by (auto simp: socks_method_def Let_def split: if_splits)
    from socks_request_wire [OF this k(1)] h(2) w(2) show ?thesis by (intro exI [of _ "[]"]) auto
  next
    case True
    then obtain u p where up: "pr_user pr = Some u" "pr_pass pr = Some p"
        "socks_auth u p k timeout as (socks_request (srv_host srv) port timeout) = Inr (ProxyDone, i', answers')"
      using k(2) by (auto simp: socks_method_def Let_def split: if_splits)
    then obtain login b' j' as' where l: "socks_login u p = Inr login" "wire j' ((t @ ?hello) @ login)" "length login < 600"
        "socks_request (srv_host srv) port timeout b' j' as' = Inr (ProxyDone, i', answers')"
      using socks_auth_wire [OF up(3) k(1)] h(2) w(2) by auto
    from socks_request_wire [OF l(4,2)] l(3) h(2) w(2) up(1,2) l(1) show ?thesis by (intro exI [of _ login]) auto
  qed
  with port socks_parse_connect [OF _ small] show ?thesis by (metis append_assoc)
qed

definition socks_sample :: "nat proxy" where
  "socks_sample = sample_proxy\<lparr>pr_user := None, pr_pass := None\<rparr>"

definition socks_reply :: "bool \<Rightarrow> char list \<Rightarrow> char list" where
  "socks_reply ip addr = map char_of [5, 0 :: nat] @ map char_of [5, 0, 0, if ip then 1 else 3 :: nat] @ (if ip then addr else char_of (length addr) # addr)"

lemma sample_both: "length s < 1000 \<Longrightarrow> both_ok (sample_io s [CR, NL]) [] s"
  using sample_io_ok(1,2) [of "[CR, NL]" s] by (simp add: both_ok_def)

lemma sample_port: "getport conn_sample_env (srv_port (conn_sample_server h)) = Some 143" "srv_host (conn_sample_server h) = h"
  by (simp_all add: getport_def conn_sample_env_def conn_sample_server_def)

lemma socks_sends_witness:
  "\<exists>i' login request. socks_parse request = Some (''mail'', 143) \<and> (login = [] \<or> (\<exists>u. pr_user socks_sample = Some u)) \<and>
     wire i' (map char_of [5, 1, 0 :: nat] @ login @ request)"
proof -
  let ?s = "map char_of [5, 0 :: nat] @ map char_of [5, 0, 0, 1 :: nat] @ CHR ''a'' # ''bcdef''"
  have u: "pr_user socks_sample = None" by (simp add: socks_sample_def)
  have h: "length (srv_host (conn_sample_server ''mail'')) \<le> 255" by (simp add: conn_sample_server_def)
  have "both_ok (sample_io ?s [CR, NL]) [] ?s" by (rule sample_both) simp
  from socks_done [OF this _ _ sample_port(1) h u, of 5 0 "[]"]
  obtain j where j: "socks5proxy conn_sample_env (conn_sample_server ''mail'') socks_sample (sample_io ?s [CR, NL]) 0 [] = Inr (ProxyDone, j, [])" by auto
  have w: "wire (sample_io ?s [CR, NL]) []" using sample_io_ok(2) [of "[CR, NL]" ?s] by (simp add: wire_def sample_io_def)
  have "\<exists>port login request. getport conn_sample_env (srv_port (conn_sample_server ''mail'')) = Some port \<and>
    (login = [] \<or> (\<exists>u p. pr_user socks_sample = Some u \<and> pr_pass socks_sample = Some p \<and> socks_login u p = Inr login)) \<and>
    socks_parse request = Some (srv_host (conn_sample_server ''mail''), port) \<and>
    wire j ([] @ (if pr_user socks_sample \<noteq> None \<and> pr_pass socks_sample \<noteq> None then map char_of [5, 2, 0, 2 :: nat]
      else map char_of [5, 1, 0 :: nat]) @ login @ request)"
    by (rule socks_sends [OF j w]) (auto simp: conn_sample_env_def split: if_splits)
  then show ?thesis using sample_port u by auto
qed

text \<open>
  an answer with an IPv4 address is read to its end and what follows is left for the server that is spoken to. One with a
  name is not: it is taken for an IPv6 address, so that after a short name the first bytes of the server are lost.
\<close>

theorem socks_reply_read:
  assumes b: "both_ok i w (socks_reply ip addr @ pp @ rest)" and pp: "length pp = 2"
    and addr: "if ip then length addr = 4 else length addr \<le> 15 \<and> 15 - length addr \<le> length rest"
    and port: "getport e (srv_port srv) = Some port" and host: "length (srv_host srv) \<le> 255" and user: "pr_user pr = None"
    and small: "length rest < 2 ^ 60" "length w < 2 ^ 60"
  shows "\<exists>j. socks5proxy e srv pr i timeout answers = Inr (ProxyDone, j, answers) \<and>
    both_ok j (w @ map char_of [5, 1, 0 :: nat] @ socks_connect (srv_host srv) port) (if ip then rest else drop (15 - length addr) rest)"
proof (cases ip)
  case True
  then obtain c a where a: "addr = c # a" "length a = 3" using addr by (cases addr) auto
  have "\<exists>j. socks5proxy e srv pr i timeout answers = Inr (ProxyDone, j, answers) \<and>
    both_ok j (w @ map char_of [5, 1, 0 :: nat] @ socks_connect (srv_host srv) port) (drop 5 (a @ pp @ rest))"
    by (rule socks_done [where a = 1 and c = c]) (use b True a pp port host user small in \<open>simp_all add: socks_reply_def\<close>)
  then show ?thesis using True a pp by simp
next
  case False
  then have l: "15 \<le> length addr + length rest" using addr by auto
  have "\<exists>j. socks5proxy e srv pr i timeout answers = Inr (ProxyDone, j, answers) \<and>
    both_ok j (w @ map char_of [5, 1, 0 :: nat] @ socks_connect (srv_host srv) port) (drop 17 (addr @ pp @ rest))"
    by (rule socks_done [where a = 3 and c = "char_of (length addr)"]) (use b False addr l pp port host user small in \<open>simp_all add: socks_reply_def\<close>)
  moreover have "drop 17 (addr @ pp @ rest) = drop (15 - length addr) rest" using False addr pp by (simp; linarith)
  ultimately show ?thesis using False by simp
qed

lemma socks_reply_read_witness:
  "\<exists>j. socks5proxy conn_sample_env (conn_sample_server ''mail'') socks_sample (sample_io (socks_reply False ''mail.example'' @ ''pp'' @ ''220 ready'') [CR, NL]) 0 [] =
     Inr (ProxyDone, j, []) \<and> both_ok j (map char_of [5, 1, 0 :: nat] @ socks_connect ''mail'' 143) '' ready''"
proof -
  let ?s = "socks_reply False ''mail.example'' @ ''pp'' @ ''220 ready''"
  have u: "pr_user socks_sample = None" by (simp add: socks_sample_def)
  have h: "length (srv_host (conn_sample_server ''mail'')) \<le> 255" by (simp add: conn_sample_server_def)
  have "both_ok (sample_io ?s [CR, NL]) [] ?s" by (rule sample_both) (simp add: socks_reply_def)
  from socks_reply_read [OF this _ _ sample_port(1) h u, of 0 "[]"] show ?thesis using sample_port by simp
qed

end
