(* ===== verification/Config.thy ===== *)
theory Config imports Command Match Io_Wire begin

text \<open>
  What the parser of the configuration uses besides the lexer: looking up users (\<^verbatim>\<open>lookup-passwd.c\<close>, \<^verbatim>\<open>lookup-courier.c\<close>),
  accounts and actions (\<^verbatim>\<open>parse-fn.c\<close>), regular expressions of PCRE (\<^verbatim>\<open>pcre.c\<close>), joining strings (\<^verbatim>\<open>compat/strlcpy.c\<close>,
  \<^verbatim>\<open>compat/strlcat.c\<close>) and the output of a command (\<open>run_command\<close> of \<^verbatim>\<open>parse-fn.c\<close>).
\<close>

section \<open>Users\<close>

record passwd =
  pw_name :: "char list"
  pw_dir :: "char list"
  pw_uid :: nat
  pw_gid :: nat

definition UID_MAX :: int where "UID_MAX = 4294967295"

definition user_of :: "passwd \<Rightarrow> userdata" where
  "user_of pw = \<lparr>ud_name = pw_name pw, ud_home = pw_dir pw, ud_uid = pw_uid pw, ud_gid = pw_gid pw\<rparr>"

text \<open>By name, and by number when there is no such name.\<close>

definition passwd_lookup :: "(char list \<Rightarrow> passwd option) \<Rightarrow> (nat \<Rightarrow> passwd option) \<Rightarrow> char list \<Rightarrow> userdata option" where
  "passwd_lookup getpwnam getpwuid user = (case getpwnam user of
     Some pw \<Rightarrow> Some (user_of pw)
   | None \<Rightarrow> (case strtonum user 0 UID_MAX of
       Inl _ \<Rightarrow> None | Inr uid \<Rightarrow> map_option user_of (getpwuid (nat uid))))"

record authinfo =
  ai_address :: "char list"
  ai_homedir :: "char list"
  ai_sysusername :: "char list option"
  ai_sysuserid :: nat
  ai_sysgroupid :: nat

definition courier_callback :: "(char list \<Rightarrow> passwd option) \<Rightarrow> authinfo \<Rightarrow> userdata option" where
  "courier_callback getpwnam ai = (case ai_sysusername ai of
     Some name \<Rightarrow> (case getpwnam name of
         None \<Rightarrow> None
       | Some pw \<Rightarrow> Some \<lparr>ud_name = ai_address ai, ud_home = ai_homedir ai, ud_uid = pw_uid pw, ud_gid = pw_gid pw\<rparr>)
   | None \<Rightarrow> Some \<lparr>ud_name = ai_address ai, ud_home = ai_homedir ai, ud_uid = ai_sysuserid ai, ud_gid = ai_sysgroupid ai\<rparr>)"

text \<open>The library finds the user (\<open>None\<close> for an error) and calls back.\<close>

definition courier_lookup :: "(char list \<Rightarrow> authinfo option) \<Rightarrow> (char list \<Rightarrow> passwd option) \<Rightarrow> char list \<Rightarrow> userdata option" where
  "courier_lookup getuserinfo getpwnam user = (case getuserinfo user of
     None \<Rightarrow> None | Some ai \<Rightarrow> courier_callback getpwnam ai)"

section \<open>Accounts and actions\<close>

definition find_account :: "account list \<Rightarrow> char list \<Rightarrow> account option" where
  "find_account accounts name = List.find (\<lambda>a. acc_name a = name) accounts"

definition have_accounts :: "os \<Rightarrow> account list \<Rightarrow> char list \<Rightarrow> bool" where
  "have_accounts os accounts name \<longleftrightarrow> list_ex (\<lambda>a. os_fnmatch os name (acc_name a)) accounts"

section \<open>Regular expressions\<close>

definition RE_IGNCASE :: nat where "RE_IGNCASE = 1"
definition RE_NOSUBST :: nat where "RE_NOSUBST = 2"

datatype re_flag = REG_EXTENDED | REG_NEWLINE | REG_NOSUB | REG_ICASE | PCRE_MULTILINE | PCRE_CASELESS

definition has_flag :: "nat \<Rightarrow> nat \<Rightarrow> bool" where
  "has_flag flags f \<longleftrightarrow> flags div f mod 2 = 1"

text \<open>The flags \<open>regcomp\<close> and \<open>pcre_compile\<close> are called with; an empty expression is not compiled and has no flags.\<close>

definition re_compile :: "(char list \<Rightarrow> re_flag set \<Rightarrow> char list option) \<Rightarrow> char list \<Rightarrow> nat \<Rightarrow> char list + re" where
  "re_compile regcomp s flags =
     (if s = [] then Inr \<lparr>re_str = [], re_flags = 0\<rparr>
      else case regcomp s ({REG_EXTENDED, REG_NEWLINE} \<union> (if has_flag flags RE_NOSUBST then {REG_NOSUB} else {}) \<union>
             (if has_flag flags RE_IGNCASE then {REG_ICASE} else {})) of
        Some e \<Rightarrow> Inl (s @ e) | None \<Rightarrow> Inr \<lparr>re_str = s, re_flags = flags\<rparr>)"

definition pcre_re_compile :: "(char list \<Rightarrow> re_flag set \<Rightarrow> char list option) \<Rightarrow> char list \<Rightarrow> nat \<Rightarrow> char list + re" where
  "pcre_re_compile compile s flags =
     (if s = [] then Inr \<lparr>re_str = [], re_flags = 0\<rparr>
      else case compile s ({PCRE_MULTILINE} \<union> (if has_flag flags RE_IGNCASE then {PCRE_CASELESS} else {})) of
        Some e \<Rightarrow> Inl e | None \<Rightarrow> Inr \<lparr>re_str = s, re_flags = flags\<rparr>)"

text \<open>\<open>exec\<close> is \<open>pcre_exec\<close>: a result and the vector of three numbers for each group, of which the first two thirds are offsets.\<close>

definition PCRE_ERROR_NOMATCH :: int where "PCRE_ERROR_NOMATCH = - 1"

definition pcre_pairs :: "int list \<Rightarrow> (int \<times> int) list" where
  "pcre_pairs pm = map (\<lambda>i. (pm ! (2 * i), pm ! (2 * i + 1))) [0..<NPMATCH]"

definition pcre_re_block :: "(re \<Rightarrow> char list \<Rightarrow> int \<times> int list) \<Rightarrow> re \<Rightarrow> char list \<Rightarrow> (int \<times> rmlist) res" where
  "pcre_re_block exec re buf =
     (if INT_MAX < int (length buf) then Inl (FatalX ''buffer too big'')
      else if re_str re = [] then Inr (if buf = [] then 1 else 0, empty_rml)
      else case exec re buf of (r, pm) \<Rightarrow>
        if r < 0 \<and> r \<noteq> PCRE_ERROR_NOMATCH then Inr (- 1, empty_rml)
        else if length pm < 2 * NPMATCH then Inl (MemErr ''pm'')
        else Inr (if r \<noteq> PCRE_ERROR_NOMATCH then 1 else 0, fill_rml (pcre_pairs pm)))"

section \<open>Joining strings\<close>

text \<open>What the loops write: at most \<open>n - 1\<close> characters and a NUL.\<close>

fun strlcat_loop :: "nat \<Rightarrow> char list \<Rightarrow> char list" where
  "strlcat_loop n [] = [NUL]"
| "strlcat_loop n (c # s) = (if n \<noteq> 1 then c # strlcat_loop (n - 1) s else strlcat_loop n s)"

fun strlcat_end :: "nat \<Rightarrow> char list \<Rightarrow> nat res" where
  "strlcat_end 0 d = Inr 0"
| "strlcat_end (Suc n) [] = Inl (MemErr ''dst'')"
| "strlcat_end (Suc n) (c # d) = (if c = NUL then Inr 0 else rbind (strlcat_end n d) (\<lambda>k. Inr (k + 1)))"

definition strlcat :: "char list \<Rightarrow> char list \<Rightarrow> nat \<Rightarrow> (nat \<times> char list) res" where
  "strlcat dst src siz = rbind (strlcat_end siz dst) (\<lambda>dlen.
     if siz - dlen = 0 then Inr (dlen + length src, dst)
     else rbind (mem_write dst dlen (strlcat_loop (siz - dlen) src)) (\<lambda>d. Inr (dlen + length src, d)))"

text \<open>\<open>n\<close> counts down from \<open>siz - 1\<close>; the source is followed by its NUL.\<close>

fun strlcpy_loop :: "nat \<Rightarrow> char list \<Rightarrow> char list" where
  "strlcpy_loop 0 s = [NUL]"
| "strlcpy_loop (Suc n) [] = [NUL]"
| "strlcpy_loop (Suc n) (c # s) = c # strlcpy_loop n s"

definition strlcpy :: "char list \<Rightarrow> char list \<Rightarrow> nat \<Rightarrow> (nat \<times> char list) res" where
  "strlcpy dst src siz =
     (if siz = 0 then Inr (length src, dst)
      else rbind (mem_write dst 0 (strlcpy_loop (siz - 1) src)) (\<lambda>d. Inr (length src, d)))"

section \<open>The output of a command\<close>

definition DEFTIMEOUT :: int where "DEFTIMEOUT = 900 * 1000"

text \<open>A line of output and a newline behind what is in the block, which grows by as much.\<close>

definition run_append :: "char list \<Rightarrow> size_t \<Rightarrow> char list \<Rightarrow> (char list \<times> size_t) res" where
  "run_append sbuf slen out =
     (let out = cstr out; slen = slen + word_of_nat (length out) + 1 in
      rbind (xrealloc sbuf 1 slen) (\<lambda>sbuf.
      rbind (strlcat sbuf out (unat slen)) (\<lambda>(n, sbuf).
      rbind (strlcat sbuf [NL] (unat slen)) (\<lambda>(n, sbuf). Inr (sbuf, slen)))))"

text \<open>The status of the command, the block and the lines that were read. \<open>yyerror\<close> ends the process.\<close>

fun run_loop :: "poll_sys list \<Rightarrow> char list \<Rightarrow> size_t \<Rightarrow> char list \<Rightarrow> size_t \<Rightarrow> char list list \<Rightarrow> cmd \<Rightarrow> kern \<Rightarrow>
    (int \<times> char list \<times> size_t \<times> char list list \<times> cmd \<times> kern) res" where
  "run_loop [] lbuf llen sbuf slen ls c k = Inl (Diverges ''cmd_poll'')"
| "run_loop (ps # pss) lbuf llen sbuf slen ls c k = rbind (cmd_poll ps True DEFTIMEOUT lbuf llen c k) (\<lambda>(status, got, c, k).
     if status = - 1 then Inl (FatalX ''command'')
     else if status \<noteq> 0 then Inr (status - 1, sbuf, slen, ls, c, k)
     else (case pg_out got of
         None \<Rightarrow> run_loop pss (pg_lbuf got) (pg_llen got) sbuf slen ls c k
       | Some out \<Rightarrow> (case run_append sbuf slen out of
           Inl e \<Rightarrow> Inl e
         | Inr (sbuf, slen) \<Rightarrow> run_loop pss (pg_lbuf got) (pg_llen got) sbuf slen (ls @ [out]) c k)))"

text \<open>The newlines at the end are overwritten.\<close>

fun strip_newlines :: "char list \<Rightarrow> nat \<Rightarrow> char list" where
  "strip_newlines sbuf 0 = sbuf"
| "strip_newlines sbuf (Suc n) = (if n < length sbuf \<and> sbuf ! n = NL then strip_newlines (sbuf[n := NUL]) n else sbuf)"

definition run_command :: "start_sys \<Rightarrow> poll_sys list \<Rightarrow> char list \<Rightarrow> kern \<Rightarrow> (char list \<times> char list list \<times> kern) res" where
  "run_command ss pss s k =
     (if s = [] then Inl (FatalX ''empty command'')
      else rbind (cmd_start ss False True False [] k) (\<lambda>(r, k). case r of
        Inl cause \<Rightarrow> Inl (FatalX ''command'')
      | Inr c \<Rightarrow>
          rbind (xmalloc IO_LINESIZE) (\<lambda>lbuf. rbind (xmalloc 1) (\<lambda>sbuf.
          rbind (mem_write sbuf 0 [NUL]) (\<lambda>sbuf.
          rbind (run_loop pss lbuf IO_LINESIZE sbuf 1 [] c k) (\<lambda>(status, sbuf, slen, ls, c, k).
            if status \<noteq> 0 then Inl (FatalX ''command returned'')
            else Inr (cstr (strip_newlines sbuf (unat (slen - 1))), ls, cmd_free c k)))))))"

section \<open>Properties of joining strings\<close>

lemma strlcat_loop_spec: "0 < n \<Longrightarrow> strlcat_loop n s = take (n - 1) s @ [NUL]"
proof (induction n s rule: strlcat_loop.induct)
  case (2 n c s)
  then show ?case by (cases n) (auto simp: take_Cons')
qed simp

lemma strlcpy_loop_spec: "strlcpy_loop n s = take n s @ [NUL]"
  by (induction n s rule: strlcpy_loop.induct) auto

lemma strlcat_end_spec: "siz \<le> length d \<Longrightarrow> strlcat_end siz d = Inr (length (cstr (take siz d)))"
  by (induction siz d rule: strlcat_end.induct) (auto simp: cstr_def)

text \<open>
  C38: the copies of the BSD functions do what their comments say. \<open>strlcpy\<close> leaves the first \<open>siz - 1\<close> characters of the source
  and a NUL, \<open>strlcat\<close> those of both strings; neither writes behind \<open>siz\<close> bytes, and they return the length it would have needed,
  for \<open>strlcat\<close> counting no more than \<open>siz\<close> of what was there.
\<close>

theorem strlcat_strlcpy:
  assumes "siz \<le> length dst" "NUL \<notin> set src"
  shows "strlcpy dst src siz = Inr (length src, if siz = 0 then dst else take (siz - 1) src @ [NUL] @ drop (min (siz - 1) (length src) + 1) dst) \<and>
    (let d = cstr (take siz dst); t = take (siz - 1) (d @ src) in
      strlcat dst src siz = Inr (length d + length src, if siz \<le> length d then dst else t @ [NUL] @ drop (length t + 1) dst))"
proof
  show "strlcpy dst src siz = Inr (length src, if siz = 0 then dst else take (siz - 1) src @ [NUL] @ drop (min (siz - 1) (length src) + 1) dst)"
    using assms(1) by (auto simp: strlcpy_def strlcpy_loop_spec mem_write_def min_def)
  let ?d = "cstr (take siz dst)"
  have d: "length ?d \<le> siz" "take (length ?d) dst = ?d"
  proof -
    show "length ?d \<le> siz" unfolding cstr_def by (metis assms(1) length_take length_takeWhile_le min.absorb2)
    then show "take (length ?d) dst = ?d" by (metis cstr_def min.absorb1 take_take takeWhile_eq_take)
  qed
  show "let d = ?d; t = take (siz - 1) (d @ src) in
      strlcat dst src siz = Inr (length d + length src, if siz \<le> length d then dst else t @ [NUL] @ drop (length t + 1) dst)"
  proof (cases "siz \<le> length ?d")
    case True
    then show ?thesis using assms(1) by (simp add: strlcat_def strlcat_end_spec Let_def)
  next
    case False
    let ?w = "strlcat_loop (siz - length ?d) src"
    have w: "?w = take (siz - length ?d - 1) src @ [NUL]" using False by (intro strlcat_loop_spec) simp
    have "take (siz - 1) (?d @ src) = ?d @ take (siz - length ?d - 1) src" using False by (simp add: Suc_diff_Suc)
    moreover have "mem_write dst (length ?d) ?w = Inr (?d @ ?w @ drop (length ?d + length ?w) dst)"
      using assms(1) False w d(2) by (auto simp: mem_write_def min_def)
    ultimately show ?thesis using assms(1) False w by (simp add: strlcat_def strlcat_end_spec Let_def)
  qed
qed

lemma strlcat_strlcpy_witness:
  "strlcat (''ab'' @ replicate 4 NUL) ''cdef'' 5 = Inr (6, ''abcd'' @ [NUL, NUL]) \<and> strlcpy ''xyz'' ''ab'' 2 = Inr (2, ''a'' @ [NUL] @ ''z'')"
proof -
  have "siz \<le> length dst \<Longrightarrow> NUL \<notin> set src \<Longrightarrow> d = cstr (take siz dst) \<Longrightarrow> t = take (siz - 1) (d @ src) \<Longrightarrow> length d < siz \<Longrightarrow>
      strlcat dst src siz = Inr (length d + length src, t @ [NUL] @ drop (length t + 1) dst)" for siz d t dst src
    using strlcat_strlcpy [of siz dst src] by (simp add: Let_def)
  from this [of 5 "''ab'' @ replicate 4 NUL" "''cdef''" "''ab''" "''abcd''"] strlcat_strlcpy [of 2 "''xyz''" "''ab''"]
  show ?thesis by (simp add: cstr_def numeral_eq_Suc)
qed

section \<open>Properties of the output of a command\<close>

lemma strlcat_fits:
  assumes "NUL \<notin> set t" "length t + length src < siz" "siz \<le> length (t @ NUL # r)"
  shows "strlcat (t @ NUL # r) src siz = Inr (length t + length src, t @ src @ NUL # drop (length src) r)"
proof -
  have "cstr (take siz (t @ NUL # r)) = t" using assms by (cases "siz - length t") (simp_all add: cstr_terminated is_cstr_def)
  then have e: "strlcat_end siz (t @ NUL # r) = Inr (length t)" using strlcat_end_spec [OF assms(3)] by simp
  have "strlcat_loop (siz - length t) src = src @ [NUL]" using assms(2) by (simp add: strlcat_loop_spec)
  then show ?thesis using e assms by (simp add: strlcat_def mem_write_def)
qed

text \<open>The text of lines, and a block that holds a text and nothing behind it.\<close>

definition lines_text :: "char list list \<Rightarrow> char list" where
  "lines_text ls = concat (map (\<lambda>l. cstr l @ [NL]) ls)"

definition holds :: "char list \<Rightarrow> size_t \<Rightarrow> char list \<Rightarrow> bool" where
  "holds sbuf slen t \<longleftrightarrow> NUL \<notin> set t \<and> sbuf = t @ [NUL] \<and> unat slen = length t + 1"

lemma run_append_holds:
  assumes "holds sbuf slen t" "length t + length (cstr out) + 2 < 2 ^ 32"
  shows "\<exists>sbuf' slen'. run_append sbuf slen out = Inr (sbuf', slen') \<and> holds sbuf' slen' (t @ cstr out @ [NL])"
proof -
  let ?o = "cstr out"
  have h: "NUL \<notin> set t" "sbuf = t @ [NUL]" "unat slen = length t + 1" using assms(1) by (simp_all add: holds_def)
  have o: "NUL \<notin> set ?o" using is_cstr_cstr [of out] by (simp add: is_cstr_def)
  define sl where "sl = slen + word_of_nat (length ?o) + 1"
  have "unat (word_of_nat (length ?o) :: size_t) = length ?o" using assms(2) by (simp add: unat_of_nat)
  then have sl: "unat sl = length t + length ?o + 2" unfolding sl_def using h(3) assms(2) by (simp add: unat_word_ariths)
  then have nz: "sl \<noteq> 0" by (metis add_is_0 unat_0 zero_neq_numeral)
  have x: "xrealloc sbuf 1 sl = Inr (t @ NUL # replicate (length ?o + 1) NUL)"
  proof -
    have "\<not> size_max div 1 < sl" by (simp add: not_less word_le_nat_alt unat_size_max unat_le_SIZE_MAX)
    then show ?thesis using nz sl h(2) by (simp add: xrealloc_def Let_def)
  qed
  have dr: "drop n (NUL # replicate n NUL) = [NUL]" for n
    using drop_replicate [of n "Suc n" NUL] by simp
  have s1: "strlcat (t @ NUL # replicate (length ?o + 1) NUL) ?o (unat sl) = Inr (length t + length ?o, (t @ ?o) @ NUL # [NUL])"
    using strlcat_fits [of t ?o "unat sl" "replicate (length ?o + 1) NUL"] h(1) sl dr by simp
  have s2: "strlcat ((t @ ?o) @ NUL # [NUL]) [NL] (unat sl) = Inr (length (t @ ?o) + 1, (t @ ?o) @ [NL] @ NUL # [])"
    using strlcat_fits [of "t @ ?o" "[NL]" "unat sl" "[NUL]"] h(1) o sl by simp
  have "run_append sbuf slen out = Inr ((t @ ?o) @ [NL] @ [NUL], sl)"
    unfolding run_append_def Let_def sl_def [symmetric] x rbind_simps s1 prod.case s2 by simp
  then show ?thesis using h(1) o sl by (auto simp: holds_def)
qed

lemma run_loop_more:
  "run_loop pss lbuf llen sbuf slen ls c k = Inr (status, sbuf', slen', ls', c', k') \<Longrightarrow> length (lines_text ls) \<le> length (lines_text ls')"
proof (induction pss arbitrary: lbuf llen sbuf slen ls c k)
  case (Cons ps pss)
  obtain st got c1 k1 where g: "cmd_poll ps True DEFTIMEOUT lbuf llen c k = Inr (st, got, c1, k1)" "st \<noteq> - 1"
    using Cons.prems(1) by (auto simp: rbind_Inr_iff split: if_splits)
  have more: "length (lines_text ls) \<le> length (lines_text (ls @ [out]))" for out by (simp add: lines_text_def)
  show ?case
    using Cons.prems g by (auto split: if_splits option.splits sum.splits dest!: Cons.IH intro: le_trans [OF more])
qed simp

lemma run_loop_holds:
  assumes "run_loop pss lbuf llen sbuf slen ls c k = Inr (status, sbuf', slen', ls', c', k')" "holds sbuf slen (lines_text ls)"
    "length (lines_text ls') < 2 ^ 31"
  shows "holds sbuf' slen' (lines_text ls')"
  using assms
proof (induction pss arbitrary: lbuf llen sbuf slen ls c k)
  case (Cons ps pss)
  obtain st got c1 k1 where g: "cmd_poll ps True DEFTIMEOUT lbuf llen c k = Inr (st, got, c1, k1)" "st \<noteq> - 1"
    using Cons.prems(1) by (auto simp: rbind_Inr_iff split: if_splits)
  show ?case
  proof (cases "st = 0")
    case False
    then show ?thesis using Cons.prems g by auto
  next
    case True
    show ?thesis
    proof (cases "pg_out got")
      case None
      then have "run_loop pss (pg_lbuf got) (pg_llen got) sbuf slen ls c1 k1 = Inr (status, sbuf', slen', ls', c', k')"
        using Cons.prems(1) g True by simp
      from Cons.IH [OF this Cons.prems(2,3)] show ?thesis .
    next
      case (Some out)
      obtain sb sl where a: "run_append sbuf slen out = Inr (sb, sl)"
        and rest: "run_loop pss (pg_lbuf got) (pg_llen got) sb sl (ls @ [out]) c1 k1 = Inr (status, sbuf', slen', ls', c', k')"
        using Cons.prems(1) g True Some by (auto split: sum.splits)
      have more: "lines_text (ls @ [out]) = lines_text ls @ cstr out @ [NL]" by (simp add: lines_text_def)
      have "length (lines_text ls) + length (cstr out) + 2 < 2 ^ 32" using run_loop_more [OF rest] more Cons.prems(3) by simp
      then have "holds sb sl (lines_text (ls @ [out]))" using run_append_holds [OF Cons.prems(2), of out] a more by auto
      from Cons.IH [OF rest this Cons.prems(3)] show ?thesis .
    qed
  qed
qed simp

lemma strip_newlines_spec:
  "NUL \<notin> set t \<Longrightarrow> cstr (strip_newlines (t @ NUL # r) (length t)) = rev (dropWhile (\<lambda>c. c = NL) (rev t))"
proof (induction t arbitrary: r rule: rev_induct)
  case (snoc c t)
  show ?case
  proof (cases "c = NL")
    case True
    then show ?thesis using snoc.IH [of "NUL # r"] snoc.prems by (simp add: nth_append list_update_append)
  next
    case False
    then have "strip_newlines ((t @ [c]) @ NUL # r) (length (t @ [c])) = (t @ [c]) @ NUL # r" by (simp add: nth_append)
    moreover have "cstr ((t @ [c]) @ NUL # r) = t @ [c]" using snoc.prems by (intro cstr_terminated) (auto simp: is_cstr_def)
    ultimately show ?thesis using False by simp
  qed
qed (simp add: cstr_def)

text \<open>
  C37: the value of a command in the configuration is what it wrote, line by line and up to a NUL in a line, without the newlines at
  the end, when the command ends with 0; lines of errors have no part in it.
\<close>

theorem run_command_output:
  assumes "run_command ss pss s k = Inr (out, ls, k')" "length (lines_text ls) < 2 ^ 31"
  shows "out = rev (dropWhile (\<lambda>c. c = NL) (rev (lines_text ls)))"
proof -
  obtain r k0 where "cmd_start ss False True False [] k = Inr (r, k0)" "s \<noteq> []" using assms(1) by (auto simp: run_command_def rbind_Inr_iff split: if_splits)
  then obtain c lbuf sbuf slen c' k1 where l: "run_loop pss lbuf IO_LINESIZE [NUL] 1 [] c k0 = Inr (0, sbuf, slen, ls, c', k1)"
      "out = cstr (strip_newlines sbuf (unat (slen - 1)))"
    using assms(1) by (auto simp: run_command_def rbind_Inr_iff xmalloc_def mem_write_def split: sum.splits if_splits)
  have "holds [NUL] 1 (lines_text [])" by (simp add: holds_def lines_text_def)
  from run_loop_holds [OF l(1) this assms(2)] have h: "NUL \<notin> set (lines_text ls)" "sbuf = lines_text ls @ [NUL]" "unat slen = length (lines_text ls) + 1"
    by (simp_all add: holds_def)
  then have "unat (slen - 1) = length (lines_text ls)" by (subst unat_minus_one) (use h(3) in auto)
  with strip_newlines_spec [OF h(1), of "[]"] l(2) h(2) show ?thesis by simp
qed

text \<open>A command that writes a line and ends: its output is read, both of its outputs are found closed, and it is waited for.\<close>

lemma io_fill_flags:
  "io_fill i = Inr (n, i') \<Longrightarrow> \<not> io_ssl i \<Longrightarrow> \<not> io_ssl i' \<and> io_wr i' = io_wr i \<and> IOF_CLOSED i' = IOF_CLOSED i \<and>
    IOF_NEEDPUSH i' = IOF_NEEDPUSH i \<and> (IOF_NEEDFILL i' \<longrightarrow> IOF_NEEDFILL i)"
proof (induction i rule: io_fill.induct)
  case (1 i)
  obtain rd where rd: "rbind (the_buf (io_rd i)) (\<lambda>rd. buffer_ensure rd IO_WATERMARK) = Inr rd"
    using "1.prems"(1) by (subst (asm) io_fill.simps) (auto split: sum.splits)
  obtain a ins where a: "sock_read (unat (BUFFER_FREE rd)) (io_in (i\<lparr>io_rd := Some rd\<rparr>)) = (a, ins)" by fastforce
  show ?case
  proof (cases "\<exists>d. a = SockData d \<and> d \<noteq> []")
    case True
    then obtain d where d: "a = SockData d" "d \<noteq> []" by blast
    then obtain rd2 where r2: "rbind (mem_write (b_base rd) (BUFFER_IN rd) d)
        (\<lambda>mem. buffer_add (rd\<lparr>b_base := mem\<rparr>) (word_of_nat (length d))) = Inr rd2"
      using "1.prems"(1) rd a by (auto simp: io_fill.simps [of i] Let_def split: sum.splits)
    from "1.IH" [of rd "i\<lparr>io_rd := Some rd\<rparr>" "SockData d" ins d rd2] "1.prems" rd a d r2 show ?thesis
      by (simp add: io_fill.simps [of i])
  next
    case False
    then show ?thesis using "1.prems" rd a by (cases a) (auto simp: io_fill.simps [of i])
  qed
qed

text \<open>An output of the command that has been emptied, and one that was found closed then.\<close>

definition drained :: "bool \<Rightarrow> io \<Rightarrow> bool" where
  "drained shut i \<longleftrightarrow> io_in_ok i [] \<and> io_wr i = None \<and> IOF_CLOSED i = shut \<and> \<not> IOF_NEEDPUSH i \<and> \<not> IOF_NEEDFILL i"

lemma drained_simps:
  assumes "drained shut i"
  shows "io_readline2 i buf len = Inr (None, buf, len, i)" "rd_empty (Some (fd, i))"
    "fst (io_before_poll (Some i)) = (if shut then 0 else 1)" "drained True (i\<lparr>IOF_CLOSED := True\<rparr>)"
proof -
  have "next_line (io_eol i) [] = None" by (simp add: next_line_def)
  then show "io_readline2 i buf len = Inr (None, buf, len, i)"
    using io_readline2_none [of i "[]" buf len] assms by (auto simp: drained_def io_in_ok_def)
  show "rd_empty (Some (fd, i))"
    using assms length_contents by (fastforce simp: rd_empty_def drained_def io_in_ok_def BUFFER_USED_def unat_eq_zero)
  show "fst (io_before_poll (Some i)) = (if shut then 0 else 1)" "drained True (i\<lparr>IOF_CLOSED := True\<rparr>)"
    using assms by (auto simp: drained_def io_in_ok_def io_before_poll_def)
qed

definition evs :: "bool \<Rightarrow> bool \<Rightarrow> revents" where
  "evs pin hup = \<lparr>POLLIN = pin, POLLOUT = False, POLLERR = False, POLLHUP = hup\<rparr>"

definition answering :: "poll_answer \<Rightarrow> poll_sys" where
  "answering a = \<lparr>ps_write = WriteAgain, ps_poll = a, ps_wait = WaitExited 0, ps_itimer = (\<lambda>_. True), ps_timer_expired = False\<rparr>"

definition hi_polls :: "poll_sys list" where
  "hi_polls = map answering
     [PollReady [evs False False, evs True False, evs False True], PollTimeout, PollReady [evs False False, evs False True, evs False False], PollTimeout]"

definition hi_start :: start_sys where
  "hi_start = \<lparr>ss_in = True, ss_out = True, ss_err = True, ss_fork = 7, ss_outdata = [SockData (''hi'' @ [NL])], ss_errdata = []\<rparr>"

lemma hi_started:
  "\<exists>c k' n m out err. cmd_start hi_start False True False [] \<lparr>k_fds = [], k_pipes = 0, k_killed = []\<rparr> = Inr (Inr c, k') \<and>
     cmd_in c = None \<and> cmd_buf c = [] \<and> cmd_out c = Some (n, out) \<and> cmd_err c = Some (m, err) \<and>
     drained False out \<and> io_in out = [SockData (''hi'' @ [NL])] \<and> io_eol out = [NL] \<and> \<not> io_ssl out \<and> drained False err"
proof -
  obtain b where b: "buffer_create Io.IO_BLOCKSIZE = Inr b"
    by (simp add: buffer_create_def xmalloc_def Io.IO_BLOCKSIZE_def)
  then have "buffer_ok b" "contents b = []" using buffer_create_ok by auto
  then show ?thesis
    by (simp add: cmd_start_def hi_start_def stdin_pair_def stdout_pair_def sys_open_def sys_pipe_def cmd_parent_def start_io_def io_create_def b
        close_opt_def Let_def io_readonly_def drained_def io_in_ok_def)
qed

lemma hi_filled:
  assumes "drained False out" "io_in out = [SockData (''hi'' @ [NL])]" "io_eol out = [NL]" "\<not> io_ssl out" "block_ok buf len"
  shows "\<exists>out1 out2 buf' len'. io_fill out = Inr (1, out1) \<and> io_readline2 out1 buf len = Inr (Some ''hi'', buf', len', out2) \<and> drained False out2"
proof -
  obtain out1 where f: "io_fill out = Inr (1, out1)" "io_in_ok out1 (''hi'' @ [NL])" "io_eol out1 = [NL]"
    using io_fill_ok [of out "[]" "[''hi'' @ [NL]]"] assms by (auto simp: drained_def)
  have n: "next_line [NL] (''hi'' @ [NL]) = Some 2" by (simp add: next_line_def eol_at_def IO_MAXLINELEN_def upt_rec)
  obtain buf' len' out2 where r: "io_readline2 out1 buf len = Inr (Some ''hi'', buf', len', out2)" "io_in_ok out2 []"
    using io_readline2_line [OF f(2), of 2 buf len] n f(3) assms(5) by (auto simp: f(3))
  have "drained False out2"
    using io_fill_flags [OF f(1)] io_readline2_flags [OF r(1)] r(2) assms(1,4) by (auto simp: drained_def)
  with f(1) r(1) show ?thesis by blast
qed

text \<open>The command between the calls: nothing goes in, and the state of its two outputs.\<close>

definition at_poll :: "io option \<Rightarrow> io option \<Rightarrow> cmd \<Rightarrow> bool" where
  "at_poll out err c \<longleftrightarrow> cmd_in c = None \<and> cmd_buf c = [] \<and> map_option snd (cmd_out c) = out \<and> map_option snd (cmd_err c) = err"

lemmas poll_simps = cmd_poll_def cmd_write_def cmd_wait_io_def all_closed_def cmd_ios_def io_polln_def put_ios_def put_io_def
  cmd_line_def cmd_output_def cmd_closed_def io_after_poll_def closing_def evs_def answering_def

lemma hi_poll1:
  assumes c: "at_poll (Some out) (Some err) c" and out: "drained False out" "io_in out = [SockData (''hi'' @ [NL])]" "io_eol out = [NL]" "\<not> io_ssl out"
    and err: "drained False err" and b: "block_ok lbuf llen"
  shows "\<exists>got out' err' c' k'. cmd_poll (answering (PollReady [evs False False, evs True False, evs False True])) True DEFTIMEOUT lbuf llen c k =
    Inr (0, got, c', k') \<and> pg_out got = Some ''hi'' \<and> at_poll (Some out') (Some err') c' \<and> drained False out' \<and> drained True err'"
proof -
  obtain n m where c: "cmd_in c = None" "cmd_buf c = []" "cmd_out c = Some (n, out)" "cmd_err c = Some (m, err)"
    using c by (auto simp: at_poll_def)
  obtain out1 out2 buf' len' where f: "io_fill out = Inr (1, out1)" "io_readline2 out1 lbuf llen = Inr (Some ''hi'', buf', len', out2)" "drained False out2"
    using hi_filled [OF out b] by blast
  have o: "io_rd out \<noteq> None" "io_wr out = None" "\<not> IOF_NEEDPUSH out" "\<not> IOF_NEEDFILL out" using out(1) by (auto simp: drained_def io_in_ok_def)
  note e = drained_simps [OF err] drained_simps [OF drained_simps(4) [OF err]] drained_simps [OF out(1)]
  have s: "strip_cr ''hi'' x = (''hi'', x)" for x by (simp add: strip_cr_def cstr_def)
  show ?thesis using c f o e s by (simp add: poll_simps at_poll_def io_before_poll_def Let_def drained_def)
qed

lemma hi_poll2:
  assumes c: "at_poll (Some out) (Some err) c" and out: "drained False out" and err: "drained True err"
  shows "\<exists>got c' k'. cmd_poll (answering PollTimeout) True DEFTIMEOUT lbuf llen c k = Inr (0, got, c', k') \<and>
    pg_out got = None \<and> at_poll (Some out) None c'"
proof -
  obtain n m where c: "cmd_in c = None" "cmd_buf c = []" "cmd_out c = Some (n, out)" "cmd_err c = Some (m, err)"
    using c by (auto simp: at_poll_def)
  have "fst (io_before_poll None) = 1" by (simp add: io_before_poll_def)
  then show ?thesis using c by (simp add: poll_simps at_poll_def Let_def drained_simps [OF err] drained_simps [OF out])
qed

lemma hi_poll3:
  assumes c: "at_poll (Some out) None c" and out: "drained False out"
  shows "\<exists>got out' c' k'. cmd_poll (answering (PollReady [evs False False, evs False True, evs False False])) True DEFTIMEOUT lbuf llen c k =
    Inr (0, got, c', k') \<and> pg_out got = None \<and> at_poll (Some out') None c' \<and> drained True out'"
proof -
  obtain n where c: "cmd_in c = None" "cmd_buf c = []" "cmd_out c = Some (n, out)" "cmd_err c = None"
    using c by (auto simp: at_poll_def)
  note e = drained_simps [OF drained_simps(4) [OF out]] drained_simps [OF out] drained_simps(4) [OF out]
  have "fst (io_before_poll None) = 1" by (simp add: io_before_poll_def)
  then show ?thesis using c e by (simp add: poll_simps at_poll_def Let_def)
qed

lemma hi_poll4:
  assumes c: "at_poll (Some out) None c" and out: "drained True out"
  shows "\<exists>got c' k'. cmd_poll (answering PollTimeout) True DEFTIMEOUT lbuf llen c k = Inr (1, got, c', k')"
proof -
  obtain n where c: "cmd_in c = None" "cmd_buf c = []" "cmd_out c = Some (n, out)" "cmd_err c = None"
    using c by (auto simp: at_poll_def)
  have "fst (io_before_poll None) = 1" by (simp add: io_before_poll_def)
  moreover have "timer_set (\<lambda>_. True) (nat (DEFTIMEOUT div 1000)) = Inr (nat (DEFTIMEOUT div 1000))"
    by (simp add: timer_set_def DEFTIMEOUT_def timer_try.simps)
  ultimately show ?thesis using c by (simp add: poll_simps Let_def drained_simps [OF out] cmd_reap_def)
qed

lemma run_command_output_witness:
  "\<exists>k. run_command hi_start hi_polls ''echo hi'' \<lparr>k_fds = [], k_pipes = 0, k_killed = []\<rparr> = Inr (''hi'', [''hi''], k)"
proof -
  let ?k0 = "\<lparr>k_fds = [], k_pipes = 0, k_killed = []\<rparr>"
  let ?lbuf = "replicate (unat IO_LINESIZE) NUL"
  obtain c k n m out err where c: "cmd_start hi_start False True False [] ?k0 = Inr (Inr c, k)" "at_poll (Some out) (Some err) c"
      and o: "drained False out" "io_in out = [SockData (''hi'' @ [NL])]" "io_eol out = [NL]" "\<not> io_ssl out" "drained False err"
    using hi_started by (force simp: at_poll_def)
  have b: "xmalloc IO_LINESIZE = Inr ?lbuf" "block_ok ?lbuf IO_LINESIZE" by (simp_all add: xmalloc_def block_ok_def IO_LINESIZE_def)
  obtain g1 o1 e1 c1 k1 where p1: "cmd_poll (hi_polls ! 0) True DEFTIMEOUT ?lbuf IO_LINESIZE c k = Inr (0, g1, c1, k1)" "pg_out g1 = Some ''hi''"
      "at_poll (Some o1) (Some e1) c1" "drained False o1" "drained True e1"
    using hi_poll1 [OF c(2) o b(2), of k] by (auto simp: hi_polls_def)
  obtain g2 c2 k2 where p2: "cmd_poll (hi_polls ! 1) True DEFTIMEOUT (pg_lbuf g1) (pg_llen g1) c1 k1 = Inr (0, g2, c2, k2)" "pg_out g2 = None"
      "at_poll (Some o1) None c2"
    using hi_poll2 [OF p1(3,4,5), of "pg_lbuf g1" "pg_llen g1" k1] by (auto simp: hi_polls_def)
  obtain g3 o3 c3 k3 where p3: "cmd_poll (hi_polls ! 2) True DEFTIMEOUT (pg_lbuf g2) (pg_llen g2) c2 k2 = Inr (0, g3, c3, k3)" "pg_out g3 = None"
      "at_poll (Some o3) None c3" "drained True o3"
    using hi_poll3 [OF p2(3) p1(4), of "pg_lbuf g2" "pg_llen g2" k2] by (auto simp: hi_polls_def)
  obtain g4 c4 k4 where p4: "cmd_poll (hi_polls ! 3) True DEFTIMEOUT (pg_lbuf g3) (pg_llen g3) c3 k3 = Inr (1, g4, c4, k4)"
    using hi_poll4 [OF p3(3,4), of "pg_lbuf g3" "pg_llen g3" k3] by (auto simp: hi_polls_def)
  have polls: "hi_polls = [hi_polls ! 0, hi_polls ! 1, hi_polls ! 2, hi_polls ! 3]" by (simp add: hi_polls_def)
  have "holds [NUL] 1 []" by (simp add: holds_def)
  then obtain sb sl where a: "run_append [NUL] 1 ''hi'' = Inr (sb, sl)"
    using run_append_holds [of "[NUL]" 1 "[]" "''hi''"] by (auto simp: cstr_def)
  have "\<exists>out k'. run_command hi_start hi_polls ''echo hi'' ?k0 = Inr (out, [''hi''], k')"
    using c(1) b(1) p1(1,2) p2(1,2) p3(1,2) p4 a by (subst polls) (simp add: run_command_def xmalloc_def mem_write_def)
  then obtain out k' where r: "run_command hi_start hi_polls ''echo hi'' ?k0 = Inr (out, [''hi''], k')" by blast
  from run_command_output [OF r] have "out = ''hi''" by (simp add: lines_text_def cstr_def)
  with r show ?thesis by blast
qed

end
