(* ===== verification/Privsep.thy ===== *)
theory Privsep imports Io_Wire begin

text \<open>
  Messages between the processes (\<^verbatim>\<open>privsep.c\<close>): a structure as it lies in memory and a block behind it, whose size is in the
  structure. How a structure lies in memory is an argument: \<open>lo_put\<close> gives its bytes, with the size among them, and \<open>lo_get\<close>
  reads them.
\<close>

record 'm memory_layout =
  lo_size :: size_t
  lo_put :: "'m \<Rightarrow> size_t \<Rightarrow> char list"
  lo_get :: "char list \<Rightarrow> 'm \<times> size_t"

record msgbuf =
  mb_buf :: "char list option"
  mb_len :: size_t

text \<open>The calls of \<open>poll\<close> take no timeout.\<close>

definition INFTIM :: int where "INFTIM = - 1"

definition msg_size :: "msgbuf option \<Rightarrow> size_t" where
  "msg_size msgbuf = (case msgbuf of None \<Rightarrow> 0 | Some mb \<Rightarrow> if mb_buf mb \<noteq> None \<and> 0 < mb_len mb then mb_len mb else 0)"

definition privsep_send :: "'m memory_layout \<Rightarrow> io \<Rightarrow> 'm \<Rightarrow> msgbuf option \<Rightarrow> poll_answer list \<Rightarrow> (int \<times> io \<times> poll_answer list) res" where
  "privsep_send lo i msg msgbuf answers =
     rbind (io_write i (lo_put lo msg (msg_size msgbuf))) (\<lambda>i.
     rbind (io_flush i INFTIM answers) (\<lambda>(n, i, answers).
       if n \<noteq> 0 then Inr (- 1, i, answers)
       else if msg_size msgbuf = 0 then Inr (0, i, answers)
       else case msgbuf of
         None \<Rightarrow> Inl (MemErr ''msgbuf'')
       | Some mb \<Rightarrow>
           rbind (mem_read (the (mb_buf mb)) 0 (unat (mb_len mb))) (\<lambda>d.
           rbind (io_write i d) (\<lambda>i.
           rbind (io_flush i INFTIM answers) (\<lambda>(n, i, answers).
             Inr (if n \<noteq> 0 then - 1 else 0, i, answers))))))"

definition privsep_check :: "'m memory_layout \<Rightarrow> io \<Rightarrow> bool res" where
  "privsep_check lo i = rbind (the_buf (io_rd i)) (\<lambda>rd. Inr (lo_size lo \<le> BUFFER_USED rd))"

text \<open>
  What is received: the message and its size when it was read, and the block that is given to the caller if it wants one.
\<close>

definition privsep_recv :: "'m memory_layout \<Rightarrow> io \<Rightarrow> bool \<Rightarrow> poll_answer list \<Rightarrow>
    (int \<times> ('m \<times> size_t) option \<times> msgbuf \<times> io \<times> poll_answer list) res" where
  "privsep_recv lo i want answers =
     (let none = \<lparr>mb_buf = None, mb_len = 0\<rparr> in
      rbind (io_wait i (lo_size lo) INFTIM answers) (\<lambda>(n, i, answers).
        if n \<noteq> 0 then Inr (- 1, None, none, i, answers)
        else rbind (io_read2 i (lo_size lo)) (\<lambda>(n, d, i).
          if n \<noteq> 0 then Inr (- 1, None, none, i, answers)
          else (case lo_get lo d of (msg, sz) \<Rightarrow>
            if sz = 0 then Inr (0, Some (msg, sz), none, i, answers)
            else rbind (io_wait i sz INFTIM answers) (\<lambda>(n, i, answers).
              if n \<noteq> 0 then Inr (- 1, Some (msg, sz), none, i, answers)
              else rbind (io_read i sz) (\<lambda>(d, i). case d of
                None \<Rightarrow> Inr (- 1, Some (msg, sz), none, i, answers)
              | Some d \<Rightarrow> Inr (0, Some (msg, sz), if want then \<lparr>mb_buf = Some d, mb_len = sz\<rparr> else none, i, answers)))))))"

section \<open>Properties\<close>

text \<open>A structure is read as it was put there, whatever its bytes are.\<close>

definition layout_ok :: "'m memory_layout \<Rightarrow> bool" where
  "layout_ok lo \<longleftrightarrow> 0 < lo_size lo \<and> unat (lo_size lo) < 2 ^ 32 \<and>
     (\<forall>m sz. length (lo_put lo m sz) = unat (lo_size lo) \<and> lo_get lo (lo_put lo m sz) = (m, sz))"

lemma io_flush_wire:
  "io_flush i timeout answers = Inr (0, i', answers') \<Longrightarrow> wire i t \<Longrightarrow> length t < 2 ^ 62 \<Longrightarrow> wire i' t \<and> io_sent i' = t"
proof (induction answers arbitrary: i)
  case Nil
  obtain s wr where w: "io_sent i @ s = t" "io_wr i = Some wr" "buffer_ok wr" "contents wr = s"
    using Nil.prems(2) by (auto simp: wire_def io_out_ok_def)
  have "BUFFER_USED wr = 0" "i' = i" using Nil.prems(1) w by (auto simp: io_flush.simps [of i] split: if_splits)
  then have "s = []" using length_contents [OF w(3)] w(4) by (simp add: BUFFER_USED_def)
  then show ?case using w Nil.prems(2) \<open>i' = i\<close> by simp
next
  case (Cons a as)
  obtain s wr where w: "io_sent i @ s = t" "io_wr i = Some wr" "buffer_ok wr" "contents wr = s"
    using Cons.prems(2) by (auto simp: wire_def io_out_ok_def)
  show ?case
  proof (cases "BUFFER_USED wr = 0")
    case True
    then have "s = []" using length_contents [OF w(3)] w(4) by (simp add: BUFFER_USED_def)
    moreover have "i' = i" using Cons.prems(1) w True by (simp add: io_flush.simps [of i])
    ultimately show ?thesis using w Cons.prems(2) by simp
  next
    case False
    then obtain r j where a: "io_poll i timeout a = Inr (r, j)" "fst r = 1" "io_flush j timeout as = Inr (0, i', answers')"
      using Cons.prems(1) w by (auto simp: io_flush.simps [of i] rbind_Inr_iff split: if_splits)
    from Cons.IH [OF a(3)] io_poll_wire [OF a(1,2) Cons.prems(2,3)] Cons.prems(3) show ?thesis by blast
  qed
qed

text \<open>The bytes of a message and of its block.\<close>

definition msg_bytes :: "'m memory_layout \<Rightarrow> 'm \<Rightarrow> char list \<Rightarrow> char list" where
  "msg_bytes lo msg d = lo_put lo msg (word_of_nat (length d)) @ d"

lemma privsep_send_bytes:
  assumes lo: "layout_ok lo" and sent: "privsep_send lo i msg mb answers = Inr (0, i', answers')"
    and mb: "mb = (if d = [] then None else Some \<lparr>mb_buf = Some d, mb_len = word_of_nat (length d)\<rparr>)" and d: "length d < 2 ^ 32"
    and w: "wire i t" "length t < 2 ^ 61"
  shows "io_sent i' = t @ msg_bytes lo msg d"
proof -
  have u: "unat (word_of_nat (length d) :: size_t) = length d" using d by (simp add: unat_of_nat)
  then have z: "(word_of_nat (length d) :: size_t) = 0 \<longleftrightarrow> d = []" by (metis length_0_conv unat_eq_zero)
  have sz: "msg_size mb = word_of_nat (length d)" using mb z by (auto simp: msg_size_def word_neq_0_conv)
  let ?h = "lo_put lo msg (word_of_nat (length d))"
  have hl: "length ?h = unat (lo_size lo)" "0 < unat (lo_size lo)" "unat (lo_size lo) < 2 ^ 32" using lo by (auto simp: layout_ok_def word_less_nat_alt)
  then have h: "?h \<noteq> []" "length ?h < 2 ^ 32" "length t + length ?h < 2 ^ 62" "length (t @ ?h) < 2 ^ 62"
    using w(2) by auto
  obtain j where j: "io_write i ?h = Inr j" "wire j (t @ ?h)" using io_write_wire [OF w(1) h(1,3)] by blast
  then obtain n k as where k: "io_flush j INFTIM answers = Inr (n, k, as)" "n = 0"
    using sent sz by (auto simp: privsep_send_def rbind_Inr_iff split: if_splits)
  have kw: "wire k (t @ ?h)" "io_sent k = t @ ?h" using io_flush_wire [of j INFTIM answers k as "t @ ?h"] k j(2) h(4) by auto
  show ?thesis
  proof (cases "d = []")
    case True
    then show ?thesis using sent sz z j k kw by (simp add: privsep_send_def msg_bytes_def)
  next
    case False
    have l: "length (t @ ?h) + length d < 2 ^ 62" using h(2) d w(2) by simp
    obtain q where q: "io_write k d = Inr q" "wire q ((t @ ?h) @ d)" using io_write_wire [OF kw(1) False l] by blast
    have "mem_read d 0 (length d) = Inr d" by (simp add: mem_read_def)
    then have f: "io_flush q INFTIM as = Inr (0, i', answers')"
      using sent sz z j k q mb False u by (auto simp: privsep_send_def rbind_Inr_iff split: if_splits)
    have "length ((t @ ?h) @ d) < 2 ^ 62" using l by simp
    from io_flush_wire [OF f q(2) this] show ?thesis by (simp add: msg_bytes_def)
  qed
qed

lemma privsep_recv_bytes:
  assumes lo: "layout_ok lo" and b: "both_ok i w (msg_bytes lo msg d @ rest)" and d: "length d < 2 ^ 32" and rest: "length rest < 2 ^ 61"
  shows "\<exists>j. privsep_check lo i = Inr True \<and> privsep_recv lo i True answers =
      Inr (0, Some (msg, word_of_nat (length d)), if d = [] then \<lparr>mb_buf = None, mb_len = 0\<rparr> else \<lparr>mb_buf = Some d, mb_len = word_of_nat (length d)\<rparr>, j, answers) \<and>
    both_ok j w rest"
proof -
  have u: "unat (word_of_nat (length d) :: size_t) = length d" using d by (simp add: unat_of_nat)
  then have z: "(word_of_nat (length d) :: size_t) = 0 \<longleftrightarrow> d = []" by (metis length_0_conv unat_eq_zero)
  let ?h = "lo_put lo msg (word_of_nat (length d))"
  have hl: "length ?h = unat (lo_size lo)" "0 < unat (lo_size lo)" "unat (lo_size lo) < 2 ^ 32" using lo by (auto simp: layout_ok_def word_less_nat_alt)
  then have h: "?h \<noteq> []" "length ?h < 2 ^ 32" "unat (lo_size lo) = length ?h" by auto
  have get: "lo_get lo ?h = (msg, word_of_nat (length d))" using lo by (simp add: layout_ok_def)
  have b1: "both_ok i w (?h @ (d @ rest))" "length (?h @ (d @ rest)) < 2 ^ 62" using b h(2) d rest by (simp_all add: msg_bytes_def)
  obtain j where j: "io_wait i (lo_size lo) INFTIM answers = Inr (0, i, answers)" "io_read2 i (lo_size lo) = Inr (0, ?h, j)" "both_ok j w (d @ rest)"
    using both_taken [OF b1(1) h(1) b1(2) h(3)] by blast
  have c: "privsep_check lo i = Inr True"
  proof -
    obtain rd where rd: "io_rd i = Some rd" "buffer_ok rd" "contents rd = ?h @ (d @ rest)" using b1(1) by (auto simp: both_ok_def io_in_ok_def)
    then have "unat (b_size rd) = length (?h @ (d @ rest))" using length_contents [OF rd(2)] by simp
    then have "lo_size lo \<le> BUFFER_USED rd" using h(3) by (simp add: word_le_nat_alt BUFFER_USED_def)
    with rd(1) show ?thesis by (simp add: privsep_check_def)
  qed
  show ?thesis
  proof (cases "d = []")
    case True
    then show ?thesis using c j get by (simp add: privsep_recv_def)
  next
    case False
    have l: "length (d @ rest) < 2 ^ 62" using b1(2) by simp
    obtain k where k: "io_wait j (word_of_nat (length d)) INFTIM answers = Inr (0, j, answers)" "io_read j (word_of_nat (length d)) = Inr (Some d, k)" "both_ok k w rest"
      using both_taken [OF j(3) False l u] by blast
    then show ?thesis using c j get z False by (simp add: privsep_recv_def)
  qed
qed

text \<open>
  C26: a message with its block goes from one process to another unchanged: when it is sent, what was written is what a process
  at the other end finds to be a message and reads as the same message with the same block, and what has come behind it is left
  in the buffer.
\<close>

theorem privsep_roundtrip:
  assumes lo: "layout_ok lo" and sent: "privsep_send lo i msg mb answers = Inr (0, i', answers')"
    and mb: "mb = (if d = [] then None else Some \<lparr>mb_buf = Some d, mb_len = word_of_nat (length d)\<rparr>)" and d: "length d < 2 ^ 32"
    and w: "wire i t" "length t < 2 ^ 61" and r: "both_ok j u (drop (length t) (io_sent i') @ rest)" "length rest < 2 ^ 61"
  shows "\<exists>k. privsep_check lo j = Inr True \<and> both_ok k u rest \<and> privsep_recv lo j True as =
    Inr (0, Some (msg, word_of_nat (length d)), case mb of None \<Rightarrow> \<lparr>mb_buf = None, mb_len = 0\<rparr> | Some b \<Rightarrow> b, k, as)"
proof -
  have "io_sent i' = t @ msg_bytes lo msg d" by (rule privsep_send_bytes [OF lo sent mb d w])
  then have "both_ok j u (msg_bytes lo msg d @ rest)" using r(1) by simp
  from privsep_recv_bytes [OF lo this d r(2), of as] show ?thesis using mb by auto
qed

text \<open>A layout: one byte for the message and eight for the size.\<close>

fun put_bytes :: "nat \<Rightarrow> nat \<Rightarrow> char list" where
  "put_bytes 0 n = []"
| "put_bytes (Suc k) n = char_of (n mod 256) # put_bytes k (n div 256)"

fun get_bytes :: "char list \<Rightarrow> nat" where
  "get_bytes [] = 0"
| "get_bytes (c # cs) = of_char c + 256 * get_bytes cs"

lemma put_bytes_length: "length (put_bytes k n) = k"
  by (induction k arbitrary: n) auto

lemma get_put_bytes: "n < 256 ^ k \<Longrightarrow> get_bytes (put_bytes k n) = n"
proof (induction k arbitrary: n)
  case (Suc k)
  then have "n div 256 < 256 ^ k" by (simp add: less_mult_imp_div_less mult.commute)
  with Suc.IH show ?case by simp
qed simp

definition sample_layout :: "char memory_layout" where
  "sample_layout = \<lparr>lo_size = 9, lo_put = (\<lambda>m sz. m # put_bytes 8 (unat sz)), lo_get = (\<lambda>s. (hd s, word_of_nat (get_bytes (tl s))))\<rparr>"

lemma sample_layout_ok: "layout_ok sample_layout"
proof -
  have "get_bytes (put_bytes 8 (unat sz)) = unat sz" for sz :: size_t
  proof (rule get_put_bytes)
    show "unat sz < 256 ^ 8" using unsigned_less [of sz, where ?'a = nat] by simp
  qed
  then show ?thesis by (simp add: layout_ok_def sample_layout_def put_bytes_length)
qed

text \<open>A connection that takes everything at once.\<close>

definition out_ready :: poll_answer where
  "out_ready = PollReady [\<lparr>POLLIN = False, POLLOUT = True, POLLERR = False, POLLHUP = False\<rparr>]"

lemma flush_all:
  assumes o: "io_out_ok i s" "s \<noteq> []" "length s < 2 ^ 60" and out: "io_out i = SockTake n # outs" "length s \<le> n"
    and flags: "\<not> IOF_NEEDPUSH i" "\<not> IOF_NEEDFILL i" "\<not> IOF_CLOSED i"
  shows "\<exists>j. io_flush i timeout (out_ready # answers) = Inr (0, j, answers)"
proof -
  obtain wr where w: "io_wr i = Some wr" "buffer_ok wr" "contents wr = s" "io_error i = None" using o(1) by (auto simp: io_out_ok_def)
  have len: "unat (b_size wr) = length s" using length_contents [OF w(2)] w(3) by simp
  then have used: "BUFFER_USED wr \<noteq> 0" "unat (BUFFER_USED wr) = length s" using o(2) by (auto simp: BUFFER_USED_def)
  obtain wr' where wr': "buffer_remove wr (word_of_nat (length s)) = Inr wr'" "buffer_ok wr'" "contents wr' = []"
    using buffer_take(2) [OF w(2), of "length s"] w(3) o(2,3) by auto
  have empty: "BUFFER_USED wr' = 0" using length_contents [OF wr'(2)] wr'(3) by (simp add: BUFFER_USED_def unat_eq_zero)
  have s: "sock_write (length s) (SockTake n # outs) = (SockTake (length s), outs)" using out(2) o(2) by (auto simp: min_def)
  have r: "mem_read (b_base wr) (BUFFER_OUT wr) (length s) = Inr s" using buffer_bytes [OF w(2), of "length s"] w(3) by simp
  have "\<exists>j. io_push i = Inr (1, j) \<and> io_wr j = Some wr'"
    using w(1) used out(1) s r wr'(1) by (simp add: io_push_def)
  then obtain j where j: "io_push i = Inr (1, j)" "io_wr j = Some wr'" by blast
  have "io_poll i timeout out_ready = Inr ((1, None, None), j)"
    using w flags j by (simp add: io_poll_def io_polln_def out_ready_def io_before_poll_def io_after_poll_def closing_def)
  then show ?thesis using w(1) used(1) j(2) empty by (auto simp: io_flush.simps [of i] io_flush.simps [of j])
qed

definition sample_sender :: io where
  "sample_sender = (sample_io [] [NL])\<lparr>io_out := [SockTake 99]\<rparr>"

lemma privsep_sample_sent: "\<exists>i'. privsep_send sample_layout sample_sender CHR ''a'' None [out_ready] = Inr (0, i', [])"
proof -
  let ?h = "lo_put sample_layout CHR ''a'' 0"
  have h: "?h \<noteq> []" "length ?h = 9" by (simp_all add: sample_layout_def put_bytes_length)
  have o: "io_out_ok sample_sender []" using sample_io_ok(2) [of "[NL]" "[]"] by (simp add: sample_sender_def io_out_ok_def)
  obtain wr where wr: "io_write sample_sender ?h = Inr (sample_sender\<lparr>io_wr := Some wr\<rparr>)" "io_out_ok (sample_sender\<lparr>io_wr := Some wr\<rparr>) ?h"
    using io_write_ok [OF o h(1)] h(2) by auto
  obtain j where "io_flush (sample_sender\<lparr>io_wr := Some wr\<rparr>) INFTIM [out_ready] = Inr (0, j, [])"
    using flush_all [OF wr(2) h(1), of 99 "[]" INFTIM "[]"] h(2) by (auto simp: sample_sender_def sample_io_def)
  with wr(1) show ?thesis by (simp add: privsep_send_def msg_size_def)
qed

lemma privsep_roundtrip_witness:
  "\<exists>i' j k. privsep_send sample_layout sample_sender CHR ''a'' None [out_ready] = Inr (0, i', []) \<and>
     privsep_recv sample_layout j True [] = Inr (0, Some (CHR ''a'', 0), \<lparr>mb_buf = None, mb_len = 0\<rparr>, k, []) \<and> both_ok k [] ''next''"
proof -
  obtain i' where i': "privsep_send sample_layout sample_sender CHR ''a'' None [out_ready] = Inr (0, i', [])"
    using privsep_sample_sent by blast
  have w: "wire sample_sender []" using sample_io_ok(2) [of "[NL]" "[]"] by (simp add: wire_def sample_sender_def io_out_ok_def sample_io_def)
  have "io_sent i' = [] @ msg_bytes sample_layout CHR ''a'' []" by (rule privsep_send_bytes [OF sample_layout_ok i' _ _ w]) simp_all
  then have len: "length (io_sent i') = 9" by (simp add: msg_bytes_def sample_layout_def put_bytes_length)
  let ?j = "sample_io (io_sent i' @ ''next'') [NL]"
  have r: "both_ok ?j [] (drop (length []) (io_sent i') @ ''next'')"
    using sample_io_ok(1,2) [of "[NL]" "io_sent i' @ ''next''"] len by (simp add: both_ok_def)
  from privsep_roundtrip [OF sample_layout_ok i' _ _ w _ r, of "[]" "[]"] i' show ?thesis by auto
qed

end
