(* ===== verification/Fdm_Main.thy ===== *)
theory Fdm_Main imports Match begin

text \<open>
  The main program (\<^verbatim>\<open>fdm.c\<close>) with the start of children (\<^verbatim>\<open>child.c\<close>): the command line, the choice of accounts, giving
  up privileges, and the loop of the parent that starts a child for each account, handles the messages of the children and
  collects those that have ended. What the system answers in a turn of the loop is an argument.
\<close>

section \<open>The command line\<close>

record options =
  opt_incl :: "char list list"
  opt_excl :: "char list list"
  opt_macros :: "char list list"
  opt_conf_file :: "char list option"
  opt_home :: "char list option"
  opt_keep_all :: bool
  opt_syslog :: bool
  opt_allow_many :: bool
  opt_check_only :: bool
  opt_def_user :: "char list option"
  opt_debug :: int

definition no_options :: options where
  "no_options = \<lparr>opt_incl = [], opt_excl = [], opt_macros = [], opt_conf_file = None, opt_home = None, opt_keep_all = False,
     opt_syslog = False, opt_allow_many = False, opt_check_only = False, opt_def_user = None, opt_debug = 0\<rparr>"

text \<open>One option that \<open>getopt\<close> found, with its argument; \<open>None\<close> for the message about the usage.\<close>

definition set_option :: "char list option \<Rightarrow> char \<Rightarrow> char list \<Rightarrow> options \<Rightarrow> options option" where
  "set_option home opt optarg cf =
     (if opt = CHR ''a'' then Some (cf\<lparr>opt_incl := opt_incl cf @ [optarg]\<rparr>)
      else if opt = CHR ''D'' then Some (cf\<lparr>opt_macros := opt_macros cf @ [optarg]\<rparr>)
      else if opt = CHR ''f'' then Some (if opt_conf_file cf = None then cf\<lparr>opt_conf_file := Some optarg\<rparr> else cf)
      else if opt = CHR ''h'' then Some (cf\<lparr>opt_home := home\<rparr>)
      else if opt = CHR ''k'' then Some (cf\<lparr>opt_keep_all := True\<rparr>)
      else if opt = CHR ''l'' then Some (cf\<lparr>opt_syslog := True\<rparr>)
      else if opt = CHR ''m'' then Some (cf\<lparr>opt_allow_many := True\<rparr>)
      else if opt = CHR ''n'' then Some (cf\<lparr>opt_check_only := True\<rparr>)
      else if opt = CHR ''u'' then Some (if opt_def_user cf = None then cf\<lparr>opt_def_user := Some optarg\<rparr> else cf)
      else if opt = CHR ''v'' then Some (if opt_debug cf \<noteq> - 1 then cf\<lparr>opt_debug := opt_debug cf + 1\<rparr> else cf)
      else if opt = CHR ''q'' then Some (cf\<lparr>opt_debug := - 1\<rparr>)
      else if opt = CHR ''x'' then Some (cf\<lparr>opt_excl := opt_excl cf @ [optarg]\<rparr>)
      else None)"

fun set_options :: "char list option \<Rightarrow> (char \<times> char list) list \<Rightarrow> options \<Rightarrow> options option" where
  "set_options home [] cf = Some cf"
| "set_options home ((opt, optarg) # os) cf = (case set_option home opt optarg cf of
     None \<Rightarrow> None | Some cf \<Rightarrow> set_options home os cf)"

text \<open>The operation, by a prefix of its name. An empty argument is a prefix of the first.\<close>

datatype fdmop = FDMOP_NONE | FDMOP_POLL | FDMOP_FETCH | FDMOP_CACHE

definition abbreviates :: "char list \<Rightarrow> char list \<Rightarrow> bool" where
  "abbreviates arg name \<longleftrightarrow> take (length arg) (name @ [NUL]) = arg"

definition find_op :: "bool \<Rightarrow> char list list \<Rightarrow> fdmop option" where
  "find_op check_only argv =
     (if check_only then (if argv = [] then Some FDMOP_NONE else None)
      else case argv of
        [] \<Rightarrow> None
      | arg # args \<Rightarrow>
          if abbreviates arg ''poll'' then (if args = [] then Some FDMOP_POLL else None)
          else if abbreviates arg ''fetch'' then (if args = [] then Some FDMOP_FETCH else None)
          else if abbreviates arg ''cache'' then Some FDMOP_CACHE
          else None)"

section \<open>Settings that are filled in\<close>

definition DEFMAILQUEUE :: int where "DEFMAILQUEUE = 2"
definition CONFFILE :: "char list" where "CONFFILE = ''.fdm.conf''"
definition SYSCONFFILE :: "char list" where "SYSCONFFILE = ''/etc/fdm.conf''"
definition LOCKFILE :: "char list" where "LOCKFILE = ''.fdm.lock''"
definition SYSLOCKFILE :: "char list" where "SYSLOCKFILE = ''/var/run/fdm.lock''"

definition queue_limits :: "int \<Rightarrow> int \<Rightarrow> int \<times> int" where
  "queue_limits high low =
     (let high = (if high = - 1 then DEFMAILQUEUE else high) in
      (high, if low = - 1 then (let low = c_div (high * 3) 4 in if high \<le> low then high - 1 else low) else low))"

text \<open>The files: \<open>access\<close> says whether a file can be read.\<close>

definition find_conf_file :: "(char list \<Rightarrow> bool) \<Rightarrow> char list \<Rightarrow> char list option \<Rightarrow> char list" where
  "find_conf_file access home conf_file = (case conf_file of
     Some f \<Rightarrow> f
   | None \<Rightarrow> (let f = home @ ''/'' @ CONFFILE in if access f then f else SYSCONFFILE))"

definition find_lock_file :: "nat \<Rightarrow> char list \<Rightarrow> char list option \<Rightarrow> char list" where
  "find_lock_file euid home lock_file = (case lock_file of
     Some f \<Rightarrow> f | None \<Rightarrow> if euid = 0 then SYSLOCKFILE else home @ ''/'' @ LOCKFILE)"

function strip_tmp :: "char list \<Rightarrow> char list" where
  "strip_tmp s = (if 1 < length s \<and> last s = CHR ''/'' then strip_tmp (butlast s) else s)"
  by pat_completeness auto
termination by (relation "measure length") auto

declare strip_tmp.simps [simp del]

definition find_tmp_dir :: "(char list \<Rightarrow> bool) \<Rightarrow> char list option \<Rightarrow> char list" where
  "find_tmp_dir isdir env = strip_tmp (case env of
     None \<Rightarrow> ''/tmp/'' | Some s \<Rightarrow> if s = [] \<or> \<not> isdir s then ''/tmp/'' else s)"

section \<open>Accounts\<close>

record account_ref =
  ar_name :: "char list"
  ar_disabled :: bool

definition check_incl :: "(char list \<Rightarrow> char list \<Rightarrow> bool) \<Rightarrow> char list list \<Rightarrow> char list \<Rightarrow> bool" where
  "check_incl fnm incl name \<longleftrightarrow> incl = [] \<or> list_ex (\<lambda>p. fnm p name) incl"

definition check_excl :: "(char list \<Rightarrow> char list \<Rightarrow> bool) \<Rightarrow> char list list \<Rightarrow> char list \<Rightarrow> bool" where
  "check_excl fnm excl name \<longleftrightarrow> excl \<noteq> [] \<and> list_ex (\<lambda>p. fnm p name) excl"

text \<open>\<open>None\<close> for an account to use, else the cause.\<close>

definition use_account :: "(char list \<Rightarrow> char list \<Rightarrow> bool) \<Rightarrow> char list list \<Rightarrow> char list list \<Rightarrow> account_ref \<Rightarrow> char list option" where
  "use_account fnm incl excl a =
     (if \<not> check_incl fnm incl (ar_name a) then Some (''account '' @ ar_name a @ '' is not included'')
      else if check_excl fnm excl (ar_name a) then Some (''account '' @ ar_name a @ '' is excluded'')
      else if ar_disabled a \<and> incl = [] then Some (''account '' @ ar_name a @ '' is disabled'')
      else None)"

text \<open>Every account to use goes to the head of the list.\<close>

definition active_accounts :: "(char list \<Rightarrow> char list \<Rightarrow> bool) \<Rightarrow> char list list \<Rightarrow> char list list \<Rightarrow> account_ref list \<Rightarrow> account_ref list" where
  "active_accounts fnm incl excl as = fold (\<lambda>a q. if use_account fnm incl excl a = None then a # q else q) as []"

section \<open>Privileges\<close>

text \<open>Groups, and the real, effective and saved ids of a process. The flags say which of the calls succeed.\<close>

record ids =
  id_groups :: "nat list"
  id_gids :: "nat \<times> nat \<times> nat"
  id_uids :: "nat \<times> nat \<times> nat"

definition ID_NONE :: nat where "ID_NONE = 2 ^ 32 - 1"

definition dropto :: "bool \<times> bool \<times> bool \<Rightarrow> nat \<Rightarrow> nat \<Rightarrow> ids \<Rightarrow> ids res" where
  "dropto oks uid gid s =
     (if uid = ID_NONE \<or> uid = 0 then Inr s
      else if gid = ID_NONE \<or> gid = 0 then Inr s
      else case oks of (groups, setgid, setuid) \<Rightarrow>
        if \<not> groups then Inl (FatalX ''setgroups failed'')
        else if \<not> setgid then Inl (FatalX ''setresgid failed'')
        else if \<not> setuid then Inl (FatalX ''setresuid failed'')
        else Inr (s\<lparr>id_groups := [gid], id_gids := (gid, gid, gid), id_uids := (uid, uid, uid)\<rparr>))"

section \<open>Children\<close>

text \<open>
  A child of the parent: the child it was started for, whether its io is open, the messages that have come and those that were
  sent to it.
\<close>

record 'm child =
  ch_pid :: nat
  ch_parent :: "nat option"
  ch_io :: bool
  ch_in :: "'m list"
  ch_out :: "'m list"

text \<open>The first child with a message.\<close>

definition check_children :: "'m child list \<Rightarrow> nat option" where
  "check_children children =
     (case List.find (\<lambda>i. ch_io (children ! i) \<and> ch_in (children ! i) \<noteq> []) [0..<length children] of
        None \<Rightarrow> None | Some i \<Rightarrow> Some i)"

datatype child_status = NoneWaiting | NoChildren | WaitError | ChildExited nat int | ChildSignaled nat int | ChildOdd nat

record 'm family =
  fam_children :: "'m child list"
  fam_dead :: "'m child list"
  fam_killed :: "nat list"

definition find_pid :: "nat \<Rightarrow> 'm child list \<Rightarrow> nat option" where
  "find_pid pid children = List.find (\<lambda>i. ch_pid (children ! i) = pid) [0..<length children]"

text \<open>A child that has ended goes to the dead ones and those that were started for it are killed.\<close>

definition bury :: "nat \<Rightarrow> 'm family \<Rightarrow> 'm family" where
  "bury pid f = (case find_pid pid (fam_children f) of
     None \<Rightarrow> f
   | Some i \<Rightarrow>
       (let child = (fam_children f ! i)\<lparr>ch_io := False\<rparr>; children = take i (fam_children f) @ drop (i + 1) (fam_children f) in
        f\<lparr>fam_children := children, fam_dead := fam_dead f @ [child],
          fam_killed := fam_killed f @ map ch_pid (filter (\<lambda>c. ch_parent c = Some (ch_pid child)) children)\<rparr>))"

text \<open>The result is that of the two ways out of the loop: the one that was noted for a child is not used.\<close>

fun wait_children :: "child_status list \<Rightarrow> int \<Rightarrow> 'm family \<Rightarrow> (int \<times> 'm family) res" where
  "wait_children [] retcode f = Inl (Diverges ''waitpid'')"
| "wait_children (NoneWaiting # ws) retcode f = Inr (0, f)"
| "wait_children (NoChildren # ws) retcode f = Inr (0, f)"
| "wait_children (WaitError # ws) retcode f = Inl (FatalX ''waitpid failed'')"
| "wait_children (ChildSignaled pid sig # ws) retcode f = wait_children ws 1 (bury pid f)"
| "wait_children (ChildOdd pid # ws) retcode f = wait_children ws 1 (bury pid f)"
| "wait_children (ChildExited pid status # ws) retcode f = wait_children ws (if status \<noteq> 0 then 1 else retcode) (bury pid f)"

section \<open>The loop of the parent\<close>

record 'm parent =
  pa_actaq :: "account_ref list"
  pa_family :: "'m family"
  pa_started :: "(nat \<times> account_ref) list"
  pa_res :: int

text \<open>
  What happens in a turn: whether a signal has come, the ids of the processes that \<open>fork\<close> gives, the messages that come
  with their children and the child whose io \<open>poll\<close> finds dead, and the answers of \<open>waitpid\<close>,
  while the parent sleeps and after a signal about a child.
\<close>

record 'm turn =
  tn_stop :: bool
  tn_pids :: "nat list"
  tn_arrive :: "(nat \<times> 'm list) list"
  tn_dead :: "nat option"
  tn_sleep :: "child_status list"
  tn_sigchld :: bool
  tn_wait :: "child_status list"

definition new_child :: "nat \<Rightarrow> nat option \<Rightarrow> 'm child" where
  "new_child pid parent = \<lparr>ch_pid = pid, ch_parent = parent, ch_io = True, ch_in = [], ch_out = []\<rparr>"

text \<open>While there is space, the next account; no limit when \<open>max_accts\<close> is negative.\<close>

fun start_accounts :: "int \<Rightarrow> nat list \<Rightarrow> account_ref list \<Rightarrow> 'm parent \<Rightarrow> 'm parent res" where
  "start_accounts max_accts pids [] p = Inr (p\<lparr>pa_actaq := []\<rparr>)"
| "start_accounts max_accts pids (a # as) p =
     (if 0 \<le> max_accts \<and> max_accts \<le> int (length (fam_children (pa_family p))) then Inr (p\<lparr>pa_actaq := a # as\<rparr>)
      else case pids of
        [] \<Rightarrow> Inl (FatalX ''fork failed'')
      | pid # pids \<Rightarrow> start_accounts max_accts pids as (p\<lparr>pa_started := pa_started p @ [(pid, a)],
          pa_family := (pa_family p)\<lparr>fam_children := fam_children (pa_family p) @ [new_child pid None]\<rparr>\<rparr>))"

text \<open>
  A handler is what \<open>child->msg\<close> does with a message: whether the child is ready to exit, the process it started for the child,
  if any, and the answers that were sent.
\<close>

type_synonym 'm handler = "'m child \<Rightarrow> 'm \<Rightarrow> (bool \<times> nat option \<times> (nat \<times> 'm) list) res"

definition deliver_to :: "(nat \<times> 'm) list \<Rightarrow> 'm child \<Rightarrow> 'm child" where
  "deliver_to ms c = c\<lparr>ch_out := ch_out c @ map snd (filter (\<lambda>(pid, m). pid = ch_pid c) ms)\<rparr>"

definition inbox :: "'m child list \<Rightarrow> nat" where
  "inbox children = sum_list (map (\<lambda>c. length (ch_in c)) children)"

definition handle_one :: "'m handler \<Rightarrow> 'm \<Rightarrow> 'm child list \<Rightarrow> nat \<Rightarrow> 'm child list res" where
  "handle_one msg exit_msg children i =
     (let child = children ! i in
      rbind (msg child (hd (ch_in child))) (\<lambda>(ready, started, sent).
        let children = children[i := child\<lparr>ch_in := tl (ch_in child)\<rparr>] @ (case started of None \<Rightarrow> [] | Some pid \<Rightarrow> [new_child pid (Some (ch_pid child))])
        in Inr (map (deliver_to (sent @ (if ready then [(ch_pid child, exit_msg)] else []))) children)))"

lemma check_children_Some: "check_children cs = Some i \<Longrightarrow> i < length cs \<and> ch_io (cs ! i) \<and> ch_in (cs ! i) \<noteq> []"
  by (auto simp: check_children_def find_Some_iff split: option.splits)

lemma inbox_deliver [simp]: "inbox (map (deliver_to ms) cs) = inbox cs"
  by (simp add: inbox_def deliver_to_def comp_def)

lemma inbox_update: "i < length cs \<Longrightarrow> ch_in (cs ! i) \<noteq> [] \<Longrightarrow> inbox (cs[i := (cs ! i)\<lparr>ch_in := tl (ch_in (cs ! i))\<rparr>]) < inbox cs"
  by (induction cs arbitrary: i) (auto simp: inbox_def nth_Cons' split: nat.splits)

lemma handle_one_shape:
  fixes cs :: "'m child list"
  assumes "handle_one msg exit_msg cs i = Inr cs'"
  shows "\<exists>ms started. cs' = map (deliver_to ms) (cs[i := (cs ! i)\<lparr>ch_in := tl (ch_in (cs ! i))\<rparr>] @ map (\<lambda>pid. new_child pid (Some (ch_pid (cs ! i)))) started)"
proof -
  obtain ready started sent where r: "cs' = map (deliver_to (sent @ (if ready then [(ch_pid (cs ! i), exit_msg)] else [])))
      (cs[i := (cs ! i)\<lparr>ch_in := tl (ch_in (cs ! i))\<rparr>] @ (case started of None \<Rightarrow> [] | Some pid \<Rightarrow> [new_child pid (Some (ch_pid (cs ! i)))]))"
    using assms unfolding handle_one_def Let_def rbind_Inr_iff by auto
  have "(case started of None \<Rightarrow> [] | Some pid \<Rightarrow> [new_child pid q :: 'm child]) = map (\<lambda>pid. new_child pid q) (case started of None \<Rightarrow> [] | Some pid \<Rightarrow> [pid])" for q
    by (cases started) simp_all
  then show ?thesis unfolding r by (intro exI) (rule arg_cong [of _ _ "map _"], simp)
qed

lemma handle_one_inbox:
  assumes "handle_one msg exit_msg cs i = Inr cs'" "check_children cs = Some i"
  shows "inbox cs' < inbox cs"
proof -
  obtain ms started where c: "cs' = map (deliver_to ms) (cs[i := (cs ! i)\<lparr>ch_in := tl (ch_in (cs ! i))\<rparr>] @
      map (\<lambda>pid. new_child pid (Some (ch_pid (cs ! i)))) started)" using handle_one_shape [OF assms(1)] by blast
  have "inbox (map (\<lambda>pid. new_child pid q :: 'a child) xs) = 0" for q xs by (induction xs) (auto simp: inbox_def new_child_def)
  moreover have "inbox (a @ b) = inbox a + inbox b" for a b :: "'a child list" by (simp add: inbox_def)
  moreover have "inbox (cs[i := (cs ! i)\<lparr>ch_in := tl (ch_in (cs ! i))\<rparr>]) < inbox cs"
    using check_children_Some [OF assms(2)] by (intro inbox_update) auto
  ultimately show ?thesis unfolding c inbox_deliver by simp
qed

function handle_messages :: "'m handler \<Rightarrow> 'm \<Rightarrow> 'm child list \<Rightarrow> 'm child list res" where
  "handle_messages msg exit_msg children = (case check_children children of
     None \<Rightarrow> Inr children
   | Some i \<Rightarrow> (case handle_one msg exit_msg children i of
       Inl e \<Rightarrow> Inl e | Inr children \<Rightarrow> handle_messages msg exit_msg children))"
  by pat_completeness auto
termination
  by (relation "measure (\<lambda>(msg, e, cs). inbox cs)") (auto dest: handle_one_inbox)

declare handle_messages.simps [simp del]

text \<open>The messages that have come, and the end of a child whose io is dead.\<close>

definition arrive :: "(nat \<times> 'm list) list \<Rightarrow> 'm child list \<Rightarrow> 'm child list" where
  "arrive ms = map (\<lambda>c. if ch_io c then c\<lparr>ch_in := ch_in c @ concat (map snd (filter (\<lambda>(pid, m). pid = ch_pid c) ms))\<rparr> else c)"

definition close_dead :: "nat option \<Rightarrow> 'm family \<Rightarrow> 'm family" where
  "close_dead dead f = (case dead of
     None \<Rightarrow> f
   | Some pid \<Rightarrow> f\<lparr>fam_children := map (\<lambda>c. if ch_io c \<and> ch_pid c = pid then c\<lparr>ch_io := False, ch_in := []\<rparr> else c) (fam_children f),
       fam_killed := fam_killed f @ map ch_pid (filter (\<lambda>c. ch_io c \<and> ch_pid c = pid) (fam_children f))\<rparr>)"

text \<open>Without an io to poll the parent sleeps until all children have ended.\<close>

definition poll_or_sleep :: "'m turn \<Rightarrow> 'm family \<Rightarrow> (int \<times> 'm family) res" where
  "poll_or_sleep t f =
     (if list_ex ch_io (fam_children f) then Inr (0, f\<lparr>fam_children := arrive (tn_arrive t) (fam_children f)\<rparr>)
      else wait_children (tn_sleep t) 0 f)"

definition collect_dead :: "'m turn \<Rightarrow> 'm family \<Rightarrow> (int \<times> 'm family) res" where
  "collect_dead t f = (if tn_sigchld t then wait_children (tn_wait t) 0 f else Inr (0, f))"

definition parent_turn :: "int \<Rightarrow> 'm handler \<Rightarrow> 'm \<Rightarrow> 'm turn \<Rightarrow> 'm parent \<Rightarrow> 'm parent res" where
  "parent_turn max_accts msg exit_msg t p =
     rbind (start_accounts max_accts (tn_pids t) (pa_actaq p) p) (\<lambda>p.
     rbind (poll_or_sleep t (pa_family p)) (\<lambda>(r, f).
     rbind (handle_messages msg exit_msg (fam_children f)) (\<lambda>children.
     rbind (collect_dead t (f\<lparr>fam_children := children\<rparr>)) (\<lambda>(r', f).
       Inr (p\<lparr>pa_family := close_dead (if list_ex ch_io (fam_children (pa_family p)) then tn_dead t else None) f,
         pa_res := (if r \<noteq> 0 \<or> r' \<noteq> 0 then 1 else pa_res p)\<rparr>)))))"

text \<open>Whether the loop was left because of a signal, and the state then.\<close>

fun parent_loop :: "int \<Rightarrow> 'm handler \<Rightarrow> 'm \<Rightarrow> 'm turn list \<Rightarrow> 'm parent \<Rightarrow> (bool \<times> 'm parent) res" where
  "parent_loop max_accts msg exit_msg ts p =
     (if pa_actaq p = [] \<and> fam_children (pa_family p) = [] then Inr (False, p)
      else case ts of
        [] \<Rightarrow> Inl (Diverges ''poll'')
      | t # ts \<Rightarrow>
          if tn_stop t then Inr (True, p)
          else rbind (parent_turn max_accts msg exit_msg t p) (parent_loop max_accts msg exit_msg ts))"

declare parent_loop.simps [simp del]

text \<open>After a signal every child is killed; closing the io of one whose io is closed already follows a null pointer.\<close>

definition parent_stop :: "'m parent \<Rightarrow> 'm parent res" where
  "parent_stop p =
     (let f = pa_family p in
      if list_all ch_io (fam_children f) then
        Inr (p\<lparr>pa_family := f\<lparr>fam_children := [], fam_killed := fam_killed f @ map ch_pid (fam_children f)\<rparr>, pa_res := 1\<rparr>)
      else Inl (MemErr ''io''))"

definition parent_main :: "(char list \<Rightarrow> char list \<Rightarrow> bool) \<Rightarrow> char list list \<Rightarrow> char list list \<Rightarrow> int \<Rightarrow> 'm handler \<Rightarrow> 'm \<Rightarrow> 'm turn list \<Rightarrow>
    account_ref list \<Rightarrow> (int \<times> 'm parent option) res" where
  "parent_main fnm incl excl max_accts msg exit_msg ts accounts =
     (let actaq = active_accounts fnm incl excl accounts in
      if actaq = [] then Inr (1, None)
      else rbind (parent_loop max_accts msg exit_msg ts
             \<lparr>pa_actaq = actaq, pa_family = \<lparr>fam_children = [], fam_dead = [], fam_killed = []\<rparr>, pa_started = [], pa_res = 0\<rparr>) (\<lambda>(stopped, p).
        rbind (if stopped then parent_stop p else Inr p) (\<lambda>p. Inr (pa_res p, Some p))))"

section \<open>Properties\<close>

lemma use_account_iff:
  "use_account fnm incl excl a = None \<longleftrightarrow>
     (if incl = [] then \<not> ar_disabled a else \<exists>p \<in> set incl. fnm p (ar_name a)) \<and> \<not> (\<exists>p \<in> set excl. fnm p (ar_name a))"
  by (auto simp: use_account_def check_incl_def check_excl_def list_ex_iff)

lemma active_accounts_fold:
  "fold (\<lambda>a q. if use_account fnm incl excl a = None then a # q else q) as q = rev (filter (\<lambda>a. use_account fnm incl excl a = None) as) @ q"
  by (induction as arbitrary: q) auto

text \<open>The processes of a family, alive or dead: they are kept by everything but the start of a child.\<close>

definition everyone :: "'m family \<Rightarrow> nat set" where
  "everyone f = ch_pid ` set (fam_children f) \<union> ch_pid ` set (fam_dead f)"

lemma bury_everyone: "everyone (bury pid f) = everyone f"
proof (cases "find_pid pid (fam_children f)")
  case (Some i)
  let ?cs = "fam_children f"
  have i: "i < length ?cs" using Some by (auto simp: find_pid_def find_Some_iff)
  then have "set ?cs = insert (?cs ! i) (set (take i ?cs @ drop (i + 1) ?cs))"
    by (subst id_take_nth_drop [OF i]) auto
  then have "ch_pid ` set ?cs = insert (ch_pid (?cs ! i)) (ch_pid ` set (take i ?cs @ drop (i + 1) ?cs))" by (metis image_insert)
  then show ?thesis using Some by (auto simp: bury_def everyone_def Let_def)
qed (simp add: bury_def)

lemma wait_children_spec: "wait_children ws retcode f = Inr (r, f') \<Longrightarrow> r = 0 \<and> everyone f' = everyone f"
  by (induction ws retcode f rule: wait_children.induct) (simp_all add: bury_everyone)

lemma start_accounts_spec:
  "start_accounts max_accts pids as p = Inr p' \<Longrightarrow>
     map snd (pa_started p') @ pa_actaq p' = map snd (pa_started p) @ as \<and> pa_res p' = pa_res p \<and>
     fst ` set (pa_started p') \<subseteq> fst ` set (pa_started p) \<union> everyone (pa_family p') \<and>
     everyone (pa_family p) \<subseteq> everyone (pa_family p')"
proof (induction as arbitrary: pids p)
  case (Cons a as)
  show ?case
  proof (cases "0 \<le> max_accts \<and> max_accts \<le> int (length (fam_children (pa_family p)))")
    case False
    then obtain pid qs where q: "pids = pid # qs" using Cons.prems by (cases pids) auto
    let ?p = "p\<lparr>pa_started := pa_started p @ [(pid, a)],
        pa_family := (pa_family p)\<lparr>fam_children := fam_children (pa_family p) @ [new_child pid None]\<rparr>\<rparr>"
    have "everyone (pa_family ?p) = insert pid (everyone (pa_family p))" by (auto simp: everyone_def new_child_def)
    moreover have "start_accounts max_accts qs as ?p = Inr p'" using Cons.prems False q by auto
    ultimately show ?thesis using Cons.IH [of qs ?p] by auto
  next
    case True
    then have "p' = p\<lparr>pa_actaq := a # as\<rparr>" using Cons.prems by simp
    then show ?thesis by simp
  qed
qed auto

lemma handle_messages_pids: "handle_messages msg e cs = Inr cs' \<Longrightarrow> ch_pid ` set cs \<subseteq> ch_pid ` set cs'"
proof (induction msg e cs rule: handle_messages.induct)
  case (1 msg e cs)
  show ?case
  proof (cases "check_children cs")
    case None
    then show ?thesis using "1.prems" by (simp add: handle_messages.simps [of _ _ cs])
  next
    case (Some i)
    then obtain ds where d: "handle_one msg e cs i = Inr ds" "handle_messages msg e ds = Inr cs'"
      using "1.prems" by (auto simp: handle_messages.simps [of _ _ cs] split: sum.splits)
    have i: "i < length cs" using check_children_Some [OF Some] by simp
    have "map ch_pid (cs[i := (cs ! i)\<lparr>ch_in := q\<rparr>]) = map ch_pid cs" for q using i by (simp add: map_update list_update_same_conv)
    moreover obtain ms started where "ds = map (deliver_to ms) (cs[i := (cs ! i)\<lparr>ch_in := tl (ch_in (cs ! i))\<rparr>] @
        map (\<lambda>pid. new_child pid (Some (ch_pid (cs ! i)))) started)" using handle_one_shape [OF d(1)] by blast
    moreover have "map ch_pid (map (deliver_to ms) xs) = map ch_pid xs" for ms and xs :: "'a child list" by (simp add: deliver_to_def comp_def)
    ultimately have "map ch_pid ds = map ch_pid cs @ map ch_pid (map (\<lambda>pid. new_child pid (Some (ch_pid (cs ! i))) :: 'a child) started)"
      by (simp only: map_append)
    then have "set (map ch_pid cs) \<subseteq> set (map ch_pid ds)" by simp
    with "1.IH" [OF Some d] show ?thesis by auto
  qed
qed

lemma arrive_pids: "ch_pid ` set (arrive ms cs) = ch_pid ` set cs"
proof -
  have "map ch_pid (arrive ms cs) = map ch_pid cs" by (simp add: arrive_def)
  then show ?thesis by (metis set_map)
qed

lemma arrive_everyone: "everyone (f\<lparr>fam_children := arrive ms (fam_children f)\<rparr>) = everyone f"
  by (simp add: everyone_def arrive_pids)

lemma close_dead_everyone: "everyone (close_dead dead f) = everyone f"
proof (cases dead)
  case (Some pid)
  have "map ch_pid (map (\<lambda>c. if ch_io c \<and> ch_pid c = pid then c\<lparr>ch_io := False, ch_in := []\<rparr> else c) cs) = map ch_pid cs" for cs :: "'a child list"
    by simp
  then have "ch_pid ` set (map (\<lambda>c. if ch_io c \<and> ch_pid c = pid then c\<lparr>ch_io := False, ch_in := []\<rparr> else c) cs) = ch_pid ` set cs" for cs :: "'a child list"
    by (metis set_map)
  then show ?thesis using Some by (simp add: close_dead_def everyone_def)
qed (simp add: close_dead_def)

definition parent_inv :: "account_ref list \<Rightarrow> 'm parent \<Rightarrow> bool" where
  "parent_inv as p \<longleftrightarrow> map snd (pa_started p) @ pa_actaq p = as \<and> fst ` set (pa_started p) \<subseteq> everyone (pa_family p) \<and> pa_res p = 0"

lemma parent_turn_inv [fdm_inv]:
  assumes "parent_turn max_accts msg e t p = Inr p'" "parent_inv as p"
  shows "parent_inv as p'"
proof -
  obtain q r1 f1 cs r2 f2 where t: "start_accounts max_accts (tn_pids t) (pa_actaq p) p = Inr q" "poll_or_sleep t (pa_family q) = Inr (r1, f1)"
      "handle_messages msg e (fam_children f1) = Inr cs" "collect_dead t (f1\<lparr>fam_children := cs\<rparr>) = Inr (r2, f2)"
      "p' = q\<lparr>pa_family := close_dead (if list_ex ch_io (fam_children (pa_family q)) then tn_dead t else None) f2,
         pa_res := (if r1 \<noteq> 0 \<or> r2 \<noteq> 0 then 1 else pa_res q)\<rparr>"
    using assms(1) by (auto simp: parent_turn_def rbind_Inr_iff)
  have e1: "r1 = 0 \<and> everyone f1 = everyone (pa_family q)"
    using t(2) wait_children_spec [of "tn_sleep t" 0 "pa_family q" r1 f1] by (auto simp: poll_or_sleep_def arrive_everyone split: if_splits)
  have e2: "r2 = 0 \<and> everyone f2 = everyone (f1\<lparr>fam_children := cs\<rparr>)"
    using t(4) wait_children_spec [of "tn_wait t" 0 "f1\<lparr>fam_children := cs\<rparr>" r2 f2] by (auto simp: collect_dead_def split: if_splits)
  have "everyone f1 \<subseteq> everyone (f1\<lparr>fam_children := cs\<rparr>)" using handle_messages_pids [OF t(3)] by (auto simp: everyone_def)
  then have "everyone (pa_family q) \<subseteq> everyone (pa_family p')" using e1 e2 t(5) by (simp add: close_dead_everyone)
  moreover have "fst ` set (pa_started q) \<subseteq> everyone (pa_family q)"
    using start_accounts_spec [OF t(1)] assms(2) unfolding parent_inv_def by blast
  ultimately have "fst ` set (pa_started p') \<subseteq> everyone (pa_family p')" using t(5) by auto
  then show ?thesis using start_accounts_spec [OF t(1)] assms(2) e1 e2 t(5) by (simp add: parent_inv_def)
qed

lemma parent_loop_inv:
  "parent_loop max_accts msg e ts p = Inr (stopped, p') \<Longrightarrow> parent_inv as p \<Longrightarrow>
     parent_inv as p' \<and> (\<not> stopped \<longrightarrow> pa_actaq p' = [] \<and> fam_children (pa_family p') = [])"
proof (induction ts arbitrary: p)
  case Nil
  then show ?case by (auto simp: parent_loop.simps split: if_splits)
next
  case (Cons t ts)
  show ?case
  proof (cases "pa_actaq p = [] \<and> fam_children (pa_family p) = [] \<or> tn_stop t")
    case True
    then show ?thesis using Cons.prems by (auto simp: parent_loop.simps [of _ _ _ "t # ts"] split: if_splits)
  next
    case False
    then obtain q where q: "parent_turn max_accts msg e t p = Inr q" "parent_loop max_accts msg e ts q = Inr (stopped, p')"
      using Cons.prems(1) by (auto simp: parent_loop.simps [of _ _ _ "t # ts"] rbind_Inr_iff)
    from Cons.IH [OF q(2) parent_turn_inv [OF q(1) Cons.prems(2)]] show ?thesis .
  qed
qed

text \<open>
  C15: when the parent ends without a signal it has started every account that is to be used, the last one first, and the
  process of each is among those that have ended. Its own exit status is 0 then, whatever status or signal its children ended
  with: what \<open>wait_children\<close> notes for them is never returned, so that a fetch that failed cannot be seen from outside.
\<close>

theorem parent_runs_all:
  assumes "parent_main fnm incl excl max_accts msg e ts accounts = Inr (status, Some p)" "\<forall>t \<in> set ts. \<not> tn_stop t"
  shows "map snd (pa_started p) = rev (filter (\<lambda>a. use_account fnm incl excl a = None) accounts) \<and>
    fst ` set (pa_started p) \<subseteq> ch_pid ` set (fam_dead (pa_family p)) \<and> fam_children (pa_family p) = [] \<and> status = 0"
proof -
  let ?as = "active_accounts fnm incl excl accounts"
  let ?p = "\<lparr>pa_actaq = ?as, pa_family = \<lparr>fam_children = [], fam_dead = [], fam_killed = []\<rparr>, pa_started = [], pa_res = 0\<rparr>"
  obtain stopped p1 where l: "parent_loop max_accts msg e ts ?p = Inr (stopped, p1)"
      "rbind (if stopped then parent_stop p1 else Inr p1) (\<lambda>p. Inr (pa_res p, Some p)) = Inr (status, Some p)"
    using assms(1) by (auto simp: parent_main_def Let_def rbind_Inr_iff split: if_splits)
  have never: "\<forall>t \<in> set ts. \<not> tn_stop t \<Longrightarrow> parent_loop max_accts msg e ts q = Inr (stopped, p1) \<Longrightarrow> \<not> stopped" for q
  proof (induction ts arbitrary: q)
    case Nil
    then show ?case by (auto simp: parent_loop.simps split: if_splits)
  next
    case (Cons t ts)
    then show ?case by (auto simp: parent_loop.simps [of _ _ _ "t # ts"] rbind_Inr_iff split: if_splits)
  qed
  have "\<not> stopped" using never [OF assms(2) l(1)] .
  moreover have "parent_inv ?as ?p" by (simp add: parent_inv_def)
  ultimately have "parent_inv ?as p" "pa_actaq p = []" "fam_children (pa_family p) = []" "status = pa_res p"
    using parent_loop_inv [OF l(1)] l(2) by auto
  moreover have "?as = rev (filter (\<lambda>a. use_account fnm incl excl a = None) accounts)"
    using active_accounts_fold [of fnm incl excl accounts "[]"] by (simp add: active_accounts_def)
  ultimately show ?thesis by (auto simp: parent_inv_def everyone_def)
qed

definition sample_turn :: "char turn" where
  "sample_turn = \<lparr>tn_stop = False, tn_pids = [7, 8], tn_arrive = [(8, ''ab'')], tn_dead = None, tn_sleep = [], tn_sigchld = True,
     tn_wait = [ChildExited 8 1, ChildSignaled 7 11, NoChildren]\<rparr>"

definition sample_handler :: "char handler" where
  "sample_handler c m = Inr (m = CHR ''b'', None, [])"

definition sample_accounts :: "account_ref list" where
  "sample_accounts = [\<lparr>ar_name = ''one'', ar_disabled = False\<rparr>, \<lparr>ar_name = ''two'', ar_disabled = True\<rparr>, \<lparr>ar_name = ''three'', ar_disabled = False\<rparr>]"

definition sample_run :: "(int \<times> char parent option) res" where
  "sample_run = parent_main (=) [] [] (- 1) sample_handler CHR ''x'' [sample_turn] sample_accounts"

lemma parent_runs_all_witness:
  "\<exists>p. sample_run = Inr (0, Some p) \<and> map (ar_name \<circ> snd) (pa_started p) = [''three'', ''one''] \<and> {7, 8} \<subseteq> ch_pid ` set (fam_dead (pa_family p))"
proof -
  have "case sample_run of Inr (status, Some p) \<Rightarrow> map fst (pa_started p) = [7, 8] | _ \<Rightarrow> False" by code_simp
  then obtain status p where p: "sample_run = Inr (status, Some p)" "map fst (pa_started p) = [7, 8]"
    by (auto split: sum.splits option.splits)
  have "\<forall>t \<in> set [sample_turn]. \<not> tn_stop t" by (simp add: sample_turn_def)
  from parent_runs_all [OF p(1) [unfolded sample_run_def] this]
  have r: "map snd (pa_started p) = rev (filter (\<lambda>a. use_account (=) [] [] a = None) sample_accounts)" "status = 0"
    "fst ` set (pa_started p) \<subseteq> ch_pid ` set (fam_dead (pa_family p))" by simp_all
  have "fst ` set (pa_started p) = {7, 8}" using p(2) by (metis empty_set list.simps(15) set_map)
  then have "{7, 8} \<subseteq> ch_pid ` set (fam_dead (pa_family p))" using r(3) by blast
  moreover have "map snd (pa_started p) = [\<lparr>ar_name = ''three'', ar_disabled = False\<rparr>, \<lparr>ar_name = ''one'', ar_disabled = False\<rparr>]"
    using r(1) by (simp add: use_account_iff sample_accounts_def)
  then have "map ar_name (map snd (pa_started p)) = [''three'', ''one'']" by simp
  then have "map (ar_name \<circ> snd) (pa_started p) = [''three'', ''one'']" by (simp only: map_map)
  moreover have "sample_run = Inr (0, Some p)" using p(1) r(2) by simp
  ultimately show ?thesis by (intro exI [of _ p] conjI)
qed

end
