(* ===== verification/Spec2Isabelle.thy ===== *)
theory Spec2Isabelle
  imports Fdm_Prelude Xmalloc Buffer Strb Mail Mail_Text Attach Replace Match MailState Io Io_Wire Fetch FetchQueue Pop3 Pop3_Correct
    Imap Imap_Correct Nntp File Shm Array DeliverFile FetchMbox Mbox_Correct Cache Command Deliver Parent Parent_Correct FetchMaildir
    FetchPipe Smtp Smtp_Correct ImapDeliver Lex Lex_Correct Netrc Connect Connect_Correct Config Privsep Fdm_Main
begin

text \<open>
  \<^bold>\<open>fdm\<close> fetches mail from accounts, checks it against rules and delivers it. This library models its C code under
  \<^verbatim>\<open>src/\<close> and states what makes each part correct. The names of definitions are the names of the C functions; a helper
  that stands for a part of a function (a loop body, a branch) has a name of its own and is used where the function has
  that part.

  \<^bold>\<open>How the program works and where it is modelled.\<close>
  \<^item> A process for each account (\<^verbatim>\<open>child-fetch.c\<close>, theory FetchQueue) calls the states of a fetch handler, puts the mails
    it gives into a queue for matching and one for delivery and takes them out when they are done. The handlers are POP3
    (\<^verbatim>\<open>pop3-common.c\<close>, \<^verbatim>\<open>fetch-pop3.c\<close>: Pop3), IMAP (\<^verbatim>\<open>imap-common.c\<close>, \<^verbatim>\<open>fetch-imap.c\<close>: Imap), both over a command instead of
    a connection (\<^verbatim>\<open>fetch-pop3pipe.c\<close>, \<^verbatim>\<open>fetch-imappipe.c\<close>: FetchPipe), NNTP (\<^verbatim>\<open>fetch-nntp.c\<close>: Nntp), mboxes (\<^verbatim>\<open>fetch-mbox.c\<close>:
    FetchMbox), maildirs and the standard input (\<^verbatim>\<open>fetch-maildir.c\<close>, \<^verbatim>\<open>fetch-stdin.c\<close>: FetchMaildir). What they share is in
    Fetch (\<^verbatim>\<open>fetch.h\<close>). A handler is a record of functions and its state, a function pointer in C, a datatype.
  \<^item> A mail is a block of memory with offsets (\<^verbatim>\<open>mail.c\<close>: Mail, Mail_Text), its parts a tree (\<^verbatim>\<open>attach.c\<close>: Attach), its tags
    a string block (\<^verbatim>\<open>strb.c\<close>: Strb) that templates are expanded with (\<^verbatim>\<open>replace.c\<close>, \<^verbatim>\<open>mail-time.c\<close>: Replace).
  \<^item> Conditions (\<^verbatim>\<open>match-*.c\<close>, \<^verbatim>\<open>re.c\<close>: Match) and the machine that walks the rules and queues the actions
    (\<^verbatim>\<open>mail-state.c\<close>: MailState).
  \<^item> Actions on the mail itself and through commands (\<^verbatim>\<open>deliver-add-header.c\<close> and others: Deliver), into files, maildirs and
    mboxes (\<^verbatim>\<open>deliver-write.c\<close>, \<^verbatim>\<open>deliver-maildir.c\<close>, \<^verbatim>\<open>deliver-mbox.c\<close>: DeliverFile), over SMTP (\<^verbatim>\<open>deliver-smtp.c\<close>: Smtp) and
    IMAP (\<^verbatim>\<open>deliver-imap.c\<close>: ImapDeliver), and on caches (\<^verbatim>\<open>db-tdb.c\<close>, \<^verbatim>\<open>cache-op.c\<close>: Cache).
  \<^item> Actions that need another user and conditions on commands are requests to the parent, which runs a child for each
    (\<^verbatim>\<open>parent-fetch.c\<close>, \<^verbatim>\<open>parent-deliver.c\<close>, \<^verbatim>\<open>child-deliver.c\<close>: Parent).
  \<^item> Below all of it: allocation (\<^verbatim>\<open>xmalloc.c\<close>: Xmalloc), byte buffers (\<^verbatim>\<open>buffer.c\<close>: Buffer), buffered connections (\<^verbatim>\<open>io.c\<close>: Io),
    files, locks and the cleanup list (\<^verbatim>\<open>file.c\<close>, \<^verbatim>\<open>cleanup.c\<close>: File), commands (\<^verbatim>\<open>command.c\<close>, \<^verbatim>\<open>timer.c\<close>: Command).
  \<^item> The main program starts a child for each account and handles what they send (\<^verbatim>\<open>fdm.c\<close>, \<^verbatim>\<open>child.c\<close>: Fdm_Main); the
    messages are structures with a block behind them (\<^verbatim>\<open>privsep.c\<close>: Privsep), the texts of mails are in shared memory
    (\<^verbatim>\<open>shm-mmap.c\<close>: Shm), lists are growing arrays (\<^verbatim>\<open>array.h\<close>: Array).
  \<^item> Connections with their proxies and certificates (\<^verbatim>\<open>connect.c\<close>: Connect, Connect_Correct; what goes over a connection in
    general: Io_Wire).
  \<^item> The configuration: its lexer with macros and conditional sections (\<^verbatim>\<open>lex.c\<close>: Lex, Lex_Correct), users, expressions and the
    output of commands (\<^verbatim>\<open>lookup-*.c\<close>, \<^verbatim>\<open>pcre.c\<close>, \<^verbatim>\<open>parse-fn.c\<close>: Config), passwords from a netrc file (\<^verbatim>\<open>netrc.c\<close>: Netrc).

  \<^bold>\<open>Conventions.\<close> A call of \<open>fatal\<close> is \<open>Inl (FatalX msg)\<close>, an access outside a block, of freed memory or through a null
  pointer is \<open>Inl (MemErr what)\<close>, and a loop that does not end \<open>Inl (Diverges what)\<close> (Fdm_Prelude), so that a theorem which
  says that a call gives \<open>Inr\<close> says that it is safe and returns. Sizes in Buffer, Xmalloc and Io are 64-bit words; offsets
  elsewhere are natural numbers with the wrap-around written out where the code relies on it (\<open>size_sub\<close>). What the system
  answers - the data that arrives, the results of \<open>poll\<close>, \<open>open\<close>, \<open>waitpid\<close>, the clock, file contents - is an argument. Code
  outside \<^verbatim>\<open>src/\<close> (regular expressions, TDB, OpenSSL digests and connections, \<open>glob\<close>) is a parameter of the definitions.

  \<^bold>\<open>What is shown.\<close> A buffer is a queue of bytes and a string block a map; lines go through an io whatever the pieces
  they arrive in; replacement is the expansion of the template and stays in its block; adding and removing headers, and
  wrapping and unwrapping them, are inverse; the walk over parts is complete (where it is); the rule machine computes the
  recursive reading of the rules; queues are bounded; POP3 and IMAP fetches that end have committed all that was
  counted; caches of UIDs survive writing and reading; maildir delivery and locks are safe against other processes and
  find a name when the system refuses nothing; mbox delivery followed by mbox fetching gives the mails back; SMTP and IMAP delivery write the mail on the
  wire; an action has the same effect in a child of the parent as in place. The lexer reads back the tokens that
  were written; a certificate with a valid chain and a common name is accepted only for a name of the host (or when the host
  has no full name); the parent has run every account when it ends; a message between processes and a request to a proxy are
  read as they were sent. Theorems that show a flaw of the code say so in their text.

  \<^bold>\<open>Interfaces.\<close> Contracts between components are locales with an interpretation on the model's definitions, in the theory
  that provides them.

  \<^bold>\<open>Fuel.\<close> Loops whose end depends on a server or on the system take the answers that are still to come as a list, which
  bounds them, or a number: Attach takes twice the size of the mail (shown to be enough), DeliverFile one attempt more than
  there are files (shown to be enough), ImapDeliver one round more than there are answers (shown to be enough), the
  loops over lines in Imap and Pop3 the number of lines a call reads, the header of an answer of a proxy in Connect a number of
  lines, the loop of the parent a list of turns. Running out is \<open>Diverges\<close>, never a result.

  \<^bold>\<open>Not modelled.\<close> Logging and the descriptions for it (\<^verbatim>\<open>log.c\<close>, the \<open>*_desc\<close> functions, what \<open>main\<close> prints of its
  options, the \<open>print_*\<close> functions of \<^verbatim>\<open>parse-fn.c\<close>), the functions that only free memory, the handlers of signals and what
  \<^verbatim>\<open>child.c\<close> does in a new process, the bookkeeping of \<^verbatim>\<open>xmalloc-debug.c\<close>, the yacc grammar, and the macros of BSD in
  \<^verbatim>\<open>compat/queue.h\<close> and \<^verbatim>\<open>compat/tree.h\<close>: they are system calls, output, or generated and third-party code. Of the two
  ways \<^verbatim>\<open>shm_resize\<close> can be built the one without \<^verbatim>\<open>HAVE_MREMAP\<close> is modelled, which unmaps the memory and maps it again.
\<close>

end
